(* ===== verification/Gw_Prelude.thy ===== *)
theory Gw_Prelude
  imports Main "HOL-Library.Signed_Division"
begin

text \<open>
  Shared vocabulary of the development: Go's 64-bit integers, points in time, panics, and the
  generic lemmas on lists and maps the component theories use.

  \<^item> A Go \<open>int\<close> or \<open>int64\<close> is an \<open>int\<close> kept inside \<open>is_i64\<close>; every arithmetic operation of the
    source that could leave the range is followed by \<open>wrap64\<close>, the two's complement
    wrap-around. Go's \<open>/\<close> and \<open>%\<close> truncate towards zero: they are \<open>sdiv\<close> and \<open>smod\<close>.
  \<^item> A \<open>time.Time\<close> is a count of nanoseconds; the zero value, which the source tests with
    \<open>IsZero\<close>, is \<open>None\<close>. A \<open>time.Duration\<close> is a count of nanoseconds.
  \<^item> A panic is a value of its own, so that it can be proved absent.
\<close>

named_theorems i64_simps \<open>range facts about 64-bit integers\<close>
named_theorems inv_intros \<open>preservation of component invariants\<close>
named_theorems frame_simps \<open>fields an operation leaves unchanged\<close>

section \<open>64-bit integers\<close>

definition MaxInt64 :: int where
  "MaxInt64 = 9223372036854775807"

definition MinInt64 :: int where
  "MinInt64 = - 9223372036854775808"

definition is_i64 :: "int \<Rightarrow> bool" where
  "is_i64 x \<longleftrightarrow> MinInt64 \<le> x \<and> x \<le> MaxInt64"

definition wrap64 :: "int \<Rightarrow> int" where
  "wrap64 x = signed_take_bit 63 x"

lemma wrap64_id [simp, i64_simps]: "is_i64 x \<Longrightarrow> wrap64 x = x"
  unfolding wrap64_def is_i64_def MinInt64_def MaxInt64_def
  by (rule signed_take_bit_int_eq_self) auto

lemma is_i64_wrap64 [simp, i64_simps]: "is_i64 (wrap64 x)"
  using signed_take_bit_int_less_exp [of 63 x] signed_take_bit_int_greater_eq_minus_exp [of 63 x]
  unfolding wrap64_def is_i64_def MinInt64_def MaxInt64_def by simp

lemma is_i64_nonneg: "0 \<le> x \<Longrightarrow> x \<le> y \<Longrightarrow> is_i64 y \<Longrightarrow> is_i64 x"
  by (simp add: is_i64_def MinInt64_def)

lemma is_i64_le [dest]: "is_i64 x \<Longrightarrow> x \<le> MaxInt64"
  by (simp add: is_i64_def)

lemma is_i64_0 [simp]: "is_i64 0" and is_i64_1 [simp]: "is_i64 1"
  by (simp_all add: is_i64_def MinInt64_def MaxInt64_def)

lemma is_i64_MaxInt64 [simp]: "is_i64 MaxInt64" and is_i64_MinInt64 [simp]: "is_i64 MinInt64"
  by (simp_all add: is_i64_def MinInt64_def MaxInt64_def)

lemma MaxInt64_nonneg [simp]: "0 \<le> MaxInt64"
  by (simp add: MaxInt64_def)

lemmas i64_defs = is_i64_def MinInt64_def MaxInt64_def

lemma sdiv_nonneg: "0 \<le> a \<Longrightarrow> 0 \<le> b \<Longrightarrow> a sdiv b = a div b" for a b :: int
  by (cases "b = 0") (auto simp: signed_divide_int_def sgn_if)

lemma smod_nonneg: "0 \<le> a \<Longrightarrow> 0 < b \<Longrightarrow> a smod b = a mod b" for a b :: int
  by (cases "a = 0") (auto simp: signed_modulo_int_def)

section \<open>Time and panics\<close>

type_synonym gotime = int
type_synonym duration = int

definition Millisecond :: duration where [simp]: "Millisecond = 1000000"

definition Second :: duration where [simp]: "Second = 1000000000"

definition Minute :: duration where [simp]: "Minute = 60000000000"

datatype panic = Panic string

type_synonym 'a may_panic = "panic + 'a"

section \<open>Strings\<close>

text \<open>A Go string is a list of bytes. \<open>strings.TrimSpace\<close> strips the ASCII white space at both
  ends; the multi-byte spaces of Unicode, which it also strips, are left in place here.\<close>

definition is_space :: "char \<Rightarrow> bool" where
  "is_space c \<longleftrightarrow> c \<in> set [CHR 0x09, CHR 0x0A, CHR 0x0B, CHR 0x0C, CHR 0x0D, CHR '' '']"

definition TrimSpace :: "string \<Rightarrow> string" where
  "TrimSpace s = rev (dropWhile is_space (rev (dropWhile is_space s)))"

lemma dropWhile_rev_dropWhile_idem:
  "dropWhile P (rev (dropWhile P (rev (dropWhile P xs)))) = rev (dropWhile P (rev (dropWhile P xs)))"
proof (cases "dropWhile P xs")
  case (Cons y ys)
  then have "\<not> P y" by (metis hd_dropWhile list.distinct(1) list.sel(1))
  then have "dropWhile P (rev (dropWhile P (rev (y # ys)))) = rev (dropWhile P (rev (y # ys)))"
    by (simp add: dropWhile_append)
  with Cons show ?thesis by simp
next
  case Nil
  show ?thesis unfolding Nil by simp
qed

lemma TrimSpace_idem [simp]: "TrimSpace (TrimSpace s) = TrimSpace s"
  unfolding TrimSpace_def by (simp add: dropWhile_rev_dropWhile_idem)

lemma TrimSpace_Nil [simp]: "TrimSpace [] = []"
  by (simp add: TrimSpace_def)

text \<open>\<open>strings.Contains\<close>.\<close>

fun str_contains :: "string \<Rightarrow> string \<Rightarrow> bool" where
  "str_contains [] pat = (pat = [])"
| "str_contains (c # s) pat = (take (length pat) (c # s) = pat \<or> str_contains s pat)"

section \<open>Lists\<close>

lemma sum_list_map_mono:
  "(\<And>x. x \<in> set xs \<Longrightarrow> f x \<le> g x) \<Longrightarrow> sum_list (map f xs) \<le> sum_list (map g xs)"
  for f g :: "'a \<Rightarrow> int"
  by (induction xs) (auto intro: add_mono)

lemma sum_list_map_nonneg:
  "(\<And>x. x \<in> set xs \<Longrightarrow> 0 \<le> f x) \<Longrightarrow> 0 \<le> sum_list (map f xs)" for f :: "'a \<Rightarrow> int"
  by (induction xs) auto

section \<open>Results\<close>

text \<open>Chaining of calls that may fail: \<open>if err != nil { return ..., err }\<close>.\<close>

definition bind_ok :: "'e + 'a \<Rightarrow> ('a \<Rightarrow> 'e + 'b) \<Rightarrow> 'e + 'b" where
  "bind_ok x f = (case x of Inl e \<Rightarrow> Inl e | Inr y \<Rightarrow> f y)"

lemma bind_ok_simps [simp]: "bind_ok (Inl e) f = Inl e" "bind_ok (Inr y) f = f y"
  by (simp_all add: bind_ok_def)

lemma bind_ok_Inr_iff: "bind_ok x f = Inr z \<longleftrightarrow> (\<exists>y. x = Inr y \<and> f y = Inr z)"
  by (cases x) simp_all

lemma bind_okE [elim]:
  assumes "bind_ok x f = Inr z"
  obtains y where "x = Inr y" and "f y = Inr z"
  using assms by (auto simp: bind_ok_Inr_iff)

lemma if_Inl_eq_Inr: "(if b then Inl e else x) = Inr y \<longleftrightarrow> \<not> b \<and> x = Inr y"
  by simp

fun fold_ok :: "('a \<Rightarrow> 's \<Rightarrow> 'e + 's) \<Rightarrow> 'a list \<Rightarrow> 's \<Rightarrow> 'e + 's" where
  "fold_ok f [] s = Inr s"
| "fold_ok f (x # xs) s = bind_ok (f x s) (fold_ok f xs)"

lemma fold_ok_invariant:
  assumes "fold_ok f xs s = Inr s'" and "P s"
    and "\<And>x s s'. x \<in> set xs \<Longrightarrow> P s \<Longrightarrow> f x s = Inr s' \<Longrightarrow> P s'"
  shows "P s'"
  using assms
proof (induction xs arbitrary: s)
  case (Cons x xs)
  from Cons.prems(1) obtain t where t: "f x s = Inr t" "fold_ok f xs t = Inr s'" by auto
  show ?case
  proof (rule Cons.IH [OF t(2)])
    show "P t" using Cons.prems(3) [OF _ Cons.prems(2) t(1)] by simp
  qed (use Cons.prems(3) in auto)
qed simp

section \<open>Decimal numbers\<close>

text \<open>\<open>fmt.Sprintf("%d")\<close>.\<close>

fun show_nat :: "nat \<Rightarrow> string" where
  "show_nat n = (if n < 10 then [char_of (48 + n)] else show_nat (n div 10) @ [char_of (48 + n mod 10)])"

declare show_nat.simps [simp del]

definition show_int :: "int \<Rightarrow> string" where
  "show_int i = (if i < 0 then CHR ''-'' # show_nat (nat (- i)) else show_nat (nat i))"

fun digits_value :: "string \<Rightarrow> nat \<Rightarrow> nat" where
  "digits_value [] a = a"
| "digits_value (c # cs) a = digits_value cs (10 * a + (of_char c - 48))"

lemma digits_value_append: "digits_value (xs @ ys) a = digits_value ys (digits_value xs a)"
  by (induction xs arbitrary: a) auto

lemma digits_value_show: "digits_value (show_nat n) 0 = n"
proof (induction n rule: show_nat.induct)
  case (1 n)
  show ?case
  proof (cases "n < 10")
    case True
    then show ?thesis by (subst show_nat.simps) simp
  next
    case False
    have "n mod 10 < 10" by simp
    with False 1 show ?thesis by (subst show_nat.simps) (simp add: digits_value_append)
  qed
qed

lemma show_nat_inject: "show_nat m = show_nat n \<longleftrightarrow> m = n"
  by (metis digits_value_show)

lemma set_show_nat: "c \<in> set (show_nat n) \<Longrightarrow> 48 \<le> (of_char c :: nat) \<and> (of_char c :: nat) \<le> 57"
proof (induction n rule: show_nat.induct)
  case (1 n)
  show ?case
  proof (cases "n < 10")
    case True
    with 1 show ?thesis by (subst (asm) show_nat.simps) auto
  next
    case False
    have "n mod 10 < 10" by simp
    with False 1 show ?thesis by (subst (asm) (2) show_nat.simps) auto
  qed
qed

lemma minus_not_digit: "CHR ''-'' \<notin> set (show_nat n)"
  using set_show_nat [of "CHR ''-''" n] by auto

lemma show_int_inject: "show_int a = show_int b \<longleftrightarrow> a = b"
proof
  assume eq: "show_int a = show_int b"
  have neg: "show_nat n \<noteq> CHR ''-'' # xs" for n xs using minus_not_digit [of n] by (metis list.set_intros(1))
  show "a = b"
    using eq neg [of "nat a" "show_nat (nat (- b))"] neg [of "nat b" "show_nat (nat (- a))"]
    by (auto simp: show_int_def show_nat_inject split: if_splits)
qed simp

end
