(* ===== verification/Microcents.thy ===== *)
theory Microcents
  imports Gw_Prelude
begin

text \<open>
  The money unit of the gateway (\<^verbatim>\<open>internal/store/microcents.go\<close>): exact costs are integer
  micro-cents, limits and reports are whole cents. The four conversions, with their panics and
  their saturation, and the facts about them that budgets and pricing rest on: rounding up is
  the exact ceiling, a saturated limit decides like the unbounded one, addition never wraps.
\<close>

definition MicrocentsPerCent :: int where
  "MicrocentsPerCent = 1000000"

definition CeilCents :: "int \<Rightarrow> int may_panic" where
  "CeilCents microcents =
     (if microcents < 0 then Inl (Panic ''store: negative microcents'')
      else let cents = microcents sdiv MicrocentsPerCent in
           if microcents smod MicrocentsPerCent \<noteq> 0 then Inr (wrap64 (cents + 1))
           else Inr cents)"

definition LimitMicrocents :: "int \<Rightarrow> int may_panic" where
  "LimitMicrocents limitCents =
     (if limitCents < 0 then Inl (Panic ''store: negative limit'')
      else if limitCents > MaxInt64 sdiv MicrocentsPerCent then Inr MaxInt64
      else Inr (wrap64 (limitCents * MicrocentsPerCent)))"

definition EffectiveMicrocents :: "int \<Rightarrow> int option \<Rightarrow> int" where
  "EffectiveMicrocents cents exact =
     (case exact of
        Some e \<Rightarrow> e
      | None \<Rightarrow>
          if cents < (- MaxInt64) sdiv MicrocentsPerCent then MinInt64
          else if cents > MaxInt64 sdiv MicrocentsPerCent then MaxInt64
          else wrap64 (cents * MicrocentsPerCent))"

definition AddMicrocents :: "int \<Rightarrow> int \<Rightarrow> string + int" where
  "AddMicrocents a b =
     (if a < 0 \<or> b < 0 \<or> a > wrap64 (MaxInt64 - b) then Inl ''micro-cent total exceeds int64''
      else Inr (wrap64 (a + b)))"

section \<open>Rounding up\<close>

lemma MaxInt64_sdiv: "MaxInt64 sdiv MicrocentsPerCent = 9223372036854"
  by (simp add: MaxInt64_def MicrocentsPerCent_def sdiv_nonneg)

lemma minus_MaxInt64_sdiv: "(- MaxInt64) sdiv MicrocentsPerCent = - 9223372036854"
  by (simp add: MaxInt64_def MicrocentsPerCent_def signed_divide_int_def)

lemma CeilCents_eq:
  assumes "0 \<le> m" and "is_i64 m"
  shows "CeilCents m = Inr (m div 1000000 + (if m mod 1000000 = 0 then 0 else 1))"
proof -
  have "0 \<le> m div 1000000" "m div 1000000 \<le> m" using assms(1) by auto
  then have "is_i64 (m div 1000000 + 1)"
    using assms mult_div_mod_eq [of 1000000 m] pos_mod_sign [of 1000000 m]
    by (simp add: i64_defs)
  with assms(1) show ?thesis
    by (simp add: CeilCents_def MicrocentsPerCent_def sdiv_nonneg smod_nonneg Let_def)
qed

lemma CeilCents_negative: "m < 0 \<Longrightarrow> CeilCents m = Inl (Panic ''store: negative microcents'')"
  by (simp add: CeilCents_def)

lemma CeilCents_not_panic: "0 \<le> m \<Longrightarrow> \<exists>c. CeilCents m = Inr c"
  by (simp add: CeilCents_def Let_def)

lemma CeilCents_bound:
  assumes "0 \<le> m" and "is_i64 m" and "CeilCents m = Inr c"
  shows "0 \<le> c" and "c \<le> 9223372036855" and "(c - 1) * 1000000 < m" and "m \<le> c * 1000000"
proof -
  define q r where "q = m div 1000000" and "r = m mod 1000000"
  then have m: "m = 1000000 * q + r" and r: "0 \<le> r" "r < 1000000" and q: "0 \<le> q"
    using assms(1) by simp_all
  have c: "c = q + (if r = 0 then 0 else 1)"
    using assms CeilCents_eq by (simp add: q_def r_def)
  have max: "m \<le> 9223372036854775807" using assms(2) by (simp add: i64_defs)
  show "0 \<le> c" and "c \<le> 9223372036855" and "(c - 1) * 1000000 < m" and "m \<le> c * 1000000"
    using c m r q max by (auto split: if_splits)
qed

section \<open>Limits\<close>

lemma LimitMicrocents_eq:
  "0 \<le> l \<Longrightarrow> LimitMicrocents l = Inr (min MaxInt64 (l * MicrocentsPerCent))"
  unfolding LimitMicrocents_def MaxInt64_sdiv
  by (auto simp: MicrocentsPerCent_def i64_defs)

lemma LimitMicrocents_range:
  "0 \<le> l \<Longrightarrow> LimitMicrocents l = Inr m \<Longrightarrow> 0 \<le> m \<and> is_i64 m"
  by (auto simp: LimitMicrocents_eq MicrocentsPerCent_def i64_defs)

lemma LimitMicrocents_decides:
  "0 \<le> l \<Longrightarrow> is_i64 x \<Longrightarrow> LimitMicrocents l = Inr m \<Longrightarrow> x \<le> m \<longleftrightarrow> x \<le> l * 1000000"
  by (auto simp: LimitMicrocents_eq MicrocentsPerCent_def i64_defs)

section \<open>Stored amounts\<close>

lemma EffectiveMicrocents_exact [simp]: "EffectiveMicrocents c (Some e) = e"
  by (simp add: EffectiveMicrocents_def)

lemma EffectiveMicrocents_range:
  "(\<And>e. exact = Some e \<Longrightarrow> is_i64 e) \<Longrightarrow> is_i64 (EffectiveMicrocents c exact)"
  by (simp add: EffectiveMicrocents_def split: option.split)

lemma EffectiveMicrocents_history:
  assumes "is_i64 (c * 1000000)"
  shows "EffectiveMicrocents c None = c * 1000000"
proof -
  have "\<not> c < - 9223372036854" "\<not> c > 9223372036854"
    using assms by (auto simp: i64_defs)
  then show ?thesis
    using assms unfolding EffectiveMicrocents_def MaxInt64_sdiv minus_MaxInt64_sdiv
    by (simp add: MicrocentsPerCent_def)
qed

lemma EffectiveMicrocents_nonneg:
  "0 \<le> c \<Longrightarrow> (\<And>e. exact = Some e \<Longrightarrow> 0 \<le> e) \<Longrightarrow> 0 \<le> EffectiveMicrocents c exact"
  unfolding EffectiveMicrocents_def MaxInt64_sdiv minus_MaxInt64_sdiv
  by (auto simp: MicrocentsPerCent_def i64_defs split: option.split)

lemma AddMicrocents_cases:
  assumes "is_i64 a" and "is_i64 b"
  shows "AddMicrocents a b =
    (if 0 \<le> a \<and> 0 \<le> b \<and> is_i64 (a + b) then Inr (a + b)
     else Inl ''micro-cent total exceeds int64'')"
proof (cases "a < 0 \<or> b < 0")
  case True
  then show ?thesis by (auto simp: AddMicrocents_def)
next
  case False
  then have "is_i64 (MaxInt64 - b)" using assms by (auto simp: i64_defs)
  with False assms show ?thesis by (auto simp: AddMicrocents_def i64_defs)
qed

text \<open>Rounding a non-negative int64 amount of micro-cents up to whole cents never panics or
  overflows and yields the least number of cents that covers the amount; in particular a
  positive amount is never reported as zero.\<close>

theorem ceil_cents_exact_ceiling:
  assumes "0 \<le> m" and "is_i64 m"
  shows "\<exists>c. CeilCents m = Inr c \<and> is_i64 c \<and> m \<le> c * 1000000 \<and> (c - 1) * 1000000 < m
           \<and> (0 < m \<longrightarrow> 0 < c)"
proof -
  obtain c where c: "CeilCents m = Inr c" using CeilCents_not_panic assms(1) by blast
  note b = CeilCents_bound [OF assms c]
  have "is_i64 c" using b(1,2) by (simp add: i64_defs)
  moreover have "0 < m \<longrightarrow> 0 < c" using b by auto
  ultimately show ?thesis using c b(3,4) by auto
qed

theorem ceil_cents_exact_ceiling_witness:
  "\<exists>c. CeilCents 1000001 = Inr c \<and> is_i64 c \<and> 1000001 \<le> c * 1000000 \<and> (c - 1) * 1000000 < 1000001"
  using ceil_cents_exact_ceiling [of 1000001] by (auto simp: i64_defs)

text \<open>Converting a whole-cent limit to micro-cents saturates at the largest int64 without
  changing any decision: an int64 amount is within the converted limit exactly when it is
  within the limit taken as an unbounded number.\<close>

theorem limit_saturation_is_harmless:
  assumes "0 \<le> limit" and "is_i64 amount"
  shows "\<exists>m. LimitMicrocents limit = Inr m \<and> is_i64 m \<and> (amount \<le> m \<longleftrightarrow> amount \<le> limit * 1000000)"
proof -
  obtain m where m: "LimitMicrocents limit = Inr m" using assms(1) by (simp add: LimitMicrocents_eq)
  then show ?thesis
    using LimitMicrocents_range [OF assms(1) m] LimitMicrocents_decides [OF assms m] by blast
qed

theorem limit_saturation_is_harmless_witness:
  "\<exists>m. LimitMicrocents 9223372036855 = Inr m \<and> is_i64 m
       \<and> (5 \<le> m \<longleftrightarrow> (5::int) \<le> 9223372036855 * 1000000)"
  using limit_saturation_is_harmless [of 9223372036855 5] by (auto simp: i64_defs)

end
