(* ===== verification/Calendar.thy ===== *)
theory Calendar
  imports Gw_Prelude
begin

text \<open>
  The part of Go's \<^verbatim>\<open>time\<close> package that the budget and alert windows use: the proleptic
  Gregorian calendar in UTC. A date is the number of days since 1 January 1970. The split of a
  date into year and day of the year goes through the cycles of 400, 100, 4 and 1 years. The
  theorems: the split is a bijection, so that the months partition the days.
\<close>

definition day_ns :: duration where
  "day_ns = 86400000000000"

definition utc_day :: "gotime \<Rightarrow> int" where
  "utc_day t = t div day_ns"

definition epoch_day :: int where
  "epoch_day = 719162"

definition is_leap :: "int \<Rightarrow> bool" where
  "is_leap y \<longleftrightarrow> y mod 4 = 0 \<and> (y mod 100 \<noteq> 0 \<or> y mod 400 = 0)"

text \<open>The first day of year \<open>y\<close>, counted from 1 January of year 1.\<close>

definition year_start :: "int \<Rightarrow> int" where
  "year_start y = 365 * (y - 1) + (y - 1) div 4 - (y - 1) div 100 + (y - 1) div 400"

text \<open>Year and day of the year of a day counted from 1 January of year 1.\<close>

definition split_year :: "int \<Rightarrow> int \<times> int" where
  "split_year d =
     (let n400 = d div 146097; d400 = d mod 146097;
          n100 = min 3 (d400 div 36524); d100 = d400 - 36524 * n100;
          n4 = d100 div 1461; d4 = d100 mod 1461;
          n1 = min 3 (d4 div 365); yday = d4 - 365 * n1
      in (400 * n400 + 100 * n100 + 4 * n4 + n1 + 1, yday))"

definition days_before :: "int list" where
  "days_before = [0, 31, 59, 90, 120, 151, 181, 212, 243, 273, 304, 334, 365]"

text \<open>Days of the year before month number \<open>m\<close>, counted from 0.\<close>

definition month_offset :: "int \<Rightarrow> nat \<Rightarrow> int" where
  "month_offset y m = days_before ! m + (if is_leap y \<and> 2 \<le> m then 1 else 0)"

fun find_month :: "int \<Rightarrow> int \<Rightarrow> nat \<Rightarrow> nat" where
  "find_month y yday 0 = 0"
| "find_month y yday (Suc m) = (if month_offset y (Suc m) \<le> yday then Suc m else find_month y yday m)"

definition month_of :: "int \<Rightarrow> int \<times> nat" where
  "month_of day = (let (y, yday) = split_year (day + epoch_day) in (y, find_month y yday 11))"

text \<open>\<open>time.Date(y, m, 1, ...)\<close>, where month 12 is January of the next year.\<close>

definition month_first :: "int \<times> nat \<Rightarrow> int" where
  "month_first ym = year_start (fst ym) + month_offset (fst ym) (snd ym) - epoch_day"

section \<open>The split into years\<close>

lemma int_div_mult_bounds: "0 < k \<Longrightarrow> k * (a div k) \<le> a \<and> a < k * (a div k) + k" for a k :: int
  using mult_div_mod_eq [of k a] pos_mod_sign [of k a] pos_mod_bound [of k a] by linarith

lemma year_start_cycle:
  assumes "0 \<le> c" "c \<le> 3" "0 \<le> q" "q \<le> 24" "0 \<le> r" "r \<le> 3"
  shows "year_start (400 * n + 100 * c + 4 * q + r + 1) = 146097 * n + 36524 * c + 1461 * q + 365 * r"
proof -
  have d4: "(400 * n + 100 * c + 4 * q + r) div 4 = 100 * n + 25 * c + q"
    using assms by (intro int_div_pos_eq [of _ _ _ r]) auto
  have d100: "(400 * n + 100 * c + 4 * q + r) div 100 = 4 * n + c"
    using assms by (intro int_div_pos_eq [of _ _ _ "4 * q + r"]) auto
  have d400: "(400 * n + 100 * c + 4 * q + r) div 400 = n"
    using assms by (intro int_div_pos_eq [of _ _ _ "100 * c + 4 * q + r"]) auto
  show ?thesis by (simp add: year_start_def d4 d100 d400)
qed

lemma is_leap_cycle:
  assumes "0 \<le> c" "c \<le> 3" "0 \<le> q" "q \<le> 24" "0 \<le> r" "r \<le> 3"
  shows "is_leap (400 * n + 100 * c + 4 * q + r + 1) \<longleftrightarrow> r = 3 \<and> (q \<noteq> 24 \<or> c = 3)"
proof -
  have m4: "(400 * n + 100 * c + 4 * q + r + 1) mod 4 = (r + 1) mod 4"
    using mod_mult_self4 [of 4 "100 * n + 25 * c + q" "r + 1"] by (simp add: algebra_simps)
  have m100: "(400 * n + 100 * c + 4 * q + r + 1) mod 100 = (4 * q + r + 1) mod 100"
    using mod_mult_self4 [of 100 "4 * n + c" "4 * q + r + 1"] by (simp add: algebra_simps)
  have m400: "(400 * n + 100 * c + 4 * q + r + 1) mod 400 = (100 * c + 4 * q + r + 1) mod 400"
    using mod_mult_self4 [of 400 n "100 * c + 4 * q + r + 1"] by (simp add: algebra_simps)
  have "(r + 1) mod 4 = 0 \<longleftrightarrow> r = 3" using assms mod_pos_pos_trivial [of "r + 1" 4] by (cases "r = 3") auto
  moreover have "(4 * q + 4) mod 100 = 0 \<longleftrightarrow> q = 24" using assms by (cases "q = 24") auto
  moreover have "(100 * c + 100) mod 400 = 0 \<longleftrightarrow> c = 3" using assms by (cases "c = 3") auto
  ultimately show ?thesis unfolding is_leap_def m4 m100 m400
    by (cases "r = 3"; cases "q = 24") (simp_all add: add.commute add.left_commute mod_eq_0_iff_dvd)
qed

lemma split_year_correct:
  assumes "split_year d = (y, yday)"
  shows "d = year_start y + yday" and "0 \<le> yday" and "yday < (if is_leap y then 366 else 365)"
proof -
  define n e where "n = d div 146097" and "e = d mod 146097"
  define c where "c = min 3 (e div 36524)"
  define f where "f = e - 36524 * c"
  define q g where "q = f div 1461" and "g = f mod 1461"
  define r where "r = min 3 (g div 365)"
  note defs = n_def e_def c_def f_def q_def g_def r_def
  have e: "0 \<le> e" "e < 146097" "d = 146097 * n + e" by (simp_all add: n_def e_def)
  have c: "0 \<le> c" "c \<le> 3" using e by (simp_all add: c_def pos_imp_zdiv_nonneg_iff)
  have f: "0 \<le> f" "f < (if c = 3 then 36525 else 36524)"
    using int_div_mult_bounds [of 36524 e] e by (auto simp: f_def c_def min_def)
  have g: "0 \<le> g" "g < 1461" "f = 1461 * q + g" by (simp_all add: q_def g_def)
  have q: "0 \<le> q" "q \<le> 24" using f g by (auto split: if_splits)
  have r: "0 \<le> r" "r \<le> 3" using g by (simp_all add: r_def pos_imp_zdiv_nonneg_iff)
  have yd: "0 \<le> g - 365 * r" "g - 365 * r < (if r = 3 then 366 else 365)"
    using int_div_mult_bounds [of 365 g] g by (auto simp: r_def min_def)
  have "split_year d = (400 * n + 100 * c + 4 * q + r + 1, g - 365 * r)"
    by (simp only: split_year_def Let_def defs)
  then have y: "y = 400 * n + 100 * c + 4 * q + r + 1" and yday: "yday = g - 365 * r" using assms by (simp_all only: prod.inject)
  show "d = year_start y + yday"
    using year_start_cycle [OF c q r, of n] e g by (simp add: y yday f_def)
  show "0 \<le> yday" using yd yday by simp
  have "g < 1460" if "q = 24" "c \<noteq> 3" using that f g by simp
  then show "yday < (if is_leap y then 366 else 365)"
    unfolding y is_leap_cycle [OF c q r] using yd yday r
    by (cases "r = 3") (auto split: if_splits)
qed

lemma div_step: "0 < k \<Longrightarrow> y div k = (y - 1) div k + (if k dvd y then 1 else 0)" for y k :: int
proof -
  assume k: "0 < k"
  define q r where "q = y div k" and "r = y mod k"
  have y: "y = k * q + r" "0 \<le> r" "r < k" using k by (simp_all add: q_def r_def)
  have dvd: "k dvd y \<longleftrightarrow> r = 0" by (simp add: r_def dvd_eq_mod_eq_0)
  show ?thesis
  proof (cases "r = 0")
    case True
    have "(y - 1) div k = q - 1"
      using y True k by (intro int_div_pos_eq [of _ _ _ "k - 1"]) (auto simp: algebra_simps)
    then show ?thesis using True dvd by (simp add: q_def)
  next
    case False
    have "(y - 1) div k = q"
      using y False k by (intro int_div_pos_eq [of _ _ _ "r - 1"]) auto
    then show ?thesis using False dvd by (simp add: q_def)
  qed
qed

lemma year_start_Suc: "year_start (y + 1) = year_start y + (if is_leap y then 366 else 365)"
proof -
  have sub: "100 dvd y \<Longrightarrow> 4 dvd y" "400 dvd y \<Longrightarrow> 100 dvd y"
    by (auto intro: dvd_trans [of 4 100 y] dvd_trans [of 100 400 y])
  have leap: "is_leap y \<longleftrightarrow> 4 dvd y \<and> (\<not> 100 dvd y \<or> 400 dvd y)"
    by (simp add: is_leap_def mod_eq_0_iff_dvd)
  have sum_step: "365 * y + a - b + c = 365 * (y - 1) + a' - b' + c' + 365 + i - j + k"
    if "a = a' + i" "b = b' + j" "c = c' + k" for a b c a' b' c' i j k using that by simp
  have leap_sum: "s + 365 + (if A then 1 else 0) - (if B then 1 else 0) + (if C then 1 else 0)
      = s + (if A \<and> (\<not> B \<or> C) then 366 else 365)" if "B \<Longrightarrow> A" "C \<Longrightarrow> B" for s :: int and A B C
    using that by auto
  have "year_start (y + 1) = 365 * y + y div 4 - y div 100 + y div 400" by (simp add: year_start_def)
  also have "\<dots> = year_start y + 365 + (if 4 dvd y then 1 else 0) - (if 100 dvd y then 1 else 0)
      + (if 400 dvd y then 1 else 0)"
    unfolding year_start_def
    by (rule sum_step [OF div_step div_step div_step]) simp_all
  also have "\<dots> = year_start y + (if 4 dvd y \<and> (\<not> 100 dvd y \<or> 400 dvd y) then 366 else 365)"
    by (rule leap_sum) (use sub in blast)+
  finally show ?thesis by (simp only: leap)
qed

lemma year_start_strict_mono: "y < z \<Longrightarrow> year_start y < year_start z"
proof (induction rule: int_less_induct)
  case base
  show ?case using year_start_Suc [of "z - 1"] by (simp split: if_splits)
next
  case (step i)
  then show ?case using year_start_Suc [of "i - 1"] by (simp split: if_splits)
qed

lemma year_unique:
  assumes "year_start y \<le> d" "d < year_start (y + 1)" "year_start z \<le> d" "d < year_start (z + 1)"
  shows "y = z"
proof (rule ccontr)
  assume "y \<noteq> z"
  then consider "y + 1 = z \<or> y + 1 < z" | "z + 1 = y \<or> z + 1 < y" by linarith
  then show False
    using assms year_start_strict_mono [of "y + 1" z] year_start_strict_mono [of "z + 1" y] by cases auto
qed

section \<open>Months\<close>

lemma month_offset_Suc:
  "m < 12 \<Longrightarrow> month_offset y m < month_offset y (Suc m)"
  unfolding month_offset_def days_before_def
  by (auto simp: less_Suc_eq numeral_eq_Suc)

lemma month_offset_strict_mono: "m < n \<Longrightarrow> n \<le> 12 \<Longrightarrow> month_offset y m < month_offset y n"
proof (induction n)
  case (Suc n)
  then show ?case using month_offset_Suc [of n y] by (cases "m = n") auto
qed simp

lemma month_offset_0 [simp]: "month_offset y 0 = 0"
  and month_offset_12: "month_offset y 12 = (if is_leap y then 366 else 365)"
  by (simp_all add: month_offset_def days_before_def)

lemma find_month_bounds:
  "0 \<le> yday \<Longrightarrow> yday < month_offset y (Suc n) \<Longrightarrow>
   find_month y yday n \<le> n \<and> month_offset y (find_month y yday n) \<le> yday
   \<and> yday < month_offset y (Suc (find_month y yday n))"
  by (induction n) auto

lemma month_of_bounds:
  assumes "month_of d = (y, m)"
  shows "m \<le> 11" and "month_first (y, m) \<le> d" and "d < month_first (y, Suc m)"
    and "year_start y \<le> d + epoch_day" and "d + epoch_day < year_start (y + 1)"
proof -
  obtain yday where s: "split_year (d + epoch_day) = (y, yday)" and m: "m = find_month y yday 11"
    using assms by (auto simp: month_of_def Let_def split: prod.splits)
  note c = split_year_correct [OF s]
  have "yday < month_offset y (Suc 11)" using c(3) month_offset_12 [of y] by simp
  from find_month_bounds [OF c(2) this]
  show "m \<le> 11" "month_first (y, m) \<le> d" "d < month_first (y, Suc m)"
    using c(1) by (auto simp: m month_first_def)
  show "year_start y \<le> d + epoch_day" "d + epoch_day < year_start (y + 1)"
    using c by (simp_all add: year_start_Suc)
qed

lemma month_of_unique:
  assumes "m \<le> 11" and "month_first (y, m) \<le> d" and "d < month_first (y, Suc m)"
  shows "month_of d = (y, m)"
proof -
  obtain z n where zn: "month_of d = (z, n)" by fastforce
  note b = month_of_bounds [OF zn]
  have "month_offset y (Suc m) \<le> month_offset y 12"
    using month_offset_strict_mono [of "Suc m" 12 y] assms(1) by (cases "Suc m = 12") auto
  then have up: "d + epoch_day < year_start (y + 1)"
    using assms(3) by (simp add: month_first_def year_start_Suc month_offset_12)
  have "0 \<le> month_offset y m" using month_offset_strict_mono [of 0 m y] assms(1) by (cases m) auto
  then have "year_start y \<le> d + epoch_day" using assms(2) by (simp add: month_first_def)
  with up b(4,5) have y: "y = z" by (intro year_unique)
  have "m = n"
  proof (rule ccontr)
    assume "m \<noteq> n"
    then consider "Suc m = n \<or> Suc m < n" | "Suc n = m \<or> Suc n < m" by linarith
    then show False
      using assms b(1-3) y month_offset_strict_mono [of "Suc m" n y] month_offset_strict_mono [of "Suc n" m y]
      by cases (auto simp: month_first_def)
  qed
  with y zn show ?thesis by simp
qed

end
