(* ===== verification/Ledger_Store.thy ===== *)
theory Ledger_Store
  imports Microcents Calendar
begin

text \<open>
  The accounting tables of the database and the statements the gateway runs on them: the
  reservations, the usage log, the inference journal and the daily totals that the triggers of
  \<^verbatim>\<open>0041_exact_microcents.up.sql\<close> keep. A table is the list of its rows. The statements fail as
  PostgreSQL does: on a violated constraint, on a \<open>BIGINT\<close> out of range, and on the exception the
  trigger raises; a failed statement leaves the caller's transaction without effect.

  The abstract specification is \<open>spent\<close>: the sum of the charges of a tenant on a day, where a
  request with a reservation is charged through the reservation alone. The invariant
  \<open>ledger_inv\<close> says that the daily totals are that sum.
\<close>

record usage_entry =
  e_AccountingID :: string
  e_Accounting :: string
  e_TokenDetails :: string
  e_TeamID :: int
  e_UserID :: "int option"
  e_KeyID :: "int option"
  e_CustomerID :: "int option"
  e_CustomerExternalID :: string
  e_Alias :: string
  e_DeploymentName :: string
  e_RequestID :: string
  e_ModelRequested :: string
  e_ModelUsed :: string
  e_PromptTokens :: int
  e_CompletionTokens :: int
  e_TotalTokens :: int
  e_CostCents :: int
  e_CostMicrocents :: "int option"
  e_LatencyMs :: int
  e_QueueMs :: int
  e_UpstreamMs :: int
  e_TTFBMs :: int
  e_PostprocessMs :: int
  e_StatusCode :: int
  e_Error :: string
  e_Cached :: bool
  e_CacheOriginRequestID :: string
  e_RequestTags :: "string list"
  e_ClientIP :: string
  e_ServiceAccountID :: "int option"
  e_Ts :: "gotime option"

record reservation =
  r_request_id :: string
  r_team_id :: int
  r_user_id :: "int option"
  r_service_account_id :: "int option"
  r_key_id :: "int option"
  r_customer_id :: "int option"
  r_alias :: string
  r_estimated_cost_cents :: int
  r_estimated_cost_microcents :: "int option"
  r_settled_cost_cents :: int
  r_settled_cost_microcents :: "int option"
  r_status :: string
  r_created_at :: gotime
  r_settled_at :: "gotime option"

record usage_row =
  u_id :: int
  u_team_id :: int
  u_user_id :: "int option"
  u_service_account_id :: "int option"
  u_key_id :: "int option"
  u_customer_id :: "int option"
  u_request_id :: string
  u_accounting_id :: "string option"
  u_accounting_state :: string
  u_cost_cents :: int
  u_cost_microcents :: "int option"
  u_ts :: gotime
  u_entry :: usage_entry

record journal_row =
  j_request_id :: string
  j_team_id :: int
  j_entry :: usage_entry
  j_upstream_started :: bool
  j_recover_after :: gotime
  j_state :: string
  j_usage_id :: "int option"
  j_created_at :: gotime
  j_completed_at :: "gotime option"

type_synonym subject = "string \<times> int"
type_synonym totals = "string \<times> int \<times> int \<Rightarrow> int option"

record ledger =
  reservations :: "reservation list"
  usage_log :: "usage_row list"
  daily_totals :: totals
  journal :: "journal_row list"
  next_usage_id :: int

section \<open>Amounts and subjects\<close>

definition bigint :: "int \<Rightarrow> string + int" where
  "bigint x = (if is_i64 x then Inr x else Inl ''bigint out of range'')"

text \<open>\<open>COALESCE(microcents, cents * 1000000)\<close>.\<close>

definition pg_amount :: "int \<Rightarrow> int option \<Rightarrow> string + int" where
  "pg_amount cents micro = (case micro of Some m \<Rightarrow> Inr m | None \<Rightarrow> bigint (cents * 1000000))"

text \<open>The constraints \<open>..._microcents_exact\<close>.\<close>

definition microcents_exact :: "int \<Rightarrow> int option \<Rightarrow> bool" where
  "microcents_exact cents micro =
     (case micro of None \<Rightarrow> True
      | Some m \<Rightarrow> 0 \<le> m \<and> cents = m div 1000000 + (if m mod 1000000 \<noteq> 0 then 1 else 0))"

definition opt_subject :: "string \<Rightarrow> int option \<Rightarrow> subject list" where
  "opt_subject sc i = (case i of None \<Rightarrow> [] | Some x \<Rightarrow> [(sc, x)])"

text \<open>The subjects a charge counts for, in the order the trigger visits them.\<close>

definition subjects :: "int \<Rightarrow> int option \<Rightarrow> int option \<Rightarrow> int option \<Rightarrow> int option \<Rightarrow> subject list" where
  "subjects team usr sa vk customer =
     opt_subject ''customer'' customer @ opt_subject ''key'' vk @ opt_subject ''service_account'' sa
     @ [(''team'', team)] @ opt_subject ''user'' usr"

definition r_subjects :: "reservation \<Rightarrow> subject list" where
  "r_subjects r = subjects (r_team_id r) (r_user_id r) (r_service_account_id r) (r_key_id r) (r_customer_id r)"

definition u_subjects :: "usage_row \<Rightarrow> subject list" where
  "u_subjects u = subjects (u_team_id u) (u_user_id u) (u_service_account_id u) (u_key_id u) (u_customer_id u)"

section \<open>The triggers\<close>

definition put_total :: "string \<times> int \<times> int \<Rightarrow> int \<Rightarrow> totals \<Rightarrow> string + totals" where
  "put_total k v t =
     (if v < 0 then Inl ''violates check constraint budget_daily_totals_cost_microcents_check''
      else Inr (t(k \<mapsto> v)))"

definition add_total :: "int \<Rightarrow> int \<Rightarrow> subject \<Rightarrow> totals \<Rightarrow> string + totals" where
  "add_total day delta s t =
     (let k = (fst s, snd s, day) in
      if 0 < delta
      then (case t k of
              None \<Rightarrow> put_total k delta t
            | Some v \<Rightarrow> bind_ok (bigint (v + delta)) (\<lambda>v'. put_total k v' t))
      else (case t k of
              None \<Rightarrow> Inl ''missing budget daily total''
            | Some v \<Rightarrow> bind_ok (bigint (v + delta)) (\<lambda>v'. put_total k v' t)))"

definition budget_apply_daily :: "subject list \<Rightarrow> gotime \<Rightarrow> int \<Rightarrow> totals \<Rightarrow> string + totals" where
  "budget_apply_daily ids stamp delta t =
     (if delta = 0 then Inr t else fold_ok (add_total (utc_day stamp) delta) ids t)"

definition covered :: "reservation list \<Rightarrow> string \<Rightarrow> int \<Rightarrow> bool" where
  "covered rs rid team \<longleftrightarrow> list_ex (\<lambda>r. r_request_id r = rid \<and> r_team_id r = team) rs"

definition charge_usage :: "reservation list \<Rightarrow> int \<Rightarrow> usage_row \<Rightarrow> totals \<Rightarrow> string + totals" where
  "charge_usage rs sign u t =
     (if u_cost_cents u \<noteq> 0 \<and> \<not> covered rs (u_request_id u) (u_team_id u)
      then bind_ok (pg_amount (u_cost_cents u) (u_cost_microcents u))
             (\<lambda>a. budget_apply_daily (u_subjects u) (u_ts u) (sign * a) t)
      else Inr t)"

text \<open>\<open>budget_usage_daily_trigger\<close> on an insert, and on the update that changes no column.\<close>

definition usage_trigger_insert :: "reservation list \<Rightarrow> usage_row \<Rightarrow> totals \<Rightarrow> string + totals" where
  "usage_trigger_insert rs u t = charge_usage rs 1 u t"

definition usage_trigger_update :: "reservation list \<Rightarrow> usage_row \<Rightarrow> usage_row \<Rightarrow> totals \<Rightarrow> string + totals" where
  "usage_trigger_update rs old new t = bind_ok (charge_usage rs (-1) old t) (charge_usage rs 1 new)"

definition reservation_charge :: "reservation \<Rightarrow> string + int" where
  "reservation_charge r =
     (if r_status r = ''reserved'' then pg_amount (r_estimated_cost_cents r) (r_estimated_cost_microcents r)
      else if r_status r = ''settled'' then pg_amount (r_settled_cost_cents r) (r_settled_cost_microcents r)
      else Inr 0)"

text \<open>\<open>budget_reservation_daily_trigger\<close> on an insert: the charge of the new row, less the usage
  rows of the same request that were charged on their own until now.\<close>

definition reservation_trigger_insert :: "usage_row list \<Rightarrow> reservation \<Rightarrow> totals \<Rightarrow> string + totals" where
  "reservation_trigger_insert us r t =
     bind_ok (reservation_charge r) (\<lambda>charge.
     bind_ok (budget_apply_daily (r_subjects r) (r_created_at r) charge t) (\<lambda>t'.
     fold_ok (\<lambda>u. charge_usage [] (-1) u)
       (filter (\<lambda>u. u_request_id u = r_request_id r \<and> u_team_id u = r_team_id r) us) t'))"

text \<open>... and on the settlement, which changes neither request, team, subject nor day.\<close>

definition reservation_trigger_settle :: "reservation \<Rightarrow> reservation \<Rightarrow> totals \<Rightarrow> string + totals" where
  "reservation_trigger_settle old new t =
     bind_ok (reservation_charge new) (\<lambda>n.
     bind_ok (reservation_charge old) (\<lambda>o'.
     bind_ok (bigint (n - o')) (\<lambda>charge.
     budget_apply_daily (r_subjects new) (r_created_at new) charge t)))"

section \<open>Statements\<close>

definition reservation_exact :: "reservation \<Rightarrow> bool" where
  "reservation_exact r \<longleftrightarrow>
     microcents_exact (r_estimated_cost_cents r) (r_estimated_cost_microcents r)
     \<and> microcents_exact (r_settled_cost_cents r) (r_settled_cost_microcents r)"

text \<open>\<open>INSERT INTO budget_reservations\<close>.\<close>

definition insert_reservation :: "reservation \<Rightarrow> ledger \<Rightarrow> string + ledger" where
  "insert_reservation r db =
     (if \<not> reservation_exact r then Inl ''violates check constraint''
      else if list_ex (\<lambda>q. r_request_id q = r_request_id r) (reservations db)
      then Inl ''duplicate key value violates unique constraint''
      else bind_ok (reservation_trigger_insert (usage_log db) r (daily_totals db)) (\<lambda>t.
           Inr (db\<lparr>reservations := reservations db @ [r], daily_totals := t\<rparr>)))"

definition find_reservation :: "string \<Rightarrow> reservation list \<Rightarrow> reservation option" where
  "find_reservation rid rs = find (\<lambda>r. r_request_id r = rid) rs"

definition settle_row :: "string \<Rightarrow> int \<Rightarrow> int option \<Rightarrow> gotime \<Rightarrow> reservation \<Rightarrow> reservation" where
  "settle_row rid cents micro now r =
     (if r_request_id r = rid \<and> r_status r = ''reserved''
      then r\<lparr>r_settled_cost_cents := cents, r_settled_cost_microcents := micro,
             r_status := ''settled'', r_settled_at := Some now\<rparr>
      else r)"

text \<open>\<open>UPDATE budget_reservations SET settled_..., status='settled' WHERE request_id=$1 AND
  status='reserved'\<close>, with the row it updated.\<close>

definition settle_reservation ::
  "string \<Rightarrow> int \<Rightarrow> int option \<Rightarrow> gotime \<Rightarrow> ledger \<Rightarrow> string + reservation option \<times> ledger" where
  "settle_reservation rid cents micro now db =
     (case find_reservation rid (reservations db) of
        None \<Rightarrow> Inr (None, db)
      | Some old \<Rightarrow>
          if r_status old \<noteq> ''reserved'' then Inr (None, db)
          else let new = settle_row rid cents micro now old in
               if \<not> reservation_exact new then Inl ''violates check constraint''
               else bind_ok (reservation_trigger_settle old new (daily_totals db)) (\<lambda>t.
                    Inr (Some new, db\<lparr>reservations := map (settle_row rid cents micro now) (reservations db),
                                      daily_totals := t\<rparr>)))"

definition accounting_states :: "string list" where
  "accounting_states = [''legacy'', ''priced'', ''estimated'', ''unknown'', ''unpriced'', ''not_billable'']"

definition usage_row_of :: "int \<Rightarrow> usage_entry \<Rightarrow> gotime \<Rightarrow> usage_row" where
  "usage_row_of i e ts =
     \<lparr>u_id = i, u_team_id = e_TeamID e, u_user_id = e_UserID e, u_service_account_id = e_ServiceAccountID e,
      u_key_id = e_KeyID e, u_customer_id = e_CustomerID e, u_request_id = e_RequestID e,
      u_accounting_id = (if e_AccountingID e = [] then None else Some (e_AccountingID e)),
      u_accounting_state = e_Accounting e, u_cost_cents = e_CostCents e,
      u_cost_microcents = e_CostMicrocents e, u_ts = ts, u_entry = e\<rparr>"

text \<open>\<open>INSERT INTO usage_log ... ON CONFLICT (accounting_id) DO UPDATE SET
  accounting_id=EXCLUDED.accounting_id RETURNING id\<close>.\<close>

definition insert_usage_row :: "usage_entry \<Rightarrow> gotime \<Rightarrow> ledger \<Rightarrow> string + int \<times> ledger" where
  "insert_usage_row e ts db =
     (let row = usage_row_of (next_usage_id db) e ts in
      if \<not> microcents_exact (u_cost_cents row) (u_cost_microcents row) then Inl ''violates check constraint''
      else if u_accounting_state row \<notin> set accounting_states then Inl ''violates check constraint''
      else (case find (\<lambda>u. u_accounting_id row \<noteq> None \<and> u_accounting_id u = u_accounting_id row) (usage_log db) of
              Some old \<Rightarrow>
                bind_ok (usage_trigger_update (reservations db) old old (daily_totals db)) (\<lambda>t.
                Inr (u_id old, db\<lparr>daily_totals := t, next_usage_id := next_usage_id db + 1\<rparr>))
            | None \<Rightarrow>
                bind_ok (usage_trigger_insert (reservations db) row (daily_totals db)) (\<lambda>t.
                Inr (u_id row, db\<lparr>usage_log := usage_log db @ [row], daily_totals := t,
                                  next_usage_id := next_usage_id db + 1\<rparr>))))"

text \<open>\<open>insertUsage\<close>.\<close>

definition insertUsage :: "gotime \<Rightarrow> usage_entry \<Rightarrow> ledger \<Rightarrow> string + int \<times> ledger" where
  "insertUsage now e db =
     (let e1 = (if e_Accounting e = [] then e\<lparr>e_Accounting := ''legacy''\<rparr> else e);
          ts = (case e_Ts e1 of None \<Rightarrow> now | Some s \<Rightarrow> s);
          e2 = (if TrimSpace (e_TokenDetails e1) = ''null'' then e1\<lparr>e_TokenDetails := []\<rparr> else e1)
      in (case e_CostMicrocents e2 of
            None \<Rightarrow> insert_usage_row e2 ts db
          | Some m \<Rightarrow>
              if m < 0 then Inl ''insert usage: negative cost''
              else (case CeilCents m of
                      Inl p \<Rightarrow> Inl ''panic''
                    | Inr c \<Rightarrow> insert_usage_row (e2\<lparr>e_CostCents := c\<rparr>) ts db)))"

section \<open>The abstract specification\<close>

type_synonym key = "string \<times> int \<times> int"

definition amount :: "int \<Rightarrow> int option \<Rightarrow> int" where
  "amount cents micro = (case micro of Some m \<Rightarrow> m | None \<Rightarrow> cents * 1000000)"

definition r_charge :: "reservation \<Rightarrow> int" where
  "r_charge r =
     (if r_status r = ''reserved'' then amount (r_estimated_cost_cents r) (r_estimated_cost_microcents r)
      else if r_status r = ''settled'' then amount (r_settled_cost_cents r) (r_settled_cost_microcents r)
      else 0)"

definition u_charge :: "usage_row \<Rightarrow> int" where
  "u_charge u = amount (u_cost_cents u) (u_cost_microcents u)"

definition counts_for :: "subject list \<Rightarrow> gotime \<Rightarrow> key \<Rightarrow> bool" where
  "counts_for ids stamp k \<longleftrightarrow> (fst k, fst (snd k)) \<in> set ids \<and> snd (snd k) = utc_day stamp"

definition r_part :: "key \<Rightarrow> reservation \<Rightarrow> int" where
  "r_part k r = (if counts_for (r_subjects r) (r_created_at r) k then r_charge r else 0)"

definition u_part :: "reservation list \<Rightarrow> key \<Rightarrow> usage_row \<Rightarrow> int" where
  "u_part rs k u =
     (if counts_for (u_subjects u) (u_ts u) k \<and> \<not> covered rs (u_request_id u) (u_team_id u)
      then u_charge u else 0)"

definition spent :: "ledger \<Rightarrow> key \<Rightarrow> int" where
  "spent db k = sum_list (map (r_part k) (reservations db))
              + sum_list (map (u_part (reservations db) k) (usage_log db))"

definition tot :: "totals \<Rightarrow> key \<Rightarrow> int" where
  "tot t k = (case t k of None \<Rightarrow> 0 | Some v \<Rightarrow> v)"

definition reservation_ok :: "reservation \<Rightarrow> bool" where
  "reservation_ok r \<longleftrightarrow> (r_status r = ''reserved'' \<or> r_status r = ''settled'')
     \<and> 0 \<le> r_charge r \<and> is_i64 (r_charge r) \<and> reservation_exact r"

definition usage_ok :: "usage_row \<Rightarrow> bool" where
  "usage_ok u \<longleftrightarrow> 0 \<le> u_cost_cents u \<and> microcents_exact (u_cost_cents u) (u_cost_microcents u)
     \<and> pred_option is_i64 (u_cost_microcents u)"

definition accounting_ids :: "ledger \<Rightarrow> string list" where
  "accounting_ids db = List.map_filter u_accounting_id (usage_log db)"

definition ledger_inv :: "ledger \<Rightarrow> bool" where
  "ledger_inv db \<longleftrightarrow>
     distinct (map r_request_id (reservations db))
     \<and> (\<forall>r \<in> set (reservations db). reservation_ok r)
     \<and> (\<forall>u \<in> set (usage_log db). usage_ok u)
     \<and> distinct (accounting_ids db)
     \<and> distinct (map u_id (usage_log db))
     \<and> (\<forall>u \<in> set (usage_log db). u_id u < next_usage_id db)
     \<and> (\<forall>k. tot (daily_totals db) k = spent db k)
     \<and> (\<forall>k. is_i64 (tot (daily_totals db) k))"

lemma ledger_invD:
  assumes "ledger_inv db"
  shows ledger_inv_distinct: "distinct (map r_request_id (reservations db))"
    and ledger_inv_reservation: "r \<in> set (reservations db) \<Longrightarrow> reservation_ok r"
    and ledger_inv_usage: "u \<in> set (usage_log db) \<Longrightarrow> usage_ok u"
    and ledger_inv_ids: "u \<in> set (usage_log db) \<Longrightarrow> u_id u < next_usage_id db"
    and ledger_inv_tot: "tot (daily_totals db) k = spent db k"
    and ledger_inv_i64: "is_i64 (spent db k)"
  using assms by (auto simp: ledger_inv_def simp del: split_paired_All)

section \<open>What the triggers add\<close>

lemma bigint_Inr [simp]: "bigint x = Inr y \<longleftrightarrow> is_i64 x \<and> y = x"
  by (auto simp: bigint_def)

lemma pg_amount_Inr: "pg_amount c m = Inr a \<Longrightarrow> a = amount c m"
  by (auto simp: pg_amount_def amount_def split: option.splits)

lemma reservation_charge_Inr: "reservation_charge r = Inr a \<Longrightarrow> a = r_charge r"
  by (auto simp: reservation_charge_def r_charge_def dest: pg_amount_Inr split: if_splits)

lemma reservation_charge_ok: "is_i64 (r_charge r) \<Longrightarrow> reservation_charge r = Inr (r_charge r)"
  by (auto simp: reservation_charge_def r_charge_def amount_def pg_amount_def bigint_def split: option.splits)

lemma distinct_subjects [simp]: "distinct (subjects team usr sa vk customer)"
  by (auto simp: subjects_def opt_subject_def split: option.splits)

lemma distinct_r_subjects [simp]: "distinct (r_subjects r)" and distinct_u_subjects [simp]: "distinct (u_subjects u)"
  by (simp_all add: r_subjects_def u_subjects_def)

lemma put_total_Inr: "put_total k v t = Inr t' \<longleftrightarrow> 0 \<le> v \<and> t' = t(k \<mapsto> v)"
  by (auto simp: put_total_def)

lemma add_total_Inr:
  assumes "add_total day delta s t = Inr t'"
  shows "tot t' k = tot t k + (if k = (fst s, snd s, day) then delta else 0)"
    and "(\<forall>k. is_i64 (tot t k)) \<Longrightarrow> is_i64 delta \<Longrightarrow> is_i64 (tot t' k)"
  using assms
  by (cases k; auto simp: add_total_def Let_def tot_def put_total_Inr split: if_splits option.splits elim!: bind_okE)+

lemma add_totals_Inr:
  assumes "fold_ok (add_total day delta) ids t = Inr t'" and "distinct ids"
  shows "tot t' (sc, i, d) = tot t (sc, i, d) + (if (sc, i) \<in> set ids \<and> d = day then delta else 0)"
  using assms
proof (induction ids arbitrary: t)
  case (Cons s ids)
  then obtain t1 where t1: "add_total day delta s t = Inr t1" "fold_ok (add_total day delta) ids t1 = Inr t'" by auto
  with Cons have "tot t' (sc, i, d) = tot t1 (sc, i, d) + (if (sc, i) \<in> set ids \<and> d = day then delta else 0)" by simp
  moreover have "s \<notin> set ids" using Cons.prems by simp
  ultimately show ?case
    using add_total_Inr(1) [OF t1(1), of "(sc, i, d)"] by (cases s) auto
qed simp

lemma budget_apply_daily_tot:
  assumes "budget_apply_daily ids stamp delta t = Inr t'" and "distinct ids"
  shows "tot t' k = tot t k + (if counts_for ids stamp k then delta else 0)"
  using assms add_totals_Inr [of "utc_day stamp" delta ids t t' "fst k" "fst (snd k)" "snd (snd k)"]
  by (auto simp: budget_apply_daily_def counts_for_def split: if_splits)

lemma budget_apply_daily_i64:
  assumes "budget_apply_daily ids stamp delta t = Inr t'" and "\<forall>k. is_i64 (tot t k)" and "is_i64 delta"
  shows "\<forall>k. is_i64 (tot t' k)"
proof (cases "delta = 0")
  case False
  then have "fold_ok (add_total (utc_day stamp) delta) ids t = Inr t'"
    using assms(1) by (simp add: budget_apply_daily_def)
  from fold_ok_invariant [OF this, of "\<lambda>t. \<forall>k. is_i64 (tot t k)"] show ?thesis
    using assms add_total_Inr(2) by metis
qed (use assms in \<open>simp add: budget_apply_daily_def\<close>)

text \<open>When the update cannot fail: a positive change as long as the totals stay in range, a
  negative one as long as no total falls below zero.\<close>

lemma add_total_succeeds:
  assumes "0 \<le> tot t (fst s, snd s, day) + delta" and "is_i64 (tot t (fst s, snd s, day) + delta)" and "delta \<noteq> 0"
  shows "\<exists>t'. add_total day delta s t = Inr t'"
  using assms by (auto simp: add_total_def Let_def tot_def put_total_def bigint_def split: option.splits)

lemma add_totals_succeed:
  assumes "distinct ids" and "delta \<noteq> 0"
    and "\<And>s. s \<in> set ids \<Longrightarrow> 0 \<le> tot t (fst s, snd s, day) + delta \<and> is_i64 (tot t (fst s, snd s, day) + delta)"
  shows "\<exists>t'. fold_ok (add_total day delta) ids t = Inr t'"
  using assms
proof (induction ids arbitrary: t)
  case (Cons s ids)
  obtain t1 where t1: "add_total day delta s t = Inr t1"
    using add_total_succeeds [of t s day delta] Cons.prems by auto
  have "tot t1 (fst s', snd s', day) = tot t (fst s', snd s', day)" if "s' \<in> set ids" for s'
    using add_total_Inr(1) [OF t1, of "(fst s', snd s', day)"] that Cons.prems(1) by (cases s; cases s') auto
  then have "\<exists>t'. fold_ok (add_total day delta) ids t1 = Inr t'"
    using Cons.prems by (intro Cons.IH) auto
  then show ?case by (simp add: t1)
qed simp

lemma budget_apply_daily_succeeds:
  assumes "distinct ids"
    and "\<And>k. counts_for ids stamp k \<Longrightarrow> 0 \<le> tot t k + delta \<and> is_i64 (tot t k + delta)"
  shows "\<exists>t'. budget_apply_daily ids stamp delta t = Inr t'"
  using assms add_totals_succeed [of ids delta t "utc_day stamp"]
  by (cases "delta = 0") (auto simp: budget_apply_daily_def counts_for_def)

section \<open>The invariant holds initially and under every statement\<close>

definition empty_ledger :: ledger where
  "empty_ledger = \<lparr>reservations = [], usage_log = [], daily_totals = (\<lambda>_. None), journal = [], next_usage_id = 1\<rparr>"

lemma ledger_inv_empty: "ledger_inv empty_ledger"
  by (simp add: ledger_inv_def empty_ledger_def tot_def spent_def accounting_ids_def List.map_filter_def)

lemma amount_zero: "microcents_exact c m \<Longrightarrow> c = 0 \<Longrightarrow> amount c m = 0"
  using mult_div_mod_eq [of 1000000 "the m"] pos_imp_zdiv_nonneg_iff [of 1000000 "the m"]
  by (auto simp: microcents_exact_def amount_def split: option.splits if_splits)

lemma amount_nonneg: "microcents_exact c m \<Longrightarrow> 0 \<le> c \<Longrightarrow> 0 \<le> amount c m"
  by (auto simp: microcents_exact_def amount_def split: option.splits)

lemma CeilCents_amount:
  assumes "0 \<le> m" "is_i64 m" "CeilCents m = Inr c"
  shows "microcents_exact c (Some m)" and "amount c (Some m) = m" and "0 \<le> c"
  using assms CeilCents_bound(1) [OF assms] by (auto simp: microcents_exact_def amount_def CeilCents_eq)

lemma usage_ok_nonneg: "usage_ok u \<Longrightarrow> 0 \<le> u_charge u"
  by (simp add: usage_ok_def u_charge_def amount_nonneg)

lemma u_part_nonneg: "usage_ok u \<Longrightarrow> 0 \<le> u_part rs k u"
  by (simp add: u_part_def usage_ok_nonneg)

lemma r_part_nonneg: "reservation_ok r \<Longrightarrow> 0 \<le> r_part k r"
  by (simp add: r_part_def reservation_ok_def)

lemma charge_usage_tot:
  assumes "charge_usage rs sign u t = Inr t'" and "usage_ok u"
  shows "tot t' k = tot t k + sign * u_part rs k u"
  using assms amount_zero [of "u_cost_cents u" "u_cost_microcents u"]
  by (auto simp: charge_usage_def u_part_def u_charge_def usage_ok_def budget_apply_daily_tot
      split: if_splits elim!: bind_okE dest!: pg_amount_Inr)

lemma charge_usage_i64:
  assumes "charge_usage rs sign u t = Inr t'" and "usage_ok u" and "\<forall>k. is_i64 (tot t k)"
    and "sign = 1 \<or> sign = -1"
  shows "\<forall>k. is_i64 (tot t' k)"
proof (cases "u_cost_cents u \<noteq> 0 \<and> \<not> covered rs (u_request_id u) (u_team_id u)")
  case True
  with assms(1) obtain a where a: "pg_amount (u_cost_cents u) (u_cost_microcents u) = Inr a"
    and t': "budget_apply_daily (u_subjects u) (u_ts u) (sign * a) t = Inr t'"
    by (auto simp: charge_usage_def)
  have "0 \<le> a" using pg_amount_Inr [OF a] assms(2) by (simp add: usage_ok_def amount_nonneg)
  moreover have "is_i64 a" using a assms(2) by (auto simp: pg_amount_def usage_ok_def split: option.splits)
  ultimately have "is_i64 (sign * a)" using assms(4) by (auto simp: i64_defs)
  then show ?thesis using budget_apply_daily_i64 [OF t' assms(3)] by simp
qed (use assms in \<open>auto simp: charge_usage_def\<close>)

lemma charge_usages_tot:
  assumes "fold_ok (\<lambda>u. charge_usage rs sign u) us t = Inr t'" and "\<forall>u \<in> set us. usage_ok u"
  shows "tot t' k = tot t k + sign * sum_list (map (u_part rs k) us)"
  using assms
proof (induction us arbitrary: t)
  case (Cons u us)
  then obtain t1 where t1: "charge_usage rs sign u t = Inr t1" "fold_ok (\<lambda>u. charge_usage rs sign u) us t1 = Inr t'"
    by auto
  then have "tot t' k = tot t1 k + sign * sum_list (map (u_part rs k) us)" using Cons by simp
  then show ?case using charge_usage_tot [OF t1(1), of k] Cons.prems by (simp add: algebra_simps)
qed simp

lemma charge_usages_i64:
  assumes "fold_ok (\<lambda>u. charge_usage rs sign u) us t = Inr t'" and "\<forall>u \<in> set us. usage_ok u"
    and "\<forall>k. is_i64 (tot t k)" and "sign = 1 \<or> sign = -1"
  shows "\<forall>k. is_i64 (tot t' k)"
  using fold_ok_invariant [OF assms(1), of "\<lambda>t. \<forall>k. is_i64 (tot t k)"] charge_usage_i64 assms by metis

lemma sum_list_filter_split:
  "sum_list (map f xs) = sum_list (map f (filter P xs)) + sum_list (map f (filter (\<lambda>x. \<not> P x) xs))"
  for f :: "'a \<Rightarrow> int"
  by (induction xs) auto

lemma covered_append: "covered (rs @ [r]) rid team \<longleftrightarrow> covered rs rid team \<or> (r_request_id r = rid \<and> r_team_id r = team)"
  by (auto simp: covered_def)

lemma not_covered: "\<not> list_ex (\<lambda>q. r_request_id q = rid) rs \<Longrightarrow> \<not> covered rs rid team"
  by (auto simp: covered_def list_ex_iff)

text \<open>The usage that becomes covered by a new reservation leaves the sum.\<close>

lemma u_parts_append:
  assumes "\<not> list_ex (\<lambda>q. r_request_id q = r_request_id r) rs"
  shows "sum_list (map (u_part (rs @ [r]) k) us) = sum_list (map (u_part rs k) us)
    - sum_list (map (u_part [] k) (filter (\<lambda>u. u_request_id u = r_request_id r \<and> u_team_id u = r_team_id r) us))"
proof (induction us)
  case (Cons u us)
  have "u_part (rs @ [r]) k u = (if u_request_id u = r_request_id r \<and> u_team_id u = r_team_id r then 0 else u_part rs k u)"
    by (auto simp: u_part_def covered_append)
  moreover have "u_part rs k u = u_part [] k u" if "u_request_id u = r_request_id r"
    using that not_covered [OF assms] by (simp add: u_part_def) (simp add: covered_def)
  ultimately show ?case using Cons by auto
qed simp

lemma insert_reservation_Inr:
  assumes "insert_reservation r db = Inr db'"
  obtains t where "reservation_exact r" and "\<not> list_ex (\<lambda>q. r_request_id q = r_request_id r) (reservations db)"
    and "reservation_trigger_insert (usage_log db) r (daily_totals db) = Inr t"
    and "db' = db\<lparr>reservations := reservations db @ [r], daily_totals := t\<rparr>"
  using assms by (auto simp: insert_reservation_def split: if_splits elim!: bind_okE intro: that)

lemma spent_insert_reservation:
  assumes "insert_reservation r db = Inr db'"
  shows "spent db' k = spent db k + r_part k r
    - sum_list (map (u_part [] k) (filter (\<lambda>u. u_request_id u = r_request_id r \<and> u_team_id u = r_team_id r) (usage_log db)))"
  using assms
  by (elim insert_reservation_Inr) (simp add: spent_def u_parts_append)

theorem insert_reservation_inv [inv_intros]:
  assumes "ledger_inv db" and "insert_reservation r db = Inr db'" and "reservation_ok r"
  shows "ledger_inv db'"
proof -
  let ?us = "filter (\<lambda>u. u_request_id u = r_request_id r \<and> u_team_id u = r_team_id r) (usage_log db)"
  from assms(2) obtain t where
    fresh: "\<not> list_ex (\<lambda>q. r_request_id q = r_request_id r) (reservations db)"
    and trig: "reservation_trigger_insert (usage_log db) r (daily_totals db) = Inr t"
    and db': "db' = db\<lparr>reservations := reservations db @ [r], daily_totals := t\<rparr>"
    by (rule insert_reservation_Inr)
  from trig obtain t1 where
    t1: "budget_apply_daily (r_subjects r) (r_created_at r) (r_charge r) (daily_totals db) = Inr t1"
    and t: "fold_ok (\<lambda>u. charge_usage [] (-1) u) ?us t1 = Inr t"
    by (auto simp: reservation_trigger_insert_def elim!: bind_okE dest!: reservation_charge_Inr)
  have ok: "\<forall>u \<in> set ?us. usage_ok u" using assms(1) by (auto simp: ledger_inv_def)
  have "tot t k = spent db' k" for k
    using charge_usages_tot [OF t ok, of k] budget_apply_daily_tot [OF t1 distinct_r_subjects, of k]
      spent_insert_reservation [OF assms(2), of k] ledger_inv_tot [OF assms(1), of k]
    by (simp add: r_part_def)
  moreover have "\<forall>k. is_i64 (tot t k)"
  proof (rule charge_usages_i64 [OF t ok])
    show "\<forall>k. is_i64 (tot t1 k)"
      using budget_apply_daily_i64 [OF t1] ledger_inv_i64 [OF assms(1)] ledger_inv_tot [OF assms(1)] assms(3)
      by (simp add: reservation_ok_def)
  qed simp
  ultimately show ?thesis
    using assms fresh by (auto simp: ledger_inv_def db' accounting_ids_def list_ex_iff simp del: split_paired_All)
qed

lemma spent_mono_insert_reservation:
  assumes "ledger_inv db" and "insert_reservation r db = Inr db'"
  shows "spent db' k \<le> spent db k + r_part k r"
proof -
  let ?us = "filter (\<lambda>u. u_request_id u = r_request_id r \<and> u_team_id u = r_team_id r) (usage_log db)"
  have "0 \<le> sum_list (map (u_part [] k) ?us)"
    using assms(1) by (intro sum_list_map_nonneg) (auto simp: ledger_inv_def u_part_nonneg)
  then show ?thesis using spent_insert_reservation [OF assms(2), of k] by simp
qed

lemma find_reservation_Some:
  assumes "find_reservation rid rs = Some r"
  shows "r \<in> set rs" and "r_request_id r = rid"
  using assms by (auto simp: find_reservation_def find_Some_iff)

lemma find_reservation_None: "find_reservation rid rs = None \<longleftrightarrow> rid \<notin> r_request_id ` set rs"
  by (auto simp: find_reservation_def find_None_iff)

lemma find_reservation_unique:
  "distinct (map r_request_id rs) \<Longrightarrow> r \<in> set rs \<Longrightarrow> find_reservation (r_request_id r) rs = Some r"
  by (induction rs) (auto simp: find_reservation_def)

lemma settle_row_fields [simp]:
  "r_request_id (settle_row rid c m now r) = r_request_id r"
  "r_team_id (settle_row rid c m now r) = r_team_id r"
  "r_subjects (settle_row rid c m now r) = r_subjects r"
  "r_created_at (settle_row rid c m now r) = r_created_at r"
  by (simp_all add: settle_row_def r_subjects_def)

lemma covered_settle [simp]: "covered (map (settle_row rid c m now) rs) = covered rs"
  by (auto simp: covered_def list_ex_iff fun_eq_iff)

lemma u_part_settle [simp]: "u_part (map (settle_row rid c m now) rs) = u_part rs"
  by (simp add: u_part_def fun_eq_iff)

lemma map_settle_row_other: "rid \<notin> r_request_id ` set rs \<Longrightarrow> map (settle_row rid c m now) rs = rs"
  by (auto simp: settle_row_def intro!: map_idI)

lemma r_parts_settle:
  assumes "distinct (map r_request_id rs)" and "find_reservation rid rs = Some old"
  shows "sum_list (map (r_part k) (map (settle_row rid c m now) rs))
    = sum_list (map (r_part k) rs) - r_part k old + r_part k (settle_row rid c m now old)"
  using assms
proof (induction rs)
  case (Cons r rs)
  show ?case
  proof (cases "r_request_id r = rid")
    case True
    then have "old = r" using Cons.prems by (simp add: find_reservation_def)
    with True Cons.prems show ?thesis by (simp add: map_settle_row_other del: map_map)
  next
    case False
    then have "settle_row rid c m now r = r" by (simp add: settle_row_def)
    with False Cons show ?thesis by (simp add: find_reservation_def del: map_map)
  qed
qed (simp add: find_reservation_def)

lemma settle_reservation_Inr:
  assumes "settle_reservation rid c m now db = Inr (res, db')"
  obtains (noop) "res = None" "db' = db"
      "\<And>old. find_reservation rid (reservations db) = Some old \<Longrightarrow> r_status old \<noteq> ''reserved''"
  | (settled) old t where "find_reservation rid (reservations db) = Some old" "r_status old = ''reserved''"
      "res = Some (settle_row rid c m now old)" "reservation_exact (settle_row rid c m now old)"
      "reservation_trigger_settle old (settle_row rid c m now old) (daily_totals db) = Inr t"
      "db' = db\<lparr>reservations := map (settle_row rid c m now) (reservations db), daily_totals := t\<rparr>"
proof (cases "find_reservation rid (reservations db)")
  case None
  then show ?thesis using assms noop by (simp add: settle_reservation_def)
next
  case (Some old)
  show ?thesis
  proof (cases "r_status old = ''reserved''")
    case True
    with Some assms show ?thesis
      by (auto simp: settle_reservation_def Let_def intro: settled split: if_splits elim!: bind_okE)
  next
    case False
    then show ?thesis using Some assms noop by (simp add: settle_reservation_def)
  qed
qed

lemma r_charge_settled:
  "r_request_id old = rid \<Longrightarrow> r_status old = ''reserved'' \<Longrightarrow> r_charge (settle_row rid c m now old) = amount c m"
  by (simp add: settle_row_def r_charge_def)

lemma spent_settle:
  assumes "distinct (map r_request_id (reservations db))"
    and "find_reservation rid (reservations db) = Some old" and "r_status old = ''reserved''"
  shows "spent (db\<lparr>reservations := map (settle_row rid c m now) (reservations db), daily_totals := t\<rparr>) k
    = spent db k + (if counts_for (r_subjects old) (r_created_at old) k then amount c m - r_charge old else 0)"
  using r_parts_settle [OF assms(1,2), of k c m now] r_charge_settled [OF find_reservation_Some(2) [OF assms(2)] assms(3)]
  by (simp add: spent_def r_part_def del: map_map)

theorem settle_reservation_inv [inv_intros]:
  assumes "ledger_inv db" and "settle_reservation rid c m now db = Inr (res, db')"
    and "0 \<le> amount c m" and "is_i64 (amount c m)"
  shows "ledger_inv db'"
  using assms(2)
proof (cases rule: settle_reservation_Inr)
  case (settled old t)
  let ?new = "settle_row rid c m now old"
  have old: "r_request_id old = rid" "reservation_ok old"
    using find_reservation_Some [OF settled(1)] ledger_inv_reservation [OF assms(1)] by simp_all
  have new: "r_charge ?new = amount c m" using old settled(2) by (simp add: r_charge_settled)
  from settled(5) have t: "budget_apply_daily (r_subjects old) (r_created_at old) (amount c m - r_charge old) (daily_totals db) = Inr t"
    and diff: "is_i64 (amount c m - r_charge old)"
    by (auto simp: reservation_trigger_settle_def new elim!: bind_okE dest!: reservation_charge_Inr)
  have tot: "tot t k = spent db' k" for k
    using budget_apply_daily_tot [OF t distinct_r_subjects, of k] ledger_inv_tot [OF assms(1), of k]
      spent_settle [OF ledger_inv_distinct [OF assms(1)] settled(1,2), where t = t] by (simp add: settled(6))
  have i64: "\<forall>k. is_i64 (tot t k)"
    using budget_apply_daily_i64 [OF t _ diff] ledger_inv_i64 [OF assms(1)] ledger_inv_tot [OF assms(1)] by simp
  have "reservation_ok (settle_row rid c m now r)" if r: "r \<in> set (reservations db)" for r
  proof (cases "r_request_id r = rid \<and> r_status r = ''reserved''")
    case True
    then have "r = old"
      using find_reservation_unique [OF ledger_inv_distinct [OF assms(1)] r] settled(1) by simp
    then show ?thesis using settled(4) new assms(3,4) True
      by (simp add: reservation_ok_def) (simp add: settle_row_def)
  next
    case False
    then have "settle_row rid c m now r = r" by (auto simp: settle_row_def)
    then show ?thesis using ledger_inv_reservation [OF assms(1) r] by simp
  qed
  with tot i64 assms(1) show ?thesis
    by (auto simp: ledger_inv_def settled(6) accounting_ids_def comp_def simp del: split_paired_All)
qed (use assms(1) in simp)

text \<open>Settling at no more than the reserved amount cannot fail: in particular the trigger never
  raises its \<open>missing budget daily total\<close>.\<close>

lemma spent_ge_reservation:
  assumes "ledger_inv db" and "r \<in> set (reservations db)"
  shows "r_part k r \<le> spent db k"
proof -
  have "r_part k r \<le> sum_list (map (r_part k) (reservations db))"
    using assms(2) ledger_inv_reservation [OF assms(1)]
    by (intro member_le_sum_list) (auto simp: r_part_nonneg)
  moreover have "0 \<le> sum_list (map (u_part (reservations db) k) (usage_log db))"
    using ledger_inv_usage [OF assms(1)] by (intro sum_list_map_nonneg) (simp add: u_part_nonneg)
  ultimately show ?thesis by (simp add: spent_def)
qed

lemma settle_reservation_succeeds:
  assumes inv: "ledger_inv db" and exact: "microcents_exact c m" "0 \<le> c"
    and est: "\<And>old. find_reservation rid (reservations db) = Some old \<Longrightarrow> r_status old = ''reserved'' \<Longrightarrow>
      microcents_exact (r_estimated_cost_cents old) (r_estimated_cost_microcents old) \<and> amount c m \<le> r_charge old"
  shows "\<exists>res db'. settle_reservation rid c m now db = Inr (res, db')"
proof (cases "find_reservation rid (reservations db)")
  case None
  then show ?thesis by (simp add: settle_reservation_def)
next
  case (Some old)
  show ?thesis
  proof (cases "r_status old = ''reserved''")
    case True
    let ?new = "settle_row rid c m now old"
    have old: "r_request_id old = rid" "reservation_ok old" "old \<in> set (reservations db)"
      using find_reservation_Some [OF Some] ledger_inv_reservation [OF inv] by simp_all
    have new: "r_charge ?new = amount c m" using old True by (simp add: r_charge_settled)
    have ex: "reservation_exact ?new"
      using est [OF Some True] exact old True by (simp add: reservation_exact_def settle_row_def)
    have am: "0 \<le> amount c m" "amount c m \<le> r_charge old"
      using amount_nonneg [OF exact] est [OF Some True] by simp_all
    have ri: "is_i64 (r_charge old)" "0 \<le> r_charge old" using old(2) by (simp_all add: reservation_ok_def)
    have i64: "is_i64 (amount c m)" "is_i64 (amount c m - r_charge old)"
      using am ri by (auto simp: i64_defs)
    have "\<exists>t. budget_apply_daily (r_subjects old) (r_created_at old) (amount c m - r_charge old) (daily_totals db) = Inr t"
    proof (rule budget_apply_daily_succeeds [OF distinct_r_subjects])
      fix k assume "counts_for (r_subjects old) (r_created_at old) k"
      then have "r_charge old \<le> spent db k"
        using spent_ge_reservation [OF inv old(3), of k] by (simp add: r_part_def)
      moreover have "is_i64 (spent db k)" using ledger_inv_i64 [OF inv] .
      ultimately show "0 \<le> tot (daily_totals db) k + (amount c m - r_charge old)
          \<and> is_i64 (tot (daily_totals db) k + (amount c m - r_charge old))"
        using am ri unfolding ledger_inv_tot [OF inv] by (auto simp: i64_defs)
    qed
    then obtain t where
      t: "budget_apply_daily (r_subjects old) (r_created_at old) (amount c m - r_charge old) (daily_totals db) = Inr t" ..
    have "reservation_trigger_settle old ?new (daily_totals db) = Inr t"
      using i64 ri t new by (simp add: reservation_trigger_settle_def reservation_charge_ok bigint_def)
    with Some True ex show ?thesis by (simp add: settle_reservation_def Let_def)
  qed (use Some in \<open>simp add: settle_reservation_def\<close>)
qed

subsection \<open>The usage log\<close>

definition usage_conflict :: "usage_entry \<Rightarrow> ledger \<Rightarrow> usage_row option" where
  "usage_conflict e db =
     (if e_AccountingID e = [] then None
      else find (\<lambda>u. u_accounting_id u = Some (e_AccountingID e)) (usage_log db))"

lemma insert_usage_row_Inr:
  assumes "insert_usage_row e ts db = Inr (i, db')"
  obtains (fresh) t where "usage_conflict e db = None" "i = next_usage_id db"
      "microcents_exact (e_CostCents e) (e_CostMicrocents e)"
      "usage_trigger_insert (reservations db) (usage_row_of (next_usage_id db) e ts) (daily_totals db) = Inr t"
      "db' = db\<lparr>usage_log := usage_log db @ [usage_row_of (next_usage_id db) e ts],
                daily_totals := t, next_usage_id := next_usage_id db + 1\<rparr>"
  | (known) old t where "usage_conflict e db = Some old" "i = u_id old"
      "usage_trigger_update (reservations db) old old (daily_totals db) = Inr t"
      "db' = db\<lparr>daily_totals := t, next_usage_id := next_usage_id db + 1\<rparr>"
proof -
  have find: "find (\<lambda>u. u_accounting_id (usage_row_of (next_usage_id db) e ts) \<noteq> None
      \<and> u_accounting_id u = u_accounting_id (usage_row_of (next_usage_id db) e ts)) (usage_log db) = usage_conflict e db"
    by (auto simp: usage_conflict_def usage_row_of_def find_None_iff)
  show ?thesis
  proof (cases "usage_conflict e db")
    case None
    then show ?thesis using assms unfolding insert_usage_row_def Let_def find
      by (auto simp: usage_row_of_def intro: fresh [unfolded usage_row_of_def] split: if_splits elim!: bind_okE)
  next
    case (Some old)
    then show ?thesis using assms unfolding insert_usage_row_def Let_def find
      by (auto intro: known split: if_splits elim!: bind_okE)
  qed
qed

lemma u_charge_row [simp]: "u_charge (usage_row_of i e ts) = amount (e_CostCents e) (e_CostMicrocents e)"
  by (simp add: u_charge_def usage_row_of_def)

lemma tot_update_same:
  assumes "usage_trigger_update rs u u t = Inr t'" and "usage_ok u"
  shows "tot t' k = tot t k"
proof -
  from assms(1) obtain t1 where t1: "charge_usage rs (-1) u t = Inr t1" "charge_usage rs 1 u t1 = Inr t'"
    by (auto simp: usage_trigger_update_def)
  show ?thesis using charge_usage_tot [OF t1(1) assms(2), of k] charge_usage_tot [OF t1(2) assms(2), of k] by simp
qed

lemma usage_conflict_None: "usage_conflict e db = None \<Longrightarrow> e_AccountingID e \<noteq> [] \<Longrightarrow> e_AccountingID e \<notin> set (accounting_ids db)"
  by (auto simp: usage_conflict_def find_None_iff accounting_ids_def List.map_filter_def)

lemma usage_conflict_Some: "usage_conflict e db = Some old \<Longrightarrow> old \<in> set (usage_log db) \<and> u_accounting_id old = Some (e_AccountingID e)"
  by (auto simp: usage_conflict_def find_Some_iff split: if_splits)

definition entry_cost_ok :: "usage_entry \<Rightarrow> bool" where
  "entry_cost_ok e \<longleftrightarrow> 0 \<le> e_CostCents e \<and> pred_option is_i64 (e_CostMicrocents e)"

lemma spent_insert_usage:
  assumes "ledger_inv db" and "insert_usage_row e ts db = Inr (i, db')"
  shows "spent db' k = spent db k + (if usage_conflict e db = None
     then u_part (reservations db) k (usage_row_of (next_usage_id db) e ts) else 0)"
  using assms(2) by (cases rule: insert_usage_row_Inr) (simp_all add: spent_def)

theorem insert_usage_row_inv [inv_intros]:
  assumes "ledger_inv db" and "insert_usage_row e ts db = Inr (i, db')" and "entry_cost_ok e"
  shows "ledger_inv db'"
  using assms(2)
proof (cases rule: insert_usage_row_Inr)
  case (fresh t)
  let ?row = "usage_row_of (next_usage_id db) e ts"
  have ok: "usage_ok ?row" using assms(3) fresh(3) by (simp add: usage_ok_def entry_cost_ok_def usage_row_of_def)
  have charge: "charge_usage (reservations db) 1 ?row (daily_totals db) = Inr t"
    using fresh(4) by (simp add: usage_trigger_insert_def)
  have tot: "tot t k = spent db' k" for k
    using charge_usage_tot [OF charge ok, of k] ledger_inv_tot [OF assms(1), of k]
      spent_insert_usage [OF assms(1,2), of k] fresh(1) by simp
  have i64: "\<forall>k. is_i64 (tot t k)"
    using charge_usage_i64 [OF charge ok] ledger_inv_i64 [OF assms(1)] ledger_inv_tot [OF assms(1)] by simp
  have ids: "distinct (accounting_ids db')"
    using assms(1) usage_conflict_None [OF fresh(1)]
    by (auto simp: fresh(5) accounting_ids_def ledger_inv_def List.map_filter_def usage_row_of_def)
  have uid: "distinct (map u_id (usage_log db'))" "\<forall>u \<in> set (usage_log db'). u_id u < next_usage_id db'"
    using assms(1) by (fastforce simp: fresh(5) ledger_inv_def usage_row_of_def)+
  show ?thesis using tot i64 ids uid ok assms(1)
    unfolding ledger_inv_def by (simp add: fresh(5) del: split_paired_All)
next
  case (known old t)
  have ok: "usage_ok old" using usage_conflict_Some [OF known(1)] ledger_inv_usage [OF assms(1)] by simp
  have tot: "tot t k = tot (daily_totals db) k" for k using tot_update_same [OF known(3) ok] .
  have "spent db' k = spent db k" for k using spent_insert_usage [OF assms(1,2), of k] known(1) by simp
  with tot assms(1) show ?thesis
    unfolding ledger_inv_def by (auto simp: known(4) accounting_ids_def simp del: split_paired_All)
qed

end
