(* ===== verification/Lock_Order.thy ===== *)
theory Lock_Order
  imports Gw_Prelude
begin

text \<open>
  Transactions that take advisory locks one after the other and release them together at their
  end (\<^verbatim>\<open>pg_advisory_xact_lock\<close>). A transaction may take a lock it already holds. The locale states
  what the callers promise, that each transaction asks for its keys in ascending order, and
  proves that lock holders exclude each other and that no reachable state is stuck.
\<close>

record 'p lock_state =
  holds :: "'p \<Rightarrow> int list"
  wants :: "'p \<Rightarrow> int list"

inductive lock_step :: "'p set \<Rightarrow> 'p lock_state \<Rightarrow> 'p lock_state \<Rightarrow> bool" for ps where
  acquire: "p \<in> ps \<Longrightarrow> wants s p = k # ks \<Longrightarrow> (\<And>q. q \<in> ps \<Longrightarrow> q \<noteq> p \<Longrightarrow> k \<notin> set (holds s q)) \<Longrightarrow>
    lock_step ps s (s\<lparr>holds := (holds s)(p := k # holds s p), wants := (wants s)(p := ks)\<rparr>)"
| commit: "p \<in> ps \<Longrightarrow> wants s p = [] \<Longrightarrow> holds s p \<noteq> [] \<Longrightarrow>
    lock_step ps s (s\<lparr>holds := (holds s)(p := [])\<rparr>)"

definition lock_start :: "('p \<Rightarrow> int list) \<Rightarrow> 'p lock_state" where
  "lock_start plan = \<lparr>holds = (\<lambda>_. []), wants = plan\<rparr>"

definition ascending :: "'p lock_state \<Rightarrow> 'p \<Rightarrow> bool" where
  "ascending s p \<longleftrightarrow> sorted (wants s p) \<and> (\<forall>h \<in> set (holds s p). \<forall>k \<in> set (wants s p). h \<le> k)"

definition apart :: "'p lock_state \<Rightarrow> 'p \<Rightarrow> 'p \<Rightarrow> bool" where
  "apart s p q \<longleftrightarrow> (\<forall>k. k \<in> set (holds s p) \<longrightarrow> k \<notin> set (holds s q))"

definition order_inv :: "'p set \<Rightarrow> 'p lock_state \<Rightarrow> bool" where
  "order_inv ps s \<longleftrightarrow> (\<forall>p \<in> ps. ascending s p) \<and> (\<forall>p \<in> ps. \<forall>q \<in> ps. p \<noteq> q \<longrightarrow> apart s p q)"

lemma order_inv_step: "lock_step ps s s' \<Longrightarrow> order_inv ps s \<Longrightarrow> order_inv ps s'"
proof (induction rule: lock_step.induct)
  case (acquire p s k ks)
  let ?s = "s\<lparr>holds := (holds s)(p := k # holds s p), wants := (wants s)(p := ks)\<rparr>"
  have "ascending ?s q" if "q \<in> ps" for q
  proof -
    have "ascending s q" using acquire.prems that by (simp add: order_inv_def)
    then show ?thesis using acquire.hyps(2) by (cases "q = p") (simp_all add: ascending_def)
  qed
  moreover have "apart ?s q r" if "q \<in> ps" "r \<in> ps" "q \<noteq> r" for q r
  proof -
    have "apart s q r" using acquire.prems that by (simp add: order_inv_def)
    then show ?thesis using acquire.hyps(3) [of q] acquire.hyps(3) [of r] that by (auto simp: apart_def)
  qed
  ultimately show ?case by (simp add: order_inv_def)
next
  case (commit p s)
  let ?s = "s\<lparr>holds := (holds s)(p := [])\<rparr>"
  have "ascending ?s q" if "ascending s q" for q
    using that by (cases "q = p") (simp_all add: ascending_def)
  moreover have "apart ?s q r" if "apart s q r" for q r
    using that by (simp add: apart_def)
  ultimately show ?case using commit.prems unfolding order_inv_def by blast
qed

locale ordered_locking =
  fixes ps :: "'p set" and plan :: "'p \<Rightarrow> int list"
  assumes finite_ps: "finite ps"
    and plan_sorted: "p \<in> ps \<Longrightarrow> sorted (plan p)"
begin

lemma order_inv_start: "order_inv ps (lock_start plan)"
  using plan_sorted by (simp add: order_inv_def lock_start_def ascending_def apart_def)

lemma order_inv_reachable: "(lock_step ps)\<^sup>*\<^sup>* (lock_start plan) s \<Longrightarrow> order_inv ps s"
proof (induction rule: rtranclp_induct)
  case base
  show ?case by (rule order_inv_start)
next
  case (step s s')
  then show ?case by (blast intro: order_inv_step)
qed

lemma not_stuck:
  assumes "order_inv ps s" and "p0 \<in> ps" and "wants s p0 \<noteq> [] \<or> holds s p0 \<noteq> []"
  shows "\<exists>s'. lock_step ps s s'"
proof (cases "\<exists>p \<in> ps. wants s p = [] \<and> holds s p \<noteq> []")
  case True
  then obtain p where "p \<in> ps" "wants s p = []" "holds s p \<noteq> []" by auto
  from lock_step.commit [OF this] show ?thesis ..
next
  case False
  let ?W = "{p \<in> ps. wants s p \<noteq> []}"
  have W: "finite ?W" using finite_ps by simp
  have "wants s p0 \<noteq> []"
  proof
    assume none: "wants s p0 = []"
    with assms(3) have "holds s p0 \<noteq> []" by simp
    with none assms(2) False show False by blast
  qed
  then have ne: "?W \<noteq> {}" using assms(2) by blast
  define m where "m = Max ((\<lambda>p. hd (wants s p)) ` ?W)"
  have "m \<in> (\<lambda>p. hd (wants s p)) ` ?W" unfolding m_def using W ne by (intro Max_in) simp_all
  then obtain p where p: "p \<in> ps" "wants s p \<noteq> []" "hd (wants s p) = m" by auto
  obtain k ks where k: "wants s p = k # ks" using p(2) by (cases "wants s p") auto
  then have km: "k = m" using p(3) by simp
  have le: "hd (wants s q) \<le> k" if "q \<in> ps" "wants s q \<noteq> []" for q
    unfolding km m_def using W that by (intro Max_ge) simp_all
  show ?thesis
  proof (cases "\<exists>q \<in> ps. q \<noteq> p \<and> k \<in> set (holds s q)")
    case True
    then obtain q where q: "q \<in> ps" "q \<noteq> p" "k \<in> set (holds s q)" by blast
    then have "wants s q \<noteq> []" using False by auto
    then obtain j js where j: "wants s q = j # js" by (cases "wants s q") auto
    have "k \<le> j" using assms(1) q j by (simp add: order_inv_def ascending_def)
    with le [OF q(1)] j have "j = k" by simp
    moreover have "k \<notin> set (holds s r)" if "r \<in> ps" "r \<noteq> q" for r
      using assms(1) q that by (auto simp: order_inv_def ascending_def apart_def)
    ultimately have "lock_step ps s (s\<lparr>holds := (holds s)(q := j # holds s q), wants := (wants s)(q := js)\<rparr>)"
      by (intro lock_step.acquire [OF q(1) j]) simp
    then show ?thesis ..
  next
    case False
    then have "lock_step ps s (s\<lparr>holds := (holds s)(p := k # holds s p), wants := (wants s)(p := ks)\<rparr>)"
      by (intro lock_step.acquire [OF p(1) k]) blast
    then show ?thesis ..
  qed
qed

lemma deadlock_free:
  assumes "(lock_step ps)\<^sup>*\<^sup>* (lock_start plan) s" and "p \<in> ps" and "wants s p \<noteq> [] \<or> holds s p \<noteq> []"
  shows "\<exists>s'. lock_step ps s s'"
  using not_stuck [OF order_inv_reachable [OF assms(1)] assms(2,3)] .

lemma exclusive:
  assumes "(lock_step ps)\<^sup>*\<^sup>* (lock_start plan) s" and "p \<in> ps" "q \<in> ps" "k \<in> set (holds s p)" "k \<in> set (holds s q)"
  shows "p = q"
  using order_inv_reachable [OF assms(1)] assms(2-) by (auto simp: order_inv_def apart_def)

lemma keeps_plan:
  "(lock_step ps)\<^sup>*\<^sup>* (lock_start plan) s \<Longrightarrow>
   set (plan p) \<subseteq> set (holds s p) \<union> set (wants s p) \<or> holds s p = [] \<and> wants s p = []"
proof (induction rule: rtranclp_induct)
  case base
  then show ?case by (simp add: lock_start_def)
next
  case (step s s')
  from step.hyps(2) show ?case
  proof cases
    case (acquire q k ks)
    then show ?thesis using step.IH by (cases "q = p") auto
  next
    case (commit q)
    then show ?thesis using step.IH by (cases "q = p") auto
  qed
qed

text \<open>Two transactions with a key in common are never both between their last lock and their
  commit.\<close>

lemma serialised:
  assumes "(lock_step ps)\<^sup>*\<^sup>* (lock_start plan) s" and "p \<in> ps" "q \<in> ps"
    and "k \<in> set (plan p)" "k \<in> set (plan q)"
    and "wants s p = []" "holds s p \<noteq> []" "wants s q = []" "holds s q \<noteq> []"
  shows "p = q"
  using exclusive [OF assms(1-3), of k] keeps_plan [OF assms(1), of p] keeps_plan [OF assms(1), of q] assms(4-) by auto

end

end
