(* ===== verification/Token_Cost.thy ===== *)
theory Token_Cost
  imports Microcents
begin

text \<open>
  Token usage and its price: the provider-independent usage record
  (\<^verbatim>\<open>internal/providers/provider.go\<close>), the normalisation of the two native protocols
  (\<^verbatim>\<open>internal/providers/usage.go\<close>), the pricing row and its tiers
  (\<^verbatim>\<open>internal/store/pricing_tiers.go\<close>, \<^verbatim>\<open>internal/store/budgets.go\<close>) and the exact cost engine
  (\<^verbatim>\<open>internal/budget/token_cost.go\<close>). Main results: the cost is the exact sum over disjoint
  tiers, the admission estimate covers every usage within the estimated token totals, and a
  usage normalised by either adapter is never rejected as inconsistent.
\<close>

section \<open>Usage records\<close>

record cache_creation_details =
  Ephemeral5mInputTokens :: int
  Ephemeral1hInputTokens :: int

record prompt_tokens_details =
  CachedTokens :: int
  PromptAudioTokens :: int

record completion_tokens_details =
  ReasoningTokens :: int
  CompletionAudioTokens :: int

record usage =
  PromptTokens :: int
  CompletionTokens :: int
  TotalTokens :: int
  PromptTokensDetails :: "prompt_tokens_details option"
  CompletionTokensDetails :: "completion_tokens_details option"
  CacheCreationInputTokens :: int
  CacheReadInputTokens :: int
  CacheCreation :: "cache_creation_details option"

fun token_sum_from :: "int \<Rightarrow> int list \<Rightarrow> string + int" where
  "token_sum_from tot [] = Inr tot"
| "token_sum_from tot (count # counts) =
     (if count < 0 \<or> tot > wrap64 (MaxInt64 - count)
      then Inl ''invalid or overflowing token usage''
      else token_sum_from (wrap64 (tot + count)) counts)"

definition tokenSum :: "int list \<Rightarrow> string + int" where
  "tokenSum counts = token_sum_from 0 counts"

record anthropic_usage =
  a_InputTokens :: int
  a_OutputTokens :: int
  a_CacheCreationInputTokens :: int
  a_CacheReadInputTokens :: int
  a_CacheCreation :: "cache_creation_details option"

definition AnthropicUsage_cache_write :: "anthropic_usage \<Rightarrow> string + int" where
  "AnthropicUsage_cache_write u =
     (case a_CacheCreation u of
        None \<Rightarrow> Inr (a_CacheCreationInputTokens u)
      | Some d \<Rightarrow>
          (case tokenSum [Ephemeral5mInputTokens d, Ephemeral1hInputTokens d] of
             Inl e \<Rightarrow> Inl e
           | Inr write \<Rightarrow>
               if a_CacheCreationInputTokens u \<noteq> 0 \<and> a_CacheCreationInputTokens u \<noteq> write
               then Inl ''inconsistent cache creation usage''
               else Inr write))"

definition AnthropicUsage_Canonical :: "anthropic_usage \<Rightarrow> string + usage" where
  "AnthropicUsage_Canonical u =
     (case AnthropicUsage_cache_write u of
        Inl e \<Rightarrow> Inl e
      | Inr write \<Rightarrow>
     (case tokenSum [a_InputTokens u, write, a_CacheReadInputTokens u] of
        Inl e \<Rightarrow> Inl e
      | Inr input \<Rightarrow>
     (case tokenSum [input, a_OutputTokens u] of
        Inl e \<Rightarrow> Inl e
      | Inr tot \<Rightarrow>
          Inr \<lparr>PromptTokens = input, CompletionTokens = a_OutputTokens u, TotalTokens = tot,
               PromptTokensDetails =
                 Some \<lparr>CachedTokens = a_CacheReadInputTokens u, PromptAudioTokens = 0\<rparr>,
               CompletionTokensDetails = None,
               CacheCreationInputTokens = write,
               CacheReadInputTokens = a_CacheReadInputTokens u,
               CacheCreation = a_CacheCreation u\<rparr>)))"

record gemini_usage =
  PromptTokenCount :: int
  CandidatesTokenCount :: int
  TotalTokenCount :: int
  CachedContentTokenCount :: int
  ThoughtsTokenCount :: int

definition GeminiUsage_Canonical :: "gemini_usage \<Rightarrow> string + usage" where
  "GeminiUsage_Canonical u =
     (case tokenSum [CandidatesTokenCount u, ThoughtsTokenCount u] of
        Inl e \<Rightarrow> Inl e
      | Inr output \<Rightarrow>
     (case tokenSum [PromptTokenCount u, output] of
        Inl e \<Rightarrow> Inl e
      | Inr tot \<Rightarrow>
          if CachedContentTokenCount u < 0 \<or> CachedContentTokenCount u > PromptTokenCount u
             \<or> TotalTokenCount u < 0
          then Inl ''invalid Gemini usage''
          else Inr \<lparr>PromptTokens = PromptTokenCount u, CompletionTokens = output, TotalTokens = tot,
               PromptTokensDetails =
                 Some \<lparr>CachedTokens = CachedContentTokenCount u, PromptAudioTokens = 0\<rparr>,
               CompletionTokensDetails =
                 Some \<lparr>ReasoningTokens = ThoughtsTokenCount u, CompletionAudioTokens = 0\<rparr>,
               CacheCreationInputTokens = 0, CacheReadInputTokens = 0, CacheCreation = None\<rparr>))"

definition SetCompletionTokens :: "usage \<Rightarrow> int \<Rightarrow> string + usage" where
  "SetCompletionTokens u output =
     (case tokenSum [PromptTokens u, output] of
        Inl e \<Rightarrow> Inl e
      | Inr tot \<Rightarrow> Inr (u\<lparr>CompletionTokens := output, TotalTokens := tot\<rparr>))"

section \<open>Pricing rows\<close>

record pricing_tiers =
  CacheReadPerMillionCents :: "int option"
  CacheWritePerMillionCents :: "int option"
  CacheWrite1hPerMillionCents :: "int option"
  ReasoningPerMillionCents :: "int option"

record pricing =
  Tiers :: pricing_tiers
  InputPerMillionCents :: int
  OutputPerMillionCents :: int

definition tier_rates :: "pricing_tiers \<Rightarrow> int option list" where
  "tier_rates t = [CacheReadPerMillionCents t, CacheWritePerMillionCents t,
                   CacheWrite1hPerMillionCents t, ReasoningPerMillionCents t]"

definition PricingTiers_Validate :: "pricing_tiers \<Rightarrow> string + unit" where
  "PricingTiers_Validate p =
     (if list_ex (\<lambda>rate. case rate of None \<Rightarrow> False | Some r \<Rightarrow> r < 0) (tier_rates p)
      then Inl ''pricing tier values must be non-negative'' else Inr ())"

text \<open>The checks of \<open>UpsertPricing\<close> before its \<open>INSERT\<close>: the only way a row enters the table.\<close>

definition UpsertPricing_row :: "int \<Rightarrow> int \<Rightarrow> pricing_tiers \<Rightarrow> string + pricing" where
  "UpsertPricing_row inputPerMillion outputPerMillion tiers =
     (case PricingTiers_Validate tiers of
        Inl e \<Rightarrow> Inl e
      | Inr _ \<Rightarrow>
          if inputPerMillion < 0 \<or> outputPerMillion < 0
          then Inl ''pricing values must be non-negative''
          else Inr \<lparr>Tiers = tiers, InputPerMillionCents = inputPerMillion,
                    OutputPerMillionCents = outputPerMillion\<rparr>)"

section \<open>The cost engine\<close>

definition tierRate :: "int option \<Rightarrow> int \<Rightarrow> int" where
  "tierRate override fallback = (case override of None \<Rightarrow> fallback | Some r \<Rightarrow> r)"

type_synonym token_tier = "int \<times> int"

fun weighted_sum :: "int \<Rightarrow> token_tier list \<Rightarrow> string + int" where
  "weighted_sum acc [] = Inr acc"
| "weighted_sum acc ((count, rate) # tiers) =
     (if count < 0 \<or> rate < 0 then Inl ''negative token count or rate''
      else weighted_sum (acc + count * rate) tiers)"

definition weightedMicrocents :: "token_tier list \<Rightarrow> string + int" where
  "weightedMicrocents tiers =
     (case weighted_sum 0 tiers of
        Inl e \<Rightarrow> Inl e
      | Inr s \<Rightarrow> if is_i64 s then Inr s else Inl ''token cost exceeds int64 microcents'')"

definition cost_read_tokens :: "usage \<Rightarrow> string + int" where
  "cost_read_tokens u =
     (let read = CacheReadInputTokens u in
      case PromptTokensDetails u of
        None \<Rightarrow> Inr read
      | Some d \<Rightarrow>
          let cached = CachedTokens d in
          if cached < 0 \<or> (read > 0 \<and> cached > 0 \<and> cached \<noteq> read)
          then Inl ''inconsistent cached input usage''
          else Inr (max read cached))"

definition cost_write_tokens :: "usage \<Rightarrow> string + int \<times> int" where
  "cost_write_tokens u =
     (let write = CacheCreationInputTokens u in
      case CacheCreation u of
        None \<Rightarrow> Inr (write, 0)
      | Some d \<Rightarrow>
          let write1h = Ephemeral1hInputTokens d; write5m = Ephemeral5mInputTokens d in
          if write1h < 0 \<or> write5m < 0 \<or> write1h > wrap64 (MaxInt64 - write5m)
          then Inl ''invalid cache write usage''
          else if write = 0 then Inr (wrap64 (write1h + write5m), write1h)
          else if write \<noteq> wrap64 (write1h + write5m) then Inl ''inconsistent cache write usage''
          else Inr (write, write1h))"

definition cost_reasoning_tokens :: "usage \<Rightarrow> int" where
  "cost_reasoning_tokens u =
     (case CompletionTokensDetails u of None \<Rightarrow> 0 | Some d \<Rightarrow> ReasoningTokens d)"

definition input_tiers :: "pricing \<Rightarrow> usage \<Rightarrow> int \<Rightarrow> int \<Rightarrow> int \<Rightarrow> token_tier list" where
  "input_tiers p u read write write1h =
     [(wrap64 (wrap64 (PromptTokens u - read) - write), InputPerMillionCents p),
      (read, tierRate (CacheReadPerMillionCents (Tiers p)) (InputPerMillionCents p)),
      (wrap64 (write - write1h), tierRate (CacheWritePerMillionCents (Tiers p)) (InputPerMillionCents p)),
      (write1h, tierRate (CacheWrite1hPerMillionCents (Tiers p))
                  (tierRate (CacheWritePerMillionCents (Tiers p)) (InputPerMillionCents p)))]"

definition output_tiers :: "pricing \<Rightarrow> usage \<Rightarrow> int \<Rightarrow> token_tier list" where
  "output_tiers p u reasoning =
     [(wrap64 (CompletionTokens u - reasoning), OutputPerMillionCents p),
      (reasoning, tierRate (ReasoningPerMillionCents (Tiers p)) (OutputPerMillionCents p))]"

definition CostUsage :: "pricing option \<Rightarrow> usage \<Rightarrow> string + int" where
  "CostUsage pricing u =
     (case pricing of None \<Rightarrow> Inl ''pricing unavailable'' | Some p \<Rightarrow>
      if CacheReadInputTokens u < 0 \<or> CacheCreationInputTokens u < 0
      then Inl ''negative cache usage''
      else
     (case cost_read_tokens u of Inl e \<Rightarrow> Inl e | Inr read \<Rightarrow>
     (case cost_write_tokens u of Inl e \<Rightarrow> Inl e | Inr (write, write1h) \<Rightarrow>
      let reasoning = cost_reasoning_tokens u in
      if PromptTokens u < 0 \<or> CompletionTokens u < 0 \<or> read < 0 \<or> write < 0
         \<or> read > PromptTokens u \<or> write > wrap64 (PromptTokens u - read)
         \<or> reasoning < 0 \<or> reasoning > CompletionTokens u
      then Inl ''token detail counts exceed authoritative totals''
      else
     (case weightedMicrocents (input_tiers p u read write write1h) of Inl e \<Rightarrow> Inl e | Inr input \<Rightarrow>
     (case weightedMicrocents (output_tiers p u reasoning) of Inl e \<Rightarrow> Inl e | Inr output \<Rightarrow>
      if input > wrap64 (MaxInt64 - output) then Inl ''token cost exceeds int64 microcents''
      else Inr (wrap64 (input + output)))))))"

definition token_only_usage :: "int \<Rightarrow> int \<Rightarrow> usage" where
  "token_only_usage prompt completion =
     \<lparr>PromptTokens = prompt, CompletionTokens = completion, TotalTokens = 0,
      PromptTokensDetails = None, CompletionTokensDetails = None,
      CacheCreationInputTokens = 0, CacheReadInputTokens = 0, CacheCreation = None\<rparr>"

definition max_input_rate :: "pricing \<Rightarrow> int" where
  "max_input_rate p =
     fold (\<lambda>rate acc. case rate of None \<Rightarrow> acc | Some r \<Rightarrow> max acc r)
       [CacheReadPerMillionCents (Tiers p), CacheWritePerMillionCents (Tiers p),
        CacheWrite1hPerMillionCents (Tiers p)] (InputPerMillionCents p)"

definition estimatedTierCost :: "pricing \<Rightarrow> int \<Rightarrow> int \<Rightarrow> string + int" where
  "estimatedTierCost p prompt completion =
     CostUsage
       (Some (p\<lparr>InputPerMillionCents := max_input_rate p,
                OutputPerMillionCents :=
                  max (OutputPerMillionCents p)
                    (tierRate (ReasoningPerMillionCents (Tiers p)) (OutputPerMillionCents p))\<rparr>))
       (token_only_usage prompt completion)"

section \<open>Token sums\<close>

lemma token_sum_from_eq:
  assumes "0 \<le> acc" and "is_i64 acc" and "\<forall>c\<in>set counts. is_i64 c"
  shows "token_sum_from acc counts =
    (if (\<forall>c\<in>set counts. 0 \<le> c) \<and> acc + sum_list counts \<le> MaxInt64
     then Inr (acc + sum_list counts) else Inl ''invalid or overflowing token usage'')"
  using assms
proof (induction counts arbitrary: acc)
  case Nil
  then show ?case by (auto simp: is_i64_def)
next
  case (Cons c counts)
  show ?case
  proof (cases "0 \<le> c \<and> acc + c \<le> MaxInt64")
    case True
    then have "is_i64 (MaxInt64 - c)" "is_i64 (acc + c)"
      using Cons.prems by (auto simp: i64_defs)
    with True Cons show ?thesis by (simp add: add.assoc)
  next
    case False
    have "is_i64 (MaxInt64 - c)" if "0 \<le> c" using that Cons.prems by (auto simp: i64_defs)
    moreover have "\<not> acc + (c + sum_list counts) \<le> MaxInt64"
      if "0 \<le> c" "\<forall>x\<in>set counts. 0 \<le> x"
      using False that sum_list_nonneg [of counts] by auto
    ultimately show ?thesis using False by auto
  qed
qed

lemma tokenSum_Inr:
  assumes "\<forall>c\<in>set counts. is_i64 c" and "tokenSum counts = Inr s"
  shows "s = sum_list counts" and "\<forall>c\<in>set counts. 0 \<le> c" and "0 \<le> s" and "is_i64 s"
proof -
  have eq: "(\<forall>c\<in>set counts. 0 \<le> c) \<and> sum_list counts \<le> MaxInt64 \<and> s = sum_list counts"
    using assms token_sum_from_eq [of 0 counts] by (auto simp: tokenSum_def split: if_splits)
  then show "s = sum_list counts" and "\<forall>c\<in>set counts. 0 \<le> c" by simp_all
  from eq show "0 \<le> s" by (simp add: sum_list_nonneg)
  with eq show "is_i64 s" by (simp add: i64_defs)
qed

section \<open>Consistent usage and its split into tiers\<close>

text \<open>Every field of a Go usage record is a 64-bit integer.\<close>

definition usage_i64 :: "usage \<Rightarrow> bool" where
  "usage_i64 u \<longleftrightarrow>
     is_i64 (PromptTokens u) \<and> is_i64 (CompletionTokens u)
     \<and> is_i64 (CacheCreationInputTokens u) \<and> is_i64 (CacheReadInputTokens u)
     \<and> pred_option (\<lambda>d. is_i64 (CachedTokens d)) (PromptTokensDetails u)
     \<and> pred_option (\<lambda>d. is_i64 (ReasoningTokens d)) (CompletionTokensDetails u)
     \<and> pred_option (\<lambda>d. is_i64 (Ephemeral5mInputTokens d) \<and> is_i64 (Ephemeral1hInputTokens d))
         (CacheCreation u)"

text \<open>The disjoint tiers of a usage record: cached reads, short and long cache writes, reasoning.
  The specification of what the engine prices, on unbounded integers.\<close>

definition spec_read :: "usage \<Rightarrow> int" where
  "spec_read u = (case PromptTokensDetails u of
     None \<Rightarrow> CacheReadInputTokens u | Some d \<Rightarrow> max (CacheReadInputTokens u) (CachedTokens d))"

definition spec_write1h :: "usage \<Rightarrow> int" where
  "spec_write1h u = (case CacheCreation u of None \<Rightarrow> 0 | Some d \<Rightarrow> Ephemeral1hInputTokens d)"

definition spec_write :: "usage \<Rightarrow> int" where
  "spec_write u = (case CacheCreation u of
     None \<Rightarrow> CacheCreationInputTokens u
   | Some d \<Rightarrow> Ephemeral5mInputTokens d + Ephemeral1hInputTokens d)"

definition read_consistent :: "usage \<Rightarrow> bool" where
  "read_consistent u \<longleftrightarrow> (case PromptTokensDetails u of None \<Rightarrow> True | Some d \<Rightarrow>
          0 \<le> CachedTokens d
          \<and> (CacheReadInputTokens u = 0 \<or> CachedTokens d = 0 \<or> CachedTokens d = CacheReadInputTokens u))"

definition write_consistent :: "usage \<Rightarrow> bool" where
  "write_consistent u \<longleftrightarrow> (case CacheCreation u of None \<Rightarrow> True | Some d \<Rightarrow>
          0 \<le> Ephemeral5mInputTokens d \<and> 0 \<le> Ephemeral1hInputTokens d
          \<and> Ephemeral5mInputTokens d + Ephemeral1hInputTokens d \<le> MaxInt64
          \<and> (CacheCreationInputTokens u = 0
             \<or> CacheCreationInputTokens u = Ephemeral5mInputTokens d + Ephemeral1hInputTokens d))"

definition consistent_usage :: "usage \<Rightarrow> bool" where
  "consistent_usage u \<longleftrightarrow>
     0 \<le> CacheReadInputTokens u \<and> 0 \<le> CacheCreationInputTokens u
     \<and> read_consistent u
     \<and> write_consistent u
     \<and> 0 \<le> PromptTokens u \<and> 0 \<le> CompletionTokens u
     \<and> spec_read u + spec_write u \<le> PromptTokens u
     \<and> 0 \<le> cost_reasoning_tokens u \<and> cost_reasoning_tokens u \<le> CompletionTokens u"

definition spec_cost :: "pricing \<Rightarrow> usage \<Rightarrow> int" where
  "spec_cost p u =
     (let wr = tierRate (CacheWritePerMillionCents (Tiers p)) (InputPerMillionCents p) in
      (PromptTokens u - spec_read u - spec_write u) * InputPerMillionCents p
      + spec_read u * tierRate (CacheReadPerMillionCents (Tiers p)) (InputPerMillionCents p)
      + (spec_write u - spec_write1h u) * wr
      + spec_write1h u * tierRate (CacheWrite1hPerMillionCents (Tiers p)) wr
      + (CompletionTokens u - cost_reasoning_tokens u) * OutputPerMillionCents p
      + cost_reasoning_tokens u
          * tierRate (ReasoningPerMillionCents (Tiers p)) (OutputPerMillionCents p))"

definition pricing_ok :: "pricing \<Rightarrow> bool" where
  "pricing_ok p \<longleftrightarrow>
     0 \<le> InputPerMillionCents p \<and> 0 \<le> OutputPerMillionCents p
     \<and> list_all (pred_option (\<lambda>r. 0 \<le> r)) (tier_rates (Tiers p))"

lemma UpsertPricing_row_ok: "UpsertPricing_row i out tiers = Inr p \<Longrightarrow> pricing_ok p"
  by (auto simp: UpsertPricing_row_def PricingTiers_Validate_def pricing_ok_def tier_rates_def
      split: sum.splits if_splits option.splits)

lemma tierRate_nonneg: "pred_option (\<lambda>r. 0 \<le> r) o' \<Longrightarrow> 0 \<le> f \<Longrightarrow> 0 \<le> tierRate o' f"
  by (cases o') (auto simp: tierRate_def)

lemma pricing_ok_rates:
  assumes "pricing_ok p"
  shows "0 \<le> InputPerMillionCents p" and "0 \<le> OutputPerMillionCents p"
    and "0 \<le> tierRate (CacheReadPerMillionCents (Tiers p)) (InputPerMillionCents p)"
    and "0 \<le> tierRate (CacheWritePerMillionCents (Tiers p)) (InputPerMillionCents p)"
    and "0 \<le> tierRate (CacheWrite1hPerMillionCents (Tiers p))
              (tierRate (CacheWritePerMillionCents (Tiers p)) (InputPerMillionCents p))"
    and "0 \<le> tierRate (ReasoningPerMillionCents (Tiers p)) (OutputPerMillionCents p)"
  using assms by (auto simp: pricing_ok_def tier_rates_def intro!: tierRate_nonneg)

lemma weighted_sum_eq:
  "\<forall>t\<in>set tiers. 0 \<le> fst t \<and> 0 \<le> snd t \<Longrightarrow>
   weighted_sum acc tiers = Inr (acc + (\<Sum>(count, rate)\<leftarrow>tiers. count * rate))"
  by (induction acc tiers rule: weighted_sum.induct) auto

lemma weighted_sum_negative:
  "\<not> (\<forall>t\<in>set tiers. 0 \<le> fst t \<and> 0 \<le> snd t) \<Longrightarrow>
   weighted_sum acc tiers = Inl ''negative token count or rate''"
  by (induction acc tiers rule: weighted_sum.induct) auto

lemma weightedMicrocents_eq:
  assumes "\<forall>t\<in>set tiers. 0 \<le> fst t \<and> 0 \<le> snd t"
  shows "weightedMicrocents tiers =
    (if (\<Sum>(count, rate)\<leftarrow>tiers. count * rate) \<le> MaxInt64
     then Inr (\<Sum>(count, rate)\<leftarrow>tiers. count * rate)
     else Inl ''token cost exceeds int64 microcents'')"
proof -
  have "0 \<le> (\<Sum>(count, rate)\<leftarrow>tiers. count * rate)"
    using assms by (intro sum_list_nonneg) auto
  then show ?thesis
    using assms by (auto simp: weightedMicrocents_def weighted_sum_eq i64_defs)
qed

section \<open>The engine computes the specification\<close>

lemma cost_read_tokens_eq:
  "0 \<le> CacheReadInputTokens u \<Longrightarrow> cost_read_tokens u =
    (if read_consistent u
     then Inr (spec_read u) else Inl ''inconsistent cached input usage'')"
  by (auto simp: cost_read_tokens_def spec_read_def read_consistent_def Let_def split: option.splits)

lemma cost_write_tokens_consistent:
  assumes "usage_i64 u" and "0 \<le> CacheCreationInputTokens u"
    and "write_consistent u"
  shows "cost_write_tokens u = Inr (spec_write u, spec_write1h u)"
proof (cases "CacheCreation u")
  case None
  then show ?thesis by (simp add: cost_write_tokens_def spec_write_def spec_write1h_def)
next
  case (Some d)
  let ?s = "Ephemeral1hInputTokens d + Ephemeral5mInputTokens d"
  have "is_i64 ?s" "is_i64 (MaxInt64 - Ephemeral5mInputTokens d)"
    using assms Some by (auto simp: i64_defs write_consistent_def)
  with assms Some show ?thesis
    by (auto simp: write_consistent_def cost_write_tokens_def spec_write_def spec_write1h_def Let_def)
qed

lemma cost_write_tokens_inconsistent:
  assumes "usage_i64 u" and "0 \<le> CacheCreationInputTokens u"
    and "\<not> write_consistent u"
  shows "cost_write_tokens u \<in> {Inl ''invalid cache write usage'', Inl ''inconsistent cache write usage''}"
proof (cases "CacheCreation u")
  case None
  with assms show ?thesis by (simp add: write_consistent_def)
next
  case (Some d)
  let ?a = "Ephemeral1hInputTokens d" and ?b = "Ephemeral5mInputTokens d"
  show ?thesis
  proof (cases "0 \<le> ?a \<and> 0 \<le> ?b \<and> ?a + ?b \<le> MaxInt64")
    case True
    then have "is_i64 (?a + ?b)" "is_i64 (MaxInt64 - ?b)" by (auto simp: i64_defs)
    with True Some assms show ?thesis
      by (auto simp: write_consistent_def cost_write_tokens_def Let_def add.commute)
  next
    case False
    have "wrap64 (MaxInt64 - ?b) = MaxInt64 - ?b" if "0 \<le> ?b"
      using that assms(1) Some by (intro wrap64_id) (auto simp: i64_defs usage_i64_def)
    with False have "?a < 0 \<or> ?b < 0 \<or> ?a > wrap64 (MaxInt64 - ?b)" by linarith
    with Some show ?thesis by (auto simp: cost_write_tokens_def Let_def)
  qed
qed

lemma spec_tiers_nonneg:
  assumes "consistent_usage u"
  shows "0 \<le> spec_read u" and "0 \<le> spec_write1h u" and "spec_write1h u \<le> spec_write u"
    and "0 \<le> PromptTokens u - spec_read u - spec_write u"
    and "0 \<le> cost_reasoning_tokens u" and "0 \<le> CompletionTokens u - cost_reasoning_tokens u"
  using assms
  by (auto simp: consistent_usage_def read_consistent_def write_consistent_def
      spec_read_def spec_write_def spec_write1h_def split: option.splits)

lemma CostUsage_consistent:
  assumes i: "usage_i64 u" and p: "pricing_ok p" and c: "consistent_usage u"
  shows "CostUsage (Some p) u =
    (if spec_cost p u \<le> MaxInt64 then Inr (spec_cost p u)
     else Inl ''token cost exceeds int64 microcents'')"
proof -
  note t = spec_tiers_nonneg [OF c] and r = pricing_ok_rates [OF p]
  have rd: "cost_read_tokens u = Inr (spec_read u)"
    using c by (subst cost_read_tokens_eq) (auto simp: consistent_usage_def)
  have wr: "cost_write_tokens u = Inr (spec_write u, spec_write1h u)"
    using c by (intro cost_write_tokens_consistent i) (auto simp: consistent_usage_def)
  have rng: "is_i64 (PromptTokens u - spec_read u)"
      "is_i64 (PromptTokens u - spec_read u - spec_write u)"
      "is_i64 (spec_write u - spec_write1h u)"
      "is_i64 (CompletionTokens u - cost_reasoning_tokens u)"
    using t i by (auto simp: usage_i64_def i64_defs)
  let ?in = "(\<Sum>(n, rate)\<leftarrow>input_tiers p u (spec_read u) (spec_write u) (spec_write1h u). n * rate)"
  let ?out = "(\<Sum>(n, rate)\<leftarrow>output_tiers p u (cost_reasoning_tokens u). n * rate)"
  have sum: "spec_cost p u = ?in + ?out"
    using rng by (simp add: spec_cost_def input_tiers_def output_tiers_def Let_def)
  have nn: "0 \<le> ?in" "0 \<le> ?out"
    using rng t r by (simp_all add: input_tiers_def output_tiers_def)
  have win: "weightedMicrocents (input_tiers p u (spec_read u) (spec_write u) (spec_write1h u)) =
      (if ?in \<le> MaxInt64 then Inr ?in else Inl ''token cost exceeds int64 microcents'')"
    by (rule weightedMicrocents_eq) (use rng t r in \<open>simp add: input_tiers_def\<close>)
  have wout: "weightedMicrocents (output_tiers p u (cost_reasoning_tokens u)) =
      (if ?out \<le> MaxInt64 then Inr ?out else Inl ''token cost exceeds int64 microcents'')"
    by (rule weightedMicrocents_eq) (use rng t r in \<open>simp add: output_tiers_def\<close>)
  have fin: "is_i64 (MaxInt64 - ?out)" if "?out \<le> MaxInt64"
    using that nn by (simp add: i64_defs)
  have fin2: "is_i64 (?in + ?out)" if "?in + ?out \<le> MaxInt64"
    using that nn by (simp add: i64_defs)
  have chk: "\<not> (PromptTokens u < 0 \<or> CompletionTokens u < 0 \<or> spec_read u < 0 \<or> spec_write u < 0
      \<or> spec_read u > PromptTokens u \<or> spec_write u > wrap64 (PromptTokens u - spec_read u)
      \<or> cost_reasoning_tokens u < 0 \<or> cost_reasoning_tokens u > CompletionTokens u)"
    using t c rng(1) by (auto simp: consistent_usage_def)
  have neg: "\<not> (CacheReadInputTokens u < 0 \<or> CacheCreationInputTokens u < 0)"
    using c by (auto simp: consistent_usage_def)
  show ?thesis
    unfolding CostUsage_def sum
    using neg chk nn fin fin2 by (auto simp: rd wr Let_def win wout)
qed

lemma CostUsage_inconsistent:
  assumes "usage_i64 u" and "\<not> consistent_usage u"
  shows "\<exists>e. CostUsage (Some p) u = Inl e \<and> e \<noteq> ''token cost exceeds int64 microcents''"
proof (cases "CacheReadInputTokens u < 0 \<or> CacheCreationInputTokens u < 0")
  case True
  then show ?thesis by (auto simp: CostUsage_def)
next
  case False
  then have nn: "0 \<le> CacheReadInputTokens u" "0 \<le> CacheCreationInputTokens u" by auto
  note rd = cost_read_tokens_eq [OF nn(1)]
  consider (bad_read) "cost_read_tokens u = Inl ''inconsistent cached input usage''"
    | (bad_write) "cost_read_tokens u = Inr (spec_read u)"
        "cost_write_tokens u \<in> {Inl ''invalid cache write usage'', Inl ''inconsistent cache write usage''}"
    | (totals) "cost_read_tokens u = Inr (spec_read u)"
        "cost_write_tokens u = Inr (spec_write u, spec_write1h u)"
    using rd cost_write_tokens_consistent [OF assms(1) nn(2)]
      cost_write_tokens_inconsistent [OF assms(1) nn(2)] by metis
  then show ?thesis
  proof cases
    case bad_read
    with False show ?thesis by (auto simp: CostUsage_def)
  next
    case bad_write
    with False show ?thesis by (auto simp: CostUsage_def)
  next
    case totals
    have "PromptTokens u < 0 \<or> CompletionTokens u < 0 \<or> spec_read u < 0 \<or> spec_write u < 0
      \<or> spec_read u > PromptTokens u \<or> spec_write u > wrap64 (PromptTokens u - spec_read u)
      \<or> cost_reasoning_tokens u < 0 \<or> cost_reasoning_tokens u > CompletionTokens u"
    proof (rule ccontr)
      assume a: "\<not> ?thesis"
      have r: "is_i64 (PromptTokens u - spec_read u)" using a assms(1) by (auto simp: usage_i64_def i64_defs)
      from totals(1) rd have cr: "read_consistent u"
        by (simp split: if_splits)
      from totals(2) cost_write_tokens_inconsistent [OF assms(1) nn(2)]
      have cw: "write_consistent u"
        by (metis Inl_Inr_False insertE singletonD)
      from a r nn cr cw have "consistent_usage u" by (auto simp: consistent_usage_def)
      with assms(2) show False ..
    qed
    with False totals show ?thesis by (auto simp: CostUsage_def Let_def)
  qed
qed

section \<open>The admission estimate\<close>

definition max_output_rate :: "pricing \<Rightarrow> int" where
  "max_output_rate p = max (OutputPerMillionCents p)
     (tierRate (ReasoningPerMillionCents (Tiers p)) (OutputPerMillionCents p))"

lemma max_input_rate_bounds:
  "InputPerMillionCents p \<le> max_input_rate p"
  "tierRate (CacheReadPerMillionCents (Tiers p)) (InputPerMillionCents p) \<le> max_input_rate p"
  "tierRate (CacheWritePerMillionCents (Tiers p)) (InputPerMillionCents p) \<le> max_input_rate p"
  "tierRate (CacheWrite1hPerMillionCents (Tiers p))
     (tierRate (CacheWritePerMillionCents (Tiers p)) (InputPerMillionCents p)) \<le> max_input_rate p"
  by (auto simp: max_input_rate_def tierRate_def split: option.splits)

lemma max_output_rate_bounds:
  "OutputPerMillionCents p \<le> max_output_rate p"
  "tierRate (ReasoningPerMillionCents (Tiers p)) (OutputPerMillionCents p) \<le> max_output_rate p"
  by (simp_all add: max_output_rate_def)

lemma estimatedTierCost_eq:
  assumes "pricing_ok p" and "0 \<le> prompt" "is_i64 prompt" and "0 \<le> completion" "is_i64 completion"
  shows "estimatedTierCost p prompt completion =
    (if prompt * max_input_rate p + completion * max_output_rate p \<le> MaxInt64
     then Inr (prompt * max_input_rate p + completion * max_output_rate p)
     else Inl ''token cost exceeds int64 microcents'')"
proof -
  let ?q = "p\<lparr>InputPerMillionCents := max_input_rate p,
                OutputPerMillionCents := max_output_rate p\<rparr>"
  let ?u = "token_only_usage prompt completion"
  have "0 \<le> max_input_rate p" "0 \<le> max_output_rate p"
    using pricing_ok_rates [OF assms(1)] max_input_rate_bounds [of p] max_output_rate_bounds [of p]
    by auto
  then have q: "pricing_ok ?q" using assms(1) by (simp add: pricing_ok_def)
  have u: "usage_i64 ?u" "consistent_usage ?u"
    using assms by (simp_all add: usage_i64_def consistent_usage_def token_only_usage_def
        spec_read_def spec_write_def cost_reasoning_tokens_def read_consistent_def write_consistent_def)
  have "spec_cost ?q ?u = prompt * max_input_rate p + completion * max_output_rate p"
    by (simp add: spec_cost_def token_only_usage_def spec_read_def spec_write_def
        spec_write1h_def cost_reasoning_tokens_def Let_def)
  with CostUsage_consistent [OF u(1) q u(2)] show ?thesis
    by (simp add: estimatedTierCost_def max_output_rate_def)
qed

lemma spec_cost_le:
  assumes "consistent_usage u" and "pricing_ok p"
  shows "spec_cost p u \<le> PromptTokens u * max_input_rate p + CompletionTokens u * max_output_rate p"
proof -
  note t = spec_tiers_nonneg [OF assms(1)]
  note i = max_input_rate_bounds [of p] and o' = max_output_rate_bounds [of p]
  let ?f = "PromptTokens u - spec_read u - spec_write u" and ?r = "spec_read u"
  let ?w = "spec_write u - spec_write1h u" and ?w1 = "spec_write1h u"
  let ?t = "cost_reasoning_tokens u" and ?c = "CompletionTokens u - cost_reasoning_tokens u"
  have "0 \<le> ?w" using t by simp
  then have "spec_cost p u \<le> ?f * max_input_rate p + ?r * max_input_rate p + ?w * max_input_rate p
      + ?w1 * max_input_rate p + ?c * max_output_rate p + ?t * max_output_rate p"
    unfolding spec_cost_def Let_def
    by (intro add_mono mult_left_mono t i o')
  also have "\<dots> = PromptTokens u * max_input_rate p + CompletionTokens u * max_output_rate p"
    by (simp add: algebra_simps)
  finally show ?thesis .
qed

lemma estimate_covers:
  assumes u: "usage_i64 u" "consistent_usage u" and p: "pricing_ok p"
    and le: "PromptTokens u \<le> prompt" "CompletionTokens u \<le> completion"
    and i64: "is_i64 prompt" "is_i64 completion"
    and est: "estimatedTierCost p prompt completion = Inr e"
  shows "CostUsage (Some p) u = Inr (spec_cost p u)" and "spec_cost p u \<le> e"
proof -
  have nn: "0 \<le> PromptTokens u" "0 \<le> CompletionTokens u" using u(2) by (auto simp: consistent_usage_def)
  have r: "0 \<le> max_input_rate p" "0 \<le> max_output_rate p"
    using pricing_ok_rates [OF p] max_input_rate_bounds [of p] max_output_rate_bounds [of p] by auto
  have e: "e = prompt * max_input_rate p + completion * max_output_rate p" "e \<le> MaxInt64"
    using est le nn i64 by (auto simp: estimatedTierCost_eq [OF p] split: if_splits)
  have "PromptTokens u * max_input_rate p + CompletionTokens u * max_output_rate p \<le> e"
    unfolding e by (intro add_mono mult_right_mono le r)
  with spec_cost_le [OF u(2) p] show le_e: "spec_cost p u \<le> e" by simp
  with e(2) show "CostUsage (Some p) u = Inr (spec_cost p u)"
    by (simp add: CostUsage_consistent [OF u(1) p u(2)])
qed

section \<open>Protocol adapters\<close>

text \<open>What a protocol adapter promises the cost engine: the usage it hands over is made of
  64-bit counts, its detail counts fit its totals, and its total is their sum.\<close>

locale usage_adapter =
  fixes canonical :: "'raw \<Rightarrow> string + usage" and raw_i64 :: "'raw \<Rightarrow> bool"
  assumes canonical_i64: "raw_i64 r \<Longrightarrow> canonical r = Inr u \<Longrightarrow> usage_i64 u"
    and canonical_consistent: "raw_i64 r \<Longrightarrow> canonical r = Inr u \<Longrightarrow> consistent_usage u"
    and canonical_total: "raw_i64 r \<Longrightarrow> canonical r = Inr u \<Longrightarrow>
          TotalTokens u = PromptTokens u + CompletionTokens u"
begin

lemma billed:
  "raw_i64 r \<Longrightarrow> canonical r = Inr u \<Longrightarrow> pricing_ok p \<Longrightarrow>
   CostUsage (Some p) u = Inr (spec_cost p u)
   \<or> CostUsage (Some p) u = Inl ''token cost exceeds int64 microcents'' \<and> MaxInt64 < spec_cost p u"
  by (auto simp: CostUsage_consistent canonical_i64 canonical_consistent)

lemma covered:
  assumes "raw_i64 r" and "canonical r = Inr u" and "pricing_ok p"
    and "PromptTokens u \<le> prompt" and "CompletionTokens u \<le> completion"
    and "is_i64 prompt" and "is_i64 completion"
    and "estimatedTierCost p prompt completion = Inr e"
  shows "\<exists>c. CostUsage (Some p) u = Inr c \<and> c \<le> e"
  using estimate_covers [OF canonical_i64 canonical_consistent] assms by blast

end

definition anthropic_i64 :: "anthropic_usage \<Rightarrow> bool" where
  "anthropic_i64 u \<longleftrightarrow> is_i64 (a_InputTokens u) \<and> is_i64 (a_OutputTokens u)
     \<and> is_i64 (a_CacheCreationInputTokens u) \<and> is_i64 (a_CacheReadInputTokens u)
     \<and> pred_option (\<lambda>d. is_i64 (Ephemeral5mInputTokens d) \<and> is_i64 (Ephemeral1hInputTokens d))
         (a_CacheCreation u)"

definition gemini_i64 :: "gemini_usage \<Rightarrow> bool" where
  "gemini_i64 u \<longleftrightarrow> is_i64 (PromptTokenCount u) \<and> is_i64 (CandidatesTokenCount u)
     \<and> is_i64 (TotalTokenCount u) \<and> is_i64 (CachedContentTokenCount u)
     \<and> is_i64 (ThoughtsTokenCount u)"

lemma AnthropicUsage_cache_write_Inr:
  assumes "anthropic_i64 u" and "AnthropicUsage_cache_write u = Inr w"
  shows "is_i64 w" and "case a_CacheCreation u of None \<Rightarrow> w = a_CacheCreationInputTokens u
    | Some d \<Rightarrow> w = Ephemeral5mInputTokens d + Ephemeral1hInputTokens d
         \<and> 0 \<le> Ephemeral5mInputTokens d \<and> 0 \<le> Ephemeral1hInputTokens d"
  using assms
    tokenSum_Inr [of "[Ephemeral5mInputTokens (the (a_CacheCreation u)),
      Ephemeral1hInputTokens (the (a_CacheCreation u))]" w]
  by (auto simp: AnthropicUsage_cache_write_def anthropic_i64_def split: option.splits sum.splits if_splits)

lemma anthropic_canonical:
  assumes i: "anthropic_i64 r" and c: "AnthropicUsage_Canonical r = Inr u"
  shows "usage_i64 u \<and> consistent_usage u \<and> TotalTokens u = PromptTokens u + CompletionTokens u"
proof -
  obtain w where w: "AnthropicUsage_cache_write r = Inr w"
    using c by (auto simp: AnthropicUsage_Canonical_def split: sum.splits)
  note cw = AnthropicUsage_cache_write_Inr [OF i w]
  obtain inp where inp: "tokenSum [a_InputTokens r, w, a_CacheReadInputTokens r] = Inr inp"
    using c w by (auto simp: AnthropicUsage_Canonical_def split: sum.splits)
  have s1: "inp = a_InputTokens r + w + a_CacheReadInputTokens r" "is_i64 inp"
      "0 \<le> a_InputTokens r" "0 \<le> w" "0 \<le> a_CacheReadInputTokens r"
    using tokenSum_Inr [OF _ inp] i cw(1) by (auto simp: anthropic_i64_def)
  obtain t where t: "tokenSum [inp, a_OutputTokens r] = Inr t"
    using c w inp by (auto simp: AnthropicUsage_Canonical_def split: sum.splits)
  have s2: "t = inp + a_OutputTokens r" "0 \<le> a_OutputTokens r"
    using tokenSum_Inr [OF _ t] i s1(2) by (auto simp: anthropic_i64_def)
  have u: "u = \<lparr>PromptTokens = inp, CompletionTokens = a_OutputTokens r, TotalTokens = t,
      PromptTokensDetails = Some \<lparr>CachedTokens = a_CacheReadInputTokens r, PromptAudioTokens = 0\<rparr>,
      CompletionTokensDetails = None, CacheCreationInputTokens = w,
      CacheReadInputTokens = a_CacheReadInputTokens r, CacheCreation = a_CacheCreation r\<rparr>"
    using c w inp t by (simp add: AnthropicUsage_Canonical_def)
  show ?thesis
    using u i s1 s2 cw
    by (auto simp: usage_i64_def anthropic_i64_def consistent_usage_def read_consistent_def
        write_consistent_def spec_read_def spec_write_def cost_reasoning_tokens_def
        split: option.splits dest: is_i64_le)
qed

lemma gemini_canonical:
  assumes i: "gemini_i64 r" and c: "GeminiUsage_Canonical r = Inr u"
  shows "usage_i64 u \<and> consistent_usage u \<and> TotalTokens u = PromptTokens u + CompletionTokens u"
proof -
  obtain out where out: "tokenSum [CandidatesTokenCount r, ThoughtsTokenCount r] = Inr out"
    using c by (auto simp: GeminiUsage_Canonical_def split: sum.splits)
  have s1: "out = CandidatesTokenCount r + ThoughtsTokenCount r" "is_i64 out"
      "0 \<le> CandidatesTokenCount r" "0 \<le> ThoughtsTokenCount r"
    using tokenSum_Inr [OF _ out] i by (auto simp: gemini_i64_def)
  obtain t where t: "tokenSum [PromptTokenCount r, out] = Inr t"
    using c out by (auto simp: GeminiUsage_Canonical_def split: sum.splits)
  have s2: "t = PromptTokenCount r + out" "0 \<le> PromptTokenCount r"
    using tokenSum_Inr [OF _ t] i s1(2) by (auto simp: gemini_i64_def)
  show ?thesis
    using c out t i s1 s2
    by (auto simp: GeminiUsage_Canonical_def usage_i64_def gemini_i64_def consistent_usage_def
        read_consistent_def write_consistent_def spec_read_def spec_write_def
        cost_reasoning_tokens_def split: if_splits)
qed

interpretation anthropic: usage_adapter AnthropicUsage_Canonical anthropic_i64
  by unfold_locales (auto dest: anthropic_canonical)

interpretation gemini: usage_adapter GeminiUsage_Canonical gemini_i64
  by unfold_locales (auto dest: gemini_canonical)

section \<open>Properties\<close>

text \<open>C27: The cost engine returns a cost exactly for consistent usage (detail counts non-negative,
  agreeing with each other and within the authoritative totals) whose price fits 64 bits, and
  the cost is then the exact sum, without rounding, of the disjoint token tiers at their
  rates.\<close>

theorem cost_usage_exact:
  assumes "usage_i64 u" and "pricing_ok p"
  shows "CostUsage (Some p) u = Inr c
    \<longleftrightarrow> consistent_usage u \<and> spec_cost p u \<le> MaxInt64 \<and> c = spec_cost p u"
proof (cases "consistent_usage u")
  case True
  with assms show ?thesis by (auto simp: CostUsage_consistent)
next
  case False
  with CostUsage_inconsistent [OF assms(1) False, of p] show ?thesis by auto
qed

definition sample_tiers :: pricing_tiers where
  "sample_tiers = \<lparr>CacheReadPerMillionCents = Some 30, CacheWritePerMillionCents = Some 375,
     CacheWrite1hPerMillionCents = None, ReasoningPerMillionCents = Some 2000\<rparr>"

definition sample_pricing :: pricing where
  "sample_pricing =
     \<lparr>Tiers = sample_tiers, InputPerMillionCents = 300, OutputPerMillionCents = 1500\<rparr>"

definition sample_anthropic :: anthropic_usage where
  "sample_anthropic = \<lparr>a_InputTokens = 10, a_OutputTokens = 20, a_CacheCreationInputTokens = 0,
     a_CacheReadInputTokens = 100,
     a_CacheCreation = Some \<lparr>Ephemeral5mInputTokens = 3, Ephemeral1hInputTokens = 4\<rparr>\<rparr>"

definition sample_usage :: usage where
  "sample_usage = \<lparr>PromptTokens = 117, CompletionTokens = 20, TotalTokens = 137,
     PromptTokensDetails = Some \<lparr>CachedTokens = 100, PromptAudioTokens = 0\<rparr>,
     CompletionTokensDetails = None, CacheCreationInputTokens = 7, CacheReadInputTokens = 100,
     CacheCreation = Some \<lparr>Ephemeral5mInputTokens = 3, Ephemeral1hInputTokens = 4\<rparr>\<rparr>"

lemmas sample_defs = sample_tiers_def sample_pricing_def sample_anthropic_def sample_usage_def

lemma sample_pricing_ok: "pricing_ok sample_pricing"
  by (simp add: sample_defs pricing_ok_def tier_rates_def)

lemma sample_usage_i64: "usage_i64 sample_usage"
  by (simp add: sample_defs usage_i64_def i64_defs)

lemma sample_usage_consistent: "consistent_usage sample_usage"
  by (simp add: sample_defs consistent_usage_def read_consistent_def write_consistent_def
      spec_read_def spec_write_def cost_reasoning_tokens_def i64_defs)

lemma sample_usage_cost: "spec_cost sample_pricing sample_usage = 38625"
  by (simp add: sample_defs spec_cost_def spec_read_def spec_write_def spec_write1h_def
      cost_reasoning_tokens_def tierRate_def)

theorem cost_usage_exact_witness:
  "CostUsage (Some sample_pricing) sample_usage = Inr 38625"
  using cost_usage_exact [OF sample_usage_i64 sample_pricing_ok, of 38625]
  by (simp add: sample_usage_consistent sample_usage_cost MaxInt64_def)

text \<open>The estimate reserved at admission covers the bill: whenever the estimate for some
  prompt and completion totals exists, every consistent usage within those totals is priced
  without error and costs at most the estimate, whatever its cache hits, cache writes and
  hidden reasoning.\<close>

theorem estimate_covers_actual_cost:
  assumes "usage_i64 u" and "consistent_usage u" and "pricing_ok p"
    and "PromptTokens u \<le> prompt" and "CompletionTokens u \<le> completion"
    and "is_i64 prompt" and "is_i64 completion"
    and "estimatedTierCost p prompt completion = Inr e"
  shows "\<exists>c. CostUsage (Some p) u = Inr c \<and> 0 \<le> c \<and> c \<le> e"
proof -
  note c = estimate_covers [OF assms]
  have "0 \<le> spec_cost p u"
    using spec_tiers_nonneg [OF assms(2)] pricing_ok_rates [OF assms(3)]
    by (simp add: spec_cost_def Let_def)
  with c show ?thesis by blast
qed

lemma sample_estimate: "estimatedTierCost sample_pricing 200 50 = Inr 175000"
  by (subst estimatedTierCost_eq)
    (simp_all add: sample_pricing_ok, simp_all add: i64_defs sample_defs max_input_rate_def
      max_output_rate_def tierRate_def)

theorem estimate_covers_actual_cost_witness:
  "\<exists>c. CostUsage (Some sample_pricing) sample_usage = Inr c \<and> 0 \<le> c \<and> c \<le> 175000"
  by (rule estimate_covers_actual_cost
      [OF sample_usage_i64 sample_usage_consistent sample_pricing_ok _ _ _ _ sample_estimate])
    (simp_all add: sample_defs i64_defs)

text \<open>C30: Native usage normalised by the Anthropic or the Gemini adapter is never rejected by the
  cost engine as inconsistent: pricing it yields the exact tier sum, or fails only because
  that sum exceeds 64 bits; and its total is the sum of prompt and completion tokens.\<close>

theorem adapters_produce_billable_usage:
  assumes "pricing_ok p"
    and "anthropic_i64 a \<and> AnthropicUsage_Canonical a = Inr u
         \<or> gemini_i64 g \<and> GeminiUsage_Canonical g = Inr u"
  shows "TotalTokens u = PromptTokens u + CompletionTokens u
    \<and> CostUsage (Some p) u = (if spec_cost p u \<le> MaxInt64 then Inr (spec_cost p u)
         else Inl ''token cost exceeds int64 microcents'')"
  using assms(2)
proof
  assume "anthropic_i64 a \<and> AnthropicUsage_Canonical a = Inr u"
  with anthropic.billed [of a u p] anthropic.canonical_total [of a u] assms(1) show ?thesis
    using CostUsage_consistent anthropic.canonical_consistent anthropic.canonical_i64 by blast
next
  assume "gemini_i64 g \<and> GeminiUsage_Canonical g = Inr u"
  with gemini.billed [of g u p] gemini.canonical_total [of g u] assms(1) show ?thesis
    using CostUsage_consistent gemini.canonical_consistent gemini.canonical_i64 by blast
qed

lemma sample_canonical: "AnthropicUsage_Canonical sample_anthropic = Inr sample_usage"
proof -
  have "is_i64 n" if "n \<in> {3, 7, 110, 10, 17, 117, 137, 4, 20}" for n
    using that by (auto simp: i64_defs)
  moreover have "is_i64 (MaxInt64 - n)" if "n \<in> {0, 3, 4, 7, 10, 20, 100, 117}" for n
    using that by (auto simp: i64_defs)
  ultimately show ?thesis
    by (simp add: AnthropicUsage_Canonical_def AnthropicUsage_cache_write_def tokenSum_def
        sample_defs) (simp add: i64_defs)
qed

theorem adapters_produce_billable_usage_witness:
  "TotalTokens sample_usage = PromptTokens sample_usage + CompletionTokens sample_usage
   \<and> CostUsage (Some sample_pricing) sample_usage = Inr 38625"
proof -
  have "anthropic_i64 sample_anthropic" by (simp add: sample_defs anthropic_i64_def i64_defs)
  with adapters_produce_billable_usage [OF sample_pricing_ok, of sample_anthropic sample_usage]
    sample_canonical show ?thesis by (simp add: sample_usage_cost MaxInt64_def)
qed

end
