(* ===== verification/Tenancy.thy ===== *)
theory Tenancy
  imports Gw_Prelude
begin

text \<open>
  The tenants a request is accounted to (\<^verbatim>\<open>internal/store/models.go\<close>, \<^verbatim>\<open>users.go\<close>,
  \<^verbatim>\<open>service_accounts.go\<close>, \<^verbatim>\<open>customers.go\<close>) with their model allowlists (\<^verbatim>\<open>policy.go\<close>) and the
  validation of the limits an operator may set on them. A nil pointer is \<open>None\<close>.
\<close>

record team =
  t_ID :: int
  t_Slug :: string
  t_Name :: string
  t_UsdLimitCents :: "int option"
  t_Period :: string
  t_AllowedModels :: "string list"
  t_RPM :: "int option"
  t_TPM :: "int option"
  t_MaxParallelRequests :: "int option"
  t_CapturePayloads :: bool
  t_CustomerRegistration :: string
  t_CreatedAt :: gotime
  t_ArchivedAt :: "gotime option"

record virtual_key =
  vk_ID :: int
  vk_TeamID :: int
  vk_UserID :: "int option"
  vk_ServiceAccountID :: "int option"
  vk_KeyPrefix :: string
  vk_Name :: string
  vk_AllowedModels :: "string list"
  vk_AllowedCIDRs :: "string list"
  vk_ScopedRPM :: "int option"
  vk_ScopedTPM :: "int option"
  vk_MaxParallelRequests :: "int option"
  vk_ScopedUsdLimitCents :: "int option"
  vk_ExpiresAt :: "gotime option"
  vk_RevokedAt :: "gotime option"
  vk_DisabledAt :: "gotime option"
  vk_OwnerMaxParallelRequests :: "int option"

record user =
  usr_ID :: int
  usr_Email :: string
  usr_TeamID :: "int option"
  usr_TeamSlug :: string
  usr_Role :: string
  usr_UsdLimitCents :: "int option"
  usr_Period :: string
  usr_MaxParallelRequests :: "int option"
  usr_DisabledAt :: "gotime option"
  usr_ArchivedAt :: "gotime option"

record service_account =
  sa_ID :: int
  sa_TeamID :: int
  sa_TeamSlug :: string
  sa_Name :: string
  sa_UsdLimitCents :: "int option"
  sa_Period :: string
  sa_RPM :: "int option"
  sa_TPM :: "int option"
  sa_MaxParallelRequests :: "int option"
  sa_ArchivedAt :: "gotime option"

record customer =
  c_ID :: int
  c_TeamID :: int
  c_ExternalID :: string
  c_UsdLimitCents :: "int option"
  c_Period :: string
  c_RPM :: "int option"
  c_TPM :: "int option"
  c_MaxParallelRequests :: "int option"
  c_ArchivedAt :: "gotime option"

section \<open>Model allowlists\<close>

definition allowsModel :: "string list \<Rightarrow> string \<Rightarrow> bool" where
  "allowsModel allowed alias =
     (if alias = [] \<or> allowed = [] then True
      else list_ex (\<lambda>candidate. candidate = ''*'' \<or> candidate = alias) allowed)"

fun normalize_loop :: "string list \<Rightarrow> string list \<Rightarrow> string list \<Rightarrow> string list" where
  "normalize_loop seen out [] = (if out = [] then [''*''] else out)"
| "normalize_loop seen out (v # vs) =
     (let value = TrimSpace v in
      if value = [] then normalize_loop seen out vs
      else if value = ''*'' then [''*'']
      else if value \<in> set seen then normalize_loop seen out vs
      else normalize_loop (value # seen) (out @ [value]) vs)"

definition normalizeAllowedModels :: "string list \<Rightarrow> string list" where
  "normalizeAllowedModels allowed = (if allowed = [] then [''*''] else normalize_loop [] [] allowed)"

definition Team_AllowsModel :: "team option \<Rightarrow> string \<Rightarrow> bool" where
  "Team_AllowsModel t alias = (case t of None \<Rightarrow> True | Some tm \<Rightarrow> allowsModel (t_AllowedModels tm) alias)"

definition VirtualKey_AllowsModel :: "virtual_key option \<Rightarrow> string \<Rightarrow> bool" where
  "VirtualKey_AllowsModel k alias =
     (case k of None \<Rightarrow> True | Some vk \<Rightarrow> allowsModel (vk_AllowedModels vk) alias)"

definition modelAllowed :: "team option \<Rightarrow> virtual_key option \<Rightarrow> string \<Rightarrow> bool" where
  "modelAllowed t k alias =
     (if t \<noteq> None \<and> \<not> Team_AllowsModel t alias then False
      else if k \<noteq> None \<and> \<not> VirtualKey_AllowsModel k alias then False
      else True)"

section \<open>Validation of limits\<close>

definition ValidateKeyBudget :: "int option \<Rightarrow> string + unit" where
  "ValidateKeyBudget limit =
     (case limit of
        Some l \<Rightarrow> if l < 0 \<or> l > 9007199254740991
                  then Inl ''usd_limit_cents must be null or an integer between 0 and 9007199254740991; zero means no key cap''
                  else Inr ()
      | None \<Rightarrow> Inr ())"

definition ValidateCustomerLimits :: "int option \<Rightarrow> string \<Rightarrow> int option \<Rightarrow> int option \<Rightarrow> string + unit" where
  "ValidateCustomerLimits limit period rpm tpm =
     (if (case limit of None \<Rightarrow> False | Some l \<Rightarrow> l < 0 \<or> l > 1000000000000)
      then Inl ''customer budget must be 0-1000000000000 cents or null''
      else if period \<noteq> [] \<and> period \<noteq> ''day'' \<and> period \<noteq> ''month'' then Inl ''period must be day or month''
      else if list_ex (\<lambda>rate. case rate of None \<Rightarrow> False | Some r \<Rightarrow> r < 0 \<or> r > 1000000000) [rpm, tpm]
      then Inl ''customer RPM/TPM must be 0-1000000000 or null''
      else Inr ())"

section \<open>Facts about allowlists\<close>

lemma allowsModel_iff:
  "allowsModel allowed alias \<longleftrightarrow> alias = [] \<or> allowed = [] \<or> ''*'' \<in> set allowed \<or> alias \<in> set allowed"
  by (auto simp: allowsModel_def list_ex_iff)

lemma set_normalize_loop:
  "set seen = set out \<Longrightarrow> set (normalize_loop seen out vs) =
    (if ''*'' \<in> TrimSpace ` set vs \<or> set out \<union> (TrimSpace ` set vs - {[]}) = {} then {''*''}
     else set out \<union> (TrimSpace ` set vs - {[]}))"
proof (induction seen out vs rule: normalize_loop.induct)
  case (1 seen out)
  then show ?case by simp
next
  case (2 seen out v vs)
  let ?v = "TrimSpace v"
  consider "?v = []" | "?v = ''*''" | "?v \<noteq> []" "?v \<noteq> ''*''" "?v \<in> set seen"
    | "?v \<noteq> []" "?v \<noteq> ''*''" "?v \<notin> set seen" by blast
  then show ?case
  proof cases
    case 1
    with "2.IH"(1) "2.prems" show ?thesis by simp
  next
    case 2
    then show ?thesis by simp
  next
    case 3
    with "2.prems" have in_out: "?v \<in> set out" by simp
    have "normalize_loop seen out (v # vs) = normalize_loop seen out vs"
      using 3 by (simp add: Let_def)
    with 3 in_out "2.IH"(2) [OF refl _ _ _ "2.prems"] show ?thesis by auto
  next
    case 4
    have "normalize_loop seen out (v # vs) = normalize_loop (?v # seen) (out @ [?v]) vs"
      using 4 by (simp add: Let_def)
    moreover have "set (?v # seen) = set (out @ [?v])" using "2.prems" by simp
    ultimately show ?thesis using 4 "2.IH"(3) [OF refl] by auto
  qed
qed

lemma distinct_normalize_loop:
  "set seen = set out \<Longrightarrow> distinct out \<Longrightarrow> distinct (normalize_loop seen out vs)"
proof (induction vs arbitrary: seen out)
  case (Cons v vs)
  then show ?case by (simp add: Let_def)
qed simp

lemma set_normalizeAllowedModels:
  "set (normalizeAllowedModels vs) =
    (if ''*'' \<in> TrimSpace ` set vs \<or> TrimSpace ` set vs \<subseteq> {[]} then {''*''}
     else TrimSpace ` set vs - {[]})"
proof (cases "vs = []")
  case False
  have "(TrimSpace ` set vs - {[]} = {}) = (TrimSpace ` set vs \<subseteq> {[]})" by (rule Diff_eq_empty_iff)
  with False set_normalize_loop [of "[]" "[]" vs] show ?thesis
    by (simp only: normalizeAllowedModels_def if_False list.set Un_empty_left refl simp_thms)
qed (simp add: normalizeAllowedModels_def)

lemma normalizeAllowedModels_nonempty: "normalizeAllowedModels vs \<noteq> []"
proof
  assume "normalizeAllowedModels vs = []"
  with set_normalizeAllowedModels [of vs] show False by (simp split: if_splits)
qed

text \<open>Normalising a model allowlist keeps its meaning: afterwards a model is allowed exactly
  when its name, or the wildcard, is among the trimmed entries. A list with no usable entry,
  empty or all blanks, becomes the wildcard and so allows every model.\<close>

theorem normalized_allowlist_decides:
  assumes "alias \<noteq> []"
  shows "allowsModel (normalizeAllowedModels allowed) alias
    \<longleftrightarrow> ''*'' \<in> TrimSpace ` set allowed \<or> alias \<in> TrimSpace ` set allowed
       \<or> TrimSpace ` set allowed \<subseteq> {[]}"
  using assms normalizeAllowedModels_nonempty [of allowed]
  by (auto simp: allowsModel_iff set_normalizeAllowedModels)

theorem normalized_allowlist_decides_witness:
  "allowsModel (normalizeAllowedModels ['' gpt-4 '', ''gpt-4'']) ''gpt-4''
   \<and> \<not> allowsModel (normalizeAllowedModels ['' gpt-4 '']) ''o1''
   \<and> allowsModel (normalizeAllowedModels ['' '']) ''o1''"
proof -
  have "TrimSpace '' gpt-4 '' = ''gpt-4''" "TrimSpace '' '' = []"
    by (simp_all add: TrimSpace_def is_space_def)
  then show ?thesis
    using normalized_allowlist_decides [of "''gpt-4''" "['' gpt-4 '', ''gpt-4'']"]
      normalized_allowlist_decides [of "''o1''" "['' gpt-4 '']"]
      normalized_allowlist_decides [of "''o1''" "['' '']"] by simp
qed

end
