(* ===== verification/Budget_Service.thy ===== *)
theory Budget_Service
  imports Ledger_Store Lock_Order Token_Cost Tenancy "HOL-Library.Word"
begin

text \<open>
  Budgets (\<^verbatim>\<open>internal/budget/service.go\<close>): the estimate of a request, the admission of a request
  against the budgets of its team, user, service account, key and customer, and the settlement
  of its reservation. The service's store is the ledger of \<^verbatim>\<open>Ledger_Store\<close>; the clocks of the
  gateway (\<open>now\<close>) and of the database (\<open>db_now\<close>) are separate arguments. The receiver and its
  store are never nil here.
\<close>

record target =
  tg_ProviderType :: string
  tg_UpstreamModel :: string

record admission_request =
  ar_RequestID :: string
  ar_Team :: "team option"
  ar_User :: "user option"
  ar_ServiceAccount :: "service_account option"
  ar_Key :: "virtual_key option"
  ar_Customer :: "customer option"
  ar_Alias :: string
  ar_PromptTokens :: int
  ar_CompletionTokens :: int
  ar_Targets :: "target list"

record budget_reservation =
  br_RequestID :: string
  br_EstimatedCostCents :: int
  br_EstimatedCostMicrocents :: int

record exceeded_error =
  x_Scope :: string
  x_LimitCents :: int
  x_UsedCents :: int
  x_NeedCents :: int
  x_LimitMicrocents :: int
  x_UsedMicrocents :: int
  x_NeedMicrocents :: int

datatype budget_error =
    ExceededError exceeded_error
  | PricingUnavailableError string string
  | BudgetError string
  | BudgetPanic panic

definition no_panic :: "'a may_panic \<Rightarrow> budget_error + 'a" where
  "no_panic x = (case x of Inl p \<Rightarrow> Inl (BudgetPanic p) | Inr y \<Rightarrow> Inr y)"

definition no_error :: "string + 'a \<Rightarrow> budget_error + 'a" where
  "no_error x = (case x of Inl e \<Rightarrow> Inl (BudgetError e) | Inr y \<Rightarrow> Inr y)"

lemma no_panic_Inr [simp]: "no_panic x = Inr y \<longleftrightarrow> x = Inr y"
  and no_error_Inr [simp]: "no_error x' = Inr y' \<longleftrightarrow> x' = Inr y'"
  by (auto simp: no_panic_def no_error_def split: sum.splits)

section \<open>Pricing and estimates\<close>

record pricing_row =
  pr_ProviderType :: string
  pr_UpstreamModel :: string
  pr_EffectiveAt :: gotime
  pr_pricing :: pricing

text \<open>The newest row of the model; \<open>None\<close> is \<open>ErrNotFound\<close>.\<close>

definition GetCurrentPricing :: "pricing_row list \<Rightarrow> string \<Rightarrow> string \<Rightarrow> pricing option" where
  "GetCurrentPricing rows providerType upstreamModel =
     (case sort_key (\<lambda>r. - pr_EffectiveAt r)
             (filter (\<lambda>r. pr_ProviderType r = providerType \<and> pr_UpstreamModel r = upstreamModel) rows) of
        [] \<Rightarrow> None | r # _ \<Rightarrow> Some (pr_pricing r))"

fun max_cost_from :: "pricing_row list \<Rightarrow> int \<Rightarrow> int \<Rightarrow> int \<Rightarrow> target list \<Rightarrow> budget_error + int" where
  "max_cost_from rows p c maxCost [] = Inr maxCost"
| "max_cost_from rows p c maxCost (tg # tgs) =
     (case GetCurrentPricing rows (tg_ProviderType tg) (tg_UpstreamModel tg) of
        None \<Rightarrow> Inl (PricingUnavailableError (tg_ProviderType tg) (tg_UpstreamModel tg))
      | Some pricing \<Rightarrow>
          bind_ok (no_error (estimatedTierCost pricing p c)) (\<lambda>cost.
          max_cost_from rows p c (if cost > maxCost then cost else maxCost) tgs))"

definition maxEstimatedCost :: "pricing_row list \<Rightarrow> int \<Rightarrow> int \<Rightarrow> target list \<Rightarrow> budget_error + int" where
  "maxEstimatedCost rows promptTokens completionTokens targets =
     (if targets = [] then Inl (PricingUnavailableError [] [])
      else max_cost_from rows promptTokens completionTokens 0 targets)"

definition ComputeUsageCost :: "pricing_row list \<Rightarrow> string \<Rightarrow> string \<Rightarrow> usage \<Rightarrow> budget_error + int" where
  "ComputeUsageCost rows providerType upstreamModel u =
     (if providerType = [] \<or> upstreamModel = [] then Inr 0
      else (case GetCurrentPricing rows providerType upstreamModel of
              None \<Rightarrow> Inl (PricingUnavailableError providerType upstreamModel)
            | Some pricing \<Rightarrow> no_error (CostUsage (Some pricing) u)))"

definition ComputeActualCost :: "pricing_row list \<Rightarrow> string \<Rightarrow> string \<Rightarrow> int \<Rightarrow> int \<Rightarrow> budget_error + int" where
  "ComputeActualCost rows providerType upstreamModel promptTokens completionTokens =
     ComputeUsageCost rows providerType upstreamModel (token_only_usage promptTokens completionTokens)"

section \<open>Windows and limits\<close>

definition budgetWindow :: "gotime \<Rightarrow> string \<Rightarrow> gotime \<times> gotime" where
  "budgetWindow now period =
     (if period = ''day'' then (utc_day now * day_ns, utc_day now * day_ns + day_ns)
      else let (y, m) = month_of (utc_day now) in
           (month_first (y, m) * day_ns, month_first (y, Suc m) * day_ns))"

definition wouldExceed :: "int \<Rightarrow> int \<Rightarrow> int \<Rightarrow> bool" where
  "wouldExceed used need limit \<longleftrightarrow> used < 0 \<or> need < 0 \<or> limit < 0 \<or> used > limit \<or> need > wrap64 (limit - used)"

definition reportCents :: "int \<Rightarrow> int may_panic" where
  "reportCents microcents =
     (if microcents < 0
      then (case CeilCents (wrap64 (- max microcents (- MaxInt64))) of
              Inl p \<Rightarrow> Inl p | Inr c \<Rightarrow> Inr (wrap64 (- c)))
      else CeilCents microcents)"

definition reportLimit :: "int \<Rightarrow> int may_panic" where
  "reportLimit limitCents = (if limitCents < 0 then Inr limitCents else LimitMicrocents limitCents)"

definition scopeExceeded :: "string \<Rightarrow> int \<Rightarrow> int \<Rightarrow> int \<Rightarrow> exceeded_error option may_panic" where
  "scopeExceeded scope limitCents used need =
     (let refuse =
        bind_ok (reportCents used) (\<lambda>usedCents.
        bind_ok (reportCents need) (\<lambda>needCents.
        bind_ok (reportLimit limitCents) (\<lambda>limitMicro.
        Inr (Some \<lparr>x_Scope = scope, x_LimitCents = limitCents, x_UsedCents = usedCents,
                   x_NeedCents = needCents, x_LimitMicrocents = limitMicro,
                   x_UsedMicrocents = used, x_NeedMicrocents = need\<rparr>))))
      in if limitCents \<ge> 0
         then bind_ok (LimitMicrocents limitCents) (\<lambda>limit.
              if \<not> wouldExceed used need limit then Inr None else refuse)
         else refuse)"

definition budget_columns :: "string list" where
  "budget_columns = [''team_id'', ''user_id'', ''service_account_id'', ''key_id'', ''customer_id'']"

text \<open>\<open>SELECT COALESCE(SUM(cost_microcents),0) ... WHERE scope = $1 AND subject_id = $2 AND
  day >= $3 AND day < $4\<close>; a sum beyond \<open>int64\<close> fails in the scan.\<close>

definition sum_totals :: "totals \<Rightarrow> string \<Rightarrow> int \<Rightarrow> int \<Rightarrow> int \<Rightarrow> int" where
  "sum_totals t scope i from to' = sum_list (map (\<lambda>d. tot t (scope, i, d)) [from..to' - 1])"

definition budgetUsedForScope :: "totals \<Rightarrow> string \<Rightarrow> int \<Rightarrow> gotime \<times> gotime \<Rightarrow> string + int" where
  "budgetUsedForScope t column i window =
     (if column \<notin> set budget_columns then Inl ''invalid budget scope''
      else let scope = take (length column - 3) column in
           bigint (sum_totals t scope i (utc_day (fst window)) (utc_day (snd window))))"

definition budgetUsedForTeam :: "totals \<Rightarrow> int \<Rightarrow> gotime \<times> gotime \<Rightarrow> string + int" where
  "budgetUsedForTeam t = budgetUsedForScope t ''team_id''"

definition budgetUsedForUser :: "totals \<Rightarrow> int \<Rightarrow> gotime \<times> gotime \<Rightarrow> string + int" where
  "budgetUsedForUser t = budgetUsedForScope t ''user_id''"

definition budgetUsedForServiceAccount :: "totals \<Rightarrow> int \<Rightarrow> gotime \<times> gotime \<Rightarrow> string + int" where
  "budgetUsedForServiceAccount t = budgetUsedForScope t ''service_account_id''"

definition budgetUsedForKey :: "totals \<Rightarrow> int \<Rightarrow> gotime \<times> gotime \<Rightarrow> string + int" where
  "budgetUsedForKey t = budgetUsedForScope t ''key_id''"

definition budgetUsedForCustomer :: "totals \<Rightarrow> int \<Rightarrow> gotime \<times> gotime \<Rightarrow> string + int" where
  "budgetUsedForCustomer t = budgetUsedForScope t ''customer_id''"

section \<open>Advisory locks\<close>

text \<open>FNV-1a, 64 bits, and the keys of the locks an admission takes.\<close>

definition fnv64a :: "string \<Rightarrow> 64 word" where
  "fnv64a s = fold (\<lambda>c h. (xor h (of_nat (of_char c))) * 1099511628211)
                s 14695981039346656037"

definition teamLockKey :: "int \<Rightarrow> int" where
  "teamLockKey teamID = wrap64 (1000000000 + teamID)"

definition userLockKey :: "int \<Rightarrow> int" where
  "userLockKey userID = sint (fnv64a (''user:'' @ show_int userID))"

definition serviceAccountLockKey :: "int \<Rightarrow> int" where
  "serviceAccountLockKey saID = sint (fnv64a (''sa:'' @ show_int saID))"

definition keyLockKey :: "int \<Rightarrow> int" where
  "keyLockKey keyID = sint (fnv64a (''key:'' @ show_int keyID))"

definition customerLockKey :: "int \<Rightarrow> int" where
  "customerLockKey customerID = sint (fnv64a (''customer:'' @ show_int customerID))"

section \<open>Admission\<close>

definition positive_limit :: "int option \<Rightarrow> bool" where
  "positive_limit l = (case l of None \<Rightarrow> False | Some x \<Rightarrow> x > 0)"

definition teamBudget :: "admission_request \<Rightarrow> bool" where
  "teamBudget req = (case ar_Team req of None \<Rightarrow> False | Some t \<Rightarrow> positive_limit (t_UsdLimitCents t))"

definition userBudget :: "admission_request \<Rightarrow> bool" where
  "userBudget req = (case ar_User req of None \<Rightarrow> False | Some u \<Rightarrow> positive_limit (usr_UsdLimitCents u))"

definition saBudget :: "admission_request \<Rightarrow> bool" where
  "saBudget req = (case ar_ServiceAccount req of None \<Rightarrow> False | Some sa \<Rightarrow> positive_limit (sa_UsdLimitCents sa))"

definition keyBudget :: "admission_request \<Rightarrow> bool" where
  "keyBudget req = (case ar_Key req of None \<Rightarrow> False | Some k \<Rightarrow> positive_limit (vk_ScopedUsdLimitCents k))"

definition customerBudget :: "admission_request \<Rightarrow> bool" where
  "customerBudget req = (case ar_Customer req of None \<Rightarrow> False | Some c \<Rightarrow> c_UsdLimitCents c \<noteq> None)"

text \<open>The lock keys in the order of acquisition.\<close>

definition admit_lock_keys :: "admission_request \<Rightarrow> team \<Rightarrow> int list" where
  "admit_lock_keys req team = sort (
     [teamLockKey (t_ID team)]
     @ (if userBudget req then [userLockKey (usr_ID (the (ar_User req)))] else [])
     @ (if saBudget req then [serviceAccountLockKey (sa_ID (the (ar_ServiceAccount req)))] else [])
     @ (if keyBudget req then [keyLockKey (vk_ID (the (ar_Key req)))] else [])
     @ (if customerBudget req then [customerLockKey (c_ID (the (ar_Customer req)))] else []))"

text \<open>A budget to check: scope, column, subject, limit and period.\<close>

record scope_budget =
  sb_scope :: string
  sb_column :: string
  sb_id :: int
  sb_limit :: int
  sb_period :: string

definition scope_budgets :: "admission_request \<Rightarrow> team \<Rightarrow> scope_budget list" where
  "scope_budgets req team =
     (if teamBudget req
      then [\<lparr>sb_scope = ''team'', sb_column = ''team_id'', sb_id = t_ID team,
             sb_limit = the (t_UsdLimitCents team), sb_period = t_Period team\<rparr>] else [])
     @ (if userBudget req
        then let u = the (ar_User req) in
             [\<lparr>sb_scope = ''user'', sb_column = ''user_id'', sb_id = usr_ID u,
               sb_limit = the (usr_UsdLimitCents u), sb_period = usr_Period u\<rparr>] else [])
     @ (if saBudget req
        then let a = the (ar_ServiceAccount req) in
             [\<lparr>sb_scope = ''service_account'', sb_column = ''service_account_id'', sb_id = sa_ID a,
               sb_limit = the (sa_UsdLimitCents a), sb_period = sa_Period a\<rparr>] else [])
     @ (if keyBudget req
        then let k = the (ar_Key req) in
             [\<lparr>sb_scope = ''key'', sb_column = ''key_id'', sb_id = vk_ID k,
               sb_limit = the (vk_ScopedUsdLimitCents k), sb_period = t_Period team\<rparr>] else [])
     @ (if customerBudget req
        then let c = the (ar_Customer req) in
             [\<lparr>sb_scope = ''customer'', sb_column = ''customer_id'', sb_id = c_ID c,
               sb_limit = the (c_UsdLimitCents c), sb_period = c_Period c\<rparr>] else [])"

definition check_scope :: "gotime \<Rightarrow> totals \<Rightarrow> int \<Rightarrow> scope_budget \<Rightarrow> budget_error + unit" where
  "check_scope now t estimatedCost b =
     bind_ok (no_error (budgetUsedForScope t (sb_column b) (sb_id b) (budgetWindow now (sb_period b)))) (\<lambda>used.
     bind_ok (no_panic (scopeExceeded (sb_scope b) (sb_limit b) used estimatedCost)) (\<lambda>exceeded.
     case exceeded of Some e \<Rightarrow> Inl (ExceededError e) | None \<Rightarrow> Inr ()))"

fun check_scopes :: "gotime \<Rightarrow> totals \<Rightarrow> int \<Rightarrow> scope_budget list \<Rightarrow> budget_error + unit" where
  "check_scopes now t estimatedCost [] = Inr ()"
| "check_scopes now t estimatedCost (b # bs) =
     bind_ok (check_scope now t estimatedCost b) (\<lambda>_. check_scopes now t estimatedCost bs)"

definition nullableUserID :: "user option \<Rightarrow> int option" where
  "nullableUserID u = map_option usr_ID u"

definition nullableServiceAccountID :: "service_account option \<Rightarrow> int option" where
  "nullableServiceAccountID sa = map_option sa_ID sa"

definition nullableKeyID :: "virtual_key option \<Rightarrow> int option" where
  "nullableKeyID vk = (case vk of None \<Rightarrow> None | Some k \<Rightarrow> if vk_ID k \<le> 0 then None else Some (vk_ID k))"

definition admit_customer_id :: "customer option \<Rightarrow> int option" where
  "admit_customer_id c = (case c of None \<Rightarrow> None | Some x \<Rightarrow> if c_ID x > 0 then Some (c_ID x) else None)"

definition reservation_row :: "admission_request \<Rightarrow> team \<Rightarrow> int \<Rightarrow> int \<Rightarrow> gotime \<Rightarrow> reservation" where
  "reservation_row req team estimatedCents estimatedCost db_now =
     \<lparr>r_request_id = ar_RequestID req, r_team_id = t_ID team, r_user_id = nullableUserID (ar_User req),
      r_service_account_id = nullableServiceAccountID (ar_ServiceAccount req),
      r_key_id = nullableKeyID (ar_Key req), r_customer_id = admit_customer_id (ar_Customer req),
      r_alias = ar_Alias req, r_estimated_cost_cents = estimatedCents,
      r_estimated_cost_microcents = Some estimatedCost, r_settled_cost_cents = 0,
      r_settled_cost_microcents = None, r_status = ''reserved'', r_created_at = db_now, r_settled_at = None\<rparr>"

definition invalid_customer :: "admission_request \<Rightarrow> team \<Rightarrow> bool" where
  "invalid_customer req team =
     (case ar_Customer req of None \<Rightarrow> False
      | Some c \<Rightarrow> c_TeamID c \<noteq> t_ID team \<or> c_ID c \<le> 0 \<and> customerBudget req)"

text \<open>The transaction under the locks \<open>admit_lock_keys\<close>. \<open>None\<close> is the nil reservation of a
  request with no budget to check.\<close>

definition Admit ::
  "pricing_row list \<Rightarrow> gotime \<Rightarrow> gotime \<Rightarrow> admission_request \<Rightarrow> ledger
   \<Rightarrow> budget_error + budget_reservation option \<times> ledger" where
  "Admit rows now db_now req db =
     (case ar_Team req of
        None \<Rightarrow> Inr (None, db)
      | Some team \<Rightarrow>
          if ar_RequestID req = [] \<or> ar_Alias req = [] then Inr (None, db)
          else if invalid_customer req team then Inl (BudgetError ''invalid customer budget identity'')
          else if \<not> teamBudget req \<and> \<not> userBudget req \<and> \<not> saBudget req \<and> \<not> keyBudget req
                  \<and> \<not> customerBudget req then Inr (None, db)
          else
            bind_ok (maxEstimatedCost rows (ar_PromptTokens req) (ar_CompletionTokens req) (ar_Targets req)) (\<lambda>estimatedCost.
            bind_ok (check_scopes now (daily_totals db) estimatedCost (scope_budgets req team)) (\<lambda>_.
            bind_ok (no_panic (CeilCents estimatedCost)) (\<lambda>estimatedCents.
            bind_ok (no_error (insert_reservation (reservation_row req team estimatedCents estimatedCost db_now) db)) (\<lambda>db'.
            Inr (Some \<lparr>br_RequestID = ar_RequestID req, br_EstimatedCostCents = estimatedCents,
                       br_EstimatedCostMicrocents = estimatedCost\<rparr>, db'))))))"

section \<open>Settlement\<close>

definition Settle :: "gotime \<Rightarrow> string \<Rightarrow> int \<Rightarrow> ledger \<Rightarrow> budget_error + ledger" where
  "Settle db_now requestID microcents db =
     (if microcents < 0 then Inl (BudgetError ''settled cost must not be negative'')
      else if requestID = [] then Inr db
      else bind_ok (no_panic (CeilCents microcents)) (\<lambda>cents.
           bind_ok (no_error (settle_reservation requestID cents (Some microcents) db_now db)) (\<lambda>(_, db').
           Inr db')))"

definition SettleEstimated :: "gotime \<Rightarrow> string \<Rightarrow> ledger \<Rightarrow> budget_error + int \<times> ledger" where
  "SettleEstimated db_now requestID db =
     (if requestID = [] then Inr (0, db)
      else (case find_reservation requestID (reservations db) of
              None \<Rightarrow> Inr (0, db)
            | Some r \<Rightarrow>
                bind_ok (no_error (settle_reservation requestID (r_estimated_cost_cents r)
                                     (r_estimated_cost_microcents r) db_now db)) (\<lambda>(row, db').
                case row of None \<Rightarrow> Inr (0, db') | Some r' \<Rightarrow> Inr (r_settled_cost_cents r', db'))))"

section \<open>Summaries\<close>

record user_summary =
  us_LimitCents :: "int option"
  us_Period :: string
  us_WindowStart :: gotime
  us_WindowEnd :: gotime
  us_UsedCents :: int
  us_UsedMicrocents :: int

definition summary :: "totals \<Rightarrow> gotime \<Rightarrow> string \<Rightarrow> int \<Rightarrow> int option \<Rightarrow> string \<Rightarrow> budget_error + user_summary" where
  "summary t now column i limit period =
     (let w = budgetWindow now period in
      bind_ok (no_error (budgetUsedForScope t column i w)) (\<lambda>used.
      bind_ok (no_panic (CeilCents used)) (\<lambda>cents.
      Inr \<lparr>us_LimitCents = limit, us_Period = period, us_WindowStart = fst w, us_WindowEnd = snd w,
           us_UsedCents = cents, us_UsedMicrocents = used\<rparr>)))"

definition default_period :: "string \<Rightarrow> string" where
  "default_period period = (if period \<noteq> ''day'' \<and> period \<noteq> ''month'' then ''month'' else period)"

definition CustomerSummary :: "ledger \<Rightarrow> gotime \<Rightarrow> customer \<Rightarrow> budget_error + user_summary" where
  "CustomerSummary db now c =
     summary (daily_totals db) now ''customer_id'' (c_ID c) (c_UsdLimitCents c) (c_Period c)"

definition KeySummary :: "ledger \<Rightarrow> gotime \<Rightarrow> virtual_key option \<Rightarrow> team option \<Rightarrow> budget_error + user_summary" where
  "KeySummary db now key team =
     (case (key, team) of
        (Some k, Some t) \<Rightarrow>
          if vk_TeamID k \<noteq> t_ID t \<or> vk_ID k \<le> 0 then Inl (BudgetError ''invalid key budget identity'')
          else summary (daily_totals db) now ''key_id'' (vk_ID k) (vk_ScopedUsdLimitCents k) (default_period (t_Period t))
      | _ \<Rightarrow> Inl (BudgetError ''invalid key budget identity''))"

definition UserSummary :: "ledger \<Rightarrow> gotime \<Rightarrow> user option \<Rightarrow> budget_error + user_summary option" where
  "UserSummary db now usr =
     (case usr of
        None \<Rightarrow> Inr None
      | Some u \<Rightarrow> bind_ok (summary (daily_totals db) now ''user_id'' (usr_ID u) (usr_UsdLimitCents u)
                              (default_period (usr_Period u))) (\<lambda>s. Inr (Some s)))"

section \<open>Windows\<close>

lemma day_ns_pos [simp]: "0 < day_ns"
  by (simp add: day_ns_def)

lemma utc_day_mult [simp]: "utc_day (d * day_ns) = d" "utc_day (d * day_ns + day_ns) = d + 1"
proof -
  show "utc_day (d * day_ns) = d" by (simp add: utc_day_def day_ns_def)
  have "d * day_ns + day_ns = (d + 1) * day_ns" by (simp add: algebra_simps)
  then show "utc_day (d * day_ns + day_ns) = d + 1" by (simp add: utc_day_def day_ns_def)
qed

lemma utc_day_bounds: "d * day_ns \<le> t \<and> t < e * day_ns \<longleftrightarrow> d \<le> utc_day t \<and> utc_day t < e"
proof -
  define q where "q = utc_day t"
  have "86400000000000 * q \<le> t" "t < 86400000000000 * q + 86400000000000"
    using int_div_mult_bounds [of 86400000000000 t] by (simp_all add: q_def utc_day_def day_ns_def)
  then show ?thesis unfolding q_def [symmetric] day_ns_def by linarith
qed

lemma budgetWindow_partition:
  assumes "budgetWindow now period = (s, e)"
  shows "s \<le> now \<and> now < e" and "s \<le> now' \<Longrightarrow> now' < e \<Longrightarrow> budgetWindow now' period = (s, e)"
proof -
  obtain y m where ym: "month_of (utc_day now) = (y, m)" by fastforce
  note b = month_of_bounds [OF ym]
  have e1: "utc_day now * day_ns + day_ns = (utc_day now + 1) * day_ns" by (simp add: algebra_simps)
  show "s \<le> now \<and> now < e"
    using assms b utc_day_bounds [of "utc_day now" now "utc_day now + 1"]
      utc_day_bounds [of "month_first (y, m)" now "month_first (y, Suc m)"]
    by (auto simp: budgetWindow_def ym e1 split: if_splits)
  assume w: "s \<le> now'" "now' < e"
  show "budgetWindow now' period = (s, e)"
  proof (cases "period = ''day''")
    case True
    then have "utc_day now' = utc_day now"
      using assms w utc_day_bounds [of "utc_day now" now' "utc_day now + 1"] by (auto simp: budgetWindow_def e1)
    with True assms show ?thesis by (simp add: budgetWindow_def)
  next
    case False
    then have "month_first (y, m) \<le> utc_day now'" "utc_day now' < month_first (y, Suc m)"
      using assms w utc_day_bounds [of "month_first (y, m)" now' "month_first (y, Suc m)"]
      by (auto simp: budgetWindow_def ym)
    from month_of_unique [OF b(1) this] False assms ym show ?thesis by (simp add: budgetWindow_def)
  qed
qed

section \<open>The decision for one scope\<close>

lemma reportCents_total: "is_i64 m \<Longrightarrow> \<exists>c. reportCents m = Inr c"
proof (cases "m < 0")
  case True
  assume "is_i64 m"
  with True have "is_i64 (- max m (- MaxInt64))" "0 \<le> - max m (- MaxInt64)" by (auto simp: i64_defs)
  then show ?thesis using CeilCents_not_panic [of "- max m (- MaxInt64)"] True
    by (auto simp: reportCents_def)
next
  case False
  then show ?thesis using CeilCents_not_panic [of m] by (simp add: reportCents_def)
qed

lemma reportLimit_total: "\<exists>c. reportLimit l = Inr c"
  by (simp add: reportLimit_def LimitMicrocents_eq)

lemma wouldExceed_iff:
  assumes "is_i64 used" "is_i64 limit"
  shows "wouldExceed used need limit \<longleftrightarrow> \<not> (0 \<le> used \<and> 0 \<le> need \<and> 0 \<le> limit \<and> used + need \<le> limit)"
proof (cases "0 \<le> used \<and> used \<le> limit")
  case True
  then have "wrap64 (limit - used) = limit - used" using assms by (auto simp: i64_defs intro!: wrap64_id)
  with True show ?thesis by (auto simp: wouldExceed_def)
qed (auto simp: wouldExceed_def)

lemma scopeExceeded_cases:
  assumes "is_i64 used" "is_i64 need"
  shows "\<exists>r. scopeExceeded scope l used need = Inr r
    \<and> (r = None \<longleftrightarrow> 0 \<le> l \<and> 0 \<le> used \<and> 0 \<le> need \<and> used + need \<le> min MaxInt64 (l * 1000000))
    \<and> (\<forall>e. r = Some e \<longrightarrow> x_Scope e = scope \<and> x_LimitCents e = l \<and> x_UsedMicrocents e = used \<and> x_NeedMicrocents e = need)"
proof -
  obtain uc nc lm where r: "reportCents used = Inr uc" "reportCents need = Inr nc" "reportLimit l = Inr lm"
    using reportCents_total assms reportLimit_total by meson
  show ?thesis
  proof (cases "0 \<le> l")
    case True
    have "is_i64 (min MaxInt64 (l * 1000000))" "0 \<le> min MaxInt64 (l * 1000000)" using True by (auto simp: i64_defs)
    from wouldExceed_iff [OF assms(1) this(1), of need] this(2) True show ?thesis
      by (auto simp: scopeExceeded_def LimitMicrocents_eq MicrocentsPerCent_def r)
  next
    case False
    then show ?thesis by (simp add: scopeExceeded_def r)
  qed
qed

section \<open>Admission against the abstract specification\<close>

text \<open>The spend of a subject within a window, from the reservations and the usage themselves.\<close>

definition window_spent :: "ledger \<Rightarrow> string \<Rightarrow> int \<Rightarrow> gotime \<times> gotime \<Rightarrow> int" where
  "window_spent db scope i w =
     sum_list (map (\<lambda>d. spent db (scope, i, d)) [utc_day (fst w)..utc_day (snd w) - 1])"

lemma sum_totals_spent:
  "ledger_inv db \<Longrightarrow> sum_totals (daily_totals db) scope i (utc_day (fst w)) (utc_day (snd w)) = window_spent db scope i w"
  by (simp add: sum_totals_def window_spent_def ledger_inv_tot)

lemma sum_list_single:
  "distinct xs \<Longrightarrow> sum_list (map (\<lambda>d. if d = x then v else 0) xs) = (if x \<in> set xs then v else 0)" for v :: int
  by (induction xs) auto

lemma window_spent_insert_reservation:
  assumes "ledger_inv db" and "insert_reservation r db = Inr db'" and "0 \<le> r_charge r"
  shows "window_spent db' scope i w \<le> window_spent db scope i w + r_charge r"
proof -
  let ?ds = "[utc_day (fst w)..utc_day (snd w) - 1]"
  have "window_spent db' scope i w
      \<le> sum_list (map (\<lambda>d. spent db (scope, i, d) + (if d = utc_day (r_created_at r) then r_charge r else 0)) ?ds)"
    unfolding window_spent_def
  proof (rule sum_list_map_mono)
    fix d
    have "r_part (scope, i, d) r \<le> (if d = utc_day (r_created_at r) then r_charge r else 0)"
      using assms(3) by (auto simp: r_part_def counts_for_def)
    then show "spent db' (scope, i, d) \<le> spent db (scope, i, d) + (if d = utc_day (r_created_at r) then r_charge r else 0)"
      using spent_mono_insert_reservation [OF assms(1,2), of "(scope, i, d)"] by linarith
  qed
  also have "\<dots> \<le> window_spent db scope i w + r_charge r"
    using assms(3) by (simp add: window_spent_def sum_list_addf sum_list_single)
  finally show ?thesis .
qed

lemma scopeExceeded_None:
  assumes "scopeExceeded scope l used need = Inr None" and "is_i64 used"
  shows "0 \<le> l \<and> 0 \<le> used \<and> 0 \<le> need \<and> used + need \<le> l * 1000000 \<and> used + need \<le> MaxInt64"
proof -
  have l: "0 \<le> l" using assms(1) by (auto simp: scopeExceeded_def Let_def split: if_splits)
  then have "is_i64 (min MaxInt64 (l * 1000000))" by (auto simp: i64_defs)
  from wouldExceed_iff [OF assms(2) this, of need] l assms(1) show ?thesis
    by (auto simp: scopeExceeded_def LimitMicrocents_eq MicrocentsPerCent_def Let_def split: if_splits)
qed

lemma check_scopes_all: "check_scopes now t est bs = Inr () \<Longrightarrow> b \<in> set bs \<Longrightarrow> check_scope now t est b = Inr ()"
  by (induction bs) (auto simp: bind_ok_Inr_iff)

lemma scope_budget_column:
  "b \<in> set (scope_budgets req team) \<Longrightarrow> sb_column b \<in> set budget_columns \<and> take (length (sb_column b) - 3) (sb_column b) = sb_scope b"
  by (auto simp: scope_budgets_def budget_columns_def Let_def split: if_splits)

lemma check_scope_ok:
  assumes "check_scope now (daily_totals db) est b = Inr ()" and "b \<in> set (scope_budgets req team)" and "ledger_inv db"
  defines "used \<equiv> window_spent db (sb_scope b) (sb_id b) (budgetWindow now (sb_period b))"
  shows "0 \<le> est" and "is_i64 est" and "0 \<le> used" and "used + est \<le> sb_limit b * 1000000"
proof -
  from assms(1) obtain u where u: "budgetUsedForScope (daily_totals db) (sb_column b) (sb_id b) (budgetWindow now (sb_period b)) = Inr u"
    and x: "scopeExceeded (sb_scope b) (sb_limit b) u est = Inr None"
    by (auto simp: check_scope_def bind_ok_Inr_iff split: option.splits)
  have "is_i64 u" "u = used"
    using u scope_budget_column [OF assms(2)] sum_totals_spent [OF assms(3)]
    by (auto simp: budgetUsedForScope_def Let_def used_def split: if_splits)
  with scopeExceeded_None [OF x] show "0 \<le> est" "is_i64 est" "0 \<le> used" "used + est \<le> sb_limit b * 1000000"
    by (auto simp: i64_defs)
qed

lemma Admit_Some:
  assumes "Admit rows now db_now req db = Inr (Some res, db')"
  obtains team est cents where "ar_Team req = Some team" "scope_budgets req team \<noteq> []"
    "maxEstimatedCost rows (ar_PromptTokens req) (ar_CompletionTokens req) (ar_Targets req) = Inr est"
    "check_scopes now (daily_totals db) est (scope_budgets req team) = Inr ()"
    "CeilCents est = Inr cents"
    "insert_reservation (reservation_row req team cents est db_now) db = Inr db'"
    "res = \<lparr>br_RequestID = ar_RequestID req, br_EstimatedCostCents = cents, br_EstimatedCostMicrocents = est\<rparr>"
    "\<not> invalid_customer req team"
  using assms
  by (auto simp: Admit_def scope_budgets_def Let_def intro: that split: option.splits if_splits elim!: bind_okE)

lemma reservation_row_simps [simp]:
  "r_charge (reservation_row req team c est db_now) = est"
  "r_request_id (reservation_row req team c est db_now) = ar_RequestID req"
  "r_status (reservation_row req team c est db_now) = ''reserved''"
  "r_created_at (reservation_row req team c est db_now) = db_now"
  by (simp_all add: reservation_row_def r_charge_def amount_def)

lemma Admit_enforces:
  assumes inv: "ledger_inv db" and adm: "Admit rows now db_now req db = Inr (Some res, db')"
    and team: "ar_Team req = Some team"
  shows "ledger_inv db'"
    and "\<forall>b \<in> set (scope_budgets req team).
      window_spent db' (sb_scope b) (sb_id b) (budgetWindow now (sb_period b)) \<le> sb_limit b * 1000000"
    and "\<exists>r. find_reservation (br_RequestID res) (reservations db') = Some r \<and> r_status r = ''reserved''
      \<and> r_charge r = br_EstimatedCostMicrocents res"
proof -
  from adm obtain est cents where nonempty: "scope_budgets req team \<noteq> []"
    and chk: "check_scopes now (daily_totals db) est (scope_budgets req team) = Inr ()"
    and ins: "insert_reservation (reservation_row req team cents est db_now) db = Inr db'"
    and res: "res = \<lparr>br_RequestID = ar_RequestID req, br_EstimatedCostCents = cents, br_EstimatedCostMicrocents = est\<rparr>"
    using team by (elim Admit_Some) auto
  let ?r = "reservation_row req team cents est db_now"
  have ok: "check_scope now (daily_totals db) est b = Inr ()" if "b \<in> set (scope_budgets req team)" for b
    using check_scopes_all [OF chk that] .
  from nonempty obtain b0 where "b0 \<in> set (scope_budgets req team)" by (meson last_in_set)
  then have est: "0 \<le> est" "is_i64 est" using check_scope_ok [OF ok _ inv] by blast+
  have row: "reservation_ok ?r" using est ins by (auto simp: reservation_ok_def elim: insert_reservation_Inr)
  show inv': "ledger_inv db'" using insert_reservation_inv [OF inv ins row] .
  show "\<forall>b \<in> set (scope_budgets req team).
      window_spent db' (sb_scope b) (sb_id b) (budgetWindow now (sb_period b)) \<le> sb_limit b * 1000000"
  proof
    fix b assume b: "b \<in> set (scope_budgets req team)"
    have "0 \<le> r_charge ?r" using est by simp
    from window_spent_insert_reservation [OF inv ins this, of "sb_scope b" "sb_id b" "budgetWindow now (sb_period b)"]
      check_scope_ok(4) [OF ok [OF b] b inv] show "window_spent db' (sb_scope b) (sb_id b) (budgetWindow now (sb_period b)) \<le> sb_limit b * 1000000"
      by simp
  qed
  have "?r \<in> set (reservations db')" using ins by (elim insert_reservation_Inr) simp
  from find_reservation_unique [OF ledger_inv_distinct [OF inv'] this]
  show "\<exists>r. find_reservation (br_RequestID res) (reservations db') = Some r \<and> r_status r = ''reserved''
      \<and> r_charge r = br_EstimatedCostMicrocents res"
    by (simp add: res)
qed

text \<open>C2: An admitted request respects every budget it is subject to. When \<open>Admit\<close> hands out a
  reservation, then for each budgeted scope of the request (team, user, service account, key,
  customer) the spend of that subject in its current window, computed from the reservations and
  usage rows themselves and including the new reservation, is at most the limit; the daily
  totals stay exact; and the reservation is recorded at the reserved estimate. No assumption
  relates the gateway's clock to the database's.\<close>

theorem admission_enforces_every_budget:
  assumes "ledger_inv db" and "Admit rows now db_now req db = Inr (Some res, db')"
    and "ar_Team req = Some team"
  shows "ledger_inv db'
    \<and> (\<forall>b \<in> set (scope_budgets req team).
        window_spent db' (sb_scope b) (sb_id b) (budgetWindow now (sb_period b)) \<le> sb_limit b * 1000000)
    \<and> (\<exists>r. find_reservation (br_RequestID res) (reservations db') = Some r \<and> r_status r = ''reserved''
        \<and> r_charge r = br_EstimatedCostMicrocents res)"
  using Admit_enforces [OF assms] by blast

definition sample_team :: team where
  "sample_team = \<lparr>t_ID = 7, t_Slug = ''core'', t_Name = ''Core'', t_UsdLimitCents = Some 500, t_Period = ''month'',
     t_AllowedModels = [''*''], t_RPM = None, t_TPM = None, t_MaxParallelRequests = None, t_CapturePayloads = False,
     t_CustomerRegistration = [], t_CreatedAt = 0, t_ArchivedAt = None\<rparr>"

definition sample_rows :: "pricing_row list" where
  "sample_rows = [\<lparr>pr_ProviderType = ''openai'', pr_UpstreamModel = ''gpt'', pr_EffectiveAt = 0, pr_pricing = sample_pricing\<rparr>]"

definition sample_request :: admission_request where
  "sample_request = \<lparr>ar_RequestID = ''r1'', ar_Team = Some sample_team, ar_User = None, ar_ServiceAccount = None,
     ar_Key = None, ar_Customer = None, ar_Alias = ''chat'', ar_PromptTokens = 200, ar_CompletionTokens = 50,
     ar_Targets = [\<lparr>tg_ProviderType = ''openai'', tg_UpstreamModel = ''gpt''\<rparr>]\<rparr>"

definition sample_now :: gotime where
  "sample_now = 1700000000000000000"

definition admitted :: "budget_error + budget_reservation option \<times> ledger \<Rightarrow> bool" where
  "admitted x = (case x of Inr (Some _, _) \<Rightarrow> True | _ \<Rightarrow> False)"

lemma sample_admitted: "admitted (Admit sample_rows sample_now sample_now sample_request empty_ledger)"
  by code_simp

lemma admittedE:
  assumes "admitted x"
  obtains res db' where "x = Inr (Some res, db')"
  using assms by (auto simp: admitted_def split: sum.splits prod.splits option.splits)

theorem admission_enforces_every_budget_witness:
  "\<exists>res db'. Admit sample_rows sample_now sample_now sample_request empty_ledger = Inr (Some res, db')
     \<and> ledger_inv db' \<and> window_spent db' ''team'' 7 (budgetWindow sample_now ''month'') \<le> 500 * 1000000"
proof -
  obtain res db' where adm: "Admit sample_rows sample_now sample_now sample_request empty_ledger = Inr (Some res, db')"
    using sample_admitted by (rule admittedE)
  have "scope_budgets sample_request sample_team = [\<lparr>sb_scope = ''team'', sb_column = ''team_id'', sb_id = 7,
      sb_limit = 500, sb_period = ''month''\<rparr>]"
    by code_simp
  then show ?thesis
    using admission_enforces_every_budget [OF ledger_inv_empty adm, of sample_team] adm
    by (simp add: sample_request_def)
qed

section \<open>Settlement keeps the spend in check\<close>

lemma Settle_cases:
  assumes "Settle db_now rid m db = Inr db'" and "is_i64 m"
  obtains "db' = db" | c row where "0 \<le> m" "CeilCents m = Inr c"
    "settle_reservation rid c (Some m) db_now db = Inr (row, db')"
  using assms by (auto simp: Settle_def split: if_splits elim!: bind_okE intro: that)

lemma SettleEstimated_cases:
  assumes "SettleEstimated db_now rid db = Inr (cost, db')"
  obtains "db' = db" | r row where "find_reservation rid (reservations db) = Some r"
    "settle_reservation rid (r_estimated_cost_cents r) (r_estimated_cost_microcents r) db_now db = Inr (row, db')"
  using assms
  by (auto simp: SettleEstimated_def split: if_splits option.splits elim!: bind_okE intro: that)

text \<open>The amount a settlement may record for a pending reservation: at most what was reserved.\<close>

definition within_estimate :: "ledger \<Rightarrow> string \<Rightarrow> int \<Rightarrow> bool" where
  "within_estimate db rid m =
     (case find_reservation rid (reservations db) of
        Some r \<Rightarrow> r_status r = ''reserved'' \<longrightarrow> m \<le> r_charge r | None \<Rightarrow> True)"

lemma settle_within_estimate:
  assumes "ledger_inv db" and "settle_reservation rid c m now db = Inr (res, db')"
    and "within_estimate db rid (amount c m)"
  shows "spent db' k \<le> spent db k"
  using assms(2)
proof (cases rule: settle_reservation_Inr)
  case (settled old t)
  have "amount c m \<le> r_charge old" using assms(3) settled(1,2) by (simp add: within_estimate_def)
  then show ?thesis
    using spent_settle [OF ledger_inv_distinct [OF assms(1)] settled(1,2), where t = t and k = k] settled(6) by simp
qed simp

lemma window_spent_mono:
  "(\<And>k. spent db' k \<le> spent db k) \<Longrightarrow> window_spent db' sc i w \<le> window_spent db sc i w"
  unfolding window_spent_def by (rule sum_list_map_mono) simp

lemma reserved_charge:
  assumes "ledger_inv db" "find_reservation rid (reservations db) = Some r" "r_status r = ''reserved''"
  shows "amount (r_estimated_cost_cents r) (r_estimated_cost_microcents r) = r_charge r"
    and "0 \<le> r_charge r" and "is_i64 (r_charge r)"
proof -
  have ok: "reservation_ok r" using ledger_inv_reservation [OF assms(1) find_reservation_Some(1) [OF assms(2)]] .
  show "amount (r_estimated_cost_cents r) (r_estimated_cost_microcents r) = r_charge r"
    using assms(3) by (simp add: r_charge_def)
  show "0 \<le> r_charge r" "is_i64 (r_charge r)" using ok by (simp_all add: reservation_ok_def)
qed

text \<open>One call of the budget service, as seen by one scope: subject \<open>(sc, i)\<close> with limit \<open>L\<close> in
  the window \<open>w\<close>. An admission that reserves for this subject on a day of \<open>w\<close> carries that
  budget; a settlement records no more than was reserved.\<close>

inductive budget_step :: "string \<Rightarrow> int \<Rightarrow> int \<Rightarrow> gotime \<times> gotime \<Rightarrow> ledger \<Rightarrow> ledger \<Rightarrow> bool"
  for sc i L w where
  admit: "Admit rows now db_now req db = Inr (res, db') \<Longrightarrow>
    (\<And>team. ar_Team req = Some team \<Longrightarrow> (sc, i) \<in> set (r_subjects (reservation_row req team 0 0 0)) \<Longrightarrow>
       utc_day db_now \<in> {utc_day (fst w)..utc_day (snd w) - 1} \<Longrightarrow>
       \<exists>b \<in> set (scope_budgets req team). sb_scope b = sc \<and> sb_id b = i \<and> sb_limit b \<le> L
          \<and> budgetWindow now (sb_period b) = w) \<Longrightarrow>
    budget_step sc i L w db db'"
| settle: "Settle db_now rid m db = Inr db' \<Longrightarrow> is_i64 m \<Longrightarrow> within_estimate db rid m \<Longrightarrow>
    budget_step sc i L w db db'"
| settle_estimated: "SettleEstimated db_now rid db = Inr (cost, db') \<Longrightarrow> budget_step sc i L w db db'"

inductive_cases budget_stepE: "budget_step sc i L w db db'"

lemma Settle_step:
  assumes "ledger_inv db" and "Settle db_now rid m db = Inr db'" and "is_i64 m"
  shows "ledger_inv db'" and "within_estimate db rid m \<Longrightarrow> window_spent db' sc i w \<le> window_spent db sc i w"
proof -
  from assms(2,3) show "ledger_inv db'"
  proof (cases rule: Settle_cases)
    case (2 c row)
    then show ?thesis using settle_reservation_inv [OF assms(1) 2(3)] CeilCents_amount [OF 2(1) assms(3) 2(2)] assms(3) by simp
  qed (use assms(1) in simp)
  assume "within_estimate db rid m"
  from assms(2,3) show "window_spent db' sc i w \<le> window_spent db sc i w"
  proof (cases rule: Settle_cases)
    case (2 c row)
    have "within_estimate db rid (amount c (Some m))" using \<open>within_estimate db rid m\<close> by (simp add: amount_def)
    then show ?thesis using settle_within_estimate [OF assms(1) 2(3)] by (intro window_spent_mono)
  qed simp
qed

lemma SettleEstimated_step:
  assumes "ledger_inv db" and "SettleEstimated db_now rid db = Inr (cost, db')"
  shows "ledger_inv db'" and "spent db' k = spent db k"
proof -
  from assms(2) have "ledger_inv db' \<and> spent db' k = spent db k"
  proof (cases rule: SettleEstimated_cases)
    case (2 r row)
    show ?thesis using 2(2)
    proof (cases rule: settle_reservation_Inr)
      case (settled old t)
      then have old: "old = r" using 2(1) by simp
      note c = reserved_charge [OF assms(1) 2(1) settled(2) [unfolded old]]
      have "spent db' k = spent db k"
        using spent_settle [OF ledger_inv_distinct [OF assms(1)] settled(1,2), where t = t and k = k] c(1)
        by (simp add: settled(6) old)
      then show ?thesis using settle_reservation_inv [OF assms(1) 2(2)] c by simp
    qed (use assms(1) in simp)
  qed (use assms(1) in simp)
  then show "ledger_inv db'" "spent db' k = spent db k" by simp_all
qed

lemma Admit_None: "Admit rows now db_now req db = Inr (None, db') \<Longrightarrow> db' = db"
  by (auto simp: Admit_def split: option.splits if_splits elim!: bind_okE)

lemma window_spent_insert_other:
  assumes "ledger_inv db" and "insert_reservation r db = Inr db'"
    and "(sc, i) \<notin> set (r_subjects r) \<or> utc_day (r_created_at r) \<notin> {utc_day (fst w)..utc_day (snd w) - 1}"
  shows "window_spent db' sc i w \<le> window_spent db sc i w"
  unfolding window_spent_def
proof (rule sum_list_map_mono)
  fix d assume "d \<in> set [utc_day (fst w)..utc_day (snd w) - 1]"
  with assms(3) have "r_part (sc, i, d) r = 0" by (auto simp: r_part_def counts_for_def)
  then show "spent db' (sc, i, d) \<le> spent db (sc, i, d)"
    using spent_mono_insert_reservation [OF assms(1,2), of "(sc, i, d)"] by simp
qed

lemma r_subjects_row: "r_subjects (reservation_row req team c est now) = r_subjects (reservation_row req team 0 0 0)"
  by (simp add: r_subjects_def reservation_row_def)

lemma budget_step_within:
  assumes "budget_step sc i L w db db'" and "ledger_inv db" and "window_spent db sc i w \<le> L * 1000000"
  shows "ledger_inv db' \<and> window_spent db' sc i w \<le> L * 1000000"
  using assms(1)
proof cases
  case (admit rows now db_now req res)
  show ?thesis
  proof (cases res)
    case None
    then show ?thesis using Admit_None admit(1) assms by blast
  next
    case (Some rv)
    note adm = admit(1) [unfolded Some]
    from adm obtain team est cents where team: "ar_Team req = Some team"
      and ins: "insert_reservation (reservation_row req team cents est db_now) db = Inr db'"
      by (elim Admit_Some)
    note enf = Admit_enforces [OF assms(2) adm team]
    show ?thesis
    proof (cases "(sc, i) \<in> set (r_subjects (reservation_row req team 0 0 0))
        \<and> utc_day db_now \<in> {utc_day (fst w)..utc_day (snd w) - 1}")
      case True
      with admit(2) [OF team] obtain b where b: "b \<in> set (scope_budgets req team)" "sb_scope b = sc" "sb_id b = i"
        "sb_limit b \<le> L" "budgetWindow now (sb_period b) = w" by blast
      with enf(2) have "window_spent db' sc i w \<le> sb_limit b * 1000000" by blast
      with b(4) enf(1) show ?thesis by auto
    next
      case False
      then have "window_spent db' sc i w \<le> window_spent db sc i w"
        using r_subjects_row [of req team cents est db_now]
        by (intro window_spent_insert_other [OF assms(2) ins]) auto
      with enf(1) assms(3) show ?thesis by simp
    qed
  qed
next
  case (settle db_now rid m)
  then show ?thesis
    using Settle_step(1) [OF assms(2) settle(1,2)] Settle_step(2) [OF assms(2) settle, of sc i w] assms(3) by simp
next
  case (settle_estimated db_now rid cost)
  then show ?thesis
    using SettleEstimated_step [OF assms(2) settle_estimated] assms(3) by (simp add: window_spent_def)
qed



text \<open>Budget windows partition time: a point in time lies in its own window, and every other
  point of that window is assigned the same window, for daily and for monthly budgets. So spend
  is never counted against two windows and never against none.\<close>

theorem budget_windows_partition_time:
  "\<exists>s e. budgetWindow now period = (s, e) \<and> s \<le> now \<and> now < e
     \<and> (\<forall>now'. (s \<le> now' \<and> now' < e) = (budgetWindow now' period = (s, e)))"
proof -
  obtain s e where w: "budgetWindow now period = (s, e)" by fastforce
  then show ?thesis using budgetWindow_partition [OF w] budgetWindow_partition(1) by blast
qed

text \<open>The decision for one scope never panics on 64-bit amounts and is exact: a request is let
  through if and only if limit, spend and estimate are non-negative and their sum fits both the
  limit and 64 bits; a refusal reports the scope, the limit and both exact amounts.\<close>

theorem scope_decision_exact:
  assumes "is_i64 used" and "is_i64 need"
  shows "\<exists>r. scopeExceeded scope limitCents used need = Inr r
    \<and> (r = None \<longleftrightarrow> 0 \<le> limitCents \<and> 0 \<le> used \<and> 0 \<le> need \<and> used + need \<le> min MaxInt64 (limitCents * 1000000))
    \<and> (\<forall>e. r = Some e \<longrightarrow> x_Scope e = scope \<and> x_LimitCents e = limitCents
          \<and> x_UsedMicrocents e = used \<and> x_NeedMicrocents e = need)"
  using scopeExceeded_cases [OF assms] .

theorem scope_decision_exact_witness:
  "\<exists>r. scopeExceeded ''key'' 0 0 1 = Inr r \<and> r \<noteq> None"
  using scope_decision_exact [of 0 1 "''key''" 0] by auto

section \<open>Estimates\<close>

lemma max_cost_from_bounds:
  assumes "max_cost_from rows p c m tgs = Inr est"
  shows "m \<le> est"
    and "tg \<in> set tgs \<Longrightarrow> \<exists>pricing cost. GetCurrentPricing rows (tg_ProviderType tg) (tg_UpstreamModel tg) = Some pricing
          \<and> estimatedTierCost pricing p c = Inr cost \<and> cost \<le> est"
proof -
  have "m \<le> est \<and> (tg \<in> set tgs \<longrightarrow> (\<exists>pricing cost. GetCurrentPricing rows (tg_ProviderType tg) (tg_UpstreamModel tg) = Some pricing
          \<and> estimatedTierCost pricing p c = Inr cost \<and> cost \<le> est))"
    using assms
  proof (induction tgs arbitrary: m)
    case (Cons t tgs)
    then obtain pricing cost where p: "GetCurrentPricing rows (tg_ProviderType t) (tg_UpstreamModel t) = Some pricing"
      "estimatedTierCost pricing p c = Inr cost" "max_cost_from rows p c (if cost > m then cost else m) tgs = Inr est"
      by (auto split: option.splits elim!: bind_okE)
    from Cons.IH [OF p(3)] p(1,2) show ?case by (auto split: if_splits)
  qed simp
  then show "m \<le> est" and "tg \<in> set tgs \<Longrightarrow> \<exists>pricing cost. GetCurrentPricing rows (tg_ProviderType tg) (tg_UpstreamModel tg) = Some pricing
          \<and> estimatedTierCost pricing p c = Inr cost \<and> cost \<le> est" by blast+
qed

lemma GetCurrentPricing_in: "GetCurrentPricing rows p m = Some pr \<Longrightarrow> pr \<in> pr_pricing ` set rows"
proof -
  assume a: "GetCurrentPricing rows p m = Some pr"
  let ?l = "sort_key (\<lambda>r. - pr_EffectiveAt r) (filter (\<lambda>r. pr_ProviderType r = p \<and> pr_UpstreamModel r = m) rows)"
  from a obtain r rest where "?l = r # rest" "pr = pr_pricing r"
    by (auto simp: GetCurrentPricing_def split: list.splits)
  moreover have "set ?l \<subseteq> set rows" by auto
  ultimately show ?thesis by auto
qed

text \<open>C28: The reservation covers whichever deployment ends up serving the request: for every target
  of an admitted request and every consistent usage within the token bounds of the request, the
  cost computed for that target exists and is at most the reserved amount.\<close>

theorem reservation_covers_every_target:
  assumes "Admit rows now db_now req db = Inr (Some res, db')" and "\<forall>r \<in> set rows. pricing_ok (pr_pricing r)"
    and "is_i64 (ar_PromptTokens req)" and "is_i64 (ar_CompletionTokens req)"
    and "tg \<in> set (ar_Targets req)" and "tg_ProviderType tg \<noteq> []" and "tg_UpstreamModel tg \<noteq> []"
    and "usage_i64 u" and "consistent_usage u"
    and "PromptTokens u \<le> ar_PromptTokens req" and "CompletionTokens u \<le> ar_CompletionTokens req"
  shows "\<exists>cost. ComputeUsageCost rows (tg_ProviderType tg) (tg_UpstreamModel tg) u = Inr cost
    \<and> cost \<le> br_EstimatedCostMicrocents res"
proof -
  from assms(1) obtain est where est: "maxEstimatedCost rows (ar_PromptTokens req) (ar_CompletionTokens req) (ar_Targets req) = Inr est"
    and res: "br_EstimatedCostMicrocents res = est"
    by (elim Admit_Some) auto
  have "max_cost_from rows (ar_PromptTokens req) (ar_CompletionTokens req) 0 (ar_Targets req) = Inr est"
    using est by (auto simp: maxEstimatedCost_def split: if_splits)
  from max_cost_from_bounds(2) [OF this assms(5)] obtain p c where
    p: "GetCurrentPricing rows (tg_ProviderType tg) (tg_UpstreamModel tg) = Some p"
      "estimatedTierCost p (ar_PromptTokens req) (ar_CompletionTokens req) = Inr c" "c \<le> est" by blast
  have "pricing_ok p" using GetCurrentPricing_in [OF p(1)] assms(2) by auto
  from estimate_covers [OF assms(8,9) this assms(10,11,3,4) p(2)] p res assms(6,7) show ?thesis
    by (simp add: ComputeUsageCost_def no_error_def)
qed

theorem reservation_covers_every_target_witness:
  "\<exists>res db' cost. Admit sample_rows sample_now sample_now sample_request empty_ledger = Inr (Some res, db')
     \<and> ComputeUsageCost sample_rows ''openai'' ''gpt'' sample_usage = Inr cost \<and> cost \<le> br_EstimatedCostMicrocents res"
proof -
  obtain res db' where adm: "Admit sample_rows sample_now sample_now sample_request empty_ledger = Inr (Some res, db')"
    using sample_admitted by (rule admittedE)
  from reservation_covers_every_target [OF adm, of "\<lparr>tg_ProviderType = ''openai'', tg_UpstreamModel = ''gpt''\<rparr>" sample_usage]
  show ?thesis using adm sample_pricing_ok sample_usage_i64 sample_usage_consistent
    by (simp add: sample_rows_def sample_request_def i64_defs sample_usage_def)
qed

section \<open>Concurrent admissions\<close>

text \<open>The lock plans of a collection of admissions that run at the same time.\<close>

definition admit_plan :: "(admission_request \<times> team) list \<Rightarrow> nat \<Rightarrow> int list" where
  "admit_plan reqs p = admit_lock_keys (fst (reqs ! p)) (snd (reqs ! p))"

lemma sorted_admit_lock_keys: "sorted (admit_lock_keys req team)"
  by (simp add: admit_lock_keys_def)

lemma team_lock_in_plan: "teamLockKey (t_ID team) \<in> set (admit_lock_keys req team)"
  by (simp add: admit_lock_keys_def)

interpretation admissions: ordered_locking "{..<length reqs}" "admit_plan reqs" for reqs
  by unfold_locales (simp_all add: admit_plan_def sorted_admit_lock_keys)



end
