(* ===== verification/Accounting_Journal.thy ===== *)
theory Accounting_Journal
  imports Ledger_Store "HOL-Library.List_Lexorder" "HOL-Library.Char_ord"
begin

text \<open>
  The durable accounting of an inference (\<^verbatim>\<open>internal/store/accounting.go\<close>): an intent is
  journaled before any upstream call, marked when the upstream is contacted, and finalised once
  into a usage row and the settlement of its reservation, by the request itself or by the
  recovery of an interrupted one. \<open>now\<close> is the clock of the gateway, \<open>db_now\<close> the database's; the
  size of the JSON encoding of an entry is the argument \<open>json_len\<close> (\<open>None\<close> when it cannot be
  encoded), and decoding it gives the entry back. The identities that still exist at recovery
  are the argument \<open>live\<close>. Errors of the connection itself are not modelled.
\<close>

record usage_receipt =
  rc_ID :: int
  rc_CostCents :: int
  rc_CostMicrocents :: int
  rc_Accounting :: string

record identities =
  live_user :: "int \<Rightarrow> bool"
  live_key :: "int \<Rightarrow> int \<Rightarrow> bool"
  live_service_account :: "int \<Rightarrow> int \<Rightarrow> bool"
  live_customer :: "int \<Rightarrow> int \<Rightarrow> bool"

definition ErrAccountingConflict :: string where
  "ErrAccountingConflict = ''request ID already used''"

definition ErrNoRows :: string where
  "ErrNoRows = ''no rows in result set''"

definition find_journal :: "string \<Rightarrow> journal_row list \<Rightarrow> journal_row option" where
  "find_journal rid js = find (\<lambda>j. j_request_id j = rid) js"

definition BeginAccounting ::
  "(usage_entry \<Rightarrow> nat option) \<Rightarrow> gotime \<Rightarrow> gotime \<Rightarrow> usage_entry \<Rightarrow> duration \<Rightarrow> ledger \<Rightarrow> string + ledger" where
  "BeginAccounting json_len now db_now e remaining db =
     (if e_RequestID e = [] \<or> length (e_RequestID e) > 256 \<or> remaining \<le> 0 \<or> remaining > day_ns
      then Inl ''invalid accounting request ID or deadline''
      else let e' = e\<lparr>e_Ts := Some now\<rparr> in
        (case json_len e' of
           None \<Rightarrow> Inl ''json: cannot encode''
         | Some n \<Rightarrow>
             if n > 24576 then Inl ''accounting metadata exceeds capacity''
             else if list_ex (\<lambda>r. r_request_id r = e_RequestID e) (reservations db)
                  \<or> find_journal (e_RequestID e) (journal db) \<noteq> None
             then Inl ErrAccountingConflict
             else Inr (db\<lparr>journal := journal db @
               [\<lparr>j_request_id = e_RequestID e, j_team_id = e_TeamID e, j_entry = e', j_upstream_started = False,
                 j_recover_after = db_now + (remaining sdiv Millisecond) * Millisecond + 30 * Second,
                 j_state = ''pending'', j_usage_id = None, j_created_at = db_now, j_completed_at = None\<rparr>]\<rparr>)))"

definition startable :: "gotime \<Rightarrow> string \<Rightarrow> journal_row \<Rightarrow> bool" where
  "startable db_now rid j \<longleftrightarrow> j_request_id j = rid \<and> j_state j = ''pending'' \<and> j_recover_after j > db_now"

definition mark_row :: "gotime \<Rightarrow> string \<Rightarrow> journal_row \<Rightarrow> journal_row" where
  "mark_row db_now rid j = (if startable db_now rid j then j\<lparr>j_upstream_started := True\<rparr> else j)"

definition MarkAccountingStarted :: "gotime \<Rightarrow> string \<Rightarrow> ledger \<Rightarrow> string + ledger" where
  "MarkAccountingStarted db_now rid db =
     (if length (filter (startable db_now rid) (journal db)) \<noteq> 1
      then Inl ''accounting intent missing or expired''
      else Inr (db\<lparr>journal := map (mark_row db_now rid) (journal db)\<rparr>))"

definition classifyAccounting :: "usage_entry \<Rightarrow> string" where
  "classifyAccounting e =
     (if e_Accounting e \<noteq> [] then e_Accounting e
      else if str_contains (e_TokenDetails e) (CHR 0x22 # ''unpriced_'') then ''unpriced''
      else if e_Cached e \<or> e_StatusCode e \<ge> 400 \<and> e_CostCents e = 0
              \<and> (case e_CostMicrocents e of None \<Rightarrow> True | Some m \<Rightarrow> m = 0) then ''not_billable''
      else if e_CostCents e > 0 \<or> (case e_CostMicrocents e of None \<Rightarrow> False | Some m \<Rightarrow> m > 0) then ''priced''
      else ''unknown'')"

definition normalizeCost :: "usage_entry \<Rightarrow> string + usage_entry" where
  "normalizeCost e =
     (if e_CostCents e < 0 \<or> (case e_CostMicrocents e of None \<Rightarrow> False | Some m \<Rightarrow> m < 0)
      then Inl ''negative accounting cost''
      else (case e_CostMicrocents e of
              None \<Rightarrow> Inr e
            | Some m \<Rightarrow> (case CeilCents m of
                           Inl p \<Rightarrow> Inl ''panic''
                         | Inr c \<Rightarrow> Inr (e\<lparr>e_CostCents := c\<rparr>))))"

definition keep_live :: "(int \<Rightarrow> bool) \<Rightarrow> int option \<Rightarrow> int option" where
  "keep_live alive i = (case i of None \<Rightarrow> None | Some x \<Rightarrow> if alive x then Some x else None)"

text \<open>The entry recorded for an interrupted request.\<close>

definition recovered_entry :: "identities \<Rightarrow> gotime \<Rightarrow> usage_entry \<Rightarrow> usage_entry" where
  "recovered_entry live now base =
     base\<lparr>e_UserID := keep_live (live_user live) (e_UserID base),
          e_KeyID := keep_live (live_key live (e_TeamID base)) (e_KeyID base),
          e_ServiceAccountID := keep_live (live_service_account live (e_TeamID base)) (e_ServiceAccountID base),
          e_CustomerID := keep_live (live_customer live (e_TeamID base)) (e_CustomerID base),
          e_StatusCode := 503,
          e_Error := ''request_interrupted_or_unrecorded'',
          e_Accounting := (if e_Accounting base \<noteq> ''not_billable'' then ''unknown'' else e_Accounting base),
          e_LatencyMs := (case e_Ts base of Some ts \<Rightarrow> (now - ts) sdiv Millisecond
                                          | None \<Rightarrow> MaxInt64 sdiv Millisecond)\<rparr>"

definition not_started_entry :: "bool \<Rightarrow> usage_entry \<Rightarrow> usage_entry" where
  "not_started_entry started e =
     (if \<not> started then e\<lparr>e_CostCents := 0, e_CostMicrocents := Some 0, e_Accounting := ''not_billable''\<rparr> else e)"

text \<open>What the reservation, if there is one, makes of the entry; and its settlement.\<close>

definition settle_journal :: "gotime \<Rightarrow> journal_row \<Rightarrow> usage_entry \<Rightarrow> ledger \<Rightarrow> string + usage_entry \<times> ledger" where
  "settle_journal db_now j e db =
     (case find_reservation (j_request_id j) (reservations db) of
        None \<Rightarrow> Inr (e, db)
      | Some r \<Rightarrow>
          if r_status r = ''settled''
          then let acc = (if EffectiveMicrocents (e_CostCents e) (e_CostMicrocents e)
                              \<noteq> EffectiveMicrocents (r_settled_cost_cents r) (r_settled_cost_microcents r)
                             \<or> e_Accounting e = ''unknown''
                          then ''estimated'' else e_Accounting e)
               in Inr (e\<lparr>e_Accounting := acc, e_CostCents := r_settled_cost_cents r,
                         e_CostMicrocents := r_settled_cost_microcents r\<rparr>, db)
          else let e' = (if j_upstream_started j \<and> e_Accounting e \<in> {''unknown'', ''estimated'', ''unpriced''}
                         then e\<lparr>e_CostCents := r_estimated_cost_cents r,
                                e_CostMicrocents := r_estimated_cost_microcents r, e_Accounting := ''estimated''\<rparr>
                         else e)
               in bind_ok (settle_reservation (j_request_id j) (e_CostCents e') (e_CostMicrocents e') db_now db)
                    (\<lambda>(_, db'). Inr (e', db')))"

definition complete_row :: "string \<Rightarrow> int \<Rightarrow> gotime \<Rightarrow> journal_row \<Rightarrow> journal_row" where
  "complete_row rid i db_now j =
     (if j_request_id j = rid
      then j\<lparr>j_state := ''complete'', j_usage_id := Some i, j_completed_at := Some db_now\<rparr> else j)"

definition receipt_of :: "int \<Rightarrow> usage_entry \<Rightarrow> usage_receipt" where
  "receipt_of i e = \<lparr>rc_ID = i, rc_CostCents = e_CostCents e,
     rc_CostMicrocents = EffectiveMicrocents (e_CostCents e) (e_CostMicrocents e), rc_Accounting = e_Accounting e\<rparr>"

text \<open>The receipt of a finalised request, read back from its usage row.\<close>

definition completed_receipt :: "journal_row \<Rightarrow> ledger \<Rightarrow> string + usage_receipt" where
  "completed_receipt j db =
     (case j_usage_id j of
        None \<Rightarrow> Inl ''completed accounting entry was removed''
      | Some i \<Rightarrow>
          (case find (\<lambda>u. u_id u = i) (usage_log db) of
             None \<Rightarrow> Inl ErrNoRows
           | Some u \<Rightarrow> Inr \<lparr>rc_ID = u_id u, rc_CostCents = u_cost_cents u,
                rc_CostMicrocents = EffectiveMicrocents (u_cost_cents u) (u_cost_microcents u),
                rc_Accounting = u_accounting_state u\<rparr>))"

text \<open>The entry as it stands before the reservation is looked at.\<close>

definition prepared_entry :: "identities \<Rightarrow> gotime \<Rightarrow> journal_row \<Rightarrow> usage_entry \<Rightarrow> bool \<Rightarrow> usage_entry" where
  "prepared_entry live now j e recovering =
     (let e1 = (if recovering then recovered_entry live now (j_entry j) else e);
          e2 = e1\<lparr>e_AccountingID := j_request_id j, e_RequestID := j_request_id j, e_Ts := e_Ts (j_entry j)\<rparr>
      in not_started_entry (j_upstream_started j) (e2\<lparr>e_Accounting := classifyAccounting e2\<rparr>))"

definition finalizeJournal ::
  "identities \<Rightarrow> gotime \<Rightarrow> gotime \<Rightarrow> journal_row \<Rightarrow> usage_entry \<Rightarrow> bool \<Rightarrow> ledger \<Rightarrow> string + usage_receipt \<times> ledger" where
  "finalizeJournal live now db_now j e recovering db =
     (if \<not> recovering \<and> e_TeamID e \<noteq> e_TeamID (j_entry j) then Inl ''accounting principal mismatch''
      else if j_state j = ''complete'' then bind_ok (completed_receipt j db) (\<lambda>r. Inr (r, db))
      else
           bind_ok (normalizeCost (prepared_entry live now j e recovering)) (\<lambda>e4.
           bind_ok (settle_journal db_now j e4 db) (\<lambda>(e5, db1).
           bind_ok (insertUsage now e5 db1) (\<lambda>(i, db2).
           Inr (receipt_of i e5, db2\<lparr>journal := map (complete_row (j_request_id j) i db_now) (journal db2)\<rparr>)))))"

definition FinalizeUsage ::
  "identities \<Rightarrow> gotime \<Rightarrow> gotime \<Rightarrow> usage_entry \<Rightarrow> ledger \<Rightarrow> string + usage_receipt \<times> ledger" where
  "FinalizeUsage live now db_now e db =
     (if e_AccountingID e = []
      then bind_ok (normalizeCost (e\<lparr>e_Accounting := classifyAccounting e\<rparr>)) (\<lambda>e'.
           bind_ok (insertUsage now e' db) (\<lambda>(i, db'). Inr (receipt_of i e', db')))
      else (case find_journal (e_AccountingID e) (journal db) of
              None \<Rightarrow> Inl ErrNoRows
            | Some j \<Rightarrow> finalizeJournal live now db_now j e False db))"

section \<open>Recovery\<close>

definition recoverable :: "gotime \<Rightarrow> journal_row \<Rightarrow> bool" where
  "recoverable db_now j \<longleftrightarrow> j_state j = ''pending'' \<and> j_recover_after j < db_now"

text \<open>The rows one pass takes: the 64 oldest that no other replica has locked.\<close>

definition recovery_batch :: "(string \<Rightarrow> bool) \<Rightarrow> gotime \<Rightarrow> journal_row list \<Rightarrow> journal_row list" where
  "recovery_batch locked db_now js =
     take 64 (sort_key j_recover_after (sort_key j_request_id
       (filter (\<lambda>j. recoverable db_now j \<and> \<not> locked (j_request_id j)) js)))"

definition empty_entry :: usage_entry where
  "empty_entry = \<lparr>e_AccountingID = [], e_Accounting = [], e_TokenDetails = [], e_TeamID = 0, e_UserID = None,
     e_KeyID = None, e_CustomerID = None, e_CustomerExternalID = [], e_Alias = [], e_DeploymentName = [],
     e_RequestID = [], e_ModelRequested = [], e_ModelUsed = [], e_PromptTokens = 0, e_CompletionTokens = 0,
     e_TotalTokens = 0, e_CostCents = 0, e_CostMicrocents = None, e_LatencyMs = 0, e_QueueMs = 0,
     e_UpstreamMs = 0, e_TTFBMs = 0, e_PostprocessMs = 0, e_StatusCode = 0, e_Error = [], e_Cached = False,
     e_CacheOriginRequestID = [], e_RequestTags = [], e_ClientIP = [], e_ServiceAccountID = None, e_Ts = None\<rparr>"

definition recover_one :: "identities \<Rightarrow> gotime \<Rightarrow> gotime \<Rightarrow> journal_row \<Rightarrow> ledger \<Rightarrow> string + ledger" where
  "recover_one live now db_now j db =
     (case finalizeJournal live now db_now j empty_entry True db of
        Inl err \<Rightarrow> Inl (''reconcile accounting: '' @ err)
      | Inr (_, db') \<Rightarrow> Inr db')"

definition ReconcileAccounting ::
  "identities \<Rightarrow> (string \<Rightarrow> bool) \<Rightarrow> gotime \<Rightarrow> gotime \<Rightarrow> ledger \<Rightarrow> string + nat \<times> ledger" where
  "ReconcileAccounting live locked now db_now db =
     (let batch = recovery_batch locked db_now (journal db) in
      bind_ok (fold_ok (recover_one live now db_now) batch db) (\<lambda>db'. Inr (length batch, db')))"

definition AccountingCheckpoint :: "gotime \<Rightarrow> gotime option \<Rightarrow> ledger \<Rightarrow> gotime \<times> bool" where
  "AccountingCheckpoint db_now before db =
     (let cutoff = (case before of None \<Rightarrow> db_now | Some b \<Rightarrow> b) in
      (cutoff, list_ex (\<lambda>j. j_state j = ''pending'' \<and> j_created_at j \<le> cutoff) (journal db)))"

section \<open>The shape of a finalisation\<close>

definition cost_ok :: "usage_entry \<Rightarrow> bool" where
  "cost_ok e \<longleftrightarrow> 0 \<le> e_CostCents e \<and> microcents_exact (e_CostCents e) (e_CostMicrocents e)
     \<and> pred_option is_i64 (e_CostMicrocents e)"

lemma classifyAccounting_nonempty [simp]: "classifyAccounting e \<noteq> []"
  by (simp add: classifyAccounting_def)

lemma prepared_entry_fields [simp]:
  "e_AccountingID (prepared_entry live now j e b) = j_request_id j"
  "e_RequestID (prepared_entry live now j e b) = j_request_id j"
  "e_Ts (prepared_entry live now j e b) = e_Ts (j_entry j)"
  "e_Accounting (prepared_entry live now j e b) \<noteq> []"
  "e_TeamID (prepared_entry live now j e b) = (if b then e_TeamID (j_entry j) else e_TeamID e)"
  by (simp_all add: prepared_entry_def Let_def not_started_entry_def recovered_entry_def)

lemma prepared_entry_micro:
  "pred_option is_i64 (e_CostMicrocents (if b then j_entry j else e)) \<Longrightarrow>
   pred_option is_i64 (e_CostMicrocents (prepared_entry live now j e b))"
  by (auto simp: prepared_entry_def Let_def not_started_entry_def recovered_entry_def)

lemma normalizeCost_Inr:
  assumes "normalizeCost e = Inr e'" and "pred_option is_i64 (e_CostMicrocents e)"
  shows "cost_ok e'" and "\<exists>c. e' = e\<lparr>e_CostCents := c\<rparr>"
    and "amount (e_CostCents e') (e_CostMicrocents e') = amount (e_CostCents e) (e_CostMicrocents e)"
proof -
  have "cost_ok e' \<and> (\<exists>c. e' = e\<lparr>e_CostCents := c\<rparr>)
      \<and> amount (e_CostCents e') (e_CostMicrocents e') = amount (e_CostCents e) (e_CostMicrocents e)"
  proof (cases "e_CostMicrocents e")
    case None
    then have e': "e' = e" "0 \<le> e_CostCents e" using assms(1) by (simp_all add: normalizeCost_def split: if_splits)
    have "e = e\<lparr>e_CostCents := e_CostCents e\<rparr>" by simp
    then have "\<exists>c. e = e\<lparr>e_CostCents := c\<rparr>" ..
    with e' None show ?thesis by (simp add: cost_ok_def microcents_exact_def)
  next
    case (Some m)
    then obtain c where c: "0 \<le> m" "CeilCents m = Inr c" "e' = e\<lparr>e_CostCents := c\<rparr>"
      using assms(1) by (auto simp: normalizeCost_def split: if_splits sum.splits)
    have m: "is_i64 m" using assms(2) Some by simp
    show ?thesis
    proof (intro conjI)
      show "cost_ok e'" using Some m CeilCents_amount [OF c(1) m c(2)] by (simp add: c(3) cost_ok_def)
      show "\<exists>c. e' = e\<lparr>e_CostCents := c\<rparr>" using c(3) ..
      show "amount (e_CostCents e') (e_CostMicrocents e') = amount (e_CostCents e) (e_CostMicrocents e)"
        using Some by (simp add: c(3) amount_def)
    qed
  qed
  then show "cost_ok e'" "\<exists>c. e' = e\<lparr>e_CostCents := c\<rparr>"
    "amount (e_CostCents e') (e_CostMicrocents e') = amount (e_CostCents e) (e_CostMicrocents e)" by blast+
qed

lemma insertUsage_Inr:
  assumes "insertUsage now e db = Inr (i, db')" and "cost_ok e" and "e_Accounting e \<noteq> []"
  obtains e' ts where "insert_usage_row e' ts db = Inr (i, db')"
    "ts = (case e_Ts e of None \<Rightarrow> now | Some s \<Rightarrow> s)"
    "e' = e\<lparr>e_TokenDetails := e_TokenDetails e'\<rparr>"
proof -
  let ?e2 = "if TrimSpace (e_TokenDetails e) = ''null'' then e\<lparr>e_TokenDetails := []\<rparr> else e"
  have e2: "e_CostMicrocents ?e2 = e_CostMicrocents e" "e_CostCents ?e2 = e_CostCents e"
    "?e2 = e\<lparr>e_TokenDetails := e_TokenDetails ?e2\<rparr>" by simp_all
  have "insert_usage_row ?e2 (case e_Ts e of None \<Rightarrow> now | Some s \<Rightarrow> s) db = Inr (i, db')"
  proof (cases "e_CostMicrocents e")
    case None
    then show ?thesis using assms(1,3) by (simp add: insertUsage_def Let_def split: if_splits)
  next
    case (Some m)
    have m: "0 \<le> m" "is_i64 m" "CeilCents m = Inr (e_CostCents e)"
      using assms(2) Some by (simp_all add: cost_ok_def microcents_exact_def CeilCents_eq)
    have "?e2\<lparr>e_CostCents := e_CostCents e\<rparr> = ?e2" by simp
    then show ?thesis using assms(1,3) Some m by (simp add: insertUsage_def Let_def split: if_splits)
  qed
  with that e2(3) show thesis by blast
qed

lemma finalizeJournal_pending:
  assumes "finalizeJournal live now db_now j e b db = Inr (rc, db')" and "j_state j \<noteq> ''complete''"
    and "pred_option is_i64 (e_CostMicrocents (if b then j_entry j else e))"
  obtains e4 e5 db1 i db2 where
    "normalizeCost (prepared_entry live now j e b) = Inr e4" "settle_journal db_now j e4 db = Inr (e5, db1)"
    "insertUsage now e5 db1 = Inr (i, db2)" "rc = receipt_of i e5"
    "db' = db2\<lparr>journal := map (complete_row (j_request_id j) i db_now) (journal db2)\<rparr>"
    "b \<or> e_TeamID e = e_TeamID (j_entry j)"
  using assms by (auto simp: finalizeJournal_def split: if_splits elim!: bind_okE intro: that)

section \<open>The effect of a finalisation\<close>

definition journal_inv :: "ledger \<Rightarrow> bool" where
  "journal_inv db \<longleftrightarrow> distinct (map j_request_id (journal db))
     \<and> (\<forall>j \<in> set (journal db). j_request_id j \<noteq> [] \<and> (j_state j = ''pending'' \<or> j_state j = ''complete''))
     \<and> (\<forall>j \<in> set (journal db). j_state j = ''complete'' \<longrightarrow>
          (\<exists>u \<in> set (usage_log db). j_usage_id j = Some (u_id u) \<and> u_accounting_id u = Some (j_request_id j)))
     \<and> (\<forall>u \<in> set (usage_log db). \<forall>rid. u_accounting_id u = Some rid \<longrightarrow>
          (\<exists>j \<in> set (journal db). j_request_id j = rid \<and> j_state j = ''complete''))"

lemma find_journal_Some:
  assumes "find_journal rid js = Some j"
  shows "j \<in> set js" and "j_request_id j = rid"
  using assms by (auto simp: find_journal_def find_Some_iff)

lemma find_journal_unique:
  "distinct (map j_request_id js) \<Longrightarrow> j \<in> set js \<Longrightarrow> find_journal (j_request_id j) js = Some j"
  by (induction js) (auto simp: find_journal_def)

lemma settle_success_i64:
  assumes "settle_reservation rid c m now db = Inr (Some r, db')" and "pred_option is_i64 m"
  shows "is_i64 (amount c m)"
  using assms(1)
proof (cases rule: settle_reservation_Inr)
  case (settled old t)
  have "r_request_id old = rid" using find_reservation_Some(2) [OF settled(1)] .
  then have "\<exists>x. pg_amount c m = Inr x"
    using settled(2,5)
    by (auto simp: reservation_trigger_settle_def reservation_charge_def settle_row_def elim!: bind_okE)
  then show ?thesis using assms(2) by (auto simp: pg_amount_def amount_def split: option.splits)
qed simp

lemma EffectiveMicrocents_amount: "is_i64 (amount c m) \<Longrightarrow> EffectiveMicrocents c m = amount c m"
  by (cases m) (simp_all add: amount_def EffectiveMicrocents_history)

definition reservation_teams :: "ledger \<Rightarrow> (string \<times> int) list" where
  "reservation_teams db = map (\<lambda>r. (r_request_id r, r_team_id r)) (reservations db)"

lemma settle_reservation_frame [frame_simps]:
  assumes "settle_reservation rid c m now db = Inr (res, db')"
  shows "usage_log db' = usage_log db" "journal db' = journal db" "next_usage_id db' = next_usage_id db"
    "reservation_teams db' = reservation_teams db"
  using assms by (auto simp: reservation_teams_def elim!: settle_reservation_Inr)

text \<open>The entry as charged, and what remains of the reservation.\<close>

lemma settle_journal_none:
  assumes "settle_journal db_now j e db = Inr (e', db1)" and "find_reservation (j_request_id j) (reservations db) = None"
  shows "e' = e" "db1 = db"
  using assms by (simp_all add: settle_journal_def)

lemma settle_journal_settled:
  assumes "settle_journal db_now j e db = Inr (e', db1)" and "find_reservation (j_request_id j) (reservations db) = Some r"
    and "r_status r = ''settled''"
  shows "db1 = db" "e_CostCents e' = r_settled_cost_cents r" "e_CostMicrocents e' = r_settled_cost_microcents r"
    "e' = e\<lparr>e_Accounting := e_Accounting e', e_CostCents := e_CostCents e', e_CostMicrocents := e_CostMicrocents e'\<rparr>"
    "e_Accounting e \<noteq> [] \<Longrightarrow> e_Accounting e' \<noteq> []"
  using assms by (auto simp: settle_journal_def Let_def split: if_splits)

lemma settle_journal_reserved:
  assumes "settle_journal db_now j e db = Inr (e', db1)" and "find_reservation (j_request_id j) (reservations db) = Some r"
    and "r_status r \<noteq> ''settled''"
  obtains res where "settle_reservation (j_request_id j) (e_CostCents e') (e_CostMicrocents e') db_now db = Inr (res, db1)"
    "e' = (if j_upstream_started j \<and> e_Accounting e \<in> {''unknown'', ''estimated'', ''unpriced''}
           then e\<lparr>e_CostCents := r_estimated_cost_cents r, e_CostMicrocents := r_estimated_cost_microcents r,
                  e_Accounting := ''estimated''\<rparr> else e)"
  using assms by (auto simp: settle_journal_def Let_def elim!: bind_okE split: if_splits intro: that)

lemma reservation_cost_ok:
  assumes "reservation_ok r"
  shows "r_status r = ''settled'' \<Longrightarrow> microcents_exact (r_settled_cost_cents r) (r_settled_cost_microcents r)
      \<and> 0 \<le> r_settled_cost_cents r \<and> pred_option is_i64 (r_settled_cost_microcents r)
      \<and> amount (r_settled_cost_cents r) (r_settled_cost_microcents r) = r_charge r"
    and "r_status r = ''reserved'' \<Longrightarrow> microcents_exact (r_estimated_cost_cents r) (r_estimated_cost_microcents r)
      \<and> 0 \<le> r_estimated_cost_cents r \<and> pred_option is_i64 (r_estimated_cost_microcents r)
      \<and> amount (r_estimated_cost_cents r) (r_estimated_cost_microcents r) = r_charge r"
  using assms
  by (auto simp: reservation_ok_def reservation_exact_def r_charge_def amount_def microcents_exact_def
      pos_imp_zdiv_nonneg_iff split: option.splits if_splits)

text \<open>What a settlement through the journal leaves behind: the ledger invariant, an entry that
  differs from the given one in its cost and classification only, and, when there is a
  reservation, that reservation settled at exactly the cost of the entry.\<close>

definition same_but_cost :: "usage_entry \<Rightarrow> usage_entry \<Rightarrow> bool" where
  "same_but_cost e e' \<longleftrightarrow> (\<exists>a c m. e' = e\<lparr>e_Accounting := a, e_CostCents := c, e_CostMicrocents := m\<rparr>)"

definition entry_amount :: "usage_entry \<Rightarrow> int" where
  "entry_amount e = amount (e_CostCents e) (e_CostMicrocents e)"

definition settled_at :: "string \<Rightarrow> int \<Rightarrow> ledger \<Rightarrow> ledger \<Rightarrow> bool" where
  "settled_at rid a db db1 \<longleftrightarrow> (\<forall>r. find_reservation rid (reservations db) = Some r \<longrightarrow>
     (\<exists>r'. find_reservation rid (reservations db1) = Some r' \<and> r_status r' = ''settled''
        \<and> r_charge r' = a \<and> r_team_id r' = r_team_id r)
     \<and> (\<forall>k. spent db1 k = spent db k + (if counts_for (r_subjects r) (r_created_at r) k then a - r_charge r else 0)))"

definition journal_settled :: "string \<Rightarrow> usage_entry \<Rightarrow> usage_entry \<Rightarrow> ledger \<Rightarrow> ledger \<Rightarrow> bool" where
  "journal_settled rid e e' db db1 \<longleftrightarrow> ledger_inv db1 \<and> cost_ok e' \<and> e_Accounting e' \<noteq> [] \<and> same_but_cost e e'
     \<and> usage_log db1 = usage_log db \<and> journal db1 = journal db \<and> next_usage_id db1 = next_usage_id db
     \<and> reservation_teams db1 = reservation_teams db
     \<and> (find_reservation rid (reservations db) = None \<longrightarrow> e' = e \<and> db1 = db)
     \<and> (find_reservation rid (reservations db) \<noteq> None \<longrightarrow> is_i64 (entry_amount e'))
     \<and> settled_at rid (entry_amount e') db db1"

lemma same_but_costI:
  "e' = e\<lparr>e_Accounting := e_Accounting e', e_CostCents := e_CostCents e', e_CostMicrocents := e_CostMicrocents e'\<rparr>
   \<Longrightarrow> same_but_cost e e'"
  unfolding same_but_cost_def by blast

lemma same_but_cost_refl: "same_but_cost e e"
  by (rule same_but_costI) simp

lemma journal_settled_already:
  assumes "ledger_inv db" and "settle_journal db_now j e db = Inr (e', db1)" and "e_Accounting e \<noteq> []"
    and "find_reservation (j_request_id j) (reservations db) = Some r" and "r_status r = ''settled''"
  shows "journal_settled (j_request_id j) e e' db db1"
proof -
  have rok: "reservation_ok r" using ledger_inv_reservation [OF assms(1)] find_reservation_Some [OF assms(4)] by simp
  note s = settle_journal_settled [OF assms(2,4,5)] and rc = reservation_cost_ok(1) [OF rok assms(5)]
  have ea: "entry_amount e' = r_charge r" using rc s(2,3) by (simp add: entry_amount_def)
  have "settled_at (j_request_id j) (entry_amount e') db db1"
    using assms(4,5) s(1) by (simp add: settled_at_def ea)
  moreover have "cost_ok e'" using rc s by (simp add: cost_ok_def)
  moreover have "is_i64 (entry_amount e')" using rok by (simp add: ea reservation_ok_def)
  ultimately show ?thesis
    using assms(1,3,4) s(1) s(5) same_but_costI [OF s(4)] by (simp add: journal_settled_def)
qed

lemma journal_settled_now:
  assumes inv: "ledger_inv db" and st: "settle_journal db_now j e db = Inr (e', db1)" and ok: "cost_ok e"
    and acc: "e_Accounting e \<noteq> []" and r: "find_reservation (j_request_id j) (reservations db) = Some r"
    and res: "r_status r = ''reserved''"
  shows "journal_settled (j_request_id j) e e' db db1"
proof -
  have rok: "reservation_ok r" using ledger_inv_reservation [OF inv] find_reservation_Some [OF r] by simp
  have ns: "r_status r \<noteq> ''settled''" using res by simp
  obtain row where row: "settle_reservation (j_request_id j) (e_CostCents e') (e_CostMicrocents e') db_now db = Inr (row, db1)"
    and e': "e' = (if j_upstream_started j \<and> e_Accounting e \<in> {''unknown'', ''estimated'', ''unpriced''}
       then e\<lparr>e_CostCents := r_estimated_cost_cents r, e_CostMicrocents := r_estimated_cost_microcents r,
              e_Accounting := ''estimated''\<rparr> else e)"
    by (rule settle_journal_reserved [OF st r ns])
  have ok': "cost_ok e'" using ok reservation_cost_ok(2) [OF rok res] e' by (simp add: cost_ok_def)
  have sbc: "same_but_cost e e'" by (rule same_but_costI) (simp add: e')
  have acc': "e_Accounting e' \<noteq> []" using acc e' by simp
  show ?thesis using row
  proof (cases rule: settle_reservation_Inr)
    case noop
    then show ?thesis using r res by simp
  next
    case (settled old t)
    let ?new = "settle_row (j_request_id j) (e_CostCents e') (e_CostMicrocents e') db_now r"
    have old: "old = r" using settled(1) r by simp
    have rid: "r_request_id r = j_request_id j" using find_reservation_Some(2) [OF r] .
    have i64: "is_i64 (entry_amount e')"
      using settle_success_i64 [OF row [unfolded settled(3)]] ok' by (simp add: cost_ok_def entry_amount_def)
    have "0 \<le> entry_amount e'" using ok' by (simp add: cost_ok_def amount_nonneg entry_amount_def)
    then have inv1: "ledger_inv db1" using settle_reservation_inv [OF inv row] i64 by (simp add: entry_amount_def)
    have "?new \<in> set (reservations db1)" using find_reservation_Some(1) [OF r] by (simp add: settled(6))
    from find_reservation_unique [OF ledger_inv_distinct [OF inv1] this]
    have f: "find_reservation (j_request_id j) (reservations db1) = Some ?new" by (simp add: rid)
    have new: "r_status ?new = ''settled''" "r_charge ?new = entry_amount e'"
      using r_charge_settled [OF rid res] rid res by (simp_all add: entry_amount_def) (simp add: settle_row_def)
    have "settled_at (j_request_id j) (entry_amount e') db db1"
      unfolding settled_at_def using f new r
        spent_settle [OF ledger_inv_distinct [OF inv] settled(1,2), where t = t]
      by (simp add: settled(6) old entry_amount_def)
    then show ?thesis using inv1 ok' acc' sbc r i64 settle_reservation_frame [OF row]
      by (simp add: journal_settled_def)
  qed
qed

lemma settle_journal_effect:
  assumes inv: "ledger_inv db" and st: "settle_journal db_now j e db = Inr (e', db1)" and ok: "cost_ok e"
    and acc: "e_Accounting e \<noteq> []"
  shows "journal_settled (j_request_id j) e e' db db1"
proof (cases "find_reservation (j_request_id j) (reservations db)")
  case None
  with settle_journal_none [OF st None] inv ok acc same_but_cost_refl [of e] show ?thesis
    by (simp add: journal_settled_def settled_at_def)
next
  case (Some r)
  have "reservation_ok r" using ledger_inv_reservation [OF inv] find_reservation_Some [OF Some] by simp
  then consider "r_status r = ''settled''" | "r_status r = ''reserved''" by (auto simp: reservation_ok_def)
  then show ?thesis
    using journal_settled_already [OF inv st acc Some] journal_settled_now [OF inv st ok acc Some] by cases
qed

text \<open>The usage row of the request: always a new one, since only finalised requests have one.\<close>

lemma pending_no_conflict:
  assumes "journal_inv db" and "find_journal rid (journal db) = Some j" and "j_state j \<noteq> ''complete''"
    and "e_AccountingID e = rid" and "usage_log db1 = usage_log db"
  shows "usage_conflict e db1 = None"
proof (rule ccontr)
  assume "usage_conflict e db1 \<noteq> None"
  then obtain u where u: "u \<in> set (usage_log db)" "u_accounting_id u = Some rid"
    using usage_conflict_Some assms(4,5) by (metis not_None_eq)
  then obtain j' where j': "j' \<in> set (journal db)" "j_request_id j' = rid" "j_state j' = ''complete''"
    using assms(1) unfolding journal_inv_def by blast
  have "distinct (map j_request_id (journal db))" using assms(1) by (simp add: journal_inv_def)
  from find_journal_unique [OF this j'(1)] j'(2,3) assms(2,3) show False by simp
qed

lemma find_last_id:
  assumes "\<forall>u \<in> set us. u_id u < i" and "u_id row = i"
  shows "find (\<lambda>u. u_id u = i) (us @ [row]) = Some row"
  using assms by (induction us) auto

lemma journal_inv_complete:
  assumes inv: "journal_inv db" and j: "find_journal rid (journal db) = Some j"
    and row: "u_id row = i" "u_accounting_id row = Some rid"
    and log: "usage_log db' = usage_log db @ [row]" and jr: "journal db' = map (complete_row rid i t) (journal db)"
  shows "journal_inv db'" and "find_journal rid (journal db') = Some (complete_row rid i t j)"
proof -
  have ids: "map j_request_id (map (complete_row rid i t) (journal db)) = map j_request_id (journal db)"
    by (simp add: complete_row_def)
  have dist: "distinct (map j_request_id (journal db'))" using inv by (simp only: jr ids journal_inv_def)
  have "complete_row rid i t j \<in> set (journal db')" using find_journal_Some(1) [OF j] by (simp add: jr)
  from find_journal_unique [OF dist this] find_journal_Some(2) [OF j]
  show f: "find_journal rid (journal db') = Some (complete_row rid i t j)" by (simp add: complete_row_def)
  have a: "j_request_id q \<noteq> [] \<and> (j_state q = ''pending'' \<or> j_state q = ''complete'')" if "q \<in> set (journal db')" for q
    using that inv by (auto simp: jr journal_inv_def complete_row_def)
  have b: "\<exists>u \<in> set (usage_log db'). j_usage_id q = Some (u_id u) \<and> u_accounting_id u = Some (j_request_id q)"
    if q: "q \<in> set (journal db')" "j_state q = ''complete''" for q
  proof -
    from q(1) obtain q0 where q0: "q0 \<in> set (journal db)" "q = complete_row rid i t q0" by (auto simp: jr)
    show ?thesis
    proof (cases "j_request_id q0 = rid")
      case True
      then show ?thesis using q0(2) row by (auto simp: complete_row_def log)
    next
      case False
      then have "q = q0" using q0(2) by (simp add: complete_row_def)
      then show ?thesis using inv q(2) q0(1) by (auto simp: journal_inv_def log)
    qed
  qed
  have c: "\<exists>q \<in> set (journal db'). j_request_id q = r \<and> j_state q = ''complete''"
    if u: "u \<in> set (usage_log db')" "u_accounting_id u = Some r" for u r
  proof (cases "r = rid")
    case True
    then have "j_request_id (complete_row rid i t j) = r" "j_state (complete_row rid i t j) = ''complete''"
      using find_journal_Some(2) [OF j] by (simp_all add: complete_row_def)
    with \<open>complete_row rid i t j \<in> set (journal db')\<close> show ?thesis by blast
  next
    case False
    then have "u \<in> set (usage_log db)" using u row by (auto simp: log)
    then obtain q where "q \<in> set (journal db)" "j_request_id q = r" "j_state q = ''complete''"
      using inv u(2) unfolding journal_inv_def by blast
    then have "complete_row rid i t q \<in> set (journal db')" "j_request_id (complete_row rid i t q) = r"
      "j_state (complete_row rid i t q) = ''complete''"
      by (simp_all add: jr complete_row_def)
    then show ?thesis by blast
  qed
  show "journal_inv db'" unfolding journal_inv_def using dist a b c by blast
qed

text \<open>The state after a pending request is finalised with the entry \<open>e5\<close>.\<close>

definition finalised_as :: "string \<Rightarrow> usage_entry \<Rightarrow> usage_receipt \<Rightarrow> ledger \<Rightarrow> ledger \<Rightarrow> bool" where
  "finalised_as rid e5 rc db db' \<longleftrightarrow> ledger_inv db' \<and> journal_inv db' \<and> is_i64 (entry_amount e5)
     \<and> reservation_teams db' = reservation_teams db
     \<and> rc_CostMicrocents rc = entry_amount e5 \<and> rc_Accounting rc = e_Accounting e5
     \<and> settled_at rid (entry_amount e5) db db'
     \<and> (find_reservation rid (reservations db) = None \<longrightarrow>
         (\<forall>k. spent db' k = spent db k + (if counts_for (u_subjects (last (usage_log db'))) (u_ts (last (usage_log db'))) k
            then entry_amount e5 else 0)))"

lemma spent_journal [simp]: "spent (db\<lparr>journal := js\<rparr>) k = spent db k"
  by (simp add: spent_def)

lemma ledger_inv_journal [simp]: "ledger_inv (db\<lparr>journal := js\<rparr>) = ledger_inv db"
  by (simp add: ledger_inv_def accounting_ids_def)

lemma charged_amount_i64:
  assumes "charge_usage rs 1 u t = Inr t'" and "\<not> covered rs (u_request_id u) (u_team_id u)" and "usage_ok u"
  shows "is_i64 (u_charge u)"
proof (cases "u_cost_cents u = 0")
  case True
  then show ?thesis using assms(3) amount_zero by (simp add: usage_ok_def u_charge_def)
next
  case False
  then have "\<exists>a. pg_amount (u_cost_cents u) (u_cost_microcents u) = Inr a"
    using assms(1,2) by (auto simp: charge_usage_def)
  then show ?thesis using assms(3)
    by (auto simp: pg_amount_def u_charge_def amount_def usage_ok_def split: option.splits)
qed

lemma u_parts_covered:
  "covered rs (u_request_id u) (u_team_id u) \<Longrightarrow> u_part rs k u = 0"
  by (simp add: u_part_def)

lemma covered_by: "find_reservation rid rs = Some r \<Longrightarrow> r_team_id r = team \<Longrightarrow> covered rs rid team"
  by (auto simp: find_reservation_def covered_def list_ex_iff find_Some_iff)

lemma not_covered_by: "find_reservation rid rs = None \<Longrightarrow> \<not> covered rs rid team"
  by (auto simp: find_reservation_None covered_def list_ex_iff)

lemma settled_at_trans:
  assumes "settled_at rid a db db1" and "reservations db2 = reservations db1" and "\<And>k. find_reservation rid (reservations db) \<noteq> None \<Longrightarrow> spent db2 k = spent db1 k"
  shows "settled_at rid a db db2"
  using assms by (auto simp: settled_at_def)

lemma finalize_usage_row:
  assumes set: "journal_settled rid e4 e5 db db1" and ins: "insertUsage now e5 db1 = Inr (i, db2)"
    and acc: "e_AccountingID e4 = rid" "e_RequestID e4 = rid"
    and fresh: "\<And>e. e_AccountingID e = rid \<Longrightarrow> usage_conflict e db1 = None" and rid: "rid \<noteq> []"
    and team: "\<And>r. find_reservation rid (reservations db) = Some r \<Longrightarrow> r_team_id r = e_TeamID e4"
  obtains row where "usage_log db2 = usage_log db @ [row]" "u_id row = i" "i = next_usage_id db"
    "u_accounting_id row = Some rid" "u_cost_cents row = e_CostCents e5" "u_cost_microcents row = e_CostMicrocents e5"
    "u_accounting_state row = e_Accounting e5"
    "ledger_inv db2" "journal db2 = journal db" "reservations db2 = reservations db1"
    "is_i64 (entry_amount e5)" "find_reservation rid (reservations db) \<noteq> None \<Longrightarrow> spent db2 = spent db1"
    "find_reservation rid (reservations db) = None \<Longrightarrow>
       \<forall>k. spent db2 k = spent db k + (if counts_for (u_subjects row) (u_ts row) k then entry_amount e5 else 0)"
proof -
  note s = set [unfolded journal_settled_def]
  obtain e' ts where row: "insert_usage_row e' ts db1 = Inr (i, db2)" and e': "e' = e5\<lparr>e_TokenDetails := e_TokenDetails e'\<rparr>"
    using insertUsage_Inr [OF ins] s by metis
  have f: "e_AccountingID e' = rid" "e_RequestID e' = rid" "e_TeamID e' = e_TeamID e4" "e_CostCents e' = e_CostCents e5"
    "e_CostMicrocents e' = e_CostMicrocents e5" "e_Accounting e' = e_Accounting e5"
    using s acc by (auto simp: same_but_cost_def) (subst e', simp)+
  have inv1: "ledger_inv db1" using s by blast
  have "entry_cost_ok e'" using s f by (simp add: entry_cost_ok_def cost_ok_def)
  from insert_usage_row_inv [OF inv1 row this] have inv2: "ledger_inv db2" .
  let ?row = "usage_row_of (next_usage_id db1) e' ts"
  have rf: "u_request_id ?row = rid" "u_team_id ?row = e_TeamID e4" "u_charge ?row = entry_amount e5"
    using f rid by (simp_all add: usage_row_of_def u_charge_def entry_amount_def)
  show thesis using row
  proof (cases rule: insert_usage_row_Inr)
    case (fresh t)
    have ok: "usage_ok ?row" using s f fresh(3) by (simp add: usage_ok_def cost_ok_def usage_row_of_def)
    have i64: "is_i64 (entry_amount e5)"
    proof (cases "find_reservation rid (reservations db)")
      case None
      then have "db1 = db" using s by blast
      with None not_covered_by show ?thesis
        using charged_amount_i64 [OF fresh(4) [unfolded usage_trigger_insert_def] _ ok] rf by simp
    next
      case (Some r)
      then show ?thesis using s by blast
    qed
    have sp: "spent db2 k = spent db1 k + u_part (reservations db1) k ?row" for k
      using spent_insert_usage [OF inv1 row, of k] fresh(1) by simp
    have "spent db2 = spent db1" if some: "find_reservation rid (reservations db) \<noteq> None"
    proof -
      from some obtain r where r: "find_reservation rid (reservations db) = Some r" by blast
      then obtain r' where r': "find_reservation rid (reservations db1) = Some r'" "r_team_id r' = r_team_id r"
        using s unfolding settled_at_def by blast
      have "covered (reservations db1) rid (e_TeamID e4)"
        using covered_by [OF r'(1)] r'(2) team [OF r] by simp
      then show ?thesis using sp rf by (simp add: fun_eq_iff u_parts_covered)
    qed
    moreover have "\<forall>k. spent db2 k = spent db k + (if counts_for (u_subjects ?row) (u_ts ?row) k then entry_amount e5 else 0)"
      if none: "find_reservation rid (reservations db) = None"
    proof -
      have "db1 = db" using s none by blast
      then show ?thesis using sp rf not_covered_by [OF none] by (simp add: u_part_def)
    qed
    ultimately show thesis
      using s fresh f inv2 i64 rid by (intro that [of ?row]) (simp_all add: usage_row_of_def)
  next
    case (known old t)
    then show thesis using assms(5) [OF f(1)] by simp
  qed
qed

text \<open>The whole finalisation.\<close>

lemma finalizeJournal_effect:
  assumes inv: "ledger_inv db" "journal_inv db" and j: "find_journal rid (journal db) = Some j"
    and pending: "j_state j \<noteq> ''complete''"
    and fin: "finalizeJournal live now db_now j e b db = Inr (rc, db')"
    and i64: "pred_option is_i64 (e_CostMicrocents (if b then j_entry j else e))"
    and team: "\<And>r. find_reservation rid (reservations db) = Some r \<Longrightarrow> r_team_id r = e_TeamID (j_entry j)"
  obtains e4 e5 db1 i where "normalizeCost (prepared_entry live now j e b) = Inr e4"
    "settle_journal db_now j e4 db = Inr (e5, db1)" "journal_settled rid e4 e5 db db1"
    "finalised_as rid e5 rc db db'" "find_journal rid (journal db') = Some (complete_row rid i db_now j)"
    "completed_receipt (complete_row rid i db_now j) db' = Inr rc"
    "journal db' = map (complete_row rid i db_now) (journal db)"
proof -
  have rid: "j_request_id j = rid" "rid \<noteq> []" using find_journal_Some [OF j] inv(2) by (auto simp: journal_inv_def)
  obtain e4 e5 db1 i db2 where n: "normalizeCost (prepared_entry live now j e b) = Inr e4"
    and st: "settle_journal db_now j e4 db = Inr (e5, db1)" and ins: "insertUsage now e5 db1 = Inr (i, db2)"
    and rc: "rc = receipt_of i e5" and db': "db' = db2\<lparr>journal := map (complete_row (j_request_id j) i db_now) (journal db2)\<rparr>"
    and tm: "b \<or> e_TeamID e = e_TeamID (j_entry j)"
    by (rule finalizeJournal_pending [OF fin pending i64])
  have ok4: "cost_ok e4" and e4: "\<exists>c. e4 = (prepared_entry live now j e b)\<lparr>e_CostCents := c\<rparr>"
    using normalizeCost_Inr [OF n prepared_entry_micro [OF i64]] by blast+
  have f4: "e_AccountingID e4 = rid" "e_RequestID e4 = rid" "e_Accounting e4 \<noteq> []" "e_TeamID e4 = e_TeamID (j_entry j)"
    using e4 tm rid by auto
  have set: "journal_settled rid e4 e5 db db1"
    using settle_journal_effect [OF inv(1) st ok4 f4(3)] rid by simp
  have log1: "usage_log db1 = usage_log db" using set by (simp add: journal_settled_def)
  obtain row where row: "usage_log db2 = usage_log db @ [row]" "u_id row = i" "i = next_usage_id db"
    "u_accounting_id row = Some rid" "u_cost_cents row = e_CostCents e5" "u_cost_microcents row = e_CostMicrocents e5"
    "u_accounting_state row = e_Accounting e5"
    and inv2: "ledger_inv db2" "journal db2 = journal db" "reservations db2 = reservations db1" and i64: "is_i64 (entry_amount e5)"
    and sp: "find_reservation rid (reservations db) \<noteq> None \<Longrightarrow> spent db2 = spent db1"
      "find_reservation rid (reservations db) = None \<Longrightarrow>
       \<forall>k. spent db2 k = spent db k + (if counts_for (u_subjects row) (u_ts row) k then entry_amount e5 else 0)"
    using finalize_usage_row [OF set ins f4(1,2) pending_no_conflict [OF inv(2) j pending _ log1] rid(2)] team f4(4)
    by (metis (no_types, lifting))
  have log': "usage_log db' = usage_log db @ [row]" "journal db' = map (complete_row rid i db_now) (journal db)"
    using row(1) inv2(2) rid(1) by (simp_all add: db')
  note jc = journal_inv_complete [OF inv(2) j row(2,4) log']
  have at: "settled_at rid (entry_amount e5) db db1" using set by (simp add: journal_settled_def)
  have "settled_at rid (entry_amount e5) db db'"
    by (rule settled_at_trans [OF at]) (use sp(1) inv2(3) in \<open>simp_all add: db'\<close>)
  moreover have eff: "EffectiveMicrocents (e_CostCents e5) (e_CostMicrocents e5) = entry_amount e5"
    using i64 by (simp add: entry_amount_def EffectiveMicrocents_amount)
  moreover have "reservation_teams db' = reservation_teams db"
    using set inv2(3) by (simp add: journal_settled_def reservation_teams_def db')
  ultimately have fa: "finalised_as rid e5 rc db db'"
    using inv2(1) jc(1) i64 sp(2) by (auto simp: finalised_as_def rc receipt_of_def log'(1)) (simp_all add: db')
  have "completed_receipt (complete_row rid i db_now j) db' = Inr rc"
    using find_last_id [OF _ row(2)] ledger_inv_ids [OF inv(1)] row rid(1)
    by (simp add: completed_receipt_def complete_row_def log'(1) rc receipt_of_def)
  with that n st set fa jc(2) log'(2) show thesis by blast
qed

section \<open>What callers rely on\<close>

text \<open>The journal and the reservations belong together: a reservation carries the team of the
  journaled request, and the journaled amounts are 64-bit.\<close>

definition journal_matches :: "ledger \<Rightarrow> bool" where
  "journal_matches db \<longleftrightarrow> (\<forall>j \<in> set (journal db). pred_option is_i64 (e_CostMicrocents (j_entry j))
     \<and> (\<forall>rt \<in> set (reservation_teams db). fst rt = j_request_id j \<longrightarrow> snd rt = e_TeamID (j_entry j)))"

lemma journal_matches_team:
  assumes "journal_matches db" and "find_journal rid (journal db) = Some j" and "find_reservation rid (reservations db) = Some r"
  shows "r_team_id r = e_TeamID (j_entry j)"
  using assms find_journal_Some [OF assms(2)] find_reservation_Some [OF assms(3)]
  by (auto simp: journal_matches_def reservation_teams_def)

lemma complete_row_entry [simp]: "j_entry (complete_row rid i t j) = j_entry j" "j_request_id (complete_row rid i t j) = j_request_id j"
  by (simp_all add: complete_row_def)

lemma journal_matches_complete:
  assumes "journal_matches db" and "journal db' = map (complete_row rid i t) (journal db)"
    and "reservation_teams db' = reservation_teams db"
  shows "journal_matches db'"
  using assms by (auto simp: journal_matches_def)

lemma FinalizeUsage_journaled:
  assumes "e_AccountingID e = rid" and "find_journal rid (journal db) = Some j" and "rid \<noteq> []"
  shows "FinalizeUsage live now db_now e db = finalizeJournal live now db_now j e False db"
  using assms by (simp add: FinalizeUsage_def)

lemma BeginAccounting_inv [inv_intros]:
  assumes "BeginAccounting json_len now db_now e remaining db = Inr db'" and "ledger_inv db" and "journal_inv db"
  shows "ledger_inv db'" and "journal_inv db'"
proof -
  obtain row where db': "db' = db\<lparr>journal := journal db @ [row]\<rparr>"
    and row: "j_request_id row = e_RequestID e" "j_state row = ''pending''" "e_RequestID e \<noteq> []"
      "find_journal (e_RequestID e) (journal db) = None"
    using assms(1) by (auto simp: BeginAccounting_def Let_def split: if_splits option.splits)
  show "ledger_inv db'" using assms(2) by (simp add: db')
  have "e_RequestID e \<notin> j_request_id ` set (journal db)"
    using row(4) by (auto simp: find_journal_def find_None_iff)
  then show "journal_inv db'" using assms(3) row by (auto simp: journal_inv_def db')
qed

lemma mark_row_fields [simp]:
  "j_request_id (mark_row t rid j) = j_request_id j" "j_state (mark_row t rid j) = j_state j"
  "j_usage_id (mark_row t rid j) = j_usage_id j"
  by (simp_all add: mark_row_def)

lemma MarkAccountingStarted_inv [inv_intros]:
  assumes "MarkAccountingStarted db_now rid db = Inr db'" and "ledger_inv db" and "journal_inv db"
  shows "ledger_inv db'" and "journal_inv db'"
proof -
  have db': "db' = db\<lparr>journal := map (mark_row db_now rid) (journal db)\<rparr>"
    using assms(1) by (auto simp: MarkAccountingStarted_def split: if_splits)
  show "ledger_inv db'" using assms(2) by (simp add: db')
  show "journal_inv db'" using assms(3) by (simp add: journal_inv_def db' comp_def)
qed

subsection \<open>A small scenario\<close>

definition sample_entry :: usage_entry where
  "sample_entry = empty_entry\<lparr>e_TeamID := 7, e_RequestID := ''req'', e_Alias := ''chat''\<rparr>"

definition sample_reservation :: reservation where
  "sample_reservation = \<lparr>r_request_id = ''req'', r_team_id = 7, r_user_id = None, r_service_account_id = None,
     r_key_id = None, r_customer_id = None, r_alias = ''chat'', r_estimated_cost_cents = 1,
     r_estimated_cost_microcents = Some 900000, r_settled_cost_cents = 0, r_settled_cost_microcents = None,
     r_status = ''reserved'', r_created_at = 0, r_settled_at = None\<rparr>"

definition sample_journal_row :: journal_row where
  "sample_journal_row = \<lparr>j_request_id = ''req'', j_team_id = 7, j_entry = sample_entry\<lparr>e_Ts := Some 0\<rparr>,
     j_upstream_started = True, j_recover_after = 90000000000, j_state = ''pending'', j_usage_id = None,
     j_created_at = 0, j_completed_at = None\<rparr>"

definition sample_totals :: totals where
  "sample_totals = (\<lambda>_. None)((''team'', 7, 0) \<mapsto> 900000)"

definition sample_ledger :: ledger where
  "sample_ledger = \<lparr>reservations = [sample_reservation], usage_log = [], daily_totals = sample_totals,
     journal = [sample_journal_row], next_usage_id = 1\<rparr>"

lemma sample_ledger_inv: "ledger_inv sample_ledger"
proof -
  let ?db = "empty_ledger\<lparr>reservations := [sample_reservation], daily_totals := sample_totals\<rparr>"
  have r: "sample_totals = (daily_totals empty_ledger)((''team'', 7, 0) \<mapsto> 900000)"
    by (simp add: sample_totals_def empty_ledger_def)
  have "insert_reservation sample_reservation empty_ledger = Inr ?db"
    unfolding r by (simp add: insert_reservation_def reservation_exact_def microcents_exact_def sample_reservation_def
        reservation_trigger_insert_def reservation_charge_def pg_amount_def budget_apply_daily_def r_subjects_def
        subjects_def opt_subject_def add_total_def put_total_def utc_day_def day_ns_def empty_ledger_def)
  moreover have "reservation_ok sample_reservation"
    by (simp add: reservation_ok_def sample_reservation_def r_charge_def amount_def i64_defs reservation_exact_def
        microcents_exact_def)
  ultimately have "ledger_inv ?db" using insert_reservation_inv ledger_inv_empty by blast
  then have "ledger_inv (?db\<lparr>journal := [sample_journal_row]\<rparr>)" by (subst ledger_inv_journal)
  also have "?db\<lparr>journal := [sample_journal_row]\<rparr> = sample_ledger"
    by (simp add: sample_ledger_def empty_ledger_def)
  finally show ?thesis .
qed

lemma sample_journal_inv: "journal_inv sample_ledger" and sample_journal_matches: "journal_matches sample_ledger"
  by (simp_all add: journal_inv_def journal_matches_def sample_ledger_def sample_journal_row_def reservation_teams_def
      sample_reservation_def sample_entry_def empty_entry_def)

lemma sample_find_journal: "find_journal ''req'' (journal sample_ledger) = Some sample_journal_row"
  by (simp add: find_journal_def sample_ledger_def sample_journal_row_def)

definition sample_live :: identities where
  "sample_live = \<lparr>live_user = (\<lambda>_. True), live_key = (\<lambda>_ _. True), live_service_account = (\<lambda>_ _. True),
     live_customer = (\<lambda>_ _. True)\<rparr>"

definition sample_final :: usage_entry where
  "sample_final = sample_entry\<lparr>e_AccountingID := ''req'', e_CostMicrocents := Some 250000, e_StatusCode := 200\<rparr>"

definition succeeds :: "'e + 'a \<Rightarrow> bool" where
  "succeeds x = (case x of Inr _ \<Rightarrow> True | Inl _ \<Rightarrow> False)"

lemma succeedsE:
  assumes "succeeds x"
  obtains y where "x = Inr y"
  using assms by (auto simp: succeeds_def split: sum.splits)

lemma sample_final_succeeds: "succeeds (FinalizeUsage sample_live 5 5 sample_final sample_ledger)"
  by code_simp

text \<open>C3: A finalised request is charged exactly once, at the cost on its receipt. When the usage of
  a pending journaled request is finalised, the daily totals stay exact, and: if the request
  has a reservation, that reservation ends settled at the receipt's cost, the spend of the
  reservation's subjects moves by exactly the difference between that cost and what was charged
  before, and the new usage row adds nothing; if it has none, the spend of the usage row's
  subjects on its day grows by exactly the receipt's cost. No other spend changes.\<close>

theorem finalize_charges_exactly_once:
  assumes "ledger_inv db" and "journal_inv db" and "journal_matches db"
    and "find_journal (e_AccountingID e) (journal db) = Some j" and "j_state j = ''pending''"
    and "pred_option is_i64 (e_CostMicrocents e)"
    and "FinalizeUsage live now db_now e db = Inr (rc, db')"
  shows "ledger_inv db' \<and> journal_inv db'
    \<and> settled_at (e_AccountingID e) (rc_CostMicrocents rc) db db'
    \<and> (find_reservation (e_AccountingID e) (reservations db) = None \<longrightarrow>
        (\<forall>k. spent db' k = spent db k
           + (if counts_for (u_subjects (last (usage_log db'))) (u_ts (last (usage_log db'))) k
              then rc_CostMicrocents rc else 0)))"
proof -
  have ne: "e_AccountingID e \<noteq> []" using find_journal_Some [OF assms(4)] assms(2) by (auto simp: journal_inv_def)
  have fin: "finalizeJournal live now db_now j e False db = Inr (rc, db')"
    using assms(7) FinalizeUsage_journaled [OF refl assms(4) ne] by simp
  have pending: "j_state j \<noteq> ''complete''" using assms(5) by simp
  obtain e5 where "finalised_as (e_AccountingID e) e5 rc db db'"
    using finalizeJournal_effect [OF assms(1,2,4) pending fin] assms(6) journal_matches_team [OF assms(3,4)]
    by (metis (full_types))
  then show ?thesis by (auto simp: finalised_as_def)
qed

theorem finalize_charges_exactly_once_witness:
  "\<exists>rc db'. FinalizeUsage sample_live 5 5 sample_final sample_ledger = Inr (rc, db')
     \<and> ledger_inv db' \<and> settled_at ''req'' (rc_CostMicrocents rc) sample_ledger db'"
proof -
  obtain rc db' where f: "FinalizeUsage sample_live 5 5 sample_final sample_ledger = Inr (rc, db')"
    using succeedsE [OF sample_final_succeeds] by (metis surj_pair)
  have "e_AccountingID sample_final = ''req''" by (simp add: sample_final_def)
  then show ?thesis
    using finalize_charges_exactly_once [OF sample_ledger_inv sample_journal_inv sample_journal_matches _ _ _ f, of sample_journal_row]
      f sample_find_journal by (simp add: sample_journal_row_def sample_final_def i64_defs)
qed

text \<open>C6: Finalisation is idempotent: once a request has been finalised, finalising it again, with
  whatever usage, returns the same receipt and changes nothing in the ledger.\<close>

theorem finalize_is_idempotent:
  assumes "ledger_inv db" and "journal_inv db" and "journal_matches db"
    and "find_journal (e_AccountingID e) (journal db) = Some j" and "j_state j = ''pending''"
    and "pred_option is_i64 (e_CostMicrocents e)"
    and "FinalizeUsage live now db_now e db = Inr (rc, db')"
    and "e_AccountingID e2 = e_AccountingID e" and "e_TeamID e2 = e_TeamID (j_entry j)"
  shows "FinalizeUsage live2 now2 db_now2 e2 db' = Inr (rc, db')"
proof -
  have ne: "e_AccountingID e \<noteq> []" using find_journal_Some [OF assms(4)] assms(2) by (auto simp: journal_inv_def)
  have fin: "finalizeJournal live now db_now j e False db = Inr (rc, db')"
    using assms(7) FinalizeUsage_journaled [OF refl assms(4) ne] by simp
  have pending: "j_state j \<noteq> ''complete''" using assms(5) by simp
  obtain i where f: "find_journal (e_AccountingID e) (journal db') = Some (complete_row (e_AccountingID e) i db_now j)"
    and r: "completed_receipt (complete_row (e_AccountingID e) i db_now j) db' = Inr rc"
    using finalizeJournal_effect [OF assms(1,2,4) pending fin] assms(6) journal_matches_team [OF assms(3,4)]
    by (metis (full_types))
  have "j_state (complete_row (e_AccountingID e) i db_now j) = ''complete''"
    using find_journal_Some(2) [OF assms(4)] by (simp add: complete_row_def)
  with FinalizeUsage_journaled [OF assms(8) f ne] r assms(9) show ?thesis
    by (simp add: finalizeJournal_def)
qed

theorem finalize_is_idempotent_witness:
  "\<exists>rc db'. FinalizeUsage sample_live 5 5 sample_final sample_ledger = Inr (rc, db')
     \<and> FinalizeUsage sample_live 9 9 (sample_final\<lparr>e_CostMicrocents := Some 1\<rparr>) db' = Inr (rc, db')"
proof -
  obtain rc db' where f: "FinalizeUsage sample_live 5 5 sample_final sample_ledger = Inr (rc, db')"
    using succeedsE [OF sample_final_succeeds] by (metis surj_pair)
  have "e_AccountingID sample_final = ''req''" by (simp add: sample_final_def)
  then have "FinalizeUsage sample_live 9 9 (sample_final\<lparr>e_CostMicrocents := Some 1\<rparr>) db' = Inr (rc, db')"
    using finalize_is_idempotent [OF sample_ledger_inv sample_journal_inv sample_journal_matches _ _ _ f,
        of sample_journal_row "sample_final\<lparr>e_CostMicrocents := Some 1\<rparr>"] sample_find_journal
    by (simp add: sample_journal_row_def sample_final_def i64_defs sample_entry_def)
  with f show ?thesis by blast
qed

text \<open>Possible spend is never refunded silently. When the upstream of a request was contacted and
  its usage is unknown, estimated or unpriced (in particular when recovery finds it interrupted),
  finalising it keeps the reservation's amount: the receipt says \<open>estimated\<close>, its cost is the
  reserved estimate, and no spend changes.\<close>

theorem started_unknown_usage_keeps_reservation:
  assumes "ledger_inv db" and "journal_inv db" and "journal_matches db"
    and "find_journal rid (journal db) = Some j" and "j_state j = ''pending''" and "j_upstream_started j"
    and "find_reservation rid (reservations db) = Some r" and "r_status r = ''reserved''"
    and "pred_option is_i64 (e_CostMicrocents (if recovering then j_entry j else e))"
    and "e_Accounting (prepared_entry live now j e recovering) \<in> {''unknown'', ''estimated'', ''unpriced''}"
    and "finalizeJournal live now db_now j e recovering db = Inr (rc, db')"
  shows "rc_CostMicrocents rc = r_charge r \<and> rc_Accounting rc = ''estimated'' \<and> (\<forall>k. spent db' k = spent db k)"
proof -
  have pending: "j_state j \<noteq> ''complete''" and ns: "r_status r \<noteq> ''settled''" using assms(5,8) by simp_all
  have rid: "j_request_id j = rid" using find_journal_Some(2) [OF assms(4)] .
  obtain e4 e5 db1 where n: "normalizeCost (prepared_entry live now j e recovering) = Inr e4"
    and st: "settle_journal db_now j e4 db = Inr (e5, db1)" and fa: "finalised_as rid e5 rc db db'"
    using finalizeJournal_effect [OF assms(1,2,4) pending assms(11,9)] journal_matches_team [OF assms(3,4)]
    by (metis (full_types))
  obtain c where "e4 = (prepared_entry live now j e recovering)\<lparr>e_CostCents := c\<rparr>"
    using normalizeCost_Inr(2) [OF n prepared_entry_micro [OF assms(9)]] by blast
  then have "e_Accounting e4 \<in> {''unknown'', ''estimated'', ''unpriced''}" using assms(10) by simp
  then have e5: "e5 = e4\<lparr>e_CostCents := r_estimated_cost_cents r, e_CostMicrocents := r_estimated_cost_microcents r,
      e_Accounting := ''estimated''\<rparr>"
    using settle_journal_reserved [OF st _ ns] assms(6,7) rid by (metis (no_types, lifting))
  have "entry_amount e5 = r_charge r" using assms(8) by (simp add: e5 entry_amount_def r_charge_def)
  with fa assms(7) show ?thesis by (auto simp: finalised_as_def settled_at_def e5)
qed

theorem started_unknown_usage_keeps_reservation_witness:
  "\<exists>rc db'. finalizeJournal sample_live 100 100 sample_journal_row empty_entry True sample_ledger = Inr (rc, db')
     \<and> rc_CostMicrocents rc = 900000 \<and> rc_Accounting rc = ''estimated''"
proof -
  have "succeeds (finalizeJournal sample_live 100 100 sample_journal_row empty_entry True sample_ledger)" by code_simp
  then obtain rc db' where f: "finalizeJournal sample_live 100 100 sample_journal_row empty_entry True sample_ledger = Inr (rc, db')"
    by (metis succeedsE surj_pair)
  have a: "e_Accounting (prepared_entry sample_live 100 sample_journal_row empty_entry True) = ''unknown''" by code_simp
  have r: "find_reservation ''req'' (reservations sample_ledger) = Some sample_reservation"
    by (simp add: find_reservation_def sample_ledger_def sample_reservation_def)
  have c: "r_charge sample_reservation = 900000" "r_status sample_reservation = ''reserved''"
    by (simp_all add: r_charge_def sample_reservation_def amount_def)
  show ?thesis
    using started_unknown_usage_keeps_reservation [OF sample_ledger_inv sample_journal_inv sample_journal_matches
        sample_find_journal _ _ r c(2) _ _ f] f a c
    by (simp add: sample_journal_row_def sample_entry_def empty_entry_def)
qed

text \<open>A request whose upstream was never contacted costs nothing: finalising it settles its
  reservation at zero whatever usage is reported, gives the whole estimate back to every subject
  it was charged to, and marks the receipt \<open>not_billable\<close>.\<close>

theorem unstarted_request_is_released:
  assumes "ledger_inv db" and "journal_inv db" and "journal_matches db"
    and "find_journal rid (journal db) = Some j" and "j_state j = ''pending''" and "\<not> j_upstream_started j"
    and "find_reservation rid (reservations db) = Some r" and "r_status r = ''reserved''"
    and "finalizeJournal live now db_now j e recovering db = Inr (rc, db')"
    and "pred_option is_i64 (e_CostMicrocents (if recovering then j_entry j else e))"
  shows "rc_CostMicrocents rc = 0 \<and> rc_Accounting rc = ''not_billable''
    \<and> (\<forall>k. spent db' k = spent db k - r_part k r)"
proof -
  have pending: "j_state j \<noteq> ''complete''" and ns: "r_status r \<noteq> ''settled''" using assms(5,8) by simp_all
  have rid: "j_request_id j = rid" using find_journal_Some(2) [OF assms(4)] .
  obtain e4 e5 db1 where n: "normalizeCost (prepared_entry live now j e recovering) = Inr e4"
    and st: "settle_journal db_now j e4 db = Inr (e5, db1)" and fa: "finalised_as rid e5 rc db db'"
    using finalizeJournal_effect [OF assms(1,2,4) pending assms(9,10)] journal_matches_team [OF assms(3,4)]
    by (metis (full_types))
  have e5: "e5 = e4" using settle_journal_reserved [OF st _ ns] assms(6,7) rid by (metis (no_types, lifting))
  note nc = normalizeCost_Inr [OF n prepared_entry_micro [OF assms(10)]]
  have p: "e_CostMicrocents (prepared_entry live now j e recovering) = Some 0"
    "e_Accounting (prepared_entry live now j e recovering) = ''not_billable''"
    using assms(6) by (simp_all add: prepared_entry_def Let_def not_started_entry_def)
  have "entry_amount e5 = 0" "e_Accounting e5 = ''not_billable''"
    using nc(2) p by (auto simp: e5 entry_amount_def amount_def)
  with fa assms(7) show ?thesis by (auto simp: finalised_as_def settled_at_def r_part_def)
qed

definition sample_idle_row :: journal_row where
  "sample_idle_row = sample_journal_row\<lparr>j_upstream_started := False\<rparr>"

definition sample_idle_ledger :: ledger where
  "sample_idle_ledger = sample_ledger\<lparr>journal := [sample_idle_row]\<rparr>"

lemmas sample_idle_defs = sample_idle_row_def sample_idle_ledger_def sample_ledger_def sample_journal_row_def
  sample_entry_def empty_entry_def sample_reservation_def

lemma sample_idle_inv: "ledger_inv sample_idle_ledger" "journal_inv sample_idle_ledger" "journal_matches sample_idle_ledger"
  "find_journal ''req'' (journal sample_idle_ledger) = Some sample_idle_row"
proof -
  show "ledger_inv sample_idle_ledger" using sample_ledger_inv by (simp add: sample_idle_ledger_def)
  show "journal_inv sample_idle_ledger" "journal_matches sample_idle_ledger"
    "find_journal ''req'' (journal sample_idle_ledger) = Some sample_idle_row"
    by (simp_all add: sample_idle_defs journal_inv_def journal_matches_def find_journal_def reservation_teams_def)
qed

theorem unstarted_request_is_released_witness:
  "\<exists>rc db'. finalizeJournal sample_live 100 100 sample_idle_row sample_final False sample_idle_ledger = Inr (rc, db')
     \<and> rc_CostMicrocents rc = 0 \<and> spent db' (''team'', 7, 0) = spent sample_idle_ledger (''team'', 7, 0) - 900000"
proof -
  have "succeeds (finalizeJournal sample_live 100 100 sample_idle_row sample_final False sample_idle_ledger)" by code_simp
  then obtain rc db' where f: "finalizeJournal sample_live 100 100 sample_idle_row sample_final False sample_idle_ledger = Inr (rc, db')"
    by (metis succeedsE surj_pair)
  have r: "find_reservation ''req'' (reservations sample_idle_ledger) = Some sample_reservation"
    by (simp add: find_reservation_def sample_idle_defs)
  have p: "r_part (''team'', 7, 0) sample_reservation = 900000" by code_simp
  show ?thesis
    using unstarted_request_is_released [OF sample_idle_inv _ _ r _ f] f p
    by (simp add: sample_idle_row_def sample_journal_row_def sample_final_def sample_reservation_def i64_defs)
qed

section \<open>Recovery drains the journal\<close>

definition recoverable_ids :: "gotime \<Rightarrow> ledger \<Rightarrow> string list" where
  "recoverable_ids db_now db = map j_request_id (filter (recoverable db_now) (journal db))"

definition accounting_inv :: "ledger \<Rightarrow> bool" where
  "accounting_inv db \<longleftrightarrow> ledger_inv db \<and> journal_inv db \<and> journal_matches db"

lemma recoverable_complete: "recoverable t (complete_row rid i t' j) \<longleftrightarrow> recoverable t j \<and> j_request_id j \<noteq> rid"
  by (auto simp: recoverable_def complete_row_def)

lemma recoverable_ids_complete:
  assumes "journal db' = map (complete_row rid i t') (journal db)"
  shows "recoverable_ids t db' = filter (\<lambda>x. x \<noteq> rid) (recoverable_ids t db)"
proof -
  have "map j_request_id (filter (recoverable t) (map (complete_row rid i t') js))
      = filter (\<lambda>x. x \<noteq> rid) (map j_request_id (filter (recoverable t) js))" for js
    by (induction js) (simp_all add: recoverable_complete)
  then show ?thesis by (simp add: recoverable_ids_def assms)
qed

lemma find_journal_complete:
  assumes "rid' \<noteq> rid" and "find_journal rid' js = Some j"
  shows "find_journal rid' (map (complete_row rid i t) js) = Some j"
  using assms by (induction js) (auto simp: find_journal_def complete_row_def)

lemma recover_one_step:
  assumes inv: "accounting_inv db" and j: "find_journal (j_request_id j) (journal db) = Some j" "j_state j = ''pending''"
    and rec: "recover_one live now db_now j db = Inr db'"
  shows "accounting_inv db'" and "\<exists>i. journal db' = map (complete_row (j_request_id j) i db_now) (journal db)"
proof -
  obtain rc where f: "finalizeJournal live now db_now j empty_entry True db = Inr (rc, db')"
    using rec by (auto simp: recover_one_def split: sum.splits prod.splits)
  have pending: "j_state j \<noteq> ''complete''" using j(2) by simp
  have i64: "pred_option is_i64 (e_CostMicrocents (if True then j_entry j else empty_entry))"
    using inv find_journal_Some(1) [OF j(1)] by (auto simp: accounting_inv_def journal_matches_def)
  have invs: "ledger_inv db" "journal_inv db" "journal_matches db" using inv by (simp_all add: accounting_inv_def)
  obtain e5 i where fa: "finalised_as (j_request_id j) e5 rc db db'"
    and jr: "journal db' = map (complete_row (j_request_id j) i db_now) (journal db)"
    using finalizeJournal_effect [OF invs(1,2) j(1) pending f i64] journal_matches_team [OF invs(3) j(1)]
    by (metis (full_types))
  show "accounting_inv db'"
    using fa journal_matches_complete [OF invs(3) jr] by (simp add: accounting_inv_def finalised_as_def)
  show "\<exists>i. journal db' = map (complete_row (j_request_id j) i db_now) (journal db)" using jr by blast
qed

lemma recover_batch:
  assumes "accounting_inv db" and "distinct (map j_request_id js)"
    and "\<And>j. j \<in> set js \<Longrightarrow> find_journal (j_request_id j) (journal db) = Some j \<and> j_state j = ''pending''"
    and "fold_ok (recover_one live now db_now) js db = Inr db'"
  shows "accounting_inv db' \<and> recoverable_ids t db' = filter (\<lambda>x. x \<notin> j_request_id ` set js) (recoverable_ids t db)"
  using assms
proof (induction js arbitrary: db)
  case (Cons j js)
  obtain db1 where step: "recover_one live now db_now j db = Inr db1" and rest: "fold_ok (recover_one live now db_now) js db1 = Inr db'"
    using Cons.prems(4) by auto
  have j: "find_journal (j_request_id j) (journal db) = Some j" "j_state j = ''pending''" using Cons.prems(3) by simp_all
  note s = recover_one_step [OF Cons.prems(1) j step]
  from s(2) obtain i where jr: "journal db1 = map (complete_row (j_request_id j) i db_now) (journal db)" by blast
  have "find_journal (j_request_id q) (journal db1) = Some q \<and> j_state q = ''pending''" if q: "q \<in> set js" for q
  proof -
    have "j_request_id j \<notin> j_request_id ` set js" using Cons.prems(2) by simp
    then have "j_request_id q \<noteq> j_request_id j" using q by (metis imageI)
    with find_journal_complete Cons.prems(3) [of q] q show ?thesis by (simp add: jr)
  qed
  from Cons.IH [OF s(1) _ this rest] Cons.prems(2) show ?case
    by (auto simp: recoverable_ids_complete [OF jr] intro!: filter_cong)
qed simp

lemma recovery_batch_mem:
  "j \<in> set (recovery_batch locked t js) \<Longrightarrow> j \<in> set js \<and> recoverable t j"
  using set_take_subset by (fastforce simp: recovery_batch_def)

lemma recovery_batch_distinct:
  assumes "distinct (map j_request_id js)"
  shows "distinct (map j_request_id (recovery_batch locked t js))"
proof -
  have "distinct (map j_request_id (filter P js))" for P using assms by (simp add: distinct_map_filter)
  then show ?thesis
    unfolding recovery_batch_def take_map [symmetric]
    by (simp add: distinct_map inj_on_def distinct_take)
qed



end
