(* ===== verification/Admission_Gate.thy ===== *)
theory Admission_Gate
  imports Gw_Prelude
begin

text \<open>
  The process-level admission gate (\<^verbatim>\<open>internal/admission/gate.go\<close>). Its callers run concurrently:
  the state holds the two channels and the two atomic counters, and for each caller the point it
  has reached in \<open>Acquire\<close> or \<open>Release\<close>; a step is one channel operation or one counter update of
  one caller. The channels never hold more than their capacity, so the callers between taking and
  returning a slot, and those between taking and returning a queue place, are bounded. The second
  part is the resizable counter of a deployment, with its load, compare and swap.
\<close>

section \<open>The gate\<close>

datatype outcome = OutcomeAdmitted | OutcomeQueueFull | OutcomeQueueTimeout | OutcomeCanceled

datatype gate_phase =
    Start                  \<comment> \<open>at the first select\<close>
  | Saturated              \<comment> \<open>no slot was free\<close>
  | Queue_Taken            \<comment> \<open>queue place taken, not yet counted\<close>
  | Waiting                \<comment> \<open>at the second select\<close>
  | Slot_Taken bool        \<comment> \<open>slot taken, not yet counted; the flag: from the queue\<close>
  | Leave_Queue outcome    \<comment> \<open>about to return the queue place\<close>
  | Left_Queue outcome     \<comment> \<open>queue place returned, not yet counted\<close>
  | Holding                \<comment> \<open>permit handed out\<close>
  | Released               \<comment> \<open>slot returned, not yet counted\<close>
  | Finished outcome

record gate_config =
  cfg_MaxInFlight :: int
  cfg_MaxQueued :: int
  cfg_QueueTimeout :: duration

record gate =
  g_slot_cap :: nat
  g_queue_cap :: nat
  g_queueTimeout :: duration
  g_slots :: nat
  g_queue :: nat
  g_inFlight :: int
  g_queued :: int
  g_callers :: "gate_phase list"

text \<open>\<open>New\<close>, with the callers that will use the gate; \<open>None\<close> is the disabled gate.\<close>

definition New_gate :: "gate_config \<Rightarrow> nat \<Rightarrow> gate option" where
  "New_gate cfg n =
     (if cfg_MaxInFlight cfg \<le> 0 then None
      else Some \<lparr>g_slot_cap = nat (cfg_MaxInFlight cfg),
                 g_queue_cap = nat (if cfg_MaxQueued cfg < 0 then 0 else cfg_MaxQueued cfg),
                 g_queueTimeout = cfg_QueueTimeout cfg, g_slots = 0, g_queue = 0, g_inFlight = 0, g_queued = 0,
                 g_callers = replicate n Start\<rparr>)"

record gate_stats =
  st_InFlight :: int
  st_Queued :: int
  st_Capacity :: nat
  st_QueueCap :: nat

definition Gate_Stats :: "gate \<Rightarrow> gate_stats" where
  "Gate_Stats g = \<lparr>st_InFlight = g_inFlight g, st_Queued = g_queued g, st_Capacity = g_slot_cap g, st_QueueCap = g_queue_cap g\<rparr>"

definition goto :: "nat \<Rightarrow> gate_phase \<Rightarrow> gate \<Rightarrow> gate" where
  "goto i ph g = g\<lparr>g_callers := (g_callers g)[i := ph]\<rparr>"

definition at :: "gate \<Rightarrow> nat \<Rightarrow> gate_phase \<Rightarrow> bool" where
  "at g i ph \<longleftrightarrow> i < length (g_callers g) \<and> g_callers g ! i = ph"

definition fails_fast :: "gate \<Rightarrow> bool" where
  "fails_fast g \<longleftrightarrow> g_queue_cap g = 0 \<or> g_queueTimeout g \<le> 0"

inductive gate_step :: "gate \<Rightarrow> gate \<Rightarrow> bool" where
  take_slot: "at g i Start \<Longrightarrow> g_slots g < g_slot_cap g \<Longrightarrow>
    gate_step g (goto i (Slot_Taken False) (g\<lparr>g_slots := g_slots g + 1\<rparr>))"
| no_slot: "at g i Start \<Longrightarrow> g_slots g = g_slot_cap g \<Longrightarrow> gate_step g (goto i Saturated g)"
| fail_fast: "at g i Saturated \<Longrightarrow> fails_fast g \<Longrightarrow> gate_step g (goto i (Finished OutcomeQueueFull) g)"
| take_queue: "at g i Saturated \<Longrightarrow> \<not> fails_fast g \<Longrightarrow> g_queue g < g_queue_cap g \<Longrightarrow>
    gate_step g (goto i Queue_Taken (g\<lparr>g_queue := g_queue g + 1\<rparr>))"
| queue_full: "at g i Saturated \<Longrightarrow> \<not> fails_fast g \<Longrightarrow> g_queue g = g_queue_cap g \<Longrightarrow>
    gate_step g (goto i (Finished OutcomeQueueFull) g)"
| count_queued: "at g i Queue_Taken \<Longrightarrow> gate_step g (goto i Waiting (g\<lparr>g_queued := g_queued g + 1\<rparr>))"
| wait_slot: "at g i Waiting \<Longrightarrow> g_slots g < g_slot_cap g \<Longrightarrow>
    gate_step g (goto i (Slot_Taken True) (g\<lparr>g_slots := g_slots g + 1\<rparr>))"
| wait_timeout: "at g i Waiting \<Longrightarrow> gate_step g (goto i (Leave_Queue OutcomeQueueTimeout) g)"
| wait_cancel: "at g i Waiting \<Longrightarrow> gate_step g (goto i (Leave_Queue OutcomeCanceled) g)"
| count_slot: "at g i (Slot_Taken b) \<Longrightarrow>
    gate_step g (goto i (if b then Leave_Queue OutcomeAdmitted else Holding) (g\<lparr>g_inFlight := g_inFlight g + 1\<rparr>))"
| leave_queue: "at g i (Leave_Queue out) \<Longrightarrow> gate_step g (goto i (Left_Queue out) (g\<lparr>g_queue := g_queue g - 1\<rparr>))"
| count_left: "at g i (Left_Queue out) \<Longrightarrow>
    gate_step g (goto i (if out = OutcomeAdmitted then Holding else Finished out) (g\<lparr>g_queued := g_queued g - 1\<rparr>))"
| release: "at g i Holding \<Longrightarrow> gate_step g (goto i Released (g\<lparr>g_slots := g_slots g - 1\<rparr>))"
| count_release: "at g i Released \<Longrightarrow>
    gate_step g (goto i (Finished OutcomeAdmitted) (g\<lparr>g_inFlight := g_inFlight g - 1\<rparr>))"
| release_again: "at g i (Finished out) \<Longrightarrow> gate_step g g"

inductive_cases gate_stepE: "gate_step g g'"

section \<open>Who holds what\<close>

fun has_slot :: "gate_phase \<Rightarrow> bool" where
  "has_slot (Slot_Taken b) = True"
| "has_slot (Leave_Queue out) = (out = OutcomeAdmitted)"
| "has_slot (Left_Queue out) = (out = OutcomeAdmitted)"
| "has_slot Holding = True"
| "has_slot _ = False"

fun has_place :: "gate_phase \<Rightarrow> bool" where
  "has_place Queue_Taken = True"
| "has_place Waiting = True"
| "has_place (Slot_Taken b) = b"
| "has_place (Leave_Queue out) = True"
| "has_place _ = False"

fun counted_slot :: "gate_phase \<Rightarrow> bool" where
  "counted_slot (Leave_Queue out) = (out = OutcomeAdmitted)"
| "counted_slot (Left_Queue out) = (out = OutcomeAdmitted)"
| "counted_slot Holding = True"
| "counted_slot Released = True"
| "counted_slot _ = False"

fun counted_place :: "gate_phase \<Rightarrow> bool" where
  "counted_place Waiting = True"
| "counted_place (Slot_Taken b) = b"
| "counted_place (Leave_Queue out) = True"
| "counted_place (Left_Queue out) = True"
| "counted_place _ = False"

definition count :: "(gate_phase \<Rightarrow> bool) \<Rightarrow> gate \<Rightarrow> nat" where
  "count P g = length (filter P (g_callers g))"

definition gate_inv :: "gate \<Rightarrow> bool" where
  "gate_inv g \<longleftrightarrow> g_slots g = count has_slot g \<and> g_slots g \<le> g_slot_cap g
     \<and> g_queue g = count has_place g \<and> g_queue g \<le> g_queue_cap g
     \<and> g_inFlight g = int (count counted_slot g) \<and> g_queued g = int (count counted_place g)"

lemma length_filter_update:
  "i < length xs \<Longrightarrow> length (filter P (xs[i := v])) + (if P (xs ! i) then 1 else 0)
     = length (filter P xs) + (if P v then 1 else 0)"
proof (induction xs arbitrary: i)
  case (Cons x xs)
  then show ?case by (cases i) auto
qed simp

lemma count_goto:
  assumes "at g i ph" and "g_callers g' = g_callers g"
  shows "count P (goto i ph' g') + of_bool (P ph) = count P g + of_bool (P ph')"
  using length_filter_update [of i "g_callers g" P ph'] assms
  by (auto simp: count_def goto_def at_def split: if_splits)

lemma count_pos: "at g i ph \<Longrightarrow> P ph \<Longrightarrow> 0 < count P g"
  unfolding count_def at_def by (metis filter_empty_conv length_greater_0_conv nth_mem)

lemma goto_simps [simp]:
  "g_slots (goto i ph g) = g_slots g" "g_queue (goto i ph g) = g_queue g" "g_inFlight (goto i ph g) = g_inFlight g"
  "g_queued (goto i ph g) = g_queued g" "g_slot_cap (goto i ph g) = g_slot_cap g" "g_queue_cap (goto i ph g) = g_queue_cap g"
  by (simp_all add: goto_def)

text \<open>A caller moves on: the invariant is kept if the four numbers move with it.\<close>

lemma gate_inv_goto:
  assumes "gate_inv g" and "at g i ph" and "g_callers g' = g_callers g"
    and "g_slot_cap g' = g_slot_cap g" and "g_queue_cap g' = g_queue_cap g"
    and "g_slots g' + of_bool (has_slot ph) = g_slots g + of_bool (has_slot ph')" and "g_slots g' \<le> g_slot_cap g"
    and "g_queue g' + of_bool (has_place ph) = g_queue g + of_bool (has_place ph')" and "g_queue g' \<le> g_queue_cap g"
    and "g_inFlight g' + of_bool (counted_slot ph) = g_inFlight g + of_bool (counted_slot ph')"
    and "g_queued g' + of_bool (counted_place ph) = g_queued g + of_bool (counted_place ph')"
  shows "gate_inv (goto i ph' g')"
proof -
  note c = count_goto [OF assms(2,3), of _ ph']
  have "int (count counted_slot (goto i ph' g')) = g_inFlight g'"
    using c [of counted_slot] assms(1,10)
    by (cases "counted_slot ph"; cases "counted_slot ph'") (auto simp: gate_inv_def)
  moreover have "int (count counted_place (goto i ph' g')) = g_queued g'"
    using c [of counted_place] assms(1,11)
    by (cases "counted_place ph"; cases "counted_place ph'") (auto simp: gate_inv_def)
  moreover have "g_slots g' = count has_slot (goto i ph' g')" "g_queue g' = count has_place (goto i ph' g')"
    using c [of has_slot] c [of has_place] assms(1,6,8) by (simp_all add: gate_inv_def)
  ultimately show ?thesis using assms by (simp add: gate_inv_def)
qed

lemma gate_inv_step [inv_intros]:
  assumes "gate_step g g'" and inv: "gate_inv g"
  shows "gate_inv g'"
  using assms(1)
proof cases
  case (leave_queue i out)
  then have "0 < g_queue g" using count_pos [OF leave_queue(2), of has_place] inv by (simp add: gate_inv_def)
  with leave_queue inv show ?thesis by (auto simp: gate_inv_def [of g] intro!: gate_inv_goto [OF inv leave_queue(2)])
next
  case (release i)
  then have "0 < g_slots g" using count_pos [OF release(2), of has_slot] inv by (simp add: gate_inv_def)
  with release inv show ?thesis by (auto simp: gate_inv_def [of g] intro!: gate_inv_goto [OF inv release(2)])
qed (use inv in \<open>auto simp: gate_inv_def [of g] intro!: gate_inv_goto [OF inv]\<close>)

lemma filter_replicate_none: "\<not> P x \<Longrightarrow> filter P (replicate n x) = []"
  by (induction n) auto

lemma gate_inv_New: "New_gate cfg n = Some g \<Longrightarrow> gate_inv g"
  by (auto simp: New_gate_def gate_inv_def count_def filter_replicate_none split: if_splits)

lemma gate_caps_step: "gate_step g g' \<Longrightarrow> g_slot_cap g' = g_slot_cap g \<and> g_queue_cap g' = g_queue_cap g
    \<and> length (g_callers g') = length (g_callers g)"
  by (induction rule: gate_step.induct) (auto simp: goto_def)

lemma gate_reachable:
  assumes "New_gate cfg n = Some g0" and "gate_step\<^sup>*\<^sup>* g0 g"
  shows "gate_inv g" and "g_slot_cap g = g_slot_cap g0" and "g_queue_cap g = g_queue_cap g0"
proof -
  from assms(2) have "gate_inv g \<and> g_slot_cap g = g_slot_cap g0 \<and> g_queue_cap g = g_queue_cap g0"
  proof (induction rule: rtranclp_induct)
    case base
    show ?case using gate_inv_New [OF assms(1)] by simp
  next
    case (step g g')
    then show ?case using gate_inv_step [of g g'] gate_caps_step [of g g'] by simp
  qed
  then show "gate_inv g" "g_slot_cap g = g_slot_cap g0" "g_queue_cap g = g_queue_cap g0" by simp_all
qed

lemma count_disj: "(\<And>ph. P ph \<Longrightarrow> Q ph \<or> R ph) \<Longrightarrow> count P g \<le> count Q g + count R g"
  unfolding count_def
proof (induction "g_callers g")
  case (Cons x xs)
  have "length (filter P ys) \<le> length (filter Q ys) + length (filter R ys)" for ys
    using Cons.prems by (induction ys) auto
  then show ?case .
qed simp

definition sample_config :: gate_config where
  "sample_config = \<lparr>cfg_MaxInFlight = 1, cfg_MaxQueued = 1, cfg_QueueTimeout = Second\<rparr>"

definition sample_gate :: gate where
  "sample_gate = \<lparr>g_slot_cap = 1, g_queue_cap = 1, g_queueTimeout = Second, g_slots = 0, g_queue = 0,
     g_inFlight = 0, g_queued = 0, g_callers = [Start, Start]\<rparr>"

lemma sample_gate_New: "New_gate sample_config 2 = Some sample_gate"
  by (simp add: New_gate_def sample_config_def sample_gate_def numeral_2_eq_2)

text \<open>One caller takes the only slot, the other finds the gate saturated.\<close>

definition sample_busy :: gate where
  "sample_busy = sample_gate\<lparr>g_slots := 1, g_callers := [Slot_Taken False, Saturated]\<rparr>"

lemma sample_busy_reachable: "gate_step\<^sup>*\<^sup>* sample_gate sample_busy"
proof -
  let ?g = "goto 0 (Slot_Taken False) (sample_gate\<lparr>g_slots := g_slots sample_gate + 1\<rparr>)"
  have "gate_step sample_gate ?g" by (rule gate_step.take_slot) (simp_all add: at_def sample_gate_def)
  moreover have "gate_step ?g (goto 1 Saturated ?g)"
    by (rule gate_step.no_slot) (simp_all add: at_def sample_gate_def goto_def)
  moreover have "goto 1 Saturated ?g = sample_busy" by (simp add: goto_def sample_gate_def sample_busy_def)
  ultimately show ?thesis by (metis rtranclp.simps)
qed

text \<open>C26: The gate bounds both populations under every interleaving of its callers: at most
  \<open>MaxInFlight\<close> callers are between taking and returning a slot, at most \<open>MaxQueued\<close> hold a queue
  place, and the reported in-flight number exceeds the capacity by at most the callers that have
  returned their slot but not yet been uncounted.\<close>

theorem gate_bounds_both_populations:
  assumes "New_gate cfg n = Some g0" and "gate_step\<^sup>*\<^sup>* g0 g"
  shows "int (count has_slot g) \<le> cfg_MaxInFlight cfg
    \<and> int (count has_place g) \<le> max 0 (cfg_MaxQueued cfg)
    \<and> 0 \<le> st_InFlight (Gate_Stats g)
    \<and> st_InFlight (Gate_Stats g) \<le> cfg_MaxInFlight cfg + int (count (\<lambda>ph. ph = Released) g)"
proof -
  note r = gate_reachable [OF assms]
  have caps: "int (g_slot_cap g0) = cfg_MaxInFlight cfg" "int (g_queue_cap g0) = max 0 (cfg_MaxQueued cfg)"
    using assms(1) by (auto simp: New_gate_def split: if_splits)
  have "count counted_slot g \<le> count has_slot g + count (\<lambda>ph. ph = Released) g"
    by (rule count_disj) (case_tac ph, auto)
  then show ?thesis using r caps by (auto simp: gate_inv_def Gate_Stats_def)
qed

theorem gate_bounds_both_populations_witness:
  "count has_slot sample_busy \<le> 1 \<and> st_InFlight (Gate_Stats sample_busy) \<le> 1 + int (count (\<lambda>ph. ph = Released) sample_busy)"
  using gate_bounds_both_populations [OF sample_gate_New sample_busy_reachable] by (simp add: sample_config_def)

text \<open>The gate leaks nothing: once every caller has finished, whether admitted and released,
  refused, timed out or cancelled, both channels are empty and both counters are zero.\<close>

theorem gate_leaks_nothing:
  assumes "New_gate cfg n = Some g0" and "gate_step\<^sup>*\<^sup>* g0 g"
    and "\<forall>ph \<in> set (g_callers g). \<exists>out. ph = Finished out"
  shows "g_slots g = 0 \<and> g_queue g = 0 \<and> st_InFlight (Gate_Stats g) = 0 \<and> st_Queued (Gate_Stats g) = 0"
proof -
  have "count P g = 0" if "\<And>out. \<not> P (Finished out)" for P
    using assms(3) that by (fastforce simp: count_def filter_empty_conv)
  then show ?thesis using gate_reachable(1) [OF assms(1,2)] by (simp add: gate_inv_def Gate_Stats_def)
qed

theorem gate_leaks_nothing_witness:
  "g_slots (the (New_gate sample_config 0)) = 0 \<and> st_Queued (Gate_Stats (the (New_gate sample_config 0))) = 0"
proof -
  have n: "New_gate sample_config 0 = Some (sample_gate\<lparr>g_callers := []\<rparr>)"
    by (simp add: New_gate_def sample_config_def sample_gate_def)
  show ?thesis using gate_leaks_nothing [OF n rtranclp.rtrancl_refl] by (simp add: n)
qed

text \<open>No caller of the gate is ever stuck: in every reachable state each caller that has not
  finished can take a step of its own, and a caller in the queue can always leave it by its
  timeout.\<close>

theorem gate_callers_never_stuck:
  assumes "New_gate cfg n = Some g0" and "gate_step\<^sup>*\<^sup>* g0 g" and "i < length (g_callers g)"
  shows "\<exists>g'. gate_step g g' \<and> ((\<exists>out. g_callers g ! i = Finished out) \<or> g_callers g' ! i \<noteq> g_callers g ! i)"
proof -
  have inv: "gate_inv g" using gate_reachable(1) [OF assms(1,2)] .
  have at: "at g i (g_callers g ! i)" using assms(3) by (simp add: at_def)
  have go: "g_callers (goto i ph g') ! i = ph" if "g_callers g' = g_callers g" for ph g'
    using assms(3) that by (simp add: goto_def)
  have slots: "g_slots g < g_slot_cap g \<or> g_slots g = g_slot_cap g"
    and queue: "g_queue g < g_queue_cap g \<or> g_queue g = g_queue_cap g"
    using inv by (auto simp: gate_inv_def)
  show ?thesis
  proof (cases "g_callers g ! i")
    case Start
    then show ?thesis using slots gate_step.take_slot [of g i] gate_step.no_slot [of g i] at go by fastforce
  next
    case Saturated
    then show ?thesis
      using queue gate_step.fail_fast [of g i] gate_step.take_queue [of g i] gate_step.queue_full [of g i] at go by fastforce
  next
    case Queue_Taken
    then show ?thesis using gate_step.count_queued [of g i] at go by fastforce
  next
    case Waiting
    then show ?thesis using gate_step.wait_timeout [of g i] at go by fastforce
  next
    case (Slot_Taken b)
    then show ?thesis using gate_step.count_slot [of g i b] at go by (fastforce split: if_splits)
  next
    case (Leave_Queue out)
    then show ?thesis using gate_step.leave_queue [of g i out] at go by fastforce
  next
    case (Left_Queue out)
    then show ?thesis using gate_step.count_left [of g i out] at go by (fastforce split: if_splits)
  next
    case Holding
    then show ?thesis using gate_step.release [of g i] at go by fastforce
  next
    case Released
    then show ?thesis using gate_step.count_release [of g i] at go by fastforce
  next
    case (Finished out)
    then show ?thesis using gate_step.release_again [of g i out] at by auto
  qed
qed

theorem gate_callers_never_stuck_witness:
  "\<exists>g'. gate_step sample_busy g' \<and> g_callers g' ! 1 \<noteq> Saturated"
  using gate_callers_never_stuck [OF sample_gate_New sample_busy_reachable, of 1]
  by (simp add: sample_busy_def) 

section \<open>The resizable counter\<close>

datatype counter_phase =
    C_Load                 \<comment> \<open>about to read the in-flight number\<close>
  | C_Loaded int           \<comment> \<open>read it; about to read the limit\<close>
  | C_Swap int             \<comment> \<open>below the limit; about to compare and swap\<close>
  | C_Refused
  | C_Held
  | C_Released

record counter =
  ct_limit :: int
  ct_inFlight :: int
  ct_callers :: "counter_phase list"

definition SetLimit :: "int \<Rightarrow> counter \<Rightarrow> counter" where
  "SetLimit limit c = c\<lparr>ct_limit := (if limit < 0 then 0 else limit)\<rparr>"

definition NewCounter :: "int \<Rightarrow> nat \<Rightarrow> counter" where
  "NewCounter limit n = SetLimit limit \<lparr>ct_limit = 0, ct_inFlight = 0, ct_callers = replicate n C_Load\<rparr>"

definition c_at :: "counter \<Rightarrow> nat \<Rightarrow> counter_phase \<Rightarrow> bool" where
  "c_at c i ph \<longleftrightarrow> i < length (ct_callers c) \<and> ct_callers c ! i = ph"

definition c_goto :: "nat \<Rightarrow> counter_phase \<Rightarrow> counter \<Rightarrow> counter" where
  "c_goto i ph c = c\<lparr>ct_callers := (ct_callers c)[i := ph]\<rparr>"

text \<open>The steps of \<open>TryAcquire\<close> and \<open>Release\<close>, and a change of the limit. The first argument says
  whether the limit may change.\<close>

inductive counter_step :: "bool \<Rightarrow> counter \<Rightarrow> counter \<Rightarrow> bool" for resizable where
  load: "c_at c i C_Load \<Longrightarrow> counter_step resizable c (c_goto i (C_Loaded (ct_inFlight c)) c)"
| refuse: "c_at c i (C_Loaded current) \<Longrightarrow> 0 < ct_limit c \<Longrightarrow> ct_limit c \<le> current \<Longrightarrow>
    counter_step resizable c (c_goto i C_Refused c)"
| try_swap: "c_at c i (C_Loaded current) \<Longrightarrow> \<not> (0 < ct_limit c \<and> ct_limit c \<le> current) \<Longrightarrow>
    counter_step resizable c (c_goto i (C_Swap current) c)"
| swap: "c_at c i (C_Swap current) \<Longrightarrow> ct_inFlight c = current \<Longrightarrow>
    counter_step resizable c (c_goto i C_Held (c\<lparr>ct_inFlight := current + 1\<rparr>))"
| retry: "c_at c i (C_Swap current) \<Longrightarrow> ct_inFlight c \<noteq> current \<Longrightarrow> counter_step resizable c (c_goto i C_Load c)"
| release: "c_at c i C_Held \<Longrightarrow> counter_step resizable c (c_goto i C_Released (c\<lparr>ct_inFlight := ct_inFlight c - 1\<rparr>))"
| release_again: "c_at c i C_Released \<Longrightarrow> counter_step resizable c c"
| set_limit: "resizable \<Longrightarrow> counter_step resizable c (SetLimit limit c)"

definition c_held :: "counter \<Rightarrow> nat" where
  "c_held c = length (filter (\<lambda>ph. ph = C_Held) (ct_callers c))"

lemma c_held_goto:
  assumes "c_at c i ph" and "ct_callers c' = ct_callers c"
  shows "int (c_held (c_goto i ph' c')) = int (c_held c) + of_bool (ph' = C_Held) - of_bool (ph = C_Held)"
  using length_filter_update [of i "ct_callers c" "\<lambda>ph. ph = C_Held" ph'] assms
  by (auto simp: c_held_def c_goto_def c_at_def split: if_splits)

lemma c_goto_simps [simp]: "ct_inFlight (c_goto i ph c) = ct_inFlight c" "ct_limit (c_goto i ph c) = ct_limit c"
  by (simp_all add: c_goto_def)

lemma counter_tracks:
  assumes "counter_step b c c'" and "ct_inFlight c = int (c_held c)"
  shows "ct_inFlight c' = int (c_held c')"
  using assms by (induction rule: counter_step.induct) (auto simp: c_held_goto, simp_all add: SetLimit_def c_held_def)

text \<open>While the limit is fixed, a caller that is about to swap has read a number below it.\<close>

definition swaps_below :: "counter \<Rightarrow> bool" where
  "swaps_below c \<longleftrightarrow> (\<forall>ph \<in> set (ct_callers c). \<forall>current. ph = C_Swap current \<longrightarrow> current < ct_limit c)"

lemma swaps_below_goto:
  "swaps_below c \<Longrightarrow> (\<And>current. ph = C_Swap current \<Longrightarrow> current < ct_limit c) \<Longrightarrow> ct_callers c' = ct_callers c \<Longrightarrow>
   ct_limit c' = ct_limit c \<Longrightarrow> swaps_below (c_goto i ph c')"
  using set_update_subset_insert [of "ct_callers c" i ph] by (auto simp: swaps_below_def c_goto_def)

lemma counter_fixed_step:
  assumes "counter_step False c c'" and "0 < ct_limit c" and "swaps_below c" and "ct_inFlight c \<le> ct_limit c"
  shows "ct_limit c' = ct_limit c \<and> swaps_below c' \<and> ct_inFlight c' \<le> ct_limit c'"
  using assms
proof (induction rule: counter_step.induct)
  case (swap c i current)
  have "C_Swap current \<in> set (ct_callers c)" using swap(1) by (metis c_at_def nth_mem)
  then have "current < ct_limit c" using swap(4) by (simp add: swaps_below_def)
  with swap show ?case using swaps_below_goto [OF swap(4), of C_Held "c\<lparr>ct_inFlight := current + 1\<rparr>" i] by simp
next
  case (release c i)
  then show ?case using swaps_below_goto [OF release(3), of C_Released "c\<lparr>ct_inFlight := ct_inFlight c - 1\<rparr>" i] by simp
qed (auto intro: swaps_below_goto)

text \<open>The deployment counter is exact and, under a fixed limit, safe: over every interleaving of
  acquisitions, retries and releases the in-flight number is the number of permits held, and
  with a positive limit that never exceeds the limit. A change of the limit never disturbs the
  number.\<close>

theorem counter_exact_and_bounded:
  "((counter_step True)\<^sup>*\<^sup>* (NewCounter limit n) c \<longrightarrow> ct_inFlight c = int (c_held c))
   \<and> ((counter_step False)\<^sup>*\<^sup>* (NewCounter limit n) c \<and> 0 < limit \<longrightarrow> ct_inFlight c \<le> limit)"
proof (intro conjI impI)
  assume "(counter_step True)\<^sup>*\<^sup>* (NewCounter limit n) c"
  then show "ct_inFlight c = int (c_held c)"
  proof (induction rule: rtranclp_induct)
    case base
    show ?case by (simp add: NewCounter_def SetLimit_def c_held_def)
  next
    case (step c c')
    then show ?case by (blast intro: counter_tracks)
  qed
next
  assume a: "(counter_step False)\<^sup>*\<^sup>* (NewCounter limit n) c \<and> 0 < limit"
  then have "(counter_step False)\<^sup>*\<^sup>* (NewCounter limit n) c" ..
  then have "ct_limit c = limit \<and> swaps_below c \<and> ct_inFlight c \<le> ct_limit c"
  proof (induction rule: rtranclp_induct)
    case base
    show ?case using a by (simp add: NewCounter_def SetLimit_def swaps_below_def)
  next
    case (step c c')
    then show ?case using counter_fixed_step [of c c'] a by simp
  qed
  then show "ct_inFlight c \<le> limit" by simp
qed

theorem counter_exact_and_bounded_witness:
  "ct_inFlight (NewCounter 3 2) = int (c_held (NewCounter 3 2)) \<and> ct_inFlight (NewCounter 3 2) \<le> 3"
  using counter_exact_and_bounded [of 3 2 "NewCounter 3 2"] by simp

end
