(* ===== verification/Rate_Limit.thy ===== *)
theory Rate_Limit
  imports Tenancy "HOL-Library.AList"
begin

text \<open>
  Request and token rates per minute (\<^verbatim>\<open>internal/ratelimit/limiter.go\<close>, \<^verbatim>\<open>estimate.go\<close>): the limits
  that apply to a request, and the two backends that count them, the mutex-protected map of one
  process and the Lua script in Redis. The locale \<open>window_limiter\<close> is what a caller relies on;
  both backends are shown to provide it, and its client lemma, that the requests granted in one
  window fit the limit, holds for both.
\<close>

definition windowSize :: duration where
  "windowSize = Minute"

record rate_check =
  rk_Team :: "team option"
  rk_Key :: "virtual_key option"
  rk_Customer :: "customer option"
  rk_Tokens :: int

record rate_result =
  rr_Allowed :: bool
  rr_RetryAfter :: duration
  rr_Scope :: string
  rr_Metric :: string

record limit_spec =
  ls_Key :: string
  ls_Scope :: string
  ls_Metric :: string
  ls_Limit :: int
  ls_Increment :: int

definition allowed_result :: rate_result where
  "allowed_result = \<lparr>rr_Allowed = True, rr_RetryAfter = 0, rr_Scope = [], rr_Metric = []\<rparr>"

definition rate_key :: "string \<Rightarrow> string \<Rightarrow> int \<Rightarrow> string \<Rightarrow> int \<Rightarrow> string" where
  "rate_key prefix scope i metric bucket =
     prefix @ '':ratelimit:'' @ scope @ '':'' @ show_int i @ '':'' @ metric @ '':'' @ show_int bucket"

definition positive_rate :: "int option \<Rightarrow> bool" where
  "positive_rate r = (case r of None \<Rightarrow> False | Some x \<Rightarrow> x > 0)"

text \<open>The two specifications of one scope: requests, and tokens when there are any.\<close>

definition scope_specs :: "string \<Rightarrow> string \<Rightarrow> int \<Rightarrow> int option \<Rightarrow> int option \<Rightarrow> int \<Rightarrow> int \<Rightarrow> limit_spec list" where
  "scope_specs prefix scope i rpm tpm tokens bucket =
     (if positive_rate rpm
      then [\<lparr>ls_Key = rate_key prefix scope i ''rpm'' bucket, ls_Scope = scope, ls_Metric = ''rpm'',
             ls_Limit = the rpm, ls_Increment = 1\<rparr>] else [])
     @ (if positive_rate tpm \<and> tokens > 0
        then [\<lparr>ls_Key = rate_key prefix scope i ''tpm'' bucket, ls_Scope = scope, ls_Metric = ''tpm'',
               ls_Limit = the tpm, ls_Increment = tokens\<rparr>] else [])"

definition windowStart :: "gotime \<Rightarrow> gotime" where
  "windowStart now = now - now mod windowSize"

definition windowEnd :: "gotime \<Rightarrow> gotime" where
  "windowEnd now = windowStart now + windowSize"

definition windowBucket :: "gotime \<Rightarrow> int" where
  "windowBucket now = windowStart now div Second"

definition buildSpecs :: "string \<Rightarrow> rate_check \<Rightarrow> gotime \<Rightarrow> limit_spec list \<times> gotime" where
  "buildSpecs prefix chk now =
     (let bucket = windowBucket now in
      ((case rk_Team chk of None \<Rightarrow> []
        | Some t \<Rightarrow> scope_specs prefix ''team'' (t_ID t) (t_RPM t) (t_TPM t) (rk_Tokens chk) bucket)
       @ (case rk_Key chk of None \<Rightarrow> []
          | Some k \<Rightarrow> scope_specs prefix ''key'' (vk_ID k) (vk_ScopedRPM k) (vk_ScopedTPM k) (rk_Tokens chk) bucket)
       @ (case rk_Customer chk of None \<Rightarrow> []
          | Some c \<Rightarrow> if c_ID c > 0
                     then scope_specs prefix ''customer'' (c_ID c) (c_RPM c) (c_TPM c) (rk_Tokens chk) bucket else []),
       windowEnd now))"

definition maxDuration :: "duration \<Rightarrow> duration \<Rightarrow> duration" where
  "maxDuration a b = (if a > b then a else b)"

section \<open>The local backend\<close>

record memory_counter =
  mc_Used :: int
  mc_ExpiresAt :: gotime

record memory_limiter =
  ml_memory :: "(string \<times> memory_counter) list"
  ml_prunedAt :: "gotime option"

definition prune :: "gotime \<Rightarrow> memory_limiter \<Rightarrow> memory_limiter" where
  "prune now l =
     (if (case ml_prunedAt l of None \<Rightarrow> True | Some p \<Rightarrow> now - p \<ge> windowSize)
      then l\<lparr>ml_memory := filter (\<lambda>(k, c). mc_ExpiresAt c > now) (ml_memory l), ml_prunedAt := Some now\<rparr>
      else l)"

text \<open>The first loop: the first specification that would be exceeded, and the map without the
  expired counters met on the way.\<close>

fun memory_check :: "gotime \<Rightarrow> limit_spec list \<Rightarrow> (string \<times> memory_counter) list
    \<Rightarrow> limit_spec option \<times> (string \<times> memory_counter) list" where
  "memory_check now [] m = (None, m)"
| "memory_check now (spec # specs) m =
     (let m' = (case map_of m (ls_Key spec) of
                  Some c \<Rightarrow> if \<not> mc_ExpiresAt c > now then AList.delete (ls_Key spec) m else m
                | None \<Rightarrow> m);
          used = (case map_of m' (ls_Key spec) of Some c \<Rightarrow> mc_Used c | None \<Rightarrow> 0)
      in if used > ls_Limit spec \<or> ls_Increment spec > ls_Limit spec - used then (Some spec, m')
         else memory_check now specs m')"

definition memory_add :: "gotime \<Rightarrow> limit_spec \<Rightarrow> (string \<times> memory_counter) list \<Rightarrow> (string \<times> memory_counter) list" where
  "memory_add window_end spec m =
     (let used = (case map_of m (ls_Key spec) of Some c \<Rightarrow> mc_Used c | None \<Rightarrow> 0) in
      AList.update (ls_Key spec) \<lparr>mc_Used = used + ls_Increment spec, mc_ExpiresAt = window_end\<rparr> m)"

definition checkMemory ::
  "limit_spec list \<Rightarrow> gotime \<Rightarrow> gotime \<Rightarrow> memory_limiter \<Rightarrow> (string + rate_result) \<times> memory_limiter" where
  "checkMemory specs now window_end l0 =
     (let l = prune now l0;
          missing = length (filter (\<lambda>spec. map_of (ml_memory l) (ls_Key spec) = None) specs)
      in if length (ml_memory l) + missing > 65536 then (Inl ''local rate counter capacity exhausted'', l)
         else (case memory_check now specs (ml_memory l) of
                 (Some spec, m) \<Rightarrow>
                   (Inr \<lparr>rr_Allowed = False, rr_RetryAfter = maxDuration (window_end - now) Second,
                         rr_Scope = ls_Scope spec, rr_Metric = ls_Metric spec\<rparr>, l\<lparr>ml_memory := m\<rparr>)
               | (None, m) \<Rightarrow> (Inr allowed_result, l\<lparr>ml_memory := fold (memory_add window_end) specs m\<rparr>)))"

section \<open>The Redis backend\<close>

text \<open>A key holds a number and the millisecond at which it expires, if any.\<close>

type_synonym redis_db = "string \<Rightarrow> (int \<times> int option) option"

definition redis_live :: "int \<Rightarrow> redis_db \<Rightarrow> string \<Rightarrow> (int \<times> int option) option" where
  "redis_live now_ms db k =
     (case db k of
        Some (v, Some ex) \<Rightarrow> if ex > now_ms then Some (v, Some ex) else None
      | x \<Rightarrow> x)"

definition redis_GET :: "int \<Rightarrow> redis_db \<Rightarrow> string \<Rightarrow> int" where
  "redis_GET now_ms db k = (case redis_live now_ms db k of Some (v, _) \<Rightarrow> v | None \<Rightarrow> 0)"

definition redis_PTTL :: "int \<Rightarrow> redis_db \<Rightarrow> string \<Rightarrow> int" where
  "redis_PTTL now_ms db k =
     (case redis_live now_ms db k of None \<Rightarrow> -2 | Some (_, None) \<Rightarrow> -1 | Some (_, Some ex) \<Rightarrow> ex - now_ms)"

definition redis_INCRBY :: "int \<Rightarrow> string \<Rightarrow> int \<Rightarrow> redis_db \<Rightarrow> redis_db" where
  "redis_INCRBY now_ms k inc db =
     (case redis_live now_ms db k of
        None \<Rightarrow> db(k \<mapsto> (inc, None)) | Some (v, ex) \<Rightarrow> db(k \<mapsto> (v + inc, ex)))"

definition redis_PEXPIRE :: "int \<Rightarrow> string \<Rightarrow> int \<Rightarrow> redis_db \<Rightarrow> redis_db" where
  "redis_PEXPIRE now_ms k ttl db =
     (if ttl \<le> 0 then db(k := None)
      else (case redis_live now_ms db k of None \<Rightarrow> db | Some (v, _) \<Rightarrow> db(k \<mapsto> (v, Some (now_ms + ttl)))))"

fun script_check :: "int \<Rightarrow> redis_db \<Rightarrow> int \<Rightarrow> nat \<Rightarrow> limit_spec list \<Rightarrow> (nat \<times> int) option" where
  "script_check now_ms db default_ttl i [] = None"
| "script_check now_ms db default_ttl i (spec # specs) =
     (if redis_GET now_ms db (ls_Key spec) + ls_Increment spec > ls_Limit spec
      then let ttl = redis_PTTL now_ms db (ls_Key spec) in Some (i, if ttl < 0 then default_ttl else ttl)
      else script_check now_ms db default_ttl (Suc i) specs)"

definition script_add :: "int \<Rightarrow> int \<Rightarrow> limit_spec \<Rightarrow> redis_db \<Rightarrow> redis_db" where
  "script_add now_ms default_ttl spec db =
     (let db' = redis_INCRBY now_ms (ls_Key spec) (ls_Increment spec) db in
      if redis_GET now_ms db' (ls_Key spec) = ls_Increment spec
      then redis_PEXPIRE now_ms (ls_Key spec) default_ttl db' else db')"

text \<open>\<open>allowScript\<close>: the reply \<open>{allowed, index, ttl}\<close>.\<close>

definition allowScript :: "int \<Rightarrow> int \<Rightarrow> limit_spec list \<Rightarrow> redis_db \<Rightarrow> (int \<times> int \<times> int) \<times> redis_db" where
  "allowScript now_ms default_ttl specs db =
     (case script_check now_ms db default_ttl 1 specs of
        Some (i, ttl) \<Rightarrow> ((0, int i, ttl), db)
      | None \<Rightarrow> ((1, 0, 0), fold (script_add now_ms default_ttl) specs db))"

definition checkRedis ::
  "int \<Rightarrow> limit_spec list \<Rightarrow> gotime \<Rightarrow> gotime \<Rightarrow> redis_db \<Rightarrow> (string + rate_result) \<times> redis_db" where
  "checkRedis redis_ms specs now window_end db =
     (let retryAfter = (if window_end - now \<le> 0 then Second else window_end - now);
          ((allowed, index, ttlMs), db') = allowScript redis_ms (retryAfter sdiv Millisecond) specs db
      in if allowed = 1 then (Inr allowed_result, db')
         else let specIdx = (if index - 1 < 0 \<or> index - 1 \<ge> int (length specs) then 0 else nat (index - 1)) in
              (Inr \<lparr>rr_Allowed = False, rr_RetryAfter = maxDuration (ttlMs * Millisecond) Second,
                    rr_Scope = ls_Scope (specs ! specIdx), rr_Metric = ls_Metric (specs ! specIdx)\<rparr>, db'))"

section \<open>The limiter\<close>

datatype rate_backend = Memory_Backend memory_limiter | Redis_Backend redis_db

record rate_limiter =
  rl_keyPrefix :: string
  rl_backend :: rate_backend

definition New_limiter :: rate_limiter where
  "New_limiter = \<lparr>rl_keyPrefix = ''aiport'', rl_backend = Memory_Backend \<lparr>ml_memory = [], ml_prunedAt = None\<rparr>\<rparr>"

definition NewRedis_limiter :: "string \<Rightarrow> redis_db \<Rightarrow> rate_limiter" where
  "NewRedis_limiter keyPrefix db =
     \<lparr>rl_keyPrefix = (if keyPrefix = [] then ''aiport'' else keyPrefix), rl_backend = Redis_Backend db\<rparr>"

text \<open>\<open>Check\<close>; a nil limiter allows everything.\<close>

definition Check_rate ::
  "int \<Rightarrow> gotime \<Rightarrow> rate_check \<Rightarrow> rate_limiter option \<Rightarrow> (string + rate_result) \<times> rate_limiter option" where
  "Check_rate redis_ms now chk0 limiter =
     (case limiter of
        None \<Rightarrow> (Inr allowed_result, None)
      | Some l \<Rightarrow>
          let chk = (if rk_Tokens chk0 < 0 then chk0\<lparr>rk_Tokens := 0\<rparr> else chk0) in
          if (case rk_Customer chk of None \<Rightarrow> False
              | Some c \<Rightarrow> (case rk_Team chk of None \<Rightarrow> True | Some t \<Rightarrow> c_TeamID c \<noteq> t_ID t))
          then (Inl ''customer rate policy team mismatch'', limiter)
          else let (specs, window_end) = buildSpecs (rl_keyPrefix l) chk now in
            if specs = [] then (Inr allowed_result, limiter)
            else (case rl_backend l of
                    Redis_Backend db \<Rightarrow>
                      let (r, db') = checkRedis redis_ms specs now window_end db in
                      (r, Some (l\<lparr>rl_backend := Redis_Backend db'\<rparr>))
                  | Memory_Backend m \<Rightarrow>
                      let (r, m') = checkMemory specs now window_end m in
                      (r, Some (l\<lparr>rl_backend := Memory_Backend m'\<rparr>))))"

section \<open>Token estimates\<close>

definition estimateTextTokens :: "string \<Rightarrow> int" where
  "estimateTextTokens text = (if text = [] then 0 else (int (length text) + 3) sdiv 4)"

text \<open>A chat request, as far as the estimate reads it: the texts of its messages and its output limit.\<close>

definition EstimateChatUsage :: "(string list \<times> int option) option \<Rightarrow> int \<times> int" where
  "EstimateChatUsage req =
     (case req of
        None \<Rightarrow> (0, 0)
      | Some (messages, limit) \<Rightarrow>
          let prompt = sum_list (map estimateTextTokens messages);
              completion = (case limit of Some l \<Rightarrow> if l > 0 then l else 0 | None \<Rightarrow> 0)
          in (if prompt = 0 \<and> messages \<noteq> [] then int (length messages) else prompt, completion))"

definition EstimateChatTokens :: "(string list \<times> int option) option \<Rightarrow> int" where
  "EstimateChatTokens req = wrap64 (fst (EstimateChatUsage req) + snd (EstimateChatUsage req))"

record embedding_input =
  ei_Texts :: "string list"
  ei_Tokens :: "int list list"

definition IsTokenized :: "embedding_input \<Rightarrow> bool" where
  "IsTokenized i \<longleftrightarrow> ei_Tokens i \<noteq> []"

definition EmbeddingInput_Len :: "embedding_input \<Rightarrow> int" where
  "EmbeddingInput_Len i = (if IsTokenized i then int (length (ei_Tokens i)) else int (length (ei_Texts i)))"

definition EstimateEmbeddingTokens :: "embedding_input option \<Rightarrow> int" where
  "EstimateEmbeddingTokens req =
     (case req of
        None \<Rightarrow> 0
      | Some i \<Rightarrow>
          if IsTokenized i then sum_list (map (\<lambda>tokens. int (length tokens)) (ei_Tokens i))
          else let n = sum_list (map estimateTextTokens (ei_Texts i)) in
               if n = 0 \<and> EmbeddingInput_Len i > 0 then EmbeddingInput_Len i else n)"

section \<open>What a backend provides\<close>

text \<open>The specifications of one check: distinct counters, positive increments.\<close>

definition specs_ok :: "limit_spec list \<Rightarrow> bool" where
  "specs_ok specs \<longleftrightarrow> distinct (map ls_Key specs) \<and> (\<forall>sp \<in> set specs. 0 < ls_Increment sp)"

definition increment_for :: "string \<Rightarrow> limit_spec list \<Rightarrow> int" where
  "increment_for k specs = sum_list (map ls_Increment (filter (\<lambda>sp. ls_Key sp = k) specs))"

lemma increment_for_single:
  "distinct (map ls_Key specs) \<Longrightarrow> sp \<in> set specs \<Longrightarrow> ls_Key sp = k \<Longrightarrow> increment_for k specs = ls_Increment sp"
proof (induction specs)
  case (Cons a specs)
  have "filter (\<lambda>sp. ls_Key sp = k) specs = []" if "ls_Key a = k"
    using Cons.prems(1) that by (simp add: filter_empty_conv) (metis imageI)
  with Cons show ?case by (auto simp: increment_for_def)
qed simp

lemma increment_for_none: "k \<notin> ls_Key ` set specs \<Longrightarrow> increment_for k specs = 0"
  by (induction specs) (auto simp: increment_for_def)

definition granted_for :: "string \<Rightarrow> limit_spec list \<Rightarrow> string + rate_result \<Rightarrow> int" where
  "granted_for k specs res =
     (case res of Inr r \<Rightarrow> if rr_Allowed r then increment_for k specs else 0 | Inl _ \<Rightarrow> 0)"

text \<open>A run of checks in the window that ends at \<open>e\<close>: the sum granted to counter \<open>k\<close>.\<close>

fun rate_run :: "(limit_spec list \<Rightarrow> gotime \<Rightarrow> gotime \<Rightarrow> 's \<Rightarrow> (string + rate_result) \<times> 's) \<Rightarrow> gotime \<Rightarrow> string
    \<Rightarrow> (gotime \<times> limit_spec list) list \<Rightarrow> 's \<Rightarrow> int \<times> 's" where
  "rate_run check e k [] s = (0, s)"
| "rate_run check e k ((now, specs) # cs) s =
     (let (res, s') = check specs now e s; (rest, s'') = rate_run check e k cs s'
      in (granted_for k specs res + rest, s''))"

text \<open>A counting backend: \<open>used s t k\<close> is what counter \<open>k\<close> stands at at time \<open>t\<close>. A check is granted if
  and only if every counter has room, a granted check adds its increments to exactly its own
  counters until the end of the window, any other outcome changes no counter. \<open>tick\<close> is the
  granularity of the backend's clock.\<close>

locale window_limiter =
  fixes used :: "'s \<Rightarrow> gotime \<Rightarrow> string \<Rightarrow> int"
    and check :: "limit_spec list \<Rightarrow> gotime \<Rightarrow> gotime \<Rightarrow> 's \<Rightarrow> (string + rate_result) \<times> 's"
    and tick :: "gotime \<Rightarrow> bool" and valid :: "'s \<Rightarrow> bool"
  assumes granted_iff: "valid s \<Longrightarrow> tick now \<Longrightarrow> tick e \<Longrightarrow> now < e \<Longrightarrow> specs_ok specs \<Longrightarrow> check specs now e s = (Inr r, s') \<Longrightarrow>
      rr_Allowed r \<longleftrightarrow> (\<forall>sp \<in> set specs. used s now (ls_Key sp) + ls_Increment sp \<le> ls_Limit sp)"
    and used_granted: "valid s \<Longrightarrow> tick now \<Longrightarrow> tick e \<Longrightarrow> specs_ok specs \<Longrightarrow> check specs now e s = (Inr r, s') \<Longrightarrow> rr_Allowed r \<Longrightarrow>
      now \<le> t \<Longrightarrow> t < e \<Longrightarrow> tick t \<Longrightarrow> (\<And>t. now \<le> t \<Longrightarrow> t < e \<Longrightarrow> tick t \<Longrightarrow> used s t k = used s now k) \<Longrightarrow>
      used s' t k = used s now k + increment_for k specs"
    and used_refused: "valid s \<Longrightarrow> tick now \<Longrightarrow> tick e \<Longrightarrow> now < e \<Longrightarrow> specs_ok specs \<Longrightarrow> check specs now e s = (res, s') \<Longrightarrow>
      (\<And>r. res = Inr r \<Longrightarrow> \<not> rr_Allowed r) \<Longrightarrow> now \<le> t \<Longrightarrow> tick t \<Longrightarrow> used s' t k = used s t k"
    and valid_check: "valid s \<Longrightarrow> tick now \<Longrightarrow> tick e \<Longrightarrow> now < e \<Longrightarrow> specs_ok specs \<Longrightarrow> check specs now e s = (res, s') \<Longrightarrow> valid s'"
begin

lemma run_bounded:
  assumes "valid s" and "tick e" and "\<And>t. t0 \<le> t \<Longrightarrow> t < e \<Longrightarrow> tick t \<Longrightarrow> used s t k = u0" and "u0 \<le> L"
    and "sorted (map fst cs)" and "\<And>c. c \<in> set cs \<Longrightarrow> t0 \<le> fst c \<and> fst c < e \<and> tick (fst c) \<and> specs_ok (snd c)"
    and "\<And>c sp. c \<in> set cs \<Longrightarrow> sp \<in> set (snd c) \<Longrightarrow> ls_Key sp = k \<Longrightarrow> ls_Limit sp \<le> L"
  shows "u0 + fst (rate_run check e k cs s) \<le> L"
  using assms
proof (induction cs arbitrary: s u0 t0)
  case (Cons c cs)
  obtain now specs where c: "c = (now, specs)" by fastforce
  have now: "t0 \<le> now" "now < e" "tick now" "specs_ok specs" using Cons.prems(6) [of c] c by auto
  obtain res s' where chk: "check specs now e s = (res, s')" by fastforce
  define g where "g = granted_for k specs res"
  have u0: "used s t k = u0" if "now \<le> t" "t < e" "tick t" for t using Cons.prems(3) now(1) that by simp
  have v: "valid s'" using valid_check [OF Cons.prems(1) now(3) Cons.prems(2) now(2,4) chk] .
  have step: "(\<forall>t. now \<le> t \<longrightarrow> t < e \<longrightarrow> tick t \<longrightarrow> used s' t k = u0 + g) \<and> u0 + g \<le> L"
  proof (cases "\<exists>r. res = Inr r \<and> rr_Allowed r")
    case True
    then obtain r where r: "res = Inr r" "rr_Allowed r" by blast
    have all: "\<forall>sp \<in> set specs. used s now (ls_Key sp) + ls_Increment sp \<le> ls_Limit sp"
      using granted_iff [OF Cons.prems(1) now(3) Cons.prems(2) now(2,4) chk [unfolded r]] r by simp
    have g: "g = increment_for k specs" using r by (simp add: g_def granted_for_def)
    have "u0 + g \<le> L"
    proof (cases "\<exists>sp \<in> set specs. ls_Key sp = k")
      case True
      then obtain sp where sp: "sp \<in> set specs" "ls_Key sp = k" by blast
      then have "g = ls_Increment sp" using now(4) by (simp add: g specs_ok_def increment_for_single)
      moreover have "ls_Limit sp \<le> L" using Cons.prems(7) [of c sp] sp by (simp add: c)
      moreover have "u0 + ls_Increment sp \<le> ls_Limit sp" using all sp u0 [of now] now by fastforce
      ultimately show ?thesis by simp
    next
      case False
      then have "k \<notin> ls_Key ` set specs" by auto
      then show ?thesis using Cons.prems(4) by (simp add: g increment_for_none)
    qed
    moreover have "used s' t k = u0 + g" if t: "now \<le> t" "t < e" "tick t" for t
    proof -
      have "used s' t k = used s now k + increment_for k specs"
        by (rule used_granted [OF Cons.prems(1) now(3) Cons.prems(2) now(4) chk [unfolded r(1)] r(2) t])
           (use u0 now in simp)
      then show ?thesis using u0 [of now] now by (simp add: g)
    qed
    ultimately show ?thesis by simp
  next
    case False
    then have "g = 0" by (auto simp: g_def granted_for_def split: sum.splits)
    moreover have "used s' t k = used s t k" if "now \<le> t" "tick t" for t
      using used_refused [OF Cons.prems(1) now(3) Cons.prems(2) now(2,4) chk _ that] False by blast
    ultimately show ?thesis using u0 Cons.prems(4) by simp
  qed
  have "u0 + g + fst (rate_run check e k cs s') \<le> L"
  proof (rule Cons.IH [OF v Cons.prems(2)])
    show "used s' t k = u0 + g" if "now \<le> t" "t < e" "tick t" for t using step that by blast
    show "u0 + g \<le> L" using step by blast
    show "sorted (map fst cs)" using Cons.prems(5) by simp
    show "now \<le> fst d \<and> fst d < e \<and> tick (fst d) \<and> specs_ok (snd d)" if "d \<in> set cs" for d
      using Cons.prems(5) Cons.prems(6) [of d] that by (simp add: c)
    show "ls_Limit sp \<le> L" if "d \<in> set cs" "sp \<in> set (snd d)" "ls_Key sp = k" for d sp
      using Cons.prems(7) [of d sp] that by simp
  qed
  then show ?case by (auto simp: c chk g_def Let_def split: prod.splits)
qed simp

end

section \<open>The local backend provides it\<close>

definition unexpired :: "gotime \<Rightarrow> memory_counter option \<Rightarrow> memory_counter option" where
  "unexpired now x = (case x of Some c \<Rightarrow> if mc_ExpiresAt c > now then Some c else None | None \<Rightarrow> None)"

definition counter_value :: "memory_counter option \<Rightarrow> int" where
  "counter_value x = (case x of Some c \<Rightarrow> mc_Used c | None \<Rightarrow> 0)"

definition mem_used :: "memory_limiter \<Rightarrow> gotime \<Rightarrow> string \<Rightarrow> int" where
  "mem_used l t k = counter_value (unexpired t (map_of (ml_memory l) k))"

definition mem_valid :: "memory_limiter \<Rightarrow> bool" where
  "mem_valid l \<longleftrightarrow> distinct (map fst (ml_memory l))"

lemma unexpired_later: "now \<le> t \<Longrightarrow> unexpired t (unexpired now x) = unexpired t x"
  by (auto simp: unexpired_def split: option.splits)

lemma map_of_filter_distinct:
  "distinct (map fst xs) \<Longrightarrow>
   map_of (filter (\<lambda>(k, c). P c) xs) k = (case map_of xs k of Some c \<Rightarrow> if P c then Some c else None | None \<Rightarrow> None)"
  by (induction xs) (auto split: option.splits dest: map_of_SomeD intro!: rev_image_eqI)

lemma prune_map:
  assumes "mem_valid l"
  shows "mem_valid (prune now l)"
    and "map_of (ml_memory (prune now l)) k \<in> {map_of (ml_memory l) k, unexpired now (map_of (ml_memory l) k)}"
  using assms by (auto simp: prune_def mem_valid_def unexpired_def distinct_map_filter map_of_filter_distinct)

lemma prune_used: "mem_valid l \<Longrightarrow> now \<le> t \<Longrightarrow> mem_used (prune now l) t k = mem_used l t k"
  using prune_map(2) [of l now k] unexpired_later [of now t] by (auto simp: mem_used_def)

definition evict :: "gotime \<Rightarrow> limit_spec \<Rightarrow> (string \<times> memory_counter) list \<Rightarrow> (string \<times> memory_counter) list" where
  "evict now spec m = (case map_of m (ls_Key spec) of
     Some c \<Rightarrow> if \<not> mc_ExpiresAt c > now then AList.delete (ls_Key spec) m else m | None \<Rightarrow> m)"

lemma evict_map:
  "map_of (evict now spec m) k = (if k = ls_Key spec then unexpired now (map_of m k) else map_of m k)"
  by (auto simp: evict_def unexpired_def delete_conv split: option.splits)

lemma evict_distinct: "distinct (map fst m) \<Longrightarrow> distinct (map fst (evict now spec m))"
  by (auto simp: evict_def distinct_delete split: option.splits)

lemma memory_check_Cons:
  "memory_check now (spec # specs) m =
     (if counter_value (unexpired now (map_of m (ls_Key spec))) + ls_Increment spec > ls_Limit spec
         \<or> counter_value (unexpired now (map_of m (ls_Key spec))) > ls_Limit spec
      then (Some spec, evict now spec m) else memory_check now specs (evict now spec m))"
proof -
  have "(case map_of (evict now spec m) (ls_Key spec) of Some c \<Rightarrow> mc_Used c | None \<Rightarrow> 0)
      = counter_value (unexpired now (map_of m (ls_Key spec)))"
    by (simp add: evict_map counter_value_def)
  then show ?thesis by (auto simp: evict_def [symmetric] Let_def)
qed

declare memory_check.simps(2) [simp del]

lemma memory_check_spec:
  assumes "memory_check now specs m = (r, m')" and "specs_ok specs" and "distinct (map fst m)"
  shows "distinct (map fst m') \<and> (r = None \<longleftrightarrow> (\<forall>sp \<in> set specs. counter_value (unexpired now (map_of m (ls_Key sp))) + ls_Increment sp \<le> ls_Limit sp))
    \<and> (\<forall>k. map_of m' k \<in> {map_of m k, unexpired now (map_of m k)})
    \<and> (r = None \<longrightarrow> (\<forall>sp \<in> set specs. map_of m' (ls_Key sp) = unexpired now (map_of m (ls_Key sp)))
        \<and> (\<forall>k. k \<notin> ls_Key ` set specs \<longrightarrow> map_of m' k = map_of m k))"
  using assms
proof (induction specs arbitrary: m)
  case (Cons spec specs)
  let ?v = "counter_value (unexpired now (map_of m (ls_Key spec)))"
  have inc: "0 < ls_Increment spec" and ok: "specs_ok specs" and nk: "ls_Key spec \<notin> ls_Key ` set specs"
    using Cons.prems(2) by (auto simp: specs_ok_def)
  show ?case
  proof (cases "?v + ls_Increment spec > ls_Limit spec")
    case True
    then have "r = Some spec" "m' = evict now spec m" using Cons.prems(1) by (simp_all add: memory_check_Cons)
    with True show ?thesis using evict_distinct [OF Cons.prems(3)] by (auto simp: evict_map not_le)
  next
    case False
    then have rec: "memory_check now specs (evict now spec m) = (r, m')"
      using Cons.prems(1) inc by (simp add: memory_check_Cons)
    have same: "map_of (evict now spec m) (ls_Key sp) = map_of m (ls_Key sp)" if "sp \<in> set specs" for sp
      using nk that by (simp add: evict_map) (metis imageI)
    note ih = Cons.IH [OF rec ok evict_distinct [OF Cons.prems(3)]]
    have "unexpired now (unexpired now x) = unexpired now x" for x by (simp add: unexpired_later)
    then have mem: "map_of m' k \<in> {map_of m k, unexpired now (map_of m k)}" for k
      using ih by (metis (no_types, lifting) evict_map insert_iff singletonD)
    show ?thesis using ih mem False same nk
      by (auto simp: not_le evict_map)
  qed
qed simp

lemma memory_add_fold:
  assumes "distinct (map ls_Key specs)"
  shows "map_of (fold (memory_add e) specs m) k =
    (if k \<in> ls_Key ` set specs then Some \<lparr>mc_Used = counter_value (map_of m k) + increment_for k specs, mc_ExpiresAt = e\<rparr>
     else map_of m k)"
  using assms
proof (induction specs arbitrary: m)
  case (Cons spec specs)
  have add: "map_of (memory_add e spec m) k = (if k = ls_Key spec
      then Some \<lparr>mc_Used = counter_value (map_of m k) + ls_Increment spec, mc_ExpiresAt = e\<rparr> else map_of m k)"
    by (simp add: memory_add_def Let_def update_conv counter_value_def)
  show ?case
  proof (cases "k = ls_Key spec")
    case True
    then have "k \<notin> ls_Key ` set specs" using Cons.prems by simp
    then have "increment_for k (spec # specs) = ls_Increment spec"
      using True increment_for_none [of k specs] by (simp add: increment_for_def)
    then show ?thesis using Cons True add \<open>k \<notin> ls_Key ` set specs\<close> by simp
  next
    case False
    then have "increment_for k (spec # specs) = increment_for k specs" by (simp add: increment_for_def)
    then show ?thesis using Cons False add by auto
  qed
qed simp

lemma memory_add_distinct: "distinct (map fst m) \<Longrightarrow> distinct (map fst (fold (memory_add e) specs m))"
  by (induction specs arbitrary: m) (simp_all add: memory_add_def Let_def distinct_update)

lemma mem_used_prune_now: "mem_valid l \<Longrightarrow> counter_value (unexpired now (map_of (ml_memory (prune now l)) k)) = mem_used l now k"
  using prune_used [of l now now k] by (simp add: mem_used_def)

lemma checkMemory_granted:
  assumes "checkMemory specs now e l0 = (Inr r, l')" and "rr_Allowed r" and "specs_ok specs" and "mem_valid l0"
  shows "mem_valid l'" and "\<forall>sp \<in> set specs. mem_used l0 now (ls_Key sp) + ls_Increment sp \<le> ls_Limit sp"
    and "now \<le> t \<Longrightarrow> t < e \<Longrightarrow> mem_used l' t k =
      (if k \<in> ls_Key ` set specs then mem_used l0 now k + increment_for k specs else mem_used l0 t k)"
proof -
  let ?p = "prune now l0"
  have vp: "mem_valid ?p" using prune_map(1) [OF assms(4)] .
  obtain m where mc: "memory_check now specs (ml_memory ?p) = (None, m)"
    and l': "l' = ?p\<lparr>ml_memory := fold (memory_add e) specs m\<rparr>"
    using assms(1,2) by (auto simp: checkMemory_def Let_def split: if_splits prod.splits option.splits)
  note spec = memory_check_spec [OF mc assms(3) vp [unfolded mem_valid_def]]
  show "mem_valid l'" using spec memory_add_distinct by (simp add: l' mem_valid_def)
  show "\<forall>sp \<in> set specs. mem_used l0 now (ls_Key sp) + ls_Increment sp \<le> ls_Limit sp"
    using spec by (simp add: mem_used_prune_now [OF assms(4)])
  assume t: "now \<le> t" "t < e"
  have dk: "distinct (map ls_Key specs)" using assms(3) by (simp add: specs_ok_def)
  show "mem_used l' t k = (if k \<in> ls_Key ` set specs then mem_used l0 now k + increment_for k specs else mem_used l0 t k)"
  proof (cases "k \<in> ls_Key ` set specs")
    case True
    then have "map_of m k = unexpired now (map_of (ml_memory ?p) k)" using spec by auto
    then have "counter_value (map_of m k) = mem_used l0 now k" by (simp add: mem_used_prune_now [OF assms(4)])
    then show ?thesis using True t
      by (simp add: l' mem_used_def memory_add_fold [OF dk]) (simp add: unexpired_def counter_value_def)
  next
    case False
    then have "mem_used l' t k = mem_used ?p t k" using spec by (simp add: l' mem_used_def memory_add_fold [OF dk])
    then show ?thesis using False prune_used [OF assms(4) t(1)] by simp
  qed
qed

lemma checkMemory_refused:
  assumes "checkMemory specs now e l0 = (res, l')" and "\<And>r. res = Inr r \<Longrightarrow> \<not> rr_Allowed r"
    and "specs_ok specs" and "mem_valid l0"
  shows "mem_valid l'" and "now \<le> t \<Longrightarrow> mem_used l' t k = mem_used l0 t k"
    and "res = Inr r \<Longrightarrow> \<exists>sp \<in> set specs. mem_used l0 now (ls_Key sp) + ls_Increment sp > ls_Limit sp"
proof -
  let ?p = "prune now l0"
  have vp: "mem_valid ?p" using prune_map(1) [OF assms(4)] .
  consider (full) "l' = ?p" "\<And>r. res \<noteq> Inr r"
    | (over) spec m where "memory_check now specs (ml_memory ?p) = (Some spec, m)" "l' = ?p\<lparr>ml_memory := m\<rparr>"
  proof (cases "length (ml_memory ?p) + length (filter (\<lambda>spec. map_of (ml_memory ?p) (ls_Key spec) = None) specs) > 65536")
    case True
    then show thesis using assms(1) by (intro full) (auto simp: checkMemory_def Let_def)
  next
    case False
    obtain o' m where mc: "memory_check now specs (ml_memory ?p) = (o', m)" by fastforce
    then have "o' \<noteq> None" using assms(1,2) False by (cases o') (auto simp: checkMemory_def Let_def allowed_result_def)
    then show thesis using assms(1) False mc by (auto simp: checkMemory_def Let_def intro: over)
  qed
  then have "mem_valid l' \<and> (now \<le> t \<longrightarrow> mem_used l' t k = mem_used l0 t k)
      \<and> (res = Inr r \<longrightarrow> (\<exists>sp \<in> set specs. mem_used l0 now (ls_Key sp) + ls_Increment sp > ls_Limit sp))"
  proof cases
    case full
    then show ?thesis using vp prune_used [OF assms(4)] by simp
  next
    case (over spec m)
    note sp = memory_check_spec [OF over(1) assms(3) vp [unfolded mem_valid_def]]
    have "map_of m k \<in> {map_of (ml_memory ?p) k, unexpired now (map_of (ml_memory ?p) k)}" using sp by blast
    then have "now \<le> t \<longrightarrow> mem_used l' t k = mem_used ?p t k"
      using unexpired_later [of now t] by (auto simp: mem_used_def over(2))
    moreover have "\<exists>q \<in> set specs. mem_used l0 now (ls_Key q) + ls_Increment q > ls_Limit q"
      using sp by (auto simp: mem_used_prune_now [OF assms(4)] not_le)
    ultimately show ?thesis using sp prune_used [OF assms(4)] by (simp add: over(2) mem_valid_def)
  qed
  then show "mem_valid l'" "now \<le> t \<Longrightarrow> mem_used l' t k = mem_used l0 t k"
    "res = Inr r \<Longrightarrow> \<exists>sp \<in> set specs. mem_used l0 now (ls_Key sp) + ls_Increment sp > ls_Limit sp" by blast+
qed

interpretation memory: window_limiter mem_used checkMemory "\<lambda>_. True" mem_valid
proof unfold_locales
  fix s s' :: memory_limiter and now e specs r
  assume a: "mem_valid s" "specs_ok specs" "checkMemory specs now e s = (Inr r, s')"
  show "rr_Allowed r \<longleftrightarrow> (\<forall>sp \<in> set specs. mem_used s now (ls_Key sp) + ls_Increment sp \<le> ls_Limit sp)"
  proof (cases "rr_Allowed r")
    case True
    then show ?thesis using checkMemory_granted(2) [OF a(3) _ a(2,1)] by simp
  next
    case False
    then show ?thesis using checkMemory_refused(3) [OF a(3) _ a(2,1)] by fastforce
  qed
next
  fix s s' :: memory_limiter and now e specs r t k
  assume a: "mem_valid s" "specs_ok specs" "checkMemory specs now e s = (Inr r, s')" "rr_Allowed r" "now \<le> t" "t < e"
    and const: "\<And>t. now \<le> t \<Longrightarrow> t < e \<Longrightarrow> True \<Longrightarrow> mem_used s t k = mem_used s now k"
  show "mem_used s' t k = mem_used s now k + increment_for k specs"
    using checkMemory_granted(3) [OF a(3,4,2,1,5,6), of k] const [OF a(5,6)] increment_for_none [of k specs] by auto
next
  fix s s' :: memory_limiter and now e specs res t k
  assume "mem_valid s" "specs_ok specs" "checkMemory specs now e s = (res, s')" "\<And>r. res = Inr r \<Longrightarrow> \<not> rr_Allowed r" "now \<le> t"
  then show "mem_used s' t k = mem_used s t k" using checkMemory_refused(2) by blast
next
  fix s s' :: memory_limiter and specs now e res
  assume a: "mem_valid s" "specs_ok specs" "checkMemory specs now e s = (res, s')"
  show "mem_valid s'"
  proof (cases "\<exists>r. res = Inr r \<and> rr_Allowed r")
    case True
    then show ?thesis using checkMemory_granted(1) a by blast
  next
    case False
    then show ?thesis using checkMemory_refused(1) [OF a(3) _ a(2,1)] by blast
  qed
qed

section \<open>The Redis backend provides it\<close>

definition ms :: "gotime \<Rightarrow> int" where
  "ms t = t div Millisecond"

definition on_ms :: "gotime \<Rightarrow> bool" where
  "on_ms t \<longleftrightarrow> t mod Millisecond = 0"

definition redis_used :: "redis_db \<Rightarrow> gotime \<Rightarrow> string \<Rightarrow> int" where
  "redis_used db t k = redis_GET (ms t) db k"

definition redis_valid :: "redis_db \<Rightarrow> bool" where
  "redis_valid db \<longleftrightarrow> (\<forall>k v ex. db k = Some (v, ex) \<longrightarrow> 0 < v \<and> ex \<noteq> None)"

text \<open>The gateway and Redis read the same clock.\<close>

definition checkRedis_sync :: "limit_spec list \<Rightarrow> gotime \<Rightarrow> gotime \<Rightarrow> redis_db \<Rightarrow> (string + rate_result) \<times> redis_db" where
  "checkRedis_sync specs now e db = checkRedis (ms now) specs now e db"

lemma ms_mult: "on_ms t \<Longrightarrow> t = ms t * 1000000"
  using div_mult_mod_eq [of t 1000000] by (simp add: on_ms_def ms_def)

lemma ms_less: "on_ms t \<Longrightarrow> on_ms e \<Longrightarrow> t < e \<longleftrightarrow> ms t < ms e"
  using ms_mult [of t] ms_mult [of e] by linarith

lemma ms_le: "on_ms t \<Longrightarrow> on_ms e \<Longrightarrow> t \<le> e \<longleftrightarrow> ms t \<le> ms e"
  using ms_mult [of t] ms_mult [of e] by linarith

lemma redis_live_valid: "redis_valid db \<Longrightarrow> redis_live n db k =
    (case db k of Some (v, Some ex) \<Rightarrow> if ex > n then Some (v, Some ex) else None | _ \<Rightarrow> None)"
  by (auto simp: redis_live_def redis_valid_def split: option.splits)

lemma script_add_eq:
  assumes "redis_valid db" and "0 < ttl" and "0 < ls_Increment spec"
  shows "script_add n ttl spec db = db(ls_Key spec \<mapsto> (case redis_live n db (ls_Key spec) of
      Some (v, ex) \<Rightarrow> (v + ls_Increment spec, ex) | None \<Rightarrow> (ls_Increment spec, Some (n + ttl))))"
proof (cases "redis_live n db (ls_Key spec)")
  case None
  then show ?thesis using assms(2)
    by (simp add: script_add_def redis_INCRBY_def redis_GET_def redis_live_def redis_PEXPIRE_def Let_def)
next
  case (Some p)
  obtain v ex where p: "p = (v, ex)" by fastforce
  from Some p assms(1) have ex: "0 < v" "\<exists>x > n. ex = Some x"
    by (auto simp: redis_live_valid redis_valid_def split: option.splits if_splits)
  then show ?thesis using Some p
    by (auto simp: script_add_def redis_INCRBY_def redis_GET_def redis_live_def Let_def)
qed

lemma script_add_valid:
  assumes "redis_valid db" and "0 < ttl" and "0 < ls_Increment spec"
  shows "redis_valid (script_add n ttl spec db)"
proof -
  have live: "0 < v \<and> ex \<noteq> None" if "redis_live n db k = Some (v, ex)" for k v ex
    using assms(1) that by (auto simp: redis_live_valid redis_valid_def split: option.splits if_splits)
  show ?thesis
  proof (cases "redis_live n db (ls_Key spec)")
    case None
    then show ?thesis using assms by (auto simp: script_add_eq redis_valid_def)
  next
    case (Some p)
    then show ?thesis using assms live [of "ls_Key spec" "fst p" "snd p"]
      by (auto simp: script_add_eq redis_valid_def split: prod.splits)
  qed
qed

lemma script_fold:
  assumes "redis_valid db" and "0 < ttl" and "specs_ok specs"
  shows "redis_valid (fold (script_add n ttl) specs db) \<and> fold (script_add n ttl) specs db k =
    (if k \<in> ls_Key ` set specs then Some (case redis_live n db k of
        Some (v, ex) \<Rightarrow> (v + increment_for k specs, ex) | None \<Rightarrow> (increment_for k specs, Some (n + ttl)))
     else db k)"
  using assms
proof (induction specs arbitrary: db)
  case (Cons spec specs)
  have inc: "0 < ls_Increment spec" and ok: "specs_ok specs" and nk: "ls_Key spec \<notin> ls_Key ` set specs"
    using Cons.prems(3) by (auto simp: specs_ok_def)
  let ?db = "script_add n ttl spec db"
  note ih = Cons.IH [OF script_add_valid [OF Cons.prems(1,2) inc, of n] Cons.prems(2) ok]
  have other: "?db k = db k" "redis_live n ?db k = redis_live n db k" if "k \<noteq> ls_Key spec"
    using that by (simp_all add: script_add_eq [OF Cons.prems(1,2) inc] redis_live_def)
  show ?case
  proof (cases "k = ls_Key spec")
    case True
    then have "k \<notin> ls_Key ` set specs" using nk by simp
    moreover have "increment_for (ls_Key spec) (spec # specs) = ls_Increment spec"
      using increment_for_none [OF nk] by (simp add: increment_for_def)
    moreover have "?db (ls_Key spec) = Some (case redis_live n db (ls_Key spec) of
        Some (v, ex) \<Rightarrow> (v + ls_Increment spec, ex) | None \<Rightarrow> (ls_Increment spec, Some (n + ttl)))"
      by (simp add: script_add_eq [OF Cons.prems(1,2) inc])
    ultimately show ?thesis using ih unfolding True by (auto split: option.split)
  next
    case False
    then have "increment_for k (spec # specs) = increment_for k specs" by (simp add: increment_for_def)
    then show ?thesis using ih False other by (auto split: option.split)
  qed
qed simp

lemma script_check_None:
  "script_check n db ttl i specs = None \<longleftrightarrow> (\<forall>sp \<in> set specs. redis_GET n db (ls_Key sp) + ls_Increment sp \<le> ls_Limit sp)"
  by (induction specs arbitrary: i) (auto simp: Let_def)

lemma checkRedis_sync_cases:
  assumes "checkRedis_sync specs now e db = (res, db')" and "on_ms now" "on_ms e"
  shows "(\<exists>r. res = Inr r \<and> rr_Allowed r \<and> now < e \<and> db' = fold (script_add (ms now) (ms e - ms now)) specs db
           \<and> (\<forall>sp \<in> set specs. redis_used db now (ls_Key sp) + ls_Increment sp \<le> ls_Limit sp))
    \<or> (\<exists>r. res = Inr r \<and> \<not> rr_Allowed r \<and> db' = db
           \<and> (\<exists>sp \<in> set specs. redis_used db now (ls_Key sp) + ls_Increment sp > ls_Limit sp))
    \<or> \<not> now < e"
proof (cases "now < e")
  case True
  have "e - now = (ms e - ms now) * 1000000"
    using ms_mult [OF assms(2)] ms_mult [OF assms(3)] by (simp add: left_diff_distrib)
  then have "(e - now) sdiv Millisecond = ms e - ms now" using True by (simp add: sdiv_nonneg)
  then show ?thesis
    using assms(1) True script_check_None [of "ms now" db "ms e - ms now" 1 specs]
    by (cases "script_check (ms now) db (ms e - ms now) 1 specs")
       (auto simp: checkRedis_sync_def checkRedis_def allowScript_def Let_def allowed_result_def redis_used_def not_le split: prod.splits)
qed simp

interpretation redis: window_limiter redis_used checkRedis_sync on_ms redis_valid
proof unfold_locales
  fix s s' now e specs r
  assume "redis_valid s" "on_ms now" "on_ms e" "now < e" "checkRedis_sync specs now e s = (Inr r, s')"
  then show "rr_Allowed r \<longleftrightarrow> (\<forall>sp \<in> set specs. redis_used s now (ls_Key sp) + ls_Increment sp \<le> ls_Limit sp)"
    using checkRedis_sync_cases [of specs now e s "Inr r" s'] by fastforce
next
  fix s s' now e specs r t k
  assume a: "redis_valid s" "on_ms now" "on_ms e" "specs_ok specs" "checkRedis_sync specs now e s = (Inr r, s')" "rr_Allowed r"
    "now \<le> t" "t < e" "on_ms t" and const: "\<And>t. now \<le> t \<Longrightarrow> t < e \<Longrightarrow> on_ms t \<Longrightarrow> redis_used s t k = redis_used s now k"
  have s': "s' = fold (script_add (ms now) (ms e - ms now)) specs s"
    using checkRedis_sync_cases [OF a(5,2,3)] a(6,7,8) by auto
  have lt: "ms now < ms e" "ms t < ms e" "ms now \<le> ms t" using ms_less [of t e] ms_less [of now e] ms_le [of now t] a by auto
  then have ttl: "0 < ms e - ms now" by simp
  note f = script_fold [OF a(1) ttl a(4), of "ms now" k]
  show "redis_used s' t k = redis_used s now k + increment_for k specs"
  proof (cases "k \<in> ls_Key ` set specs")
    case False
    then have "redis_used s' t k = redis_used s t k" using f by (simp add: s' redis_used_def redis_GET_def redis_live_def)
    then show ?thesis using const [OF a(7,8,9)] increment_for_none [OF False] by simp
  next
    case True
    show ?thesis
    proof (cases "redis_live (ms now) s k")
      case None
      then show ?thesis using f True lt by (simp add: s' redis_used_def redis_GET_def redis_live_def)
    next
      case (Some p)
      then obtain v x where p: "p = (v, Some x)" "s k = Some (v, Some x)" "x > ms now" "0 < v"
        using a(1) by (auto simp: redis_live_valid redis_valid_def split: option.splits if_splits)
      have "redis_GET (ms t) s k = v"
        using const [OF a(7,8,9)] Some p by (simp add: redis_used_def redis_GET_def)
      then have "x > ms t" using p by (auto simp: redis_GET_def redis_live_def split: if_splits)
      then show ?thesis using f True Some p by (simp add: s' redis_used_def redis_GET_def redis_live_def)
    qed
  qed
next
  fix s s' now e specs res t k
  assume a: "redis_valid s" "on_ms now" "on_ms e" "now < e" "checkRedis_sync specs now e s = (res, s')"
    "\<And>r. res = Inr r \<Longrightarrow> \<not> rr_Allowed r"
  show "redis_used s' t k = redis_used s t k"
    using checkRedis_sync_cases [OF a(5,2,3)] a(4,6) by auto
next
  fix s s' now e specs res
  assume a: "redis_valid s" "on_ms now" "on_ms e" "now < e" "specs_ok specs" "checkRedis_sync specs now e s = (res, s')"
  have "0 < ms e - ms now" using ms_less [OF a(2,3)] a(4) by simp
  then show "redis_valid s'"
    using checkRedis_sync_cases [OF a(6,2,3)] a(1,4) script_fold [OF a(1) _ a(5)] by auto
qed

section \<open>The specifications of a request\<close>

lemma rate_key_metrics: "rate_key p sc i ''rpm'' b \<noteq> rate_key p sc i ''tpm'' b'"
  by (simp add: rate_key_def)

lemma scope_specs_ok: "specs_ok (scope_specs prefix scope i rpm tpm tokens bucket)"
  by (cases "positive_rate rpm"; cases "positive_rate tpm \<and> tokens > 0")
     (auto simp: specs_ok_def scope_specs_def rate_key_metrics)

lemma scope_specs_key:
  "sp \<in> set (scope_specs prefix scope i rpm tpm tokens bucket) \<Longrightarrow> \<exists>metric. ls_Key sp = rate_key prefix scope i metric bucket"
  by (auto simp: scope_specs_def split: if_splits)

lemma rate_key_scopes:
  "rate_key p ''team'' i m b \<noteq> rate_key p ''key'' i' m' b'"
  "rate_key p ''team'' i m b \<noteq> rate_key p ''customer'' i' m' b'"
  "rate_key p ''key'' i m b \<noteq> rate_key p ''customer'' i' m' b'"
  by (simp_all add: rate_key_def)

lemma specs_ok_append:
  "specs_ok xs \<Longrightarrow> specs_ok ys \<Longrightarrow> (\<And>x y. x \<in> set xs \<Longrightarrow> y \<in> set ys \<Longrightarrow> ls_Key x \<noteq> ls_Key y) \<Longrightarrow> specs_ok (xs @ ys)"
  by (auto simp: specs_ok_def)

lemma buildSpecs_ok: "specs_ok (fst (buildSpecs prefix chk now))"
proof -
  define sc where "sc scope x = (case x of None \<Rightarrow> [] | Some (i, rpm, tpm) \<Rightarrow>
      scope_specs prefix scope i rpm tpm (rk_Tokens chk) (windowBucket now))" for scope and x :: "(int \<times> int option \<times> int option) option"
  define a where "a = map_option (\<lambda>t. (t_ID t, t_RPM t, t_TPM t)) (rk_Team chk)"
  define b where "b = map_option (\<lambda>k. (vk_ID k, vk_ScopedRPM k, vk_ScopedTPM k)) (rk_Key chk)"
  define c where "c = (case rk_Customer chk of None \<Rightarrow> None | Some c \<Rightarrow> if c_ID c > 0 then Some (c_ID c, c_RPM c, c_TPM c) else None)"
  have eq: "fst (buildSpecs prefix chk now) = sc ''team'' a @ sc ''key'' b @ sc ''customer'' c"
    by (simp add: buildSpecs_def Let_def sc_def a_def b_def c_def split: option.split)
  have ok: "specs_ok (sc scope x)" for scope x
    using scope_specs_ok by (auto simp: sc_def specs_ok_def split: option.splits)
  have key: "\<exists>i m. ls_Key sp = rate_key prefix scope i m (windowBucket now)" if "sp \<in> set (sc scope x)" for sp scope x
    using that scope_specs_key by (fastforce simp: sc_def split: option.splits)
  have apart: "ls_Key y \<noteq> ls_Key z" if y: "y \<in> set (sc sy u)" and z: "z \<in> set (sc sz v)"
    and s: "(sy, sz) \<in> {(''team'', ''key''), (''team'', ''customer''), (''key'', ''customer'')}" for y z sy sz u v
  proof -
    obtain i m i' m' where k: "ls_Key y = rate_key prefix sy i m (windowBucket now)"
      "ls_Key z = rate_key prefix sz i' m' (windowBucket now)" using key [OF y] key [OF z] by blast
    from s show ?thesis unfolding k by (elim insertE) (simp_all add: rate_key_scopes)
  qed
  show ?thesis unfolding eq by (intro specs_ok_append ok) (use apart in auto)
qed


definition sample_spec :: limit_spec where
  "sample_spec = \<lparr>ls_Key = ''k'', ls_Scope = ''team'', ls_Metric = ''rpm'', ls_Limit = 2, ls_Increment = 1\<rparr>"

definition sample_checks :: "(gotime \<times> limit_spec list) list" where
  "sample_checks = [(0, [sample_spec]), (0, [sample_spec]), (1000000, [sample_spec])]"

lemma sample_checks_facts:
  "sorted (map fst sample_checks)" "\<forall>c \<in> set sample_checks. 0 \<le> fst c \<and> fst c < Minute \<and> specs_ok (snd c)"
  "\<forall>c \<in> set sample_checks. on_ms (fst c)"
  "\<forall>c \<in> set sample_checks. \<forall>sp \<in> set (snd c). ls_Key sp = ''k'' \<longrightarrow> ls_Limit sp \<le> 2"
  by (auto simp: sample_checks_def sample_spec_def specs_ok_def on_ms_def)


text \<open>The counters of one request never clash: the specifications built for a check have
  pairwise distinct keys and positive increments, and checks in different minutes use different
  keys for the same subject and metric, so that a window never inherits a count.\<close>

theorem rate_keys_separate:
  "specs_ok (fst (buildSpecs prefix chk now))
   \<and> (rate_key prefix scope i metric (windowBucket t) = rate_key prefix scope i metric (windowBucket u)
      \<longleftrightarrow> windowStart t = windowStart u)"
proof -
  have "windowStart t = 60000000000 * (t div 60000000000)" for t
    by (simp add: windowStart_def windowSize_def minus_mod_eq_mult_div)
  then have "windowBucket t = 60 * (t div 60000000000)" for t
    by (simp add: windowBucket_def)
  then show ?thesis using buildSpecs_ok by (simp add: rate_key_def show_int_inject windowStart_def windowSize_def minus_mod_eq_mult_div)
qed

text \<open>C31: A request can step around the token rate: an output limit of the largest integer makes the
  sum of prompt and completion estimate wrap to a negative number, which the limiter treats as
  zero tokens, and a check with no tokens is subject to the request rates only.\<close>

theorem huge_output_limit_skips_token_rate:
  "EstimateChatTokens (Some ([''hi''], Some MaxInt64)) < 0
   \<and> Check_rate redis_ms now (chk\<lparr>rk_Tokens := EstimateChatTokens (Some ([''hi''], Some MaxInt64))\<rparr>) l
     = Check_rate redis_ms now (chk\<lparr>rk_Tokens := 0\<rparr>) l
   \<and> list_all (\<lambda>sp. ls_Metric sp = ''rpm'') (fst (buildSpecs prefix (chk\<lparr>rk_Tokens := 0\<rparr>) now))"
proof -
  have "EstimateChatTokens (Some ([''hi''], Some MaxInt64)) = wrap64 9223372036854775808"
    by (simp add: EstimateChatTokens_def EstimateChatUsage_def estimateTextTokens_def sdiv_nonneg MaxInt64_def)
  also have "\<dots> = MinInt64" unfolding wrap64_def MinInt64_def by code_simp
  finally have neg: "EstimateChatTokens (Some ([''hi''], Some MaxInt64)) < 0" by (simp add: MinInt64_def)
  then have "Check_rate redis_ms now (chk\<lparr>rk_Tokens := EstimateChatTokens (Some ([''hi''], Some MaxInt64))\<rparr>) l
     = Check_rate redis_ms now (chk\<lparr>rk_Tokens := 0\<rparr>) l"
    by (simp add: Check_rate_def split: option.split)
  moreover have "list_all (\<lambda>sp. ls_Metric sp = ''rpm'') (fst (buildSpecs prefix (chk\<lparr>rk_Tokens := 0\<rparr>) now))"
    by (simp add: buildSpecs_def Let_def scope_specs_def split: option.split)
  ultimately show ?thesis using neg by simp
qed

end
