(* ===== verification/Provider_Clients.thy ===== *)
theory Provider_Clients
  imports Gw_Prelude
begin

text \<open>
  Deployments (\<^verbatim>\<open>internal/store/deployments.go\<close>), the capabilities of the provider adapters
  (\<^verbatim>\<open>internal/providers\<close>) and the construction of a client for a deployment
  (\<^verbatim>\<open>buildProvider\<close> of \<^verbatim>\<open>internal/router/router.go\<close>). The loading of cloud credentials for Bedrock and
  Vertex is done by the vendors' libraries: it is the parameter \<open>cloud\<close>, which says whether the
  credentials of a region or a project were found. Environment variables are the parameter
  \<open>getenv\<close>, empty where a variable is not set.
\<close>

section \<open>Capabilities\<close>

record capabilities =
  cap_Chat :: bool
  cap_StreamChat :: bool
  cap_Embeddings :: bool
  cap_Responses :: bool

text \<open>A \<open>Capability\<close> is a string; the empty string asks for none.\<close>

definition CapabilityChat :: string where "CapabilityChat = ''chat''"
definition CapabilityStreamChat :: string where "CapabilityStreamChat = ''stream_chat''"
definition CapabilityEmbeddings :: string where "CapabilityEmbeddings = ''embeddings''"
definition CapabilityResponses :: string where "CapabilityResponses = ''responses''"

lemmas capability_names = CapabilityChat_def CapabilityStreamChat_def CapabilityEmbeddings_def CapabilityResponses_def

definition Supports :: "capabilities \<Rightarrow> string \<Rightarrow> bool" where
  "Supports c capability =
     (if capability = CapabilityChat then cap_Chat c
      else if capability = CapabilityStreamChat then cap_Chat c \<and> cap_StreamChat c
      else if capability = CapabilityEmbeddings then cap_Embeddings c
      else if capability = CapabilityResponses then cap_Responses c
      else True)"

section \<open>Deployments\<close>

record deployment_capabilities =
  dc_Responses :: "bool option"
  dc_Chat :: bool
  dc_StreamChat :: bool
  dc_Embeddings :: bool
  dc_Moderation :: bool
  dc_Rerank :: bool
  dc_Images :: bool
  dc_AudioTranscribe :: bool
  dc_AudioSpeech :: bool
  dc_MessagesPassthrough :: bool

record deployment =
  d_ID :: int
  d_Name :: string
  d_ProviderType :: string
  d_UpstreamModel :: string
  d_CredentialRef :: string
  d_BaseURL :: "string option"
  d_Region :: "string option"
  d_Enabled :: bool
  d_Weight :: int
  d_MaxParallelRequests :: "int option"
  d_Tags :: "string list"
  d_Capabilities :: "deployment_capabilities option"

section \<open>Clients\<close>

text \<open>The clients of the OpenAI family wrap an \<open>openai.Client\<close>; Bedrock and Vertex have a region, and
  Vertex a project.\<close>

datatype adapter = OpenAI | Azure | Compatible | Anthropic | Mistral | Groq | Together | Fireworks
  | OpenRouter | Cohere | Gemini | Bedrock | Vertex

record client =
  cl_adapter :: adapter
  cl_apiKey :: string
  cl_baseURL :: string
  cl_region :: string
  cl_projectID :: string

fun Capabilities_of :: "adapter \<Rightarrow> capabilities" where
  "Capabilities_of OpenAI = \<lparr>cap_Chat = True, cap_StreamChat = True, cap_Embeddings = True, cap_Responses = True\<rparr>"
| "Capabilities_of Compatible = \<lparr>cap_Chat = True, cap_StreamChat = True, cap_Embeddings = True, cap_Responses = True\<rparr>"
| "Capabilities_of Anthropic = \<lparr>cap_Chat = True, cap_StreamChat = True, cap_Embeddings = False, cap_Responses = False\<rparr>"
| "Capabilities_of Groq = \<lparr>cap_Chat = True, cap_StreamChat = True, cap_Embeddings = False, cap_Responses = False\<rparr>"
| "Capabilities_of OpenRouter = \<lparr>cap_Chat = True, cap_StreamChat = True, cap_Embeddings = False, cap_Responses = False\<rparr>"
| "Capabilities_of _ = \<lparr>cap_Chat = True, cap_StreamChat = True, cap_Embeddings = True, cap_Responses = False\<rparr>"

definition TrimRightSlash :: "string \<Rightarrow> string" where
  "TrimRightSlash s = rev (dropWhile (\<lambda>c. c = CHR ''/'') (rev s))"

definition client_new :: "adapter \<Rightarrow> string \<Rightarrow> string \<Rightarrow> string \<Rightarrow> client" where
  "client_new a defaultBaseURL apiKey baseURL =
     \<lparr>cl_adapter = a, cl_apiKey = apiKey,
      cl_baseURL = TrimRightSlash (if baseURL = [] then defaultBaseURL else baseURL),
      cl_region = [], cl_projectID = []\<rparr>"

definition openai_New :: "string \<Rightarrow> string \<Rightarrow> client" where
  "openai_New = client_new OpenAI ''https://api.openai.com/v1''"

definition azureopenai_New :: "string \<Rightarrow> string \<Rightarrow> client" where
  "azureopenai_New apiKey baseURL = (openai_New apiKey baseURL)\<lparr>cl_adapter := Azure\<rparr>"

definition openaicompat_New :: "string \<Rightarrow> string \<Rightarrow> client" where
  "openaicompat_New apiKey baseURL = (openai_New apiKey baseURL)\<lparr>cl_adapter := Compatible\<rparr>"

definition anthropic_New :: "string \<Rightarrow> string \<Rightarrow> client" where
  "anthropic_New = client_new Anthropic ''https://api.anthropic.com/v1''"

definition mistral_New :: "string \<Rightarrow> string \<Rightarrow> client" where
  "mistral_New = client_new Mistral ''https://api.mistral.ai/v1''"

definition groq_New :: "string \<Rightarrow> string \<Rightarrow> client" where
  "groq_New = client_new Groq ''https://api.groq.com/openai/v1''"

definition together_New :: "string \<Rightarrow> string \<Rightarrow> client" where
  "together_New = client_new Together ''https://api.together.xyz/v1''"

definition fireworks_New :: "string \<Rightarrow> string \<Rightarrow> client" where
  "fireworks_New = client_new Fireworks ''https://api.fireworks.ai/inference/v1''"

definition openrouter_New :: "string \<Rightarrow> string \<Rightarrow> client" where
  "openrouter_New = client_new OpenRouter ''https://openrouter.ai/api/v1''"

definition cohere_New :: "string \<Rightarrow> string \<Rightarrow> client" where
  "cohere_New = client_new Cohere ''https://api.cohere.com''"

definition gemini_New :: "string \<Rightarrow> string \<Rightarrow> client" where
  "gemini_New = client_new Gemini ''https://generativelanguage.googleapis.com/v1beta''"

definition bedrock_New :: "(string \<Rightarrow> string \<Rightarrow> bool) \<Rightarrow> string \<Rightarrow> string + client" where
  "bedrock_New cloud region =
     (let region' = (if region = [] then ''us-east-1'' else region) in
      if \<not> cloud ''aws'' region' then Inl ''load aws config''
      else Inr \<lparr>cl_adapter = Bedrock, cl_apiKey = [], cl_baseURL = [], cl_region = region', cl_projectID = []\<rparr>)"

definition vertex_New :: "(string \<Rightarrow> string \<Rightarrow> bool) \<Rightarrow> string \<Rightarrow> string \<Rightarrow> string + client" where
  "vertex_New cloud region projectID =
     (let region' = (if region = [] then ''us-central1'' else region) in
      if projectID = [] then Inl ''vertex: project_id required (set via deployment metadata)''
      else if \<not> cloud ''gcp'' projectID then Inl ''vertex auth''
      else Inr \<lparr>cl_adapter = Vertex, cl_apiKey = [], cl_baseURL = [], cl_region = region', cl_projectID = projectID\<rparr>)"

section \<open>From a deployment to its client\<close>

definition no_capabilities :: capabilities where
  "no_capabilities = \<lparr>cap_Chat = False, cap_StreamChat = False, cap_Embeddings = False, cap_Responses = False\<rparr>"

definition adapter_of :: "string \<Rightarrow> adapter option" where
  "adapter_of providerType =
     (if providerType = ''openai'' then Some OpenAI
      else if providerType = ''azure_openai'' then Some Azure
      else if providerType \<in> set [''openai_compatible'', ''ollama'', ''vllm''] then Some Compatible
      else if providerType = ''anthropic'' then Some Anthropic
      else if providerType = ''mistral'' then Some Mistral
      else if providerType = ''groq'' then Some Groq
      else if providerType = ''together'' then Some Together
      else if providerType = ''fireworks'' then Some Fireworks
      else if providerType = ''openrouter'' then Some OpenRouter
      else if providerType = ''cohere'' then Some Cohere
      else if providerType = ''bedrock'' then Some Bedrock
      else if providerType = ''vertex'' then Some Vertex
      else if providerType = ''gemini'' then Some Gemini
      else None)"

definition DefaultCapabilities :: "string \<Rightarrow> capabilities" where
  "DefaultCapabilities providerType =
     (case adapter_of providerType of None \<Rightarrow> no_capabilities | Some a \<Rightarrow> Capabilities_of a)"

definition needs_key :: "string \<Rightarrow> client \<Rightarrow> string + client" where
  "needs_key apiKey c = (if apiKey = [] then Inl ''credential env empty'' else Inr c)"

definition opt_str :: "string option \<Rightarrow> string" where
  "opt_str s = (case s of None \<Rightarrow> [] | Some x \<Rightarrow> x)"

definition credential :: "(string \<Rightarrow> string) \<Rightarrow> deployment \<Rightarrow> string" where
  "credential getenv d = (if d_CredentialRef d \<noteq> [] then getenv (d_CredentialRef d) else [])"

text \<open>\<open>buildProvider\<close>: the client, or the reason why there is none.\<close>

definition buildProvider ::
  "(string \<Rightarrow> string) \<Rightarrow> (string \<Rightarrow> string \<Rightarrow> bool) \<Rightarrow> deployment \<Rightarrow> string + client" where
  "buildProvider getenv cloud d =
     (if \<not> d_Enabled d then Inl ''deployment disabled''
      else
        let baseURL = opt_str (d_BaseURL d);
            apiKey = credential getenv d;
            region = opt_str (d_Region d)
        in (case adapter_of (d_ProviderType d) of
              None \<Rightarrow> Inl ''unsupported provider type''
            | Some OpenAI \<Rightarrow> needs_key apiKey (openai_New apiKey baseURL)
            | Some Azure \<Rightarrow> needs_key apiKey (azureopenai_New apiKey baseURL)
            | Some Compatible \<Rightarrow> Inr (openaicompat_New apiKey baseURL)
            | Some Anthropic \<Rightarrow> needs_key apiKey (anthropic_New apiKey baseURL)
            | Some Mistral \<Rightarrow> needs_key apiKey (mistral_New apiKey baseURL)
            | Some Groq \<Rightarrow> needs_key apiKey (groq_New apiKey baseURL)
            | Some Together \<Rightarrow> needs_key apiKey (together_New apiKey baseURL)
            | Some Fireworks \<Rightarrow> needs_key apiKey (fireworks_New apiKey baseURL)
            | Some OpenRouter \<Rightarrow> needs_key apiKey (openrouter_New apiKey baseURL)
            | Some Cohere \<Rightarrow> needs_key apiKey (cohere_New apiKey baseURL)
            | Some Bedrock \<Rightarrow>
                (case bedrock_New cloud region of
                   Inl err \<Rightarrow> Inl (''bedrock client init failed: '' @ err) | Inr c \<Rightarrow> Inr c)
            | Some Vertex \<Rightarrow>
                (case vertex_New cloud region (d_CredentialRef d) of
                   Inl err \<Rightarrow> Inl (''vertex client init failed: '' @ err) | Inr c \<Rightarrow> Inr c)
            | Some Gemini \<Rightarrow> needs_key apiKey (gemini_New apiKey baseURL)))"

text \<open>The capabilities used for routing: those stored with the deployment, else the adapter's.\<close>

definition effectiveCapabilities :: "deployment \<Rightarrow> client \<Rightarrow> capabilities" where
  "effectiveCapabilities d p =
     (case d_Capabilities d of
        Some dc \<Rightarrow>
          let responses = (cap_Responses (Capabilities_of (cl_adapter p)) \<and> dc_Chat dc)
          in \<lparr>cap_Chat = dc_Chat dc, cap_StreamChat = dc_StreamChat dc, cap_Embeddings = dc_Embeddings dc,
               cap_Responses = (case dc_Responses dc of None \<Rightarrow> responses | Some b \<Rightarrow> b)\<rparr>
      | None \<Rightarrow> Capabilities_of (cl_adapter p))"

section \<open>Facts about clients\<close>

lemmas client_news = openai_New_def azureopenai_New_def openaicompat_New_def anthropic_New_def mistral_New_def
  groq_New_def together_New_def fireworks_New_def openrouter_New_def cohere_New_def gemini_New_def
  client_new_def

lemma built_adapter: "buildProvider getenv cloud d = Inr c \<Longrightarrow> adapter_of (d_ProviderType d) = Some (cl_adapter c)"
  by (auto simp: buildProvider_def needs_key_def client_news bedrock_New_def vertex_New_def Let_def
      split: if_splits option.splits adapter.splits sum.splits)

lemma built_enabled: "buildProvider getenv cloud d = Inr c \<Longrightarrow> d_Enabled d"
  by (auto simp: buildProvider_def split: if_splits)

lemma StreamChat_needs_Chat: "Supports c CapabilityStreamChat \<Longrightarrow> Supports c CapabilityChat"
  by (simp add: Supports_def capability_names)

text \<open>The adapter that is built for a deployment has the capabilities that are declared for its
  provider type without building it: a deployment that inherits its capabilities and one whose row
  repeats the declared ones are routed alike, and a disabled deployment never gets a client.\<close>

theorem declared_capabilities_are_built:
  assumes "buildProvider getenv cloud d = Inr c" and "d_Capabilities d = None"
  shows "effectiveCapabilities d c = DefaultCapabilities (d_ProviderType d) \<and> d_Enabled d
    \<and> (Supports (effectiveCapabilities d c) CapabilityResponses
       \<longleftrightarrow> d_ProviderType d \<in> set [''openai'', ''openai_compatible'', ''ollama'', ''vllm''])"
proof -
  note a = built_adapter [OF assms(1)]
  have "Supports (Capabilities_of (cl_adapter c)) CapabilityResponses \<longleftrightarrow> cl_adapter c \<in> {OpenAI, Compatible}"
    by (cases "cl_adapter c") (simp_all add: Supports_def capability_names)
  moreover have "cl_adapter c \<in> {OpenAI, Compatible} \<longleftrightarrow> d_ProviderType d \<in> set [''openai'', ''openai_compatible'', ''ollama'', ''vllm'']"
    using a by (auto simp: adapter_of_def split: if_splits)
  ultimately show ?thesis
    using assms(2) a built_enabled [OF assms(1)] by (simp add: effectiveCapabilities_def DefaultCapabilities_def)
qed

definition sample_deployment :: deployment where
  "sample_deployment = \<lparr>d_ID = 1, d_Name = ''local'', d_ProviderType = ''ollama'', d_UpstreamModel = ''llama3'',
     d_CredentialRef = [], d_BaseURL = Some ''http://localhost/v1/'', d_Region = None, d_Enabled = True, d_Weight = 1,
     d_MaxParallelRequests = None, d_Tags = [], d_Capabilities = None\<rparr>"

theorem declared_capabilities_are_built_witness:
  "effectiveCapabilities sample_deployment (openaicompat_New [] ''http://localhost/v1/'') = DefaultCapabilities ''ollama''"
proof -
  have "buildProvider (\<lambda>_. []) (\<lambda>_ _. False) sample_deployment = Inr (openaicompat_New [] ''http://localhost/v1/'')"
    by (simp add: buildProvider_def adapter_of_def credential_def opt_str_def sample_deployment_def)
  from declared_capabilities_are_built [OF this] show ?thesis by (simp add: sample_deployment_def)
qed

end
