(* ===== verification/Json_Value.thy ===== *)
theory Json_Value
  imports Gw_Prelude
begin

text \<open>
  Decoded JSON, the \<open>any\<close> values that \<^verbatim>\<open>encoding/json\<close> produces: the contents of option columns and
  request bodies. A number is an integer where it is written as one, which is what the gateway reads;
  \<open>J_dec\<close> is the text of a number with a fraction or an exponent. An object is a list of fields, of which a
  lookup finds the first.
\<close>

datatype json = J_null | J_bool bool | J_num int | J_dec string | J_str string | J_arr "json list" | J_obj "(string \<times> json) list"

type_synonym options = "string \<rightharpoonup> json"

fun as_string :: "json \<Rightarrow> string option" where
  "as_string (J_str s) = Some s"
| "as_string _ = None"

fun as_array :: "json \<Rightarrow> json list option" where
  "as_array (J_arr xs) = Some xs"
| "as_array _ = None"

end
