(* ===== verification/Concurrency_Limit.thy ===== *)
theory Concurrency_Limit
  imports Tenancy "HOL-Library.AList"
begin

text \<open>
  Distributed limits on requests in flight (\<^verbatim>\<open>internal/concurrency/limiter.go\<close>) and the scopes a
  request takes them for (\<^verbatim>\<open>internal/server/server.go\<close>). A Redis key holds a sorted set, here the
  list of its members with their scores, and the millisecond at which the key itself expires. The
  scripts run atomically at Redis's own time \<open>now_ms\<close>.
\<close>

type_synonym zset = "(string \<times> int) list"
type_synonym lease_db = "string \<Rightarrow> (zset \<times> int) option"

record scope =
  sc_Kind :: string
  sc_ID :: int
  sc_Limit :: int

record lease_request =
  lr_ID :: string
  lr_Partition :: int
  lr_TTL :: duration
  lr_Scopes :: "scope list"

record lease_result =
  lx_Allowed :: bool
  lx_Scope :: string
  lx_RetryAfter :: duration

record lease =
  le_member :: string
  le_keys :: "string list"
  le_released :: bool
  le_err :: "string option"

definition maxScopes :: nat where
  "maxScopes = 8"

definition ascii_lower :: "string \<Rightarrow> string" where
  "ascii_lower s = map (\<lambda>c. if (65::nat) \<le> of_char c \<and> of_char c \<le> (90::nat) then char_of ((of_char c :: nat) + 32) else c) s"

definition validScopeKind :: "string \<Rightarrow> bool" where
  "validScopeKind kind =
     (if ascii_lower kind \<in> set [''team'', ''key'', ''user'', ''service_account'', ''customer'', ''provider'', ''model'']
      then kind = ascii_lower kind else False)"

definition maxInt64_of :: "int \<Rightarrow> int \<Rightarrow> int" where
  "maxInt64_of a b = (if a > b then a else b)"

definition scope_key :: "string \<Rightarrow> scope \<Rightarrow> string" where
  "scope_key prefix sc = prefix @ '':concurrency:{gateway}:'' @ sc_Kind sc @ '':'' @ show_int (sc_ID sc)"

section \<open>The scripts\<close>

text \<open>The members of a key: none once the key itself has expired.\<close>

definition members :: "int \<Rightarrow> lease_db \<Rightarrow> string \<Rightarrow> zset" where
  "members now_ms db k = (case db k of None \<Rightarrow> [] | Some (z, ex) \<Rightarrow> if ex \<le> now_ms then [] else z)"

definition ZREMRANGEBYSCORE :: "int \<Rightarrow> string \<Rightarrow> lease_db \<Rightarrow> lease_db" where
  "ZREMRANGEBYSCORE now_ms k db =
     (case db k of
        None \<Rightarrow> db
      | Some (z, ex) \<Rightarrow> if ex \<le> now_ms then db(k := None) else db(k \<mapsto> (filter (\<lambda>(m, s). s > now_ms) z, ex)))"

definition retry_after_oldest :: "int \<Rightarrow> zset \<Rightarrow> int" where
  "retry_after_oldest now_ms z =
     (case map snd z of [] \<Rightarrow> 1000 | s # ss \<Rightarrow> max 1 (fold min ss s - now_ms))"

fun acquire_check :: "int \<Rightarrow> string \<Rightarrow> nat \<Rightarrow> (string \<times> int) list \<Rightarrow> lease_db \<Rightarrow> (nat \<times> int) option \<times> lease_db" where
  "acquire_check now_ms member i [] db = (None, db)"
| "acquire_check now_ms member i ((k, limit) # ks) db =
     (let db' = ZREMRANGEBYSCORE now_ms k db;
          z = members now_ms db' k
      in if map_of z member = None \<and> int (length z) \<ge> limit
         then (Some (i, retry_after_oldest now_ms z), db')
         else acquire_check now_ms member (Suc i) ks db')"

definition ZADD_PEXPIRE :: "int \<Rightarrow> int \<Rightarrow> string \<Rightarrow> string \<Rightarrow> lease_db \<Rightarrow> lease_db" where
  "ZADD_PEXPIRE now_ms ttl_ms member k db =
     db(k \<mapsto> (AList.update member (now_ms + ttl_ms) (members now_ms db k), now_ms + ttl_ms + 60000))"

definition acquireScript ::
  "int \<Rightarrow> int \<Rightarrow> string \<Rightarrow> (string \<times> int) list \<Rightarrow> lease_db \<Rightarrow> (int \<times> int \<times> int) \<times> lease_db" where
  "acquireScript now_ms ttl_ms member ks db =
     (case acquire_check now_ms member 1 ks db of
        (Some (i, retry), db') \<Rightarrow> ((0, int i, retry), db')
      | (None, db') \<Rightarrow> ((1, 0, 0), fold (ZADD_PEXPIRE now_ms ttl_ms member) (map fst ks) db'))"

definition ZREM :: "int \<Rightarrow> string \<Rightarrow> string \<Rightarrow> lease_db \<Rightarrow> lease_db" where
  "ZREM now_ms member k db =
     (case db k of
        None \<Rightarrow> db
      | Some (z, ex) \<Rightarrow> if ex \<le> now_ms then db(k := None) else db(k \<mapsto> (AList.delete member z, ex)))"

definition releaseScript :: "int \<Rightarrow> string \<Rightarrow> string list \<Rightarrow> lease_db \<Rightarrow> lease_db" where
  "releaseScript now_ms member ks db = fold (ZREM now_ms member) ks db"

section \<open>Acquire and Release\<close>

definition allowed_lease :: lease_result where
  "allowed_lease = \<lparr>lx_Allowed = True, lx_Scope = [], lx_RetryAfter = 0\<rparr>"

text \<open>A limiter that is not configured is \<open>None\<close>. A call to Redis may fail; whether the script ran
  before the failure is then unknown to the caller.\<close>

datatype redis_io = Io_ok | Io_failed (script_ran: bool)

definition Acquire ::
  "string option \<Rightarrow> redis_io \<Rightarrow> int \<Rightarrow> lease_request \<Rightarrow> lease_db \<Rightarrow> (string + lease option \<times> lease_result) \<times> lease_db" where
  "Acquire limiter io now_ms req db =
     (if lr_Scopes req = [] then (Inr (None, allowed_lease), db)
      else (case limiter of
        None \<Rightarrow> (Inl ''distributed concurrency store is not configured'', db)
      | Some prefix \<Rightarrow>
          if lr_ID req = [] then (Inl ''request id is required'', db)
          else if lr_Partition req \<le> 0 then (Inl ''positive concurrency partition is required'', db)
          else if lr_TTL req \<le> 0 then (Inl ''lease ttl must be positive'', db)
          else if length (lr_Scopes req) > maxScopes then (Inl ''too many concurrency scopes'', db)
          else if list_ex (\<lambda>sc. \<not> validScopeKind (sc_Kind sc) \<or> sc_ID sc \<le> 0 \<or> sc_Limit sc \<le> 0) (lr_Scopes req)
          then (Inl ''invalid concurrency scope'', db)
          else
            let ks = map (\<lambda>sc. (scope_key prefix sc, sc_Limit sc)) (lr_Scopes req);
                ttl_ms = maxInt64_of (lr_TTL req sdiv Millisecond) 1;
                ((allowed, index, retryMs), db') = acquireScript now_ms ttl_ms (lr_ID req) ks db
            in if io \<noteq> Io_ok
               then (Inl ''acquire distributed concurrency lease'', if script_ran io then db' else db)
               else if allowed = 1
               then (Inr (Some \<lparr>le_member = lr_ID req, le_keys = map fst ks, le_released = False, le_err = None\<rparr>, allowed_lease), db')
               else let scopeIndex = (if index - 1 < 0 \<or> index - 1 \<ge> int (length (lr_Scopes req)) then 0 else nat (index - 1))
                    in (Inr (None, \<lparr>lx_Allowed = False, lx_Scope = sc_Kind (lr_Scopes req ! scopeIndex),
                                    lx_RetryAfter = maxInt64_of retryMs 1 * Millisecond\<rparr>), db')))"

text \<open>\<open>Release\<close> runs its body once (\<open>sync.Once\<close>) and remembers the error; the limiter of a lease that
  \<open>Acquire\<close> returned is always configured.\<close>

definition Release_lease :: "redis_io \<Rightarrow> int \<Rightarrow> lease option \<Rightarrow> lease_db \<Rightarrow> string option \<times> lease option \<times> lease_db" where
  "Release_lease io now_ms l db =
     (case l of
        None \<Rightarrow> (None, None, db)
      | Some le \<Rightarrow>
          if le_released le then (le_err le, l, db)
          else if le_keys le = [] then (le_err le, Some (le\<lparr>le_released := True\<rparr>), db)
          else let db' = releaseScript now_ms (le_member le) (le_keys le) db
               in if io = Io_ok then (le_err le, Some (le\<lparr>le_released := True\<rparr>), db')
                  else (Some ''release distributed concurrency lease'',
                        Some (le\<lparr>le_released := True, le_err := Some ''release distributed concurrency lease''\<rparr>),
                        if script_ran io then db' else db))"

section \<open>The scopes of a tenant\<close>

definition positive_cap :: "int option \<Rightarrow> bool" where
  "positive_cap c = (case c of None \<Rightarrow> False | Some x \<Rightarrow> x > 0)"

definition tenantConcurrencyScopes :: "team option \<Rightarrow> virtual_key option \<Rightarrow> int \<times> scope list" where
  "tenantConcurrencyScopes team key =
     (let (p1, s1) = (case team of
            Some t \<Rightarrow> if positive_cap (t_MaxParallelRequests t)
                     then (t_ID t, [\<lparr>sc_Kind = ''team'', sc_ID = t_ID t, sc_Limit = the (t_MaxParallelRequests t)\<rparr>])
                     else (0, [])
          | None \<Rightarrow> (0, []));
          (p2, s2) = (case key of
            Some k \<Rightarrow> if vk_ID k > 0 \<and> positive_cap (vk_MaxParallelRequests k)
                     then (if p1 = 0 then vk_TeamID k else p1,
                           s1 @ [\<lparr>sc_Kind = ''key'', sc_ID = vk_ID k, sc_Limit = the (vk_MaxParallelRequests k)\<rparr>])
                     else (p1, s1)
          | None \<Rightarrow> (p1, s1))
      in (case key of
            Some k \<Rightarrow>
              if positive_cap (vk_OwnerMaxParallelRequests k)
              then (if p2 = 0 then vk_TeamID k else p2,
                    s2 @ (if (case vk_UserID k of Some u \<Rightarrow> u > 0 | None \<Rightarrow> False)
                          then [\<lparr>sc_Kind = ''user'', sc_ID = the (vk_UserID k), sc_Limit = the (vk_OwnerMaxParallelRequests k)\<rparr>]
                          else if (case vk_ServiceAccountID k of Some a \<Rightarrow> a > 0 | None \<Rightarrow> False)
                          then [\<lparr>sc_Kind = ''service_account'', sc_ID = the (vk_ServiceAccountID k),
                                 sc_Limit = the (vk_OwnerMaxParallelRequests k)\<rparr>]
                          else []))
              else (p2, s2)
          | None \<Rightarrow> (p2, s2)))"

definition concurrencyLeaseTTL :: "duration \<Rightarrow> duration" where
  "concurrencyLeaseTTL requestDeadline =
     (let ttl = wrap64 (requestDeadline + 30 * Second) in if ttl < 2 * Minute then 2 * Minute else ttl)"

definition retryAfterSeconds :: "duration \<Rightarrow> string" where
  "retryAfterSeconds wait =
     (let seconds = wait sdiv Second;
          seconds' = (if wait smod Second \<noteq> 0 then seconds + 1 else seconds)
      in show_int (if seconds' < 1 then 1 else seconds'))"

section \<open>Leases that count\<close>

definition live :: "int \<Rightarrow> lease_db \<Rightarrow> string \<Rightarrow> zset" where
  "live now_ms db k = filter (\<lambda>(m, s). s > now_ms) (members now_ms db k)"

lemma members_prune:
  "members n (ZREMRANGEBYSCORE n k db) k' = (if k' = k then live n db k else members n db k')"
  by (auto simp: members_def ZREMRANGEBYSCORE_def live_def split: option.splits)

lemma live_prune [simp]: "live n (ZREMRANGEBYSCORE n k db) k' = live n db k'"
  by (simp add: live_def members_prune)

lemma acquire_check_Cons:
  "acquire_check n member i ((k, l) # ks) db =
     (if map_of (live n db k) member = None \<and> int (length (live n db k)) \<ge> l
      then (Some (i, retry_after_oldest n (live n db k)), ZREMRANGEBYSCORE n k db)
      else acquire_check n member (Suc i) ks (ZREMRANGEBYSCORE n k db))"
  by (simp add: members_prune Let_def)

declare acquire_check.simps(2) [simp del]

lemma acquire_check_live: "acquire_check n member i ks db = (r, db') \<Longrightarrow> live n db' k = live n db k"
proof (induction ks arbitrary: i db)
  case (Cons kl ks)
  obtain k0 l0 where kl: "kl = (k0, l0)" by fastforce
  show ?case
  proof (cases "map_of (live n db k0) member = None \<and> int (length (live n db k0)) \<ge> l0")
    case True
    then show ?thesis using Cons.prems by (auto simp: kl acquire_check_Cons)
  next
    case False
    then have "acquire_check n member (Suc i) ks (ZREMRANGEBYSCORE n k0 db) = (r, db')"
      using Cons.prems by (simp add: kl acquire_check_Cons split: if_splits)
    from Cons.IH [OF this] show ?thesis by simp
  qed
qed simp

lemma acquire_check_members:
  "acquire_check n member i ks db = (None, db') \<Longrightarrow>
   members n db' k = (if k \<in> fst ` set ks then live n db k else members n db k)"
proof (induction ks arbitrary: i db)
  case (Cons kl ks)
  obtain k0 l0 where kl: "kl = (k0, l0)" by fastforce
  have rec: "acquire_check n member (Suc i) ks (ZREMRANGEBYSCORE n k0 db) = (None, db')"
    using Cons.prems by (simp add: kl acquire_check_Cons split: if_splits)
  show ?case using Cons.IH [OF rec] by (simp add: kl members_prune)
qed simp

lemma acquire_check_room:
  "acquire_check n member i ks db = (None, db') \<Longrightarrow> (k, l) \<in> set ks \<Longrightarrow>
   map_of (live n db k) member \<noteq> None \<or> int (length (live n db k)) < l"
proof (induction ks arbitrary: i db)
  case (Cons kl ks)
  obtain k0 l0 where kl: "kl = (k0, l0)" by fastforce
  have rec: "acquire_check n member (Suc i) ks (ZREMRANGEBYSCORE n k0 db) = (None, db')"
    and here: "\<not> (map_of (live n db k0) member = None \<and> int (length (live n db k0)) \<ge> l0)"
    using Cons.prems(1) by (simp_all add: kl acquire_check_Cons split: if_splits)
  show ?case using Cons.IH [OF rec] Cons.prems(2) here by (auto simp: kl)
qed simp

lemma acquire_check_full:
  "acquire_check n member i ks db = (Some (j, retry), db') \<Longrightarrow> i \<le> j \<and> j < i + length ks
     \<and> map_of (live n db (fst (ks ! (j - i)))) member = None \<and> int (length (live n db (fst (ks ! (j - i))))) \<ge> snd (ks ! (j - i))"
proof (induction ks arbitrary: i db)
  case (Cons kl ks)
  obtain k0 l0 where kl: "kl = (k0, l0)" by fastforce
  show ?case
  proof (cases "map_of (live n db k0) member = None \<and> int (length (live n db k0)) \<ge> l0")
    case True
    then show ?thesis using Cons.prems by (simp add: kl acquire_check_Cons)
  next
    case False
    then have rec: "acquire_check n member (Suc i) ks (ZREMRANGEBYSCORE n k0 db) = (Some (j, retry), db')"
      using Cons.prems by (simp add: kl acquire_check_Cons split: if_splits)
    note ih = Cons.IH [OF rec]
    then have "(kl # ks) ! (j - i) = ks ! (j - Suc i)"
      by (metis Suc_diff_le diff_Suc_Suc nth_Cons_Suc)
    with ih show ?thesis by simp
  qed
qed simp

lemma ZADD_fold:
  assumes "0 < ttl" and "distinct ks"
  shows "members n (fold (ZADD_PEXPIRE n ttl member) ks db) k =
    (if k \<in> set ks then AList.update member (n + ttl) (members n db k) else members n db k)"
  using assms(2)
proof (induction ks arbitrary: db)
  case (Cons k0 ks)
  have "members n (ZADD_PEXPIRE n ttl member k0 db) k =
      (if k = k0 then AList.update member (n + ttl) (members n db k) else members n db k)"
    using assms(1) by (simp add: members_def [of n "ZADD_PEXPIRE n ttl member k0 db"] ZADD_PEXPIRE_def) (simp add: members_def)
  then show ?case using Cons by auto
qed simp

lemma length_update: "length (AList.update k v al) = (if map_of al k = None then Suc (length al) else length al)"
  by (induction al) auto

lemma filter_update_new: "n < v \<Longrightarrow> (\<forall>(m, s) \<in> set al. n < s) \<Longrightarrow> filter (\<lambda>(m, s). n < s) (AList.update k v al) = AList.update k v al"
  by (induction al) auto

lemma live_all: "\<forall>(m, s) \<in> set (live n db k). n < s"
  by (auto simp: live_def)

lemma acquireScript_granted:
  assumes "acquireScript n ttl member ks db = ((1, x, y), db')" and "0 < ttl" and "distinct (map fst ks)"
  shows "k \<in> fst ` set ks \<Longrightarrow> live n db' k = AList.update member (n + ttl) (live n db k)"
    and "k \<notin> fst ` set ks \<Longrightarrow> live n db' k = live n db k"
    and "(k, l) \<in> set ks \<Longrightarrow> map_of (live n db k) member \<noteq> None \<or> int (length (live n db k)) < l"
proof -
  obtain db1 where chk: "acquire_check n member 1 ks db = (None, db1)"
    and db': "db' = fold (ZADD_PEXPIRE n ttl member) (map fst ks) db1"
    using assms(1) by (auto simp: acquireScript_def split: prod.splits option.splits)
  have mem: "members n db' k = (if k \<in> fst ` set ks then AList.update member (n + ttl) (members n db1 k) else members n db1 k)"
    using ZADD_fold [OF assms(2,3), of n member db1 k] by (simp add: db')
  show "live n db' k = AList.update member (n + ttl) (live n db k)" if "k \<in> fst ` set ks"
  proof -
    have "members n db1 k = live n db k" using acquire_check_members [OF chk] that by simp
    then have "live n db' k = filter (\<lambda>(m, s). n < s) (AList.update member (n + ttl) (live n db k))"
      using mem that by (simp add: live_def [of n db'])
    then show ?thesis using filter_update_new [of n "n + ttl" "live n db k" member] live_all assms(2) by simp
  qed
  show "live n db' k = live n db k" if "k \<notin> fst ` set ks"
    using mem that acquire_check_live [OF chk, of k] by (simp add: live_def [of n db'] live_def [of n db1])
  show "map_of (live n db k) member \<noteq> None \<or> int (length (live n db k)) < l" if "(k, l) \<in> set ks"
    using acquire_check_room [OF chk that] .
qed

lemma acquireScript_denied:
  assumes "acquireScript n ttl member ks db = ((a, j, y), db')" and "a \<noteq> 1"
  shows "live n db' k = live n db k"
    and "1 \<le> j \<and> j \<le> int (length ks) \<and> map_of (live n db (fst (ks ! nat (j - 1)))) member = None
      \<and> int (length (live n db (fst (ks ! nat (j - 1))))) \<ge> snd (ks ! nat (j - 1))"
proof -
  obtain i retry where chk: "acquire_check n member 1 ks db = (Some (i, retry), db')" and j: "j = int i"
    using assms by (auto simp: acquireScript_def split: prod.splits option.splits)
  show "live n db' k = live n db k" using acquire_check_live [OF chk] .
  have "nat (j - 1) = i - 1" using j by simp
  then show "1 \<le> j \<and> j \<le> int (length ks) \<and> map_of (live n db (fst (ks ! nat (j - 1)))) member = None
      \<and> int (length (live n db (fst (ks ! nat (j - 1))))) \<ge> snd (ks ! nat (j - 1))"
    using acquire_check_full [OF chk] j by auto
qed

text \<open>Acquiring a lease is all or nothing and keeps every limit. If the script grants it, each
  scope either held this request already, and then uses no second slot, or had a free slot, so
  that the number of live leases is at most the limit afterwards; scopes that were not asked for
  are untouched. If it refuses, no scope gains or loses a live lease, and the scope it names is
  indeed full.\<close>

theorem acquire_all_or_nothing:
  assumes "acquireScript now_ms ttl_ms member ks db = ((allowed, index, retry), db')"
    and "0 < ttl_ms" and "distinct (map fst ks)"
  shows "(allowed = 1 \<longrightarrow>
      (\<forall>(k, limit) \<in> set ks. map_of (live now_ms db' k) member = Some (now_ms + ttl_ms)
         \<and> (if map_of (live now_ms db k) member = None
            then length (live now_ms db' k) = Suc (length (live now_ms db k)) \<and> int (length (live now_ms db' k)) \<le> limit
            else length (live now_ms db' k) = length (live now_ms db k)))
      \<and> (\<forall>k. k \<notin> fst ` set ks \<longrightarrow> live now_ms db' k = live now_ms db k))
    \<and> (allowed \<noteq> 1 \<longrightarrow> (\<forall>k. live now_ms db' k = live now_ms db k)
      \<and> 1 \<le> index \<and> index \<le> int (length ks)
      \<and> int (length (live now_ms db (fst (ks ! nat (index - 1))))) \<ge> snd (ks ! nat (index - 1)))"
proof (intro conjI impI)
  assume "allowed = 1"
  note g = acquireScript_granted [OF assms(1) [unfolded this] assms(2,3)]
  show "\<forall>(k, limit) \<in> set ks. map_of (live now_ms db' k) member = Some (now_ms + ttl_ms)
         \<and> (if map_of (live now_ms db k) member = None
            then length (live now_ms db' k) = Suc (length (live now_ms db k)) \<and> int (length (live now_ms db' k)) \<le> limit
            else length (live now_ms db' k) = length (live now_ms db k))"
  proof clarify
    fix k limit assume k: "(k, limit) \<in> set ks"
    then have "k \<in> fst ` set ks" by force
    from g(1) [OF this] g(3) [OF k] show "map_of (live now_ms db' k) member = Some (now_ms + ttl_ms)
         \<and> (if map_of (live now_ms db k) member = None
            then length (live now_ms db' k) = Suc (length (live now_ms db k)) \<and> int (length (live now_ms db' k)) \<le> limit
            else length (live now_ms db' k) = length (live now_ms db k))"
      by (auto simp: length_update update_conv)
  qed
  show "\<forall>k. k \<notin> fst ` set ks \<longrightarrow> live now_ms db' k = live now_ms db k" using g(2) by blast
next
  assume "allowed \<noteq> 1"
  note d = acquireScript_denied [OF assms(1) this]
  show "\<forall>k. live now_ms db' k = live now_ms db k" using d(1) by blast
  show "1 \<le> index" "index \<le> int (length ks)"
    "int (length (live now_ms db (fst (ks ! nat (index - 1))))) \<ge> snd (ks ! nat (index - 1))" using d(2) by blast+
qed

theorem acquire_all_or_nothing_witness:
  "\<exists>db'. acquireScript 0 1000 ''a'' [(''k'', 1)] (\<lambda>_. None) = ((1, 0, 0), db') \<and> map_of (live 0 db' ''k'') ''a'' = Some 1000
     \<and> length (live 0 db' ''k'') = 1"
proof -
  define db' :: lease_db where "db' = fold (ZADD_PEXPIRE 0 1000 ''a'') [''k''] (\<lambda>_. None)"
  have s: "acquireScript 0 1000 ''a'' [(''k'', 1)] (\<lambda>_. None) = ((1, 0, 0), db')"
    by (simp add: acquireScript_def acquire_check_Cons live_def ZREMRANGEBYSCORE_def members_def db'_def)
  have "live 0 (\<lambda>_. None) ''k'' = []" by (simp add: live_def members_def)
  then show ?thesis using acquire_all_or_nothing [OF s] s by simp
qed

section \<open>The leases as one table\<close>

text \<open>What the limiter promises: a table from keys and members to the millisecond at which the lease
  lapses, with no other way to lose a lease than to release it or to let it lapse.\<close>

type_synonym lease_table = "string \<Rightarrow> string \<Rightarrow> int option"

definition holds_at :: "int \<Rightarrow> int option \<Rightarrow> int option" where
  "holds_at n e = (case e of Some s \<Rightarrow> if n < s then Some s else None | None \<Rightarrow> None)"

definition holders :: "int \<Rightarrow> lease_table \<Rightarrow> string \<Rightarrow> string set" where
  "holders n T k = dom (\<lambda>m. holds_at n (T k m))"

definition table_acquire :: "int \<Rightarrow> int \<Rightarrow> string \<Rightarrow> (string \<times> int) list \<Rightarrow> lease_table \<Rightarrow> bool \<times> lease_table" where
  "table_acquire n ttl m ks T =
     (if list_all (\<lambda>(k, l). m \<in> holders n T k \<or> int (card (holders n T k)) < l) ks
      then (True, \<lambda>k. if k \<in> fst ` set ks then (T k)(m \<mapsto> n + ttl) else T k)
      else (False, T))"

definition table_release :: "string \<Rightarrow> string list \<Rightarrow> lease_table \<Rightarrow> lease_table" where
  "table_release m ks T = (\<lambda>k. if k \<in> set ks then (T k)(m := None) else T k)"

datatype lease_event = Acquiring int string "(string \<times> int) list" | Releasing int string "string list"

fun event_time :: "lease_event \<Rightarrow> int" where
  "event_time (Acquiring n m ks) = n"
| "event_time (Releasing n m ks) = n"

fun event_ok :: "lease_event \<Rightarrow> bool" where
  "event_ok (Acquiring n m ks) = distinct (map fst ks)"
| "event_ok (Releasing n m ks) = True"

fun run_scripts :: "int \<Rightarrow> lease_event list \<Rightarrow> lease_db \<Rightarrow> bool list" where
  "run_scripts ttl [] db = []"
| "run_scripts ttl (Acquiring n m ks # es) db =
     (case acquireScript n ttl m ks db of ((a, _, _), db') \<Rightarrow> (a = 1) # run_scripts ttl es db')"
| "run_scripts ttl (Releasing n m ks # es) db = run_scripts ttl es (releaseScript n m ks db)"

fun run_table :: "int \<Rightarrow> lease_event list \<Rightarrow> lease_table \<Rightarrow> bool list" where
  "run_table ttl [] T = []"
| "run_table ttl (Acquiring n m ks # es) T =
     (case table_acquire n ttl m ks T of (a, T') \<Rightarrow> a # run_table ttl es T')"
| "run_table ttl (Releasing n m ks # es) T = run_table ttl es (table_release m ks T)"

definition covered_db :: "int \<Rightarrow> int \<Rightarrow> lease_db \<Rightarrow> bool" where
  "covered_db n ttl db \<longleftrightarrow> (\<forall>k z ex. db k = Some (z, ex) \<longrightarrow>
     distinct (map fst z) \<and> (\<forall>(m, s) \<in> set z. s < ex \<and> s \<le> n + ttl))"

definition represents :: "int \<Rightarrow> lease_db \<Rightarrow> lease_table \<Rightarrow> bool" where
  "represents n db T \<longleftrightarrow> (\<forall>k m. map_of (live n db k) m = holds_at n (T k m))"

lemma holds_at_later: "n \<le> n' \<Longrightarrow> holds_at n' (holds_at n e) = holds_at n' e"
  by (auto simp: holds_at_def split: option.splits)

lemma map_of_filter_live:
  "distinct (map fst z) \<Longrightarrow> map_of (filter (\<lambda>(m, s). n < s) z) m = holds_at n (map_of z m)"
proof (induction z)
  case (Cons a z)
  obtain m0 s0 where a: "a = (m0, s0)" by fastforce
  have "map_of (filter (\<lambda>(m, s). n < s) z) m0 = None"
    using Cons.prems by (force simp: a map_of_eq_None_iff)
  then show ?case using Cons by (auto simp: a holds_at_def)
qed (simp add: holds_at_def)

lemma coveredD:
  assumes "covered_db n ttl db"
  shows "live n' db k = (case db k of None \<Rightarrow> [] | Some (z, ex) \<Rightarrow> filter (\<lambda>(m, s). n' < s) z)"
    and "distinct (map fst (live n' db k))"
proof -
  have "filter (\<lambda>(m, s). n' < s) z = []" if "db k = Some (z, ex)" "ex \<le> n'" for z ex
    using assms that by (fastforce simp: covered_db_def filter_empty_conv)
  then show live: "live n' db k = (case db k of None \<Rightarrow> [] | Some (z, ex) \<Rightarrow> filter (\<lambda>(m, s). n' < s) z)"
    by (auto simp: live_def members_def split: option.splits)
  show "distinct (map fst (live n' db k))"
  proof (cases "db k")
    case (Some ze)
    then obtain z ex where "db k = Some (z, ex)" by (cases ze) auto
    then show ?thesis using assms by (auto simp: live covered_db_def distinct_map_filter)
  qed (simp add: live)
qed

lemma covered_later: "covered_db n ttl db \<Longrightarrow> n \<le> n' \<Longrightarrow> covered_db n' ttl db"
  unfolding covered_db_def by fastforce

lemma represents_later:
  assumes "covered_db n ttl db" and "represents n db T" and "n \<le> n'"
  shows "represents n' db T"
proof -
  have "map_of (live n' db k) m = holds_at n' (map_of (live n db k) m)" for k m
  proof (cases "db k")
    case (Some ze)
    then obtain z ex where z: "db k = Some (z, ex)" by (cases ze) auto
    then have "distinct (map fst z)" using assms(1) by (auto simp: covered_db_def)
    then show ?thesis by (simp add: coveredD(1) [OF assms(1)] z map_of_filter_live holds_at_later [OF assms(3)])
  qed (simp add: coveredD(1) [OF assms(1)] holds_at_def)
  then show ?thesis using assms(2) by (simp add: represents_def holds_at_later [OF assms(3)])
qed

lemma covered_prune: "covered_db n ttl db \<Longrightarrow> covered_db n ttl (ZREMRANGEBYSCORE n' k db)"
  unfolding covered_db_def ZREMRANGEBYSCORE_def by (fastforce split: option.splits if_splits simp: distinct_map_filter)

lemma covered_acquire_check: "acquire_check n m i ks db = (r, db') \<Longrightarrow> covered_db n ttl db \<Longrightarrow> covered_db n ttl db'"
proof (induction ks arbitrary: i db)
  case (Cons kl ks)
  obtain k0 l0 where kl: "kl = (k0, l0)" by fastforce
  show ?case using Cons.prems(1) Cons.IH covered_prune [OF Cons.prems(2)]
    by (auto simp: kl acquire_check_Cons split: if_splits)
qed simp

lemma covered_members: "covered_db n ttl db \<Longrightarrow> distinct (map fst (members n db k)) \<and> (\<forall>(m, s) \<in> set (members n db k). s \<le> n + ttl)"
proof (cases "db k")
  case (Some ze)
  obtain z ex where ze: "ze = (z, ex)" by fastforce
  assume "covered_db n ttl db"
  then have "distinct (map fst z)" and "\<forall>(m, s) \<in> set z. s < ex \<and> s \<le> n + ttl"
    using Some ze unfolding covered_db_def by blast+
  then show ?thesis using Some ze by (auto simp: members_def)
qed (simp add: members_def)

lemma set_update_subset: "set (AList.update k v al) \<subseteq> insert (k, v) (set al)"
  by (induction al) auto

lemma covered_ZADD:
  assumes "covered_db n ttl db" shows "covered_db n ttl (ZADD_PEXPIRE n ttl m k db)"
proof -
  have "s < n + ttl + 60000 \<and> s \<le> n + ttl" if "(m', s) \<in> set (AList.update m (n + ttl) (members n db k))" for m' s
    using set_update_subset [THEN subsetD, OF that] covered_members [OF assms, of k] by auto
  moreover have "distinct (map fst (AList.update m (n + ttl) (members n db k)))"
    using covered_members [OF assms] by (simp add: distinct_update)
  ultimately have "distinct (map fst z) \<and> (\<forall>(m, s) \<in> set z. s < ex \<and> s \<le> n + ttl)"
    if "ZADD_PEXPIRE n ttl m k db k' = Some (z, ex)" for k' z ex
    using assms that unfolding covered_db_def ZADD_PEXPIRE_def by (cases "k' = k") auto
  then show ?thesis unfolding covered_db_def by blast
qed

lemma covered_fold_ZADD: "covered_db n ttl db \<Longrightarrow> covered_db n ttl (fold (ZADD_PEXPIRE n ttl m) ks db)"
  by (induction ks arbitrary: db) (auto intro: covered_ZADD)

lemma covered_acquire:
  "covered_db n ttl db \<Longrightarrow> acquireScript n ttl m ks db = (r, db') \<Longrightarrow> covered_db n ttl db'"
  by (auto simp: acquireScript_def intro: covered_fold_ZADD dest: covered_acquire_check split: prod.splits option.splits)

lemma card_holders:
  assumes "represents n db T" and "covered_db n ttl db"
  shows "holders n T k = fst ` set (live n db k)" and "card (holders n T k) = length (live n db k)"
proof -
  have "(\<lambda>m. holds_at n (T k m)) = map_of (live n db k)" using assms(1) by (auto simp: represents_def)
  then show h: "holders n T k = fst ` set (live n db k)" by (simp add: holders_def dom_map_of_conv_image_fst)
  show "card (holders n T k) = length (live n db k)"
    using coveredD(2) [OF assms(2), of n k] distinct_card [of "map fst (live n db k)"] by (simp add: h)
qed

lemma acquire_refines:
  assumes "represents n db T" and "covered_db n ttl db" and "0 < ttl" and "distinct (map fst ks)"
    and run: "acquireScript n ttl m ks db = ((a, i, r), db')" and tab: "table_acquire n ttl m ks T = (g, T')"
  shows "g = (a = 1)" and "represents n db' T'"
proof -
  have room: "list_all (\<lambda>(k, l). m \<in> holders n T k \<or> int (card (holders n T k)) < l) ks
      \<longleftrightarrow> (\<forall>(k, l) \<in> set ks. map_of (live n db k) m \<noteq> None \<or> int (length (live n db k)) < l)"
    unfolding card_holders(2) [OF assms(1,2)]
    by (auto simp: list_all_iff card_holders(1) [OF assms(1,2)] map_of_eq_None_iff)
  show g: "g = (a = 1)"
  proof (cases "a = 1")
    case True
    then show ?thesis using tab acquireScript_granted(3) [OF run [unfolded True] assms(3,4)] room
      by (fastforce simp: table_acquire_def split: if_splits)
  next
    case False
    note d = acquireScript_denied(2) [OF run False]
    define e where "e = ks ! nat (i - 1)"
    have "e \<in> set ks" using d by (auto simp: e_def)
    then have "(fst e, snd e) \<in> set ks" by simp
    then show ?thesis using tab room d False unfolding e_def [symmetric]
      by (fastforce simp: table_acquire_def split: if_splits)
  qed
  show "represents n db' T'"
  proof (cases "a = 1")
    case True
    then have T': "T' = (\<lambda>k. if k \<in> fst ` set ks then (T k)(m \<mapsto> n + ttl) else T k)"
      using tab g by (auto simp: table_acquire_def split: if_splits)
    have "live n db' k = (if k \<in> fst ` set ks then AList.update m (n + ttl) (live n db k) else live n db k)" for k
      using acquireScript_granted(1,2) [OF run [unfolded True] assms(3,4)] by auto
    then show ?thesis using assms(1,3) by (simp add: represents_def T' update_conv holds_at_def)
  next
    case False
    then have "T' = T" using tab g by (auto simp: table_acquire_def split: if_splits)
    then show ?thesis using assms(1) acquireScript_denied(1) [OF run False] by (simp add: represents_def)
  qed
qed

lemma ZREM_refines:
  assumes "covered_db n ttl db"
  shows "covered_db n ttl (ZREM n m k db)"
    and "live n (ZREM n m k db) k' = (if k' = k then AList.delete m (live n db k) else live n db k')"
proof -
  show "covered_db n ttl (ZREM n m k db)"
    using assms unfolding covered_db_def ZREM_def
    by (fastforce split: option.splits if_splits simp: AList.delete_eq distinct_map_filter)
  show "live n (ZREM n m k db) k' = (if k' = k then AList.delete m (live n db k) else live n db k')"
    by (auto simp: live_def members_def ZREM_def AList.delete_eq filter_filter split: option.splits intro: filter_cong)
qed

lemma release_refines:
  "represents n db T \<Longrightarrow> covered_db n ttl db \<Longrightarrow>
   represents n (releaseScript n m ks db) (table_release m ks T) \<and> covered_db n ttl (releaseScript n m ks db)"
proof (induction ks arbitrary: db T)
  case Nil
  then show ?case by (simp add: releaseScript_def table_release_def)
next
  case (Cons k ks)
  note z = ZREM_refines [OF Cons.prems(2), of m k]
  have "represents n (ZREM n m k db) (T(k := (T k)(m := None)))"
    using Cons.prems(1) by (auto simp: represents_def z(2) delete_conv holds_at_def)
  from Cons.IH [OF this z(1)]
  have "represents n (releaseScript n m (k # ks) db) (table_release m ks (T(k := (T k)(m := None))))"
    and c: "covered_db n ttl (releaseScript n m (k # ks) db)" by (simp_all add: releaseScript_def del: fun_upd_apply)
  moreover have "table_release m ks (T(k := (T k)(m := None))) = table_release m (k # ks) T"
    by (auto simp: table_release_def fun_eq_iff)
  ultimately show ?case by simp
qed

lemma run_refines:
  "represents n db T \<Longrightarrow> covered_db n ttl db \<Longrightarrow> 0 < ttl \<Longrightarrow> sorted (n # map event_time es) \<Longrightarrow> list_all event_ok es
   \<Longrightarrow> run_scripts ttl es db = run_table ttl es T"
proof (induction es arbitrary: n db T)
  case (Cons e es)
  define t where "t = event_time e"
  have nt: "n \<le> t" and srt: "sorted (t # map event_time es)" using Cons.prems(4) by (auto simp: t_def)
  note rep = represents_later [OF Cons.prems(2,1) nt] and cov = covered_later [OF Cons.prems(2) nt]
  show ?case
  proof (cases e)
    case (Acquiring n' m ks)
    obtain a i r db' where run: "acquireScript t ttl m ks db = ((a, i, r), db')"
      by (metis prod.exhaust_sel)
    obtain g T' where tab: "table_acquire t ttl m ks T = (g, T')" by fastforce
    have "distinct (map fst ks)" using Cons.prems(5) by (simp add: Acquiring)
    note ref = acquire_refines [OF rep cov Cons.prems(3) this run tab]
    have "run_scripts ttl es db' = run_table ttl es T'"
      using Cons.IH [OF ref(2) covered_acquire [OF cov run] Cons.prems(3) srt] Cons.prems(5) by simp
    then show ?thesis using run tab ref(1) by (simp add: Acquiring t_def)
  next
    case (Releasing n' m ks)
    note ref = release_refines [OF rep cov, of m ks]
    have "run_scripts ttl es (releaseScript t m ks db) = run_table ttl es (table_release m ks T)"
      using Cons.IH [OF conjunct1 [OF ref] conjunct2 [OF ref] Cons.prems(3) srt] Cons.prems(5) by simp
    then show ?thesis by (simp add: Releasing t_def)
  qed
qed simp

text \<open>C4: With one lease duration for all requests, the Redis scripts implement the lease table:
  whatever sequence of acquisitions and releases arrives, at non-decreasing times of the Redis
  clock, every acquisition is granted or refused exactly as the table decides, so that neither the
  pruning of lapsed members nor the expiry of whole keys ever frees a slot that is still held.\<close>

theorem lease_scripts_refine_table:
  assumes "0 < ttl_ms" and "sorted (map event_time es)" and "list_all event_ok es"
  shows "run_scripts ttl_ms es (\<lambda>_. None) = run_table ttl_ms es (\<lambda>_ _. None)"
proof (cases es)
  case (Cons e es')
  have "represents (event_time e) (\<lambda>_. None) (\<lambda>_ _. None)" and "covered_db (event_time e) ttl_ms (\<lambda>_. None)"
    by (simp_all add: represents_def live_def members_def holds_at_def covered_db_def)
  from run_refines [OF this assms(1) _ assms(3)] show ?thesis using assms(2) by (simp add: Cons)
qed simp

definition two_holders :: "lease_event list" where
  "two_holders = [Acquiring 0 ''a'' [(''k'', 1)], Acquiring 500 ''b'' [(''k'', 1)],
     Releasing 600 ''a'' [''k''], Acquiring 700 ''b'' [(''k'', 1)]]"

theorem lease_scripts_refine_table_witness:
  "sorted (map event_time two_holders) \<and> run_scripts 1000 two_holders (\<lambda>_. None) = run_table 1000 two_holders (\<lambda>_ _. None)
     \<and> run_scripts 1000 two_holders (\<lambda>_. None) = [True, False, True]"
proof (intro conjI)
  show s: "sorted (map event_time two_holders)" by (simp add: two_holders_def)
  show "run_scripts 1000 two_holders (\<lambda>_. None) = run_table 1000 two_holders (\<lambda>_ _. None)"
    by (rule lease_scripts_refine_table [OF _ s]) (simp_all add: two_holders_def)
  show "run_scripts 1000 two_holders (\<lambda>_. None) = [True, False, True]" by code_simp
qed

text \<open>With lease durations that differ, as the routing scopes have them, the limit can be
  exceeded: the expiry of the key is overwritten by each acquisition, so a short lease taken after
  a long one makes the whole key, and the long lease in it, disappear before the long lease lapses,
  and a limit of two then admits a third holder.\<close>

theorem shorter_lease_drops_longer:
  "let (r1, db1) = acquireScript 0 600000 ''long'' [(''k'', 2)] (\<lambda>_. None);
       (r2, db2) = acquireScript 1000 1000 ''short'' [(''k'', 2)] db1
   in fst r1 = 1 \<and> fst r2 = 1 \<and> map_of (live 1000 db2 ''k'') ''long'' = Some 600000 \<and> live 70000 db2 ''k'' = []"
  by code_simp

end
