(* ===== verification/Router_Registry.thy ===== *)
theory Router_Registry
  imports Provider_Clients Json_Value Concurrency_Limit Token_Cost "HOL-Library.List_Lexorder" "HOL-Library.Char_ord"
begin

text \<open>
  The routing registry (\<^verbatim>\<open>internal/router/router.go\<close>), the circuit breakers with their Redis mirror
  (\<^verbatim>\<open>internal/router/breaker_redis.go\<close>) and the concurrency policies of models, providers and
  customers (\<^verbatim>\<open>internal/router/concurrency.go\<close>).

  \<^item> The registry is one record. An operation holds its lock throughout, so it is a function from
    registry to registry; \<open>RecordFailure\<close> takes the lock a second time to merge the answer of the
    store, which follows at once here.
  \<^item> The \<open>BreakerStore\<close> interface appears as its answers: \<open>peer name\<close> is what \<open>IsOpen\<close> returns for a
    deployment and \<open>mirror\<close> what \<open>RecordFailure\<close> returns, \<open>Inl\<close> an error. A registry without a store
    behaves as one whose store always answers closed. The Redis implementation follows below.
  \<^item> The rows that \<open>Refresh\<close> loads are arguments, \<open>Inl\<close> where the query failed; the digest of
    \<open>RoutingIdentity\<close> is the parameter \<open>digest\<close>.
\<close>

section \<open>State\<close>

record alias_target =
  at_DeploymentName :: string
  at_Priority :: int
  at_Weight :: int

record breaker_state =
  br_ConsecutiveFailures :: int
  br_LastFailure :: "gotime option"
  br_OpenUntil :: "gotime option"
  br_LastError :: string

record alias_meta =
  am_CacheEnabled :: bool
  am_CacheTTLSeconds :: int
  am_Strategy :: string
  am_StrategyOptions :: "options option"

record resolve_context =
  rc_Tags :: "string list"
  rc_Region :: string

record resolved =
  rs_Identity :: string
  rs_DeploymentName :: string
  rs_ProviderType :: string
  rs_Provider :: client
  rs_UpstreamModel :: string
  rs_Priority :: int
  rs_Weight :: int
  rs_BaseURL :: string
  rs_APIKey :: string

text \<open>The local counter of a deployment, read and written in one step.\<close>

record dep_counter =
  ctr_Limit :: int
  ctr_InFlight :: int

record concurrency_limit =
  cl_ID :: int
  cl_Scope :: string
  cl_Subject :: string
  cl_MaxParallelRequests :: "int option"

record concurrency_policies =
  cp_byScope :: "string \<times> string \<rightharpoonup> concurrency_limit"
  cp_loadedAt :: "gotime option"

record registry =
  rg_concurrencyPolicies :: concurrency_policies
  rg_aliases :: "(string \<times> alias_target list) list"
  rg_aliasMeta :: "string \<rightharpoonup> alias_meta"
  rg_deployments :: "(string \<times> deployment) list"
  rg_identities :: "string \<Rightarrow> string"
  rg_providers :: "string \<rightharpoonup> client"
  rg_pricing :: "string \<times> string \<rightharpoonup> int"
  rg_rr :: "string \<Rightarrow> int"
  rg_breakers :: "string \<rightharpoonup> breaker_state"
  rg_deploymentLimits :: "(string \<rightharpoonup> dep_counter) option"

datatype router_error = ErrUnknownAlias | ErrNoHealthyDeployment | ErrDeploymentSaturated

definition breakerFailureThreshold :: int where "breakerFailureThreshold = 3"
definition breakerCooldown :: duration where "breakerCooldown = 30 * Second"

definition Deployment :: "string \<Rightarrow> registry \<Rightarrow> deployment option" where
  "Deployment name r = map_of (rg_deployments r) name"

definition Provider :: "string \<Rightarrow> registry \<Rightarrow> client option" where
  "Provider name r = rg_providers r name"

definition Meta :: "string \<Rightarrow> registry \<Rightarrow> alias_meta option" where
  "Meta alias r = rg_aliasMeta r alias"

definition zero_meta :: alias_meta where
  "zero_meta = \<lparr>am_CacheEnabled = False, am_CacheTTLSeconds = 0, am_Strategy = [], am_StrategyOptions = None\<rparr>"

definition zero_breaker :: breaker_state where
  "zero_breaker = \<lparr>br_ConsecutiveFailures = 0, br_LastFailure = None, br_OpenUntil = None, br_LastError = []\<rparr>"

section \<open>Circuit breakers\<close>

definition after_now :: "gotime option \<Rightarrow> gotime \<Rightarrow> bool" where
  "after_now t now = (case t of None \<Rightarrow> False | Some u \<Rightarrow> u > now)"

definition ensureBreakerLocked :: "string \<Rightarrow> registry \<Rightarrow> breaker_state" where
  "ensureBreakerLocked name r = (case rg_breakers r name of None \<Rightarrow> zero_breaker | Some s \<Rightarrow> s)"

definition put_breaker :: "string \<Rightarrow> breaker_state \<Rightarrow> registry \<Rightarrow> registry" where
  "put_breaker name s r = r\<lparr>rg_breakers := (rg_breakers r)(name \<mapsto> s)\<rparr>"

definition isOpenLocked :: "(string \<Rightarrow> string + gotime option) \<Rightarrow> string \<Rightarrow> gotime \<Rightarrow> registry \<Rightarrow> bool \<times> registry" where
  "isOpenLocked peer name now r =
     (if (case rg_breakers r name of None \<Rightarrow> False | Some s \<Rightarrow> after_now (br_OpenUntil s) now) then (True, r)
      else (case peer name of
              Inr openUntil \<Rightarrow>
                if after_now openUntil now
                then (True, put_breaker name ((ensureBreakerLocked name r)\<lparr>br_OpenUntil := openUntil\<rparr>) r)
                else (False, r)
            | Inl err \<Rightarrow> (False, r)))"

definition RecordSuccess :: "string \<Rightarrow> registry \<Rightarrow> registry" where
  "RecordSuccess name r =
     put_breaker name ((ensureBreakerLocked name r)
       \<lparr>br_ConsecutiveFailures := 0, br_OpenUntil := None, br_LastError := []\<rparr>) r"

text \<open>The errors of an upstream call, as far as \<open>IsRetryable\<close> tells them apart.\<close>

datatype call_error = Upstream string int string | Canceled | DeadlineExceeded | NetError string | OtherError string

definition Retryable :: "int \<Rightarrow> bool" where
  "Retryable status \<longleftrightarrow> status = 429 \<or> status \<ge> 500"

fun IsRetryable :: "call_error option \<Rightarrow> bool" where
  "IsRetryable None = False"
| "IsRetryable (Some (Upstream provider status msg)) = Retryable status"
| "IsRetryable (Some Canceled) = False"
| "IsRetryable (Some DeadlineExceeded) = True"
| "IsRetryable (Some (NetError msg)) = True"
| "IsRetryable (Some (OtherError msg)) = False"

fun error_text :: "call_error \<Rightarrow> string" where
  "error_text (Upstream provider status msg) =
     (if status > 0 then provider @ '' status '' @ show_int status @ '': '' @ msg
      else provider @ '' upstream error: '' @ msg)"
| "error_text Canceled = ''context canceled''"
| "error_text DeadlineExceeded = ''context deadline exceeded''"
| "error_text (NetError msg) = msg"
| "error_text (OtherError msg) = msg"

definition count_failure :: "gotime \<Rightarrow> string \<Rightarrow> breaker_state \<Rightarrow> breaker_state" where
  "count_failure now err s =
     (let failures = (if (case br_LastFailure s of None \<Rightarrow> True | Some t \<Rightarrow> now - t > breakerCooldown)
                      then 0 else br_ConsecutiveFailures s) + 1
      in s\<lparr>br_ConsecutiveFailures := failures, br_LastFailure := Some now, br_LastError := err,
           br_OpenUntil := (if failures \<ge> breakerFailureThreshold then Some (now + breakerCooldown) else br_OpenUntil s)\<rparr>)"

definition merge_mirror :: "int \<Rightarrow> gotime \<Rightarrow> breaker_state \<Rightarrow> breaker_state" where
  "merge_mirror failures openUntil s =
     s\<lparr>br_OpenUntil := (case br_OpenUntil s of
                            None \<Rightarrow> Some openUntil
                          | Some t \<Rightarrow> if openUntil > t then Some openUntil else Some t),
       br_ConsecutiveFailures := (if failures > br_ConsecutiveFailures s then failures else br_ConsecutiveFailures s)\<rparr>"

definition RecordFailure ::
  "(string + int \<times> gotime option) \<Rightarrow> gotime \<Rightarrow> string \<Rightarrow> call_error option \<Rightarrow> registry \<Rightarrow> registry" where
  "RecordFailure mirror now name err r =
     (if \<not> IsRetryable err then r
      else
        let s = count_failure now (error_text (the err)) (ensureBreakerLocked name r)
        in (case mirror of
              Inr (failures, Some openUntil) \<Rightarrow> put_breaker name (merge_mirror failures openUntil s) r
            | _ \<Rightarrow> put_breaker name s r))"

subsection \<open>The mirror in Redis\<close>

text \<open>The two keys of a deployment, each with the time at which it expires. The keys of different
  deployments differ, and no failures key is an open key.\<close>

record redis_breakers =
  rb_failures :: "string \<rightharpoonup> int \<times> gotime"
  rb_open :: "string \<rightharpoonup> gotime \<times> gotime"

definition failuresKey :: "string \<Rightarrow> string \<Rightarrow> string" where
  "failuresKey prefix name = prefix @ '':breaker:'' @ name @ '':failures''"

definition openKey :: "string \<Rightarrow> string \<Rightarrow> string" where
  "openKey prefix name = prefix @ '':breaker:'' @ name @ '':open_until''"

definition Redis_IsOpen :: "redis_io \<Rightarrow> gotime \<Rightarrow> string \<Rightarrow> redis_breakers \<Rightarrow> string + gotime option" where
  "Redis_IsOpen io now name db =
     (if io \<noteq> Io_ok then Inl ''breaker is_open''
      else (case rb_open db name of
              None \<Rightarrow> Inr None
            | Some (t, ex) \<Rightarrow> if ex \<le> now then Inr None else if t < now then Inr None else Inr (Some t)))"

definition Redis_RecordFailure ::
  "redis_io \<Rightarrow> redis_io \<Rightarrow> gotime \<Rightarrow> string \<Rightarrow> int \<Rightarrow> duration \<Rightarrow> redis_breakers \<Rightarrow> (string + int \<times> gotime option) \<times> redis_breakers" where
  "Redis_RecordFailure incr_io set_io now name threshold cooldown db =
     (let failures = (case rb_failures db name of None \<Rightarrow> 0 | Some (n, ex) \<Rightarrow> if ex \<le> now then 0 else n) + 1;
          db1 = db\<lparr>rb_failures := (rb_failures db)(name \<mapsto> (failures, now + cooldown))\<rparr>
      in if incr_io \<noteq> Io_ok then (Inl ''breaker incr'', if script_ran incr_io then db1 else db)
         else if failures < threshold then (Inr (failures, None), db1)
         else let openUntil = now + cooldown;
                  db2 = db1\<lparr>rb_open := (rb_open db1)(name \<mapsto> (openUntil, now + cooldown))\<rparr>
              in if set_io \<noteq> Io_ok then (Inl ''breaker set open'', if script_ran set_io then db2 else db1)
                 else (Inr (failures, Some openUntil), db2))"

definition Redis_RecordSuccess :: "redis_io \<Rightarrow> string \<Rightarrow> redis_breakers \<Rightarrow> (string + unit) \<times> redis_breakers" where
  "Redis_RecordSuccess io name db =
     (let db' = db\<lparr>rb_failures := (rb_failures db)(name := None), rb_open := (rb_open db)(name := None)\<rparr>
      in if io \<noteq> Io_ok then (Inl ''breaker reset'', if script_ran io then db' else db) else (Inr (), db'))"

section \<open>Strategies\<close>

definition strategyChain :: "alias_meta \<Rightarrow> string list" where
  "strategyChain meta =
     (let composed = (case am_StrategyOptions meta of
            None \<Rightarrow> []
          | Some opts \<Rightarrow> (case Option.bind (opts ''compose'') as_array of
                            None \<Rightarrow> [] | Some xs \<Rightarrow> List.map_filter as_string xs))
      in if composed \<noteq> [] then composed
         else if am_Strategy meta \<noteq> [] \<and> am_Strategy meta \<noteq> ''priority'' then [am_Strategy meta]
         else [])"

definition hasStrategy :: "string list \<Rightarrow> string \<Rightarrow> bool" where
  "hasStrategy chain name = list_ex (\<lambda>s. s = name) chain"

definition stringOption :: "options option \<Rightarrow> string \<Rightarrow> string \<Rightarrow> string" where
  "stringOption opts key fallback =
     (case opts of
        None \<Rightarrow> fallback
      | Some m \<Rightarrow> (case Option.bind (m key) as_string of
                     Some v \<Rightarrow> if v \<noteq> [] then v else fallback
                   | None \<Rightarrow> fallback))"

definition tagFilter :: "deployment \<Rightarrow> string list \<Rightarrow> string \<Rightarrow> bool" where
  "tagFilter dep requestTags mode =
     (if requestTags = [] then True
      else if mode = ''all'' then list_all (\<lambda>t. t \<in> set (d_Tags dep)) requestTags
      else list_ex (\<lambda>t. t \<in> set (d_Tags dep)) requestTags)"

definition region_blocks :: "alias_meta \<Rightarrow> resolve_context \<Rightarrow> deployment \<Rightarrow> bool" where
  "region_blocks meta rc dep \<longleftrightarrow>
     hasStrategy (strategyChain meta) ''region'' \<and> rc_Region rc \<noteq> []
     \<and> (case d_Region dep of None \<Rightarrow> True | Some g \<Rightarrow> g \<noteq> rc_Region rc)
     \<and> stringOption (am_StrategyOptions meta) ''region_fallback'' ''any'' = ''block''"

definition tags_block :: "alias_meta \<Rightarrow> resolve_context \<Rightarrow> deployment \<Rightarrow> bool" where
  "tags_block meta rc dep \<longleftrightarrow>
     hasStrategy (strategyChain meta) ''tagged''
     \<and> \<not> tagFilter dep (rc_Tags rc) (stringOption (am_StrategyOptions meta) ''tag_match'' ''any'')"

section \<open>Resolution\<close>

definition orderedPriorities :: "alias_target list \<Rightarrow> int list" where
  "orderedPriorities targets = sort (remdups (map at_Priority targets))"

text \<open>A deployment that can serve the capability: known, enabled, with a client.\<close>

definition servable :: "registry \<Rightarrow> string \<Rightarrow> alias_target \<Rightarrow> (deployment \<times> client) option" where
  "servable r capability t =
     (case (Deployment (at_DeploymentName t) r, Provider (at_DeploymentName t) r) of
        (Some dep, Some prov) \<Rightarrow>
          if \<not> d_Enabled dep then None
          else if capability \<noteq> [] \<and> \<not> Supports (effectiveCapabilities dep prov) capability then None
          else Some (dep, prov)
      | _ \<Rightarrow> None)"

fun candidatesForPriorityLocked ::
  "(string \<Rightarrow> string + gotime option) \<Rightarrow> int \<Rightarrow> string list \<Rightarrow> bool \<Rightarrow> gotime \<Rightarrow> string \<Rightarrow> alias_meta \<Rightarrow> resolve_context
    \<Rightarrow> alias_target list \<Rightarrow> registry \<Rightarrow> alias_target list \<times> registry" where
  "candidatesForPriorityLocked peer priority tried healthyOnly now capability meta rc [] r = ([], r)"
| "candidatesForPriorityLocked peer priority tried healthyOnly now capability meta rc (t # ts) r =
     (if at_Priority t \<noteq> priority \<or> at_DeploymentName t \<in> set tried
      then candidatesForPriorityLocked peer priority tried healthyOnly now capability meta rc ts r
      else (case servable r capability t of
              None \<Rightarrow> candidatesForPriorityLocked peer priority tried healthyOnly now capability meta rc ts r
            | Some (dep, prov) \<Rightarrow>
                let (open, r1) = (if healthyOnly then isOpenLocked peer (at_DeploymentName t) now r else (False, r));
                    (out, r2) = candidatesForPriorityLocked peer priority tried healthyOnly now capability meta rc ts r1
                in if open \<or> tags_block meta rc dep \<or> region_blocks meta rc dep then (out, r2) else (t # out, r2)))"

definition candidateCost :: "registry \<Rightarrow> alias_target \<Rightarrow> int" where
  "candidateCost r t =
     (case Deployment (at_DeploymentName t) r of
        None \<Rightarrow> 2 ^ 62
      | Some dep \<Rightarrow> (case rg_pricing r (d_ProviderType dep, d_UpstreamModel dep) of Some cost \<Rightarrow> cost | None \<Rightarrow> 2 ^ 62))"

definition resolvedLocked :: "(string \<Rightarrow> string) \<Rightarrow> registry \<Rightarrow> alias_target \<Rightarrow> resolved may_panic" where
  "resolvedLocked getenv r chosen =
     (case (Deployment (at_DeploymentName chosen) r, Provider (at_DeploymentName chosen) r) of
        (Some dep, Some prov) \<Rightarrow>
          Inr \<lparr>rs_Identity = rg_identities r (d_Name dep), rs_DeploymentName = at_DeploymentName chosen,
               rs_ProviderType = d_ProviderType dep, rs_Provider = prov, rs_UpstreamModel = d_UpstreamModel dep,
               rs_Priority = at_Priority chosen, rs_Weight = at_Weight chosen, rs_BaseURL = opt_str (d_BaseURL dep),
               rs_APIKey = credential getenv dep\<rparr>
      | _ \<Rightarrow> Inl (Panic ''nil deployment''))"

definition effective_weight :: "alias_target \<Rightarrow> int" where
  "effective_weight t = (if at_Weight t \<le> 0 then 1 else at_Weight t)"

definition total_weight :: "alias_target list \<Rightarrow> int" where
  "total_weight candidates = fold (\<lambda>t total. wrap64 (total + effective_weight t)) candidates 0"

fun wrr_walk :: "int \<Rightarrow> int \<Rightarrow> alias_target \<Rightarrow> alias_target list \<Rightarrow> alias_target" where
  "wrr_walk idx offset chosen [] = chosen"
| "wrr_walk idx offset chosen (t # ts) =
     (let offset' = wrap64 (offset + effective_weight t)
      in if idx < offset' then t else wrr_walk idx offset' chosen ts)"

definition rr_key :: "string \<Rightarrow> int \<Rightarrow> string" where
  "rr_key alias priority = alias @ ''|'' @ show_int priority"

text \<open>The choice of \<open>pickLocked\<close>, and the step of the round-robin counter.\<close>

definition pick_target :: "string \<Rightarrow> int \<Rightarrow> alias_target list \<Rightarrow> alias_meta \<Rightarrow> registry \<Rightarrow> alias_target \<times> registry" where
  "pick_target alias priority candidates meta r =
     (if hasStrategy (strategyChain meta) ''cost'' \<and> length candidates > 1
      then (hd (sort_key (candidateCost r) candidates), r)
      else
        let key = rr_key alias priority;
            total = total_weight candidates;
            idx = (if total > 0 then rg_rr r key smod total else 0);
            r' = (if total > 0 then r\<lparr>rg_rr := (rg_rr r)(key := wrap64 (rg_rr r key + 1))\<rparr> else r)
        in (wrr_walk idx 0 (hd candidates) candidates, r'))"

definition pickLocked ::
  "(string \<Rightarrow> string) \<Rightarrow> string \<Rightarrow> int \<Rightarrow> alias_target list \<Rightarrow> alias_meta \<Rightarrow> registry \<Rightarrow> resolved may_panic \<times> registry" where
  "pickLocked getenv alias priority candidates meta r =
     (case pick_target alias priority candidates meta r of (chosen, r') \<Rightarrow> (resolvedLocked getenv r' chosen, r'))"

text \<open>One pass over the priorities: the first band with a candidate.\<close>

fun first_band ::
  "(string \<Rightarrow> string + gotime option) \<Rightarrow> string list \<Rightarrow> bool \<Rightarrow> gotime \<Rightarrow> string \<Rightarrow> alias_meta \<Rightarrow> resolve_context
    \<Rightarrow> alias_target list \<Rightarrow> int list \<Rightarrow> registry \<Rightarrow> (int \<times> alias_target list) option \<times> registry" where
  "first_band peer tried healthyOnly now capability meta rc targets [] r = (None, r)"
| "first_band peer tried healthyOnly now capability meta rc targets (p # ps) r =
     (case candidatesForPriorityLocked peer p tried healthyOnly now capability meta rc targets r of
        ([], r') \<Rightarrow> first_band peer tried healthyOnly now capability meta rc targets ps r'
      | (cands, r') \<Rightarrow> (Some (p, cands), r'))"

definition ResolveWithContext ::
  "(string \<Rightarrow> string) \<Rightarrow> (string \<Rightarrow> string + gotime option) \<Rightarrow> gotime \<Rightarrow> string \<Rightarrow> string list \<Rightarrow> string \<Rightarrow> resolve_context
    \<Rightarrow> registry \<Rightarrow> (router_error + resolved) may_panic \<times> registry" where
  "ResolveWithContext getenv peer now alias tried capability rc r =
     (case map_of (rg_aliases r) alias of
        None \<Rightarrow> (Inr (Inl ErrUnknownAlias), r)
      | Some targets \<Rightarrow>
          if targets = [] then (Inr (Inl ErrUnknownAlias), r)
          else
            let meta = (case rg_aliasMeta r alias of None \<Rightarrow> zero_meta | Some m \<Rightarrow> m);
                priorities = orderedPriorities targets;
                pick = (\<lambda>(p, cands) r'. case pickLocked getenv alias p cands meta r' of
                          (Inl e, r'') \<Rightarrow> (Inl e, r'') | (Inr res, r'') \<Rightarrow> (Inr (Inr res), r''))
            in (case first_band peer tried True now capability meta rc targets priorities r of
                  (Some band, r1) \<Rightarrow> pick band r1
                | (None, r1) \<Rightarrow>
                    (case first_band peer tried False now capability meta rc targets priorities r1 of
                       (Some band, r2) \<Rightarrow> pick band r2
                     | (None, r2) \<Rightarrow> (Inr (Inl ErrNoHealthyDeployment), r2))))"

definition no_context :: resolve_context where
  "no_context = \<lparr>rc_Tags = [], rc_Region = []\<rparr>"

definition ResolveNextFor where
  "ResolveNextFor getenv peer now alias tried capability r =
     ResolveWithContext getenv peer now alias tried capability no_context r"

definition ResolveNext where
  "ResolveNext getenv peer now alias tried r = ResolveNextFor getenv peer now alias tried [] r"

definition Resolve where
  "Resolve getenv peer now alias r = ResolveNextFor getenv peer now alias [] [] r"

definition TargetsFor :: "string \<Rightarrow> string \<Rightarrow> registry \<Rightarrow> router_error + resolved list" where
  "TargetsFor alias capability r =
     (case map_of (rg_aliases r) alias of
        None \<Rightarrow> Inl ErrUnknownAlias
      | Some targets \<Rightarrow>
          if targets = [] then Inl ErrUnknownAlias
          else
            let out = List.map_filter (\<lambda>t. case servable r capability t of
                  None \<Rightarrow> None
                | Some (dep, prov) \<Rightarrow>
                    Some \<lparr>rs_Identity = rg_identities r (d_Name dep), rs_DeploymentName = at_DeploymentName t,
                          rs_ProviderType = d_ProviderType dep, rs_Provider = prov, rs_UpstreamModel = d_UpstreamModel dep,
                          rs_Priority = at_Priority t, rs_Weight = at_Weight t, rs_BaseURL = [], rs_APIKey = []\<rparr>) targets
            in if out = [] then Inl ErrNoHealthyDeployment else Inr out)"

definition Targets :: "string \<Rightarrow> registry \<Rightarrow> router_error + resolved list" where
  "Targets alias r = TargetsFor alias [] r"

definition Aliases :: "registry \<Rightarrow> string list" where
  "Aliases r = sort (remdups (map fst (rg_aliases r)))"

section \<open>Local capacity\<close>

definition ctr_SetLimit :: "int \<Rightarrow> dep_counter \<Rightarrow> dep_counter" where
  "ctr_SetLimit limit c = c\<lparr>ctr_Limit := (if limit < 0 then 0 else limit)\<rparr>"

definition ctr_New :: "int \<Rightarrow> dep_counter" where
  "ctr_New limit = ctr_SetLimit limit \<lparr>ctr_Limit = 0, ctr_InFlight = 0\<rparr>"

definition ctr_TryAcquire :: "dep_counter \<Rightarrow> dep_counter option" where
  "ctr_TryAcquire c =
     (if ctr_Limit c > 0 \<and> ctr_InFlight c \<ge> ctr_Limit c then None else Some (c\<lparr>ctr_InFlight := ctr_InFlight c + 1\<rparr>))"

definition ctr_Release :: "dep_counter \<Rightarrow> dep_counter" where
  "ctr_Release c = c\<lparr>ctr_InFlight := ctr_InFlight c - 1\<rparr>"

record deployment_concurrency =
  dcc_InFlight :: int
  dcc_Limit :: int

definition stats_of :: "dep_counter \<Rightarrow> deployment_concurrency" where
  "stats_of c = \<lparr>dcc_InFlight = ctr_InFlight c, dcc_Limit = ctr_Limit c\<rparr>"

definition no_stats :: deployment_concurrency where
  "no_stats = \<lparr>dcc_InFlight = 0, dcc_Limit = 0\<rparr>"

text \<open>A permit names its deployment; it counts when it came from a counter, and until it is released.
  A counter is only dropped while nothing is in flight on it, so the name identifies it.\<close>

record permit =
  pm_name :: string
  pm_counted :: bool

definition TryAcquireDeployment ::
  "string \<Rightarrow> registry option \<Rightarrow> (permit option \<times> deployment_concurrency \<times> bool) \<times> registry option" where
  "TryAcquireDeployment name ro =
     (case ro of
        None \<Rightarrow> ((None, no_stats, False), None)
      | Some r \<Rightarrow>
          (case rg_deploymentLimits r of
             None \<Rightarrow> ((Some \<lparr>pm_name = name, pm_counted = False\<rparr>, no_stats, True), ro)
           | Some limits \<Rightarrow>
               (case limits name of
                  None \<Rightarrow> ((None, no_stats, False), ro)
                | Some c \<Rightarrow>
                    (case ctr_TryAcquire c of
                       None \<Rightarrow> ((None, stats_of c, False), ro)
                     | Some c' \<Rightarrow> ((Some \<lparr>pm_name = name, pm_counted = True\<rparr>, stats_of c', True),
                                   Some (r\<lparr>rg_deploymentLimits := Some (limits(name \<mapsto> c'))\<rparr>))))))"

definition DeploymentPermit_Release :: "permit option \<Rightarrow> registry \<Rightarrow> permit option \<times> registry" where
  "DeploymentPermit_Release p r =
     (case p of
        None \<Rightarrow> (None, r)
      | Some pm \<Rightarrow>
          if \<not> pm_counted pm then (p, r)
          else (Some (pm\<lparr>pm_counted := False\<rparr>),
                (case rg_deploymentLimits r of
                   Some limits \<Rightarrow> (case limits (pm_name pm) of
                      Some c \<Rightarrow> r\<lparr>rg_deploymentLimits := Some (limits(pm_name pm \<mapsto> ctr_Release c))\<rparr>
                    | None \<Rightarrow> r)
                 | None \<Rightarrow> r)))"

definition DeploymentPermit_Name :: "permit option \<Rightarrow> string" where
  "DeploymentPermit_Name p = (case p of None \<Rightarrow> [] | Some pm \<Rightarrow> pm_name pm)"

definition DeploymentConcurrency_of :: "string \<Rightarrow> registry option \<Rightarrow> deployment_concurrency" where
  "DeploymentConcurrency_of name ro =
     (case ro of
        None \<Rightarrow> no_stats
      | Some r \<Rightarrow> (case Option.bind (rg_deploymentLimits r) (\<lambda>m. m name) of None \<Rightarrow> no_stats | Some c \<Rightarrow> stats_of c))"

section \<open>Loading the registry\<close>

record alias_row =
  al_Alias :: string
  al_Deployments :: "string list"
  al_Targets :: "alias_target list"
  al_CacheEnabled :: bool
  al_CacheTTLSeconds :: int
  al_Strategy :: string
  al_StrategyOptions :: "options option"

definition row_targets :: "alias_row \<Rightarrow> alias_target list" where
  "row_targets a =
     (if al_Targets a \<noteq> [] then al_Targets a
      else map (\<lambda>(i, name). \<lparr>at_DeploymentName = name, at_Priority = int i, at_Weight = 1\<rparr>)
             (enumerate 0 (al_Deployments a)))"

definition row_meta :: "alias_row \<Rightarrow> alias_meta" where
  "row_meta a = \<lparr>am_CacheEnabled = al_CacheEnabled a, am_CacheTTLSeconds = al_CacheTTLSeconds a,
     am_Strategy = al_Strategy a, am_StrategyOptions = al_StrategyOptions a\<rparr>"

definition dep_limit :: "deployment \<Rightarrow> int" where
  "dep_limit d = (case d_MaxParallelRequests d of Some m \<Rightarrow> if m > 0 then m else 0 | None \<Rightarrow> 0)"

text \<open>Counters are reused across refreshes; those of removed deployments are kept while they count
  something.\<close>

definition refresh_limits :: "(string \<times> deployment) list \<Rightarrow> (string \<rightharpoonup> dep_counter) \<Rightarrow> string \<rightharpoonup> dep_counter" where
  "refresh_limits newDep limits = (\<lambda>name.
     (case map_of newDep name of
        Some dep \<Rightarrow> (case limits name of
                      None \<Rightarrow> Some (ctr_New (dep_limit dep))
                    | Some c \<Rightarrow> Some (ctr_SetLimit (dep_limit dep) c))
      | None \<Rightarrow> (case limits name of
                    None \<Rightarrow> None
                  | Some c \<Rightarrow> if ctr_InFlight c = 0 then None else Some c)))"

definition policy_map :: "concurrency_limit list \<Rightarrow> string \<times> string \<rightharpoonup> concurrency_limit" where
  "policy_map rows = fold (\<lambda>row m. if cl_MaxParallelRequests row = None then m
                                   else m((cl_Scope row, cl_Subject row) \<mapsto> row)) rows Map.empty"

definition RefreshConcurrencyPolicies ::
  "(string + concurrency_limit list) \<Rightarrow> (string + concurrency_limit list) \<Rightarrow> gotime \<Rightarrow> registry \<Rightarrow> (string + unit) \<times> registry" where
  "RefreshConcurrencyPolicies routing customers now r =
     (case routing of
        Inl err \<Rightarrow> (Inl err, r)
      | Inr rows \<Rightarrow>
          (case customers of
             Inl err \<Rightarrow> (Inl err, r)
           | Inr extra \<Rightarrow>
               (Inr (), r\<lparr>rg_concurrencyPolicies := \<lparr>cp_byScope = policy_map (rows @ extra), cp_loadedAt = Some now\<rparr>\<rparr>)))"

definition ConcurrencyPolicyMaxAge :: duration where "ConcurrencyPolicyMaxAge = 15 * Second"

definition ConcurrencyScope :: "bool \<Rightarrow> gotime \<Rightarrow> string \<Rightarrow> string \<Rightarrow> registry \<Rightarrow> string + scope list" where
  "ConcurrencyScope has_store now kind subject r =
     (let p = rg_concurrencyPolicies r in
      if has_store \<and> (case cp_loadedAt p of None \<Rightarrow> True | Some t \<Rightarrow> now - t > ConcurrencyPolicyMaxAge)
      then Inl ''concurrency policy snapshot is stale''
      else (case cp_byScope p (kind, subject) of
              None \<Rightarrow> Inr []
            | Some row \<Rightarrow> Inr [\<lparr>sc_Kind = kind, sc_ID = cl_ID row, sc_Limit = the (cl_MaxParallelRequests row)\<rparr>]))"

definition build_clients :: "(string \<Rightarrow> string) \<Rightarrow> (string \<Rightarrow> string \<Rightarrow> bool) \<Rightarrow> deployment list \<Rightarrow> string \<rightharpoonup> client" where
  "build_clients getenv cloud deps =
     fold (\<lambda>d m. case buildProvider getenv cloud d of Inl reason \<Rightarrow> m | Inr c \<Rightarrow> m(d_Name d \<mapsto> c)) deps Map.empty"

definition Refresh ::
  "(string \<Rightarrow> string) \<Rightarrow> (string \<Rightarrow> string \<Rightarrow> bool) \<Rightarrow> (deployment \<Rightarrow> string)
    \<Rightarrow> (string + concurrency_limit list) \<Rightarrow> (string + concurrency_limit list)
    \<Rightarrow> (string + deployment list) \<Rightarrow> (string + alias_row list) \<Rightarrow> (string + ((string \<times> string) \<times> pricing) list)
    \<Rightarrow> gotime \<Rightarrow> registry \<Rightarrow> (string + unit) \<times> registry" where
  "Refresh getenv cloud digest routing customers deployments aliases pricing_rows now r0 =
     (case RefreshConcurrencyPolicies routing customers now r0 of
        (Inl err, r) \<Rightarrow> (Inl (''load concurrency policies: '' @ err), r)
      | (Inr _, r) \<Rightarrow>
          (case deployments of
             Inl err \<Rightarrow> (Inl (''load deployments: '' @ err), r)
           | Inr deps \<Rightarrow>
               (case aliases of
                  Inl err \<Rightarrow> (Inl (''load aliases: '' @ err), r)
                | Inr rows \<Rightarrow>
                    let newDep = fold (\<lambda>d m. AList.update (d_Name d) d m) deps [];
                        limits = (case rg_deploymentLimits r of None \<Rightarrow> Map.empty | Some m \<Rightarrow> m)
                    in (Inr (), r\<lparr>
                          rg_deploymentLimits := Some (refresh_limits newDep limits),
                          rg_deployments := newDep,
                          rg_identities := (\<lambda>name. case map_of newDep name of None \<Rightarrow> [] | Some d \<Rightarrow> digest d),
                          rg_providers := build_clients getenv cloud deps,
                          rg_aliases := fold (\<lambda>a m. AList.update (al_Alias a) (row_targets a) m) rows [],
                          rg_aliasMeta := fold (\<lambda>a m. m(al_Alias a \<mapsto> row_meta a)) rows Map.empty,
                          rg_pricing := (case pricing_rows of
                             Inl err \<Rightarrow> Map.empty
                           | Inr ps \<Rightarrow> fold (\<lambda>(k, p) m. m(k \<mapsto> InputPerMillionCents p)) ps Map.empty)\<rparr>))))"

definition empty_registry :: registry where
  "empty_registry = \<lparr>rg_concurrencyPolicies = \<lparr>cp_byScope = Map.empty, cp_loadedAt = None\<rparr>,
     rg_aliases = [], rg_aliasMeta = Map.empty, rg_deployments = [], rg_identities = (\<lambda>_. []), rg_providers = Map.empty,
     rg_pricing = Map.empty, rg_rr = (\<lambda>_. 0), rg_breakers = Map.empty, rg_deploymentLimits = Some Map.empty\<rparr>"

section \<open>Health\<close>

record deployment_health =
  dh_Name :: string
  dh_ProviderType :: string
  dh_Enabled :: bool
  dh_Ready :: bool
  dh_HasCredential :: bool
  dh_Circuit :: string
  dh_ConsecutiveFailures :: int
  dh_OpenUntil :: "gotime option"
  dh_LastError :: string
  dh_InFlight :: int
  dh_MaxParallelRequests :: int

definition health_of :: "(string \<Rightarrow> string) \<Rightarrow> gotime \<Rightarrow> registry \<Rightarrow> string \<Rightarrow> deployment \<Rightarrow> deployment_health" where
  "health_of getenv now r name dep =
     (let ready = (rg_providers r name \<noteq> None);
          stats = DeploymentConcurrency_of name (Some r);
          s = (case rg_breakers r name of None \<Rightarrow> zero_breaker | Some b \<Rightarrow> b);
          open = after_now (br_OpenUntil s) now
      in \<lparr>dh_Name = name, dh_ProviderType = d_ProviderType dep, dh_Enabled = d_Enabled dep, dh_Ready = ready,
          dh_HasCredential = (d_CredentialRef dep = [] \<or> getenv (d_CredentialRef dep) \<noteq> []),
          dh_Circuit = (if \<not> ready \<and> d_Enabled dep then ''unavailable'' else if open then ''open'' else ''closed''),
          dh_ConsecutiveFailures = br_ConsecutiveFailures s,
          dh_OpenUntil = (if open then br_OpenUntil s else None), dh_LastError = br_LastError s,
          dh_InFlight = dcc_InFlight stats, dh_MaxParallelRequests = dcc_Limit stats\<rparr>)"

definition Health :: "(string \<Rightarrow> string) \<Rightarrow> gotime \<Rightarrow> registry \<Rightarrow> deployment_health list" where
  "Health getenv now r =
     map (\<lambda>name. health_of getenv now r name (the (Deployment name r)))
       (sort (remdups (map fst (rg_deployments r))))"

end
