(* ===== verification/Routing_Laws.thy ===== *)
theory Routing_Laws
  imports Router_Registry
begin

text \<open>
  What the registry promises: which deployment a request is sent to, how the weighted round robin
  shares requests out, when a circuit breaker is open, and that a reload of the configuration keeps
  count of the work in flight.
\<close>

section \<open>Which deployment is chosen\<close>

definition open_now :: "(string \<Rightarrow> string + gotime option) \<Rightarrow> gotime \<Rightarrow> registry \<Rightarrow> string \<Rightarrow> bool" where
  "open_now peer now r name \<longleftrightarrow>
     (case rg_breakers r name of None \<Rightarrow> False | Some s \<Rightarrow> after_now (br_OpenUntil s) now)
     \<or> (case peer name of Inr t \<Rightarrow> after_now t now | Inl e \<Rightarrow> False)"

text \<open>The looking up of a breaker may note what the store answered, which changes no decision.\<close>

definition same_routing :: "(string \<Rightarrow> string + gotime option) \<Rightarrow> gotime \<Rightarrow> registry \<Rightarrow> registry \<Rightarrow> bool" where
  "same_routing peer now r r' \<longleftrightarrow> (\<exists>b. r' = r\<lparr>rg_breakers := b\<rparr>) \<and> open_now peer now r' = open_now peer now r"

lemma same_routing_refl [simp]: "same_routing peer now r r"
  unfolding same_routing_def by (metis registry.surjective registry.update_convs(9))

lemma same_routing_trans [trans]:
  "same_routing peer now r r1 \<Longrightarrow> same_routing peer now r1 r2 \<Longrightarrow> same_routing peer now r r2"
  unfolding same_routing_def by (auto intro: exI)

lemma servable_cong: "rg_deployments r' = rg_deployments r \<Longrightarrow> rg_providers r' = rg_providers r \<Longrightarrow> servable r' = servable r"
  by (simp add: servable_def Deployment_def Provider_def fun_eq_iff)

lemma servable_breakers [simp, frame_simps]: "servable (r\<lparr>rg_breakers := b\<rparr>) = servable r"
  by (simp add: servable_def Deployment_def Provider_def fun_eq_iff)

lemma same_routing_servable: "same_routing peer now r r' \<Longrightarrow> servable r' = servable r"
  by (auto simp: same_routing_def)

lemma isOpenLocked_eq:
  "\<exists>r'. isOpenLocked peer name now r = (open_now peer now r name, r') \<and> same_routing peer now r r'"
proof (cases "(case rg_breakers r name of None \<Rightarrow> False | Some s \<Rightarrow> after_now (br_OpenUntil s) now)")
  case True
  then show ?thesis by (simp add: isOpenLocked_def open_now_def)
next
  case False
  show ?thesis
  proof (cases "case peer name of Inr t \<Rightarrow> after_now t now | Inl e \<Rightarrow> False")
    case True
    then obtain t where t: "peer name = Inr t" "after_now t now" by (cases "peer name") auto
    define r' where "r' = put_breaker name ((ensureBreakerLocked name r)\<lparr>br_OpenUntil := t\<rparr>) r"
    have "open_now peer now r' n = open_now peer now r n" for n
      using t by (cases "n = name") (auto simp: open_now_def r'_def put_breaker_def)
    then have "same_routing peer now r r'" by (auto simp: same_routing_def r'_def put_breaker_def)
    with False t show ?thesis by (auto simp: isOpenLocked_def open_now_def r'_def)
  next
    case closed: False
    then have "isOpenLocked peer name now r = (False, r)"
      using False by (cases "peer name") (simp_all add: isOpenLocked_def)
    with False closed show ?thesis by (simp add: open_now_def)
  qed
qed

text \<open>A target that may serve the request, and one that may serve it now.\<close>

definition eligible :: "string list \<Rightarrow> string \<Rightarrow> alias_meta \<Rightarrow> resolve_context \<Rightarrow> registry \<Rightarrow> alias_target \<Rightarrow> bool" where
  "eligible tried capability meta rc r t \<longleftrightarrow> at_DeploymentName t \<notin> set tried
     \<and> (case servable r capability t of None \<Rightarrow> False | Some (dep, prov) \<Rightarrow> \<not> tags_block meta rc dep \<and> \<not> region_blocks meta rc dep)"

definition may_try where
  "may_try peer tried healthyOnly now capability meta rc r t \<longleftrightarrow>
     eligible tried capability meta rc r t \<and> (healthyOnly \<longrightarrow> \<not> open_now peer now r (at_DeploymentName t))"

lemma may_try_same:
  "same_routing peer now r r' \<Longrightarrow>
   may_try peer tried healthyOnly now capability meta rc r' = may_try peer tried healthyOnly now capability meta rc r"
  by (auto simp: may_try_def eligible_def same_routing_servable same_routing_def fun_eq_iff)

lemma candidates_eq:
  "\<exists>r'. candidatesForPriorityLocked peer p tried healthyOnly now capability meta rc ts r =
     (filter (\<lambda>t. at_Priority t = p \<and> may_try peer tried healthyOnly now capability meta rc r t) ts, r')
     \<and> same_routing peer now r r'"
proof (induction ts arbitrary: r)
  case (Cons t ts)
  show ?case
  proof (cases "at_Priority t \<noteq> p \<or> at_DeploymentName t \<in> set tried \<or> servable r capability t = None")
    case True
    then have "\<not> (at_Priority t = p \<and> may_try peer tried healthyOnly now capability meta rc r t)"
      by (auto simp: may_try_def eligible_def)
    with True Cons.IH [of r] show ?thesis by auto
  next
    case False
    then obtain dep prov where sv: "servable r capability t = Some (dep, prov)" by auto
    obtain op r1 where o1: "(if healthyOnly then isOpenLocked peer (at_DeploymentName t) now r else (False, r)) = (op, r1)"
      by fastforce
    have op: "op = (healthyOnly \<and> open_now peer now r (at_DeploymentName t))" and sr: "same_routing peer now r r1"
      using isOpenLocked_eq [of peer "at_DeploymentName t" now r] o1 by (auto split: if_splits)
    obtain r2 where rec: "candidatesForPriorityLocked peer p tried healthyOnly now capability meta rc ts r1 =
        (filter (\<lambda>t. at_Priority t = p \<and> may_try peer tried healthyOnly now capability meta rc r1 t) ts, r2)"
      and sr2: "same_routing peer now r1 r2" using Cons.IH [of r1] by blast
    have "may_try peer tried healthyOnly now capability meta rc r t \<longleftrightarrow> \<not> (op \<or> tags_block meta rc dep \<or> region_blocks meta rc dep)"
      using False sv op by (auto simp: may_try_def eligible_def)
    then show ?thesis using False sv o1 rec same_routing_trans [OF sr sr2]
      by (auto simp: may_try_same [OF sr])
  qed
qed simp

lemma first_band_eq:
  "\<exists>r'. same_routing peer now r r' \<and>
     (case first_band peer tried healthyOnly now capability meta rc targets ps r of
        (None, r'') \<Rightarrow> r'' = r' \<and> (\<forall>p \<in> set ps. \<forall>t \<in> set targets.
           \<not> (at_Priority t = p \<and> may_try peer tried healthyOnly now capability meta rc r t))
      | (Some (p, cands), r'') \<Rightarrow> r'' = r' \<and> cands \<noteq> []
          \<and> cands = filter (\<lambda>t. at_Priority t = p \<and> may_try peer tried healthyOnly now capability meta rc r t) targets
          \<and> (\<exists>qs qs'. ps = qs @ p # qs' \<and> (\<forall>q \<in> set qs. \<forall>t \<in> set targets.
               \<not> (at_Priority t = q \<and> may_try peer tried healthyOnly now capability meta rc r t))))"
proof (induction ps arbitrary: r)
  case (Cons p ps)
  obtain r1 where c: "candidatesForPriorityLocked peer p tried healthyOnly now capability meta rc targets r =
     (filter (\<lambda>t. at_Priority t = p \<and> may_try peer tried healthyOnly now capability meta rc r t) targets, r1)"
    and sr: "same_routing peer now r r1" using candidates_eq by blast
  show ?case
  proof (cases "filter (\<lambda>t. at_Priority t = p \<and> may_try peer tried healthyOnly now capability meta rc r t) targets")
    case Nil
    then have none: "\<forall>t \<in> set targets. \<not> (at_Priority t = p \<and> may_try peer tried healthyOnly now capability meta rc r t)"
      by (auto simp: filter_empty_conv)
    have step: "first_band peer tried healthyOnly now capability meta rc targets (p # ps) r =
        first_band peer tried healthyOnly now capability meta rc targets ps r1" using c Nil by simp
    obtain res r2 where fb: "first_band peer tried healthyOnly now capability meta rc targets ps r1 = (res, r2)" by fastforce
    note ih = Cons.IH [of r1, unfolded may_try_same [OF sr] fb prod.case]
    show ?thesis
    proof (cases res)
      case None
      with ih none same_routing_trans [OF sr] show ?thesis unfolding step fb by auto
    next
      case (Some pc)
      obtain q cands where pc: "pc = (q, cands)" by fastforce
      from ih obtain qs qs' where "ps = qs @ q # qs'" and qs: "\<forall>x \<in> set qs. \<forall>t \<in> set targets.
            \<not> (at_Priority t = x \<and> may_try peer tried healthyOnly now capability meta rc r t)"
        unfolding Some pc by auto
      then have ex: "\<exists>qs qs'. p # ps = qs @ q # qs' \<and> (\<forall>x \<in> set qs. \<forall>t \<in> set targets.
            \<not> (at_Priority t = x \<and> may_try peer tried healthyOnly now capability meta rc r t))"
        using none by (intro exI [of _ "p # qs"] exI [of _ qs']) auto
      have "same_routing peer now r r2" "cands \<noteq> []"
        "cands = filter (\<lambda>t. at_Priority t = q \<and> may_try peer tried healthyOnly now capability meta rc r t) targets"
        using ih same_routing_trans [OF sr] unfolding Some pc by auto
      then show ?thesis using ex unfolding step fb Some pc by (intro exI [of _ r2]) simp
    qed
  next
    case (Cons t ts)
    then have "first_band peer tried healthyOnly now capability meta rc targets (p # ps) r = (Some (p, t # ts), r1)"
      using c by simp
    moreover have "\<exists>qs qs'. p # ps = qs @ p # qs' \<and> (\<forall>q \<in> set qs. \<forall>t \<in> set targets.
               \<not> (at_Priority t = q \<and> may_try peer tried healthyOnly now capability meta rc r t))"
      by (rule exI [of _ "[]"]) auto
    ultimately show ?thesis using sr Cons by (auto simp del: first_band.simps)
  qed
qed simp

lemma wrr_walk_in: "wrr_walk idx off c ts \<in> insert c (set ts)"
  by (induction ts arbitrary: off) (auto simp: Let_def)

lemma pick_target_in: "cands \<noteq> [] \<Longrightarrow> fst (pick_target alias p cands meta r) \<in> set cands"
proof -
  assume ne: "cands \<noteq> []"
  have "hd (sort_key (candidateCost r) cands) \<in> set cands"
    using hd_in_set [of "sort_key (candidateCost r) cands"] ne by (metis length_0_conv length_sort set_sort)
  moreover have "wrr_walk idx 0 (hd cands) cands \<in> set cands" for idx
    using wrr_walk_in [of idx 0 "hd cands" cands] hd_in_set [OF ne] by auto
  ultimately show ?thesis by (simp add: pick_target_def Let_def)
qed

lemma pick_target_frame [frame_simps]:
  "servable (snd (pick_target alias p cands meta r)) = servable r"
proof (rule servable_cong)
  show "rg_deployments (snd (pick_target alias p cands meta r)) = rg_deployments r"
    and "rg_providers (snd (pick_target alias p cands meta r)) = rg_providers r"
    by (simp_all add: pick_target_def Let_def)
qed

lemma resolvedLocked_servable:
  "servable r capability t = Some x \<Longrightarrow>
   \<exists>res. resolvedLocked getenv r t = Inr res \<and> rs_DeploymentName res = at_DeploymentName t \<and> rs_Priority res = at_Priority t"
  by (auto simp: servable_def resolvedLocked_def split: option.splits)

lemma pickLocked_ok:
  assumes "cands \<noteq> []" and "\<And>t. t \<in> set cands \<Longrightarrow> servable r capability t \<noteq> None"
  shows "\<exists>t \<in> set cands. \<exists>res r'. pickLocked getenv alias p cands meta r = (Inr res, r')
    \<and> rs_DeploymentName res = at_DeploymentName t \<and> rs_Priority res = at_Priority t"
proof -
  obtain t r' where pt: "pick_target alias p cands meta r = (t, r')" by fastforce
  have t: "t \<in> set cands" using pick_target_in [OF assms(1), of "alias" p meta r] pt by simp
  have "servable r' = servable r" using pick_target_frame [of "alias" p cands meta r] pt by simp
  then obtain x where "servable r' capability t = Some x" using assms(2) [OF t] by auto
  from resolvedLocked_servable [OF this, of getenv] t show ?thesis by (auto simp: pickLocked_def pt)
qed

lemma band_of_targets:
  assumes "ps = orderedPriorities targets" and "ps = qs @ p # qs'"
    and "\<forall>q \<in> set qs. \<forall>t \<in> set targets. \<not> (at_Priority t = q \<and> P t)"
    and "t \<in> set targets" and "P t"
  shows "p \<le> at_Priority t"
proof -
  have "at_Priority t \<in> set ps" using assms(1,4) by (simp add: orderedPriorities_def)
  moreover have "at_Priority t \<notin> set qs" using assms(3,4,5) by blast
  moreover have "sorted ps" using assms(1) by (simp add: orderedPriorities_def)
  ultimately show ?thesis unfolding assms(2) by (auto simp: sorted_append)
qed

lemma no_band:
  assumes "\<forall>p \<in> set (orderedPriorities targets). \<forall>t \<in> set targets. \<not> (at_Priority t = p \<and> P t)" and "t \<in> set targets"
  shows "\<not> P t"
  using assms by (auto simp: orderedPriorities_def)

lemma may_try_eligible: "may_try peer tried False now capability meta rc r = eligible tried capability meta rc r"
  by (simp add: may_try_def fun_eq_iff)

lemma eligible_servable: "eligible tried capability meta rc r t \<Longrightarrow> servable r capability t \<noteq> None"
  by (auto simp: eligible_def split: option.splits)

lemma band_pick:
  assumes "first_band peer tried healthyOnly now capability meta rc targets (orderedPriorities targets) r = (Some (p, cands), r1)"
  shows "\<exists>t \<in> set targets. may_try peer tried healthyOnly now capability meta rc r t
    \<and> (\<forall>t' \<in> set targets. may_try peer tried healthyOnly now capability meta rc r t' \<longrightarrow> at_Priority t \<le> at_Priority t')
    \<and> (\<exists>res r'. pickLocked getenv alias p cands meta r1 = (Inr res, r')
         \<and> rs_DeploymentName res = at_DeploymentName t \<and> rs_Priority res = at_Priority t)"
proof -
  from first_band_eq [where peer = peer and now = now and r = r and tried = tried and healthyOnly = healthyOnly and capability = capability and meta = meta and rc = rc and targets = targets and ps = "orderedPriorities targets", unfolded assms]
  obtain qs qs' where sr: "same_routing peer now r r1" and ne: "cands \<noteq> []"
    and cands: "cands = filter (\<lambda>t. at_Priority t = p \<and> may_try peer tried healthyOnly now capability meta rc r t) targets"
    and ps: "orderedPriorities targets = qs @ p # qs'" and before: "\<forall>q \<in> set qs. \<forall>t \<in> set targets.
               \<not> (at_Priority t = q \<and> may_try peer tried healthyOnly now capability meta rc r t)" by auto
  have "servable r1 capability t \<noteq> None" if "t \<in> set cands" for t
    using that eligible_servable same_routing_servable [OF sr] by (auto simp: cands may_try_def)
  from pickLocked_ok [OF ne this] obtain t res r' where t: "t \<in> set cands"
    and pk: "pickLocked getenv alias p cands meta r1 = (Inr res, r')"
      "rs_DeploymentName res = at_DeploymentName t" "rs_Priority res = at_Priority t" by blast
  have "t \<in> set targets" "at_Priority t = p" "may_try peer tried healthyOnly now capability meta rc r t"
    using t by (auto simp: cands)
  then show ?thesis using pk band_of_targets [OF refl ps before] by blast
qed

definition alias_meta_of :: "registry \<Rightarrow> string \<Rightarrow> alias_meta" where
  "alias_meta_of r alias = (case rg_aliasMeta r alias of None \<Rightarrow> zero_meta | Some m \<Rightarrow> m)"

lemma resolve_choice:
  assumes "map_of (rg_aliases r) alias = Some targets" and "targets \<noteq> []"
    and "elig = eligible tried capability (alias_meta_of r alias) rc r"
    and "healthy = (\<lambda>t. elig t \<and> \<not> open_now peer now r (at_DeploymentName t))"
  shows "\<exists>res r'. ResolveWithContext getenv peer now alias tried capability rc r = (Inr res, r')
    \<and> (case res of
         Inl err \<Rightarrow> err = ErrNoHealthyDeployment \<and> (\<forall>t \<in> set targets. \<not> elig t)
       | Inr chosen \<Rightarrow> \<exists>t \<in> set targets. elig t
           \<and> rs_DeploymentName chosen = at_DeploymentName t \<and> rs_Priority chosen = at_Priority t
           \<and> (if \<exists>t' \<in> set targets. healthy t'
              then healthy t \<and> (\<forall>t' \<in> set targets. healthy t' \<longrightarrow> at_Priority t \<le> at_Priority t')
              else \<forall>t' \<in> set targets. elig t' \<longrightarrow> at_Priority t \<le> at_Priority t'))"
proof -
  define meta where "meta = alias_meta_of r alias"
  note meta_fold = meta_def [unfolded alias_meta_of_def, symmetric]
  have el: "eligible tried capability meta rc r = elig" by (simp add: assms(3) meta_def)
  have he: "may_try peer tried True now capability meta rc r = healthy" by (auto simp: may_try_def el assms(4) fun_eq_iff)
  obtain b1 r1 where b1: "first_band peer tried True now capability meta rc targets (orderedPriorities targets) r = (b1, r1)"
    by fastforce
  show ?thesis
  proof (cases b1)
    case (Some pc)
    obtain p cands where pc: "pc = (p, cands)" by fastforce
    from band_pick [OF b1 [unfolded Some pc], of getenv "alias", unfolded he]
    show ?thesis using b1 assms(1,2) by (fastforce simp: ResolveWithContext_def Let_def meta_fold Some pc assms(4))
  next
    case None
    have none: "\<forall>t \<in> set targets. \<not> healthy t" and sr: "same_routing peer now r r1"
      using first_band_eq [where peer = peer and now = now and r = r and tried = tried and healthyOnly = True and capability = capability and meta = meta and rc = rc and targets = targets and ps = "orderedPriorities targets", unfolded b1 None he]
        no_band [of targets healthy] by auto
    obtain b2 r2 where b2: "first_band peer tried False now capability meta rc targets (orderedPriorities targets) r1 = (b2, r2)"
      by fastforce
    have el1: "may_try peer tried False now capability meta rc r1 = elig"
      using may_try_same [OF sr, of tried False] by (simp add: may_try_eligible el)
    show ?thesis
    proof (cases b2)
      case (Some pc)
      obtain p cands where pc: "pc = (p, cands)" by fastforce
      from band_pick [OF b2 [unfolded Some pc], of getenv "alias", unfolded el1]
      show ?thesis using b1 b2 none assms(1,2)
        by (fastforce simp: ResolveWithContext_def Let_def meta_fold \<open>b1 = None\<close> Some pc)
    next
      case None2: None
      have "\<forall>t \<in> set targets. \<not> elig t"
        using first_band_eq [where peer = peer and now = now and r = r1 and tried = tried and healthyOnly = False and capability = capability and meta = meta and rc = rc and targets = targets and ps = "orderedPriorities targets", unfolded b2 None2 el1]
          no_band [of targets elig] by auto
      then show ?thesis using b1 b2 assms(1,2) by (simp add: ResolveWithContext_def Let_def meta_fold None None2)
    qed
  qed
qed

text \<open>C7: Resolution never panics, and it sends a request to a deployment it may use. A target is
  eligible when it was not tried, its deployment is enabled, has a client with the capability and
  passes the tag and region filters. If some eligible target has a closed breaker, the chosen one
  has, and its priority is the best among those; otherwise the chosen one has the best priority
  among all eligible ones; the request is refused exactly when no target is eligible.\<close>

theorem resolution_picks_best_band:
  assumes "map_of (rg_aliases r) alias = Some targets" and "targets \<noteq> []"
    and "elig = eligible tried capability (alias_meta_of r alias) rc r"
    and "healthy = (\<lambda>t. elig t \<and> \<not> open_now peer now r (at_DeploymentName t))"
  shows "\<exists>res r'. ResolveWithContext getenv peer now alias tried capability rc r = (Inr res, r')
    \<and> (case res of
         Inl err \<Rightarrow> err = ErrNoHealthyDeployment \<and> (\<forall>t \<in> set targets. \<not> elig t)
       | Inr chosen \<Rightarrow> \<exists>t \<in> set targets. elig t
           \<and> rs_DeploymentName chosen = at_DeploymentName t \<and> rs_Priority chosen = at_Priority t
           \<and> (if \<exists>t' \<in> set targets. healthy t'
              then healthy t \<and> (\<forall>t' \<in> set targets. healthy t' \<longrightarrow> at_Priority t \<le> at_Priority t')
              else \<forall>t' \<in> set targets. elig t' \<longrightarrow> at_Priority t \<le> at_Priority t'))"
  by (rule resolve_choice [OF assms])

definition sample_registry :: registry where
  "sample_registry = empty_registry\<lparr>
     rg_aliases := [(''gpt'', [\<lparr>at_DeploymentName = ''a'', at_Priority = 0, at_Weight = 1\<rparr>,
                             \<lparr>at_DeploymentName = ''b'', at_Priority = 1, at_Weight = 2\<rparr>])],
     rg_deployments := [(''a'', sample_deployment), (''b'', sample_deployment)],
     rg_providers := [''a'' \<mapsto> openaicompat_New [] [], ''b'' \<mapsto> openaicompat_New [] []],
     rg_breakers := [''a'' \<mapsto> zero_breaker\<lparr>br_OpenUntil := Some 100\<rparr>]\<rparr>"

definition sample_targets :: "alias_target list" where
  "sample_targets = [\<lparr>at_DeploymentName = ''a'', at_Priority = 0, at_Weight = 1\<rparr>,
                     \<lparr>at_DeploymentName = ''b'', at_Priority = 1, at_Weight = 2\<rparr>]"

lemma sample_eligible:
  "eligible [] CapabilityChat (alias_meta_of sample_registry ''gpt'') no_context sample_registry
     \<lparr>at_DeploymentName = ''b'', at_Priority = 1, at_Weight = 2\<rparr>"
  by (simp add: eligible_def servable_def Deployment_def Provider_def sample_registry_def sample_deployment_def
      Supports_def effectiveCapabilities_def capability_names client_news tags_block_def region_blocks_def
      hasStrategy_def strategyChain_def alias_meta_of_def zero_meta_def empty_registry_def)

theorem resolution_picks_best_band_witness:
  "\<exists>chosen r'. ResolveWithContext (\<lambda>_. []) (\<lambda>_. Inr None) 50 ''gpt'' [] CapabilityChat no_context sample_registry = (Inr (Inr chosen), r')
     \<and> rs_DeploymentName chosen = ''b''"
proof -
  let ?a = "\<lparr>at_DeploymentName = ''a'', at_Priority = 0, at_Weight = 1\<rparr>"
  let ?b = "\<lparr>at_DeploymentName = ''b'', at_Priority = 1, at_Weight = 2\<rparr>"
  have al: "map_of (rg_aliases sample_registry) ''gpt'' = Some [?a, ?b]" by (simp add: sample_registry_def)
  have op: "open_now (\<lambda>_. Inr None) 50 sample_registry ''a''" "\<not> open_now (\<lambda>_. Inr None) 50 sample_registry ''b''"
    by (simp_all add: open_now_def sample_registry_def after_now_def)
  note R = resolution_picks_best_band [OF al _ refl refl, where getenv = "\<lambda>_. []" and peer = "\<lambda>_. Inr None" and now = 50
      and tried = "[]" and capability = CapabilityChat and rc = no_context]
  from R obtain res r' where run: "ResolveWithContext (\<lambda>_. []) (\<lambda>_. Inr None) 50 ''gpt'' [] CapabilityChat no_context sample_registry = (Inr res, r')"
    by blast
  show ?thesis
  proof (cases res)
    case (Inl err)
    then show ?thesis using R sample_eligible by (simp add: run)
  next
    case (Inr chosen)
    then show ?thesis using R op sample_eligible by (simp add: run split: if_splits)
  qed
qed

section \<open>Weighted round robin\<close>

text \<open>The deployments chosen by consecutive picks from the same candidates.\<close>

fun picks :: "nat \<Rightarrow> string \<Rightarrow> int \<Rightarrow> alias_target list \<Rightarrow> alias_meta \<Rightarrow> registry \<Rightarrow> alias_target list" where
  "picks 0 alias p cands meta r = []"
| "picks (Suc n) alias p cands meta r =
     (case pick_target alias p cands meta r of (t, r') \<Rightarrow> t # picks n alias p cands meta r')"

definition cycle :: "alias_target list \<Rightarrow> alias_target list" where
  "cycle cands = concat (map (\<lambda>t. replicate (nat (effective_weight t)) t) cands)"

definition weights_sum :: "alias_target list \<Rightarrow> int" where
  "weights_sum cands = sum_list (map effective_weight cands)"

lemma effective_weight_pos [simp]: "0 < effective_weight t"
  by (simp add: effective_weight_def)

lemma weights_sum_Cons [simp]: "weights_sum (t # ts) = effective_weight t + weights_sum ts"
  and weights_sum_Nil [simp]: "weights_sum [] = 0"
  by (simp_all add: weights_sum_def)

lemma weights_sum_nonneg [simp]: "0 \<le> weights_sum ts"
  unfolding weights_sum_def by (rule sum_list_map_nonneg) (simp add: less_imp_le)

lemma length_cycle: "int (length (cycle cands)) = weights_sum cands"
  by (induction cands) (simp_all add: cycle_def less_imp_le)

lemma i64_between: "0 \<le> x \<Longrightarrow> x \<le> MaxInt64 \<Longrightarrow> is_i64 x"
  by (simp add: i64_defs)

lemma total_weight_eq: "weights_sum cands \<le> MaxInt64 \<Longrightarrow> total_weight cands = weights_sum cands"
proof -
  have "fold (\<lambda>t total. wrap64 (total + effective_weight t)) cands acc = acc + weights_sum cands"
    if "0 \<le> acc" "acc + weights_sum cands \<le> MaxInt64" for acc
    using that
  proof (induction cands arbitrary: acc)
    case (Cons t ts)
    have "is_i64 (acc + effective_weight t)"
      using Cons.prems weights_sum_nonneg [of ts] effective_weight_pos [of t]
    unfolding weights_sum_Cons by (intro i64_between) linarith+
    then show ?case using Cons effective_weight_pos [of t] by (simp add: less_imp_le)
  qed simp
  from this [of 0] show "weights_sum cands \<le> MaxInt64 \<Longrightarrow> total_weight cands = weights_sum cands"
    by (simp add: total_weight_def)
qed

lemma wrr_walk_cycle:
  "0 \<le> off \<Longrightarrow> off + weights_sum cands \<le> MaxInt64 \<Longrightarrow> off \<le> idx \<Longrightarrow> idx < off + weights_sum cands \<Longrightarrow>
   wrr_walk idx off c cands = cycle cands ! nat (idx - off)"
proof (induction cands arbitrary: off)
  case (Cons t ts)
  let ?w = "effective_weight t"
  have "is_i64 (off + ?w)"
    using Cons.prems weights_sum_nonneg [of ts] effective_weight_pos [of t]
    unfolding weights_sum_Cons by (intro i64_between) linarith+
  then have w: "wrap64 (off + ?w) = off + ?w" by simp
  show ?case
  proof (cases "idx < off + ?w")
    case True
    then show ?thesis using Cons.prems w by (simp add: cycle_def nth_append)
  next
    case False
    have "wrr_walk idx (off + ?w) c ts = cycle ts ! nat (idx - (off + ?w))"
      using Cons.IH [of "off + ?w"] Cons.prems False effective_weight_pos [of t] by simp
    moreover have "nat (idx - off) - nat ?w = nat (idx - (off + ?w))"
      using False effective_weight_pos [of t] by linarith
    ultimately show ?thesis using False w effective_weight_pos [of t] by (simp add: cycle_def nth_append Let_def)
  qed
qed simp

lemma picks_cycle:
  assumes "\<not> (hasStrategy (strategyChain meta) ''cost'' \<and> length cands > 1)" and "cands \<noteq> []"
    and "weights_sum cands \<le> MaxInt64"
  shows "0 \<le> rg_rr r (rr_key alias p) \<Longrightarrow> rg_rr r (rr_key alias p) + int n \<le> MaxInt64 \<Longrightarrow>
    picks n alias p cands meta r = map (\<lambda>i. cycle cands ! ((nat (rg_rr r (rr_key alias p)) + i) mod length (cycle cands))) [0..<n]"
proof (induction n arbitrary: r)
  case (Suc n)
  let ?k = "rr_key alias p" and ?W = "weights_sum cands"
  define k where "k = rg_rr r ?k"
  have W: "0 < ?W" using assms(2) by (cases cands) (auto intro: add_pos_nonneg)
  have len: "length (cycle cands) = nat ?W" using length_cycle [of cands] by linarith
  have idx: "k smod ?W = k mod ?W" using smod_nonneg [of k ?W] Suc.prems(1) W by (simp add: k_def)
  have "wrr_walk (k mod ?W) 0 (hd cands) cands = cycle cands ! nat (k mod ?W)"
    using wrr_walk_cycle [of 0 cands "k mod ?W"] assms(3) W by simp
  moreover have "nat (k mod ?W) = nat k mod length (cycle cands)"
    using Suc.prems(1) W by (simp add: len nat_mod_distrib k_def)
  moreover have "wrap64 (k + 1) = k + 1" using Suc.prems by (simp add: k_def i64_between)
  ultimately have pt: "pick_target alias p cands meta r =
      (cycle cands ! (nat k mod length (cycle cands)), r\<lparr>rg_rr := (rg_rr r)(?k := k + 1)\<rparr>)"
    using assms(1) W idx by (simp only: pick_target_def if_False Let_def total_weight_eq [OF assms(3)] if_True k_def)
  have "picks n alias p cands meta (r\<lparr>rg_rr := (rg_rr r)(?k := k + 1)\<rparr>) =
      map (\<lambda>i. cycle cands ! ((nat (k + 1) + i) mod length (cycle cands))) [0..<n]"
    using Suc.IH [of "r\<lparr>rg_rr := (rg_rr r)(?k := k + 1)\<rparr>"] Suc.prems by (simp add: k_def)
  moreover have "nat (k + 1) + i = nat k + Suc i" for i using Suc.prems(1) by (simp add: k_def nat_add_distrib)
  ultimately show ?case
    by (simp add: pt k_def [symmetric] map_upt_Suc del: upt_Suc)
qed simp

lemma count_list_rotate: "count_list (rotate n xs) x = count_list xs x"
proof -
  have "count_list (rotate1 xs) x = count_list xs x" for xs :: "'a list" by (cases xs) auto
  then show ?thesis by (induction n) simp_all
qed

lemma count_cycle:
  "int (count_list (map at_DeploymentName (cycle cands)) name)
     = sum_list (map (\<lambda>t. if at_DeploymentName t = name then effective_weight t else 0) cands)"
proof (induction cands)
  case (Cons t ts)
  have "count_list (replicate m x) y = (if x = y then m else 0)" for m and x y :: string by (induction m) auto
  then show ?case using Cons by (simp add: cycle_def less_imp_le)
qed (simp add: cycle_def)

text \<open>C24: The weighted round robin is fair. As long as the same candidates stand, any run of
  consecutive requests as long as the sum of the weights sends each deployment exactly as many
  requests as its weight says, a weight that is not positive counting as one, wherever in the cycle
  the run starts.\<close>

theorem round_robin_is_fair:
  assumes "\<not> (hasStrategy (strategyChain meta) ''cost'' \<and> length cands > 1)" and "cands \<noteq> []"
    and "weights_sum cands \<le> MaxInt64"
    and "0 \<le> rg_rr r (rr_key alias p)" and "rg_rr r (rr_key alias p) + weights_sum cands \<le> MaxInt64"
  shows "int (count_list (map at_DeploymentName (picks (nat (weights_sum cands)) alias p cands meta r)) name)
     = sum_list (map (\<lambda>t. if at_DeploymentName t = name then effective_weight t else 0) cands)"
proof -
  have len: "length (cycle cands) = nat (weights_sum cands)" using length_cycle [of cands] by linarith
  have run: "picks (nat (weights_sum cands)) alias p cands meta r =
      map (\<lambda>i. cycle cands ! ((nat (rg_rr r (rr_key alias p)) + i) mod length (cycle cands))) [0..<nat (weights_sum cands)]"
    using picks_cycle [OF assms(1-4), of "nat (weights_sum cands)"] assms(5) by simp
  have "picks (nat (weights_sum cands)) alias p cands meta r = rotate (nat (rg_rr r (rr_key alias p))) (cycle cands)"
    by (rule nth_equalityI) (simp_all add: run len nth_rotate)
  then show ?thesis by (simp add: rotate_map [symmetric] count_list_rotate count_cycle)
qed

theorem round_robin_is_fair_witness:
  "count_list (map at_DeploymentName (picks 3 ''gpt'' 0 sample_targets zero_meta (empty_registry\<lparr>rg_rr := (\<lambda>_. 5)\<rparr>))) ''b'' = 2"
proof -
  have w: "weights_sum sample_targets = 3" by (simp add: sample_targets_def effective_weight_def)
  have "int (count_list (map at_DeploymentName (picks (nat (weights_sum sample_targets)) ''gpt'' 0 sample_targets zero_meta
      (empty_registry\<lparr>rg_rr := (\<lambda>_. 5)\<rparr>))) ''b'')
     = sum_list (map (\<lambda>t. if at_DeploymentName t = ''b'' then effective_weight t else 0) sample_targets)"
  proof (rule round_robin_is_fair)
    show "\<not> (hasStrategy (strategyChain zero_meta) ''cost'' \<and> length sample_targets > 1)"
      by (simp add: strategyChain_def zero_meta_def hasStrategy_def)
    show "sample_targets \<noteq> []" by (simp add: sample_targets_def)
  qed (simp_all add: w MaxInt64_def)
  then show ?thesis by (simp add: w) (simp add: sample_targets_def effective_weight_def)
qed

section \<open>Circuit breakers\<close>

text \<open>The results of the calls to one deployment, in order: the time and, for a failed call, its error.\<close>

type_synonym call_result = "gotime \<times> call_error option"

definition record_result :: "string \<Rightarrow> call_result \<Rightarrow> registry \<Rightarrow> registry" where
  "record_result name e r =
     (case e of (t, None) \<Rightarrow> RecordSuccess name r | (t, Some err) \<Rightarrow> RecordFailure (Inr (0, None)) t name (Some err) r)"

text \<open>The times of the retryable failures since the last success, the latest first.\<close>

fun failure_times :: "gotime list \<Rightarrow> call_result list \<Rightarrow> gotime list" where
  "failure_times fs [] = fs"
| "failure_times fs ((t, None) # es) = failure_times [] es"
| "failure_times fs ((t, Some err) # es) = failure_times (if IsRetryable (Some err) then t # fs else fs) es"

text \<open>How many of them follow each other within the cooldown, counted back from the latest.\<close>

fun streak :: "gotime list \<Rightarrow> int" where
  "streak [] = 0"
| "streak [t] = 1"
| "streak (t # t' # ts) = (if t - t' > breakerCooldown then 1 else 1 + streak (t' # ts))"

definition breaker_inv :: "string \<Rightarrow> gotime list \<Rightarrow> gotime \<Rightarrow> registry \<Rightarrow> bool" where
  "breaker_inv name fs now r \<longleftrightarrow>
     (let s = ensureBreakerLocked name r in
      br_ConsecutiveFailures s = streak fs
      \<and> (case fs of
           [] \<Rightarrow> br_OpenUntil s = None \<and> (\<forall>t. br_LastFailure s = Some t \<longrightarrow> t \<le> now)
         | t # ts \<Rightarrow> br_LastFailure s = Some t \<and> t \<le> now
             \<and> (if streak fs \<ge> 3 then br_OpenUntil s = Some (t + breakerCooldown)
                else \<forall>u. br_OpenUntil s = Some u \<longrightarrow> u \<le> t)))"

lemma ensure_put [simp]: "ensureBreakerLocked name (put_breaker name s r) = s"
  by (simp add: ensureBreakerLocked_def put_breaker_def)

lemma breaker_inv_success: "breaker_inv name fs now r \<Longrightarrow> now \<le> t \<Longrightarrow> breaker_inv name [] t (RecordSuccess name r)"
  by (auto simp: breaker_inv_def RecordSuccess_def Let_def split: list.splits)

lemma streak_nonneg: "0 \<le> streak fs" "fs \<noteq> [] \<Longrightarrow> 1 \<le> streak fs"
  by (induction fs rule: streak.induct) auto

lemma breaker_inv_failure:
  assumes "breaker_inv name fs now r" and "now \<le> t" and "IsRetryable (Some err)"
  shows "breaker_inv name (t # fs) t (RecordFailure (Inr (0, None)) t name (Some err) r)"
proof -
  define s where "s = ensureBreakerLocked name r"
  have run: "ensureBreakerLocked name (RecordFailure (Inr (0, None)) t name (Some err) r) = count_failure t (error_text err) s"
    using assms(3) by (simp add: RecordFailure_def s_def)
  show ?thesis
  proof (cases fs)
    case Nil
    then have "br_ConsecutiveFailures s = 0" "br_OpenUntil s = None"
      using assms(1) by (simp_all add: breaker_inv_def s_def Let_def)
    then show ?thesis unfolding breaker_inv_def run
      by (simp add: Nil count_failure_def Let_def breakerFailureThreshold_def)
  next
    case (Cons t0 ts)
    then have s: "br_ConsecutiveFailures s = streak fs" "br_LastFailure s = Some t0" "t0 \<le> now"
      and op: "if streak fs \<ge> 3 then br_OpenUntil s = Some (t0 + breakerCooldown) else \<forall>u. br_OpenUntil s = Some u \<longrightarrow> u \<le> t0"
      using assms(1) by (simp_all add: breaker_inv_def s_def Let_def)
    show ?thesis
    proof (cases "t - t0 > breakerCooldown")
      case True
      then have "\<forall>u. br_OpenUntil s = Some u \<longrightarrow> u \<le> t" using op s(3) assms(2) by (auto split: if_splits)
      then show ?thesis unfolding breaker_inv_def run
        using True s by (simp add: Cons count_failure_def Let_def breakerFailureThreshold_def)
    next
      case False
      then have st: "streak (t # fs) = 1 + streak fs" by (simp add: Cons)
      have "\<forall>u. br_OpenUntil s = Some u \<longrightarrow> u \<le> t" if "streak fs < 2"
        using op s(3) assms(2) that by (auto split: if_splits)
      then show ?thesis unfolding breaker_inv_def run st
        using False s by (auto simp: count_failure_def Let_def breakerFailureThreshold_def)
    qed
  qed
qed

lemma breaker_inv_later: "breaker_inv name fs now r \<Longrightarrow> now \<le> t \<Longrightarrow> breaker_inv name fs t r"
  by (auto simp: breaker_inv_def Let_def split: list.splits)

lemma breaker_run:
  "breaker_inv name fs now r \<Longrightarrow> sorted (now # map fst es) \<Longrightarrow>
   breaker_inv name (failure_times fs es) (last (now # map fst es)) (fold (record_result name) es r)"
proof (induction es arbitrary: fs now r)
  case (Cons e es)
  obtain t res where e: "e = (t, res)" by fastforce
  have nt: "now \<le> t" and srt: "sorted (t # map fst es)" using Cons.prems(2) by (simp_all add: e)
  show ?case
  proof (cases res)
    case None
    from Cons.IH [OF breaker_inv_success [OF Cons.prems(1) nt] srt] show ?thesis
      by (simp add: e None record_result_def)
  next
    case (Some err)
    show ?thesis
    proof (cases "IsRetryable (Some err)")
      case True
      from Cons.IH [OF breaker_inv_failure [OF Cons.prems(1) nt True] srt] show ?thesis
        using True by (simp add: e Some record_result_def)
    next
      case False
      then have "record_result name e r = r" by (simp add: e Some record_result_def RecordFailure_def)
      with Cons.IH [OF breaker_inv_later [OF Cons.prems(1) nt] srt] False show ?thesis by (simp add: e Some)
    qed
  qed
qed simp



section \<open>Work in flight across reloads\<close>

text \<open>The registry together with the number of counted permits that callers hold for each deployment.\<close>

inductive registry_step :: "registry \<times> (string \<Rightarrow> nat) \<Rightarrow> registry \<times> (string \<Rightarrow> nat) \<Rightarrow> bool" where
  acquire: "TryAcquireDeployment name (Some r) = ((Some p, stats, True), Some r') \<Longrightarrow>
    registry_step (r, held) (r', if pm_counted p then held(name := Suc (held name)) else held)"
| release: "0 < held name \<Longrightarrow> DeploymentPermit_Release (Some \<lparr>pm_name = name, pm_counted = True\<rparr>) r = (p', r') \<Longrightarrow>
    registry_step (r, held) (r', held(name := held name - 1))"
| refresh: "Refresh getenv cloud digest routing customers deployments aliases prices now r = (res, r') \<Longrightarrow>
    registry_step (r, held) (r', held)"
| success: "registry_step (r, held) (RecordSuccess name r, held)"
| failure: "registry_step (r, held) (RecordFailure mirror now name err r, held)"
| resolve: "ResolveWithContext getenv peer now alias tried capability rc r = (res, r') \<Longrightarrow>
    registry_step (r, held) (r', held)"

inductive_cases registry_stepE: "registry_step s s'"

definition in_flight :: "registry \<Rightarrow> string \<Rightarrow> int" where
  "in_flight r name = dcc_InFlight (DeploymentConcurrency_of name (Some r))"

definition counts_held :: "registry \<times> (string \<Rightarrow> nat) \<Rightarrow> bool" where
  "counts_held s \<longleftrightarrow> rg_deploymentLimits (fst s) \<noteq> None \<and> (\<forall>name. in_flight (fst s) name = int (snd s name))"

lemma in_flight_limits: "rg_deploymentLimits r' = rg_deploymentLimits r \<Longrightarrow> in_flight r' = in_flight r"
  by (simp add: in_flight_def DeploymentConcurrency_of_def fun_eq_iff)

lemma in_flight_Some:
  "rg_deploymentLimits r = Some m \<Longrightarrow> in_flight r name = (case m name of None \<Rightarrow> 0 | Some c \<Rightarrow> ctr_InFlight c)"
  by (simp add: in_flight_def DeploymentConcurrency_of_def no_stats_def stats_of_def split: option.split)

lemma limits_same_routing: "same_routing peer now r r' \<Longrightarrow> rg_deploymentLimits r' = rg_deploymentLimits r"
  by (auto simp: same_routing_def)

lemma limits_first_band:
  "first_band peer tried h now capability meta rc targets ps r = (b, r') \<Longrightarrow> rg_deploymentLimits r' = rg_deploymentLimits r"
  using first_band_eq [where peer = peer and now = now and r = r and tried = tried and healthyOnly = h
      and capability = capability and meta = meta and rc = rc and targets = targets and ps = ps]
  by (auto dest: limits_same_routing split: option.splits prod.splits)

lemma limits_pickLocked: "pickLocked getenv alias p cands meta r = (res, r') \<Longrightarrow> rg_deploymentLimits r' = rg_deploymentLimits r"
  by (auto simp: pickLocked_def pick_target_def Let_def split: if_splits)

lemma limits_Resolve:
  assumes "ResolveWithContext getenv peer now alias tried capability rc r = (res, r')"
  shows "rg_deploymentLimits r' = rg_deploymentLimits r"
  using assms
  by (auto simp: ResolveWithContext_def Let_def split: option.splits if_splits prod.splits sum.splits
      dest!: limits_first_band limits_pickLocked)

lemma limits_breakers:
  "rg_deploymentLimits (RecordSuccess name r) = rg_deploymentLimits r"
  "rg_deploymentLimits (RecordFailure mirror now name err r) = rg_deploymentLimits r"
  by (auto simp: RecordSuccess_def RecordFailure_def put_breaker_def Let_def split: sum.splits option.splits prod.splits)

lemma refresh_limits_in_flight:
  "(case refresh_limits newDep m name of None \<Rightarrow> 0 | Some c \<Rightarrow> ctr_InFlight c)
     = (case m name of None \<Rightarrow> 0 | Some c \<Rightarrow> ctr_InFlight c)"
  by (simp add: refresh_limits_def ctr_New_def ctr_SetLimit_def split: option.split)

lemma in_flight_Refresh:
  assumes "Refresh getenv cloud digest routing customers deployments aliases prices now r = (res, r')"
    and "rg_deploymentLimits r = Some m"
  shows "in_flight r' = in_flight r \<and> rg_deploymentLimits r' \<noteq> None"
proof -
  obtain e r1 where p: "RefreshConcurrencyPolicies routing customers now r = (e, r1)" by fastforce
  then have r1: "rg_deploymentLimits r1 = Some m"
    using assms(2) by (auto simp: RefreshConcurrencyPolicies_def split: sum.splits)
  have "(\<exists>newDep. rg_deploymentLimits r' = Some (refresh_limits newDep m)) \<or> rg_deploymentLimits r' = Some m"
    using assms(1) r1 by (auto simp: Refresh_def p Let_def split: sum.splits)
  then show ?thesis
    using in_flight_Some [OF assms(2)] by (auto simp: in_flight_Some [of r'] refresh_limits_in_flight)
qed

lemma in_flight_acquire:
  assumes "TryAcquireDeployment name (Some r) = ((Some p, stats, True), Some r')" and "rg_deploymentLimits r = Some m"
  shows "in_flight r' n = in_flight r n + (if n = name then 1 else 0) \<and> pm_counted p \<and> rg_deploymentLimits r' \<noteq> None
    \<and> (dcc_Limit (DeploymentConcurrency_of name (Some r')) > 0 \<longrightarrow> in_flight r' name \<le> dcc_Limit (DeploymentConcurrency_of name (Some r')))"
proof -
  obtain c where c: "m name = Some c" using assms by (auto simp: TryAcquireDeployment_def split: option.splits)
  show ?thesis using assms c
    by (auto simp: TryAcquireDeployment_def ctr_TryAcquire_def in_flight_def DeploymentConcurrency_of_def stats_of_def
        split: option.splits if_splits)
qed

lemma in_flight_release:
  assumes "DeploymentPermit_Release (Some \<lparr>pm_name = name, pm_counted = True\<rparr>) r = (p', r')" and "rg_deploymentLimits r = Some m"
    and "in_flight r name \<noteq> 0"
  shows "in_flight r' n = in_flight r n - (if n = name then 1 else 0) \<and> rg_deploymentLimits r' \<noteq> None"
proof -
  obtain c where "m name = Some c" using assms(2,3) by (auto simp: in_flight_Some split: option.splits)
  then show ?thesis using assms(1,2)
    by (auto simp: DeploymentPermit_Release_def ctr_Release_def in_flight_Some)
qed

lemma counts_held_step: "registry_step s s' \<Longrightarrow> counts_held s \<Longrightarrow> counts_held s'"
proof (induction rule: registry_step.induct)
  case (acquire name r p stats r' held)
  then obtain m where "rg_deploymentLimits r = Some m" by (auto simp: counts_held_def)
  with in_flight_acquire [OF acquire.hyps this] acquire.prems show ?case by (auto simp: counts_held_def)
next
  case (release held name r p' r')
  then obtain m where "rg_deploymentLimits r = Some m" by (auto simp: counts_held_def)
  moreover have "in_flight r name \<noteq> 0" using release by (simp add: counts_held_def)
  ultimately show ?case using in_flight_release [OF release.hyps(2)] release by (auto simp: counts_held_def)
next
  case (refresh getenv cloud digest routing customers deployments aliases prices now r res r' held)
  then obtain m where "rg_deploymentLimits r = Some m" by (auto simp: counts_held_def)
  with in_flight_Refresh [OF refresh.hyps this] refresh.prems show ?case by (auto simp: counts_held_def)
next
  case (success r held name)
  then show ?case using in_flight_limits [OF limits_breakers(1)] by (simp add: counts_held_def limits_breakers)
next
  case (failure r held mirror now name err)
  then show ?case using in_flight_limits [OF limits_breakers(2)] by (simp add: counts_held_def limits_breakers)
next
  case (resolve getenv peer now "alias" tried capability rc r res r' held)
  then show ?case using in_flight_limits [OF limits_Resolve [OF resolve.hyps]] by (simp add: counts_held_def limits_Resolve)
qed

text \<open>C22: A reload never forgets work in flight. Starting from an empty registry, after any sequence of
  acquisitions, releases, reloads of the configuration (with failing or succeeding queries, with
  deployments removed and added again), resolutions and breaker updates, the number a deployment
  reports in flight is exactly the number of permits held on it; and an acquisition under a positive
  limit leaves it within that limit.\<close>

theorem reload_keeps_count:
  assumes "registry_step\<^sup>*\<^sup>* (empty_registry, \<lambda>_. 0) (r, held)"
  shows "in_flight r name = int (held name)
    \<and> (TryAcquireDeployment name (Some r) = ((Some p, stats, True), Some r') \<longrightarrow>
         dcc_Limit (DeploymentConcurrency_of name (Some r')) > 0 \<longrightarrow>
         int (held name) < dcc_Limit (DeploymentConcurrency_of name (Some r')))"
proof -
  have "counts_held (empty_registry, \<lambda>_. 0)"
    by (simp add: counts_held_def empty_registry_def in_flight_def DeploymentConcurrency_of_def no_stats_def)
  with assms have inv: "counts_held (r, held)"
    by (induction rule: rtranclp_induct) (blast intro: counts_held_step)+
  then obtain m where m: "rg_deploymentLimits r = Some m" by (auto simp: counts_held_def)
  have "int (held name) < dcc_Limit (DeploymentConcurrency_of name (Some r'))"
    if "TryAcquireDeployment name (Some r) = ((Some p, stats, True), Some r')"
      "dcc_Limit (DeploymentConcurrency_of name (Some r')) > 0"
    using in_flight_acquire [OF that(1) m, of name] that(2) inv by (simp add: counts_held_def)
  with inv show ?thesis by (simp add: counts_held_def)
qed

definition reload_sample :: "registry \<Rightarrow> registry" where
  "reload_sample r = snd (Refresh (\<lambda>_. []) (\<lambda>_ _. False) d_Name (Inr []) (Inr []) (Inr [sample_deployment]) (Inr []) (Inr []) 0 r)"

definition sample_acquired :: registry where
  "sample_acquired = the (snd (TryAcquireDeployment ''local'' (Some (reload_sample empty_registry))))"

theorem reload_keeps_count_witness: "in_flight (reload_sample sample_acquired) ''local'' = 1"
proof -
  have reload: "registry_step (r, held) (reload_sample r, held)" for r held
    unfolding reload_sample_def by (rule registry_step.refresh [OF surjective_pairing])
  have "rg_deploymentLimits (reload_sample empty_registry) = Some [''local'' \<mapsto> ctr_New 0]"
    by (simp add: reload_sample_def Refresh_def RefreshConcurrencyPolicies_def empty_registry_def sample_deployment_def
        refresh_limits_def dep_limit_def fun_eq_iff)
  then have "TryAcquireDeployment ''local'' (Some (reload_sample empty_registry)) =
      ((Some \<lparr>pm_name = ''local'', pm_counted = True\<rparr>, \<lparr>dcc_InFlight = 1, dcc_Limit = 0\<rparr>, True), Some sample_acquired)"
    by (simp add: sample_acquired_def TryAcquireDeployment_def ctr_TryAcquire_def ctr_New_def ctr_SetLimit_def stats_of_def)
  from registry_step.acquire [OF this, of "\<lambda>_. 0"] reload
  have "registry_step\<^sup>*\<^sup>* (empty_registry, \<lambda>_. 0) (reload_sample sample_acquired, (\<lambda>_. 0)(''local'' := Suc 0))"
    by (simp, blast intro: rtranclp.intros)
  from reload_keeps_count [OF this, of "''local''"] show ?thesis by simp
qed

end
