(* ===== verification/Upstream_Fallback.thy ===== *)
theory Upstream_Fallback
  imports Routing_Laws Accounting_Journal
begin

text \<open>
  The path of an admitted request to its upstream: the permits of one attempt
  (\<^verbatim>\<open>internal/api/routing_concurrency.go\<close>), the marking of the accounting journal before the first call
  (\<^verbatim>\<open>internal/api/accounting.go\<close>), and the loops that fall back from deployment to deployment
  (\<^verbatim>\<open>runChatWithFallback\<close>, \<^verbatim>\<open>runEmbeddingsWithFallback\<close>, \<^verbatim>\<open>openStreamWithFallback\<close> of
  \<^verbatim>\<open>internal/api/v1.go\<close>).

  \<^item> The state of a request is the registry, the leases in Redis, the ledger, the accounting run of the
    request and, as a trace, the deployments called so far.
  \<^item> What an attempt meets outside the gateway is a record: the clocks, the answers of the breaker store
    and of Redis, the upstream's result and whether the request's context has ended. A loop consumes
    one record per attempt and is \<open>None\<close> when they run out; the theorems show how many suffice.
  \<^item> Metrics, traces and log lines are left out.
\<close>

section \<open>State of a request\<close>

record accounting_run =
  run_entry :: usage_entry
  run_pending :: "usage_entry option"
  run_complete :: bool
  run_started :: bool

record gateway =
  gw_registry :: registry
  gw_leases :: lease_db
  gw_ledger :: ledger
  gw_run :: "accounting_run option"
  gw_calls :: "string list"

datatype gw_error = Routing router_error | Call call_error | ConcurrencyDenied string duration
  | ConcurrencyUnavailable string | AccountingUnavailable | GuardUnsupported | Panicked panic

text \<open>The configuration of the handler and the request.\<close>

record request_env =
  re_getenv :: "string \<Rightarrow> string"
  re_has_store :: bool
  re_limiter :: "string option"
  re_guarded :: bool
  re_team :: "int option"

record 'r attempt_env =
  ae_now :: gotime
  ae_peer :: "string \<Rightarrow> string + gotime option"
  ae_mirror :: "string + int \<times> gotime option"
  ae_now_ms :: int
  ae_io :: redis_io
  ae_release_io :: redis_io
  ae_lease_id :: string
  ae_remaining :: "duration option"
  ae_db_now :: gotime
  ae_db_up :: bool
  ae_done_before :: "call_error option"
  ae_result :: "call_error + 'r"
  ae_done_after :: bool

section \<open>Permits of an attempt\<close>

definition lease_ttl :: "duration option \<Rightarrow> duration" where
  "lease_ttl remaining =
     (case remaining of
        Some d \<Rightarrow> if wrap64 (d + 30 * Second) > 2 * Minute then wrap64 (d + 30 * Second) else 2 * Minute
      | None \<Rightarrow> 2 * Minute)"

definition acquireConcurrencyScopes ::
  "request_env \<Rightarrow> 'r attempt_env \<Rightarrow> string \<Rightarrow> string + scope list \<Rightarrow> lease_db \<Rightarrow> (gw_error + lease option) \<times> lease_db" where
  "acquireConcurrencyScopes req env kind scopes db =
     (case scopes of
        Inl err \<Rightarrow> (Inl (ConcurrencyUnavailable kind), db)
      | Inr [] \<Rightarrow> (Inr None, db)
      | Inr scs \<Rightarrow>
          (case Acquire (re_limiter req) (ae_io env) (ae_now_ms env)
                  \<lparr>lr_ID = ae_lease_id env, lr_Partition = (case re_team req of None \<Rightarrow> 1 | Some t \<Rightarrow> t),
                   lr_TTL = lease_ttl (ae_remaining env), lr_Scopes = scs\<rparr> db of
             (Inl err, db') \<Rightarrow> (Inl (ConcurrencyUnavailable kind), db')
           | (Inr (l, result), db') \<Rightarrow>
               if lx_Allowed result then (Inr l, db')
               else (Inl (ConcurrencyDenied (lx_Scope result) (lx_RetryAfter result)), db')))"

definition acquireRoutingScope ::
  "request_env \<Rightarrow> 'r attempt_env \<Rightarrow> string \<Rightarrow> string \<Rightarrow> gateway \<Rightarrow> (gw_error + lease option) \<times> gateway" where
  "acquireRoutingScope req env kind subject gw =
     (case acquireConcurrencyScopes req env kind
             (ConcurrencyScope (re_has_store req) (ae_now env) kind subject (gw_registry gw)) (gw_leases gw) of
        (r, db') \<Rightarrow> (r, gw\<lparr>gw_leases := db'\<rparr>))"

definition releaseRoutingLease :: "'r attempt_env \<Rightarrow> lease option \<Rightarrow> gateway \<Rightarrow> gateway" where
  "releaseRoutingLease env l gw =
     (case Release_lease (ae_release_io env) (ae_now_ms env) l (gw_leases gw) of (_, _, db') \<Rightarrow> gw\<lparr>gw_leases := db'\<rparr>)"

definition tryAcquireDeployment :: "resolved \<Rightarrow> gateway \<Rightarrow> permit option \<times> bool \<times> gateway" where
  "tryAcquireDeployment target gw =
     (case TryAcquireDeployment (rs_DeploymentName target) (Some (gw_registry gw)) of
        ((p, stats, admitted), r') \<Rightarrow> (p, admitted, gw\<lparr>gw_registry := the r'\<rparr>))"

definition releaseDeploymentPermit :: "permit option \<Rightarrow> gateway \<Rightarrow> gateway" where
  "releaseDeploymentPermit p gw =
     (case p of None \<Rightarrow> gw | Some _ \<Rightarrow> gw\<lparr>gw_registry := snd (DeploymentPermit_Release p (gw_registry gw))\<rparr>)"

definition markAccountingStarted :: "'r attempt_env \<Rightarrow> gateway \<Rightarrow> gw_error option \<times> gateway" where
  "markAccountingStarted env gw =
     (case gw_run gw of
        None \<Rightarrow> (None, gw)
      | Some run \<Rightarrow>
          if run_started run then (None, gw)
          else if \<not> ae_db_up env then (Some AccountingUnavailable, gw)
          else (case MarkAccountingStarted (ae_db_now env) (e_RequestID (run_entry run)) (gw_ledger gw) of
                  Inl err \<Rightarrow> (Some AccountingUnavailable, gw)
                | Inr db' \<Rightarrow> (None, gw\<lparr>gw_ledger := db', gw_run := Some (run\<lparr>run_started := True\<rparr>)\<rparr>)))"

record upstream_permit =
  up_local :: "permit option"
  up_provider :: "lease option"

definition guarded_provider :: "string \<Rightarrow> bool" where
  "guarded_provider ty = (ty \<in> set [''openai'', ''openai_compatible'', ''azure_openai'', ''ollama'', ''vllm''])"

text \<open>\<open>Inr None\<close>: the deployment has no room.\<close>

definition tryAcquireUpstream ::
  "request_env \<Rightarrow> 'r attempt_env \<Rightarrow> resolved \<Rightarrow> gateway \<Rightarrow> (gw_error + upstream_permit option) \<times> gateway" where
  "tryAcquireUpstream req env target gw =
     (if re_guarded req \<and> \<not> guarded_provider (rs_ProviderType target) then (Inl GuardUnsupported, gw)
      else (case tryAcquireDeployment target gw of
        (p, False, gw1) \<Rightarrow> (Inr None, gw1)
      | (p, True, gw1) \<Rightarrow>
          (case acquireRoutingScope req env ''provider'' (rs_ProviderType target) gw1 of
             (Inl err, gw2) \<Rightarrow> (Inl err, releaseDeploymentPermit p gw2)
           | (Inr l, gw2) \<Rightarrow>
               (case markAccountingStarted env gw2 of
                  (Some err, gw3) \<Rightarrow> (Inl err, releaseDeploymentPermit p (releaseRoutingLease env l gw3))
                | (None, gw3) \<Rightarrow> (Inr (Some \<lparr>up_local = p, up_provider = l\<rparr>), gw3)))))"

definition releaseUpstreamPermit :: "'r attempt_env \<Rightarrow> upstream_permit option \<Rightarrow> gateway \<Rightarrow> gateway" where
  "releaseUpstreamPermit env p gw =
     (case p of None \<Rightarrow> gw | Some up \<Rightarrow> releaseDeploymentPermit (up_local up) (releaseRoutingLease env (up_provider up) gw))"

fun canFallbackConcurrency :: "gw_error \<Rightarrow> bool" where
  "canFallbackConcurrency (ConcurrencyDenied kind retry) = True"
| "canFallbackConcurrency _ = False"

section \<open>The loops\<close>

definition on_registry :: "(registry \<Rightarrow> registry) \<Rightarrow> gateway \<Rightarrow> gateway" where
  "on_registry f gw = gw\<lparr>gw_registry := f (gw_registry gw)\<rparr>"

definition resolve_gw ::
  "request_env \<Rightarrow> 'r attempt_env \<Rightarrow> string \<Rightarrow> string list \<Rightarrow> string \<Rightarrow> resolve_context \<Rightarrow> gateway \<Rightarrow> (gw_error + resolved) \<times> gateway" where
  "resolve_gw req env alias tried capability rc gw =
     (case ResolveWithContext (re_getenv req) (ae_peer env) (ae_now env) alias tried capability rc (gw_registry gw) of
        (Inl p, r') \<Rightarrow> (Inl (Panicked p), gw\<lparr>gw_registry := r'\<rparr>)
      | (Inr (Inl err), r') \<Rightarrow> (Inl (Routing err), gw\<lparr>gw_registry := r'\<rparr>)
      | (Inr (Inr target), r') \<Rightarrow> (Inr target, gw\<lparr>gw_registry := r'\<rparr>))"

definition exhausted_error :: "gw_error option \<Rightarrow> bool \<Rightarrow> gw_error \<Rightarrow> gw_error" where
  "exhausted_error lastErr saturated err =
     (case lastErr of Some e \<Rightarrow> e | None \<Rightarrow> if saturated then Routing ErrDeploymentSaturated else err)"

text \<open>The result of a loop: the error with the deployment it came from, or the deployment and its response.\<close>

type_synonym 'r fallback_outcome = "(resolved option \<times> gw_error) + (resolved \<times> 'r)"

fun runWithFallback ::
  "request_env \<Rightarrow> string \<Rightarrow> string \<Rightarrow> resolve_context \<Rightarrow> 'r attempt_env list \<Rightarrow> string list \<Rightarrow> gw_error option \<Rightarrow> bool
    \<Rightarrow> gateway \<Rightarrow> ('r fallback_outcome \<times> gateway) option" where
  "runWithFallback req alias capability rc [] tried lastErr saturated gw = None"
| "runWithFallback req alias capability rc (env # envs) tried lastErr saturated gw =
     (case resolve_gw req env alias tried capability rc gw of
        (Inl err, gw1) \<Rightarrow> Some (Inl (None, exhausted_error lastErr saturated err), gw1)
      | (Inr target, gw1) \<Rightarrow>
          let tried' = rs_DeploymentName target # tried
          in (case tryAcquireUpstream req env target gw1 of
                (Inl capacityErr, gw2) \<Rightarrow>
                  if canFallbackConcurrency capacityErr
                  then runWithFallback req alias capability rc envs tried' (Some capacityErr) saturated gw2
                  else Some (Inl (None, capacityErr), gw2)
              | (Inr None, gw2) \<Rightarrow> runWithFallback req alias capability rc envs tried' lastErr True gw2
              | (Inr (Some p), gw2) \<Rightarrow>
                  let gw3 = releaseUpstreamPermit env (Some p)
                              (gw2\<lparr>gw_calls := gw_calls gw2 @ [rs_DeploymentName target]\<rparr>)
                  in (case ae_result env of
                        Inr resp \<Rightarrow> Some (Inr (target, resp), on_registry (RecordSuccess (rs_DeploymentName target)) gw3)
                      | Inl callErr \<Rightarrow>
                          let gw4 = on_registry (RecordFailure (ae_mirror env) (ae_now env) (rs_DeploymentName target) (Some callErr)) gw3
                          in if \<not> IsRetryable (Some callErr) \<or> ae_done_after env
                             then Some (Inl (Some target, Call callErr), gw4)
                             else runWithFallback req alias capability rc envs tried' (Some (Call callErr)) saturated gw4)))"

definition runChatWithFallback where
  "runChatWithFallback req alias rc envs gw = runWithFallback req alias CapabilityChat rc envs [] None False gw"

definition runEmbeddingsWithFallback where
  "runEmbeddingsWithFallback req alias rc envs gw = runWithFallback req alias CapabilityEmbeddings rc envs [] None False gw"

text \<open>Streams: the context is checked before each attempt, and a successful attempt hands its permit to
  the caller; success is recorded only when the stream ends.\<close>

fun openStreamWithFallback_from ::
  "request_env \<Rightarrow> string \<Rightarrow> resolve_context \<Rightarrow> 'r attempt_env list \<Rightarrow> string list \<Rightarrow> gw_error option \<Rightarrow> bool
    \<Rightarrow> gateway \<Rightarrow> ((upstream_permit \<times> 'r) fallback_outcome \<times> gateway) option" where
  "openStreamWithFallback_from req alias rc [] tried lastErr saturated gw = None"
| "openStreamWithFallback_from req alias rc (env # envs) tried lastErr saturated gw =
     (case ae_done_before env of Some ctxErr \<Rightarrow> Some (Inl (None, Call ctxErr), gw)
      | None \<Rightarrow> (case resolve_gw req env alias tried CapabilityStreamChat rc gw of
        (Inl err, gw1) \<Rightarrow> Some (Inl (None, exhausted_error lastErr saturated err), gw1)
      | (Inr target, gw1) \<Rightarrow>
          let tried' = rs_DeploymentName target # tried
          in (case tryAcquireUpstream req env target gw1 of
                (Inl capacityErr, gw2) \<Rightarrow>
                  if canFallbackConcurrency capacityErr
                  then openStreamWithFallback_from req alias rc envs tried' (Some capacityErr) saturated gw2
                  else Some (Inl (None, capacityErr), gw2)
              | (Inr None, gw2) \<Rightarrow> openStreamWithFallback_from req alias rc envs tried' lastErr True gw2
              | (Inr (Some p), gw2) \<Rightarrow>
                  let gw3 = gw2\<lparr>gw_calls := gw_calls gw2 @ [rs_DeploymentName target]\<rparr>
                  in (case ae_result env of
                        Inr body \<Rightarrow> Some (Inr (target, p, body), gw3)
                      | Inl callErr \<Rightarrow>
                          let gw4 = on_registry (RecordFailure (ae_mirror env) (ae_now env) (rs_DeploymentName target) (Some callErr))
                                      (releaseUpstreamPermit env (Some p) gw3)
                          in if \<not> IsRetryable (Some callErr) \<or> ae_done_after env
                             then Some (Inl (Some target, Call callErr), gw4)
                             else openStreamWithFallback_from req alias rc envs tried' (Some (Call callErr)) saturated gw4))))"

definition openStreamWithFallback where
  "openStreamWithFallback req alias rc envs gw = openStreamWithFallback_from req alias rc envs [] None False gw"

section \<open>What an attempt keeps\<close>

lemma acquireRoutingScope_frame [frame_simps]:
  assumes "acquireRoutingScope req env kind subject gw = (res, gw')"
  shows "gw_registry gw' = gw_registry gw" "gw_ledger gw' = gw_ledger gw" "gw_run gw' = gw_run gw" "gw_calls gw' = gw_calls gw"
  using assms by (auto simp: acquireRoutingScope_def split: prod.splits)

lemma releaseRoutingLease_frame [simp, frame_simps]:
  "gw_registry (releaseRoutingLease env l gw) = gw_registry gw" "gw_ledger (releaseRoutingLease env l gw) = gw_ledger gw"
  "gw_run (releaseRoutingLease env l gw) = gw_run gw" "gw_calls (releaseRoutingLease env l gw) = gw_calls gw"
  by (simp_all add: releaseRoutingLease_def split: prod.splits)

lemma releaseDeploymentPermit_frame [simp, frame_simps]:
  "gw_ledger (releaseDeploymentPermit p gw) = gw_ledger gw"
  "gw_run (releaseDeploymentPermit p gw) = gw_run gw" "gw_calls (releaseDeploymentPermit p gw) = gw_calls gw"
  by (simp_all add: releaseDeploymentPermit_def split: option.splits)

lemma on_registry_frame [simp, frame_simps]:
  "gw_registry (on_registry f gw) = f (gw_registry gw)"
  "gw_ledger (on_registry f gw) = gw_ledger gw" "gw_run (on_registry f gw) = gw_run gw" "gw_calls (on_registry f gw) = gw_calls gw"
  by (simp_all add: on_registry_def)

lemma markAccountingStarted_frame:
  assumes "markAccountingStarted env gw = (res, gw')"
  shows "gw_registry gw' = gw_registry gw" "gw_calls gw' = gw_calls gw"
  using assms by (auto simp: markAccountingStarted_def split: option.splits if_splits sum.splits)

text \<open>The journal says that the upstream of a request was contacted.\<close>

definition journal_marked :: "string \<Rightarrow> ledger \<Rightarrow> bool" where
  "journal_marked rid db \<longleftrightarrow> (\<exists>j \<in> set (journal db). j_request_id j = rid \<and> j_upstream_started j)"

definition run_marked :: "gateway \<Rightarrow> bool" where
  "run_marked gw \<longleftrightarrow> (\<forall>run. gw_run gw = Some run \<longrightarrow> run_started run \<longrightarrow> journal_marked (e_RequestID (run_entry run)) (gw_ledger gw))"

definition calls_covered :: "gateway \<Rightarrow> bool" where
  "calls_covered gw \<longleftrightarrow> run_marked gw \<and> (gw_calls gw \<noteq> [] \<longrightarrow> (\<forall>run. gw_run gw = Some run \<longrightarrow> run_started run))"

lemma MarkAccountingStarted_marks:
  assumes "MarkAccountingStarted db_now rid db = Inr db'"
  shows "journal_marked rid db'"
proof -
  from assms have "length (filter (startable db_now rid) (journal db)) = 1" and db': "db' = db\<lparr>journal := map (mark_row db_now rid) (journal db)\<rparr>"
    by (auto simp: MarkAccountingStarted_def split: if_splits)
  then obtain j where "j \<in> set (filter (startable db_now rid) (journal db))" by (metis One_nat_def length_0_conv nat.distinct(1) list.set_intros(1) neq_Nil_conv)
  then have j: "j \<in> set (journal db)" "startable db_now rid j" by auto
  then have "mark_row db_now rid j \<in> set (journal db')" by (simp add: db')
  moreover have "j_request_id (mark_row db_now rid j) = rid \<and> j_upstream_started (mark_row db_now rid j)"
    using j(2) by (simp add: mark_row_def startable_def)
  ultimately show ?thesis unfolding journal_marked_def by blast
qed

lemma markAccountingStarted_covered:
  assumes "markAccountingStarted env gw = (res, gw')" and "calls_covered gw"
  shows "calls_covered gw'" and "res = None \<Longrightarrow> gw_run gw' = Some run \<Longrightarrow> run_started run"
  using assms
  by (auto simp: markAccountingStarted_def calls_covered_def run_marked_def MarkAccountingStarted_marks
      split: option.splits if_splits sum.splits)

lemma calls_covered_cong:
  "gw_ledger gw' = gw_ledger gw \<Longrightarrow> gw_run gw' = gw_run gw \<Longrightarrow> gw_calls gw' = gw_calls gw \<Longrightarrow> calls_covered gw \<Longrightarrow> calls_covered gw'"
  by (simp add: calls_covered_def run_marked_def)

text \<open>Nothing is left taken in the registry, and its aliases stand.\<close>

definition settled_as :: "gateway \<Rightarrow> gateway \<Rightarrow> bool" where
  "settled_as gw gw' \<longleftrightarrow> in_flight (gw_registry gw') = in_flight (gw_registry gw)
     \<and> rg_aliases (gw_registry gw') = rg_aliases (gw_registry gw)"

lemma settled_as_refl [simp]: "settled_as gw gw"
  by (simp add: settled_as_def)

lemma settled_as_trans [trans]: "settled_as a b \<Longrightarrow> settled_as b c \<Longrightarrow> settled_as a c"
  by (simp add: settled_as_def)

lemma acquire_release_in_flight:
  assumes "TryAcquireDeployment name (Some r) = ((p, stats, True), Some r')"
  shows "in_flight (snd (DeploymentPermit_Release p r')) = in_flight r" "rg_aliases r' = rg_aliases r"
    "rg_aliases (snd (DeploymentPermit_Release p r')) = rg_aliases r"
proof -
  have "in_flight (snd (DeploymentPermit_Release p r')) n = in_flight r n" for n
    using assms
    by (auto simp: TryAcquireDeployment_def DeploymentPermit_Release_def ctr_TryAcquire_def ctr_Release_def in_flight_def
        DeploymentConcurrency_of_def stats_of_def split: option.splits if_splits)
  then show "in_flight (snd (DeploymentPermit_Release p r')) = in_flight r" by blast
  show "rg_aliases r' = rg_aliases r" "rg_aliases (snd (DeploymentPermit_Release p r')) = rg_aliases r"
    using assms by (auto simp: TryAcquireDeployment_def DeploymentPermit_Release_def split: option.splits if_splits)
qed

lemma TryAcquireDeployment_cases:
  assumes "TryAcquireDeployment name (Some r) = ((p, stats, admitted), ro)"
  shows "\<exists>r'. ro = Some r' \<and> (if admitted then p \<noteq> None else r' = r)"
  using assms by (auto simp: TryAcquireDeployment_def split: option.splits)

lemma tryAcquireDeployment_refused:
  assumes "tryAcquireDeployment target gw = (p, False, gw1)"
  shows "gw1 = gw"
proof -
  obtain p' stats adm ro where t: "TryAcquireDeployment (rs_DeploymentName target) (Some (gw_registry gw)) = ((p', stats, adm), ro)"
    by (metis prod.exhaust_sel)
  with assms TryAcquireDeployment_cases [OF t] show ?thesis by (auto simp: tryAcquireDeployment_def)
qed

lemma tryAcquireDeployment_granted:
  assumes "tryAcquireDeployment target gw = (p, True, gw1)" and "gw_registry gw' = gw_registry gw1"
  shows "settled_as gw (releaseDeploymentPermit p gw')" "rg_aliases (gw_registry gw1) = rg_aliases (gw_registry gw)"
    "gw_ledger gw1 = gw_ledger gw" "gw_run gw1 = gw_run gw" "gw_calls gw1 = gw_calls gw"
proof -
  obtain p' stats adm ro where t: "TryAcquireDeployment (rs_DeploymentName target) (Some (gw_registry gw)) = ((p', stats, adm), ro)"
    by (metis prod.exhaust_sel)
  from TryAcquireDeployment_cases [OF t] assms(1) t obtain r' where
    t': "TryAcquireDeployment (rs_DeploymentName target) (Some (gw_registry gw)) = ((p, stats, True), Some r')"
    and gw1: "gw1 = gw\<lparr>gw_registry := r'\<rparr>" and p: "p \<noteq> None"
    by (auto simp: tryAcquireDeployment_def)
  note ar = acquire_release_in_flight [OF t']
  show "settled_as gw (releaseDeploymentPermit p gw')"
    using ar p assms(2) gw1 by (auto simp: settled_as_def releaseDeploymentPermit_def split: option.splits)
  show "rg_aliases (gw_registry gw1) = rg_aliases (gw_registry gw)"
    "gw_ledger gw1 = gw_ledger gw" "gw_run gw1 = gw_run gw" "gw_calls gw1 = gw_calls gw" using ar gw1 by simp_all
qed

lemma tryAcquireUpstream_refused:
  assumes "tryAcquireUpstream req env target gw = (res, gw')" and "res = Inl err \<or> res = Inr None" and "calls_covered gw"
  shows "settled_as gw gw' \<and> calls_covered gw' \<and> gw_calls gw' = gw_calls gw"
proof (cases "re_guarded req \<and> \<not> guarded_provider (rs_ProviderType target)")
  case True
  then show ?thesis using assms by (auto simp: tryAcquireUpstream_def)
next
  case False
  obtain p adm gw1 where t: "tryAcquireDeployment target gw = (p, adm, gw1)" by (metis prod_cases3)
  show ?thesis
  proof (cases adm)
    case f: False
    then show ?thesis using assms False t tryAcquireDeployment_refused [of target gw p gw1] by (simp add: tryAcquireUpstream_def)
  next
    case True
    then have t: "tryAcquireDeployment target gw = (p, True, gw1)" using t by simp
    obtain r2 gw2 where a: "acquireRoutingScope req env ''provider'' (rs_ProviderType target) gw1 = (r2, gw2)" by fastforce
    obtain r3 gw3 where m: "markAccountingStarted env gw2 = (r3, gw3)" by fastforce
    note fa = acquireRoutingScope_frame [OF a] and fm = markAccountingStarted_frame [OF m]
      and ft = tryAcquireDeployment_granted [OF t]
    have c2: "calls_covered gw2" using assms(3) calls_covered_cong [of gw2 gw] fa ft(3-5) [OF refl] by simp
    have c3: "calls_covered gw3" using markAccountingStarted_covered(1) [OF m c2] .
    show ?thesis
    proof (cases r2)
      case (Inl e)
      have "gw' = releaseDeploymentPermit p gw2" using assms(1) False t a Inl by (simp add: tryAcquireUpstream_def)
      then show ?thesis using ft(1) [OF fa(1)] calls_covered_cong [of gw' gw2] c2 fa ft(5) [OF refl] by simp
    next
      case (Inr l)
      obtain e where r3: "r3 = Some e" using assms(1,2) False t a Inr m by (cases r3) (auto simp: tryAcquireUpstream_def)
      have gw': "gw' = releaseDeploymentPermit p (releaseRoutingLease env l gw3)"
        using assms(1) False t a Inr m r3 by (simp add: tryAcquireUpstream_def)
      have "settled_as gw gw'" unfolding gw' by (rule ft(1)) (simp add: fa fm)
      moreover have "calls_covered gw'" using calls_covered_cong [of gw' gw3] c3 by (simp add: gw')
      moreover have "gw_calls gw' = gw_calls gw" using fa fm ft(5) [OF refl] by (simp add: gw')
      ultimately show ?thesis by simp
    qed
  qed
qed

lemma tryAcquireUpstream_granted:
  assumes "tryAcquireUpstream req env target gw = (Inr (Some up), gw')" and "calls_covered gw"
  shows "settled_as gw (releaseUpstreamPermit env' (Some up) (gw'\<lparr>gw_calls := cs\<rparr>))"
    and "calls_covered (gw'\<lparr>gw_calls := cs\<rparr>)" and "gw_calls gw' = gw_calls gw"
    and "calls_covered (releaseUpstreamPermit env' (Some up) (gw'\<lparr>gw_calls := cs\<rparr>))"
    and "gw_calls (releaseUpstreamPermit env' (Some up) (gw'\<lparr>gw_calls := cs\<rparr>)) = cs"
    and "rg_aliases (gw_registry gw') = rg_aliases (gw_registry gw)"
proof -
  obtain p adm gw1 where t0: "tryAcquireDeployment target gw = (p, adm, gw1)" by (metis prod_cases3)
  then have adm and unguarded: "\<not> (re_guarded req \<and> \<not> guarded_provider (rs_ProviderType target))"
    using assms(1) by (auto simp: tryAcquireUpstream_def split: if_splits bool.splits)
  then have t: "tryAcquireDeployment target gw = (p, True, gw1)" using t0 by simp
  obtain r2 gw2 where a: "acquireRoutingScope req env ''provider'' (rs_ProviderType target) gw1 = (r2, gw2)" by fastforce
  then obtain l where l: "r2 = Inr l" using assms(1) t unguarded by (cases r2) (auto simp: tryAcquireUpstream_def)
  obtain r3 gw3 where m: "markAccountingStarted env gw2 = (r3, gw3)" by fastforce
  then have r3: "r3 = None" and up: "up = \<lparr>up_local = p, up_provider = l\<rparr>" and gw': "gw' = gw3"
    using assms(1) t a l unguarded by (cases r3; auto simp: tryAcquireUpstream_def)+
  note fa = acquireRoutingScope_frame [OF a] and fm = markAccountingStarted_frame [OF m]
    and ft = tryAcquireDeployment_granted [OF t]
  have c2: "calls_covered gw2" using assms(2) calls_covered_cong [of gw2 gw] fa ft(3-5) [OF refl] by simp
  note c3 = markAccountingStarted_covered [OF m c2]
  show cov: "calls_covered (gw'\<lparr>gw_calls := cs\<rparr>)" using c3 r3 gw' by (auto simp: calls_covered_def run_marked_def)
  show "gw_calls gw' = gw_calls gw" using fa fm ft(5) [OF refl] gw' by simp
  have reg: "gw_registry gw' = gw_registry gw1" using fa fm gw' by simp
  then show "rg_aliases (gw_registry gw') = rg_aliases (gw_registry gw)" using ft(2) [OF refl] by simp
  show "settled_as gw (releaseUpstreamPermit env' (Some up) (gw'\<lparr>gw_calls := cs\<rparr>))"
    unfolding releaseUpstreamPermit_def up option.case upstream_permit.select_convs by (rule ft(1)) (simp add: reg)
  show "gw_calls (releaseUpstreamPermit env' (Some up) (gw'\<lparr>gw_calls := cs\<rparr>)) = cs" by (simp add: releaseUpstreamPermit_def)
  show "calls_covered (releaseUpstreamPermit env' (Some up) (gw'\<lparr>gw_calls := cs\<rparr>))"
    by (rule calls_covered_cong [OF _ _ _ cov]) (simp_all add: releaseUpstreamPermit_def)
qed

lemma aliases_breakers [simp, frame_simps]:
  "rg_aliases (RecordSuccess name r) = rg_aliases r" "rg_aliases (RecordFailure mirror now name err r) = rg_aliases r"
  by (auto simp: RecordSuccess_def RecordFailure_def put_breaker_def Let_def split: sum.splits option.splits prod.splits)

lemma settled_as_breakers:
  "settled_as gw gw' \<Longrightarrow> settled_as gw (on_registry (RecordSuccess name) gw')"
  "settled_as gw gw' \<Longrightarrow> settled_as gw (on_registry (RecordFailure mirror now name err) gw')"
  using in_flight_limits [OF limits_breakers(1)] in_flight_limits [OF limits_breakers(2)]
  by (simp_all add: settled_as_def)

lemma aliases_first_band:
  "first_band peer tried h now capability meta rc targets ps r = (b, r') \<Longrightarrow> rg_aliases r' = rg_aliases r"
  using first_band_eq [where peer = peer and now = now and r = r and tried = tried and healthyOnly = h
      and capability = capability and meta = meta and rc = rc and targets = targets and ps = ps]
  by (auto simp: same_routing_def split: option.splits prod.splits)

lemma aliases_pickLocked: "pickLocked getenv alias p cands meta r = (res, r') \<Longrightarrow> rg_aliases r' = rg_aliases r"
  by (auto simp: pickLocked_def pick_target_def Let_def split: if_splits)

lemma aliases_Resolve:
  assumes "ResolveWithContext getenv peer now alias tried capability rc r = (res, r')"
  shows "rg_aliases r' = rg_aliases r"
  using assms
  by (auto simp: ResolveWithContext_def Let_def split: option.splits if_splits prod.splits sum.splits
      dest!: aliases_first_band aliases_pickLocked)

lemma resolve_gw_frame:
  assumes "resolve_gw req env alias tried capability rc gw = (res, gw')"
  shows "settled_as gw gw'" "gw_ledger gw' = gw_ledger gw" "gw_run gw' = gw_run gw" "gw_calls gw' = gw_calls gw"
proof -
  obtain x r' where r: "ResolveWithContext (re_getenv req) (ae_peer env) (ae_now env) alias tried capability rc (gw_registry gw) = (x, r')"
    by fastforce
  then have "gw' = gw\<lparr>gw_registry := r'\<rparr>" using assms by (auto simp: resolve_gw_def split: sum.splits)
  then show "settled_as gw gw'" "gw_ledger gw' = gw_ledger gw" "gw_run gw' = gw_run gw" "gw_calls gw' = gw_calls gw"
    using aliases_Resolve [OF r] in_flight_limits [OF limits_Resolve [OF r]] by (simp_all add: settled_as_def)
qed

text \<open>The deployments an alias names.\<close>

definition alias_names :: "gateway \<Rightarrow> string \<Rightarrow> string set" where
  "alias_names gw alias = (case map_of (rg_aliases (gw_registry gw)) alias of
     None \<Rightarrow> {} | Some targets \<Rightarrow> at_DeploymentName ` set targets)"

lemma finite_alias_names [simp]: "finite (alias_names gw alias)"
  by (simp add: alias_names_def split: option.split)

lemma alias_names_settled: "settled_as gw gw' \<Longrightarrow> alias_names gw' = alias_names gw"
  by (simp add: settled_as_def alias_names_def fun_eq_iff)

lemma resolve_gw_fresh:
  assumes "resolve_gw req env alias tried capability rc gw = (Inr target, gw')"
  shows "rs_DeploymentName target \<in> alias_names gw alias - set tried"
proof -
  obtain r' where r: "ResolveWithContext (re_getenv req) (ae_peer env) (ae_now env) alias tried capability rc (gw_registry gw) = (Inr (Inr target), r')"
    using assms by (auto simp: resolve_gw_def split: prod.splits sum.splits)
  then obtain targets where t: "map_of (rg_aliases (gw_registry gw)) alias = Some targets" "targets \<noteq> []"
    by (auto simp: ResolveWithContext_def split: option.splits if_splits)
  from resolve_choice [OF t refl refl, where tried = tried and capability = capability and rc = rc and peer = "ae_peer env"
      and now = "ae_now env" and getenv = "re_getenv req"] r show ?thesis
    by (fastforce simp: alias_names_def t eligible_def)
qed

section \<open>The loops end and leave nothing behind\<close>

text \<open>What a loop that started in \<open>gw\<close> with \<open>tried\<close> may have done: called some deployments of the alias that
  were not tried, each once.\<close>

definition called_once :: "gateway \<Rightarrow> string \<Rightarrow> string list \<Rightarrow> gateway \<Rightarrow> bool" where
  "called_once gw alias tried gw' \<longleftrightarrow>
     (\<exists>new. gw_calls gw' = gw_calls gw @ new \<and> distinct new \<and> set new \<subseteq> alias_names gw alias - set tried)"

lemma called_once_same: "gw_calls gw' = gw_calls gw \<Longrightarrow> called_once gw alias tried gw'"
  by (simp add: called_once_def)

lemma called_once_step:
  assumes "called_once gw2 alias (n # tried) gw'" and "alias_names gw2 = alias_names gw" and "n \<in> alias_names gw alias - set tried"
    and "gw_calls gw2 = gw_calls gw \<or> gw_calls gw2 = gw_calls gw @ [n]"
  shows "called_once gw alias tried gw'"
proof -
  obtain new where new: "gw_calls gw' = gw_calls gw2 @ new" "distinct new" "set new \<subseteq> alias_names gw alias - set (n # tried)"
    using assms(1,2) by (auto simp: called_once_def)
  from assms(4) show ?thesis
  proof
    assume "gw_calls gw2 = gw_calls gw"
    then show ?thesis unfolding called_once_def using new by (intro exI [of _ new]) auto
  next
    assume "gw_calls gw2 = gw_calls gw @ [n]"
    then show ?thesis unfolding called_once_def using new assms(3) by (intro exI [of _ "n # new"]) auto
  qed
qed

lemma called_once_single:
  "n \<in> alias_names gw alias - set tried \<Longrightarrow> gw_calls gw' = gw_calls gw @ [n] \<Longrightarrow> called_once gw alias tried gw'"
  unfolding called_once_def by (intro exI [of _ "[n]"]) auto

definition kept :: "gateway \<Rightarrow> string \<Rightarrow> string list \<Rightarrow> gateway \<Rightarrow> bool" where
  "kept gw alias tried gw' \<longleftrightarrow> settled_as gw gw' \<and> calls_covered gw' \<and> called_once gw alias tried gw'"

text \<open>One attempt, up to the point where the loop returns or goes on from \<open>gw2\<close>.\<close>

lemma kept_step:
  assumes "kept gw2 alias (n # tried) gw'" and "settled_as gw gw2" and "n \<in> alias_names gw alias - set tried"
    and "gw_calls gw2 = gw_calls gw \<or> gw_calls gw2 = gw_calls gw @ [n]"
  shows "kept gw alias tried gw'"
  using assms called_once_step [OF _ alias_names_settled [OF assms(2)] assms(3,4)] settled_as_trans
  unfolding kept_def by blast

lemma fewer_left:
  assumes "n \<in> alias_names gw alias - set tried" and "settled_as gw gw2"
    and "card (alias_names gw alias - set tried) < Suc k"
  shows "card (alias_names gw2 alias - set (n # tried)) < k"
proof -
  have "alias_names gw2 alias - set (n # tried) = (alias_names gw alias - set tried) - {n}"
    using alias_names_settled [OF assms(2)] by auto
  moreover have "card ((alias_names gw alias - set tried) - {n}) < card (alias_names gw alias - set tried)"
    by (rule card_Diff1_less [OF _ assms(1)]) simp
  ultimately show ?thesis using assms(3) by (metis less_trans_Suc not_less_eq)
qed

lemma attempt_refused:
  assumes "resolve_gw req env alias tried capability rc gw = (Inr target, gw1)" and "calls_covered gw"
    and "tryAcquireUpstream req env target gw1 = (res, gw2)" and "res = Inl err \<or> res = Inr None"
  shows "settled_as gw gw2" "calls_covered gw2" "gw_calls gw2 = gw_calls gw"
proof -
  note f = resolve_gw_frame [OF assms(1)]
  have "calls_covered gw1" using calls_covered_cong [OF f(2-4) assms(2)] .
  from tryAcquireUpstream_refused [OF assms(3,4) this] f(1,4)
  show "settled_as gw gw2" "calls_covered gw2" "gw_calls gw2 = gw_calls gw" by (auto intro: settled_as_trans)
qed

lemma attempt_granted:
  assumes "resolve_gw req env alias tried capability rc gw = (Inr target, gw1)" and "calls_covered gw"
    and "tryAcquireUpstream req env target gw1 = (Inr (Some up), gw2)"
    and "gw3 = gw2\<lparr>gw_calls := gw_calls gw2 @ [rs_DeploymentName target]\<rparr>"
  shows "settled_as gw (releaseUpstreamPermit env' (Some up) gw3)" "calls_covered (releaseUpstreamPermit env' (Some up) gw3)"
    "gw_calls (releaseUpstreamPermit env' (Some up) gw3) = gw_calls gw @ [rs_DeploymentName target]"
    "calls_covered gw3" "gw_calls gw3 = gw_calls gw @ [rs_DeploymentName target]"
proof -
  note f = resolve_gw_frame [OF assms(1)]
  have "calls_covered gw1" using calls_covered_cong [OF f(2-4) assms(2)] .
  note g = tryAcquireUpstream_granted [OF assms(3) this]
  show "settled_as gw (releaseUpstreamPermit env' (Some up) gw3)" unfolding assms(4) using settled_as_trans [OF f(1) g(1)] .
  show "calls_covered (releaseUpstreamPermit env' (Some up) gw3)" unfolding assms(4) by (rule g(4))
  show "gw_calls (releaseUpstreamPermit env' (Some up) gw3) = gw_calls gw @ [rs_DeploymentName target]"
    unfolding assms(4) g(5) using g(3) f(4) by simp
  show "calls_covered gw3" unfolding assms(4) by (rule g(2))
  show "gw_calls gw3 = gw_calls gw @ [rs_DeploymentName target]" using assms(4) g(3) f(4) by simp
qed

lemma covered_on_registry: "calls_covered gw \<Longrightarrow> calls_covered (on_registry f gw)"
  by (rule calls_covered_cong) simp_all

lemma run_loop:
  "calls_covered gw \<Longrightarrow> card (alias_names gw alias - set tried) < length envs \<Longrightarrow>
   \<exists>out gw'. runWithFallback req alias capability rc envs tried lastErr saturated gw = Some (out, gw') \<and> kept gw alias tried gw'"
proof (induction envs arbitrary: tried lastErr saturated gw)
  case (Cons env envs)
  obtain res gw1 where r: "resolve_gw req env alias tried capability rc gw = (res, gw1)" by fastforce
  show ?case
  proof (cases res)
    case (Inl err)
    note f = resolve_gw_frame [OF r]
    have "kept gw alias tried gw1"
      using f(1) calls_covered_cong [OF f(2-4) Cons.prems(1)] called_once_same [OF f(4)] by (simp add: kept_def)
    then show ?thesis using r Inl by simp
  next
    case (Inr target)
    note r = r [unfolded Inr]
    let ?n = "rs_DeploymentName target"
    note fresh = resolve_gw_fresh [OF r]
    obtain a gw2 where a: "tryAcquireUpstream req env target gw1 = (a, gw2)" by fastforce
    have again: "\<exists>out gw'. runWithFallback req alias capability rc envs (?n # tried) le sat gwx = Some (out, gw') \<and> kept gw alias tried gw'"
      if "settled_as gw gwx" "calls_covered gwx" "gw_calls gwx = gw_calls gw \<or> gw_calls gwx = gw_calls gw @ [?n]" for gwx le sat
    proof -
      have "card (alias_names gwx alias - set (?n # tried)) < length envs"
        using fewer_left [OF fresh that(1)] Cons.prems(2) by simp
      from Cons.IH [OF that(2) this, of le sat] show ?thesis using kept_step [OF _ that(1) fresh that(3)] by blast
    qed
    show ?thesis
    proof (cases "\<exists>up. a = Inr (Some up)")
      case False
      then obtain err where no: "a = Inl err \<or> a = Inr None" by (cases a) auto
      note s = attempt_refused [OF r Cons.prems(1) a no]
      have "kept gw alias tried gw2" using s called_once_same [OF s(3)] by (simp add: kept_def)
      moreover have "gw_calls gw2 = gw_calls gw \<or> gw_calls gw2 = gw_calls gw @ [?n]" using s(3) by simp
      ultimately show ?thesis using r a no again [OF s(1,2)] by auto
    next
      case True
      then obtain up where up: "a = Inr (Some up)" by blast
      note g = attempt_granted(1-3) [OF r Cons.prems(1) a [unfolded up] refl, where env' = env]
      let ?gw3 = "releaseUpstreamPermit env (Some up) (gw2\<lparr>gw_calls := gw_calls gw2 @ [?n]\<rparr>)"
      have after: "kept gw alias tried (on_registry f ?gw3)" if "settled_as gw (on_registry f ?gw3)" for f
        using that covered_on_registry [OF g(2)] called_once_single [OF fresh] g(3) by (simp add: kept_def)
      show ?thesis
      proof (cases "ae_result env")
        case (Inr resp)
        then show ?thesis using r a up after [OF settled_as_breakers(1) [OF g(1)]] by simp
      next
        case (Inl callErr)
        let ?f = "RecordFailure (ae_mirror env) (ae_now env) ?n (Some callErr)"
        have s4: "settled_as gw (on_registry ?f ?gw3)" by (rule settled_as_breakers(2) [OF g(1)])
        show ?thesis
        proof (cases "\<not> IsRetryable (Some callErr) \<or> ae_done_after env")
          case True
          then show ?thesis using r a up Inl after [OF s4] by (simp add: Let_def)
        next
          case False
          then show ?thesis using r a up Inl again [OF s4 covered_on_registry [OF g(2)]] g(3) by (simp add: Let_def)
        qed
      qed
    qed
  qed
qed simp

definition stream_kept :: "gateway \<Rightarrow> string \<Rightarrow> string list \<Rightarrow> (upstream_permit \<times> 'r) fallback_outcome \<Rightarrow> gateway \<Rightarrow> bool" where
  "stream_kept gw alias tried out gw' \<longleftrightarrow>
     (case out of
        Inl _ \<Rightarrow> kept gw alias tried gw'
      | Inr (target, p, body) \<Rightarrow> called_once gw alias tried gw' \<and> calls_covered gw'
          \<and> (\<forall>env' :: 'r attempt_env. settled_as gw (releaseUpstreamPermit env' (Some p) gw')))"

lemma stream_kept_step:
  assumes "stream_kept gw2 alias (n # tried) out gw'" and "settled_as gw gw2" and "n \<in> alias_names gw alias - set tried"
    and "gw_calls gw2 = gw_calls gw \<or> gw_calls gw2 = gw_calls gw @ [n]"
  shows "stream_kept gw alias tried out gw'"
proof (cases out)
  case (Inl e)
  then show ?thesis using assms kept_step [OF _ assms(2-4)] by (simp add: stream_kept_def)
next
  case (Inr b)
  obtain target p body where b: "b = (target, p, body)" by (metis prod_cases3)
  have "called_once gw alias tried gw'"
    using assms(1) called_once_step [OF _ alias_names_settled [OF assms(2)] assms(3,4)] by (simp add: stream_kept_def Inr b)
  then show ?thesis using assms(1) settled_as_trans [OF assms(2)] by (auto simp: stream_kept_def Inr b)
qed

lemma stream_loop:
  fixes envs :: "'r attempt_env list"
  shows "calls_covered gw \<Longrightarrow> card (alias_names gw alias - set tried) < length envs \<Longrightarrow>
   \<exists>out gw'. openStreamWithFallback_from req alias rc envs tried lastErr saturated gw = Some (out, gw') \<and> stream_kept gw alias tried out gw'"
proof (induction envs arbitrary: tried lastErr saturated gw)
  case (Cons env envs)
  obtain res gw1 where r: "resolve_gw req env alias tried CapabilityStreamChat rc gw = (res, gw1)" by fastforce
  show ?case
  proof (cases "ae_done_before env")
    case (Some e)
    then show ?thesis using Cons.prems(1) by (simp add: stream_kept_def kept_def called_once_same)
  next
    case alive: None
    show ?thesis
    proof (cases res)
      case (Inl err)
      note f = resolve_gw_frame [OF r]
      have "kept gw alias tried gw1"
        using f(1) calls_covered_cong [OF f(2-4) Cons.prems(1)] called_once_same [OF f(4)] by (simp add: kept_def)
      then show ?thesis using r Inl alive by (simp add: stream_kept_def)
    next
      case (Inr target)
      note r = r [unfolded Inr]
      let ?n = "rs_DeploymentName target"
      note fresh = resolve_gw_fresh [OF r]
      obtain a gw2 where a: "tryAcquireUpstream req env target gw1 = (a, gw2)" by fastforce
      have again: "\<exists>out gw'. openStreamWithFallback_from req alias rc envs (?n # tried) le sat gwx = Some (out, gw') \<and> stream_kept gw alias tried out gw'"
        if "settled_as gw gwx" "calls_covered gwx" "gw_calls gwx = gw_calls gw \<or> gw_calls gwx = gw_calls gw @ [?n]" for gwx le sat
      proof -
        have "card (alias_names gwx alias - set (?n # tried)) < length envs"
          using fewer_left [OF fresh that(1)] Cons.prems(2) by simp
        from Cons.IH [OF that(2) this, of le sat] show ?thesis using stream_kept_step [OF _ that(1) fresh that(3)] by blast
      qed
      show ?thesis
      proof (cases "\<exists>up. a = Inr (Some up)")
        case False
        then obtain err where no: "a = Inl err \<or> a = Inr None" by (cases a) auto
        note s = attempt_refused [OF r Cons.prems(1) a no]
        have "kept gw alias tried gw2" using s called_once_same [OF s(3)] by (simp add: kept_def)
        moreover have "gw_calls gw2 = gw_calls gw \<or> gw_calls gw2 = gw_calls gw @ [?n]" using s(3) by simp
        ultimately show ?thesis using r a no again [OF s(1,2)] alive by (auto simp: stream_kept_def)
      next
        case True
        then obtain up where up: "a = Inr (Some up)" by blast
        note g = attempt_granted [OF r Cons.prems(1) a [unfolded up] refl]
        show ?thesis
        proof (cases "ae_result env")
          case (Inr body)
          have "settled_as gw (releaseUpstreamPermit env' (Some up) (gw2\<lparr>gw_calls := gw_calls gw2 @ [?n]\<rparr>))" for env' :: "'r attempt_env"
            by (rule g(1))
          with Inr show ?thesis using r a up g(4) called_once_single [OF fresh g(5)] alive by (simp add: stream_kept_def Let_def)
        next
          case (Inl callErr)
          let ?gw3 = "releaseUpstreamPermit env (Some up) (gw2\<lparr>gw_calls := gw_calls gw2 @ [?n]\<rparr>)"
          let ?f = "RecordFailure (ae_mirror env) (ae_now env) ?n (Some callErr)"
          have s4: "settled_as gw (on_registry ?f ?gw3)" by (rule settled_as_breakers(2) [OF g(1)])
          have calls: "gw_calls (on_registry ?f ?gw3) = gw_calls gw @ [?n]" using g(3) by simp
          have "kept gw alias tried (on_registry ?f ?gw3)"
            using s4 covered_on_registry [OF g(2)] called_once_single [OF fresh calls] by (simp add: kept_def)
          then show ?thesis using r a up Inl alive again [OF s4 covered_on_registry [OF g(2)]] calls
            by (simp add: stream_kept_def Let_def)
        qed
      qed
    qed
  qed
qed simp

text \<open>A request that has not called any upstream and whose journal is not marked.\<close>

definition fresh_request :: "gateway \<Rightarrow> bool" where
  "fresh_request gw \<longleftrightarrow> gw_calls gw = [] \<and> (case gw_run gw of None \<Rightarrow> True | Some run \<Rightarrow> \<not> run_started run)"

lemma fresh_covered: "fresh_request gw \<Longrightarrow> calls_covered gw"
  by (auto simp: fresh_request_def calls_covered_def run_marked_def)

lemma covered_journal:
  "calls_covered gw \<Longrightarrow> gw_calls gw \<noteq> [] \<Longrightarrow>
   (case gw_run gw of None \<Rightarrow> True | Some run \<Rightarrow> journal_marked (e_RequestID (run_entry run)) (gw_ledger gw))"
  by (auto simp: calls_covered_def run_marked_def split: option.split)


definition sample_gw :: gateway where
  "sample_gw = \<lparr>gw_registry = sample_registry, gw_leases = (\<lambda>_. None), gw_ledger = empty_ledger, gw_run = None, gw_calls = []\<rparr>"

definition sample_req :: request_env where
  "sample_req = \<lparr>re_getenv = (\<lambda>_. []), re_has_store = False, re_limiter = None, re_guarded = False, re_team = None\<rparr>"

definition sample_env :: "unit attempt_env" where
  "sample_env = \<lparr>ae_now = 50, ae_peer = (\<lambda>_. Inr None), ae_mirror = Inr (0, None), ae_now_ms = 0, ae_io = Io_ok, ae_release_io = Io_ok,
     ae_lease_id = ''x'', ae_remaining = None, ae_db_now = 0, ae_db_up = True, ae_done_before = None,
     ae_result = Inl DeadlineExceeded, ae_done_after = False\<rparr>"

lemma sample_names: "alias_names sample_gw ''gpt'' = {''a'', ''b''}" "fresh_request sample_gw"
  by (auto simp: alias_names_def sample_gw_def sample_registry_def fresh_request_def)


text \<open>C9: Opening a stream ends the same way, and on success the permit is handed over whole: the call is
  journalled before the caller gets the stream, and releasing the permit, at whatever later time and
  with whatever answer from Redis, gives the local capacity back.\<close>

theorem stream_permit_is_handed_over:
  fixes envs :: "'r attempt_env list" and later :: "'r attempt_env"
  assumes "fresh_request gw" and "card (alias_names gw alias) < length envs"
  shows "\<exists>out gw'. openStreamWithFallback req alias rc envs gw = Some (out, gw')
    \<and> distinct (gw_calls gw') \<and> set (gw_calls gw') \<subseteq> alias_names gw alias
    \<and> (gw_calls gw' = [] \<or> (case gw_run gw' of None \<Rightarrow> True | Some run \<Rightarrow> journal_marked (e_RequestID (run_entry run)) (gw_ledger gw')))
    \<and> (case out of
         Inl _ \<Rightarrow> in_flight (gw_registry gw') = in_flight (gw_registry gw)
       | Inr (target, p, body) \<Rightarrow>
           in_flight (gw_registry (releaseUpstreamPermit later (Some p) gw')) = in_flight (gw_registry gw))"
proof -
  from stream_loop [OF fresh_covered [OF assms(1)], of "alias" "[]" envs req rc None False] assms(2)
  obtain out gw' where run: "openStreamWithFallback_from req alias rc envs [] None False gw = Some (out, gw')"
    and k: "stream_kept gw alias [] out gw'" by auto
  have calls: "gw_calls gw = []" using assms(1) by (simp add: fresh_request_def)
  have once: "called_once gw alias [] gw'" and cov: "calls_covered gw'"
    using k by (auto simp: stream_kept_def kept_def split: sum.splits)
  have "case out of
         Inl _ \<Rightarrow> in_flight (gw_registry gw') = in_flight (gw_registry gw)
       | Inr (target, p, body) \<Rightarrow>
           in_flight (gw_registry (releaseUpstreamPermit later (Some p) gw')) = in_flight (gw_registry gw)"
    using k by (auto simp: stream_kept_def kept_def settled_as_def split: sum.splits)
  moreover have "distinct (gw_calls gw')" "set (gw_calls gw') \<subseteq> alias_names gw alias" using once by (auto simp: called_once_def calls)
  moreover have "gw_calls gw' = [] \<or> (case gw_run gw' of None \<Rightarrow> True | Some run \<Rightarrow> journal_marked (e_RequestID (run_entry run)) (gw_ledger gw'))"
    using covered_journal [OF cov] by blast
  ultimately show ?thesis using run unfolding openStreamWithFallback_def by blast
qed

theorem stream_permit_is_handed_over_witness:
  "\<exists>out gw'. openStreamWithFallback sample_req ''gpt'' no_context (replicate 3 sample_env) sample_gw = Some (out, gw')
     \<and> distinct (gw_calls gw')"
  using stream_permit_is_handed_over [of sample_gw "''gpt''" "replicate 3 sample_env" sample_req no_context sample_env]
  by (auto simp: sample_names)

end
