(* ===== verification/Usage_Logger.thy ===== *)
theory Usage_Logger
  imports Accounting_Journal
begin

text \<open>
  The usage logger (\<^verbatim>\<open>internal/usage/logger.go\<close>): each completion is committed synchronously, and a
  worker recovers the intents of completions that failed. Until it has, \<open>Ready\<close> refuses further
  inference. Requests and the worker interleave; the worker's pass is cut where it reads or writes the
  shared counters, so that a completion may fail between any two of its steps. A call to the database
  may fail after it has taken effect. The counters are \<open>uint64\<close> in the source; they count failures and
  are natural numbers here.
\<close>

section \<open>The logger\<close>

record logger =
  lg_failures :: nat
  lg_healthy :: nat
  lg_observed :: nat
  lg_cutoff :: "gotime option"

definition NewLogger :: logger where
  "NewLogger = \<lparr>lg_failures = 0, lg_healthy = 0, lg_observed = 0, lg_cutoff = None\<rparr>"

definition Ready :: "logger \<Rightarrow> string + unit" where
  "Ready l = (if lg_failures l \<noteq> lg_healthy l then Inl ''usage recovery pending after failed completion'' else Inr ())"

definition is_ready :: "logger \<Rightarrow> bool" where
  "is_ready l \<longleftrightarrow> Ready l = Inr ()"

datatype db_io = Db_ok | Db_lost (applied: bool)

text \<open>A transaction whose call fails: its effect may or may not have been committed.\<close>

definition with_db :: "db_io \<Rightarrow> string + 'a \<times> ledger \<Rightarrow> ledger \<Rightarrow> (string + 'a) \<times> ledger" where
  "with_db io res db =
     (case res of
        Inl err \<Rightarrow> (Inl err, db)
      | Inr (x, db') \<Rightarrow> if io = Db_ok then (Inr x, db') else (Inl ''database unavailable'', if applied io then db' else db))"

definition Record ::
  "identities \<Rightarrow> gotime \<Rightarrow> gotime \<Rightarrow> db_io \<Rightarrow> usage_entry \<Rightarrow> logger \<Rightarrow> ledger \<Rightarrow> (string + usage_receipt) \<times> logger \<times> ledger" where
  "Record ids now db_now io e l db =
     (let e' = (if e_Ts e = None then e\<lparr>e_Ts := Some now\<rparr> else e) in
      (case with_db io (FinalizeUsage ids now db_now e' db) db of
         (Inl err, db') \<Rightarrow> (Inl err, if e_AccountingID e' \<noteq> [] then l\<lparr>lg_failures := lg_failures l + 1\<rparr> else l, db')
       | (Inr receipt, db') \<Rightarrow> (Inr receipt, l, db')))"

text \<open>The worker's pass, from the loaded failure count on: \<open>Inl\<close> when the checkpoint query fails. The
  flag says whether the epoch may be acknowledged.\<close>

definition checkpoint_epoch :: "nat \<Rightarrow> logger \<Rightarrow> logger" where
  "checkpoint_epoch epoch l = (if epoch \<noteq> lg_observed l then l\<lparr>lg_observed := epoch, lg_cutoff := None\<rparr> else l)"

definition run_checkpoint :: "gotime \<Rightarrow> bool \<Rightarrow> nat \<Rightarrow> logger \<Rightarrow> ledger \<Rightarrow> (string + bool) \<times> logger" where
  "run_checkpoint db_now db_up epoch l db =
     (if epoch = lg_healthy l then (Inr False, l)
      else
        let l1 = checkpoint_epoch epoch l
        in if \<not> db_up then (Inl ''database unavailable'', l1)
           else (case AccountingCheckpoint db_now (lg_cutoff l1) db of
                   (cutoff, pending) \<Rightarrow> (Inr (\<not> pending), l1\<lparr>lg_cutoff := Some cutoff\<rparr>)))"

definition acknowledge :: "nat \<Rightarrow> logger \<Rightarrow> logger" where
  "acknowledge epoch l = l\<lparr>lg_healthy := epoch\<rparr>"

text \<open>The whole pass when nothing interleaves, and the worker's handling of its error.\<close>

definition reconcile ::
  "identities \<Rightarrow> (string \<Rightarrow> bool) \<Rightarrow> gotime \<Rightarrow> gotime \<Rightarrow> db_io \<Rightarrow> bool \<Rightarrow> logger \<Rightarrow> ledger \<Rightarrow> (string + nat) \<times> logger \<times> ledger" where
  "reconcile ids locked now db_now io db_up l db =
     (case with_db io (ReconcileAccounting ids locked now db_now db) db of
        (Inl err, db') \<Rightarrow> (Inl err, l, db')
      | (Inr count, db') \<Rightarrow>
          (case run_checkpoint db_now db_up (lg_failures l) l db' of
             (Inl err, l') \<Rightarrow> (Inl err, l', db')
           | (Inr clear, l') \<Rightarrow> (Inr count, if clear then acknowledge (lg_failures l) l' else l', db')))"

definition worker_tick where
  "worker_tick ids locked now db_now io db_up l db =
     (case reconcile ids locked now db_now io db_up l db of
        (Inl err, l', db') \<Rightarrow> (l'\<lparr>lg_failures := lg_failures l' + 1\<rparr>, db')
      | (Inr count, l', db') \<Rightarrow> (l', db'))"

section \<open>Interleaved with requests\<close>

text \<open>The worker is idle, has loaded the failure count, or has found the journal clear up to its cutoff.
  \<open>lw_failed\<close> is a trace of the failures counted: the request whose completion failed, or \<open>None\<close> for a
  failure of the worker itself or of a completion that names no intent.\<close>

datatype worker_pc = Idle | Loaded nat | Clear nat

record logger_world =
  lw_logger :: logger
  lw_db :: ledger
  lw_clock :: gotime
  lw_pc :: worker_pc
  lw_failed :: "string option list"

inductive logger_step :: "logger_world \<Rightarrow> logger_world \<Rightarrow> bool" where
  clock: "lw_clock w \<le> t \<Longrightarrow> logger_step w (w\<lparr>lw_clock := t\<rparr>)"
| begin_request: "BeginAccounting json_len now (lw_clock w) e remaining (lw_db w) = Inr db' \<Longrightarrow>
    logger_step w (w\<lparr>lw_db := db'\<rparr>)"
| mark: "MarkAccountingStarted (lw_clock w) rid (lw_db w) = Inr db' \<Longrightarrow> logger_step w (w\<lparr>lw_db := db'\<rparr>)"
| record_done: "Record ids now (lw_clock w) io e (lw_logger w) (lw_db w) = (Inr receipt, l', db') \<Longrightarrow>
    logger_step w (w\<lparr>lw_logger := l', lw_db := db'\<rparr>)"
| record_unknown: "find_journal (e_AccountingID e) (journal (lw_db w)) = None \<Longrightarrow> e_AccountingID e \<noteq> [] \<Longrightarrow>
    Record ids now (lw_clock w) io e (lw_logger w) (lw_db w) = (Inl err, l', db') \<Longrightarrow>
    logger_step w (w\<lparr>lw_db := db', lw_logger := l', lw_failed := lw_failed w @ [None]\<rparr>)"
| record_unjournaled: "e_AccountingID e = [] \<Longrightarrow>
    Record ids now (lw_clock w) io e (lw_logger w) (lw_db w) = (Inl err, l', db') \<Longrightarrow>
    logger_step w (w\<lparr>lw_logger := l', lw_db := db'\<rparr>)"
| record_lost: "find_journal (e_AccountingID e) (journal (lw_db w)) \<noteq> None \<Longrightarrow> e_AccountingID e \<noteq> [] \<Longrightarrow>
    Record ids now (lw_clock w) io e (lw_logger w) (lw_db w) = (Inl err, l', db') \<Longrightarrow>
    logger_step w (w\<lparr>lw_db := db', lw_logger := l', lw_failed := lw_failed w @ [Some (e_AccountingID e)]\<rparr>)"
| recover: "lw_pc w = Idle \<Longrightarrow>
    with_db Db_ok (ReconcileAccounting ids locked now (lw_clock w) (lw_db w)) (lw_db w) = (Inr count, db') \<Longrightarrow>
    logger_step w (w\<lparr>lw_db := db', lw_pc := Loaded (lg_failures (lw_logger w))\<rparr>)"
| recover_lost: "lw_pc w = Idle \<Longrightarrow>
    with_db io (ReconcileAccounting ids locked now (lw_clock w) (lw_db w)) (lw_db w) = (Inl err, db') \<Longrightarrow>
    logger_step w (w\<lparr>lw_db := db', lw_logger := (lw_logger w)\<lparr>lg_failures := lg_failures (lw_logger w) + 1\<rparr>,
      lw_failed := lw_failed w @ [None]\<rparr>)"
| checkpoint: "lw_pc w = Loaded epoch \<Longrightarrow>
    run_checkpoint (lw_clock w) True epoch (lw_logger w) (lw_db w) = (Inr clear, l') \<Longrightarrow>
    logger_step w (w\<lparr>lw_pc := (if clear then Clear epoch else Idle), lw_logger := l'\<rparr>)"
| checkpoint_lost: "lw_pc w = Loaded epoch \<Longrightarrow>
    run_checkpoint (lw_clock w) False epoch (lw_logger w) (lw_db w) = (Inl err, l') \<Longrightarrow>
    logger_step w (w\<lparr>lw_pc := Idle, lw_logger := l'\<lparr>lg_failures := lg_failures l' + 1\<rparr>, lw_failed := lw_failed w @ [None]\<rparr>)"
| acknowledge_epoch: "lw_pc w = Clear epoch \<Longrightarrow>
    logger_step w (w\<lparr>lw_logger := acknowledge epoch (lw_logger w), lw_pc := Idle\<rparr>)"

inductive_cases logger_stepE: "logger_step w w'"

definition logger_start :: "ledger \<Rightarrow> gotime \<Rightarrow> logger_world" where
  "logger_start db t = \<lparr>lw_logger = NewLogger, lw_db = db, lw_clock = t, lw_pc = Idle, lw_failed = []\<rparr>"

section \<open>How the journal moves\<close>

definition is_pending :: "string \<Rightarrow> ledger \<Rightarrow> bool" where
  "is_pending rid db \<longleftrightarrow> (\<exists>j \<in> set (journal db). j_request_id j = rid \<and> j_state j = ''pending'')"

text \<open>Rows are kept, with the time they were created; a row that is no longer pending stays so.\<close>

definition keeps_row :: "journal_row \<Rightarrow> journal_row \<Rightarrow> bool" where
  "keeps_row j j' \<longleftrightarrow> j_request_id j' = j_request_id j \<and> j_created_at j' = j_created_at j
     \<and> (j_state j' = ''pending'' \<longrightarrow> j_state j = ''pending'')"

definition progress :: "ledger \<Rightarrow> ledger \<Rightarrow> bool" where
  "progress db db' \<longleftrightarrow> list_all2 keeps_row (journal db) (journal db')"

lemma keeps_row_refl [simp]: "keeps_row j j"
  by (simp add: keeps_row_def)

lemma keeps_row_trans: "keeps_row a b \<Longrightarrow> keeps_row b c \<Longrightarrow> keeps_row a c"
  by (simp add: keeps_row_def)

lemma progressI:
  assumes "journal db' = map f (journal db)" and "\<And>j. keeps_row j (f j)"
  shows "progress db db'"
  unfolding progress_def assms(1) using assms(2) by (simp add: list_all2_conv_all_nth)

lemma progress_same: "journal db' = journal db \<Longrightarrow> progress db db'"
  by (simp add: progress_def list_all2_refl)

lemma progress_trans: "progress a b \<Longrightarrow> progress b c \<Longrightarrow> progress a c"
  unfolding progress_def by (rule list_all2_trans [OF keeps_row_trans])

lemma insert_usage_row_journal: "insert_usage_row e ts db = Inr (i, db') \<Longrightarrow> journal db' = journal db"
  by (auto simp: insert_usage_row_def Let_def split: if_splits option.splits elim!: bind_okE)

lemma insertUsage_journal: "insertUsage now e db = Inr (i, db') \<Longrightarrow> journal db' = journal db"
  by (auto simp: insertUsage_def Let_def split: if_splits option.splits sum.splits dest: insert_usage_row_journal)

lemma settle_journal_journal: "settle_journal db_now j e db = Inr (e', db') \<Longrightarrow> journal db' = journal db"
  by (auto simp: settle_journal_def Let_def split: option.splits if_splits elim!: bind_okE dest: settle_reservation_frame(2))

lemma progress_finalizeJournal:
  assumes "finalizeJournal ids now db_now j e b db = Inr (rc, db')"
  shows "progress db db'"
proof (cases "j_state j = ''complete''")
  case True
  then show ?thesis using assms by (auto simp: finalizeJournal_def intro: progress_same split: if_splits elim!: bind_okE)
next
  case False
  then obtain e4 e5 db1 i db2 where "settle_journal db_now j e4 db = Inr (e5, db1)" "insertUsage now e5 db1 = Inr (i, db2)"
    and db': "db' = db2\<lparr>journal := map (complete_row (j_request_id j) i db_now) (journal db2)\<rparr>"
    using assms by (auto simp: finalizeJournal_def split: if_splits elim!: bind_okE)
  then have "journal db' = map (complete_row (j_request_id j) i db_now) (journal db)"
    using settle_journal_journal insertUsage_journal by simp
  then show ?thesis by (rule progressI) (simp add: complete_row_def keeps_row_def)
qed

lemma progress_FinalizeUsage: "FinalizeUsage ids now db_now e db = Inr (rc, db') \<Longrightarrow> progress db db'"
  by (auto simp: FinalizeUsage_def split: if_splits option.splits elim!: bind_okE
      intro: progress_finalizeJournal progress_same insertUsage_journal)

lemma progress_Reconcile:
  assumes "ReconcileAccounting ids locked now db_now db = Inr (n, db')"
  shows "progress db db'"
proof -
  from assms have "fold_ok (recover_one ids now db_now) (recovery_batch locked db_now (journal db)) db = Inr db'"
    by (auto simp: ReconcileAccounting_def Let_def elim!: bind_okE)
  then show ?thesis
  proof (rule fold_ok_invariant [where P = "progress db"])
    show "progress db db" by (simp add: progress_same)
    show "progress db s'" if "progress db s" "recover_one ids now db_now x s = Inr s'" for x s s'
      using that progress_finalizeJournal progress_trans by (fastforce simp: recover_one_def split: sum.splits prod.splits)
  qed
qed

lemma progress_with_db:
  assumes "with_db io res db = (r, db')" and "\<And>x db1. res = Inr (x, db1) \<Longrightarrow> progress db db1"
  shows "progress db db'"
  using assms by (auto simp: with_db_def progress_same split: sum.splits if_splits)

lemma progress_Mark: "MarkAccountingStarted db_now rid db = Inr db' \<Longrightarrow> progress db db'"
  by (auto simp: MarkAccountingStarted_def mark_row_def keeps_row_def split: if_splits intro!: progressI [of _ "mark_row db_now rid"])

lemma progress_Record: "Record ids now db_now io e l db = (r, l', db') \<Longrightarrow> progress db db'"
  by (auto simp: Record_def Let_def split: prod.splits sum.splits if_splits
      intro: progress_with_db progress_FinalizeUsage)

section \<open>What the steps keep\<close>

definition known :: "string \<Rightarrow> ledger \<Rightarrow> bool" where
  "known rid db \<longleftrightarrow> rid \<in> j_request_id ` set (journal db)"

lemma known_iff: "known rid db \<longleftrightarrow> find_journal rid (journal db) \<noteq> None"
  by (auto simp: known_def find_journal_def find_None_iff image_iff)

definition created_by :: "gotime \<Rightarrow> string \<Rightarrow> ledger \<Rightarrow> bool" where
  "created_by c rid db \<longleftrightarrow> (\<forall>j \<in> set (journal db). j_request_id j = rid \<longrightarrow> j_created_at j \<le> c)"

definition rows_before :: "gotime \<Rightarrow> ledger \<Rightarrow> bool" where
  "rows_before t db \<longleftrightarrow> (\<forall>j \<in> set (journal db). j_created_at j \<le> t)"

text \<open>Every database operation at time \<open>t\<close> moves the journal like this: no intent disappears, none that has
  been completed is pending again, and only new intents get a creation time.\<close>

definition moves :: "gotime \<Rightarrow> ledger \<Rightarrow> ledger \<Rightarrow> bool" where
  "moves t db db' \<longleftrightarrow> (rows_before t db \<longrightarrow> rows_before t db') \<and>
     (\<forall>rid. known rid db \<longrightarrow> known rid db' \<and> (is_pending rid db' \<longrightarrow> is_pending rid db)
        \<and> (\<forall>c. created_by c rid db \<longrightarrow> created_by c rid db'))"

lemma progress_row:
  assumes "progress db db'" and "j' \<in> set (journal db')"
  shows "\<exists>j \<in> set (journal db). keeps_row j j'"
  using assms unfolding progress_def list_all2_conv_all_nth by (metis in_set_conv_nth)

lemma progress_ids: "progress db db' \<Longrightarrow> map j_request_id (journal db') = map j_request_id (journal db)"
  unfolding progress_def by (rule nth_equalityI) (auto simp: list_all2_conv_all_nth keeps_row_def)

lemma moves_progress:
  assumes "progress db db'"
  shows "moves t db db'"
proof -
  have "known rid db' = known rid db" for rid
    using progress_ids [OF assms] unfolding known_def by (metis list.set_map)
  moreover have "is_pending rid db" if "is_pending rid db'" for rid
    using that progress_row [OF assms] unfolding is_pending_def keeps_row_def by metis
  moreover have "created_by c rid db'" if "created_by c rid db" for c rid
    using that progress_row [OF assms] unfolding created_by_def keeps_row_def by metis
  moreover have "rows_before t db'" if "rows_before t db"
    using that progress_row [OF assms] unfolding rows_before_def keeps_row_def by metis
  ultimately show ?thesis unfolding moves_def by blast
qed

lemma moves_BeginAccounting:
  assumes "BeginAccounting json_len now t e remaining db = Inr db'"
  shows "moves t db db'"
proof -
  from assms obtain row where js: "journal db' = journal db @ [row]" and rid: "j_request_id row = e_RequestID e"
    and at: "j_created_at row = t" and fresh: "find_journal (e_RequestID e) (journal db) = None"
    by (auto simp: BeginAccounting_def Let_def split: if_splits option.splits)
  have new: "rid \<noteq> e_RequestID e" if "known rid db" for rid
    using that fresh by (auto simp: known_iff)
  show ?thesis unfolding moves_def
    using js rid at new by (auto simp: rows_before_def known_def is_pending_def created_by_def)
qed

definition logger_inv :: "logger_world \<Rightarrow> bool" where
  "logger_inv w \<longleftrightarrow>
     length (lw_failed w) = lg_failures (lw_logger w) \<and>
     lg_healthy (lw_logger w) \<le> lg_failures (lw_logger w) \<and> lg_observed (lw_logger w) \<le> lg_failures (lw_logger w) \<and>
     rows_before (lw_clock w) (lw_db w) \<and>
     (\<forall>rid. Some rid \<in> set (lw_failed w) \<longrightarrow> known rid (lw_db w)) \<and>
     (\<forall>c rid. lg_cutoff (lw_logger w) = Some c \<and> Some rid \<in> set (take (lg_observed (lw_logger w)) (lw_failed w))
        \<longrightarrow> created_by c rid (lw_db w)) \<and>
     (\<forall>rid. Some rid \<in> set (take (lg_healthy (lw_logger w)) (lw_failed w)) \<longrightarrow> \<not> is_pending rid (lw_db w)) \<and>
     (case lw_pc w of
        Idle \<Rightarrow> True
      | Loaded n \<Rightarrow> n \<le> lg_failures (lw_logger w)
      | Clear n \<Rightarrow> n \<le> lg_failures (lw_logger w) \<and>
          (\<forall>rid. Some rid \<in> set (take n (lw_failed w)) \<longrightarrow> \<not> is_pending rid (lw_db w)))"

lemma logger_inv_start: "rows_before t db \<Longrightarrow> logger_inv (logger_start db t)"
  by (simp add: logger_inv_def logger_start_def NewLogger_def)

text \<open>The ledger may move under the invariant, and a failure may be counted at any moment.\<close>

lemma logger_inv_moves:
  assumes "logger_inv w" and "moves (lw_clock w) (lw_db w) db'"
  shows "logger_inv (w\<lparr>lw_db := db'\<rparr>)"
  using assms unfolding logger_inv_def moves_def by (auto split: worker_pc.splits) (meson in_set_takeD)+

lemma logger_inv_count:
  assumes "logger_inv w" and "\<And>rid. x = Some rid \<Longrightarrow> known rid (lw_db w)"
  shows "logger_inv (w\<lparr>lw_logger := (lw_logger w)\<lparr>lg_failures := lg_failures (lw_logger w) + 1\<rparr>,
    lw_failed := lw_failed w @ [x]\<rparr>)"
  using assms unfolding logger_inv_def by (auto split: worker_pc.splits)

text \<open>A completion that is refused or lost counts one failure, and the ledger moves as for one that is
  committed.\<close>

lemma Record_Inl:
  assumes "Record ids now t io e l db = (Inl err, l', db')"
  shows "l' = (if e_AccountingID e \<noteq> [] then l\<lparr>lg_failures := lg_failures l + 1\<rparr> else l)"
  using assms by (auto simp: Record_def Let_def split: prod.splits sum.splits)

lemma Record_Inr: "Record ids now t io e l db = (Inr rc, l', db') \<Longrightarrow> l' = l"
  by (auto simp: Record_def Let_def split: prod.splits sum.splits)

lemmas moves_Record = moves_progress [OF progress_Record]

lemma moves_recovery: "with_db io (ReconcileAccounting ids locked now t db) db = (r, db') \<Longrightarrow> moves t db db'"
  by (rule moves_progress) (blast intro: progress_with_db progress_Reconcile)

text \<open>The checkpoint: its cutoff is no earlier than the creation of any intent whose failure is counted in the
  epoch, so a clear journal up to the cutoff has none of them pending.\<close>

lemma run_checkpoint_fields:
  assumes "run_checkpoint t up epoch l db = (r, l')"
  shows "lg_failures l' = lg_failures l" and "lg_healthy l' = lg_healthy l"
    and "lg_observed l' = lg_observed l \<or> lg_observed l' = epoch"
  using assms by (auto simp: run_checkpoint_def checkpoint_epoch_def Let_def split: if_splits prod.splits)

lemma run_checkpoint_cutoff:
  assumes "run_checkpoint t up epoch l db = (r, l')" and "lg_cutoff l' = Some c"
  shows "lg_observed l' = lg_observed l \<and> lg_cutoff l = Some c \<or> c = t"
  using assms by (auto simp: run_checkpoint_def checkpoint_epoch_def AccountingCheckpoint_def Let_def
      split: if_splits prod.splits option.splits)

lemma run_checkpoint_clear:
  assumes "run_checkpoint t up epoch l db = (Inr True, l')"
  obtains c where "lg_cutoff l' = Some c" and "lg_observed l' = epoch"
    and "\<forall>j \<in> set (journal db). j_state j = ''pending'' \<longrightarrow> c < j_created_at j"
  using assms by (auto simp: run_checkpoint_def checkpoint_epoch_def AccountingCheckpoint_def Let_def list_ex_iff not_le
      split: if_splits prod.splits option.splits)

lemma created_by_now: "rows_before t db \<Longrightarrow> created_by t rid db"
  by (simp add: rows_before_def created_by_def)

lemma logger_inv_checkpoint:
  assumes inv: "logger_inv w" and pc: "lw_pc w = Loaded epoch"
    and run: "run_checkpoint (lw_clock w) up epoch (lw_logger w) (lw_db w) = (r, l')"
  shows "logger_inv (w\<lparr>lw_pc := (if r = Inr True then Clear epoch else Idle), lw_logger := l'\<rparr>)"
proof -
  note fields = run_checkpoint_fields [OF run]
  have epoch: "epoch \<le> lg_failures (lw_logger w)" and before: "rows_before (lw_clock w) (lw_db w)"
    using inv pc by (simp_all add: logger_inv_def)
  have cut: "created_by c rid (lw_db w)"
    if "lg_cutoff l' = Some c" "Some rid \<in> set (take (lg_observed l') (lw_failed w))" for c rid
    using run_checkpoint_cutoff [OF run that(1)] that inv created_by_now [OF before] unfolding logger_inv_def by metis
  have clear: "\<not> is_pending rid (lw_db w)"
    if "r = Inr True" "Some rid \<in> set (take epoch (lw_failed w))" for rid
  proof -
    from run that(1) obtain c where c: "lg_cutoff l' = Some c" "lg_observed l' = epoch"
      and late: "\<forall>j \<in> set (journal (lw_db w)). j_state j = ''pending'' \<longrightarrow> c < j_created_at j"
      by (blast elim: run_checkpoint_clear)
    have "created_by c rid (lw_db w)" using cut c that(2) by simp
    then show ?thesis using late by (force simp: created_by_def is_pending_def)
  qed
  have "lg_observed l' \<le> lg_failures l'" using fields epoch inv by (auto simp: logger_inv_def)
  then show ?thesis using inv fields epoch cut clear unfolding logger_inv_def by auto
qed

lemma logger_inv_step:
  assumes inv: "logger_inv w" and step: "logger_step w w'"
  shows "logger_inv w'"
  using step
proof cases
  case (clock t)
  then have "rows_before t (lw_db w)" using inv by (fastforce simp: logger_inv_def rows_before_def)
  then show ?thesis using inv clock(1) by (simp add: logger_inv_def split: worker_pc.splits)
next
  case (begin_request json_len now e remaining db')
  then show ?thesis using inv by (simp add: logger_inv_moves moves_BeginAccounting)
next
  case (mark rid db')
  then show ?thesis using inv by (simp add: logger_inv_moves moves_progress progress_Mark)
next
  case (record_done ids now io e rc l' db')
  have "l' = lw_logger w" "moves (lw_clock w) (lw_db w) db'"
    using record_done(2) by (rule Record_Inr, rule moves_Record)
  then show ?thesis using inv record_done(1) by (simp add: logger_inv_moves)
next
  case (record_unknown e ids now io err l' db')
  note moved = logger_inv_moves [OF inv moves_Record [OF record_unknown(4)]]
  show ?thesis using logger_inv_count [OF moved, of None] record_unknown Record_Inl [OF record_unknown(4)] by simp
next
  case (record_unjournaled e ids now io err l' db')
  then show ?thesis using logger_inv_moves [OF inv moves_Record [OF record_unjournaled(3)]] Record_Inl [OF record_unjournaled(3)] by simp
next
  case (record_lost e ids now io err l' db')
  note moved = logger_inv_moves [OF inv moves_Record [OF record_lost(4)]]
  have "known (e_AccountingID e) (lw_db w)"
    using record_lost(2) by (simp add: known_iff)
  then have "known (e_AccountingID e) db'" using moves_Record [OF record_lost(4)] unfolding moves_def by blast
  then show ?thesis
    using logger_inv_count [OF moved, of "Some (e_AccountingID e)"] record_lost Record_Inl [OF record_lost(4)] by simp
next
  case (recover ids locked now count db')
  have "logger_inv (w\<lparr>lw_db := db'\<rparr>)" using logger_inv_moves [OF inv moves_recovery [OF recover(3)]] .
  then show ?thesis using recover by (simp add: logger_inv_def)
next
  case (recover_lost io ids locked now err db')
  note moved = logger_inv_moves [OF inv moves_recovery [OF recover_lost(3)]]
  show ?thesis using logger_inv_count [OF moved, of None] recover_lost by simp
next
  case (checkpoint epoch clear l')
  then show ?thesis using logger_inv_checkpoint [OF inv checkpoint(2) checkpoint(3)] by simp
next
  case (checkpoint_lost epoch err l')
  have "logger_inv (w\<lparr>lw_pc := Idle, lw_logger := l'\<rparr>)"
    using logger_inv_checkpoint [OF inv checkpoint_lost(2) checkpoint_lost(3)] by simp
  from logger_inv_count [OF this, of None] show ?thesis using checkpoint_lost by simp
next
  case (acknowledge_epoch epoch)
  then show ?thesis using inv by (simp add: logger_inv_def acknowledge_def)
qed

lemma logger_inv_reachable:
  assumes "logger_step\<^sup>*\<^sup>* (logger_start db t) w" and "rows_before t db"
  shows "logger_inv w"
  using assms(1) by (induction rule: rtranclp_induct) (auto intro: logger_inv_step logger_inv_start assms(2))

section \<open>Readiness\<close>

lemma is_ready_iff: "is_ready l \<longleftrightarrow> lg_failures l = lg_healthy l"
  by (simp add: is_ready_def Ready_def)

text \<open>A pass that succeeds and leaves no intent pending makes the logger ready, so a failure does not stop the
  gateway for good.\<close>

lemma clear_pass_readmits:
  assumes "reconcile ids locked now t io up l db = (Inr n, l', db')" and "\<forall>j \<in> set (journal db'). j_state j \<noteq> ''pending''"
  shows "is_ready l'"
  using assms by (auto simp: reconcile_def run_checkpoint_def checkpoint_epoch_def acknowledge_def AccountingCheckpoint_def
      is_ready_iff Let_def list_ex_iff split: sum.splits prod.splits if_splits)

text \<open>C10: The logger is ready only after recovery. However completions, their failures and the recovery worker
  interleave, and whether or not a failed database call took effect, while \<open>Ready\<close> lets requests pass no
  intent whose completion has failed is still pending: in particular acknowledging an older epoch never erases a
  failure that was counted meanwhile.\<close>

theorem ready_only_after_recovery:
  assumes "logger_step\<^sup>*\<^sup>* (logger_start db t) w" and "rows_before t db" and "Ready (lw_logger w) = Inr ()"
    and "Some rid \<in> set (lw_failed w)"
  shows "\<not> is_pending rid (lw_db w)"
proof -
  have inv: "logger_inv w" using logger_inv_reachable assms(1,2) by blast
  have "lg_healthy (lw_logger w) = length (lw_failed w)"
    using inv assms(3) is_ready_iff [of "lw_logger w"] by (simp add: logger_inv_def is_ready_def)
  then have "take (lg_healthy (lw_logger w)) (lw_failed w) = lw_failed w" by simp
  then show ?thesis using inv assms(4) by (simp add: logger_inv_def)
qed

theorem ready_only_after_recovery_witness:
  "\<exists>w. logger_step\<^sup>*\<^sup>* (logger_start sample_ledger 100000000000) w \<and> is_pending ''req'' sample_ledger
     \<and> lw_failed w = [Some ''req''] \<and> Ready (lw_logger w) = Inr () \<and> \<not> is_pending ''req'' (lw_db w)"
proof -
  let ?t = "100000000000 :: gotime" and ?w0 = "logger_start sample_ledger 100000000000"
  have "succeeds (FinalizeUsage sample_live ?t ?t (sample_final\<lparr>e_Ts := Some ?t\<rparr>) sample_ledger)" by code_simp
  then obtain x where "FinalizeUsage sample_live ?t ?t (sample_final\<lparr>e_Ts := Some ?t\<rparr>) sample_ledger = Inr x"
    by (rule succeedsE)
  moreover have id: "e_AccountingID sample_final = ''req''" "e_Ts sample_final = None"
    by (simp_all add: sample_final_def sample_entry_def empty_entry_def)
  ultimately have "Record sample_live ?t ?t (Db_lost False) sample_final NewLogger sample_ledger
      = (Inl ''database unavailable'', NewLogger\<lparr>lg_failures := 1\<rparr>, sample_ledger)"
    by (cases x) (simp add: Record_def with_db_def NewLogger_def)
  then have s1: "logger_step ?w0 (?w0\<lparr>lw_db := sample_ledger, lw_logger := NewLogger\<lparr>lg_failures := 1\<rparr>,
      lw_failed := lw_failed ?w0 @ [Some ''req'']\<rparr>)" (is "logger_step _ ?w1")
    using logger_step.record_lost [of sample_final ?w0] id sample_find_journal by (simp add: logger_start_def)
  have "succeeds (ReconcileAccounting sample_live (\<lambda>_. False) ?t ?t sample_ledger)" by code_simp
  then obtain n db' where rec: "ReconcileAccounting sample_live (\<lambda>_. False) ?t ?t sample_ledger = Inr (n, db')"
    by (metis succeedsE surj_pair)
  have "case ReconcileAccounting sample_live (\<lambda>_. False) ?t ?t sample_ledger of
      Inl _ \<Rightarrow> False | Inr (n, db') \<Rightarrow> list_all (\<lambda>j. j_state j \<noteq> ''pending'') (journal db')" by code_simp
  then have idle: "\<forall>j \<in> set (journal db'). j_state j \<noteq> ''pending''" by (simp add: rec list_all_iff)
  have s2: "logger_step ?w1 (?w1\<lparr>lw_db := db', lw_pc := Loaded 1\<rparr>)" (is "logger_step _ ?w2")
    using logger_step.recover [of ?w1 sample_live "\<lambda>_. False" ?t n db'] rec by (simp add: logger_start_def with_db_def)
  have run: "run_checkpoint ?t True 1 (NewLogger\<lparr>lg_failures := 1\<rparr>) db'
      = (Inr True, \<lparr>lg_failures = 1, lg_healthy = 0, lg_observed = 1, lg_cutoff = Some ?t\<rparr>)" (is "_ = (_, ?l)")
    using idle by (simp add: run_checkpoint_def checkpoint_epoch_def AccountingCheckpoint_def NewLogger_def list_ex_iff)
  have s3: "logger_step ?w2 (?w2\<lparr>lw_pc := Clear 1, lw_logger := ?l\<rparr>)" (is "logger_step _ ?w3")
    using logger_step.checkpoint [of ?w2 1 True ?l] run by (simp add: logger_start_def)
  have s4: "logger_step ?w3 (?w3\<lparr>lw_logger := acknowledge 1 ?l, lw_pc := Idle\<rparr>)" (is "logger_step _ ?w4")
    using logger_step.acknowledge_epoch [of ?w3 1] by simp
  have reach: "logger_step\<^sup>*\<^sup>* ?w0 ?w4" using s1 s2 s3 s4 by (meson converse_rtranclp_into_rtranclp rtranclp.rtrancl_refl)
  have ready: "Ready (lw_logger ?w4) = Inr ()" "lw_failed ?w4 = [Some ''req'']"
    by (simp_all add: Ready_def acknowledge_def logger_start_def)
  have before: "rows_before ?t sample_ledger" "is_pending ''req'' sample_ledger"
    by (simp_all add: rows_before_def is_pending_def sample_ledger_def sample_journal_row_def)
  have "\<not> is_pending ''req'' (lw_db ?w4)"
    by (rule ready_only_after_recovery [OF reach before(1) ready(1)]) (simp add: ready(2))
  with reach ready before(2) show ?thesis by blast
qed

end
