(* ===== verification/Guardrail_Filter.thy ===== *)
theory Guardrail_Filter
  imports Json_Value
begin

text \<open>
  The guardrail text filter (\<^verbatim>\<open>internal/guardrails/guardrails.go\<close>): policies of literal terms, which block,
  redact or flag a text that arrives in pieces.

  \<^item> A Go string is a list of bytes. Where the code iterates over runes, the bytes are decoded as
    UTF-8 (\<open>utf8_runes\<close>, \<open>None\<close> for an invalid string), and offsets count runes; sizes
    are in bytes, as in the source. A match of a term starts and ends at a rune, so the byte mask of the source is
    constant on each rune and is one flag per rune here.
  \<^item> A term matches without regard to case, by Unicode simple folding. The tables of Unicode are the
    parameter \<open>fold_rune\<close>, which maps a rune to a representative of its folding orbit.
  \<^item> The time spent (\<open>Latency\<close>) is left out.
\<close>

section \<open>UTF-8\<close>

type_synonym rune = int

definition cont_byte :: "int \<Rightarrow> bool" where
  "cont_byte b \<longleftrightarrow> 128 \<le> b \<and> b < 192"

fun utf8_decode :: "int list \<Rightarrow> rune list option" where
  "utf8_decode [] = Some []"
| "utf8_decode (a # s) =
     (if a < 128 then map_option ((#) a) (utf8_decode s)
      else (case s of
              [] \<Rightarrow> None
            | b # s1 \<Rightarrow>
                if 194 \<le> a \<and> a < 224
                then (if cont_byte b then map_option ((#) ((a - 192) * 64 + (b - 128))) (utf8_decode s1) else None)
                else (case s1 of
                        [] \<Rightarrow> None
                      | c # s2 \<Rightarrow>
                          if 224 \<le> a \<and> a < 240
                          then (if cont_byte b \<and> cont_byte c \<and> (a = 224 \<longrightarrow> 160 \<le> b) \<and> (a = 237 \<longrightarrow> b < 160)
                                then map_option ((#) ((a - 224) * 4096 + (b - 128) * 64 + (c - 128))) (utf8_decode s2) else None)
                          else (case s2 of
                                  [] \<Rightarrow> None
                                | d # s3 \<Rightarrow>
                                    if 240 \<le> a \<and> a < 245 \<and> cont_byte b \<and> cont_byte c \<and> cont_byte d
                                       \<and> (a = 240 \<longrightarrow> 144 \<le> b) \<and> (a = 244 \<longrightarrow> b < 144)
                                    then map_option ((#) ((a - 240) * 262144 + (b - 128) * 4096 + (c - 128) * 64 + (d - 128)))
                                           (utf8_decode s3)
                                    else None))))"

definition utf8_runes :: "string \<Rightarrow> rune list option" where
  "utf8_runes s = utf8_decode (map of_char s)"

definition utf8_encode :: "rune \<Rightarrow> int list" where
  "utf8_encode r =
     (if r < 128 then [r]
      else if r < 2048 then [192 + r div 64, 128 + r mod 64]
      else if r < 65536 then [224 + r div 4096, 128 + (r div 64) mod 64, 128 + r mod 64]
      else [240 + r div 262144, 128 + (r div 4096) mod 64, 128 + (r div 64) mod 64, 128 + r mod 64])"

definition utf8_string :: "rune list \<Rightarrow> string" where
  "utf8_string rs = map char_of (concat (map utf8_encode rs))"

definition utf8_len :: "rune list \<Rightarrow> nat" where
  "utf8_len rs = length (concat (map utf8_encode rs))"

section \<open>Policies\<close>

definition MaxPolicies :: nat where "MaxPolicies = 8"

definition MaxPayload :: int where "MaxPayload = 2097152"

datatype guard_error = ErrBlocked | ErrUnsupported | GuardError string

record policy =
  p_Name :: string
  p_Type :: string
  p_Mode :: string
  p_Phase :: string
  p_Terms :: "string list"

definition name_char :: "char \<Rightarrow> bool" where
  "name_char c \<longleftrightarrow> (let n = of_char c :: int in 48 \<le> n \<and> n \<le> 57 \<or> 65 \<le> n \<and> n \<le> 90 \<or> 97 \<le> n \<and> n \<le> 122)"

definition policyName :: "string \<Rightarrow> bool" where
  "policyName s \<longleftrightarrow> s \<noteq> [] \<and> length s \<le> 64 \<and> name_char (hd s)
     \<and> list_all (\<lambda>c. name_char c \<or> c \<in> set ''_.-'') (tl s)"

definition valid_term :: "string \<Rightarrow> bool" where
  "valid_term t \<longleftrightarrow> utf8_runes t \<noteq> None \<and> TrimSpace t \<noteq> [] \<and> length t \<le> 128"

definition Validate_policy :: "policy \<Rightarrow> string + unit" where
  "Validate_policy p =
     (if \<not> policyName (p_Name p) then Inl ''policy name must be 1-64 letters, numbers, dots, underscores or hyphens''
      else if p_Type p \<noteq> ''banned_terms'' then Inl ''only banned_terms policies are supported''
      else if p_Mode p \<noteq> ''block'' \<and> p_Mode p \<noteq> ''redact'' \<and> p_Mode p \<noteq> ''flag'' then Inl ''mode must be block, redact or flag''
      else if p_Phase p \<noteq> ''pre'' \<and> p_Phase p \<noteq> ''post'' \<and> p_Phase p \<noteq> ''both'' then Inl ''phase must be pre, post or both''
      else if p_Terms p = [] \<or> length (p_Terms p) > 32 then Inl ''provide 1-32 literal terms''
      else if \<not> list_all valid_term (p_Terms p) then Inl ''terms must be nonempty UTF-8, at most 128 bytes each''
      else Inr ())"

fun validate_all :: "string list \<Rightarrow> policy list \<Rightarrow> string + unit" where
  "validate_all seen [] = Inr ()"
| "validate_all seen (p # ps) =
     (case Validate_policy p of
        Inl err \<Rightarrow> Inl err
      | Inr _ \<Rightarrow> if p_Name p \<in> set seen then Inl ''duplicate policy name'' else validate_all (p_Name p # seen) ps)"

text \<open>\<open>Decode\<close>: \<open>raw_len\<close> is the length of the configuration, and \<open>parsed\<close> what the JSON decoder makes of it:
  an error, or the policies and whether anything follows them.\<close>

definition Decode_policies :: "int \<Rightarrow> bool \<Rightarrow> string + policy list \<times> bool \<Rightarrow> string + policy list" where
  "Decode_policies raw_len starts_array parsed =
     (if \<not> starts_array then Inl ''policies must be a JSON array''
      else if raw_len > 65536 then Inl ''guardrail configuration exceeds 64 KiB''
      else (case parsed of
              Inl err \<Rightarrow> Inl err
            | Inr (policies, trailing) \<Rightarrow>
                if trailing then Inl ''trailing configuration data''
                else if length policies > MaxPolicies then Inl ''maximum eight policies per scope''
                else (case validate_all [] policies of Inl err \<Rightarrow> Inl err | Inr _ \<Rightarrow> Inr policies)))"

section \<open>The filter\<close>

record rule =
  ru_policy :: policy
  ru_patterns :: "rune list list"
  ru_result :: string

record text_filter =
  fl_rules :: "rule list"
  fl_phase :: string
  fl_hold :: nat
  fl_pending :: "rune list"

text \<open>\<open>regexp.MustCompile\<close> panics on a term that is not UTF-8.\<close>

definition new_rule :: "policy \<Rightarrow> rule may_panic" where
  "new_rule p =
     (if list_ex (\<lambda>t. utf8_runes t = None) (p_Terms p) then Inl (Panic ''regexp: Compile'')
      else Inr \<lparr>ru_policy = p, ru_patterns = map (\<lambda>t. the (utf8_runes t)) (p_Terms p), ru_result = ''not_evaluated''\<rparr>)"

definition applies_in :: "string \<Rightarrow> policy \<Rightarrow> bool" where
  "applies_in phase p \<longleftrightarrow> p_Phase p = phase \<or> p_Phase p = ''both''"

fun new_rules :: "policy list \<Rightarrow> rule list may_panic" where
  "new_rules [] = Inr []"
| "new_rules (p # ps) =
     (case new_rule p of
        Inl e \<Rightarrow> Inl e
      | Inr r \<Rightarrow> (case new_rules ps of Inl e \<Rightarrow> Inl e | Inr rs \<Rightarrow> Inr (r # rs)))"

definition New_filter :: "policy list \<Rightarrow> string \<Rightarrow> text_filter may_panic" where
  "New_filter policies phase =
     (case new_rules (filter (applies_in phase) policies) of
        Inl e \<Rightarrow> Inl e
      | Inr rs \<Rightarrow> Inr \<lparr>fl_rules = rs, fl_phase = phase,
                      fl_hold = fold max (map (\<lambda>t. length t - 1) (concat (map ru_patterns rs))) 0,
                      fl_pending = []\<rparr>)"

record guard_result =
  gr_Name :: string
  gr_Phase :: string
  gr_Decision :: string

definition Results :: "text_filter \<Rightarrow> guard_result list" where
  "Results f = map (\<lambda>r. \<lparr>gr_Name = p_Name (ru_policy r), gr_Phase = fl_phase f, gr_Decision = ru_result r\<rparr>) (fl_rules f)"

text \<open>A term matches at the front of a text; the leftmost match; and the loop over the matches, each search
  starting where the last match ended. A term is not empty (\<open>Validate\<close>); on an empty one the loop of the
  source would not advance.\<close>

definition term_at :: "(rune \<Rightarrow> rune) \<Rightarrow> rune list \<Rightarrow> rune list \<Rightarrow> bool" where
  "term_at fold_rune t s \<longleftrightarrow> map fold_rune (take (length t) s) = map fold_rune t"

fun FindStringIndex :: "(rune \<Rightarrow> rune) \<Rightarrow> rune list \<Rightarrow> rune list \<Rightarrow> nat option" where
  "FindStringIndex fold_rune t [] = (if t = [] then Some 0 else None)"
| "FindStringIndex fold_rune t (c # s) =
     (if term_at fold_rune t (c # s) then Some 0 else map_option Suc (FindStringIndex fold_rune t s))"

function match_starts :: "(rune \<Rightarrow> rune) \<Rightarrow> rune list \<Rightarrow> rune list \<Rightarrow> nat \<Rightarrow> nat list" where
  "match_starts fold_rune t s pos =
     (if pos < length s \<and> t \<noteq> []
      then (case FindStringIndex fold_rune t (drop pos s) of
              None \<Rightarrow> []
            | Some m \<Rightarrow> (pos + m) # match_starts fold_rune t s (pos + m + length t))
      else [])"
  by pat_completeness auto
termination by (relation "measure (\<lambda>(_, _, s, pos). length s - pos)") (auto simp: length_greater_0_conv [symmetric] simp del: length_greater_0_conv)

declare match_starts.simps [simp del]

definition mark_spans :: "nat list \<Rightarrow> nat \<Rightarrow> bool list \<Rightarrow> bool list" where
  "mark_spans starts n msk = map (\<lambda>i. msk ! i \<or> list_ex (\<lambda>a. a \<le> i \<and> i < a + n) starts) [0..<length msk]"

text \<open>The patterns of one rule: its result, the mask, and whether it blocks.\<close>

fun eval_patterns ::
  "(rune \<Rightarrow> rune) \<Rightarrow> string \<Rightarrow> rune list \<Rightarrow> rune list list \<Rightarrow> string \<Rightarrow> bool list \<Rightarrow> bool \<times> string \<times> bool list" where
  "eval_patterns fold_rune mode s [] result msk = (False, result, msk)"
| "eval_patterns fold_rune mode s (t # ts) result msk =
     (let starts = match_starts fold_rune t s 0 in
      if starts = [] then eval_patterns fold_rune mode s ts result msk
      else if mode = ''block'' then (True, mode, msk)
      else eval_patterns fold_rune mode s ts mode (if mode = ''redact'' then mark_spans starts (length t) msk else msk))"

fun eval_rules :: "(rune \<Rightarrow> rune) \<Rightarrow> rune list \<Rightarrow> rule list \<Rightarrow> bool list \<Rightarrow> bool \<times> rule list \<times> bool list" where
  "eval_rules fold_rune s [] msk = (False, [], msk)"
| "eval_rules fold_rune s (r # rs) msk =
     (let result = (if ru_result r = ''not_evaluated'' then ''allow'' else ru_result r) in
      (case eval_patterns fold_rune (p_Mode (ru_policy r)) s (ru_patterns r) result msk of
         (True, result', msk') \<Rightarrow> (True, r\<lparr>ru_result := result'\<rparr> # rs, msk')
       | (False, result', msk') \<Rightarrow>
           (case eval_rules fold_rune s rs msk' of
              (blocked, rs', msk'') \<Rightarrow> (blocked, r\<lparr>ru_result := result'\<rparr> # rs', msk''))))"

text \<open>The whole union of overlapping redactions is held back at the boundary.\<close>

fun hold_union :: "bool list \<Rightarrow> nat \<Rightarrow> nat" where
  "hold_union msk 0 = 0"
| "hold_union msk (Suc k) =
     (if Suc k < length msk \<and> msk ! k \<and> msk ! Suc k then hold_union msk k else Suc k)"

definition REDACTED :: "rune list" where
  "REDACTED = map of_char ''[REDACTED]''"

fun render :: "(rune \<times> bool) list \<Rightarrow> rune list" where
  "render [] = []"
| "render ((c, False) # xs) = c # render xs"
| "render ((c, True) # xs) = (case xs of (_, True) # _ \<Rightarrow> render xs | _ \<Rightarrow> REDACTED @ render xs)"

definition push_runes ::
  "(rune \<Rightarrow> rune) \<Rightarrow> rune list \<Rightarrow> bool \<Rightarrow> text_filter \<Rightarrow> (guard_error + rune list) \<times> text_filter" where
  "push_runes fold_rune text final f =
     (let s = fl_pending f @ text;
          k0 = (if final then length s else length s - fl_hold f)
      in (case eval_rules fold_rune s (fl_rules f) (replicate (length s) False) of
            (True, rules, _) \<Rightarrow> (Inl ErrBlocked, f\<lparr>fl_rules := rules\<rparr>)
          | (False, rules, msk) \<Rightarrow>
              let k = hold_union msk k0;
                  out = render (zip (take k s) msk);
                  f1 = f\<lparr>fl_rules := rules\<rparr>;
                  f2 = f1\<lparr>fl_pending := drop k s\<rparr>
              in if int (utf8_len out) > MaxPayload then (Inl (GuardError ''guardrail redacted output exceeds byte limit''), f1)
                 else if int (utf8_len (drop k s)) > 1024 then (Inl (GuardError ''guardrail lookbehind capacity exceeded''), f2)
                 else (Inr out, f2)))"

definition Push :: "(rune \<Rightarrow> rune) \<Rightarrow> string \<Rightarrow> bool \<Rightarrow> text_filter \<Rightarrow> (guard_error + string) \<times> text_filter" where
  "Push fold_rune text final f =
     (case utf8_runes text of
        None \<Rightarrow> (Inl ErrUnsupported, f)
      | Some rs \<Rightarrow>
          if int (length text) > MaxPayload then (Inl ErrUnsupported, f)
          else (case push_runes fold_rune rs final f of
                  (Inl e, f') \<Rightarrow> (Inl e, f')
                | (Inr out, f') \<Rightarrow> (Inr (utf8_string out), f')))"

definition Text_filter :: "(rune \<Rightarrow> rune) \<Rightarrow> string \<Rightarrow> text_filter \<Rightarrow> (guard_error + string) \<times> text_filter" where
  "Text_filter fold_rune s f = Push fold_rune s True f"

definition Complete :: "text_filter \<Rightarrow> guard_error + unit" where
  "Complete f = (if fl_pending f \<noteq> [] then Inl (GuardError ''guardrail stream missing finish event'') else Inr ())"

section \<open>Envelopes\<close>

text \<open>The fields of an object, if every one is allowed. A raw message that is not there does not decode.\<close>

definition object_fields :: "string \<Rightarrow> json option \<Rightarrow> guard_error + (string \<times> json) list" where
  "object_fields allowed raw =
     (case raw of
        Some (J_obj fs) \<Rightarrow>
          if list_all (\<lambda>(k, _). str_contains ('' '' @ allowed @ '' '') ('' '' @ k @ '' '')) fs then Inr fs else Inl ErrUnsupported
      | _ \<Rightarrow> Inl ErrUnsupported)"

definition put_field :: "string \<Rightarrow> json \<Rightarrow> (string \<times> json) list \<Rightarrow> (string \<times> json) list" where
  "put_field k v fs = (if k \<in> fst ` set fs then map (\<lambda>(k', v'). if k' = k then (k', v) else (k', v')) fs else fs @ [(k, v)])"

definition request_fields :: string where
  "request_fields = ''model messages stream stream_options temperature max_tokens max_completion_tokens top_p stop n presence_penalty frequency_penalty seed user''"

definition chat_roles :: "string list" where
  "chat_roles = [''system'', ''developer'', ''user'', ''assistant'']"

definition guard_message :: "(rune \<Rightarrow> rune) \<Rightarrow> json \<Rightarrow> text_filter \<Rightarrow> (guard_error + json) \<times> text_filter" where
  "guard_message fold_rune m f =
     (case object_fields ''role content'' (Some m) of
        Inl e \<Rightarrow> (Inl e, f)
      | Inr fs \<Rightarrow>
          (case (map_of fs ''role'', map_of fs ''content'') of
             (Some (J_str role), Some (J_str content)) \<Rightarrow>
               if role \<notin> set chat_roles then (Inl ErrUnsupported, f)
               else (case Text_filter fold_rune content f of
                       (Inl e, f') \<Rightarrow> (Inl e, f')
                     | (Inr content', f') \<Rightarrow> (Inr (J_obj (put_field ''content'' (J_str content') fs)), f'))
           | _ \<Rightarrow> (Inl ErrUnsupported, f)))"

fun guard_messages :: "(rune \<Rightarrow> rune) \<Rightarrow> json list \<Rightarrow> text_filter \<Rightarrow> (guard_error + json list) \<times> text_filter" where
  "guard_messages fold_rune [] f = (Inr [], f)"
| "guard_messages fold_rune (m # ms) f =
     (case guard_message fold_rune m f of
        (Inl e, f') \<Rightarrow> (Inl e, f')
      | (Inr m', f') \<Rightarrow>
          (case guard_messages fold_rune ms f' of
             (Inl e, f'') \<Rightarrow> (Inl e, f'')
           | (Inr ms', f'') \<Rightarrow> (Inr (m' # ms'), f'')))"

text \<open>\<open>Request\<close>: \<open>raw_ok\<close> says that the body is within \<open>MaxPayload\<close> and valid UTF-8, \<open>raw\<close> is what it decodes to.\<close>

definition Request :: "(rune \<Rightarrow> rune) \<Rightarrow> bool \<Rightarrow> json option \<Rightarrow> text_filter \<Rightarrow> (guard_error + json) \<times> text_filter" where
  "Request fold_rune raw_ok raw f =
     (if \<not> raw_ok then (Inl ErrUnsupported, f)
      else (case object_fields request_fields raw of
        Inl e \<Rightarrow> (Inl e, f)
      | Inr m \<Rightarrow>
          if (case map_of m ''n'' of None \<Rightarrow> False | Some n \<Rightarrow> n \<noteq> J_num 1) then (Inl ErrUnsupported, f)
          else (case map_of m ''messages'' of
                  Some (J_arr (m0 # ms)) \<Rightarrow>
                    (case guard_messages fold_rune (m0 # ms) f of
                       (Inl e, f') \<Rightarrow> (Inl e, f')
                     | (Inr ms', f') \<Rightarrow> (Inr (J_obj (put_field ''messages'' (J_arr ms') m)), f'))
                | _ \<Rightarrow> (Inl ErrUnsupported, f))))"

definition present :: "json option \<Rightarrow> bool" where
  "present v \<longleftrightarrow> v \<noteq> None \<and> v \<noteq> Some J_null"

text \<open>One choice of a response or of a stream event. \<open>Inl ErrUnsupported\<close> wherever a field could carry content that
  is not filtered.\<close>

definition guard_choice :: "(rune \<Rightarrow> rune) \<Rightarrow> bool \<Rightarrow> json \<Rightarrow> text_filter \<Rightarrow> (guard_error + json) \<times> text_filter" where
  "guard_choice fold_rune streaming c f =
     (case object_fields ''index message delta finish_reason logprobs'' (Some c) of
        Inl e \<Rightarrow> (Inl e, f)
      | Inr choice \<Rightarrow>
          let field = (if streaming then ''delta'' else ''message'');
              other = (if streaming then ''message'' else ''delta'')
          in if (case map_of choice ''index'' of None \<Rightarrow> False | Some v \<Rightarrow> v \<noteq> J_num 0) then (Inl ErrUnsupported, f)
             else if present (map_of choice ''logprobs'') then (Inl ErrUnsupported, f)
             else if map_of choice other \<noteq> None then (Inl ErrUnsupported, f)
             else (case object_fields ''role content refusal'' (map_of choice field) of
               Inl e \<Rightarrow> (Inl e, f)
             | Inr msg \<Rightarrow>
                 if present (map_of msg ''refusal'') then (Inl ErrUnsupported, f)
                 else (case (if present (map_of msg ''content'') then as_string (the (map_of msg ''content'')) else Some []) of
                         None \<Rightarrow> (Inl ErrUnsupported, f)
                       | Some content \<Rightarrow>
                           if present (map_of choice ''finish_reason'')
                              \<and> the (map_of choice ''finish_reason'') \<notin> J_str ` set [''stop'', ''length'', ''content_filter'']
                           then (Inl ErrUnsupported, f)
                           else (case Push fold_rune content (\<not> streaming \<or> present (map_of choice ''finish_reason'')) f of
                                   (Inl e, f') \<Rightarrow> (Inl e, f')
                                 | (Inr content', f') \<Rightarrow>
                                     (Inr (J_obj (put_field field (J_obj (put_field ''content'' (J_str content') msg)) choice)), f')))))"

definition Response :: "(rune \<Rightarrow> rune) \<Rightarrow> bool \<Rightarrow> json option \<Rightarrow> bool \<Rightarrow> text_filter \<Rightarrow> (guard_error + json) \<times> text_filter" where
  "Response fold_rune raw_ok raw streaming f =
     (if \<not> raw_ok then (Inl ErrUnsupported, f)
      else (case object_fields ''id object created model choices usage system_fingerprint service_tier'' raw of
        Inl e \<Rightarrow> (Inl e, f)
      | Inr m \<Rightarrow>
          (case map_of m ''choices'' of
             Some J_null \<Rightarrow> (Inr (J_obj m), f)
           | Some (J_arr []) \<Rightarrow> (Inr (J_obj m), f)
           | Some (J_arr [c]) \<Rightarrow>
               (case guard_choice fold_rune streaming c f of
                  (Inl e, f') \<Rightarrow> (Inl e, f')
                | (Inr c', f') \<Rightarrow> (Inr (J_obj (put_field ''choices'' (J_arr [c']) m)), f'))
           | _ \<Rightarrow> (Inl ErrUnsupported, f))))"

section \<open>Matches\<close>

definition occurs :: "(rune \<Rightarrow> rune) \<Rightarrow> rune list \<Rightarrow> rune list \<Rightarrow> nat \<Rightarrow> bool" where
  "occurs fold_rune t s a \<longleftrightarrow> a + length t \<le> length s \<and> term_at fold_rune t (drop a s)"

lemma term_at_length: "term_at fold_rune t s \<Longrightarrow> length t \<le> length s"
  by (metis length_map length_take min_def nle_le term_at_def)

lemma occurs_iff_term_at: "t \<noteq> [] \<Longrightarrow> occurs fold_rune t s a \<longleftrightarrow> term_at fold_rune t (drop a s)"
  using term_at_length [of fold_rune t "drop a s"] by (cases t) (auto simp: occurs_def)

text \<open>An occurrence is where its text is, whatever surrounds it.\<close>

lemma occurs_shift: "occurs fold_rune t (xs @ s) (length xs + a) \<longleftrightarrow> occurs fold_rune t s a"
  by (auto simp: occurs_def)

lemma occurs_append: "a + length t \<le> length s \<Longrightarrow> occurs fold_rune t (s @ ys) a \<longleftrightarrow> occurs fold_rune t s a"
  by (auto simp: occurs_def term_at_def)

lemma FindStringIndex_leftmost:
  assumes "term_at fold_rune t (drop a s)" and "t \<noteq> []"
  shows "\<exists>m \<le> a. FindStringIndex fold_rune t s = Some m"
  using assms
proof (induction s arbitrary: a)
  case Nil
  then show ?case using term_at_length by fastforce
next
  case (Cons c s)
  then show ?case
  proof (cases a)
    case (Suc a')
    then obtain m where "m \<le> a'" "FindStringIndex fold_rune t s = Some m" using Cons by auto
    then show ?thesis using Suc by auto
  qed auto
qed

lemma FindStringIndex_Some: "FindStringIndex fold_rune t s = Some m \<Longrightarrow> term_at fold_rune t (drop m s)"
  by (induction s arbitrary: m) (auto simp: term_at_def split: if_splits)

text \<open>The first rune of every occurrence lies in a match: it starts one, or an earlier match covers it.\<close>

lemma match_starts_cover:
  assumes "occurs fold_rune t s a" and "t \<noteq> []" and "pos \<le> a"
  shows "\<exists>b \<in> set (match_starts fold_rune t s pos). b \<le> a \<and> a < b + length t"
  using assms
proof (induction fold_rune t s pos rule: match_starts.induct)
  case (1 fold_rune t s pos)
  have pos: "pos < length s" using 1(2,3,4) by (cases t) (auto simp: occurs_def)
  have "term_at fold_rune t (drop (a - pos) (drop pos s))" using 1(2,4) by (simp add: occurs_def)
  from FindStringIndex_leftmost [OF this 1(3)] obtain m where
    m: "m \<le> a - pos" "FindStringIndex fold_rune t (drop pos s) = Some m" by blast
  have unfold: "match_starts fold_rune t s pos = (pos + m) # match_starts fold_rune t s (pos + m + length t)"
    using pos 1(3) m(2) by (subst match_starts.simps) simp
  show ?case
  proof (cases "a < pos + m + length t")
    case True
    then show ?thesis using m(1) 1(4) unfold by auto
  next
    case False
    then show ?thesis using 1(1) pos 1(2,3) m unfold by auto
  qed
qed

lemma match_starts_sound: "b \<in> set (match_starts fold_rune t s pos) \<Longrightarrow> occurs fold_rune t s b"
proof (induction fold_rune t s pos rule: match_starts.induct)
  case (1 fold_rune t s pos)
  show ?case
  proof (cases "pos < length s \<and> t \<noteq> []")
    case True
    then obtain m where m: "FindStringIndex fold_rune t (drop pos s) = Some m"
      and b: "b = pos + m \<or> b \<in> set (match_starts fold_rune t s (pos + m + length t))"
      using 1(2) match_starts.simps [of fold_rune t s pos] by (auto split: option.splits)
    show ?thesis
      using b 1(1) [OF True m] True FindStringIndex_Some [OF m] by (auto simp: occurs_iff_term_at add.commute)
  next
    case False
    then have "match_starts fold_rune t s pos = []" by (subst match_starts.simps) auto
    then show ?thesis using 1(2) by simp
  qed
qed

lemma match_starts_Nil:
  assumes "t \<noteq> []"
  shows "match_starts fold_rune t s 0 = [] \<longleftrightarrow> (\<forall>a. \<not> occurs fold_rune t s a)"
proof (cases "match_starts fold_rune t s 0")
  case Nil
  then show ?thesis using match_starts_cover [OF _ assms, of fold_rune s _ 0] by auto
next
  case (Cons b bs)
  then show ?thesis using match_starts_sound [of b fold_rune t s 0] by auto
qed

section \<open>Masks\<close>

lemma length_mark_spans [simp]: "length (mark_spans starts n msk) = length msk"
  by (simp add: mark_spans_def)

lemma mark_spans_mono: "i < length msk \<Longrightarrow> msk ! i \<Longrightarrow> mark_spans starts n msk ! i"
  by (simp add: mark_spans_def)

lemma eval_patterns_mask:
  assumes "eval_patterns fold_rune mode s ts result msk = (b, result', msk')"
  shows "length msk' = length msk \<and> (\<forall>i < length msk. msk ! i \<longrightarrow> msk' ! i)"
  using assms
proof (induction ts arbitrary: result msk)
  case (Cons t ts)
  show ?case using Cons.IH [of mode] Cons.IH [of result] Cons.prems
    by (fastforce simp: Let_def mark_spans_mono split: if_splits)
qed simp

text \<open>What a rule that does not block guarantees of the text it has seen.\<close>

lemma eval_patterns_ok:
  assumes "eval_patterns fold_rune mode s ts result msk = (False, result', msk')" and "length msk = length s"
    and "t \<in> set ts" and "t \<noteq> []" and "occurs fold_rune t s a"
  shows "mode \<noteq> ''block'' \<and> (mode = ''redact'' \<longrightarrow> msk' ! a)"
  using assms
proof (induction ts arbitrary: result msk)
  case (Cons u ts)
  let ?starts = "match_starts fold_rune u s 0"
  show ?case
  proof (cases "t = u")
    case True
    then have ne: "?starts \<noteq> []" using Cons.prems(4,5) match_starts_Nil by blast
    have a: "a < length msk" using Cons.prems(2,4,5) by (cases t) (auto simp: occurs_def)
    obtain b where "b \<in> set ?starts" "b \<le> a" "a < b + length u"
      using match_starts_cover [of fold_rune u s a 0] Cons.prems(4,5) True by auto
    then have hit: "mark_spans ?starts (length u) msk ! a" using a by (auto simp: mark_spans_def list_ex_iff)
    from Cons.prems(1) ne have blk: "mode \<noteq> ''block''"
      and rest: "eval_patterns fold_rune mode s ts mode (if mode = ''redact'' then mark_spans ?starts (length u) msk else msk)
        = (False, result', msk')"
      by (auto simp: Let_def split: if_splits)
    then show ?thesis using eval_patterns_mask [OF rest] hit a by (auto split: if_splits)
  next
    case False
    then have t: "t \<in> set ts" using Cons.prems(3) by simp
    show ?thesis using Cons.IH [OF _ _ t Cons.prems(4,5)] Cons.prems(1,2) by (auto simp: Let_def split: if_splits)
  qed
qed simp

lemma eval_rules_mask:
  assumes "eval_rules fold_rune s rs msk = (b, rs', msk')"
  shows "length msk' = length msk \<and> (\<forall>i < length msk. msk ! i \<longrightarrow> msk' ! i)"
  using assms
proof (induction rs arbitrary: msk rs')
  case (Cons r rs)
  obtain b1 res1 msk1 where e: "eval_patterns fold_rune (p_Mode (ru_policy r)) s (ru_patterns r)
      (if ru_result r = ''not_evaluated'' then ''allow'' else ru_result r) msk = (b1, res1, msk1)"
    using prod_cases3 by blast
  show ?case using Cons.prems e eval_patterns_mask [OF e] Cons.IH
    by (cases b1) (fastforce simp: Let_def split: prod.splits)+
qed simp

definition patterns_of :: "rule list \<Rightarrow> (string \<times> rune list) set" where
  "patterns_of rs = {(p_Mode (ru_policy r), t) | r t. r \<in> set rs \<and> t \<in> set (ru_patterns r)}"

lemma patterns_of_Cons: "patterns_of (r # rs) = {(p_Mode (ru_policy r), t) | t. t \<in> set (ru_patterns r)} \<union> patterns_of rs"
  by (auto simp: patterns_of_def)

lemma eval_rules_patterns: "eval_rules fold_rune s rs msk = (b, rs', msk') \<Longrightarrow> patterns_of rs' = patterns_of rs"
proof (induction rs arbitrary: msk rs')
  case (Cons r rs)
  obtain b1 res1 msk1 where e: "eval_patterns fold_rune (p_Mode (ru_policy r)) s (ru_patterns r)
      (if ru_result r = ''not_evaluated'' then ''allow'' else ru_result r) msk = (b1, res1, msk1)"
    using prod_cases3 by blast
  obtain b2 rs2 msk2 where e2: "eval_rules fold_rune s rs msk1 = (b2, rs2, msk2)" using prod_cases3 by blast
  show ?case using Cons.prems e e2 Cons.IH [OF _] by (cases b1) (auto simp: Let_def patterns_of_Cons)
qed simp

lemma eval_rules_ok:
  assumes "eval_rules fold_rune s rs msk = (False, rs', msk')" and "length msk = length s"
    and "(mode, t) \<in> patterns_of rs" and "t \<noteq> []" and "occurs fold_rune t s a"
  shows "mode \<noteq> ''block'' \<and> (mode = ''redact'' \<longrightarrow> msk' ! a)"
  using assms
proof (induction rs arbitrary: msk rs')
  case Nil
  then show ?case by (simp add: patterns_of_def)
next
  case (Cons r rs)
  obtain b1 res1 msk1 where e: "eval_patterns fold_rune (p_Mode (ru_policy r)) s (ru_patterns r)
      (if ru_result r = ''not_evaluated'' then ''allow'' else ru_result r) msk = (b1, res1, msk1)"
    using prod_cases3 by blast
  obtain b2 rs2 msk2 where e2: "eval_rules fold_rune s rs msk1 = (b2, rs2, msk2)" using prod_cases3 by blast
  from Cons.prems(1) e e2 have no: "\<not> b1" "\<not> b2" "msk2 = msk'" by (auto simp: Let_def split: bool.splits)
  note grow = eval_patterns_mask [OF e] eval_rules_mask [OF e2]
  have a: "a < length msk" using Cons.prems(2,4,5) by (cases t) (auto simp: occurs_def)
  from Cons.prems(3) consider "mode = p_Mode (ru_policy r)" "t \<in> set (ru_patterns r)" | "(mode, t) \<in> patterns_of rs"
    by (auto simp: patterns_of_Cons)
  then show ?case
  proof cases
    case 1
    then show ?thesis using eval_patterns_ok [of fold_rune mode s "ru_patterns r" _ msk _ msk1 t a] e no grow a Cons.prems(2,4,5) by auto
  next
    case 2
    then show ?thesis using Cons.IH [of msk1 rs2] e2 no grow Cons.prems(2,4,5) by simp
  qed
qed

lemma hold_union_le: "hold_union msk k \<le> k"
  by (induction msk k rule: hold_union.induct) auto

section \<open>A text that arrives in pieces\<close>

fun push_all :: "(rune \<Rightarrow> rune) \<Rightarrow> rune list list \<Rightarrow> text_filter \<Rightarrow> guard_error + rune list list" where
  "push_all fold_rune [] f = Inr []"
| "push_all fold_rune (c # cs) f =
     (case push_runes fold_rune c (cs = []) f of
        (Inl e, f') \<Rightarrow> Inl e
      | (Inr out, f') \<Rightarrow> (case push_all fold_rune cs f' of Inl e \<Rightarrow> Inl e | Inr outs \<Rightarrow> Inr (out # outs)))"

text \<open>\<open>E\<close> is what has been emitted, each rune with its flag, and \<open>C\<close> the text received. No term that blocks starts
  in what has been emitted, and every term that redacts has its first rune flagged there.\<close>

definition covered :: "(rune \<Rightarrow> rune) \<Rightarrow> (string \<times> rune list) set \<Rightarrow> (rune \<times> bool) list \<Rightarrow> rune list \<Rightarrow> bool" where
  "covered fold_rune pats E C \<longleftrightarrow>
     (\<forall>(mode, t) \<in> pats. \<forall>a < length E. occurs fold_rune t C a \<longrightarrow> mode \<noteq> ''block'' \<and> (mode = ''redact'' \<longrightarrow> snd (E ! a)))"

definition filter_ok :: "text_filter \<Rightarrow> bool" where
  "filter_ok f \<longleftrightarrow> (\<forall>(mode, t) \<in> patterns_of (fl_rules f). t \<noteq> [] \<and> length t \<le> fl_hold f + 1)"

definition tracked :: "(rune \<Rightarrow> rune) \<Rightarrow> (rune \<times> bool) list \<Rightarrow> rune list \<Rightarrow> text_filter \<Rightarrow> bool" where
  "tracked fold_rune E C f \<longleftrightarrow> filter_ok f \<and> map fst E @ fl_pending f = C
     \<and> (E \<noteq> [] \<longrightarrow> fl_hold f \<le> length (fl_pending f)) \<and> covered fold_rune (patterns_of (fl_rules f)) E C"

lemma push_runes_tracked:
  assumes push: "push_runes fold_rune c final f = (Inr out, f')" and tr: "tracked fold_rune E C f"
  obtains seg where "out = render seg" and "map fst (E @ seg) @ fl_pending f' = C @ c"
    and "covered fold_rune (patterns_of (fl_rules f')) (E @ seg) (C @ c)" and "patterns_of (fl_rules f') = patterns_of (fl_rules f)"
    and "final \<Longrightarrow> fl_pending f' = []" and "\<not> final \<Longrightarrow> tracked fold_rune (E @ seg) (C @ c) f'"
proof -
  define s where "s = fl_pending f @ c"
  define k0 where "k0 = (if final then length s else length s - fl_hold f)"
  obtain b rules msk where e: "eval_rules fold_rune s (fl_rules f) (replicate (length s) False) = (b, rules, msk)"
    using prod_cases3 by blast
  define k where "k = hold_union msk k0"
  define seg where "seg = zip (take k s) msk"
  from push e have b: "\<not> b" and out: "out = render seg" and f': "f' = f\<lparr>fl_rules := rules, fl_pending := drop k s\<rparr>"
    by (auto simp: push_runes_def Let_def s_def [symmetric] k0_def [symmetric] k_def seg_def split: bool.splits if_splits)
  have msk: "length msk = length s" using eval_rules_mask [OF e] by simp
  have k: "k \<le> k0" "k0 \<le> length s" by (simp_all add: k_def hold_union_le k0_def)
  have seg: "length seg = k" "map fst seg = take k s" "\<And>i. i < k \<Longrightarrow> snd (seg ! i) = msk ! i"
    using k msk by (simp_all add: seg_def map_fst_zip_take min_def)
  have C: "C @ c = map fst E @ s" using tr by (auto simp: tracked_def s_def)
  note pats = eval_rules_patterns [OF e]
  have cov: "covered fold_rune (patterns_of rules) (E @ seg) (C @ c)"
    unfolding covered_def
  proof (intro ballI allI impI, clarify)
    fix mode t a assume t: "(mode, t) \<in> patterns_of rules" and a: "a < length (E @ seg)" and occ: "occurs fold_rune t (C @ c) a"
    have ok: "t \<noteq> []" "length t \<le> fl_hold f + 1" using t pats tr by (auto simp: tracked_def filter_ok_def)
    show "mode \<noteq> ''block'' \<and> (mode = ''redact'' \<longrightarrow> snd ((E @ seg) ! a))"
    proof (cases "a < length E")
      case True
      then have "fl_hold f \<le> length (fl_pending f)" "length C = length E + length (fl_pending f)"
        using tr by (auto simp: tracked_def)
      then have "a + length t \<le> length C" using True ok(2) by linarith
      then have "occurs fold_rune t C a" using occ occurs_append by blast
      then show ?thesis using tr True t pats by (auto simp: tracked_def covered_def nth_append)
    next
      case False
      then obtain a' where a': "a = length E + a'" "a' < k" using a seg(1) by (metis add_diff_inverse_nat length_append nat_add_left_cancel_less)
      have "occurs fold_rune t s a'"
        using occ occurs_shift [of fold_rune t "map fst E" s a'] unfolding C a'(1) by simp
      then show ?thesis
        using eval_rules_ok [of fold_rune s "fl_rules f" _ rules msk mode t a'] e b t pats ok(1) seg(3) [OF a'(2)] a' by simp
    qed
  qed
  have hold: "fl_hold f \<le> length (drop k s)" if "E @ seg \<noteq> []" "\<not> final"
  proof (cases "k = 0")
    case True
    then have "E \<noteq> []" using that(1) seg(1) by auto
    then have "fl_hold f \<le> length (fl_pending f)" using tr by (simp add: tracked_def)
    then show ?thesis using True by (simp add: s_def)
  next
    case False
    then show ?thesis using k that(2) by (simp add: k0_def)
  qed
  show thesis
  proof (rule that [of seg])
    show "map fst (E @ seg) @ fl_pending f' = C @ c" using C seg(2) f' by simp
    then show "tracked fold_rune (E @ seg) (C @ c) f'" if "\<not> final"
      using that tr cov pats f' hold by (simp add: tracked_def filter_ok_def)
    show "fl_pending f' = []" if final
    proof -
      have "k = length s" using that msk by (cases "length s") (simp_all add: k_def k0_def)
      then show ?thesis using f' by simp
    qed
  qed (use out cov pats f' in simp_all)
qed

lemma push_all_covered:
  assumes "push_all fold_rune cs f = Inr outs" and "cs \<noteq> []" and "tracked fold_rune E C f"
  shows "\<exists>segs. outs = map render segs \<and> map fst (E @ concat segs) = C @ concat cs
    \<and> covered fold_rune (patterns_of (fl_rules f)) (E @ concat segs) (C @ concat cs)"
  using assms
proof (induction cs arbitrary: f E C outs)
  case (Cons c cs)
  from Cons.prems(1) obtain out f' outs' where push: "push_runes fold_rune c (cs = []) f = (Inr out, f')"
    and rest: "push_all fold_rune cs f' = Inr outs'" and outs: "outs = out # outs'"
    by (auto split: prod.splits sum.splits)
  from push_runes_tracked [OF push Cons.prems(3)] obtain seg where seg: "out = render seg"
    "map fst (E @ seg) @ fl_pending f' = C @ c" "covered fold_rune (patterns_of (fl_rules f')) (E @ seg) (C @ c)"
    "patterns_of (fl_rules f') = patterns_of (fl_rules f)"
    and last: "cs = [] \<Longrightarrow> fl_pending f' = []" and more: "cs \<noteq> [] \<Longrightarrow> tracked fold_rune (E @ seg) (C @ c) f'" by blast
  show ?case
  proof (cases "cs = []")
    case True
    then show ?thesis using seg last rest outs by (intro exI [of _ "[seg]"]) simp
  next
    case False
    from Cons.IH [OF rest False more [OF False]] obtain segs where "outs' = map render segs"
      "map fst ((E @ seg) @ concat segs) = (C @ c) @ concat cs"
      "covered fold_rune (patterns_of (fl_rules f')) ((E @ seg) @ concat segs) ((C @ c) @ concat cs)" by blast
    then show ?thesis using seg outs by (intro exI [of _ "seg # segs"]) simp
  qed
qed simp

section \<open>Filters of valid policies\<close>

definition terms_in :: "string \<Rightarrow> policy list \<Rightarrow> (string \<times> rune list) set" where
  "terms_in phase policies = {(p_Mode p, the (utf8_runes t)) | p t. p \<in> set policies \<and> applies_in phase p \<and> t \<in> set (p_Terms p)}"

lemma Validate_policy_terms: "Validate_policy p = Inr () \<Longrightarrow> list_all valid_term (p_Terms p)"
  by (auto simp: Validate_policy_def split: if_splits)

lemma utf8_runes_nonempty: "utf8_runes t = Some rs \<Longrightarrow> t \<noteq> [] \<Longrightarrow> rs \<noteq> []"
  by (cases t) (auto simp: utf8_runes_def split: if_splits list.splits)

lemma new_rules_valid:
  assumes "\<forall>p \<in> set ps. list_all valid_term (p_Terms p)"
  shows "\<exists>rs. new_rules ps = Inr rs
    \<and> patterns_of rs = {(p_Mode p, the (utf8_runes t)) | p t. p \<in> set ps \<and> t \<in> set (p_Terms p)}"
  using assms
proof (induction ps)
  case Nil
  then show ?case by (simp add: patterns_of_def)
next
  case (Cons p ps)
  then obtain rs where rs: "new_rules ps = Inr rs"
    "patterns_of rs = {(p_Mode p, the (utf8_runes t)) | p t. p \<in> set ps \<and> t \<in> set (p_Terms p)}" by auto
  have "list_all valid_term (p_Terms p)" using Cons.prems by simp
  then have "new_rule p = Inr \<lparr>ru_policy = p, ru_patterns = map (\<lambda>t. the (utf8_runes t)) (p_Terms p), ru_result = ''not_evaluated''\<rparr>"
    by (auto simp: new_rule_def valid_term_def list_all_iff list_ex_iff)
  then show ?case using rs by (auto simp: patterns_of_Cons)
qed

lemma fold_max_ge: "x \<in> set xs \<Longrightarrow> x \<le> fold max xs (a :: nat)" and fold_max_start: "(a :: nat) \<le> fold max xs a"
proof -
  have start: "a \<le> fold max xs a" for a :: nat and xs
    by (induction xs arbitrary: a) (auto intro: max.cobounded2 [THEN order_trans])
  show "a \<le> fold max xs a" by (rule start)
  show "x \<le> fold max xs a" if "x \<in> set xs"
    using that by (induction xs arbitrary: a) (auto intro: max.cobounded1 [THEN order_trans [OF _ start]])
qed

text \<open>\<open>New\<close> does not panic on policies whose terms pass \<open>Validate\<close>, and holds back enough for their longest term.\<close>

lemma New_filter_valid:
  assumes "\<forall>p \<in> set policies. list_all valid_term (p_Terms p)"
  shows "\<exists>f. New_filter policies phase = Inr f \<and> filter_ok f \<and> fl_pending f = []
    \<and> patterns_of (fl_rules f) = terms_in phase policies"
proof -
  from new_rules_valid [of "filter (applies_in phase) policies"] assms obtain rs
    where rs: "new_rules (filter (applies_in phase) policies) = Inr rs" and pats: "patterns_of rs = terms_in phase policies"
    by (auto simp: terms_in_def)
  let ?f = "\<lparr>fl_rules = rs, fl_phase = phase,
      fl_hold = fold max (map (\<lambda>t. length t - 1) (concat (map ru_patterns rs))) 0, fl_pending = []\<rparr>"
  have "filter_ok ?f" unfolding filter_ok_def
  proof clarify
    fix mode t assume t: "(mode, t) \<in> patterns_of (fl_rules ?f)"
    then obtain p u where u: "p \<in> set policies" "u \<in> set (p_Terms p)" "t = the (utf8_runes u)" using pats by (auto simp: terms_in_def)
    then have "valid_term u" using assms by (auto simp: list_all_iff)
    then have "t \<noteq> []" using u(3) utf8_runes_nonempty [of u] by (cases u) (auto simp: valid_term_def)
    moreover have "length t - 1 \<le> fl_hold ?f"
      using t by (auto simp: patterns_of_def intro!: fold_max_ge imageI)
    ultimately show "t \<noteq> [] \<and> length t \<le> fl_hold ?f + 1" by simp
  qed
  then show ?thesis using rs pats by (simp add: New_filter_def)
qed

lemma tracked_fresh: "filter_ok f \<Longrightarrow> fl_pending f = [] \<Longrightarrow> tracked fold_rune [] [] f"
  by (simp add: tracked_def covered_def)

text \<open>C13: Guarding a stream is as strict as guarding the whole text. Whenever every event of a stream passes the
  filter of policies with valid terms, however the text is split into events and whatever the policies' terms are, the output is the
  text with stretches replaced by the marker: no rune is lost, duplicated or reordered, no blocked term occurs anywhere in the
  text, and of every occurrence of a redacted term, also one that crosses events, at least the first rune is replaced.\<close>

theorem streamed_text_is_guarded:
  assumes "\<forall>p \<in> set policies. list_all valid_term (p_Terms p)" and "New_filter policies phase = Inr f"
    and "chunks \<noteq> []" and "push_all fold_rune chunks f = Inr outs"
  shows "\<exists>segs. outs = map render segs \<and> map fst (concat segs) = concat chunks
    \<and> (\<forall>p \<in> set policies. applies_in phase p \<longrightarrow> (\<forall>t \<in> set (p_Terms p). \<forall>a.
         occurs fold_rune (the (utf8_runes t)) (concat chunks) a \<longrightarrow>
         p_Mode p \<noteq> ''block'' \<and> (p_Mode p = ''redact'' \<longrightarrow> snd (concat segs ! a))))"
proof -
  from New_filter_valid [OF assms(1), of phase] assms(2) have f: "filter_ok f" "fl_pending f = []"
    "patterns_of (fl_rules f) = terms_in phase policies" by auto
  from push_all_covered [OF assms(4,3) tracked_fresh [OF f(1,2)]] obtain segs where segs: "outs = map render segs"
    "map fst (concat segs) = concat chunks" "covered fold_rune (terms_in phase policies) (concat segs) (concat chunks)"
    using f(3) by auto
  have "p_Mode p \<noteq> ''block'' \<and> (p_Mode p = ''redact'' \<longrightarrow> snd (concat segs ! a))"
    if p: "p \<in> set policies" "applies_in phase p" "t \<in> set (p_Terms p)"
      and occ: "occurs fold_rune (the (utf8_runes t)) (concat chunks) a" for p t a
  proof -
    have t: "(p_Mode p, the (utf8_runes t)) \<in> terms_in phase policies" using p by (auto simp: terms_in_def)
    then have "the (utf8_runes t) \<noteq> []" using f(1,3) by (auto simp: filter_ok_def)
    then have "a < length (map fst (concat segs))"
      using occ unfolding segs(2) by (cases "the (utf8_runes t)") (auto simp: occurs_def)
    then have "a < length (concat segs)" by simp
    then show ?thesis using segs(3) t occ by (force simp: covered_def)
  qed
  then show ?thesis using segs by blast
qed

definition sample_policy :: policy where
  "sample_policy = \<lparr>p_Name = ''secret'', p_Type = ''banned_terms'', p_Mode = ''redact'', p_Phase = ''both'', p_Terms = [''ab'']\<rparr>"

lemma sample_policy_valid: "Validate_policy sample_policy = Inr ()"
  by code_simp

definition sample_filter :: text_filter where
  "sample_filter = \<lparr>fl_rules = [\<lparr>ru_policy = sample_policy, ru_patterns = [[97, 98]], ru_result = ''not_evaluated''\<rparr>],
     fl_phase = ''post'', fl_hold = 1, fl_pending = []\<rparr>"

lemma sample_filter_New: "New_filter [sample_policy] ''post'' = Inr sample_filter"
  by code_simp

theorem streamed_text_is_guarded_witness:
  "push_all id [[120, 97], [98, 121]] sample_filter = Inr [[120], REDACTED @ [121]]
     \<and> (\<exists>segs. [[120], REDACTED @ [121]] = map render segs \<and> map fst (concat segs) = [120, 97, 98, 121] \<and> snd (concat segs ! 1))"
proof -
  have run: "push_all id [[120, 97], [98, 121]] sample_filter = Inr [[120], REDACTED @ [121]]" by code_simp
  have t: "the (utf8_runes ''ab'') = [97, 98]" "occurs id [97, 98] [120, 97, 98, 121] 1" by code_simp+
  have valid: "\<forall>p \<in> set [sample_policy]. list_all valid_term (p_Terms p)"
    by (simp add: Validate_policy_terms [OF sample_policy_valid])
  have p: "applies_in ''post'' sample_policy" "''ab'' \<in> set (p_Terms sample_policy)" "p_Mode sample_policy = ''redact''"
    by (simp_all add: applies_in_def sample_policy_def)
  have chunks: "[[120, 97], [98, 121 :: rune]] \<noteq> []" "concat [[120, 97], [98, 121 :: rune]] = [120, 97, 98, 121]" by simp_all
  from streamed_text_is_guarded [OF valid sample_filter_New chunks(1) run] obtain segs
    where segs: "[[120], REDACTED @ [121]] = map render segs \<and> map fst (concat segs) = [120, 97, 98, 121]
      \<and> (\<forall>p \<in> set [sample_policy]. applies_in ''post'' p \<longrightarrow> (\<forall>t \<in> set (p_Terms p). \<forall>a.
         occurs id (the (utf8_runes t)) [120, 97, 98, 121] a \<longrightarrow>
         p_Mode p \<noteq> ''block'' \<and> (p_Mode p = ''redact'' \<longrightarrow> snd (concat segs ! a))))"
    unfolding chunks(2) by (rule exE)
  have "snd (concat segs ! 1)"
    using segs [THEN conjunct2, THEN conjunct2, THEN bspec, of sample_policy] p t by (metis list.set_intros(1))
  with run segs show ?thesis by (intro conjI exI [of _ segs]) (elim conjE, assumption)+
qed

section \<open>Guarded requests\<close>

lemma Text_filter_okE:
  assumes "Text_filter fold_rune content f = (Inr content', f')"
  obtains rs out where "utf8_runes content = Some rs" and "push_runes fold_rune rs True f = (Inr out, f')"
    and "content' = utf8_string out"
proof (cases "utf8_runes content")
  case None
  then show thesis using assms by (simp add: Text_filter_def Push_def)
next
  case (Some rs)
  obtain r f1 where push: "push_runes fold_rune rs True f = (r, f1)" by (metis surj_pair)
  show thesis using assms Some push that by (cases r) (auto simp: Text_filter_def Push_def split: if_splits)
qed

lemma push_runes_hold:
  assumes "push_runes fold_rune c final f = (r, f')"
  shows "fl_hold f' = fl_hold f"
proof -
  let ?s = "fl_pending f @ c"
  obtain b rules msk where "eval_rules fold_rune ?s (fl_rules f) (replicate (length ?s) False) = (b, rules, msk)"
    using prod_cases3 by blast
  then show ?thesis using assms by (cases b) (auto simp: push_runes_def Let_def split: if_splits)
qed

lemma Text_filter_guarded:
  assumes "Text_filter fold_rune content f = (Inr content', f')" and "filter_ok f" and "fl_pending f = []"
  shows "\<exists>seg. utf8_runes content = Some (map fst seg) \<and> content' = utf8_string (render seg)
    \<and> covered fold_rune (patterns_of (fl_rules f)) seg (map fst seg)
    \<and> filter_ok f' \<and> fl_pending f' = [] \<and> patterns_of (fl_rules f') = patterns_of (fl_rules f)"
proof -
  from assms(1) obtain rs out where rs: "utf8_runes content = Some rs" and push: "push_runes fold_rune rs True f = (Inr out, f')"
    and content': "content' = utf8_string out"
    by (rule Text_filter_okE)
  from push_runes_tracked [OF push tracked_fresh [OF assms(2,3)]] obtain seg where seg: "out = render seg"
    "map fst ([] @ seg) @ fl_pending f' = [] @ rs" "covered fold_rune (patterns_of (fl_rules f')) ([] @ seg) ([] @ rs)"
    "patterns_of (fl_rules f') = patterns_of (fl_rules f)" "fl_pending f' = []" by blast
  have "filter_ok f'" using assms(2) seg(4) push_runes_hold [OF push] by (simp add: filter_ok_def)
  with seg rs content' show ?thesis by (intro exI [of _ seg]) simp
qed

text \<open>What a guarded message is of the original: the same role, and the content with the flagged runes replaced.\<close>

definition message_guarded :: "(rune \<Rightarrow> rune) \<Rightarrow> (string \<times> rune list) set \<Rightarrow> json \<Rightarrow> json \<Rightarrow> bool" where
  "message_guarded fold_rune pats m m' \<longleftrightarrow> (\<exists>fs role content seg. m = J_obj fs \<and> map_of fs ''role'' = Some (J_str role) \<and> map_of fs ''content'' = Some (J_str content)
     \<and> utf8_runes content = Some (map fst seg) \<and> covered fold_rune pats seg (map fst seg)
     \<and> m' = J_obj (put_field ''content'' (J_str (utf8_string (render seg))) fs))"

lemma guard_message_guarded:
  assumes "guard_message fold_rune m f = (Inr m', f')" and "filter_ok f" and "fl_pending f = []"
  shows "message_guarded fold_rune (patterns_of (fl_rules f)) m m'
    \<and> filter_ok f' \<and> fl_pending f' = [] \<and> patterns_of (fl_rules f') = patterns_of (fl_rules f)"
proof -
  from assms(1) obtain fs role content content' where m: "m = J_obj fs" "map_of fs ''role'' = Some (J_str role)"
    "map_of fs ''content'' = Some (J_str content)"
    and tf: "Text_filter fold_rune content f = (Inr content', f')"
    and m': "m' = J_obj (put_field ''content'' (J_str content') fs)"
    by (auto simp: guard_message_def object_fields_def split: json.splits option.splits sum.splits prod.splits if_splits)
  from Text_filter_guarded [OF tf assms(2,3)] m m' show ?thesis unfolding message_guarded_def by blast
qed

lemma guard_messages_guarded:
  assumes "guard_messages fold_rune ms f = (Inr ms', f')" and "filter_ok f" and "fl_pending f = []"
  shows "list_all2 (message_guarded fold_rune (patterns_of (fl_rules f))) ms ms'"
  using assms
proof (induction ms arbitrary: f ms' f')
  case (Cons m ms)
  then obtain m1 f1 ms1 where g: "guard_message fold_rune m f = (Inr m1, f1)"
    and rest: "guard_messages fold_rune ms f1 = (Inr ms1, f')" and ms': "ms' = m1 # ms1"
    by (auto split: prod.splits sum.splits)
  from guard_message_guarded [OF g Cons.prems(2,3)] show ?case using Cons.IH [OF rest] ms' by simp
qed simp

text \<open>When a request passes the filter, each forwarded message is the original one with only its content rewritten,
  and no field outside the documented ones is forwarded.\<close>

lemma guarded_request_is_filtered:
  assumes "\<forall>p \<in> set policies. list_all valid_term (p_Terms p)" and "New_filter policies ''pre'' = Inr f"
    and "Request fold_rune raw_ok raw f = (Inr body, f')"
  shows "\<exists>m ms ms'. raw = Some (J_obj m) \<and> map_of m ''messages'' = Some (J_arr ms)
    \<and> body = J_obj (put_field ''messages'' (J_arr ms') m)
    \<and> list_all2 (message_guarded fold_rune (terms_in ''pre'' policies)) ms ms'
    \<and> (\<forall>k \<in> fst ` set m. str_contains ('' '' @ request_fields @ '' '') ('' '' @ k @ '' ''))"
proof -
  from New_filter_valid [OF assms(1), of "''pre''"] assms(2) have f: "filter_ok f" "fl_pending f = []"
    "patterns_of (fl_rules f) = terms_in ''pre'' policies" by auto
  from assms(3) obtain m m0 ms ms' f1 where m: "raw = Some (J_obj m)" "map_of m ''messages'' = Some (J_arr (m0 # ms))"
    and g: "guard_messages fold_rune (m0 # ms) f = (Inr ms', f1)" and body: "body = J_obj (put_field ''messages'' (J_arr ms') m)"
    and ok: "list_all (\<lambda>(k, _). str_contains ('' '' @ request_fields @ '' '') ('' '' @ k @ '' '')) m"
    unfolding Request_def object_fields_def
    by (auto simp del: guard_messages.simps split: json.splits option.splits sum.splits prod.splits if_splits list.splits)
  from guard_messages_guarded [OF g f(1,2)] m body ok f(3) show ?thesis by (fastforce simp: list_all_iff)
qed

end
