(* ===== verification/Guardrail_Runtime.thy ===== *)
theory Guardrail_Runtime
  imports Guardrail_Filter
begin

text \<open>
  Guardrails around a request (\<^verbatim>\<open>internal/api/guardrail_runtime.go\<close>) and the policies stored for a team and a
  model alias (\<^verbatim>\<open>internal/store/guardrail_policy.go\<close>). What the database answers is an argument; the table of
  decisions is a list, to which one phase appends its rows in one transaction.
\<close>

section \<open>Stored policies\<close>

definition rename_policy :: "string \<Rightarrow> policy \<Rightarrow> policy" where
  "rename_policy prefix p = p\<lparr>p_Name := prefix @ p_Name p\<rparr>"

text \<open>The rows of the team and of the alias, decoded; whether any alias has a policy is asked only for the empty
  alias.\<close>

definition GuardrailPolicies ::
  "string + (string + policy list) \<times> (string + policy list) \<Rightarrow> string + bool \<Rightarrow> string \<Rightarrow> guard_error + policy list" where
  "GuardrailPolicies row any_alias alias =
     (case row of
        Inl err \<Rightarrow> Inl (GuardError err)
      | Inr (team, model) \<Rightarrow>
          (case team of Inl err \<Rightarrow> Inl (GuardError err) | Inr team_ps \<Rightarrow>
          (case model of Inl err \<Rightarrow> Inl (GuardError err) | Inr model_ps \<Rightarrow>
             (case (if alias = [] then any_alias else Inr False) of
                Inl err \<Rightarrow> Inl (GuardError err)
              | Inr True \<Rightarrow> Inl ErrUnsupported
              | Inr False \<Rightarrow> Inr (map (rename_policy ''team/'') team_ps @ map (rename_policy ''alias/'') model_ps)))))"

text \<open>The replacement of a scope's policies, guarded by the value the editor has seen; \<open>None\<close> where the scope does
  not exist. The mutation and its audit row are one transaction.\<close>

datatype scope_error = BadScope | BadPolicies string | ScopeNotFound | ErrGuardrailConflict

record guardrail_store =
  gs_policies :: "string \<times> string \<rightharpoonup> policy list"
  gs_audit :: "(string \<times> string \<times> string) list"

definition ReplaceGuardrailScope ::
  "string \<Rightarrow> string \<Rightarrow> policy list \<Rightarrow> string + policy list \<Rightarrow> string \<Rightarrow> guardrail_store \<Rightarrow> scope_error + guardrail_store" where
  "ReplaceGuardrailScope scope sid expected policies actor db =
     (if scope \<noteq> ''team'' \<and> scope \<noteq> ''alias'' then Inl BadScope
      else (case policies of
              Inl err \<Rightarrow> Inl (BadPolicies err)
            | Inr ps \<Rightarrow>
                (case gs_policies db (scope, sid) of
                   None \<Rightarrow> Inl ScopeNotFound
                 | Some old \<Rightarrow>
                     if old \<noteq> expected then Inl ErrGuardrailConflict
                     else Inr (db\<lparr>gs_policies := (gs_policies db)((scope, sid) \<mapsto> ps),
                                gs_audit := gs_audit db @ [(actor, scope, sid)]\<rparr>))))"

section \<open>A guarded request\<close>

record guardrail_run =
  gd_teamID :: int
  gd_alias :: string
  gd_requestID :: string
  gd_pre :: "text_filter option"
  gd_post :: "text_filter option"
  gd_postAudited :: bool

record decision_row =
  dr_request_id :: string
  dr_team_id :: int
  dr_alias :: string
  dr_result :: guard_result

datatype run_error = Guard guard_error | Typed int string | Other_error string

fun guardrailFailure :: "run_error \<Rightarrow> int \<times> string" where
  "guardrailFailure (Typed status code) = (status, code)"
| "guardrailFailure (Guard ErrBlocked) = (403, ''guardrail_blocked'')"
| "guardrailFailure (Guard ErrUnsupported) = (400, ''guardrail_unsupported'')"
| "guardrailFailure _ = (503, ''guardrail_unavailable'')"

definition typed_failure :: "run_error \<Rightarrow> run_error" where
  "typed_failure e = (case guardrailFailure e of (status, code) \<Rightarrow> Typed status code)"

definition cause_decision :: "run_error \<Rightarrow> string" where
  "cause_decision e =
     (case e of Guard ErrBlocked \<Rightarrow> ''block'' | Guard ErrUnsupported \<Rightarrow> ''unsupported'' | _ \<Rightarrow> ''error'')"

definition audit_results :: "text_filter option \<Rightarrow> run_error option \<Rightarrow> guard_result list" where
  "audit_results f cause =
     (case f of None \<Rightarrow> [] | Some fl \<Rightarrow> Results fl)
     @ (case cause of None \<Rightarrow> []
        | Some e \<Rightarrow> [\<lparr>gr_Name = ''policy'', gr_Phase = ''validation'', gr_Decision = cause_decision e\<rparr>])"

text \<open>The transaction of one phase; \<open>db_up\<close> says whether it is committed.\<close>

definition audit :: "bool \<Rightarrow> guardrail_run \<Rightarrow> text_filter option \<Rightarrow> run_error option \<Rightarrow> decision_row list \<Rightarrow> run_error option \<times> decision_row list" where
  "audit db_up g f cause log =
     (let results = audit_results f cause in
      if results = [] then (None, log)
      else if \<not> db_up then (Some (Other_error ''database unavailable''), log)
      else (None, log @ map (\<lambda>r. \<lparr>dr_request_id = gd_requestID g, dr_team_id = gd_teamID g, dr_alias = gd_alias g, dr_result = r\<rparr>) results))"

definition finish_run :: "bool \<Rightarrow> run_error option \<Rightarrow> guardrail_run \<Rightarrow> decision_row list \<Rightarrow> run_error option \<times> guardrail_run \<times> decision_row list" where
  "finish_run db_up err g log =
     (if gd_postAudited g then (map_option typed_failure err, g, log)
      else (let g' = g\<lparr>gd_postAudited := True\<rparr> in
            (case audit db_up g' (gd_post g') err log of
               (Some auditErr, log') \<Rightarrow> (Some (typed_failure auditErr), g', log')
             | (None, log') \<Rightarrow> (map_option typed_failure err, g', log'))))"

definition guard_response ::
  "(rune \<Rightarrow> rune) \<Rightarrow> bool \<Rightarrow> bool \<Rightarrow> json option \<Rightarrow> bool \<Rightarrow> guardrail_run \<Rightarrow> decision_row list
    \<Rightarrow> (run_error + json) \<times> guardrail_run \<times> decision_row list" where
  "guard_response fold_rune db_up raw_ok raw stream g log =
     (case Response fold_rune raw_ok raw stream (the (gd_post g)) of
        (Inl e, f') \<Rightarrow>
          (case finish_run db_up (Some (Guard e)) (g\<lparr>gd_post := Some f'\<rparr>) log of
             (Some err, g', log') \<Rightarrow> (Inl err, g', log')
           | (None, g', log') \<Rightarrow> (Inl (Guard e), g', log'))
      | (Inr out, f') \<Rightarrow>
          if stream then (Inr out, g\<lparr>gd_post := Some f'\<rparr>, log)
          else (case finish_run db_up None (g\<lparr>gd_post := Some f'\<rparr>) log of
                  (Some err, g', log') \<Rightarrow> (Inl err, g', log')
                | (None, g', log') \<Rightarrow> (Inr out, g', log')))"

text \<open>\<open>guardrailPre\<close>: the rewritten body, or the status and code of the refusal.\<close>

definition guardrailPre ::
  "(rune \<Rightarrow> rune) \<Rightarrow> bool \<Rightarrow> bool \<Rightarrow> json option \<Rightarrow> guardrail_run option \<Rightarrow> decision_row list
    \<Rightarrow> ((int \<times> string) + json option) \<times> guardrail_run option \<times> decision_row list" where
  "guardrailPre fold_rune db_up raw_ok raw guard log =
     (case guard of
        None \<Rightarrow> (Inr raw, None, log)
      | Some g \<Rightarrow>
          (case Request fold_rune raw_ok raw (the (gd_pre g)) of
             (res, f') \<Rightarrow>
               let g' = g\<lparr>gd_pre := Some f'\<rparr>;
                   err = (case res of Inl e \<Rightarrow> Some (Guard e) | Inr _ \<Rightarrow> None)
               in (case audit db_up g' (Some f') err log of
                     (Some auditErr, log') \<Rightarrow> (Inl (guardrailFailure auditErr), Some g', log')
                   | (None, log') \<Rightarrow>
                       (case res of
                          Inl e \<Rightarrow> (Inl (guardrailFailure (Guard e)), Some g', log')
                        | Inr out \<Rightarrow> (Inr (Some out), Some g', log')))))"

text \<open>\<open>loadGuardrails\<close>: the refusal, or the run of a protected request, \<open>None\<close> where nothing protects it.\<close>

record guard_request =
  gq_has_store :: bool
  gq_team :: "int option"
  gq_alias :: string
  gq_request_id :: string
  gq_path :: string
  gq_method :: string

definition chat_endpoint :: "guard_request \<Rightarrow> bool" where
  "chat_endpoint r \<longleftrightarrow> gq_path r = ''/v1/chat/completions'' \<and> gq_method r = ''POST''"

definition loadGuardrails ::
  "bool \<Rightarrow> guard_error + policy list \<Rightarrow> guard_request \<Rightarrow> decision_row list
    \<Rightarrow> (panic + (int \<times> string) + guardrail_run option) \<times> decision_row list" where
  "loadGuardrails db_up policies r log =
     (if \<not> gq_has_store r \<or> gq_team r = None then (Inr (Inr None), log)
      else if policies = Inr [] then (Inr (Inr None), log)
      else
        let g = \<lparr>gd_teamID = the (gq_team r), gd_alias = gq_alias r, gd_requestID = gq_request_id r,
                 gd_pre = None, gd_post = None, gd_postAudited = False\<rparr>;
            refuse = (\<lambda>e. (Inr (Inl (guardrailFailure (Guard e))), snd (audit db_up g None (Some (Guard e)) log)))
        in (case policies of
              Inl e \<Rightarrow> refuse e
            | Inr ps \<Rightarrow>
                if \<not> chat_endpoint r then refuse ErrUnsupported
                else (case New_filter ps ''pre'' of
                        Inl p \<Rightarrow> (Inl p, log)
                      | Inr pre \<Rightarrow>
                          (case New_filter ps ''post'' of
                             Inl p \<Rightarrow> (Inl p, log)
                           | Inr post \<Rightarrow> (Inr (Inr (Some (g\<lparr>gd_pre := Some pre, gd_post := Some post\<rparr>))), log)))))"

section \<open>Protection fails closed\<close>

lemma Decode_policies_valid:
  assumes "Decode_policies raw_len arr parsed = Inr ps"
  shows "\<forall>p \<in> set ps. list_all valid_term (p_Terms p)"
proof -
  have valid: "\<forall>p \<in> set qs. Validate_policy p = Inr ()" if "validate_all seen qs = Inr ()" for seen qs
    using that by (induction qs arbitrary: seen) (auto split: sum.splits if_splits)
  have "validate_all [] ps = Inr ()"
    using assms by (auto simp: Decode_policies_def split: if_splits sum.splits prod.splits)
  from valid [OF this] show ?thesis using Validate_policy_terms by blast
qed

lemma rename_policy_fields [simp]:
  "p_Mode (rename_policy x p) = p_Mode p" "p_Terms (rename_policy x p) = p_Terms p"
  "applies_in phase (rename_policy x p) = applies_in phase p"
  by (simp_all add: rename_policy_def applies_in_def)

lemma terms_in_append: "terms_in phase (ps @ qs) = terms_in phase ps \<union> terms_in phase qs"
  unfolding terms_in_def by auto

lemma terms_in_Cons: "terms_in phase (p # ps) =
    (if applies_in phase p then (\<lambda>t. (p_Mode p, the (utf8_runes t))) ` set (p_Terms p) else {}) \<union> terms_in phase ps"
  unfolding terms_in_def by auto

lemma terms_in_map: "terms_in phase (map (rename_policy x) ps) = terms_in phase ps"
  by (induction ps) (simp_all add: terms_in_Cons)

lemma terms_in_rename: "terms_in phase (map (rename_policy x) ps @ map (rename_policy y) qs) = terms_in phase (ps @ qs)"
  by (simp add: terms_in_append terms_in_map)

lemma loadGuardrails_guarded:
  assumes "gq_has_store r" and "gq_team r \<noteq> None" and "\<forall>p \<in> set ps. list_all valid_term (p_Terms p)" and "ps \<noteq> []"
  shows "loadGuardrails db_up (Inr ps) r log =
    (if chat_endpoint r
     then (Inr (Inr (Some \<lparr>gd_teamID = the (gq_team r), gd_alias = gq_alias r, gd_requestID = gq_request_id r,
             gd_pre = Some (projr (New_filter ps ''pre'')), gd_post = Some (projr (New_filter ps ''post'')), gd_postAudited = False\<rparr>)), log)
     else (Inr (Inl (400, ''guardrail_unsupported'')), snd (loadGuardrails db_up (Inl ErrUnsupported) r log)))"
  using assms New_filter_valid [OF assms(3), of "''pre''"] New_filter_valid [OF assms(3), of "''post''"]
  by (auto simp: loadGuardrails_def Let_def)

text \<open>C14: Protection fails closed. With the policies stored for the team and the alias, loading them never panics; a request
  passes without a guard only if neither scope has a policy, and a request under any policy passes only on the chat endpoint. Then
  the body forwarded upstream is the original one with each message's content filtered by all policies of both scopes: no blocked
  term occurs in any content, and the first rune of every redacted term is replaced.\<close>

theorem protection_fails_closed:
  assumes "Decode_policies len1 arr1 parsed1 = Inr team_ps" and "Decode_policies len2 arr2 parsed2 = Inr model_ps"
    and "gq_has_store r" and "gq_team r \<noteq> None"
    and "loadGuardrails db_up (GuardrailPolicies (Inr (Inr team_ps, Inr model_ps)) any_alias (gq_alias r)) r log = (res, log')"
  shows "(\<forall>p. res \<noteq> Inl p)
    \<and> (res = Inr (Inr None) \<longrightarrow> team_ps = [] \<and> model_ps = [])
    \<and> (\<forall>g. res = Inr (Inr (Some g)) \<longrightarrow> chat_endpoint r
         \<and> (\<forall>fold_rune db_up' raw_ok raw body guard' log''. guardrailPre fold_rune db_up' raw_ok raw (Some g) log' = (Inr body, guard', log'')
              \<longrightarrow> (\<exists>m ms ms'. raw = Some (J_obj m) \<and> map_of m ''messages'' = Some (J_arr ms)
                     \<and> body = Some (J_obj (put_field ''messages'' (J_arr ms') m))
                     \<and> list_all2 (message_guarded fold_rune (terms_in ''pre'' (team_ps @ model_ps))) ms ms')))"
proof -
  let ?ps = "map (rename_policy ''team/'') team_ps @ map (rename_policy ''alias/'') model_ps"
  have valid: "\<forall>p \<in> set ?ps. list_all valid_term (p_Terms p)"
    using Decode_policies_valid [OF assms(1)] Decode_policies_valid [OF assms(2)] by auto
  let ?got = "GuardrailPolicies (Inr (Inr team_ps, Inr model_ps)) any_alias (gq_alias r)"
  have got: "?got = Inr ?ps \<or> (\<exists>e. ?got = Inl e)"
    by (auto simp: GuardrailPolicies_def split: sum.splits bool.splits)
  consider (refused) e where "?got = Inl e" | (none) "?got = Inr ?ps" "?ps = []" | (some) "?got = Inr ?ps" "?ps \<noteq> []"
    using got by blast
  then show ?thesis
  proof cases
    case refused
    then show ?thesis using assms(3,4,5) by (auto simp: loadGuardrails_def Let_def)
  next
    case none
    then show ?thesis using assms(3,4,5) by (auto simp: loadGuardrails_def)
  next
    case some
    obtain f where f: "New_filter ?ps ''pre'' = Inr f" using New_filter_valid [OF valid] by blast
    note load = loadGuardrails_guarded [OF assms(3,4) valid some(2), of db_up log]
    have filtered: "\<exists>m ms ms'. raw = Some (J_obj m) \<and> map_of m ''messages'' = Some (J_arr ms)
        \<and> body = Some (J_obj (put_field ''messages'' (J_arr ms') m))
        \<and> list_all2 (message_guarded fold_rune (terms_in ''pre'' (team_ps @ model_ps))) ms ms'"
      if g: "gd_pre g = Some f" and pre: "guardrailPre fold_rune up raw_ok raw (Some g) log' = (Inr body, guard', log'')"
      for g fold_rune up raw_ok raw body guard' log''
    proof -
      obtain req f' where req: "Request fold_rune raw_ok raw f = (req, f')" by (metis surj_pair)
      from pre g req obtain out where out: "req = Inr out" "body = Some out"
        by (auto simp: guardrailPre_def Let_def split: prod.splits option.splits sum.splits)
      from guarded_request_is_filtered [OF valid f req [unfolded out(1)]] out(2) show ?thesis unfolding terms_in_rename by blast
    qed
    have "res = Inr (Inr (Some g)) \<Longrightarrow> gd_pre g = Some f \<and> chat_endpoint r" for g
      using load some(1) assms(5) f by (auto split: if_splits)
    moreover have "(\<forall>p. res \<noteq> Inl p) \<and> res \<noteq> Inr (Inr None)" using load some(1) assms(5) by (auto split: if_splits)
    ultimately show ?thesis using filtered by blast
  qed
qed

definition sample_guard_request :: guard_request where
  "sample_guard_request = \<lparr>gq_has_store = True, gq_team = Some 7, gq_alias = ''gpt'', gq_request_id = ''req'',
     gq_path = ''/v1/chat/completions'', gq_method = ''POST''\<rparr>"

definition sample_body :: json where
  "sample_body = J_obj [(''model'', J_str ''gpt''), (''messages'', J_arr [J_obj [(''role'', J_str ''user''), (''content'', J_str ''xaby'')]])]"

theorem protection_fails_closed_witness:
  "\<exists>g log' body guard' log''. loadGuardrails True (GuardrailPolicies (Inr (Inr [sample_policy], Inr [])) (Inr False) ''gpt'')
        sample_guard_request [] = (Inr (Inr (Some g)), log')
     \<and> guardrailPre id True True (Some sample_body) (Some g) log' = (Inr (Some body), guard', log'')
     \<and> (\<exists>m ms'. body = J_obj (put_field ''messages'' (J_arr ms') m) \<and> sample_body = J_obj m)"
proof -
  let ?load = "loadGuardrails True (GuardrailPolicies (Inr (Inr [sample_policy], Inr [])) (Inr False) ''gpt'') sample_guard_request []"
  have team: "Decode_policies 10 True (Inr ([sample_policy], False)) = Inr [sample_policy]" by code_simp
  have model: "Decode_policies 2 True (Inr ([], False)) = Inr []" by code_simp
  have req: "gq_has_store sample_guard_request" "gq_team sample_guard_request \<noteq> None" "gq_alias sample_guard_request = ''gpt''"
    by (simp_all add: sample_guard_request_def)
  have ok: "case ?load of (Inr (Inr (Some g)), log') \<Rightarrow>
      (case guardrailPre id True True (Some sample_body) (Some g) log' of (Inr (Some _), _) \<Rightarrow> True | _ \<Rightarrow> False) | _ \<Rightarrow> False" by code_simp
  then obtain g log' where load: "?load = (Inr (Inr (Some g)), log')" by (auto split: prod.splits sum.splits option.splits)
  obtain out guard' log'' where out: "guardrailPre id True True (Some sample_body) (Some g) log' = (out, guard', log'')"
    using prod_cases3 by blast
  with ok load obtain body where "out = Inr (Some body)" by (auto split: sum.splits option.splits)
  with out have pre: "guardrailPre id True True (Some sample_body) (Some g) log' = (Inr (Some body), guard', log'')" by simp
  note closed = protection_fails_closed [OF team model req(1,2), of True "Inr False" "[]", unfolded req(3), OF load]
  from closed [THEN conjunct2, THEN conjunct2, rule_format, OF refl, THEN conjunct2, rule_format, OF pre]
  obtain m ms ms' where "Some sample_body = Some (J_obj m)" "Some body = Some (J_obj (put_field ''messages'' (J_arr ms') m))"
    by (elim exE conjE)
  with load pre show ?thesis by blast
qed

end
