(* ===== verification/Request_Path.thy ===== *)
theory Request_Path
  imports Upstream_Fallback Usage_Logger Rate_Limit Guardrail_Runtime Budget_Service
begin

text \<open>
  The path of an inference request through the handlers of \<^verbatim>\<open>internal/api\<close>: the customer it acts for
  (\<^verbatim>\<open>customer_admission.go\<close>), its durable accounting record (\<^verbatim>\<open>accounting.go\<close>), its concurrency lease
  (\<^verbatim>\<open>routing_concurrency.go\<close>), rate limit, budget, upstream attempts and usage record (\<^verbatim>\<open>v1.go\<close>).

  \<^item> The state is the gateway of \<open>Upstream_Fallback\<close>, the usage logger, the rate limiter and the table of
    guardrail decisions. A nil logger, limiter or budget service is \<open>None\<close>; the router is never nil.
  \<^item> A reply is its status, its error type and its \<open>Retry-After\<close> header; messages are left out, as are payload
    capture, callbacks, metrics, traces and log lines.
  \<^item> What a call to the database meets is a record: the live identities, the clocks and whether the call
    fails.
\<close>

section \<open>Requests and state\<close>

record inference_request =
  rq_team :: "team option"
  rq_key :: "virtual_key option"
  rq_user :: "user option"
  rq_customer :: "customer option"
  rq_id :: string
  rq_header :: "string \<Rightarrow> string"

record v1_state =
  v_gateway :: gateway
  v_logger :: "logger option"
  v_limiter :: "rate_limiter option"
  v_decisions :: "decision_row list"

record db_env =
  dbe_ids :: identities
  dbe_now :: gotime
  dbe_db_now :: gotime
  dbe_io :: db_io

record reply =
  rep_status :: int
  rep_type :: string
  rep_retry :: string

definition error_reply :: "int \<Rightarrow> string \<Rightarrow> reply" where
  "error_reply status ty = \<lparr>rep_status = status, rep_type = ty, rep_retry = []\<rparr>"

definition v_ledger :: "v1_state \<Rightarrow> ledger" where
  "v_ledger v = gw_ledger (v_gateway v)"

definition set_ledger :: "ledger \<Rightarrow> v1_state \<Rightarrow> v1_state" where
  "set_ledger db v = v\<lparr>v_gateway := (v_gateway v)\<lparr>gw_ledger := db\<rparr>\<rparr>"

definition set_run :: "accounting_run option \<Rightarrow> v1_state \<Rightarrow> v1_state" where
  "set_run run v = v\<lparr>v_gateway := (v_gateway v)\<lparr>gw_run := run\<rparr>\<rparr>"

section \<open>Headers\<close>

definition gatewayHeader :: "inference_request \<Rightarrow> string \<Rightarrow> string" where
  "gatewayHeader r suffix =
     (if rq_header r (''X-Gatemux-'' @ suffix) \<noteq> [] then rq_header r (''X-Gatemux-'' @ suffix)
      else rq_header r (''X-Aiport-'' @ suffix))"

fun split_comma :: "string \<Rightarrow> string list" where
  "split_comma [] = [[]]"
| "split_comma (c # s) = (if c = CHR '','' then [] # split_comma s else (case split_comma s of w # ws \<Rightarrow> (c # w) # ws | [] \<Rightarrow> [[c]]))"

definition resolveContextFromRequest :: "inference_request \<Rightarrow> resolve_context" where
  "resolveContextFromRequest r =
     (let tags = TrimSpace (gatewayHeader r ''Tags'') in
      \<lparr>rc_Tags = (if tags \<noteq> [] then filter (\<lambda>t. t \<noteq> []) (map TrimSpace (split_comma tags)) else []),
       rc_Region = TrimSpace (gatewayHeader r ''Region'')\<rparr>)"

definition extractCustomerID :: "inference_request \<Rightarrow> string \<Rightarrow> string" where
  "extractCustomerID r bodyUser =
     (if gatewayHeader r ''Customer-Id'' \<noteq> [] then gatewayHeader r ''Customer-Id''
      else if rq_header r ''X-Customer-Id'' \<noteq> [] then rq_header r ''X-Customer-Id''
      else bodyUser)"

definition hasKeyBudget :: "inference_request \<Rightarrow> bool" where
  "hasKeyBudget r = (case rq_key r of None \<Rightarrow> False | Some k \<Rightarrow> positive_limit (vk_ScopedUsdLimitCents k))"

section \<open>Recording usage\<close>

definition attributeCustomer :: "inference_request \<Rightarrow> usage_entry \<Rightarrow> usage_entry" where
  "attributeCustomer r e =
     (case rq_customer r of
        None \<Rightarrow> e
      | Some c \<Rightarrow> e\<lparr>e_CustomerExternalID := c_ExternalID c,
                   e_CustomerID := (if c_ID c > 0 then Some (c_ID c) else e_CustomerID e)\<rparr>)"

definition attributeKey :: "inference_request \<Rightarrow> usage_entry \<Rightarrow> usage_entry" where
  "attributeKey r e =
     (case rq_key r of
        None \<Rightarrow> e
      | Some k \<Rightarrow> e\<lparr>e_KeyID := (if vk_ID k > 0 then Some (vk_ID k) else e_KeyID e), e_UserID := vk_UserID k,
                   e_ServiceAccountID := vk_ServiceAccountID k\<rparr>)"

definition persistUsage :: "db_env \<Rightarrow> usage_entry \<Rightarrow> logger \<Rightarrow> v1_state \<Rightarrow> (string + usage_receipt) \<times> v1_state" where
  "persistUsage env e l v =
     (let run = gw_run (v_gateway v);
          e' = (case run of None \<Rightarrow> e | Some r \<Rightarrow> e\<lparr>e_AccountingID := e_RequestID (run_entry r)\<rparr>)
      in (case Record (dbe_ids env) (dbe_now env) (dbe_db_now env) (dbe_io env) e' l (v_ledger v) of
            (res, l', db') \<Rightarrow>
              (res, set_run (case run of
                       None \<Rightarrow> None
                     | Some r \<Rightarrow> Some (case res of Inl _ \<Rightarrow> r\<lparr>run_pending := Some e'\<rparr>
                                              | Inr _ \<Rightarrow> r\<lparr>run_complete := True, run_pending := None\<rparr>))
                    (set_ledger db' (v\<lparr>v_logger := Some l'\<rparr>)))))"

definition recordDenial :: "db_env \<Rightarrow> inference_request \<Rightarrow> string \<Rightarrow> int \<Rightarrow> string \<Rightarrow> v1_state \<Rightarrow> v1_state" where
  "recordDenial env r alias status errCode v =
     (case (v_logger v, rq_team r) of
        (Some l, Some team) \<Rightarrow>
          snd (persistUsage env (attributeCustomer r (attributeKey r (empty_entry\<lparr>e_TeamID := t_ID team, e_Alias := alias,
                 e_RequestID := rq_id r, e_StatusCode := status, e_Error := errCode, e_Ts := Some (dbe_now env),
                 e_CostMicrocents := Some 0\<rparr>))) l v)
      | _ \<Rightarrow> v)"

text \<open>The usage details of a response; \<open>marshal\<close> is the JSON encoder.\<close>

definition usageDetailsJSON :: "(usage \<Rightarrow> string) \<Rightarrow> usage \<Rightarrow> string" where
  "usageDetailsJSON marshal u =
     (if PromptTokensDetails u = None \<and> CompletionTokensDetails u = None \<and> CacheCreation u = None
         \<and> CacheCreationInputTokens u = 0 \<and> CacheReadInputTokens u = 0 then [] else marshal u)"

record timings =
  tm_UnknownUsage :: bool
  tm_QueueMs :: int
  tm_UpstreamMs :: int
  tm_TTFBMs :: int
  tm_PostprocessMs :: int
  tm_ClientIP :: string

definition no_timings :: timings where
  "no_timings = \<lparr>tm_UnknownUsage = False, tm_QueueMs = 0, tm_UpstreamMs = 0, tm_TTFBMs = 0, tm_PostprocessMs = 0, tm_ClientIP = []\<rparr>"

text \<open>The cost of a completed request and how it is known.\<close>

definition usage_cost :: "pricing_row list option \<Rightarrow> resolved option \<Rightarrow> usage \<Rightarrow> bool \<Rightarrow> bool \<Rightarrow> int \<times> string" where
  "usage_cost pricing res u cached unknown =
     (if cached then (0, ''not_billable'')
      else (case (res, pricing) of
              (Some target, Some rows) \<Rightarrow>
                if unknown then (0, ''unknown'')
                else (case ComputeUsageCost rows (rs_ProviderType target) (rs_UpstreamModel target) u of
                        Inr cost \<Rightarrow> (cost, ''priced'')
                      | Inl (PricingUnavailableError p m) \<Rightarrow> (0, ''unpriced'')
                      | Inl err \<Rightarrow> (0, ''unknown''))
            | _ \<Rightarrow> (0, ''unknown'')))"

record completion =
  cm_resolved :: "resolved option"
  cm_alias :: string
  cm_modelUsed :: string
  cm_usage :: usage
  cm_started :: gotime
  cm_status :: int
  cm_error :: string
  cm_cached :: bool
  cm_origin :: string
  cm_tags :: "string list"
  cm_timings :: timings

definition recordUsage ::
  "pricing_row list option \<Rightarrow> (usage \<Rightarrow> string) \<Rightarrow> db_env \<Rightarrow> inference_request \<Rightarrow> completion \<Rightarrow> v1_state \<Rightarrow> v1_state" where
  "recordUsage pricing marshal env r c v =
     (case usage_cost pricing (cm_resolved c) (cm_usage c) (cm_cached c) (tm_UnknownUsage (cm_timings c)) of
        (cost, accounting) \<Rightarrow>
          (case v_logger v of
             None \<Rightarrow>
               (case pricing of
                  None \<Rightarrow> v
                | Some rows \<Rightarrow>
                    if accounting = ''unknown'' \<or> accounting = ''unpriced''
                    then (case SettleEstimated (dbe_db_now env) (rq_id r) (v_ledger v) of
                            Inl err \<Rightarrow> v | Inr (_, db') \<Rightarrow> set_ledger db' v)
                    else (case Settle (dbe_db_now env) (rq_id r) cost (v_ledger v) of
                            Inl err \<Rightarrow> v | Inr db' \<Rightarrow> set_ledger db' v))
           | Some l \<Rightarrow>
               snd (persistUsage env (attributeCustomer r
                 \<lparr>e_AccountingID = [], e_Accounting = accounting, e_TokenDetails = usageDetailsJSON marshal (cm_usage c),
                  e_TeamID = (case rq_team r of None \<Rightarrow> 0 | Some t \<Rightarrow> t_ID t), e_UserID = map_option usr_ID (rq_user r),
                  e_KeyID = (case rq_key r of None \<Rightarrow> None | Some k \<Rightarrow> if vk_ID k > 0 then Some (vk_ID k) else None),
                  e_CustomerID = None, e_CustomerExternalID = [], e_Alias = cm_alias c,
                  e_DeploymentName = (case cm_resolved c of None \<Rightarrow> [] | Some t \<Rightarrow> rs_DeploymentName t),
                  e_RequestID = rq_id r, e_ModelRequested = cm_alias c, e_ModelUsed = cm_modelUsed c,
                  e_PromptTokens = PromptTokens (cm_usage c), e_CompletionTokens = CompletionTokens (cm_usage c),
                  e_TotalTokens = TotalTokens (cm_usage c), e_CostCents = 0, e_CostMicrocents = Some cost,
                  e_LatencyMs = (dbe_now env - cm_started c) sdiv Millisecond, e_QueueMs = tm_QueueMs (cm_timings c),
                  e_UpstreamMs = tm_UpstreamMs (cm_timings c), e_TTFBMs = tm_TTFBMs (cm_timings c),
                  e_PostprocessMs = tm_PostprocessMs (cm_timings c), e_StatusCode = cm_status c, e_Error = cm_error c,
                  e_Cached = cm_cached c, e_CacheOriginRequestID = cm_origin c, e_RequestTags = cm_tags c,
                  e_ClientIP = tm_ClientIP (cm_timings c),
                  e_ServiceAccountID = (case rq_key r of None \<Rightarrow> None | Some k \<Rightarrow> vk_ServiceAccountID k), e_Ts = None\<rparr>) l v)))"

section \<open>The durable accounting record of a request\<close>

record begin_env =
  be_db :: db_env
  be_remaining :: "duration option"
  be_entropy :: "string option"
  be_json_len :: "usage_entry \<Rightarrow> nat option"
  be_nonBillable :: bool

definition begin_entry :: "begin_env \<Rightarrow> inference_request \<Rightarrow> team \<Rightarrow> string \<Rightarrow> usage_entry" where
  "begin_entry env r team alias =
     attributeCustomer r (attributeKey r (empty_entry\<lparr>e_RequestID := rq_id r, e_TeamID := t_ID team, e_Alias := alias,
       e_ModelRequested := alias, e_Ts := Some (dbe_now (be_db env)), e_CostMicrocents := Some 0,
       e_Accounting := (if be_nonBillable env then ''not_billable'' else [])\<rparr>))"

text \<open>The intent is stored under a fresh request ID, or the request is refused.\<close>

definition begin_intent :: "begin_env \<Rightarrow> usage_entry \<Rightarrow> v1_state \<Rightarrow> reply option \<times> v1_state" where
  "begin_intent env e v =
     (let remaining = (case be_remaining env of None \<Rightarrow> 90 * Second | Some d \<Rightarrow> d); io = dbe_io (be_db env) in
      (case BeginAccounting (be_json_len env) (dbe_now (be_db env)) (dbe_db_now (be_db env)) e remaining (v_ledger v) of
         Inl err \<Rightarrow>
           (Some (if io = Db_ok \<and> err = ErrAccountingConflict
                  then error_reply 409 ''request_id_reused'' else error_reply 503 ''accounting_unavailable''), v)
       | Inr db' \<Rightarrow>
           if io = Db_ok
           then (None, set_run (Some \<lparr>run_entry = e, run_pending = None, run_complete = False, run_started = False\<rparr>) (set_ledger db' v))
           else (Some (error_reply 503 ''accounting_unavailable''), if applied io then set_ledger db' v else v)))"

text \<open>The request comes back with the ID it was given.\<close>

definition beginAccounting ::
  "begin_env \<Rightarrow> inference_request \<Rightarrow> string \<Rightarrow> v1_state \<Rightarrow> reply option \<times> inference_request \<times> v1_state" where
  "beginAccounting env r alias v =
     (case v_logger v of
        None \<Rightarrow> (None, r, v)
      | Some l \<Rightarrow>
          if \<not> is_ready l then (Some (error_reply 503 ''accounting_unavailable''), r, v)
          else if rq_id r = [] \<and> be_entropy env = None then (Some (error_reply 503 ''accounting_unavailable''), r, v)
          else
            let r' = (if rq_id r = [] then r\<lparr>rq_id := the (be_entropy env)\<rparr> else r)
            in (case rq_team r' of
                  None \<Rightarrow> (Some (error_reply 401 ''authentication_error''), r', v)
                | Some team \<Rightarrow>
                    (case begin_intent env (begin_entry env r' team alias) v of (res, v') \<Rightarrow> (res, r', v'))))"

text \<open>The deferred function: it records the request if nothing else has.\<close>

definition finishAccounting :: "db_env \<Rightarrow> v1_state \<Rightarrow> v1_state" where
  "finishAccounting env v =
     (case (gw_run (v_gateway v), v_logger v) of
        (Some run, Some l) \<Rightarrow>
          if run_complete run then v
          else
            let entry = (case run_pending run of
                   Some pending \<Rightarrow> pending
                 | None \<Rightarrow> (run_entry run)\<lparr>e_Accounting := (if e_Accounting (run_entry run) = [] then ''unknown'' else e_Accounting (run_entry run)),
                             e_StatusCode := 503, e_Error := ''request_interrupted_or_unrecorded''\<rparr>)
            in snd (persistUsage env entry l v)
      | _ \<Rightarrow> v)"

section \<open>Customers\<close>

text \<open>A control character is an ASCII one or one of U+0080 to U+009F, which are encoded as a byte C2 and a second
  byte.\<close>

fun forbidden_in_customer :: "string \<Rightarrow> bool" where
  "forbidden_in_customer [] = False"
| "forbidden_in_customer (c # s) =
     (let n = of_char c :: int in
      n < 32 \<or> n = 127 \<or> c = CHR ''/'' \<or> n = 92
      \<or> n = 194 \<and> (case s of d # _ \<Rightarrow> 128 \<le> (of_char d :: int) \<and> (of_char d :: int) < 160 | [] \<Rightarrow> False)
      \<or> forbidden_in_customer s)"

definition ValidateCustomerID :: "string \<Rightarrow> string + unit" where
  "ValidateCustomerID value =
     (if value = [] \<or> length value > 256 \<or> TrimSpace value \<noteq> value
      then Inl ''customer ID must contain 1-256 bytes without surrounding whitespace''
      else if forbidden_in_customer value then Inl ''customer ID must not contain control characters or path separators''
      else Inr ())"

datatype customer_lookup = Found customer | Customer_missing | Customer_capacity | Lookup_failed

record customer_env =
  ce_has_store :: bool
  ce_get :: customer_lookup
  ce_get_or_create :: customer_lookup

text \<open>The customer of a request, or the refusal; the request carries at least the customer's identity once its ID
  has been accepted.\<close>

definition resolveRequestCustomer ::
  "customer_env \<Rightarrow> db_env \<Rightarrow> string \<Rightarrow> string \<Rightarrow> inference_request \<Rightarrow> v1_state \<Rightarrow> reply option \<times> inference_request \<times> v1_state" where
  "resolveRequestCustomer ce env alias bodyUser r v =
     (case (rq_customer r, rq_team r) of
        (Some _, _) \<Rightarrow> (None, r, v)
      | (None, None) \<Rightarrow> (None, r, v)
      | (None, Some team) \<Rightarrow>
          let cid = extractCustomerID r bodyUser;
              mode = (if t_CustomerRegistration team = [] then ''optional'' else t_CustomerRegistration team);
              deny = (\<lambda>r' status code. (Some (error_reply status code), r', recordDenial env r' alias status code v))
          in if cid = [] then (if mode \<noteq> ''optional'' then deny r 403 ''customer_required'' else (None, r, v))
             else if ValidateCustomerID cid \<noteq> Inr () then deny r 400 ''invalid_customer''
             else
               let r1 = r\<lparr>rq_customer := Some \<lparr>c_ID = 0, c_TeamID = t_ID team, c_ExternalID = cid, c_UsdLimitCents = None,
                          c_Period = [], c_RPM = None, c_TPM = None, c_MaxParallelRequests = None, c_ArchivedAt = None\<rparr>\<rparr>
               in if \<not> ce_has_store ce then deny r1 503 ''customer_policy_unavailable''
                  else (case (if ce_get ce = Customer_missing \<and> mode = ''auto_create'' then ce_get_or_create ce else ce_get ce) of
                          Customer_missing \<Rightarrow> if mode = ''optional'' then (None, r1, v) else deny r1 403 ''customer_not_registered''
                        | Customer_capacity \<Rightarrow> deny r1 403 ''customer_registration_capacity''
                        | Lookup_failed \<Rightarrow> deny r1 503 ''customer_policy_unavailable''
                        | Found c \<Rightarrow>
                            let r2 = r\<lparr>rq_customer := Some c\<rparr>
                            in if c_ArchivedAt c \<noteq> None then deny r2 403 ''customer_archived''
                               else if ValidateCustomerLimits (c_UsdLimitCents c) (c_Period c) (c_RPM c) (c_TPM c) \<noteq> Inr ()
                               then deny r2 503 ''customer_policy_unavailable''
                               else (None, r2, v)))"

section \<open>Rate limit and budget\<close>

definition positive_count :: "int option \<Rightarrow> bool" where
  "positive_count n = (case n of None \<Rightarrow> False | Some x \<Rightarrow> x > 0)"

definition enforceRateLimit ::
  "int \<Rightarrow> gotime \<Rightarrow> db_env \<Rightarrow> inference_request \<Rightarrow> string \<Rightarrow> int \<Rightarrow> v1_state \<Rightarrow> reply option \<times> v1_state" where
  "enforceRateLimit redis_ms now env r alias tokens v =
     (case v_limiter v of
        None \<Rightarrow>
          (if (case rq_customer r of None \<Rightarrow> False | Some c \<Rightarrow> positive_count (c_RPM c) \<or> positive_count (c_TPM c))
           then Some (error_reply 503 ''rate_limit_unavailable'') else None, v)
      | Some _ \<Rightarrow>
          (case Check_rate redis_ms now
                  \<lparr>rk_Team = rq_team r, rk_Key = rq_key r, rk_Customer = rq_customer r, rk_Tokens = tokens\<rparr> (v_limiter v) of
             (Inl err, l') \<Rightarrow> (Some (error_reply 503 ''rate_limit_unavailable''), v\<lparr>v_limiter := l'\<rparr>)
           | (Inr result, l') \<Rightarrow>
               let v1 = v\<lparr>v_limiter := l'\<rparr> in
               if rr_Allowed result then (None, v1)
               else (Some ((error_reply 429 ''rate_limit_exceeded'')\<lparr>rep_retry := show_int (max 1 (rr_RetryAfter result sdiv Second))\<rparr>),
                     recordDenial env r alias 429 (''rate_limited:'' @ rr_Scope result @ ''_'' @ rr_Metric result) v1)))"

definition budget_target :: "resolved \<Rightarrow> target" where
  "budget_target t = \<lparr>tg_ProviderType = rs_ProviderType t, tg_UpstreamModel = rs_UpstreamModel t\<rparr>"

definition budget_request ::
  "inference_request \<Rightarrow> service_account option \<Rightarrow> string \<Rightarrow> int \<Rightarrow> int \<Rightarrow> resolved list \<Rightarrow> admission_request" where
  "budget_request r sa alias promptTokens completionTokens targets =
     \<lparr>ar_RequestID = rq_id r, ar_Team = rq_team r, ar_User = rq_user r, ar_ServiceAccount = sa, ar_Key = rq_key r,
      ar_Customer = rq_customer r, ar_Alias = alias, ar_PromptTokens = promptTokens,
      ar_CompletionTokens = completionTokens, ar_Targets = map budget_target targets\<rparr>"

text \<open>The transaction of the admission fails with the database, committed or not.\<close>

definition admit_tx :: "pricing_row list \<Rightarrow> db_env \<Rightarrow> admission_request \<Rightarrow> ledger \<Rightarrow> (budget_error + unit) \<times> ledger" where
  "admit_tx rows env req db =
     (case Admit rows (dbe_now env) (dbe_db_now env) req db of
        Inl err \<Rightarrow> (Inl err, db)
      | Inr (_, db') \<Rightarrow>
          if dbe_io env = Db_ok then (Inr (), db')
          else (Inl (BudgetError ''database unavailable''), if applied (dbe_io env) then db' else db))"

definition enforceBudget ::
  "pricing_row list option \<Rightarrow> (int \<Rightarrow> string + service_account) \<Rightarrow> db_env \<Rightarrow> inference_request \<Rightarrow> string \<Rightarrow> int \<Rightarrow> int \<Rightarrow> string
    \<Rightarrow> v1_state \<Rightarrow> reply option \<times> v1_state" where
  "enforceBudget pricing load_sa env r alias promptTokens completionTokens capability v =
     (if pricing = None \<or> rq_team r = None \<or> alias = [] \<or> rq_id r = []
      then (if (case rq_customer r of None \<Rightarrow> False | Some c \<Rightarrow> c_UsdLimitCents c \<noteq> None)
            then Some (error_reply 503 ''budget_unavailable'') else None, v)
      else (case TargetsFor alias capability (gw_registry (v_gateway v)) of
        Inl err \<Rightarrow> (None, v)
      | Inr targets \<Rightarrow>
          (case (if v_logger v = None then Inr None
                 else (case rq_key r of
                         None \<Rightarrow> Inr None
                       | Some k \<Rightarrow> (case vk_ServiceAccountID k of
                                     None \<Rightarrow> Inr None
                                   | Some sid \<Rightarrow> (case load_sa sid of Inl e \<Rightarrow> Inl e | Inr sa \<Rightarrow> Inr (Some sa))))) of
             Inl err \<Rightarrow> (Some (error_reply 503 ''budget_unavailable''), v)
           | Inr sa \<Rightarrow>
               (case admit_tx (the pricing) env (budget_request r sa alias promptTokens completionTokens targets) (v_ledger v) of
                  (Inr _, db') \<Rightarrow> (None, set_ledger db' v)
                | (Inl (ExceededError x), db') \<Rightarrow>
                    (Some (error_reply 403 ''insufficient_quota''),
                     recordDenial env r alias 403 (''budget_exceeded:'' @ x_Scope x) (set_ledger db' v))
                | (Inl err, db') \<Rightarrow> (Some (error_reply 503 ''budget_unavailable''), set_ledger db' v)))))"

text \<open>After a panic the reservation is settled at its estimate, unless the accounting of the request does it.\<close>

definition reconcileBudgetOnPanic :: "pricing_row list option \<Rightarrow> db_env \<Rightarrow> string \<Rightarrow> v1_state \<Rightarrow> v1_state" where
  "reconcileBudgetOnPanic pricing env requestID v =
     (if pricing \<noteq> None \<and> v_logger v = None
      then (case SettleEstimated (dbe_db_now env) requestID (v_ledger v) of Inl err \<Rightarrow> v | Inr (_, db') \<Rightarrow> set_ledger db' v)
      else v)"

section \<open>Concurrency of a request\<close>

definition ceil_seconds :: "duration \<Rightarrow> string" where
  "ceil_seconds d = show_int (max 1 (wrap64 (wrap64 (d + Second) - 1) sdiv Second))"

fun concurrencyErrorDetails :: "gw_error \<Rightarrow> reply option" where
  "concurrencyErrorDetails (ConcurrencyDenied kind retry) =
     Some \<lparr>rep_status = 429, rep_type = ''concurrency_limit_exceeded'', rep_retry = ceil_seconds retry\<rparr>"
| "concurrencyErrorDetails (ConcurrencyUnavailable kind) =
     Some \<lparr>rep_status = 503, rep_type = ''concurrency_limit_unavailable'', rep_retry = ceil_seconds 0\<rparr>"
| "concurrencyErrorDetails _ = None"

definition request_scopes :: "request_env \<Rightarrow> gotime \<Rightarrow> inference_request \<Rightarrow> string \<Rightarrow> registry \<Rightarrow> string + scope list" where
  "request_scopes req now r alias reg =
     (let model = (if alias \<noteq> [] then ConcurrencyScope (re_has_store req) now ''model'' alias reg else Inr []);
          customer = (case rq_customer r of
                        None \<Rightarrow> []
                      | Some c \<Rightarrow> if c_ID c > 0 \<and> positive_cap (c_MaxParallelRequests c)
                                 then [\<lparr>sc_Kind = ''customer'', sc_ID = c_ID c, sc_Limit = the (c_MaxParallelRequests c)\<rparr>] else [])
      in (case model of Inl err \<Rightarrow> Inl err | Inr scopes \<Rightarrow> Inr (scopes @ customer)))"

record 'r admit_env =
  ad_policies :: "guard_error + policy list"
  ad_guard_up :: bool
  ad_guard :: guard_request
  ad_customer :: customer_env
  ad_deny :: db_env
  ad_begin :: begin_env
  ad_lease :: "'r attempt_env"
  ad_finish :: db_env

text \<open>The guard, the lease and the request as admitted; or the refusal, with everything given back.\<close>

definition admitRequestConcurrency ::
  "request_env \<Rightarrow> 'r admit_env \<Rightarrow> string \<Rightarrow> string \<Rightarrow> inference_request \<Rightarrow> v1_state
    \<Rightarrow> (reply + guardrail_run option \<times> lease option \<times> inference_request) may_panic \<times> v1_state" where
  "admitRequestConcurrency req env alias bodyUser r v =
     (case loadGuardrails (ad_guard_up env) (ad_policies env) (ad_guard env) (v_decisions v) of
        (Inl p, log) \<Rightarrow> (Inl p, v\<lparr>v_decisions := log\<rparr>)
      | (Inr (Inl (status, code)), log) \<Rightarrow>
          (Inr (Inl (error_reply status code)), recordDenial (ad_deny env) r alias status code (v\<lparr>v_decisions := log\<rparr>))
      | (Inr (Inr guard), log) \<Rightarrow>
          (case resolveRequestCustomer (ad_customer env) (ad_deny env) alias bodyUser r (v\<lparr>v_decisions := log\<rparr>) of
             (Some reply, r1, v1) \<Rightarrow> (Inr (Inl reply), v1)
           | (None, r1, v1) \<Rightarrow>
               (case beginAccounting (ad_begin env) r1 alias v1 of
                  (Some reply, r2, v2) \<Rightarrow> (Inr (Inl reply), v2)
                | (None, r2, v2) \<Rightarrow>
                    (case acquireConcurrencyScopes req (ad_lease env) ''combined''
                            (request_scopes req (ae_now (ad_lease env)) r2 alias (gw_registry (v_gateway v2)))
                            (gw_leases (v_gateway v2)) of
                       (Inl err, leases') \<Rightarrow>
                         let v3 = v2\<lparr>v_gateway := (v_gateway v2)\<lparr>gw_leases := leases'\<rparr>\<rparr>;
                             reply = the (concurrencyErrorDetails err)
                         in (Inr (Inl reply),
                             finishAccounting (ad_finish env)
                               (recordDenial (ad_deny env) r2 alias (rep_status reply) (rep_type reply) v3))
                     | (Inr l, leases') \<Rightarrow>
                         (Inr (Inr (guard, l, r2)), v2\<lparr>v_gateway := (v_gateway v2)\<lparr>gw_leases := leases'\<rparr>\<rparr>)))))"

section \<open>Replies to a failed call\<close>

text \<open>\<open>writeRoutingError\<close>, for a request without a guard.\<close>

fun routing_reply :: "gw_error \<Rightarrow> reply" where
  "routing_reply (Routing ErrUnknownAlias) = error_reply 404 ''model_not_found''"
| "routing_reply (Routing ErrNoHealthyDeployment) = error_reply 503 ''upstream_unavailable''"
| "routing_reply (Routing ErrDeploymentSaturated) = (error_reply 503 ''server_overloaded'')\<lparr>rep_retry := ''1''\<rparr>"
| "routing_reply (Call (Upstream provider status message)) =
     (if status = 429 then error_reply 429 ''rate_limit_exceeded''
      else if status = 408 then error_reply 504 ''upstream_timeout''
      else if status \<ge> 500 then error_reply 502 ''upstream_unavailable''
      else error_reply 502 ''upstream_error'')"
| "routing_reply (Call DeadlineExceeded) = error_reply 504 ''upstream_timeout''"
| "routing_reply (Call _) = error_reply 502 ''upstream_error''"
| "routing_reply (ConcurrencyDenied kind retry) = the (concurrencyErrorDetails (ConcurrencyDenied kind retry))"
| "routing_reply (ConcurrencyUnavailable kind) = the (concurrencyErrorDetails (ConcurrencyUnavailable kind))"
| "routing_reply AccountingUnavailable = error_reply 503 ''accounting_unavailable''"
| "routing_reply GuardUnsupported = error_reply 400 ''guardrail_unsupported''"
| "routing_reply (Panicked p) = error_reply 500 ''internal_error''"

section \<open>The embeddings endpoint\<close>

record embeddings_request =
  eq_Model :: string
  eq_Input :: embedding_input
  eq_User :: string

record embeddings_response =
  er_Model :: string
  er_Usage :: usage
  er_UsageReported :: bool

record serve_env =
  se_admit :: "embeddings_response admit_env"
  se_deny :: db_env
  se_rate_ms :: int
  se_rate_now :: gotime
  se_rate :: db_env
  se_load_sa :: "int \<Rightarrow> string + service_account"
  se_budget :: db_env
  se_attempts :: "embeddings_response attempt_env list"
  se_record :: db_env
  se_marshal :: "usage \<Rightarrow> string"
  se_started :: gotime
  se_release :: "embeddings_response attempt_env"
  se_finish :: db_env

definition no_usage :: usage where
  "no_usage = \<lparr>PromptTokens = 0, CompletionTokens = 0, TotalTokens = 0, PromptTokensDetails = None,
     CompletionTokensDetails = None, CacheCreationInputTokens = 0, CacheReadInputTokens = 0, CacheCreation = None\<rparr>"

text \<open>The function that \<open>admitRequestConcurrency\<close> hands to the endpoint to defer.\<close>

definition releaseModel :: "serve_env \<Rightarrow> lease option \<Rightarrow> v1_state \<Rightarrow> v1_state" where
  "releaseModel se l v = finishAccounting (se_finish se) (v\<lparr>v_gateway := releaseRoutingLease (se_release se) l (v_gateway v)\<rparr>)"

definition writeRoutingError ::
  "pricing_row list option \<Rightarrow> serve_env \<Rightarrow> inference_request \<Rightarrow> string \<Rightarrow> gw_error \<Rightarrow> v1_state \<Rightarrow> reply \<times> v1_state" where
  "writeRoutingError pricing se r alias err v =
     (let reply = routing_reply err in
      (reply, recordUsage pricing (se_marshal se) (se_record se) r
         \<lparr>cm_resolved = None, cm_alias = alias, cm_modelUsed = [], cm_usage = no_usage, cm_started = se_started se,
          cm_status = rep_status reply, cm_error = rep_type reply, cm_cached = False, cm_origin = [], cm_tags = [],
          cm_timings = no_timings\<lparr>tm_UnknownUsage := True\<rparr>\<rparr> v))"

text \<open>From the admitted request to its reply, before what is deferred.\<close>

definition serve_embeddings ::
  "request_env \<Rightarrow> pricing_row list option \<Rightarrow> serve_env \<Rightarrow> inference_request \<Rightarrow> embeddings_request \<Rightarrow> v1_state \<Rightarrow> (reply \<times> v1_state) option" where
  "serve_embeddings req pricing se r q v =
     (let alias = eq_Model q;
          tokens = EstimateEmbeddingTokens (Some (eq_Input q))
      in (case enforceRateLimit (se_rate_ms se) (se_rate_now se) (se_rate se) r alias tokens v of
            (Some reply, v1) \<Rightarrow> Some (reply, v1)
          | (None, v1) \<Rightarrow>
              (case enforceBudget pricing (se_load_sa se) (se_budget se) r alias tokens 0 CapabilityEmbeddings v1 of
                 (Some reply, v2) \<Rightarrow> Some (reply, v2)
               | (None, v2) \<Rightarrow>
                   (case runEmbeddingsWithFallback req alias (resolveContextFromRequest r) (se_attempts se) (v_gateway v2) of
                      None \<Rightarrow> None
                    | Some (Inl (_, Panicked p), gw) \<Rightarrow>
                        Some (error_reply 500 ''internal_error'',
                              reconcileBudgetOnPanic pricing (se_record se) (rq_id r) (v2\<lparr>v_gateway := gw\<rparr>))
                    | Some (Inl (_, err), gw) \<Rightarrow> Some (writeRoutingError pricing se r alias err (v2\<lparr>v_gateway := gw\<rparr>))
                    | Some (Inr (target, resp), gw) \<Rightarrow>
                        Some (error_reply 200 [],
                              recordUsage pricing (se_marshal se) (se_record se) r
                                \<lparr>cm_resolved = Some target, cm_alias = alias, cm_modelUsed = er_Model resp, cm_usage = er_Usage resp,
                                 cm_started = se_started se, cm_status = 200, cm_error = [], cm_cached = False, cm_origin = [],
                                 cm_tags = rc_Tags (resolveContextFromRequest r),
                                 cm_timings = no_timings\<lparr>tm_UnknownUsage := \<not> er_UsageReported resp\<rparr>\<rparr> (v2\<lparr>v_gateway := gw\<rparr>))))))"

text \<open>\<open>parsed\<close> is the decoded body, \<open>None\<close> if it does not decode.\<close>

definition Embeddings ::
  "request_env \<Rightarrow> pricing_row list option \<Rightarrow> serve_env \<Rightarrow> inference_request \<Rightarrow> embeddings_request option \<Rightarrow> v1_state \<Rightarrow> (reply \<times> v1_state) option" where
  "Embeddings req pricing se r parsed v =
     (if rq_team r = None then Some (error_reply 401 ''authentication_error'', v)
      else (case parsed of
        None \<Rightarrow> Some (error_reply 400 ''invalid_request'', v)
      | Some q \<Rightarrow>
          if eq_Model q = [] then Some (error_reply 400 ''invalid_request'', v)
          else if EmbeddingInput_Len (eq_Input q) = 0 then Some (error_reply 400 ''invalid_request'', v)
          else if \<not> modelAllowed (rq_team r) (rq_key r) (eq_Model q)
          then Some (error_reply 403 ''model_not_allowed'', recordDenial (se_deny se) r (eq_Model q) 403 ''model_not_allowed'' v)
          else (case admitRequestConcurrency req (se_admit se) (eq_Model q) (eq_User q) r v of
                  (Inl p, v1) \<Rightarrow> Some (error_reply 500 ''internal_error'', v1)
                | (Inr (Inl reply), v1) \<Rightarrow> Some (reply, v1)
                | (Inr (Inr (guard, l, r1)), v1) \<Rightarrow>
                    (case serve_embeddings req pricing se r1 q v1 of
                       None \<Rightarrow> None
                     | Some (reply, v2) \<Rightarrow> Some (reply, releaseModel se l v2)))))"

section \<open>Every request is accounted\<close>

definition failures :: "v1_state \<Rightarrow> nat" where
  "failures v = (case v_logger v of None \<Rightarrow> 0 | Some l \<Rightarrow> lg_failures l)"

lemma set_ledger_fields [simp]:
  "v_ledger (set_ledger db v) = db" "v_logger (set_ledger db v) = v_logger v" "gw_run (v_gateway (set_ledger db v)) = gw_run (v_gateway v)"
  "gw_calls (v_gateway (set_ledger db v)) = gw_calls (v_gateway v)" "gw_registry (v_gateway (set_ledger db v)) = gw_registry (v_gateway v)"
  "v_ledger (set_run run v) = v_ledger v" "v_logger (set_run run v) = v_logger v" "gw_run (v_gateway (set_run run v)) = run"
  "gw_calls (v_gateway (set_run run v)) = gw_calls (v_gateway v)"
  by (simp_all add: set_ledger_def set_run_def v_ledger_def)

lemma is_pending_progress: "progress db db' \<Longrightarrow> is_pending rid db' \<Longrightarrow> is_pending rid db"
  using progress_row unfolding is_pending_def keeps_row_def by metis

definition distinct_ids :: "ledger \<Rightarrow> bool" where
  "distinct_ids db \<longleftrightarrow> distinct (map j_request_id (journal db))"

lemma distinct_ids_progress: "progress db db' \<Longrightarrow> distinct_ids db' = distinct_ids db"
  by (simp add: distinct_ids_def progress_ids)

lemma find_journal_pending:
  assumes "distinct_ids db" and "find_journal rid (journal db) = Some j" and "j_state j \<noteq> ''pending''"
  shows "\<not> is_pending rid db"
proof -
  from assms(2) have "j \<in> set (journal db)" "j_request_id j = rid"
    by (auto simp: find_journal_def find_Some_iff)
  then show ?thesis using assms(1,3) unfolding is_pending_def distinct_ids_def distinct_map inj_on_def by metis
qed

lemma FinalizeUsage_completes:
  assumes fin: "FinalizeUsage ids now t e db = Inr (rc, db')" and rid: "e_AccountingID e = rid" "rid \<noteq> []" and dis: "distinct_ids db"
  shows "\<not> is_pending rid db'"
proof -
  from fin rid obtain j where j: "find_journal rid (journal db) = Some j" and f: "finalizeJournal ids now t j e False db = Inr (rc, db')"
    by (auto simp: FinalizeUsage_def split: option.splits)
  have jid: "j_request_id j = rid" using j by (auto simp: find_journal_def find_Some_iff)
  show ?thesis
  proof (cases "j_state j = ''complete''")
    case True
    then have "db' = db" using f by (auto simp: finalizeJournal_def split: if_splits elim!: bind_okE)
    then show ?thesis using find_journal_pending [OF dis j] True by simp
  next
    case False
    then have "\<exists>i js. journal db' = map (complete_row rid i t) js"
      using f jid by (auto simp: finalizeJournal_def split: if_splits elim!: bind_okE) blast
    then obtain i js where js: "journal db' = map (complete_row rid i t) js" by blast
    have "j_state (complete_row rid i t k) \<noteq> ''pending''" if "j_request_id (complete_row rid i t k) = rid" for k
      using that by (simp add: complete_row_def split: if_splits)
    then show ?thesis unfolding is_pending_def js by auto
  qed
qed

lemma Record_completes:
  assumes "Record ids now t io e l db = (Inr rc, l', db')" and "e_AccountingID e \<noteq> []" and "distinct_ids db"
  shows "\<not> is_pending (e_AccountingID e) db'"
proof -
  define e' where "e' = (if e_Ts e = None then e\<lparr>e_Ts := Some now\<rparr> else e)"
  have "FinalizeUsage ids now t e' db = Inr (rc, db')" and "e_AccountingID e' = e_AccountingID e"
    using assms(1) by (auto simp: Record_def e'_def Let_def with_db_def split: prod.splits sum.splits if_splits)
  then show ?thesis using FinalizeUsage_completes assms(2,3) by metis
qed

text \<open>The request \<open>rid\<close> has its accounting run, and a run marked complete has its intent completed.\<close>

definition acc_inv :: "string \<Rightarrow> v1_state \<Rightarrow> bool" where
  "acc_inv rid v \<longleftrightarrow> rid \<noteq> [] \<and> v_logger v \<noteq> None \<and> distinct_ids (v_ledger v)
     \<and> (\<exists>run. gw_run (v_gateway v) = Some run \<and> e_RequestID (run_entry run) = rid
          \<and> (run_complete run \<longrightarrow> \<not> is_pending rid (v_ledger v)))"

definition acc_step :: "string \<Rightarrow> v1_state \<Rightarrow> v1_state \<Rightarrow> bool" where
  "acc_step rid v v' \<longleftrightarrow> (acc_inv rid v \<longrightarrow> acc_inv rid v' \<and> failures v \<le> failures v')"

lemma acc_step_refl [simp]: "acc_step rid v v"
  by (simp add: acc_step_def)

lemma acc_step_trans [trans]: "acc_step rid u v \<Longrightarrow> acc_step rid v w \<Longrightarrow> acc_step rid u w"
  by (auto simp: acc_step_def)

text \<open>A step that keeps the logger, the accounting run up to its start, and moves the journal forward.\<close>

lemma acc_step_progress:
  assumes "v_logger v' = v_logger v" and "progress (v_ledger v) (v_ledger v')"
    and "\<And>run. gw_run (v_gateway v) = Some run \<Longrightarrow> \<exists>run'. gw_run (v_gateway v') = Some run'
           \<and> run_entry run' = run_entry run \<and> run_complete run' = run_complete run"
  shows "acc_step rid v v'"
proof -
  have "acc_inv rid v'" if inv: "acc_inv rid v"
  proof -
    from inv obtain run where run: "gw_run (v_gateway v) = Some run" "e_RequestID (run_entry run) = rid"
      "run_complete run \<longrightarrow> \<not> is_pending rid (v_ledger v)" by (auto simp: acc_inv_def)
    from assms(3) [OF run(1)] obtain run' where run': "gw_run (v_gateway v') = Some run'"
      "run_entry run' = run_entry run" "run_complete run' = run_complete run" by blast
    show ?thesis using inv run run' assms(1) distinct_ids_progress [OF assms(2)] is_pending_progress [OF assms(2), of rid]
      unfolding acc_inv_def by metis
  qed
  then show ?thesis using assms(1) by (simp add: acc_step_def failures_def)
qed

lemma acc_step_ledger: "journal db = journal (v_ledger v) \<Longrightarrow> acc_step rid v (set_ledger db v)"
  by (rule acc_step_progress) (auto simp: progress_same)

definition run_done :: "v1_state \<Rightarrow> bool" where
  "run_done v \<longleftrightarrow> (\<exists>run. gw_run (v_gateway v) = Some run \<and> run_complete run)"

text \<open>Recording usage completes the run or counts a failure.\<close>

lemma persistUsage_acc:
  assumes inv: "acc_inv rid v" and l: "v_logger v = Some l" and p: "persistUsage env e l v = (res, v')"
  shows "acc_inv rid v' \<and> failures v \<le> failures v' \<and> (run_done v' \<or> failures v < failures v')"
proof -
  from inv obtain run where run: "gw_run (v_gateway v) = Some run" "e_RequestID (run_entry run) = rid" and rid: "rid \<noteq> []"
    and comp: "run_complete run \<longrightarrow> \<not> is_pending rid (v_ledger v)" and dis: "distinct_ids (v_ledger v)"
    by (auto simp: acc_inv_def)
  define e' where "e' = e\<lparr>e_AccountingID := rid\<rparr>"
  obtain r0 l' db' where rec0: "Record (dbe_ids env) (dbe_now env) (dbe_db_now env) (dbe_io env) e' l (v_ledger v) = (r0, l', db')"
    using prod_cases3 by blast
  have "persistUsage env e l v = (r0, set_run (Some (case r0 of Inl _ \<Rightarrow> run\<lparr>run_pending := Some e'\<rparr>
      | Inr _ \<Rightarrow> run\<lparr>run_complete := True, run_pending := None\<rparr>)) (set_ledger db' (v\<lparr>v_logger := Some l'\<rparr>)))"
    unfolding persistUsage_def Let_def run(1) option.case run(2) e'_def [symmetric] rec0 prod.case ..
  with p have rec: "Record (dbe_ids env) (dbe_now env) (dbe_db_now env) (dbe_io env) e' l (v_ledger v) = (res, l', db')"
    and v': "v' = set_run (Some (case res of Inl _ \<Rightarrow> run\<lparr>run_pending := Some e'\<rparr> | Inr _ \<Rightarrow> run\<lparr>run_complete := True, run_pending := None\<rparr>))
        (set_ledger db' (v\<lparr>v_logger := Some l'\<rparr>))"
    using rec0 by auto
  note prog = progress_Record [OF rec]
  show ?thesis
  proof (cases res)
    case (Inl err)
    have "l' = l\<lparr>lg_failures := lg_failures l + 1\<rparr>" using Record_Inl [OF rec [unfolded Inl]] rid by (simp add: e'_def)
    then show ?thesis using v' Inl run rid comp l dis distinct_ids_progress [OF prog] is_pending_progress [OF prog, of rid]
      by (auto simp: acc_inv_def failures_def)
  next
    case (Inr rc)
    have "l' = l" using Record_Inr [OF rec [unfolded Inr]] .
    moreover have "\<not> is_pending rid db'" using Record_completes [OF rec [unfolded Inr]] rid dis by (simp add: e'_def)
    ultimately show ?thesis using v' Inr run rid l dis distinct_ids_progress [OF prog]
      by (auto simp: acc_inv_def failures_def run_done_def)
  qed
qed

lemma persistUsage_step: "v_logger v = Some l \<Longrightarrow> acc_step rid v (snd (persistUsage env e l v))"
  unfolding acc_step_def using persistUsage_acc [OF _ _ surjective_pairing] by blast

lemma recordDenial_acc: "acc_step rid v (recordDenial env r alias status code v)"
  unfolding recordDenial_def by (auto intro: persistUsage_step split: option.splits)

lemma settle_reservation_journal: "settle_reservation rid c m t db = Inr (row, db') \<Longrightarrow> journal db' = journal db"
  using settle_reservation_frame(2) by blast

lemma SettleEstimated_journal: "SettleEstimated t rid db = Inr (n, db') \<Longrightarrow> journal db' = journal db"
  by (auto simp: SettleEstimated_def split: if_splits option.splits elim!: bind_okE dest: settle_reservation_journal)

lemma Settle_journal: "Settle t rid c db = Inr db' \<Longrightarrow> journal db' = journal db"
  by (auto simp: Settle_def split: if_splits elim!: bind_okE dest: settle_reservation_journal)

lemma recordUsage_acc: "acc_step rid v (recordUsage pricing marshal env r c v)"
proof (cases "v_logger v")
  case None
  then show ?thesis by (simp add: acc_step_def acc_inv_def)
next
  case (Some l)
  then show ?thesis unfolding recordUsage_def by (simp add: persistUsage_step split: prod.split)
qed

lemma enforceRateLimit_acc: "acc_step rid v (snd (enforceRateLimit rms now env r alias tokens v))"
proof -
  have same: "acc_step rid v (v\<lparr>v_limiter := l\<rparr>)" for l by (rule acc_step_progress) (simp_all add: v_ledger_def progress_same)
  show ?thesis unfolding enforceRateLimit_def
    using same acc_step_trans [OF same recordDenial_acc] by (auto simp: Let_def split: option.splits prod.splits sum.splits)
qed

lemma insert_reservation_journal: "insert_reservation r db = Inr db' \<Longrightarrow> journal db' = journal db"
  by (auto simp: insert_reservation_def split: if_splits)

lemma Admit_journal: "Admit rows now t req db = Inr (x, db') \<Longrightarrow> journal db' = journal db"
  by (auto simp: Admit_def split: option.splits if_splits elim!: bind_okE dest: insert_reservation_journal)

lemma admit_tx_journal: "admit_tx rows env req db = (x, db') \<Longrightarrow> journal db' = journal db"
  by (auto simp: admit_tx_def dest: Admit_journal split: sum.splits prod.splits if_splits)

lemma enforceBudget_acc: "acc_step rid v (snd (enforceBudget pricing load_sa env r alias p c capability v))"
proof -
  have tx: "acc_step rid v (set_ledger db' v)" if "admit_tx rows env req (v_ledger v) = (x, db')" for rows req x db'
    using acc_step_ledger admit_tx_journal [OF that] by blast
  show ?thesis unfolding enforceBudget_def
    using tx acc_step_trans [OF tx recordDenial_acc]
    by (auto split: option.splits sum.splits prod.splits budget_error.splits if_splits)
qed

lemma reconcileBudgetOnPanic_acc: "acc_step rid v (reconcileBudgetOnPanic pricing env i v)"
  unfolding reconcileBudgetOnPanic_def
  by (auto intro: acc_step_ledger dest: SettleEstimated_journal split: sum.splits prod.splits)

text \<open>The upstream attempts only mark the intent as started.\<close>

definition run_kept :: "gateway \<Rightarrow> gateway \<Rightarrow> bool" where
  "run_kept gw gw' \<longleftrightarrow> progress (gw_ledger gw) (gw_ledger gw')
     \<and> (\<forall>run. gw_run gw = Some run \<longrightarrow> (\<exists>run'. gw_run gw' = Some run' \<and> run_entry run' = run_entry run \<and> run_complete run' = run_complete run))"

lemma run_kept_same: "gw_ledger gw' = gw_ledger gw \<Longrightarrow> gw_run gw' = gw_run gw \<Longrightarrow> run_kept gw gw'"
  by (simp add: run_kept_def progress_same)

lemma run_kept_trans [trans]:
  assumes "run_kept a b" and "run_kept b c"
  shows "run_kept a c"
  unfolding run_kept_def
proof (intro conjI allI impI)
  show "progress (gw_ledger a) (gw_ledger c)" using assms progress_trans unfolding run_kept_def by blast
next
  fix run assume "gw_run a = Some run"
  then obtain run1 where 1: "gw_run b = Some run1" "run_entry run1 = run_entry run" "run_complete run1 = run_complete run"
    using assms(1) unfolding run_kept_def by blast
  then obtain run2 where "gw_run c = Some run2" "run_entry run2 = run_entry run1" "run_complete run2 = run_complete run1"
    using assms(2) unfolding run_kept_def by blast
  with 1 show "\<exists>run'. gw_run c = Some run' \<and> run_entry run' = run_entry run \<and> run_complete run' = run_complete run" by auto
qed

lemma markAccountingStarted_run: "markAccountingStarted env gw = (x, gw') \<Longrightarrow> run_kept gw gw'"
  by (auto simp: markAccountingStarted_def run_kept_def progress_same dest: progress_Mark split: option.splits if_splits sum.splits)

lemma releaseDeploymentPermit_run: "run_kept gw (releaseDeploymentPermit p gw)"
  and releaseRoutingLease_run: "run_kept gw (releaseRoutingLease env l gw)"
  and on_registry_run: "run_kept gw (on_registry f gw)"
  by (simp_all add: run_kept_same)

lemma releaseUpstreamPermit_run: "run_kept gw (releaseUpstreamPermit env p gw)"
  by (simp add: releaseUpstreamPermit_def run_kept_same split: option.splits)

lemma tryAcquireDeployment_run: "tryAcquireDeployment target gw = (p, b, gw') \<Longrightarrow> run_kept gw gw'"
  by (auto simp: tryAcquireDeployment_def intro!: run_kept_same split: prod.splits)

lemma acquireRoutingScope_run: "acquireRoutingScope req env kind subject gw = (x, gw') \<Longrightarrow> run_kept gw gw'"
  by (auto intro: run_kept_same simp: acquireRoutingScope_frame)

lemma resolve_gw_run: "resolve_gw req env alias tried capability rc gw = (x, gw') \<Longrightarrow> run_kept gw gw'"
  by (auto simp: resolve_gw_def intro!: run_kept_same split: prod.splits sum.splits)

lemma tryAcquireUpstream_run:
  assumes "tryAcquireUpstream req env target gw = (x, gw')"
  shows "run_kept gw gw'"
proof -
  obtain p b gw1 where d: "tryAcquireDeployment target gw = (p, b, gw1)" using prod_cases3 by blast
  obtain y gw2 where s: "acquireRoutingScope req env ''provider'' (rs_ProviderType target) gw1 = (y, gw2)" by fastforce
  obtain z gw3 where m: "markAccountingStarted env gw2 = (z, gw3)" by fastforce
  note 1 = tryAcquireDeployment_run [OF d] and 2 = run_kept_trans [OF 1 acquireRoutingScope_run [OF s]]
    and 3 = run_kept_trans [OF 2 markAccountingStarted_run [OF m]]
  show ?thesis
    using assms d s m 1 run_kept_trans [OF 2 releaseDeploymentPermit_run] 3
      run_kept_trans [OF run_kept_trans [OF 3 releaseRoutingLease_run] releaseDeploymentPermit_run]
    by (auto simp: tryAcquireUpstream_def run_kept_same split: if_splits bool.splits sum.splits option.splits)
qed

lemma runWithFallback_run:
  "runWithFallback req alias capability rc envs tried lastErr saturated gw = Some (out, gw') \<Longrightarrow> run_kept gw gw'"
proof (induction envs arbitrary: tried lastErr saturated gw)
  case (Cons env envs)
  obtain x gw1 where r: "resolve_gw req env alias tried capability rc gw = (x, gw1)" by fastforce
  note k1 = resolve_gw_run [OF r]
  show ?case
  proof (cases x)
    case (Inl err)
    then show ?thesis using Cons.prems r k1 by simp
  next
    case (Inr target)
    obtain y gw2 where t: "tryAcquireUpstream req env target gw1 = (y, gw2)" by fastforce
    note k2 = run_kept_trans [OF k1 tryAcquireUpstream_run [OF t]]
    show ?thesis
    proof (cases y)
      case (Inl e)
      then show ?thesis using Cons.prems r Inr t k2 run_kept_trans [OF k2 Cons.IH] by (auto split: if_splits)
    next
      case (Inr po)
      show ?thesis
      proof (cases po)
        case None
        then show ?thesis using Cons.prems r \<open>x = Inr target\<close> t Inr run_kept_trans [OF k2 Cons.IH] by simp
      next
        case (Some p)
        define gw3 where "gw3 = releaseUpstreamPermit env (Some p) (gw2\<lparr>gw_calls := gw_calls gw2 @ [rs_DeploymentName target]\<rparr>)"
        have "run_kept gw2 (gw2\<lparr>gw_calls := gw_calls gw2 @ [rs_DeploymentName target]\<rparr>)" by (simp add: run_kept_same)
        from run_kept_trans [OF run_kept_trans [OF k2 this] releaseUpstreamPermit_run]
        have k3: "run_kept gw gw3" by (simp add: gw3_def)
        note k4 = run_kept_trans [OF k3 on_registry_run]
        show ?thesis
          using Cons.prems r \<open>x = Inr target\<close> t Inr Some k4 run_kept_trans [OF k4 Cons.IH]
          by (auto simp: Let_def gw3_def [symmetric] split: sum.splits if_splits)
      qed
    qed
  qed
qed simp

lemma run_kept_acc: "run_kept (v_gateway v) gw' \<Longrightarrow> acc_step rid v (v\<lparr>v_gateway := gw'\<rparr>)"
  by (rule acc_step_progress) (auto simp: run_kept_def v_ledger_def)

lemma serve_embeddings_acc:
  assumes "serve_embeddings req pricing se r q v = Some (reply, v')"
  shows "acc_step rid v v'"
proof -
  let ?al = "eq_Model q" and ?tokens = "EstimateEmbeddingTokens (Some (eq_Input q))"
  obtain x1 v1 where 1: "enforceRateLimit (se_rate_ms se) (se_rate_now se) (se_rate se) r ?al ?tokens v = (x1, v1)" by fastforce
  obtain x2 v2 where 2: "enforceBudget pricing (se_load_sa se) (se_budget se) r ?al ?tokens 0 CapabilityEmbeddings v1 = (x2, v2)"
    by fastforce
  have s1: "acc_step rid v v1" using enforceRateLimit_acc [of rid v] 1 by (metis snd_conv)
  have s2: "acc_step rid v v2" using acc_step_trans [OF s1] enforceBudget_acc [of rid v1] 2 by (metis snd_conv)
  have s3: "acc_step rid v (v2\<lparr>v_gateway := gw\<rparr>)"
    if "runEmbeddingsWithFallback req ?al (resolveContextFromRequest r) (se_attempts se) (v_gateway v2) = Some (out, gw)" for out gw
    using acc_step_trans [OF s2 run_kept_acc] runWithFallback_run that unfolding runEmbeddingsWithFallback_def by blast
  note ends = acc_step_trans [OF s3 recordUsage_acc] acc_step_trans [OF s3 reconcileBudgetOnPanic_acc]
  show ?thesis
    using assms 1 2 s1 s2 ends
    by (auto simp: serve_embeddings_def writeRoutingError_def Let_def split: option.splits prod.splits sum.splits gw_error.splits)
qed

lemma finishAccounting_acc:
  assumes "acc_inv rid v"
  shows "acc_inv rid (finishAccounting env v) \<and> failures v \<le> failures (finishAccounting env v)
    \<and> (run_done (finishAccounting env v) \<or> failures v < failures (finishAccounting env v))"
proof -
  from assms obtain run l where run: "gw_run (v_gateway v) = Some run" and l: "v_logger v = Some l" by (auto simp: acc_inv_def)
  show ?thesis
  proof (cases "run_complete run")
    case True
    then show ?thesis using assms run l by (simp add: finishAccounting_def run_done_def)
  next
    case False
    then show ?thesis
      using persistUsage_acc [OF assms l surjective_pairing] by (simp add: finishAccounting_def run l Let_def)
  qed
qed

lemma acc_done: "acc_inv rid v \<Longrightarrow> run_done v \<Longrightarrow> \<not> is_pending rid (v_ledger v)"
  by (auto simp: acc_inv_def run_done_def)

lemma releaseModel_acc:
  assumes "acc_inv rid v"
  shows "\<not> is_pending rid (v_ledger (releaseModel se l v)) \<or> failures v < failures (releaseModel se l v)"
proof -
  let ?v1 = "v\<lparr>v_gateway := releaseRoutingLease (se_release se) l (v_gateway v)\<rparr>"
  have "acc_inv rid ?v1" and f: "failures ?v1 = failures v"
    using run_kept_acc [OF releaseRoutingLease_run] assms by (auto simp: acc_step_def failures_def)
  then show ?thesis using finishAccounting_acc [of rid ?v1 "se_finish se"] acc_done unfolding releaseModel_def by force
qed

text \<open>Before its accounting begins, a request changes no run.\<close>

definition not_begun :: "v1_state \<Rightarrow> v1_state \<Rightarrow> bool" where
  "not_begun v v' \<longleftrightarrow> (v_logger v \<noteq> None \<and> distinct_ids (v_ledger v) \<and> gw_run (v_gateway v) = None \<longrightarrow>
     v_logger v' \<noteq> None \<and> distinct_ids (v_ledger v') \<and> gw_run (v_gateway v') = None
     \<and> gw_calls (v_gateway v') = gw_calls (v_gateway v) \<and> failures v \<le> failures v')"

lemma not_begun_persist:
  assumes "v_logger v = Some l"
  shows "not_begun v (snd (persistUsage env e l v))"
proof -
  obtain r l' db' where rec: "Record (dbe_ids env) (dbe_now env) (dbe_db_now env) (dbe_io env) e l (v_ledger v) = (r, l', db')"
    using prod_cases3 by blast
  have "lg_failures l \<le> lg_failures l'"
    using Record_Inl Record_Inr rec by (cases r) (fastforce split: if_splits)+
  then show ?thesis
    using rec assms distinct_ids_progress [OF progress_Record [OF rec]]
    by (auto simp: not_begun_def persistUsage_def Let_def failures_def)
qed

lemma not_begun_refl [simp]: "not_begun v v" and not_begun_decisions [simp]: "not_begun v (v\<lparr>v_decisions := log\<rparr>)"
  by (auto simp: not_begun_def v_ledger_def failures_def)

lemma not_begun_trans [trans]: "not_begun u v \<Longrightarrow> not_begun v w \<Longrightarrow> not_begun u w"
  by (auto simp: not_begun_def)

lemma not_begun_denial: "not_begun v (recordDenial env r alias status code v)"
  unfolding recordDenial_def by (auto intro: not_begun_persist split: option.splits)

lemma not_begun_customer: "resolveRequestCustomer ce env alias user r v = (x, r', v') \<Longrightarrow> not_begun v v'"
  by (auto simp: resolveRequestCustomer_def Let_def not_begun_denial split: option.splits if_splits customer_lookup.splits)

lemma begin_entry_id: "e_RequestID (begin_entry env r team alias) = rq_id r"
  by (simp add: begin_entry_def attributeCustomer_def attributeKey_def split: option.splits)

lemma BeginAccounting_ok:
  assumes "BeginAccounting json_len now t e remaining db = Inr db'" and "distinct_ids db"
  shows "e_RequestID e \<noteq> [] \<and> distinct_ids db'"
proof -
  from assms(1) obtain row where js: "journal db' = journal db @ [row]" "j_request_id row = e_RequestID e"
    and fresh: "find_journal (e_RequestID e) (journal db) = None" and id: "e_RequestID e \<noteq> []"
    by (auto simp: BeginAccounting_def Let_def split: if_splits option.splits)
  have "e_RequestID e \<notin> j_request_id ` set (journal db)" using fresh by (auto simp: find_journal_def find_None_iff)
  then show ?thesis using js id assms(2) by (simp add: distinct_ids_def)
qed

lemma begin_intent_cases:
  assumes "begin_intent env e v = (res, v')" and "v_logger v \<noteq> None" and "distinct_ids (v_ledger v)"
  shows "case res of Some _ \<Rightarrow> not_begun v v' | None \<Rightarrow> acc_inv (e_RequestID e) v' \<and> failures v' = failures v"
proof (cases "BeginAccounting (be_json_len env) (dbe_now (be_db env)) (dbe_db_now (be_db env)) e
    (case be_remaining env of None \<Rightarrow> 90 * Second | Some d \<Rightarrow> d) (v_ledger v)")
  case (Inl err)
  then have "v' = v" "res \<noteq> None" using assms(1) by (auto simp: begin_intent_def)
  then show ?thesis by auto
next
  case (Inr db')
  note ok = BeginAccounting_ok [OF Inr assms(3)]
  have moved: "not_begun v (set_ledger db' v)" using ok by (simp add: not_begun_def failures_def)
  show ?thesis
  proof (cases "dbe_io (be_db env) = Db_ok")
    case True
    then show ?thesis using assms(1,2) Inr ok by (auto simp: begin_intent_def acc_inv_def failures_def)
  next
    case False
    then show ?thesis using assms(1) Inr moved by (auto simp: begin_intent_def)
  qed
qed

lemma beginAccounting_cases:
  assumes b: "beginAccounting env r alias v = (res, r', v')" and v: "v_logger v \<noteq> None" "distinct_ids (v_ledger v)"
  shows "case res of Some _ \<Rightarrow> not_begun v v' | None \<Rightarrow> acc_inv (rq_id r') v' \<and> failures v' = failures v"
proof -
  obtain l where l: "v_logger v = Some l" using v(1) by blast
  define r1 where "r1 = (if rq_id r = [] then r\<lparr>rq_id := the (be_entropy env)\<rparr> else r)"
  show ?thesis
  proof (cases "is_ready l \<and> \<not> (rq_id r = [] \<and> be_entropy env = None) \<and> rq_team r1 \<noteq> None")
    case True
    then obtain team where team: "rq_team r1 = Some team" by blast
    obtain x v1 where i: "begin_intent env (begin_entry env r1 team alias) v = (x, v1)" by fastforce
    have "beginAccounting env r alias v = (x, r1, v1)"
      using True team i l by (auto simp: beginAccounting_def Let_def r1_def)
    then show ?thesis using begin_intent_cases [OF i v] b by (cases x) (auto simp: begin_entry_id)
  next
    case False
    then have "v' = v \<and> res \<noteq> None" using b l by (auto simp: beginAccounting_def Let_def r1_def split: if_splits)
    then show ?thesis by auto
  qed
qed

text \<open>What is left of a request: its intent is completed, a failure has been counted, or it never began.\<close>

definition accounted :: "v1_state \<Rightarrow> v1_state \<Rightarrow> bool" where
  "accounted v v' \<longleftrightarrow> gw_run (v_gateway v') = None \<and> gw_calls (v_gateway v') = gw_calls (v_gateway v)
     \<or> (\<exists>run. gw_run (v_gateway v') = Some run
          \<and> (\<not> is_pending (e_RequestID (run_entry run)) (v_ledger v') \<or> failures v < failures v'))"

definition fresh_state :: "v1_state \<Rightarrow> bool" where
  "fresh_state v \<longleftrightarrow> v_logger v \<noteq> None \<and> distinct_ids (v_ledger v) \<and> gw_run (v_gateway v) = None"

lemma accounted_not_begun: "fresh_state v \<Longrightarrow> not_begun v v' \<Longrightarrow> accounted v v'"
  by (simp add: fresh_state_def not_begun_def accounted_def)

lemma not_begun_fresh: "fresh_state v \<Longrightarrow> not_begun v v' \<Longrightarrow> fresh_state v' \<and> failures v \<le> failures v'"
  by (simp add: fresh_state_def not_begun_def)

lemma acc_inv_accounted:
  assumes "acc_inv rid v'" and "\<not> is_pending rid (v_ledger v') \<or> failures v < failures v'"
  shows "accounted v v'"
  using assms by (auto simp: acc_inv_def accounted_def)

lemma admitRequestConcurrency_accounted:
  assumes adm: "admitRequestConcurrency req env alias user r v = (res, v')" and v: "fresh_state v"
  shows "case res of
      Inr (Inr (guard, l, r')) \<Rightarrow> acc_inv (rq_id r') v' \<and> failures v \<le> failures v'
    | _ \<Rightarrow> accounted v v'"
proof -
  obtain g log where g: "loadGuardrails (ad_guard_up env) (ad_policies env) (ad_guard env) (v_decisions v) = (g, log)" by fastforce
  let ?v0 = "v\<lparr>v_decisions := log\<rparr>"
  consider (guard_panic) p where "g = Inl p" | (guard_deny) status code where "g = Inr (Inl (status, code))" | (pass) guard where "g = Inr (Inr guard)"
    by (metis surj_pair sum.exhaust)
  then show ?thesis
  proof cases
    case guard_panic
    then show ?thesis using adm g accounted_not_begun [OF v, of ?v0] by (auto simp: admitRequestConcurrency_def)
  next
    case guard_deny
    then show ?thesis using adm g accounted_not_begun [OF v not_begun_trans [OF not_begun_decisions not_begun_denial]]
      by (auto simp: admitRequestConcurrency_def)
  next
    case pass
    obtain x1 r1 v1 where c: "resolveRequestCustomer (ad_customer env) (ad_deny env) alias user r ?v0 = (x1, r1, v1)"
      using prod_cases3 by blast
    have n1: "not_begun v v1" using not_begun_trans [OF not_begun_decisions not_begun_customer [OF c]] .
    have f1: "fresh_state v1" "failures v \<le> failures v1" using not_begun_fresh [OF v n1] by simp_all
    obtain x2 r2 v2 where b: "beginAccounting (ad_begin env) r1 alias v1 = (x2, r2, v2)" using prod_cases3 by blast
    obtain y leases where l: "acquireConcurrencyScopes req (ad_lease env) ''combined''
        (request_scopes req (ae_now (ad_lease env)) r2 alias (gw_registry (v_gateway v2))) (gw_leases (v_gateway v2)) = (y, leases)"
      by fastforce
    let ?v3 = "v2\<lparr>v_gateway := (v_gateway v2)\<lparr>gw_leases := leases\<rparr>\<rparr>"
    consider (customer) reply where "x1 = Some reply" | (refused) reply where "x1 = None" "x2 = Some reply" | (begun) "x1 = None" "x2 = None"
      by fastforce
    then show ?thesis
    proof cases
      case customer
      then show ?thesis using adm g pass c accounted_not_begun [OF v n1] by (auto simp: admitRequestConcurrency_def)
    next
      case refused
      then show ?thesis using adm g pass c b accounted_not_begun [OF v not_begun_trans [OF n1]]
          beginAccounting_cases [OF b] f1(1) by (auto simp: admitRequestConcurrency_def fresh_state_def)
    next
      case begun
      have i2: "acc_inv (rq_id r2) v2" "failures v2 = failures v1"
        using beginAccounting_cases [OF b] begun(2) f1(1) by (simp_all add: fresh_state_def)
      have "acc_step (rq_id r2) v2 ?v3" by (rule run_kept_acc) (simp add: run_kept_same)
      then have i3: "acc_inv (rq_id r2) ?v3" "failures v2 \<le> failures ?v3" using i2(1) by (simp_all add: acc_step_def)
      have fin: "accounted v (finishAccounting e1 (recordDenial e2 r3 a s code ?v3))" for e1 e2 r3 a s code
      proof -
        have i4: "acc_inv (rq_id r2) (recordDenial e2 r3 a s code ?v3)" "failures ?v3 \<le> failures (recordDenial e2 r3 a s code ?v3)"
          using recordDenial_acc [of "rq_id r2" ?v3] i3(1) by (simp_all add: acc_step_def)
        show ?thesis
          using finishAccounting_acc [OF i4(1), of e1] acc_done i4(2) i3(2) i2(2) f1(2)
          by (intro acc_inv_accounted [of "rq_id r2"]) (blast, fastforce)
      qed
      show ?thesis
        using adm g pass c b l begun fin i3 i2(2) f1(2) by (cases y) (auto simp: admitRequestConcurrency_def Let_def)
    qed
  qed
qed

text \<open>C11: No inference escapes accounting. When the embeddings endpoint has answered, however its calls to Redis, to the database and
  upstream turned out, either the request never began, and no upstream was called for it, or its durable intent is completed, or
  a failure has been counted, which pauses the gateway until recovery has completed the intent.\<close>

theorem every_request_is_accounted:
  assumes "Embeddings req pricing se r parsed v = Some (reply, v')" and "v_logger v \<noteq> None" and "distinct_ids (v_ledger v)"
    and "gw_run (v_gateway v) = None"
  shows "gw_run (v_gateway v') = None \<and> gw_calls (v_gateway v') = gw_calls (v_gateway v)
    \<or> (\<exists>run. gw_run (v_gateway v') = Some run
         \<and> (\<not> is_pending (e_RequestID (run_entry run)) (v_ledger v') \<or> failures v < failures v'))"
proof -
  have v: "fresh_state v" using assms by (simp add: fresh_state_def)
  have same: "accounted v v" using accounted_not_begun [OF v] by simp
  have "accounted v v'"
  proof (cases parsed)
    case None
    then show ?thesis using assms(1) same by (auto simp: Embeddings_def split: if_splits)
  next
    case (Some q)
    obtain res v1 where adm: "admitRequestConcurrency req (se_admit se) (eq_Model q) (eq_User q) r v = (res, v1)" by fastforce
    note a = admitRequestConcurrency_accounted [OF adm v]
    have served: "accounted v (releaseModel se l v2)"
      if "res = Inr (Inr (guard, l, r1))" "serve_embeddings req pricing se r1 q v1 = Some (rep, v2)" for guard l r1 rep v2
    proof -
      have "acc_inv (rq_id r1) v1" "failures v \<le> failures v1" using a that(1) by simp_all
      with serve_embeddings_acc [OF that(2), of "rq_id r1"] have i: "acc_inv (rq_id r1) v2" "failures v \<le> failures v2"
        by (simp_all add: acc_step_def)
      have "acc_inv (rq_id r1) (releaseModel se l v2)"
        using finishAccounting_acc run_kept_acc [OF releaseRoutingLease_run] i(1) unfolding releaseModel_def acc_step_def by blast
      then show ?thesis using releaseModel_acc [OF i(1)] i(2) by (intro acc_inv_accounted) (blast, fastforce)
    qed
    have deny: "accounted v (recordDenial e r a s c v)" for e a s c using accounted_not_begun [OF v not_begun_denial] .
    show ?thesis
      using assms(1) Some adm a same served deny
      by (auto simp: Embeddings_def split: if_splits sum.splits prod.splits option.splits)
  qed
  then show ?thesis unfolding accounted_def .
qed

definition sample_db_env :: db_env where
  "sample_db_env = \<lparr>dbe_ids = sample_live, dbe_now = 50, dbe_db_now = 50, dbe_io = Db_ok\<rparr>"

definition sample_caller :: inference_request where
  "sample_caller = \<lparr>rq_team = Some (sample_team\<lparr>t_UsdLimitCents := None\<rparr>), rq_key = None, rq_user = None, rq_customer = None,
     rq_id = ''req'', rq_header = (\<lambda>_. [])\<rparr>"

definition sample_v1 :: v1_state where
  "sample_v1 = \<lparr>v_gateway = sample_gw\<lparr>gw_registry := sample_registry\<lparr>rg_deploymentLimits := Some [''a'' \<mapsto> ctr_New 0, ''b'' \<mapsto> ctr_New 0]\<rparr>\<rparr>, v_logger = Some NewLogger, v_limiter = None, v_decisions = []\<rparr>"

definition sample_attempt :: "embeddings_response attempt_env" where
  "sample_attempt = \<lparr>ae_now = 50, ae_peer = (\<lambda>_. Inr None), ae_mirror = Inr (0, None), ae_now_ms = 0, ae_io = Io_ok, ae_release_io = Io_ok,
     ae_lease_id = ''x'', ae_remaining = None, ae_db_now = 50, ae_db_up = True, ae_done_before = None,
     ae_result = Inr \<lparr>er_Model = ''llama3'', er_Usage = no_usage, er_UsageReported = True\<rparr>, ae_done_after = False\<rparr>"

definition sample_serve :: serve_env where
  "sample_serve = \<lparr>se_admit = \<lparr>ad_policies = Inr [], ad_guard_up = True,
       ad_guard = sample_guard_request\<lparr>gq_path := ''/v1/embeddings''\<rparr>,
       ad_customer = \<lparr>ce_has_store = True, ce_get = Customer_missing, ce_get_or_create = Customer_missing\<rparr>, ad_deny = sample_db_env,
       ad_begin = \<lparr>be_db = sample_db_env, be_remaining = None, be_entropy = None, be_json_len = (\<lambda>_. Some 100), be_nonBillable = False\<rparr>,
       ad_lease = sample_attempt, ad_finish = sample_db_env\<rparr>,
     se_deny = sample_db_env, se_rate_ms = 0, se_rate_now = 50, se_rate = sample_db_env, se_load_sa = (\<lambda>_. Inl []),
     se_budget = sample_db_env, se_attempts = [sample_attempt, sample_attempt], se_record = sample_db_env\<lparr>dbe_io := Db_lost False\<rparr>,
     se_marshal = (\<lambda>_. []), se_started = 0, se_release = sample_attempt, se_finish = sample_db_env\<lparr>dbe_io := Db_lost False\<rparr>\<rparr>"

definition sample_embeddings :: embeddings_request where
  "sample_embeddings = \<lparr>eq_Model = ''gpt'', eq_Input = \<lparr>ei_Texts = [''hello''], ei_Tokens = []\<rparr>, eq_User = []\<rparr>"

definition embeddings_run :: "(reply \<times> v1_state) option" where
  "embeddings_run = Embeddings sample_req None sample_serve sample_caller (Some sample_embeddings) sample_v1"

lemma embeddings_run_ok: "case embeddings_run of None \<Rightarrow> False | Some (rep, v') \<Rightarrow> rep_status rep = 200
    \<and> gw_calls (v_gateway v') = [''b''] \<and> gw_run (v_gateway v') \<noteq> None \<and> failures v' = 2"
  by code_simp

theorem every_request_is_accounted_witness:
  "\<exists>rep v' run. embeddings_run = Some (rep, v') \<and> gw_calls (v_gateway v') = [''b''] \<and> gw_run (v_gateway v') = Some run
     \<and> (\<not> is_pending (e_RequestID (run_entry run)) (v_ledger v') \<or> 0 < failures v')"
proof -
  from embeddings_run_ok obtain rep v' where run: "embeddings_run = Some (rep, v')"
    and v': "gw_calls (v_gateway v') = [''b'']" "gw_run (v_gateway v') \<noteq> None" by (auto split: option.splits prod.splits)
  have v: "v_logger sample_v1 \<noteq> None" "distinct_ids (v_ledger sample_v1)" "gw_run (v_gateway sample_v1) = None" "failures sample_v1 = 0"
    by (simp_all add: sample_v1_def v_ledger_def sample_gw_def empty_ledger_def distinct_ids_def failures_def NewLogger_def)
  from every_request_is_accounted [OF run [unfolded embeddings_run_def] v(1,2,3)] v(4) v' run show ?thesis by auto
qed

section \<open>No call without a reservation\<close>

lemma servable_stream: "servable r CapabilityStreamChat t = Some x \<Longrightarrow> servable r CapabilityChat t = Some x"
  by (auto simp: servable_def Supports_def capability_names split: option.splits if_splits)

text \<open>The capability a call asks for is the one its budget was computed for, or streaming where that was chat.\<close>

definition call_capability :: "string \<Rightarrow> string \<Rightarrow> bool" where
  "call_capability budgeted asked \<longleftrightarrow> asked = budgeted \<or> budgeted = CapabilityChat \<and> asked = CapabilityStreamChat"

lemma no_targets_no_resolution:
  assumes t: "TargetsFor alias budgeted r = Inl e" and cap: "call_capability budgeted asked"
  shows "\<exists>err r'. ResolveWithContext getenv peer now alias tried asked rc r = (Inr (Inl err), r')"
proof (cases "map_of (rg_aliases r) alias")
  case None
  then show ?thesis by (simp add: ResolveWithContext_def)
next
  case (Some targets)
  show ?thesis
  proof (cases "targets = []")
    case True
    then show ?thesis using Some by (simp add: ResolveWithContext_def)
  next
    case False
    have "servable r budgeted x = None" if "x \<in> set targets" for x
      using t Some False that
      by (cases "servable r budgeted x") (auto simp: TargetsFor_def Let_def List.map_filter_def filter_empty_conv split: if_splits option.splits prod.splits)
    then have "servable r asked x = None" if "x \<in> set targets" for x
      using that cap servable_stream [of r x] by (cases "servable r asked x") (auto simp: call_capability_def)
    then have "\<not> eligible tried asked (alias_meta_of r alias) rc r x" if "x \<in> set targets" for x
      using that by (simp add: eligible_def)
    then show ?thesis
      using resolve_choice [OF Some False refl refl, of getenv peer now tried asked rc] by (fastforce split: sum.splits)
  qed
qed

lemma no_targets_no_call:
  assumes "TargetsFor alias budgeted (gw_registry gw) = Inl e" and "call_capability budgeted asked"
  shows "runWithFallback req alias asked rc envs [] None False gw = Some (out, gw') \<Longrightarrow> gw_calls gw' = gw_calls gw"
    and "asked = CapabilityStreamChat \<Longrightarrow> openStreamWithFallback req alias rc envs' gw = Some (out', gw'') \<Longrightarrow> gw_calls gw'' = gw_calls gw"
proof -
  have res: "\<exists>err r'. resolve_gw req env alias [] asked rc gw = (Inl err, gw\<lparr>gw_registry := r'\<rparr>)" for env :: "'z attempt_env"
    using no_targets_no_resolution [OF assms, of "re_getenv req" "ae_peer env" "ae_now env" "[]" rc]
    by (auto simp: resolve_gw_def)
  show "gw_calls gw' = gw_calls gw" if "runWithFallback req alias asked rc envs [] None False gw = Some (out, gw')"
    using that res [of "hd envs"] by (cases envs) auto
  have res': "\<exists>err r'. resolve_gw req env alias [] asked rc gw = (Inl err, gw\<lparr>gw_registry := r'\<rparr>)" for env :: "'y attempt_env"
    using no_targets_no_resolution [OF assms, of "re_getenv req" "ae_peer env" "ae_now env" "[]" rc]
    by (auto simp: resolve_gw_def)
  show "gw_calls gw'' = gw_calls gw" if "asked = CapabilityStreamChat" "openStreamWithFallback req alias rc envs' gw = Some (out', gw'')"
    using that res' [of "hd envs'"] by (cases envs') (auto simp: openStreamWithFallback_def split: option.splits)
qed

definition any_budget :: "admission_request \<Rightarrow> bool" where
  "any_budget req \<longleftrightarrow> teamBudget req \<or> userBudget req \<or> saBudget req \<or> keyBudget req \<or> customerBudget req"

lemma insert_reservation_finds:
  "insert_reservation row db = Inr db' \<Longrightarrow> find_reservation (r_request_id row) (reservations db') \<noteq> None"
  by (auto simp: insert_reservation_def find_reservation_def find_None_iff split: if_splits elim!: bind_okE)

lemma Admit_reserves:
  assumes "Admit rows now t req db = Inr (res, db')" and "any_budget req" and "ar_Team req \<noteq> None" "ar_RequestID req \<noteq> []" "ar_Alias req \<noteq> []"
  shows "find_reservation (ar_RequestID req) (reservations db') \<noteq> None"
proof -
  from assms obtain team cents cost where "insert_reservation (reservation_row req team cents cost t) db = Inr db'"
    by (auto simp: Admit_def any_budget_def split: option.splits if_splits elim!: bind_okE)
  from insert_reservation_finds [OF this] show ?thesis by (simp add: reservation_row_def)
qed

text \<open>The service account an admission looks at, loaded from the store.\<close>

definition loaded_account :: "(int \<Rightarrow> string + service_account) \<Rightarrow> inference_request \<Rightarrow> v1_state \<Rightarrow> service_account option" where
  "loaded_account load_sa r v =
     (if v_logger v = None then None
      else (case rq_key r of
              None \<Rightarrow> None
            | Some k \<Rightarrow> (case vk_ServiceAccountID k of
                          None \<Rightarrow> None
                        | Some sid \<Rightarrow> (case load_sa sid of Inl e \<Rightarrow> None | Inr sa \<Rightarrow> Some sa))))"

lemma enforceBudget_reserves:
  assumes pass: "enforceBudget (Some rows) load_sa env r alias p c capability v = (None, v')"
    and r: "rq_team r \<noteq> None" "alias \<noteq> []" "rq_id r \<noteq> []"
    and budget: "any_budget (budget_request r (loaded_account load_sa r v) alias p c [])"
    and targets: "TargetsFor alias capability (gw_registry (v_gateway v)) = Inr ts"
  shows "find_reservation (rq_id r) (reservations (v_ledger v')) \<noteq> None"
proof -
  let ?req = "budget_request r (loaded_account load_sa r v) alias p c ts"
  obtain x db' where tx: "admit_tx rows env ?req (v_ledger v) = (x, db')" by fastforce
  from pass r targets tx have x: "x = Inr ()" "v' = set_ledger db' v"
    by (auto simp: enforceBudget_def loaded_account_def split: if_splits option.splits sum.splits budget_error.splits prod.splits)
  from tx x(1) obtain res where adm: "Admit rows (dbe_now env) (dbe_db_now env) ?req (v_ledger v) = Inr (res, db')"
    by (auto simp: admit_tx_def split: sum.splits prod.splits if_splits)
  have "any_budget ?req" using budget
    by (simp add: any_budget_def budget_request_def teamBudget_def userBudget_def saBudget_def keyBudget_def customerBudget_def)
  from Admit_reserves [OF adm this] r x(2) show ?thesis by (simp add: budget_request_def)
qed

text \<open>C12: No provider is called on a budgeted request without a reservation. Budget admission lets a request pass unreserved when the
  router has no target for it. With the registry it has seen, such a request then reaches no provider either, in any
  chat, embeddings or streaming call and under any answers of the environment; every other request that passes under a budget has
  its reservation in the ledger.\<close>

theorem unreserved_request_reaches_no_provider:
  assumes "enforceBudget (Some rows) load_sa env r alias p c budgeted v = (None, v')"
    and "rq_team r \<noteq> None" and "alias \<noteq> []" and "rq_id r \<noteq> []"
    and "any_budget (budget_request r (loaded_account load_sa r v) alias p c [])"
    and "call_capability budgeted asked"
  shows "find_reservation (rq_id r) (reservations (v_ledger v')) \<noteq> None
    \<or> (\<forall>req rc (envs :: 'q attempt_env list) out gw'. runWithFallback req alias asked rc envs [] None False (v_gateway v') = Some (out, gw')
          \<longrightarrow> gw_calls gw' = gw_calls (v_gateway v'))
      \<and> (\<forall>req rc (envs :: 's attempt_env list) out gw'. asked = CapabilityStreamChat \<longrightarrow> openStreamWithFallback req alias rc envs (v_gateway v') = Some (out, gw')
          \<longrightarrow> gw_calls gw' = gw_calls (v_gateway v'))"
proof (cases "TargetsFor alias budgeted (gw_registry (v_gateway v))")
  case (Inl e)
  then have "v' = v" using assms(1-4) by (auto simp: enforceBudget_def)
  then show ?thesis using no_targets_no_call [OF Inl assms(6)] by blast
next
  case (Inr ts)
  then show ?thesis using enforceBudget_reserves [OF assms(1-5) Inr] by blast
qed

theorem unreserved_request_reaches_no_provider_witness:
  "\<exists>v'. enforceBudget (Some []) (\<lambda>_. Inl []) sample_db_env (sample_caller\<lparr>rq_team := Some sample_team\<rparr>) ''missing'' 5 0 CapabilityChat sample_v1 = (None, v')
     \<and> find_reservation ''req'' (reservations (v_ledger v')) = None
     \<and> (\<forall>out gw'. openStreamWithFallback sample_req ''missing'' no_context [sample_env] (v_gateway v') = Some (out, gw') \<longrightarrow> gw_calls gw' = [])"
proof -
  let ?r = "sample_caller\<lparr>rq_team := Some sample_team\<rparr>"
  have pass: "enforceBudget (Some []) (\<lambda>_. Inl []) sample_db_env ?r ''missing'' 5 0 CapabilityChat sample_v1 = (None, sample_v1)"
    by (simp add: enforceBudget_def sample_caller_def TargetsFor_def sample_v1_def sample_registry_def sample_gw_def)
  have budget: "any_budget (budget_request ?r (loaded_account (\<lambda>_. Inl []) ?r sample_v1) ''missing'' 5 0 [])"
    by (simp add: any_budget_def teamBudget_def budget_request_def sample_team_def positive_limit_def)
  have cap: "call_capability CapabilityChat CapabilityStreamChat" by (simp add: call_capability_def)
  have r: "rq_team ?r \<noteq> None" "''missing'' \<noteq> []" "rq_id ?r \<noteq> []" by (simp_all add: sample_caller_def)
  have none: "find_reservation (rq_id ?r) (reservations (v_ledger sample_v1)) = None" "gw_calls (v_gateway sample_v1) = []" "rq_id ?r = ''req''"
    by (simp_all add: sample_v1_def v_ledger_def sample_gw_def empty_ledger_def find_reservation_def sample_caller_def)
  from unreserved_request_reaches_no_provider [where ?'s = unit, OF pass r budget cap] none
  have "\<forall>req rc (envs :: unit attempt_env list) out gw'. openStreamWithFallback req ''missing'' rc envs (v_gateway sample_v1) = Some (out, gw') \<longrightarrow> gw_calls gw' = []"
    by auto
  with pass none show ?thesis by auto
qed

end
