(* ===== verification/Login_Throttle.thy ===== *)
theory Login_Throttle
  imports Gw_Prelude "HOL-Library.AList"
begin

text \<open>
  The throttle in front of password login and reset (\<^verbatim>\<open>internal/server/login_throttle.go\<close>): fixed windows of
  fifteen minutes, counted per source address and per account, in the process or in one Redis hash per window.

  \<^item> \<open>digest\<close> is SHA-256 in hexadecimal. Identities whose digests collide share a counter, as in the source; no
    theorem needs it to be injective.
  \<^item> A hash is the list of its fields with the millisecond at which it expires. Redis and the process read the
    same clock, and \<open>redis_up\<close> says whether the script runs.
\<close>

section \<open>Counters\<close>

definition loginCounterCapacity :: int where "loginCounterCapacity = 10000"

definition login_window :: duration where "login_window = 15 * Minute"

type_synonym counts = "(string \<times> int) list"

definition count_of :: "counts \<Rightarrow> string \<Rightarrow> int" where
  "count_of m f = (case map_of m f of None \<Rightarrow> 0 | Some n \<Rightarrow> n)"

definition bump :: "string \<Rightarrow> counts \<Rightarrow> counts" where
  "bump f m = AList.update f (count_of m f + 1) m"

text \<open>The first loop of the Lua script and of the local path: \<open>None\<close> when a limit is reached, else how many fields
  are new.\<close>

fun check_fields :: "counts \<Rightarrow> (string \<times> int) list \<Rightarrow> int \<Rightarrow> int option" where
  "check_fields m [] missing = Some missing"
| "check_fields m ((f, limit) # fs) missing =
     (if count_of m f \<ge> limit then None
      else check_fields m fs (if map_of m f = None then missing + 1 else missing))"

type_synonym hash_db = "string \<rightharpoonup> counts \<times> int"

definition live_hash :: "int \<Rightarrow> hash_db \<Rightarrow> string \<Rightarrow> counts" where
  "live_hash now_ms db k = (case db k of None \<Rightarrow> [] | Some (h, ex) \<Rightarrow> if ex \<le> now_ms then [] else h)"

definition loginAttemptScript :: "int \<Rightarrow> string \<Rightarrow> (string \<times> int) list \<Rightarrow> int \<Rightarrow> int \<Rightarrow> hash_db \<Rightarrow> int \<times> hash_db" where
  "loginAttemptScript now_ms k fds capacity ttl_ms db =
     (let h = live_hash now_ms db k in
      (case check_fields h fds 0 of
         None \<Rightarrow> (0, db)
       | Some missing \<Rightarrow>
           if int (length h) + missing > capacity then (-1, db)
           else (1, db(k \<mapsto> (fold bump (map fst fds) h, now_ms + ttl_ms)))))"

section \<open>The throttle\<close>

text \<open>\<open>lt_redis\<close> is the Redis store behind the client the server lends, or \<open>None\<close> for a nil client.\<close>

record login_throttle =
  lt_counts :: counts
  lt_bucket :: int
  lt_redis :: "hash_db option"
  lt_prefix :: string

definition newLoginThrottle :: login_throttle where
  "newLoginThrottle = \<lparr>lt_counts = [], lt_bucket = 0, lt_redis = None, lt_prefix = []\<rparr>"

definition loginIdentity :: "(string \<Rightarrow> string) \<Rightarrow> string \<Rightarrow> string \<Rightarrow> string" where
  "loginIdentity digest kind v = kind @ '':'' @ digest v"

definition login_fields :: "(string \<Rightarrow> string) \<Rightarrow> string \<Rightarrow> string \<Rightarrow> string \<Rightarrow> (string \<times> int) list" where
  "login_fields digest endpoint ip email =
     (loginIdentity digest ''ip'' (endpoint @ [CHR 0x00] @ ip), 20) #
     (if email \<noteq> [] then [(loginIdentity digest ''account'' (endpoint @ [CHR 0x00] @ email), 5)] else [])"

definition window_start :: "gotime \<Rightarrow> gotime" where
  "window_start now = now - now mod login_window"

definition unix_seconds :: "gotime \<Rightarrow> int" where
  "unix_seconds t = t div Second"

definition login_retry :: "gotime \<Rightarrow> duration" where
  "login_retry now = window_start now + login_window - now"

definition window_key :: "string \<Rightarrow> int \<Rightarrow> string" where
  "window_key prefix bucket = prefix @ '':{login-attempts}:'' @ show_int bucket"

text \<open>The two halves of \<open>allow\<close>. The status is 0 when the attempt may go on.\<close>

definition allow_redis ::
  "bool \<Rightarrow> gotime \<Rightarrow> (string \<times> int) list \<Rightarrow> login_throttle \<Rightarrow> hash_db \<Rightarrow> int \<times> login_throttle" where
  "allow_redis redis_up now fds t db =
     (if \<not> redis_up then (503, t)
      else (case loginAttemptScript (now div Millisecond) (window_key (lt_prefix t) (unix_seconds (window_start now)))
                   fds loginCounterCapacity (login_retry now div Millisecond + 1) db of
              (result, db') \<Rightarrow>
                (if result < 0 then 503 else if result = 0 then 429 else 0, t\<lparr>lt_redis := Some db'\<rparr>)))"

definition allow_local :: "gotime \<Rightarrow> (string \<times> int) list \<Rightarrow> login_throttle \<Rightarrow> int \<times> login_throttle" where
  "allow_local now fds t =
     (let bucket = unix_seconds (window_start now);
          t1 = (if lt_bucket t \<noteq> bucket then t\<lparr>lt_bucket := bucket, lt_counts := []\<rparr> else t)
      in (case check_fields (lt_counts t1) fds 0 of
            None \<Rightarrow> (429, t1)
          | Some missing \<Rightarrow>
              if int (length (lt_counts t1)) + missing > loginCounterCapacity then (503, t1)
              else (0, t1\<lparr>lt_counts := fold bump (map fst fds) (lt_counts t1)\<rparr>)))"

definition allow ::
  "(string \<Rightarrow> string) \<Rightarrow> bool \<Rightarrow> gotime \<Rightarrow> string \<Rightarrow> string \<Rightarrow> string \<Rightarrow> login_throttle \<Rightarrow> (int \<times> duration) \<times> login_throttle" where
  "allow digest redis_up now endpoint ip email t =
     (let fds = login_fields digest endpoint ip email in
      (case lt_redis t of
         Some db \<Rightarrow> (case allow_redis redis_up now fds t db of (status, t') \<Rightarrow> ((status, login_retry now), t'))
       | None \<Rightarrow> (case allow_local now fds t of (status, t') \<Rightarrow> ((status, login_retry now), t'))))"

section \<open>The middleware\<close>

text \<open>A request: its path and client address, and its body if it has one. \<open>email_of\<close> is the \<open>email\<close> field of the
  decoded body, empty if there is none; \<open>to_lower\<close> is \<open>strings.ToLower\<close>.\<close>

record login_request =
  lq_path :: string
  lq_ip :: string
  lq_body :: "string option"

definition login_endpoint :: "login_request \<Rightarrow> string" where
  "login_endpoint r = (if take 7 (lq_path r) = ''/reset/'' then ''reset'' else ''login'')"

definition login_account :: "(string \<Rightarrow> string) \<Rightarrow> (string \<Rightarrow> string) \<Rightarrow> login_request \<Rightarrow> string" where
  "login_account to_lower email_of r =
     (case lq_body r of
        None \<Rightarrow> []
      | Some body \<Rightarrow> if login_endpoint r = ''login'' then to_lower (TrimSpace (email_of body)) else [])"

definition strconvSeconds :: "duration \<Rightarrow> string" where
  "strconvSeconds d = show_int (let seconds = wrap64 (wrap64 (d + Second) - 1) sdiv Second in if seconds < 1 then 1 else seconds)"

text \<open>What the middleware answers before it calls the handler, a status with its \<open>Retry-After\<close> header, or nothing.\<close>

definition login_middleware ::
  "(string \<Rightarrow> string) \<Rightarrow> (string \<Rightarrow> string) \<Rightarrow> (string \<Rightarrow> string) \<Rightarrow> bool \<Rightarrow> gotime \<Rightarrow> login_request \<Rightarrow> login_throttle \<Rightarrow>
     (int \<times> string) option \<times> login_throttle" where
  "login_middleware digest to_lower email_of redis_up now r t =
     (if (case lq_body r of None \<Rightarrow> False | Some b \<Rightarrow> int (length b) > 1048576) then (Some (413, []), t)
      else (case allow digest redis_up now (login_endpoint r) (lq_ip r) (login_account to_lower email_of r) t of
              ((status, retry), t') \<Rightarrow>
                (if status = 0 then None
                 else if status = 429 then Some (429, strconvSeconds retry)
                 else Some (status, ''1''), t')))"

section \<open>Sequences of attempts\<close>

record attempt =
  at_time :: gotime
  at_endpoint :: string
  at_ip :: string
  at_email :: string

fun run_login :: "(string \<Rightarrow> string) \<Rightarrow> attempt list \<Rightarrow> login_throttle \<Rightarrow> (int \<times> duration) list" where
  "run_login digest [] t = []"
| "run_login digest (a # as) t =
     (case allow digest True (at_time a) (at_endpoint a) (at_ip a) (at_email a) t of (d, t') \<Rightarrow> d # run_login digest as t')"

definition window_of :: "gotime \<Rightarrow> int" where
  "window_of now = unix_seconds (window_start now)"

lemma window_of_mono: "now \<le> now' \<Longrightarrow> window_of now \<le> window_of now'"
  by (simp add: window_of_def unix_seconds_def window_start_def login_window_def minus_mod_eq_mult_div zdiv_mono1)

text \<open>The keys of a hash outlive its window: the expiry set by the script is not before the window's end.\<close>

lemma window_end_ms:
  "now div Millisecond + (login_retry now div Millisecond + 1) \<ge> (window_of now + 900) * 1000"
  "now div Millisecond < (window_of now + 900) * 1000"
proof -
  have d: "window_start now = 900000000000 * (now div 900000000000)"
    by (simp add: window_start_def login_window_def minus_mod_eq_mult_div)
  then have w: "window_of now * 1000000000 = window_start now" by (simp add: window_of_def unix_seconds_def)
  have "now mod 900000000000 < 900000000000" by simp
  then have "now < window_start now + 900000000000"
    unfolding window_start_def login_window_def by simp
  then show "now div Millisecond < (window_of now + 900) * 1000" using w by simp
  have "login_retry now = window_of now * 1000000000 + 900000000000 - now"
    using w by (simp add: login_retry_def login_window_def)
  then show "now div Millisecond + (login_retry now div Millisecond + 1) \<ge> (window_of now + 900) * 1000" by simp
qed

lemma window_key_inject: "window_key p b = window_key p b' \<longleftrightarrow> b = b'"
  by (simp add: window_key_def show_int_inject)

subsection \<open>Redis and the process decide alike\<close>

text \<open>The relation between the two states at a time: the hash of the current window holds the local counts and is not
  about to expire, and there is nothing yet for later windows.\<close>

definition same_counts :: "gotime \<Rightarrow> login_throttle \<Rightarrow> string \<Rightarrow> hash_db \<Rightarrow> bool" where
  "same_counts now t p db \<longleftrightarrow>
     (\<forall>b \<ge> window_of now.
        (case db (window_key p b) of
           None \<Rightarrow> lt_bucket t = b \<longrightarrow> lt_counts t = []
         | Some (h, ex) \<Rightarrow> b = window_of now \<and> lt_bucket t = b \<and> h = lt_counts t \<and> (b + 900) * 1000 \<le> ex))"

definition local_counts :: "gotime \<Rightarrow> login_throttle \<Rightarrow> counts" where
  "local_counts now t = (if lt_bucket t = window_of now then lt_counts t else [])"

lemma same_counts_later:
  assumes "same_counts now t p db" and "now \<le> now'"
  shows "same_counts now' t p db"
  unfolding same_counts_def
proof (intro allI impI)
  fix b
  assume b: "window_of now' \<le> b"
  with window_of_mono [OF assms(2)] have "window_of now \<le> b" by simp
  with assms(1) b window_of_mono [OF assms(2)]
  show "case db (window_key p b) of None \<Rightarrow> lt_bucket t = b \<longrightarrow> lt_counts t = []
    | Some (h, ex) \<Rightarrow> b = window_of now' \<and> lt_bucket t = b \<and> h = lt_counts t \<and> (b + 900) * 1000 \<le> ex"
    unfolding same_counts_def by (cases "db (window_key p b)") (auto dest!: spec [of _ b])
qed

lemma same_counts_hash:
  assumes "same_counts now t p db"
  shows "live_hash (now div Millisecond) db (window_key p (window_of now)) = local_counts now t"
  using assms window_end_ms(2) [of now]
  by (auto simp: same_counts_def live_hash_def local_counts_def split: option.splits)

lemma same_counts_now:
  assumes "same_counts now t p db" and "lt_bucket t' = window_of now" and "lt_counts t' = local_counts now t"
  shows "same_counts now t' p db"
  unfolding same_counts_def
proof (intro allI impI)
  fix b
  assume "window_of now \<le> b"
  with assms(1) have "case db (window_key p b) of None \<Rightarrow> lt_bucket t = b \<longrightarrow> lt_counts t = []
    | Some (h, ex) \<Rightarrow> b = window_of now \<and> lt_bucket t = b \<and> h = lt_counts t \<and> (b + 900) * 1000 \<le> ex"
    unfolding same_counts_def by simp
  with assms(2,3) show "case db (window_key p b) of None \<Rightarrow> lt_bucket t' = b \<longrightarrow> lt_counts t' = []
    | Some (h, ex) \<Rightarrow> b = window_of now \<and> lt_bucket t' = b \<and> h = lt_counts t' \<and> (b + 900) * 1000 \<le> ex"
    by (cases "db (window_key p b)") (auto simp: local_counts_def)
qed

lemma same_counts_store:
  assumes "same_counts now t p db" and "lt_bucket t' = window_of now" and "lt_counts t' = h"
    and "(window_of now + 900) * 1000 \<le> ex"
  shows "same_counts now t' p (db(window_key p (window_of now) \<mapsto> (h, ex)))"
  unfolding same_counts_def
proof (intro allI impI)
  fix b
  assume "window_of now \<le> b"
  with assms(1) have "case db (window_key p b) of None \<Rightarrow> lt_bucket t = b \<longrightarrow> lt_counts t = []
    | Some (h, ex) \<Rightarrow> b = window_of now \<and> lt_bucket t = b \<and> h = lt_counts t \<and> (b + 900) * 1000 \<le> ex"
    unfolding same_counts_def by simp
  with assms(2-4) show "case (db(window_key p (window_of now) \<mapsto> (h, ex))) (window_key p b) of
      None \<Rightarrow> lt_bucket t' = b \<longrightarrow> lt_counts t' = []
    | Some (h, ex) \<Rightarrow> b = window_of now \<and> lt_bucket t' = b \<and> h = lt_counts t' \<and> (b + 900) * 1000 \<le> ex"
    by (cases "db (window_key p b)") (auto simp: window_key_inject)
qed

text \<open>What the local path does, by its three outcomes.\<close>

lemma allow_local_eq:
  "allow_local now fds t =
     (let m = local_counts now t; u = t\<lparr>lt_bucket := window_of now, lt_counts := m\<rparr> in
      case check_fields m fds 0 of
        None \<Rightarrow> (429, u)
      | Some missing \<Rightarrow>
          if int (length m) + missing > loginCounterCapacity then (503, u)
          else (0, u\<lparr>lt_counts := fold bump (map fst fds) m\<rparr>))"
  by (simp add: allow_local_def local_counts_def Let_def window_of_def split: option.splits)

lemma backends_agree_step:
  assumes same: "same_counts now t (lt_prefix r) db" and redis: "lt_redis r = Some db"
    and l: "allow_local now fds t = (st, t')" and rd: "allow_redis True now fds r db = (st', r')"
  shows "st = st' \<and> (\<exists>db'. lt_redis r' = Some db' \<and> lt_prefix r' = lt_prefix r \<and> same_counts now t' (lt_prefix r) db')"
proof -
  note h = same_counts_hash [OF same, unfolded Millisecond_def]
  note keep = same_counts_now [OF same]
  note store = same_counts_store [OF same _ _ window_end_ms(1) [unfolded Millisecond_def]]
  show ?thesis
    using l rd redis
    by (cases "check_fields (local_counts now t) fds 0")
       (auto simp: allow_local_eq allow_redis_def loginAttemptScript_def Let_def h window_of_def [symmetric]
             intro!: keep store split: if_splits)
qed

definition in_order :: "gotime \<Rightarrow> attempt list \<Rightarrow> bool" where
  "in_order now as \<longleftrightarrow> sorted (now # map at_time as)"

lemma in_order_Cons: "in_order now (a # as) \<longleftrightarrow> now \<le> at_time a \<and> in_order (at_time a) as"
  by (auto simp: in_order_def)

lemma run_login_agree:
  assumes "in_order now as" and "same_counts now t (lt_prefix r) db"
    and "lt_redis t = None" and "lt_redis r = Some db"
  shows "run_login digest as r = run_login digest as t"
  using assms
proof (induction as arbitrary: now t r db)
  case (Cons a as)
  let ?now = "at_time a" and ?fs = "login_fields digest (at_endpoint a) (at_ip a) (at_email a)"
  obtain st t' where l: "allow_local ?now ?fs t = (st, t')" by fastforce
  obtain st' r' where rd: "allow_redis True ?now ?fs r db = (st', r')" by fastforce
  have order: "now \<le> ?now" "in_order ?now as" using Cons.prems(1) by (simp_all add: in_order_Cons)
  obtain db' where s: "st = st'" "lt_redis r' = Some db'" "lt_prefix r' = lt_prefix r" "same_counts ?now t' (lt_prefix r) db'"
    using backends_agree_step [OF same_counts_later [OF Cons.prems(2) order(1)] Cons.prems(4) l rd] by blast
  have "lt_redis t' = None"
    using l Cons.prems(3) by (auto simp: allow_local_eq Let_def split: option.splits if_splits)
  then have "run_login digest as r' = run_login digest as t'" using Cons.IH [OF order(2)] s by simp
  with l rd s show ?case by (simp add: allow_def Cons.prems(3,4) Let_def)
qed simp

subsection \<open>Admitted attempts\<close>

definition hits :: "(string \<Rightarrow> string) \<Rightarrow> string \<Rightarrow> attempt \<Rightarrow> bool" where
  "hits digest f a \<longleftrightarrow> f \<in> set (map fst (login_fields digest (at_endpoint a) (at_ip a) (at_email a)))"

definition admitted_in :: "(attempt \<Rightarrow> bool) \<Rightarrow> int \<Rightarrow> attempt list \<Rightarrow> (int \<times> duration) list \<Rightarrow> int" where
  "admitted_in P w as ds =
     int (length (filter (\<lambda>(a, d). fst d = 0 \<and> window_of (at_time a) = w \<and> P a) (zip as ds)))"

lemma admitted_in_simps [simp]:
  "admitted_in P w [] ds = 0"
  "admitted_in P w as [] = 0"
  "admitted_in P w (a # as) (d # ds) =
     (if fst d = 0 \<and> window_of (at_time a) = w \<and> P a then 1 else 0) + admitted_in P w as ds"
  by (simp_all add: admitted_in_def)

lemma admitted_in_mono: "(\<And>a. P a \<Longrightarrow> Q a) \<Longrightarrow> admitted_in P w as ds \<le> admitted_in Q w as ds"
proof (induction as arbitrary: ds)
  case (Cons a as)
  show ?case by (cases ds) (use Cons.prems Cons.IH [OF Cons.prems, of "tl ds"] in auto)
qed simp

lemma count_of_bump: "count_of (bump f m) g = count_of m g + (if f = g then 1 else 0)"
  by (simp add: count_of_def bump_def update_conv)

lemma login_fields_distinct: "distinct (map fst (login_fields digest e ip em))"
  by (simp add: login_fields_def loginIdentity_def)

lemma count_of_fold_bump: "distinct gs \<Longrightarrow> count_of (fold bump gs m) f = count_of m f + (if f \<in> set gs then 1 else 0)"
  by (induction gs arbitrary: m) (auto simp: count_of_bump)

lemma check_fields_below: "check_fields m fds k = Some j \<Longrightarrow> (f, l) \<in> set fds \<Longrightarrow> count_of m f < l"
  by (induction m fds k rule: check_fields.induct) (auto split: if_splits)

lemma allow_local_admitted:
  assumes "allow_local now (login_fields digest e ip em) t = (st, t')"
  shows "lt_bucket t' = window_of now"
    and "st = 0 \<Longrightarrow> (f, l) \<in> set (login_fields digest e ip em) \<Longrightarrow> count_of (local_counts now t) f < l"
    and "count_of (lt_counts t') f = count_of (local_counts now t) f
           + (if st = 0 \<and> f \<in> set (map fst (login_fields digest e ip em)) then 1 else 0)"
proof -
  let ?m = "local_counts now t" and ?fs = "login_fields digest e ip em"
  note bumped = count_of_fold_bump [OF login_fields_distinct]
  note d = assms [unfolded allow_local_eq Let_def]
  show "lt_bucket t' = window_of now" using d by (auto split: option.splits if_splits)
  show "count_of ?m f < l" if "st = 0" "(f, l) \<in> set ?fs"
    using d that by (auto intro: check_fields_below split: option.splits if_splits)
  show "count_of (lt_counts t') f = count_of ?m f + (if st = 0 \<and> f \<in> set (map fst ?fs) then 1 else 0)"
    using d by (auto simp: bumped split: option.splits if_splits split del: if_split)
qed

lemma no_attempt_in_past:
  assumes "in_order now as" and "w < window_of now"
  shows "admitted_in P w as ds = 0"
  using assms
proof (induction as arbitrary: now ds)
  case (Cons a as)
  then have "w < window_of (at_time a)" "in_order (at_time a) as"
    using window_of_mono [of now "at_time a"] by (auto simp: in_order_Cons)
  with Cons.IH show ?case by (cases ds) auto
qed simp

text \<open>At most \<open>l\<close> attempts that hit a field are admitted in a window, counting those already in the table.\<close>

lemma admitted_bounded:
  assumes "in_order now as" and "lt_redis t = None"
    and "\<And>(a :: attempt) l'. (f, l') \<in> set (login_fields digest (at_endpoint a) (at_ip a) (at_email a)) \<Longrightarrow> l' = l"
    and "window_of now < lt_bucket t \<Longrightarrow> lt_counts t = []"
    and "0 \<le> l" and "count_of (lt_counts t) f \<le> l"
  shows "admitted_in (hits digest f) w as (run_login digest as t)
           \<le> l - (if lt_bucket t = w then count_of (lt_counts t) f else 0)"
  using assms
proof (induction as arbitrary: now t)
  case (Cons a as)
  let ?now = "at_time a" and ?fs = "login_fields digest (at_endpoint a) (at_ip a) (at_email a)"
  obtain st t' where l: "allow_local ?now ?fs t = (st, t')" by fastforce
  note step = allow_local_admitted(1) [OF l] allow_local_admitted(2,3) [OF l, of f]
  have order: "now \<le> ?now" "in_order ?now as" using Cons.prems(1) by (simp_all add: in_order_Cons)
  have none: "lt_redis t' = None"
    using l Cons.prems(2) by (auto simp: allow_local_eq Let_def split: option.splits if_splits)
  have run: "run_login digest (a # as) t = (st, login_retry ?now) # run_login digest as t'"
    using l by (simp add: allow_def Cons.prems(2) Let_def)
  have below: "hits digest f a \<Longrightarrow> st = 0 \<Longrightarrow> count_of (local_counts ?now t) f < l"
  proof -
    assume hit: "hits digest f a" "st = 0"
    then obtain l' where f: "(f, l') \<in> set ?fs" by (auto simp: hits_def)
    with step(2) [OF hit(2) f] Cons.prems(3) [OF f] show ?thesis by simp
  qed
  have le: "count_of (local_counts ?now t) f \<le> l"
    using Cons.prems(5,6) by (auto simp: local_counts_def count_of_def)
  have le': "count_of (lt_counts t') f \<le> l"
    using step(3) below le by (auto simp: hits_def split: if_splits)
  have IH: "admitted_in (hits digest f) w as (run_login digest as t')
      \<le> l - (if lt_bucket t' = w then count_of (lt_counts t') f else 0)"
    using Cons.IH [OF order(2) none Cons.prems(3)] step(1) Cons.prems(5) le' by simp
  show ?case
  proof (cases "window_of ?now = w")
    case True
    then have "count_of (local_counts ?now t) f = (if lt_bucket t = w then count_of (lt_counts t) f else 0)"
      by (simp add: local_counts_def count_of_def)
    with IH True step(1) step(3) [folded hits_def] show ?thesis unfolding run by (auto split: if_splits)
  next
    case False
    show ?thesis
    proof (cases "w < window_of ?now")
      case True
      then have "admitted_in (hits digest f) w as (run_login digest as t') = 0"
        by (rule no_attempt_in_past [OF order(2)])
      with False Cons.prems(5,6) show ?thesis unfolding run by simp
    next
      case w: False
      have "lt_bucket t = w \<Longrightarrow> lt_counts t = []"
        using w False window_of_mono [OF order(1)] Cons.prems(4) by simp
      with IH False step(1) show ?thesis unfolding run by (auto simp: count_of_def)
    qed
  qed
qed simp

lemma ip_limit:
  "(loginIdentity digest ''ip'' v, l) \<in> set (login_fields digest e ip em) \<Longrightarrow> l = 20"
  by (auto simp: login_fields_def loginIdentity_def split: if_splits)

lemma account_limit:
  "(loginIdentity digest ''account'' v, l) \<in> set (login_fields digest e ip em) \<Longrightarrow> l = 5"
  by (auto simp: login_fields_def loginIdentity_def split: if_splits)

lemma new_throttle [simp]:
  "lt_counts newLoginThrottle = []" "lt_redis newLoginThrottle = None" "lt_prefix newLoginThrottle = []"
  by (simp_all add: newLoginThrottle_def)

lemma admitted_from_ip:
  assumes "in_order now as"
  shows "admitted_in (\<lambda>a. at_endpoint a = e \<and> at_ip a = ip) w as (run_login digest as newLoginThrottle) \<le> 20"
proof -
  let ?f = "loginIdentity digest ''ip'' (e @ [CHR 0x00] @ ip)"
  have "admitted_in (hits digest ?f) w as (run_login digest as newLoginThrottle) \<le> 20"
    by (rule order_trans [OF admitted_bounded [OF assms _ ip_limit]]) (simp_all add: count_of_def)
  then show ?thesis
    by (rule order_trans [OF admitted_in_mono, rotated]) (auto simp: hits_def login_fields_def)
qed

lemma admitted_for_account:
  assumes "in_order now as" and "em \<noteq> []"
  shows "admitted_in (\<lambda>a. at_endpoint a = e \<and> at_email a = em) w as (run_login digest as newLoginThrottle) \<le> 5"
proof -
  let ?f = "loginIdentity digest ''account'' (e @ [CHR 0x00] @ em)"
  have "admitted_in (hits digest ?f) w as (run_login digest as newLoginThrottle) \<le> 5"
    by (rule order_trans [OF admitted_bounded [OF assms(1) _ account_limit]]) (simp_all add: count_of_def)
  then show ?thesis
    by (rule order_trans [OF admitted_in_mono, rotated]) (use assms(2) in \<open>auto simp: hits_def login_fields_def\<close>)
qed

text \<open>C21: For attempts in the order of time, the throttle answers the same with Redis as without, and in every window it
  lets at most 20 attempts from one address and at most 5 for one account pass, per endpoint.\<close>

theorem login_attempts_bounded:
  assumes "in_order now as"
  shows "run_login digest as (newLoginThrottle\<lparr>lt_redis := Some Map.empty, lt_prefix := p\<rparr>)
           = run_login digest as newLoginThrottle
    \<and> admitted_in (\<lambda>a. at_endpoint a = e \<and> at_ip a = ip) w as (run_login digest as newLoginThrottle) \<le> 20
    \<and> (em \<noteq> [] \<longrightarrow>
         admitted_in (\<lambda>a. at_endpoint a = e \<and> at_email a = em) w as (run_login digest as newLoginThrottle) \<le> 5)"
proof -
  have "same_counts now newLoginThrottle p Map.empty" by (simp add: same_counts_def newLoginThrottle_def)
  then have "run_login digest as (newLoginThrottle\<lparr>lt_redis := Some Map.empty, lt_prefix := p\<rparr>) = run_login digest as newLoginThrottle"
    using run_login_agree [OF assms, of newLoginThrottle "newLoginThrottle\<lparr>lt_redis := Some Map.empty, lt_prefix := p\<rparr>" Map.empty digest]
    by simp
  with assms show ?thesis by (simp add: admitted_from_ip admitted_for_account)
qed

theorem login_attempts_bounded_witness:
  "admitted_in (\<lambda>a. at_endpoint a = ''login'' \<and> at_email a = ''a'') 0
     (replicate 7 \<lparr>at_time = 1, at_endpoint = ''login'', at_ip = ''1'', at_email = ''a''\<rparr>)
     (run_login (\<lambda>s. s) (replicate 7 \<lparr>at_time = 1, at_endpoint = ''login'', at_ip = ''1'', at_email = ''a''\<rparr>) newLoginThrottle) \<le> 5
   \<and> map fst (run_login (\<lambda>s. s) (replicate 7 \<lparr>at_time = 1, at_endpoint = ''login'', at_ip = ''1'', at_email = ''a''\<rparr>)
       (newLoginThrottle\<lparr>lt_redis := Some Map.empty, lt_prefix := ''gw''\<rparr>)) = [0, 0, 0, 0, 0, 429, 429]"
proof -
  let ?a = "\<lparr>at_time = 1, at_endpoint = ''login'', at_ip = ''1'', at_email = ''a''\<rparr>"
  have "in_order 0 (replicate 7 ?a)" by (simp add: in_order_def eval_nat_numeral)
  note p = login_attempts_bounded [OF this, of "\<lambda>s. s" "''gw''" "''login''" "''1''" 0 "''a''"]
  have "map fst (run_login (\<lambda>s. s) (replicate 7 ?a) newLoginThrottle) = [0, 0, 0, 0, 0, 429, 429]" by code_simp
  with p show ?thesis by (simp only: simp_thms not_Cons_self2 list.distinct) 
qed

end
