(* ===== verification/Credential_Store.thy ===== *)
theory Credential_Store
  imports Tenancy Json_Value
begin

text \<open>
  The tables that hold credentials: users, service accounts, virtual keys, sessions, invites and password resets
  (\<^verbatim>\<open>internal/store/keys.go\<close>, \<^verbatim>\<open>users.go\<close>, \<^verbatim>\<open>sessions.go\<close>, \<^verbatim>\<open>invites.go\<close>,
  \<^verbatim>\<open>password_resets.go\<close>, \<^verbatim>\<open>service_accounts.go\<close>, \<^verbatim>\<open>teams.go\<close>), one definition per query, and the
  facts about key rows that the authentication theories use.

  \<^item> A table is the list of its rows. A statement that violates a UNIQUE, FOREIGN KEY or CHECK constraint fails and
    changes nothing. \<open>now\<close> is \<open>NOW()\<close> of the database; the gateway's clock is taken to agree with it.
  \<^item> Columns that a query joins from another table (the slug of a user's team, the concurrency limit of a key's
    owner) are filled in by the query; the row itself holds the empty value.
  \<^item> Whether a statement reaches the database at all is decided by the callers in the handlers' theory.
\<close>

datatype store_error = ErrNotFound | ErrConflict | ErrInvalid string | ErrStore

section \<open>Tables\<close>

record key_row =
  kr_key :: virtual_key
  kr_hash :: string
  kr_metadata :: "(string \<times> json) list"
  kr_rotated_from :: "int option"
  kr_created_at :: gotime

record user_row =
  ur_user :: user
  ur_name :: string
  ur_password :: string
  ur_role_managed_by_oidc :: bool
  ur_last_login :: "gotime option"

record session_row =
  sn_hash :: string
  sn_user :: int
  sn_expires :: gotime
  sn_ip :: string
  sn_agent :: string
  sn_last_seen :: "gotime option"

record invite =
  iv_ID :: int
  iv_hash :: string
  iv_TokenPrefix :: string
  iv_Email :: string
  iv_TeamID :: "int option"
  iv_Role :: string
  iv_ExpiresAt :: gotime
  iv_AcceptedAt :: "gotime option"
  iv_AcceptedBy :: "int option"

record password_reset =
  pr_ID :: int
  pr_UserID :: int
  pr_hash :: string
  pr_ExpiresAt :: gotime
  pr_UsedAt :: "gotime option"
  pr_CreatedBy :: "int option"

record identity_db =
  idb_teams :: "team list"
  idb_users :: "user_row list"
  idb_accounts :: "service_account list"
  idb_keys :: "key_row list"
  idb_sessions :: "session_row list"
  idb_invites :: "invite list"
  idb_resets :: "password_reset list"
  idb_key_seq :: int
  idb_user_seq :: int
  idb_invite_seq :: int
  idb_reset_seq :: int

text \<open>\<open>UPDATE ... SET f WHERE P\<close>, and its variant that returns \<open>ErrNotFound\<close> when no row matches.\<close>

definition update_where :: "('a \<Rightarrow> bool) \<Rightarrow> ('a \<Rightarrow> 'a) \<Rightarrow> 'a list \<Rightarrow> 'a list" where
  "update_where P f rows = map (\<lambda>r. if P r then f r else r) rows"

definition update_some :: "('a \<Rightarrow> bool) \<Rightarrow> ('a \<Rightarrow> 'a) \<Rightarrow> 'a list \<Rightarrow> store_error + 'a list" where
  "update_some P f rows = (if list_ex P rows then Inr (update_where P f rows) else Inl ErrNotFound)"

section \<open>Teams, users and service accounts\<close>

definition team_loaded :: "team \<Rightarrow> team" where
  "team_loaded t = t\<lparr>t_AllowedModels := normalizeAllowedModels (t_AllowedModels t)\<rparr>"

definition team_by_id :: "identity_db \<Rightarrow> int \<Rightarrow> team option" where
  "team_by_id db i = find (\<lambda>t. t_ID t = i) (idb_teams db)"

definition GetTeamByID :: "int \<Rightarrow> identity_db \<Rightarrow> store_error + team" where
  "GetTeamByID i db = (case team_by_id db i of None \<Rightarrow> Inl ErrNotFound | Some t \<Rightarrow> Inr (team_loaded t))"

definition GetTeamBySlug :: "string \<Rightarrow> identity_db \<Rightarrow> store_error + team" where
  "GetTeamBySlug slug db =
     (case find (\<lambda>t. t_Slug t = slug) (idb_teams db) of None \<Rightarrow> Inl ErrNotFound | Some t \<Rightarrow> Inr (team_loaded t))"

definition user_by_id :: "identity_db \<Rightarrow> int \<Rightarrow> user_row option" where
  "user_by_id db i = find (\<lambda>r. usr_ID (ur_user r) = i) (idb_users db)"

definition account_by_id :: "identity_db \<Rightarrow> int \<Rightarrow> service_account option" where
  "account_by_id db i = find (\<lambda>a. sa_ID a = i) (idb_accounts db)"

text \<open>The user with the slug of its team, as the joins of the user queries return it.\<close>

definition with_slug :: "identity_db \<Rightarrow> user \<Rightarrow> user" where
  "with_slug db u =
     u\<lparr>usr_TeamSlug := (case usr_TeamID u of None \<Rightarrow> []
                        | Some i \<Rightarrow> (case team_by_id db i of None \<Rightarrow> [] | Some t \<Rightarrow> t_Slug t))\<rparr>"

definition GetUserByID :: "int \<Rightarrow> identity_db \<Rightarrow> store_error + user" where
  "GetUserByID i db =
     (case user_by_id db i of
        Some r \<Rightarrow> if usr_ArchivedAt (ur_user r) = None then Inr ((with_slug db (ur_user r))\<lparr>usr_DisabledAt := None\<rparr>)
                  else Inl ErrNotFound
      | None \<Rightarrow> Inl ErrNotFound)"

text \<open>\<open>lower\<close> is the database's \<open>LOWER\<close>.\<close>

definition GetUserByEmail :: "(string \<Rightarrow> string) \<Rightarrow> string \<Rightarrow> identity_db \<Rightarrow> store_error + user \<times> string" where
  "GetUserByEmail lower email db =
     (case find (\<lambda>r. lower (usr_Email (ur_user r)) = lower email \<and> usr_ArchivedAt (ur_user r) = None) (idb_users db) of
        None \<Rightarrow> Inl ErrNotFound
      | Some r \<Rightarrow> Inr (with_slug db (ur_user r), ur_password r))"

definition RoleAdmin :: string where "RoleAdmin = ''admin''"
definition RoleManager :: string where "RoleManager = ''manager''"
definition RoleMember :: string where "RoleMember = ''member''"

lemmas role_defs = RoleAdmin_def RoleManager_def RoleMember_def

definition CreateUser ::
  "string \<Rightarrow> string \<Rightarrow> string \<Rightarrow> int option \<Rightarrow> string \<Rightarrow> identity_db \<Rightarrow> (store_error + user) \<times> identity_db" where
  "CreateUser email name passwordHash teamID role db =
     (let role = (if role = [] then RoleMember else role) in
      if role \<notin> set [RoleAdmin, RoleManager, RoleMember] then (Inl (ErrInvalid ''invalid role''), db)
      else if list_ex (\<lambda>r. usr_Email (ur_user r) = email) (idb_users db) then (Inl ErrStore, db)
      else if (case teamID of None \<Rightarrow> False | Some i \<Rightarrow> team_by_id db i = None) then (Inl ErrStore, db)
      else let u = \<lparr>usr_ID = idb_user_seq db, usr_Email = email, usr_TeamID = teamID, usr_TeamSlug = [], usr_Role = role,
                    usr_UsdLimitCents = None, usr_Period = ''month'', usr_MaxParallelRequests = None,
                    usr_DisabledAt = None, usr_ArchivedAt = None\<rparr>
           in (Inr (with_slug db u),
               db\<lparr>idb_users := idb_users db @
                    [\<lparr>ur_user = u, ur_name = name, ur_password = passwordHash, ur_role_managed_by_oidc = True,
                      ur_last_login = None\<rparr>],
                  idb_user_seq := idb_user_seq db + 1\<rparr>))"

definition UpdateLastLogin :: "gotime \<Rightarrow> int \<Rightarrow> identity_db \<Rightarrow> identity_db" where
  "UpdateLastLogin now i db =
     db\<lparr>idb_users := update_where (\<lambda>r. usr_ID (ur_user r) = i) (\<lambda>r. r\<lparr>ur_last_login := Some now\<rparr>) (idb_users db)\<rparr>"

definition UpdatePasswordHash :: "int \<Rightarrow> string \<Rightarrow> identity_db \<Rightarrow> (store_error + unit) \<times> identity_db" where
  "UpdatePasswordHash i newHash db =
     (case update_some (\<lambda>r. usr_ID (ur_user r) = i \<and> usr_ArchivedAt (ur_user r) = None)
             (\<lambda>r. r\<lparr>ur_password := newHash\<rparr>) (idb_users db) of
        Inl e \<Rightarrow> (Inl e, db)
      | Inr us \<Rightarrow> (Inr (), db\<lparr>idb_users := us\<rparr>))"

definition GetUserPasswordHash :: "int \<Rightarrow> identity_db \<Rightarrow> store_error + string" where
  "GetUserPasswordHash i db =
     (case user_by_id db i of
        Some r \<Rightarrow> if usr_ArchivedAt (ur_user r) = None then Inr (ur_password r) else Inl ErrNotFound
      | None \<Rightarrow> Inl ErrNotFound)"

definition SetUserDisabled :: "gotime \<Rightarrow> int \<Rightarrow> bool \<Rightarrow> identity_db \<Rightarrow> identity_db" where
  "SetUserDisabled now i disabled db =
     db\<lparr>idb_users :=
          (if disabled
           then update_where (\<lambda>r. usr_ID (ur_user r) = i \<and> usr_DisabledAt (ur_user r) = None)
                  (\<lambda>r. r\<lparr>ur_user := (ur_user r)\<lparr>usr_DisabledAt := Some now\<rparr>\<rparr>) (idb_users db)
           else update_where (\<lambda>r. usr_ID (ur_user r) = i)
                  (\<lambda>r. r\<lparr>ur_user := (ur_user r)\<lparr>usr_DisabledAt := None\<rparr>\<rparr>) (idb_users db))\<rparr>"

definition MarkRoleManuallyEdited :: "int \<Rightarrow> identity_db \<Rightarrow> identity_db" where
  "MarkRoleManuallyEdited i db =
     db\<lparr>idb_users := update_where (\<lambda>r. usr_ID (ur_user r) = i) (\<lambda>r. r\<lparr>ur_role_managed_by_oidc := False\<rparr>) (idb_users db)\<rparr>"

definition GetServiceAccountByID :: "int \<Rightarrow> identity_db \<Rightarrow> store_error + service_account" where
  "GetServiceAccountByID i db =
     (case account_by_id db i of
        Some a \<Rightarrow> (case team_by_id db (sa_TeamID a) of
                     Some t \<Rightarrow> if sa_ArchivedAt a = None then Inr (a\<lparr>sa_TeamSlug := t_Slug t\<rparr>) else Inl ErrNotFound
                   | None \<Rightarrow> Inl ErrNotFound)
      | None \<Rightarrow> Inl ErrNotFound)"

definition ArchiveServiceAccount :: "gotime \<Rightarrow> int \<Rightarrow> identity_db \<Rightarrow> (store_error + unit) \<times> identity_db" where
  "ArchiveServiceAccount now i db =
     (case update_some (\<lambda>a. sa_ID a = i \<and> sa_ArchivedAt a = None) (\<lambda>a. a\<lparr>sa_ArchivedAt := Some now\<rparr>) (idb_accounts db) of
        Inl e \<Rightarrow> (Inl e, db)
      | Inr as \<Rightarrow> (Inr (), db\<lparr>idb_accounts := as\<rparr>))"

section \<open>Virtual keys\<close>

record key_params =
  kp_TeamID :: int
  kp_UserID :: "int option"
  kp_ServiceAccountID :: "int option"
  kp_KeyHash :: string
  kp_Prefix :: string
  kp_Name :: string
  kp_Metadata :: "(string \<times> json) list"
  kp_AllowedModels :: "string list"
  kp_ScopedRPM :: "int option"
  kp_ScopedTPM :: "int option"
  kp_MaxParallelRequests :: "int option"
  kp_ScopedUsdLimitCents :: "int option"
  kp_ExpiresAt :: "gotime option"

definition key_loaded :: "virtual_key \<Rightarrow> virtual_key" where
  "key_loaded k = k\<lparr>vk_AllowedModels := normalizeAllowedModels (vk_AllowedModels k)\<rparr>"

definition key_by_id :: "identity_db \<Rightarrow> int \<Rightarrow> key_row option" where
  "key_by_id db i = find (\<lambda>r. vk_ID (kr_key r) = i) (idb_keys db)"

text \<open>The constraints on a key row: its hash is new, its team and its owner exist, and it has one owner at most.\<close>

definition key_constraints :: "identity_db \<Rightarrow> string \<Rightarrow> virtual_key \<Rightarrow> bool" where
  "key_constraints db h k \<longleftrightarrow>
     \<not> list_ex (\<lambda>r. kr_hash r = h) (idb_keys db) \<and>
     team_by_id db (vk_TeamID k) \<noteq> None \<and>
     (case vk_UserID k of None \<Rightarrow> True | Some i \<Rightarrow> user_by_id db i \<noteq> None) \<and>
     (case vk_ServiceAccountID k of None \<Rightarrow> True | Some i \<Rightarrow> account_by_id db i \<noteq> None) \<and>
     (vk_UserID k = None \<or> vk_ServiceAccountID k = None)"

definition insert_key :: "gotime \<Rightarrow> string \<Rightarrow> (string \<times> json) list \<Rightarrow> int option \<Rightarrow> virtual_key \<Rightarrow> identity_db \<Rightarrow>
    (store_error + virtual_key) \<times> identity_db" where
  "insert_key now h metadata rotated k db =
     (if \<not> key_constraints db h k then (Inl ErrStore, db)
      else let k' = k\<lparr>vk_ID := idb_key_seq db\<rparr> in
           (Inr (key_loaded k'),
            db\<lparr>idb_keys := idb_keys db @
                 [\<lparr>kr_key = k', kr_hash = h, kr_metadata = metadata, kr_rotated_from = rotated, kr_created_at = now\<rparr>],
               idb_key_seq := idb_key_seq db + 1\<rparr>))"

definition CreateVirtualKey :: "gotime \<Rightarrow> key_params \<Rightarrow> identity_db \<Rightarrow> (store_error + virtual_key) \<times> identity_db" where
  "CreateVirtualKey now p db =
     (case ValidateKeyBudget (kp_ScopedUsdLimitCents p) of
        Inl e \<Rightarrow> (Inl (ErrInvalid e), db)
      | Inr _ \<Rightarrow>
          insert_key now (kp_KeyHash p) (kp_Metadata p) None
            \<lparr>vk_ID = 0, vk_TeamID = kp_TeamID p, vk_UserID = kp_UserID p, vk_ServiceAccountID = kp_ServiceAccountID p,
             vk_KeyPrefix = kp_Prefix p, vk_Name = kp_Name p, vk_AllowedModels = normalizeAllowedModels (kp_AllowedModels p),
             vk_AllowedCIDRs = [], vk_ScopedRPM = kp_ScopedRPM p, vk_ScopedTPM = kp_ScopedTPM p,
             vk_MaxParallelRequests = kp_MaxParallelRequests p, vk_ScopedUsdLimitCents = kp_ScopedUsdLimitCents p,
             vk_ExpiresAt = kp_ExpiresAt p, vk_RevokedAt = None, vk_DisabledAt = None, vk_OwnerMaxParallelRequests = None\<rparr> db)"

definition LookupKey :: "string \<Rightarrow> identity_db \<Rightarrow> store_error + virtual_key \<times> team \<times> user option" where
  "LookupKey h db =
     (case find (\<lambda>r. kr_hash r = h) (idb_keys db) of
        None \<Rightarrow> Inl ErrNotFound
      | Some r \<Rightarrow>
          (case team_by_id db (vk_TeamID (kr_key r)) of
             None \<Rightarrow> Inl ErrNotFound
           | Some t \<Rightarrow>
               let k = kr_key r;
                   u = Option.bind (vk_UserID k) (user_by_id db);
                   a = Option.bind (vk_ServiceAccountID k) (account_by_id db);
                   limit = (if vk_UserID k \<noteq> None then Option.bind u (\<lambda>x. usr_MaxParallelRequests (ur_user x))
                            else Option.bind a sa_MaxParallelRequests)
               in Inr ((key_loaded k)\<lparr>vk_OwnerMaxParallelRequests := limit\<rparr>,
                       (team_loaded t)\<lparr>t_CapturePayloads := False\<rparr>,
                       map_option (\<lambda>x. (ur_user x)\<lparr>usr_TeamSlug := [], usr_DisabledAt := None,
                                                   usr_MaxParallelRequests := limit\<rparr>) u)))"

definition GetVirtualKeyByID :: "int \<Rightarrow> identity_db \<Rightarrow> store_error + virtual_key \<times> team" where
  "GetVirtualKeyByID i db =
     (case key_by_id db i of
        None \<Rightarrow> Inl ErrNotFound
      | Some r \<Rightarrow>
          (case team_by_id db (vk_TeamID (kr_key r)) of
             None \<Rightarrow> Inl ErrNotFound
           | Some t \<Rightarrow> Inr ((key_loaded (kr_key r))\<lparr>vk_AllowedCIDRs := []\<rparr>,
                            (team_loaded t)\<lparr>t_CapturePayloads := False\<rparr>)))"

text \<open>Every change of an existing key is an \<open>UPDATE ... WHERE id = $1 AND revoked_at IS NULL\<close>.\<close>

definition live_key :: "int \<Rightarrow> key_row \<Rightarrow> bool" where
  "live_key i r \<longleftrightarrow> vk_ID (kr_key r) = i \<and> vk_RevokedAt (kr_key r) = None"

definition change_key :: "int \<Rightarrow> (key_row \<Rightarrow> key_row) \<Rightarrow> identity_db \<Rightarrow> (store_error + unit) \<times> identity_db" where
  "change_key i f db =
     (case update_some (live_key i) f (idb_keys db) of
        Inl e \<Rightarrow> (Inl e, db)
      | Inr ks \<Rightarrow> (Inr (), db\<lparr>idb_keys := ks\<rparr>))"

definition UpdateVirtualKey :: "int \<Rightarrow> key_params \<Rightarrow> identity_db \<Rightarrow> (store_error + unit) \<times> identity_db" where
  "UpdateVirtualKey i p db =
     (case ValidateKeyBudget (kp_ScopedUsdLimitCents p) of
        Inl e \<Rightarrow> (Inl (ErrInvalid e), db)
      | Inr _ \<Rightarrow>
          change_key i
            (\<lambda>r. r\<lparr>kr_metadata := kp_Metadata p,
                   kr_key := (kr_key r)\<lparr>vk_Name := kp_Name p, vk_AllowedModels := normalizeAllowedModels (kp_AllowedModels p),
                     vk_ScopedRPM := kp_ScopedRPM p, vk_ScopedTPM := kp_ScopedTPM p,
                     vk_MaxParallelRequests := kp_MaxParallelRequests p, vk_ExpiresAt := kp_ExpiresAt p,
                     vk_ScopedUsdLimitCents := kp_ScopedUsdLimitCents p\<rparr>\<rparr>) db)"

definition SetKeyAllowedCIDRs :: "int \<Rightarrow> string list \<Rightarrow> identity_db \<Rightarrow> (store_error + unit) \<times> identity_db" where
  "SetKeyAllowedCIDRs i cidrs db = change_key i (\<lambda>r. r\<lparr>kr_key := (kr_key r)\<lparr>vk_AllowedCIDRs := cidrs\<rparr>\<rparr>) db"

definition SetKeyPaused :: "gotime \<Rightarrow> int \<Rightarrow> bool \<Rightarrow> identity_db \<Rightarrow> (store_error + unit) \<times> identity_db" where
  "SetKeyPaused now i paused db =
     change_key i
       (\<lambda>r. r\<lparr>kr_key := (kr_key r)\<lparr>vk_DisabledAt :=
                (if paused then (case vk_DisabledAt (kr_key r) of None \<Rightarrow> Some now | Some t \<Rightarrow> Some t) else None)\<rparr>\<rparr>) db"

definition RevokeKey :: "gotime \<Rightarrow> int \<Rightarrow> identity_db \<Rightarrow> (store_error + unit) \<times> identity_db" where
  "RevokeKey now i db = change_key i (\<lambda>r. r\<lparr>kr_key := (kr_key r)\<lparr>vk_RevokedAt := Some now\<rparr>\<rparr>) db"

text \<open>The last step of a rotation on the old key: an earlier expiry, or revocation when there is no grace period.\<close>

definition retire_key :: "gotime \<Rightarrow> duration \<Rightarrow> key_row \<Rightarrow> key_row" where
  "retire_key now grace r =
     (if grace > 0
      then r\<lparr>kr_key := (kr_key r)\<lparr>vk_ExpiresAt :=
              Some (case vk_ExpiresAt (kr_key r) of None \<Rightarrow> now + grace | Some e \<Rightarrow> min e (now + grace))\<rparr>\<rparr>
      else r\<lparr>kr_key := (kr_key r)\<lparr>vk_RevokedAt := Some now\<rparr>\<rparr>)"

definition RotateVirtualKey ::
  "gotime \<Rightarrow> int \<Rightarrow> int \<Rightarrow> string \<Rightarrow> string \<Rightarrow> duration \<Rightarrow> identity_db \<Rightarrow> (store_error + virtual_key) \<times> identity_db" where
  "RotateVirtualKey now i teamID keyHash prefix grace db =
     (case find (\<lambda>r. vk_ID (kr_key r) = i \<and> vk_TeamID (kr_key r) = teamID) (idb_keys db) of
        None \<Rightarrow> (Inl ErrNotFound, db)
      | Some r \<Rightarrow>
          let k = kr_key r in
          if vk_RevokedAt k \<noteq> None then (Inl ErrNotFound, db)
          else if vk_DisabledAt k \<noteq> None then (Inl (ErrInvalid ''key is paused; resume it before rotating''), db)
          else if (case vk_ExpiresAt k of None \<Rightarrow> False | Some e \<Rightarrow> e < now)
          then (Inl (ErrInvalid ''cannot rotate expired key''), db)
          else (case insert_key now keyHash (kr_metadata r) (Some i)
                       (k\<lparr>vk_TeamID := teamID, vk_KeyPrefix := prefix, vk_OwnerMaxParallelRequests := None\<rparr>) db of
                  (Inl e, _) \<Rightarrow> (Inl e, db)
                | (Inr vk, db1) \<Rightarrow>
                    (Inr vk, db1\<lparr>idb_keys := update_where (live_key i) (retire_key now grace) (idb_keys db1)\<rparr>)))"

section \<open>Sessions\<close>

definition CreateSessionWithMeta ::
  "string \<Rightarrow> int \<Rightarrow> gotime \<Rightarrow> string \<Rightarrow> string \<Rightarrow> identity_db \<Rightarrow> (store_error + unit) \<times> identity_db" where
  "CreateSessionWithMeta h userID expires ip agent db =
     (if list_ex (\<lambda>s. sn_hash s = h) (idb_sessions db) \<or> user_by_id db userID = None then (Inl ErrStore, db)
      else (Inr (),
            db\<lparr>idb_sessions := idb_sessions db @
                 [\<lparr>sn_hash = h, sn_user = userID, sn_expires = expires, sn_ip = ip, sn_agent = agent, sn_last_seen = None\<rparr>]\<rparr>))"

definition LookupSession :: "gotime \<Rightarrow> string \<Rightarrow> identity_db \<Rightarrow> store_error + user" where
  "LookupSession now h db =
     (case find (\<lambda>s. sn_hash s = h) (idb_sessions db) of
        None \<Rightarrow> Inl ErrNotFound
      | Some s \<Rightarrow>
          (case user_by_id db (sn_user s) of
             None \<Rightarrow> Inl ErrNotFound
           | Some r \<Rightarrow> if sn_expires s > now \<and> usr_ArchivedAt (ur_user r) = None then Inr (with_slug db (ur_user r))
                       else Inl ErrNotFound))"

definition TouchSession :: "gotime \<Rightarrow> string \<Rightarrow> identity_db \<Rightarrow> identity_db" where
  "TouchSession now h db =
     db\<lparr>idb_sessions := update_where (\<lambda>s. sn_hash s = h) (\<lambda>s. s\<lparr>sn_last_seen := Some now\<rparr>) (idb_sessions db)\<rparr>"

definition DeleteSession :: "string \<Rightarrow> identity_db \<Rightarrow> identity_db" where
  "DeleteSession h db = db\<lparr>idb_sessions := filter (\<lambda>s. sn_hash s \<noteq> h) (idb_sessions db)\<rparr>"

definition DeleteSessionsForUser :: "int \<Rightarrow> identity_db \<Rightarrow> identity_db" where
  "DeleteSessionsForUser i db = db\<lparr>idb_sessions := filter (\<lambda>s. sn_user s \<noteq> i) (idb_sessions db)\<rparr>"

definition DeleteOtherSessionsForUser :: "int \<Rightarrow> string \<Rightarrow> identity_db \<Rightarrow> int \<times> identity_db" where
  "DeleteOtherSessionsForUser i keep db =
     (let gone = (\<lambda>s. sn_user s = i \<and> sn_hash s \<noteq> keep) in
      (int (length (filter gone (idb_sessions db))), db\<lparr>idb_sessions := filter (\<lambda>s. \<not> gone s) (idb_sessions db)\<rparr>))"

text \<open>\<open>LIKE\<close>: a percent sign stands for any characters, an underscore for one, a backslash escapes.\<close>

fun like :: "string \<Rightarrow> string \<Rightarrow> bool" where
  "like [] s \<longleftrightarrow> s = []"
| "like (p # ps) s \<longleftrightarrow>
     (if p = CHR ''%'' then (like ps s \<or> (case s of [] \<Rightarrow> False | c # cs \<Rightarrow> like (p # ps) cs))
      else (case s of
              [] \<Rightarrow> False
            | c # cs \<Rightarrow>
                if p = CHR ''_'' then like ps cs
                else if p = CHR 0x5C then (case ps of [] \<Rightarrow> False | q # qs \<Rightarrow> c = q \<and> like qs cs)
                else c = p \<and> like ps cs))"

definition hex_digit :: "nat \<Rightarrow> char" where
  "hex_digit n = ''0123456789abcdef'' ! n"

definition encode_hex :: "string \<Rightarrow> string" where
  "encode_hex s = concat (map (\<lambda>c. [hex_digit (of_char c div 16), hex_digit (of_char c mod 16)]) s)"

definition hexPrefix :: "string \<Rightarrow> nat \<Rightarrow> string" where
  "hexPrefix b n = encode_hex (take n b)"

definition DeleteUserSessionByPrefix :: "int \<Rightarrow> string \<Rightarrow> identity_db \<Rightarrow> (store_error + unit) \<times> identity_db" where
  "DeleteUserSessionByPrefix i prefix db =
     (if prefix = [] then (Inl ErrNotFound, db)
      else let gone = (\<lambda>s. sn_user s = i \<and> like (prefix @ ''%'') (encode_hex (sn_hash s))) in
           if \<not> list_ex gone (idb_sessions db) then (Inl ErrNotFound, db)
           else (Inr (), db\<lparr>idb_sessions := filter (\<lambda>s. \<not> gone s) (idb_sessions db)\<rparr>))"

section \<open>Invites and password resets\<close>

definition CreateInvite ::
  "string \<Rightarrow> string \<Rightarrow> string \<Rightarrow> string \<Rightarrow> int option \<Rightarrow> gotime \<Rightarrow> identity_db \<Rightarrow> (store_error + invite) \<times> identity_db" where
  "CreateInvite h prefix email role teamID expires db =
     (if list_ex (\<lambda>v. iv_hash v = h) (idb_invites db) \<or> (case teamID of None \<Rightarrow> False | Some i \<Rightarrow> team_by_id db i = None)
      then (Inl ErrStore, db)
      else let v = \<lparr>iv_ID = idb_invite_seq db, iv_hash = h, iv_TokenPrefix = prefix, iv_Email = email, iv_TeamID = teamID,
                    iv_Role = role, iv_ExpiresAt = expires, iv_AcceptedAt = None, iv_AcceptedBy = None\<rparr>
           in (Inr v, db\<lparr>idb_invites := idb_invites db @ [v], idb_invite_seq := idb_invite_seq db + 1\<rparr>))"

definition GetInviteByTokenHash :: "string \<Rightarrow> identity_db \<Rightarrow> store_error + invite" where
  "GetInviteByTokenHash h db =
     (case find (\<lambda>v. iv_hash v = h) (idb_invites db) of None \<Rightarrow> Inl ErrNotFound | Some v \<Rightarrow> Inr v)"

definition MarkInviteAccepted :: "gotime \<Rightarrow> string \<Rightarrow> int \<Rightarrow> identity_db \<Rightarrow> (store_error + unit) \<times> identity_db" where
  "MarkInviteAccepted now h userID db =
     (case update_some (\<lambda>v. iv_hash v = h \<and> iv_AcceptedAt v = None \<and> iv_ExpiresAt v > now)
             (\<lambda>v. v\<lparr>iv_AcceptedAt := Some now, iv_AcceptedBy := Some userID\<rparr>) (idb_invites db) of
        Inl e \<Rightarrow> (Inl e, db)
      | Inr vs \<Rightarrow> (Inr (), db\<lparr>idb_invites := vs\<rparr>))"

definition CreatePasswordReset ::
  "int \<Rightarrow> string \<Rightarrow> gotime \<Rightarrow> int option \<Rightarrow> identity_db \<Rightarrow> (store_error + unit) \<times> identity_db" where
  "CreatePasswordReset userID h expires createdBy db =
     (if list_ex (\<lambda>p. pr_hash p = h) (idb_resets db) \<or> user_by_id db userID = None \<or>
         (case createdBy of None \<Rightarrow> False | Some i \<Rightarrow> user_by_id db i = None)
      then (Inl ErrStore, db)
      else (Inr (),
            db\<lparr>idb_resets := idb_resets db @
                 [\<lparr>pr_ID = idb_reset_seq db, pr_UserID = userID, pr_hash = h, pr_ExpiresAt = expires, pr_UsedAt = None,
                   pr_CreatedBy = createdBy\<rparr>],
               idb_reset_seq := idb_reset_seq db + 1\<rparr>))"

definition LookupPasswordReset :: "gotime \<Rightarrow> string \<Rightarrow> identity_db \<Rightarrow> store_error + password_reset" where
  "LookupPasswordReset now h db =
     (case find (\<lambda>p. pr_hash p = h) (idb_resets db) of
        None \<Rightarrow> Inl ErrNotFound
      | Some p \<Rightarrow>
          (case user_by_id db (pr_UserID p) of
             None \<Rightarrow> Inl ErrNotFound
           | Some r \<Rightarrow> if pr_ExpiresAt p > now \<and> pr_UsedAt p = None \<and> usr_ArchivedAt (ur_user r) = None then Inr p
                       else Inl ErrNotFound))"

definition MarkPasswordResetUsed :: "gotime \<Rightarrow> int \<Rightarrow> identity_db \<Rightarrow> (store_error + unit) \<times> identity_db" where
  "MarkPasswordResetUsed now i db =
     (case update_some (\<lambda>p. pr_ID p = i \<and> pr_UsedAt p = None) (\<lambda>p. p\<lparr>pr_UsedAt := Some now\<rparr>) (idb_resets db) of
        Inl e \<Rightarrow> (Inl e, db)
      | Inr ps \<Rightarrow> (Inr (), db\<lparr>idb_resets := ps\<rparr>))"

end
