(* ===== verification/Auth_Access.thy ===== *)
theory Auth_Access
  imports Credential_Store
begin

text \<open>
  Who a request acts for (\<^verbatim>\<open>internal/auth/middleware.go\<close>, \<^verbatim>\<open>jwt.go\<close>, \<^verbatim>\<open>clientip.go\<close>,
  \<^verbatim>\<open>ip.go\<close>, \<^verbatim>\<open>key.go\<close>): bearer keys and tokens on the data plane, sessions on the control plane, the role
  checks, and the client address behind trusted proxies.

  \<^item> \<open>HashKey\<close> is SHA-256, \<open>parse_jwt\<close> the token library with the key set behind a URL (\<open>None\<close> when the signature or
    a registered claim does not verify), and \<open>net_lib\<close> the address functions of the \<open>net\<close> package. They are
    parameters, and no theorem assumes anything of them.
  \<^item> \<open>lookup_fails\<close> says that the statement behind a lookup does not reach the database.
\<close>

section \<open>Addresses\<close>

record ('a, 'n) net_lib =
  ParseIP :: "string \<Rightarrow> 'a option"
  ParseCIDR :: "string \<Rightarrow> 'n option"
  Contains_net :: "'n \<Rightarrow> 'a \<Rightarrow> bool"
  SplitHost :: "string \<Rightarrow> string option"

record http_request =
  hr_remote :: string
  hr_header :: "string \<Rightarrow> string"
  hr_cookie :: "string \<Rightarrow> string option"

definition TrustedProxies :: "('a, 'n) net_lib \<Rightarrow> string list \<Rightarrow> 'n list" where
  "TrustedProxies lib cidrs =
     List.map_filter (\<lambda>c. let c' = TrimSpace c in if c' = [] then None else ParseCIDR lib c') cidrs"

definition ipIn :: "('a, 'n) net_lib \<Rightarrow> string \<Rightarrow> 'n list \<Rightarrow> bool" where
  "ipIn lib addr nets =
     (if nets = [] then False
      else (case ParseIP lib addr of None \<Rightarrow> False | Some ip \<Rightarrow> list_ex (\<lambda>n. Contains_net lib n ip) nets))"

definition remoteHost :: "('a, 'n) net_lib \<Rightarrow> http_request \<Rightarrow> string" where
  "remoteHost lib r = (case SplitHost lib (hr_remote r) of None \<Rightarrow> hr_remote r | Some host \<Rightarrow> host)"

definition ClientIPFrom :: "('a, 'n) net_lib \<Rightarrow> 'n list \<Rightarrow> http_request \<Rightarrow> string" where
  "ClientIPFrom lib trusted r =
     (let peer = remoteHost lib r in
      if \<not> ipIn lib peer trusted then peer
      else if hr_header r ''X-Forwarded-For'' \<noteq> []
      then TrimSpace (takeWhile (\<lambda>c. c \<noteq> CHR '','') (hr_header r ''X-Forwarded-For''))
      else if hr_header r ''X-Real-IP'' \<noteq> [] then TrimSpace (hr_header r ''X-Real-IP'')
      else peer)"

text \<open>An entry without a slash is one address; \<open>IP.Equal\<close> is equality of parsed addresses.\<close>

definition ipAllowed :: "('a, 'n) net_lib \<Rightarrow> string \<Rightarrow> string list \<Rightarrow> bool" where
  "ipAllowed lib ip cidrs =
     (case ParseIP lib ip of
        None \<Rightarrow> False
      | Some parsed \<Rightarrow>
          list_ex (\<lambda>c. if CHR ''/'' \<notin> set c then ParseIP lib c = Some parsed
                       else (case ParseCIDR lib c of None \<Rightarrow> False | Some n \<Rightarrow> Contains_net lib n parsed)) cidrs)"

section \<open>Tokens\<close>

definition KeyPrefix :: string where "KeyPrefix = ''gw-''"

text \<open>\<open>GenerateKey\<close> from its random secret in hexadecimal: the raw key, its hash, and the prefix shown in listings.\<close>

definition GenerateKey :: "(string \<Rightarrow> string) \<Rightarrow> string \<Rightarrow> string \<Rightarrow> string \<times> string \<times> string" where
  "GenerateKey HashKey secret teamSlug =
     (let rawKey = KeyPrefix @ teamSlug @ ''-'' @ secret in (rawKey, HashKey rawKey, take 12 rawKey))"

definition ExtractBearer :: "http_request \<Rightarrow> string" where
  "ExtractBearer r =
     (let h = hr_header r ''Authorization'' in if take 7 h = ''Bearer '' then drop 7 h else [])"

definition SessionCookieName :: string where "SessionCookieName = ''gatemux_session''"
definition LegacySessionCookieName :: string where "LegacySessionCookieName = ''aiport_session''"

definition ExtractSessionToken :: "http_request \<Rightarrow> string" where
  "ExtractSessionToken r =
     (case hr_cookie r SessionCookieName of
        Some (c # cs) \<Rightarrow> c # cs
      | _ \<Rightarrow> (case hr_cookie r LegacySessionCookieName of Some (c # cs) \<Rightarrow> c # cs | _ \<Rightarrow> ExtractBearer r))"

text \<open>\<open>strings.Split\<close> at a character.\<close>

fun split_at :: "char \<Rightarrow> string \<Rightarrow> string list" where
  "split_at d [] = [[]]"
| "split_at d (c # cs) =
     (if c = d then [] # split_at d cs else (case split_at d cs of [] \<Rightarrow> [[c]] | p # ps \<Rightarrow> (c # p) # ps))"

definition looksLikeJWT :: "string \<Rightarrow> bool" where
  "looksLikeJWT token \<longleftrightarrow> (let parts = split_at CHR ''.'' token in length parts = 3 \<and> [] \<notin> set parts)"

record jwt_team =
  jt_TeamSlug :: string
  jt_JWKSURL :: string
  jt_TeamClaim :: string
  jt_Audience :: string

record 'j jwt_verifier =
  jv_teams :: "jwt_team list"
  jv_jwks :: "string \<Rightarrow> 'j option"

type_synonym claims = "(string \<times> json) list"

definition claim_string :: "claims \<Rightarrow> string \<Rightarrow> string" where
  "claim_string cl k = (case map_of cl k of Some (J_str s) \<Rightarrow> s | _ \<Rightarrow> [])"

definition audMatches :: "claims \<Rightarrow> string \<Rightarrow> bool" where
  "audMatches cl want =
     (case map_of cl ''aud'' of
        Some (J_str v) \<Rightarrow> v = want
      | Some (J_arr vs) \<Rightarrow> J_str want \<in> set vs
      | _ \<Rightarrow> False)"

datatype jwt_outcome = NotJWT | JWTError string | JWTPrincipal team string

fun verify_teams ::
  "('j \<Rightarrow> string \<Rightarrow> claims option) \<Rightarrow> (string \<Rightarrow> store_error + team) \<Rightarrow> (string \<Rightarrow> 'j option) \<Rightarrow> string \<Rightarrow>
     jwt_team list \<Rightarrow> jwt_outcome" where
  "verify_teams parse_jwt load jwks token [] = JWTError ''invalid or unrecognized jwt''"
| "verify_teams parse_jwt load jwks token (t # ts) =
     (case Option.bind (jwks (jt_JWKSURL t)) (\<lambda>kf. parse_jwt kf token) of
        None \<Rightarrow> verify_teams parse_jwt load jwks token ts
      | Some cl \<Rightarrow>
          if jt_Audience t \<noteq> [] \<and> \<not> audMatches cl (jt_Audience t) then verify_teams parse_jwt load jwks token ts
          else let teamSlug = claim_string cl (jt_TeamClaim t) in
            if teamSlug = [] \<or> teamSlug \<noteq> jt_TeamSlug t then verify_teams parse_jwt load jwks token ts
            else (case load teamSlug of
                    Inl _ \<Rightarrow> JWTError ''load team after jwt verify''
                  | Inr team \<Rightarrow> JWTPrincipal team (claim_string cl ''sub'')))"

definition Verify_jwt ::
  "('j \<Rightarrow> string \<Rightarrow> claims option) \<Rightarrow> (string \<Rightarrow> store_error + team) \<Rightarrow> 'j jwt_verifier \<Rightarrow> string \<Rightarrow> jwt_outcome" where
  "Verify_jwt parse_jwt load v token =
     (if \<not> looksLikeJWT token then NotJWT
      else if jv_teams v = [] then NotJWT
      else verify_teams parse_jwt load (jv_jwks v) token (jv_teams v))"

definition truncSubject :: "string \<Rightarrow> string" where
  "truncSubject s = take 12 s"

section \<open>The data plane\<close>

datatype bearer_result = Rejected int string | Accepted team virtual_key "user option"

definition jwt_key :: "team \<Rightarrow> string \<Rightarrow> virtual_key" where
  "jwt_key t subject =
     \<lparr>vk_ID = 0, vk_TeamID = t_ID t, vk_UserID = None, vk_ServiceAccountID = None,
      vk_KeyPrefix = ''jwt-'' @ truncSubject subject, vk_Name = ''jwt:'' @ subject, vk_AllowedModels = [],
      vk_AllowedCIDRs = [], vk_ScopedRPM = None, vk_ScopedTPM = None, vk_MaxParallelRequests = None,
      vk_ScopedUsdLimitCents = None, vk_ExpiresAt = None, vk_RevokedAt = None, vk_DisabledAt = None,
      vk_OwnerMaxParallelRequests = None\<rparr>"

definition check_key :: "('a, 'n) net_lib \<Rightarrow> gotime \<Rightarrow> string \<Rightarrow> virtual_key \<Rightarrow> team \<Rightarrow> user option \<Rightarrow> bearer_result" where
  "check_key lib now ip vk team owner =
     (if vk_RevokedAt vk \<noteq> None then Rejected 401 ''key revoked''
      else if vk_DisabledAt vk \<noteq> None then Rejected 401 ''key paused''
      else if (case vk_ExpiresAt vk of None \<Rightarrow> False | Some e \<Rightarrow> e < now) then Rejected 401 ''key expired''
      else if t_ArchivedAt team \<noteq> None then Rejected 401 ''team archived''
      else if vk_AllowedCIDRs vk \<noteq> [] \<and> \<not> ipAllowed lib ip (vk_AllowedCIDRs vk) then Rejected 403 ''ip not in allowlist''
      else Accepted team vk owner)"

record ('a, 'n, 'j) auth_env =
  ae_lib :: "('a, 'n) net_lib"
  ae_trusted :: "'n list"
  ae_HashKey :: "string \<Rightarrow> string"
  ae_parse_jwt :: "'j \<Rightarrow> string \<Rightarrow> claims option"
  ae_verifier :: "'j jwt_verifier option"
  ae_master :: string

definition ClientIP :: "('a, 'n, 'j) auth_env \<Rightarrow> http_request \<Rightarrow> string" where
  "ClientIP e r = ClientIPFrom (ae_lib e) (ae_trusted e) r"

definition bearer_key ::
  "('a, 'n, 'j) auth_env \<Rightarrow> bool \<Rightarrow> gotime \<Rightarrow> http_request \<Rightarrow> string \<Rightarrow> identity_db \<Rightarrow> bearer_result" where
  "bearer_key e lookup_fails now r rawKey db =
     (if lookup_fails then Rejected 401 ''auth lookup failed''
      else (case LookupKey (ae_HashKey e rawKey) db of
              Inl ErrNotFound \<Rightarrow> Rejected 401 ''invalid api key''
            | Inl _ \<Rightarrow> Rejected 401 ''auth lookup failed''
            | Inr (vk, team, owner) \<Rightarrow> check_key (ae_lib e) now (ClientIP e r) vk team owner))"

definition Bearer ::
  "('a, 'n, 'j) auth_env \<Rightarrow> bool \<Rightarrow> gotime \<Rightarrow> http_request \<Rightarrow> identity_db \<Rightarrow> bearer_result" where
  "Bearer e lookup_fails now r db =
     (let rawKey = ExtractBearer r in
      if rawKey = [] then Rejected 401 ''missing bearer token''
      else (case ae_verifier e of
              None \<Rightarrow> bearer_key e lookup_fails now r rawKey db
            | Some v \<Rightarrow>
                if \<not> looksLikeJWT rawKey then bearer_key e lookup_fails now r rawKey db
                else (case Verify_jwt (ae_parse_jwt e)
                             (\<lambda>s. if lookup_fails then Inl ErrStore else GetTeamBySlug s db) v rawKey of
                        JWTError msg \<Rightarrow> Rejected 401 (''jwt verification failed: '' @ msg)
                      | JWTPrincipal t subject \<Rightarrow> Accepted t (jwt_key t subject) None
                      | NotJWT \<Rightarrow> bearer_key e lookup_fails now r rawKey db)))"

section \<open>The control plane\<close>

datatype principal = MasterPrincipal | UserPrincipal user

fun IsAdmin :: "principal option \<Rightarrow> bool" where
  "IsAdmin None = False"
| "IsAdmin (Some MasterPrincipal) = True"
| "IsAdmin (Some (UserPrincipal u)) = (usr_Role u = RoleAdmin)"

fun Role_of :: "principal option \<Rightarrow> string" where
  "Role_of None = []"
| "Role_of (Some MasterPrincipal) = RoleAdmin"
| "Role_of (Some (UserPrincipal u)) = usr_Role u"

fun IsManager :: "principal option \<Rightarrow> bool" where
  "IsManager (Some (UserPrincipal u)) = (usr_Role u = RoleManager)"
| "IsManager _ = False"

fun TeamSlug_of :: "principal option \<Rightarrow> string" where
  "TeamSlug_of (Some (UserPrincipal u)) = usr_TeamSlug u"
| "TeamSlug_of _ = []"

definition IsManagerOf :: "principal option \<Rightarrow> string \<Rightarrow> bool" where
  "IsManagerOf p slug = (if slug = [] then False else IsManager p \<and> TeamSlug_of p = slug)"

definition CanAccessTeam :: "principal option \<Rightarrow> string \<Rightarrow> bool" where
  "CanAccessTeam p slug = (if IsAdmin p then True else IsManagerOf p slug)"

datatype session_result = SessionRejected int string | SessionOf principal "string option"

text \<open>Deleting the session of a disabled user and touching a live one are best effort: \<open>write_fails\<close>.\<close>

definition Session ::
  "('a, 'n, 'j) auth_env \<Rightarrow> bool \<Rightarrow> bool \<Rightarrow> gotime \<Rightarrow> http_request \<Rightarrow> identity_db \<Rightarrow> session_result \<times> identity_db" where
  "Session e lookup_fails write_fails now r db =
     (let token = ExtractSessionToken r in
      if token = [] then (SessionRejected 401 ''missing bearer token'', db)
      else if ae_master e \<noteq> [] \<and> token = ae_master e then (SessionOf MasterPrincipal None, db)
      else let tokenHash = ae_HashKey e token in
        if lookup_fails then (SessionRejected 401 ''auth lookup failed'', db)
        else (case LookupSession now tokenHash db of
                Inl ErrNotFound \<Rightarrow> (SessionRejected 401 ''invalid or expired session'', db)
              | Inl _ \<Rightarrow> (SessionRejected 401 ''auth lookup failed'', db)
              | Inr user \<Rightarrow>
                  if usr_DisabledAt user \<noteq> None
                  then (SessionRejected 403 ''account disabled'', if write_fails then db else DeleteSession tokenHash db)
                  else (SessionOf (UserPrincipal user) (Some tokenHash),
                        if write_fails then db else TouchSession now tokenHash db)))"

text \<open>The role checks, as the refusal they write, if any.\<close>

definition RequireAdmin :: "principal option \<Rightarrow> (int \<times> string) option" where
  "RequireAdmin p = (if \<not> IsAdmin p then Some (403, ''admin only'') else None)"

definition RequireManagerOrAdmin :: "principal option \<Rightarrow> (int \<times> string) option" where
  "RequireManagerOrAdmin p = (if \<not> IsAdmin p \<and> \<not> IsManager p then Some (403, ''manager or admin only'') else None)"

definition RequireTeamAccess :: "string \<Rightarrow> principal option \<Rightarrow> (int \<times> string) option" where
  "RequireTeamAccess slug p =
     (if slug = [] then Some (400, ''missing team identifier'')
      else if \<not> CanAccessTeam p slug then Some (403, ''no access to team '' @ slug)
      else None)"

definition MasterKey :: "string \<Rightarrow> http_request \<Rightarrow> (int \<times> string) option" where
  "MasterKey masterKey r =
     (let provided = ExtractBearer r in
      if provided = [] \<or> provided \<noteq> masterKey then Some (401, ''invalid admin credentials'') else None)"

end
