(* ===== verification/Account_Handlers.thy ===== *)
theory Account_Handlers
  imports Auth_Access
begin

text \<open>
  The handlers that change credentials (\<^verbatim>\<open>internal/api/auth.go\<close>, \<^verbatim>\<open>invite.go\<close>, \<^verbatim>\<open>password_reset.go\<close>,
  \<^verbatim>\<open>me.go\<close>, the user and key handlers of \<^verbatim>\<open>admin.go\<close> and \<^verbatim>\<open>service_accounts.go\<close>), behind the middleware the
  routes of \<^verbatim>\<open>internal/server/server.go\<close> give them.

  \<^item> A handler returns the status and error type it answers, with the new database. \<open>ca_fails\<close> lists the store calls of
    the request that do not reach the database, \<open>ca_secret\<close> is the random token it draws (\<open>None\<close> if the draw fails),
    and a body is \<open>None\<close> when it does not decode. Audit rows, cookies and response bodies are left out.
  \<^item> bcrypt, \<open>strings.ToLower\<close>, \<open>strings.EqualFold\<close> and the database's \<open>LOWER\<close> are parameters.
\<close>

record ('a, 'n, 'j) account_env =
  ac_auth :: "('a, 'n, 'j) auth_env"
  ac_bcrypt :: "string \<Rightarrow> string option"
  ac_matches :: "string \<Rightarrow> string \<Rightarrow> bool"
  ac_ToLower :: "string \<Rightarrow> string"
  ac_EqualFold :: "string \<Rightarrow> string \<Rightarrow> bool"
  ac_lower :: "string \<Rightarrow> string"

record call =
  ca_now :: gotime
  ca_fails :: "string list"
  ca_secret :: "string option"
  ca_request :: http_request

type_synonym answer = "int \<times> string"

definition ask :: "call \<Rightarrow> string \<Rightarrow> store_error + 'b \<Rightarrow> store_error + 'b" where
  "ask c name x = (if name \<in> set (ca_fails c) then Inl ErrStore else x)"

definition tell :: "call \<Rightarrow> string \<Rightarrow> (identity_db \<Rightarrow> (store_error + 'b) \<times> identity_db) \<Rightarrow> identity_db \<Rightarrow>
    (store_error + 'b) \<times> identity_db" where
  "tell c name f db = (if name \<in> set (ca_fails c) then (Inl ErrStore, db) else f db)"

definition best_effort :: "call \<Rightarrow> string \<Rightarrow> (identity_db \<Rightarrow> identity_db) \<Rightarrow> identity_db \<Rightarrow> identity_db" where
  "best_effort c name f db = (if name \<in> set (ca_fails c) then db else f db)"

definition not_found_or_500 :: "store_error \<Rightarrow> answer" where
  "not_found_or_500 e = (if e = ErrNotFound then (404, ''not_found'') else (500, ''internal_error''))"

definition bad_request :: answer where "bad_request = (400, ''invalid_request'')"

section \<open>Passwords and sessions\<close>

definition minPasswordLen :: nat where "minPasswordLen = 8"

definition HashPassword :: "('a, 'n, 'j) account_env \<Rightarrow> string \<Rightarrow> string option" where
  "HashPassword e password = (if length password < minPasswordLen then None else ac_bcrypt e password)"

definition CheckPassword :: "('a, 'n, 'j) account_env \<Rightarrow> string \<Rightarrow> string \<Rightarrow> bool" where
  "CheckPassword e hash password = (if hash = [] then False else ac_matches e hash password)"

definition sessionDuration :: duration where "sessionDuration = 7 * 24 * 60 * Minute"

definition GenerateSessionToken :: "('a, 'n, 'j) account_env \<Rightarrow> string \<Rightarrow> string \<times> string" where
  "GenerateSessionToken e secret = (let raw = ''sess-'' @ secret in (raw, ae_HashKey (ac_auth e) raw))"

text \<open>The end of \<open>Login\<close> and \<open>AcceptInvite\<close>: a session row and the time of the login.\<close>

definition start_session :: "('a, 'n, 'j) account_env \<Rightarrow> call \<Rightarrow> int \<Rightarrow> identity_db \<Rightarrow> answer \<times> identity_db" where
  "start_session e c userID db =
     (case ca_secret c of
        None \<Rightarrow> ((500, ''internal_error''), db)
      | Some secret \<Rightarrow>
          (case tell c ''CreateSessionWithMeta''
                  (CreateSessionWithMeta (snd (GenerateSessionToken e secret)) userID (ca_now c + sessionDuration)
                     (ClientIP (ac_auth e) (ca_request c)) (hr_header (ca_request c) ''User-Agent'')) db of
             (Inl _, db1) \<Rightarrow> ((500, ''internal_error''), db1)
           | (Inr _, db1) \<Rightarrow> ((200, []), best_effort c ''UpdateLastLogin'' (UpdateLastLogin (ca_now c) userID) db1)))"

definition Login :: "('a, 'n, 'j) account_env \<Rightarrow> call \<Rightarrow> (string \<times> string) option \<Rightarrow> identity_db \<Rightarrow> answer \<times> identity_db" where
  "Login e c body db =
     (case body of
        None \<Rightarrow> (bad_request, db)
      | Some (email, password) \<Rightarrow>
          if email = [] \<or> password = [] then (bad_request, db)
          else (case ask c ''GetUserByEmail'' (GetUserByEmail (ac_lower e) email db) of
                  Inl err \<Rightarrow> (if err = ErrNotFound then (401, ''authentication_error'') else (500, ''internal_error''), db)
                | Inr (user, hash) \<Rightarrow>
                    if \<not> CheckPassword e hash password then ((401, ''authentication_error''), db)
                    else if usr_DisabledAt user \<noteq> None then ((403, ''account_disabled''), db)
                    else start_session e c (usr_ID user) db))"

definition Logout :: "('a, 'n, 'j) account_env \<Rightarrow> call \<Rightarrow> identity_db \<Rightarrow> answer \<times> identity_db" where
  "Logout e c db =
     (let token = ExtractSessionToken (ca_request c);
          hash = ae_HashKey (ac_auth e);
          db1 = (if token \<noteq> [] then best_effort c ''DeleteSession'' (DeleteSession (hash token)) db else db)
      in ((204, []),
          case hr_cookie (ca_request c) LegacySessionCookieName of
            None \<Rightarrow> db1
          | Some v \<Rightarrow> if v \<noteq> [] \<and> v \<noteq> token then best_effort c ''DeleteSession'' (DeleteSession (hash v)) db1 else db1))"

text \<open>\<open>requireUser\<close> refuses the master key; the other handlers under \<open>/me\<close> act on the caller's own rows.\<close>

definition requireUser :: "principal \<Rightarrow> (user \<Rightarrow> answer \<times> identity_db) \<Rightarrow> identity_db \<Rightarrow> answer \<times> identity_db" where
  "requireUser p act db =
     (case p of MasterPrincipal \<Rightarrow> ((400, ''no_user_session''), db) | UserPrincipal u \<Rightarrow> act u)"

definition ChangePassword :: "('a, 'n, 'j) account_env \<Rightarrow> call \<Rightarrow> (string \<times> string) option \<Rightarrow> principal \<Rightarrow> identity_db \<Rightarrow> answer \<times> identity_db" where
  "ChangePassword e c body p db =
     requireUser p (\<lambda>user.
       case body of
         None \<Rightarrow> (bad_request, db)
       | Some (current, new) \<Rightarrow>
           if current = [] \<or> new = [] \<or> length new < 8 then (bad_request, db)
           else (case ask c ''GetUserPasswordHash'' (GetUserPasswordHash (usr_ID user) db) of
                   Inl _ \<Rightarrow> ((500, ''internal_error''), db)
                 | Inr hash \<Rightarrow>
                     if \<not> CheckPassword e hash current then ((401, ''authentication_error''), db)
                     else (case HashPassword e new of
                             None \<Rightarrow> ((500, ''internal_error''), db)
                           | Some newHash \<Rightarrow>
                               (case tell c ''UpdatePasswordHash'' (UpdatePasswordHash (usr_ID user) newHash) db of
                                  (Inl _, db1) \<Rightarrow> ((500, ''internal_error''), db1)
                                | (Inr _, db1) \<Rightarrow> ((204, []), db1))))) db"

definition RevokeSession :: "call \<Rightarrow> string \<Rightarrow> principal \<Rightarrow> identity_db \<Rightarrow> answer \<times> identity_db" where
  "RevokeSession c prefix p db =
     requireUser p (\<lambda>user.
       case tell c ''DeleteUserSessionByPrefix'' (DeleteUserSessionByPrefix (usr_ID user) prefix) db of
         (Inl e, db1) \<Rightarrow> (not_found_or_500 e, db1)
       | (Inr _, db1) \<Rightarrow> ((204, []), db1)) db"

definition RevokeOtherSessions :: "call \<Rightarrow> principal \<Rightarrow> string option \<Rightarrow> identity_db \<Rightarrow> answer \<times> identity_db" where
  "RevokeOtherSessions c p currentHash db =
     requireUser p (\<lambda>user.
       case currentHash of
         None \<Rightarrow> (bad_request, db)
       | Some keep \<Rightarrow>
           (case tell c ''DeleteOtherSessionsForUser''
                   (\<lambda>db. case DeleteOtherSessionsForUser (usr_ID user) keep db of (n, db1) \<Rightarrow> (Inr n, db1)) db of
              (Inl _, db1) \<Rightarrow> ((500, ''internal_error''), db1)
            | (Inr _, db1) \<Rightarrow> ((200, []), db1))) db"

section \<open>Invites\<close>

record invite_request =
  ir_Email :: string
  ir_TeamSlug :: string
  ir_Role :: string
  ir_ExpiresInHours :: int

definition invite_role :: "string \<Rightarrow> string option" where
  "invite_role role =
     (let role = (if role = [] then ''member'' else role) in
      if role \<in> set [''admin'', ''manager'', ''member''] then Some role
      else if role = ''user'' then Some ''member'' else None)"

definition invite_hours :: "int \<Rightarrow> int" where
  "invite_hours h = (let h = (if h \<le> 0 then 168 else h) in if h > 720 then 720 else h)"

text \<open>The guard on managers: the team slug of the invite, or the refusal.\<close>

definition invite_guard :: "principal option \<Rightarrow> string \<Rightarrow> string \<Rightarrow> answer + string" where
  "invite_guard p role slug =
     (if IsAdmin p then Inr slug
      else if role \<noteq> ''member'' then Inl (403, ''forbidden'')
      else if TeamSlug_of p = [] then Inl (403, ''forbidden'')
      else let slug' = (if slug = [] then TeamSlug_of p else slug) in
           if slug' \<noteq> TeamSlug_of p then Inl (403, ''forbidden'') else Inr slug')"

definition create_invite_row ::
  "('a, 'n, 'j) account_env \<Rightarrow> call \<Rightarrow> invite_request \<Rightarrow> string \<Rightarrow> int option \<Rightarrow> identity_db \<Rightarrow> answer \<times> identity_db" where
  "create_invite_row e c req role teamID db =
     (case ca_secret c of
        None \<Rightarrow> ((500, ''internal_error''), db)
      | Some secret \<Rightarrow>
          (case tell c ''CreateInvite''
                  (CreateInvite (ae_HashKey (ac_auth e) secret) (take 8 secret) (ir_Email req) role teamID
                     (ca_now c + invite_hours (ir_ExpiresInHours req) * 60 * Minute)) db of
             (Inl _, db1) \<Rightarrow> ((500, ''internal_error''), db1)
           | (Inr _, db1) \<Rightarrow> ((201, []), db1)))"

definition CreateInvite_handler ::
  "('a, 'n, 'j) account_env \<Rightarrow> call \<Rightarrow> invite_request option \<Rightarrow> principal option \<Rightarrow> identity_db \<Rightarrow> answer \<times> identity_db" where
  "CreateInvite_handler e c body p db =
     (case body of
        None \<Rightarrow> (bad_request, db)
      | Some req \<Rightarrow>
          (case invite_role (ir_Role req) of
             None \<Rightarrow> (bad_request, db)
           | Some role \<Rightarrow>
               (case invite_guard p role (ir_TeamSlug req) of
                  Inl a \<Rightarrow> (a, db)
                | Inr slug \<Rightarrow>
                    if slug = [] then create_invite_row e c req role None db
                    else (case ask c ''GetTeamBySlug'' (GetTeamBySlug slug db) of
                            Inl err \<Rightarrow> (if err = ErrNotFound then bad_request else (500, ''internal_error''), db)
                          | Inr t \<Rightarrow> create_invite_row e c req role (Some (t_ID t)) db))))"

definition normalizeInviteRole :: "string \<Rightarrow> string" where
  "normalizeInviteRole role =
     (if role = ''admin'' then ''admin'' else if role = ''manager'' then ''manager'' else ''member'')"

record accept_request =
  aq_Email :: string
  aq_Name :: string
  aq_Password :: string

text \<open>\<open>AcceptInvite\<close> in the three statements that touch the database: it reads the invite, creates the user, and
  marks the invite.\<close>

definition accept_check ::
  "('a, 'n, 'j) account_env \<Rightarrow> call \<Rightarrow> string \<Rightarrow> accept_request option \<Rightarrow> identity_db \<Rightarrow> answer + (invite \<times> accept_request \<times> string)" where
  "accept_check e c token body db =
     (if token = [] then Inl bad_request
      else (case body of
        None \<Rightarrow> Inl bad_request
      | Some req \<Rightarrow>
          if aq_Email req = [] \<or> aq_Password req = [] then Inl bad_request
          else (case ask c ''GetInviteByTokenHash'' (GetInviteByTokenHash (ae_HashKey (ac_auth e) token) db) of
                  Inl err \<Rightarrow> Inl (not_found_or_500 err)
                | Inr iv \<Rightarrow>
                    if iv_AcceptedAt iv \<noteq> None then Inl (410, ''invite_used'')
                    else if ca_now c > iv_ExpiresAt iv then Inl (410, ''invite_expired'')
                    else if iv_Email iv \<noteq> [] \<and> \<not> ac_EqualFold e (iv_Email iv) (aq_Email req) then Inl bad_request
                    else (case HashPassword e (aq_Password req) of
                            None \<Rightarrow> Inl bad_request
                          | Some pwHash \<Rightarrow> Inr (iv, req, pwHash)))))"

definition accept_create ::
  "('a, 'n, 'j) account_env \<Rightarrow> call \<Rightarrow> invite \<times> accept_request \<times> string \<Rightarrow> identity_db \<Rightarrow> (store_error + user) \<times> identity_db" where
  "accept_create e c chk db =
     (case chk of (iv, req, pwHash) \<Rightarrow>
        tell c ''CreateUser''
          (CreateUser (ac_ToLower e (TrimSpace (aq_Email req))) (TrimSpace (aq_Name req)) pwHash (iv_TeamID iv)
             (normalizeInviteRole (iv_Role iv))) db)"

definition accept_finish ::
  "('a, 'n, 'j) account_env \<Rightarrow> call \<Rightarrow> string \<Rightarrow> user \<Rightarrow> identity_db \<Rightarrow> answer \<times> identity_db" where
  "accept_finish e c token user db =
     (case tell c ''MarkInviteAccepted'' (MarkInviteAccepted (ca_now c) (ae_HashKey (ac_auth e) token) (usr_ID user)) db of
        (Inl _, db1) \<Rightarrow> ((500, ''internal_error''), db1)
      | (Inr _, db1) \<Rightarrow> start_session e c (usr_ID user) db1)"

definition AcceptInvite ::
  "('a, 'n, 'j) account_env \<Rightarrow> call \<Rightarrow> string \<Rightarrow> accept_request option \<Rightarrow> identity_db \<Rightarrow> answer \<times> identity_db" where
  "AcceptInvite e c token body db =
     (case accept_check e c token body db of
        Inl a \<Rightarrow> (a, db)
      | Inr chk \<Rightarrow>
          (case accept_create e c chk db of
             (Inl _, db1) \<Rightarrow> (bad_request, db1)
           | (Inr user, db1) \<Rightarrow> accept_finish e c token user db1))"

section \<open>Password resets\<close>

definition passwordResetTTL :: duration where "passwordResetTTL = 24 * 60 * Minute"

definition IssuePasswordReset ::
  "('a, 'n, 'j) account_env \<Rightarrow> call \<Rightarrow> int \<Rightarrow> principal \<Rightarrow> identity_db \<Rightarrow> answer \<times> identity_db" where
  "IssuePasswordReset e c i p db =
     (case ask c ''GetUserByID'' (GetUserByID i db) of
        Inl err \<Rightarrow> (not_found_or_500 err, db)
      | Inr user \<Rightarrow>
          (case ca_secret c of
             None \<Rightarrow> ((500, ''internal_error''), db)
           | Some secret \<Rightarrow>
               (case tell c ''CreatePasswordReset''
                       (CreatePasswordReset (usr_ID user) (ae_HashKey (ac_auth e) (''rst-'' @ secret))
                          (ca_now c + passwordResetTTL)
                          (case p of MasterPrincipal \<Rightarrow> None | UserPrincipal u \<Rightarrow> Some (usr_ID u))) db of
                  (Inl _, db1) \<Rightarrow> ((500, ''internal_error''), db1)
                | (Inr _, db1) \<Rightarrow> ((200, []), db1))))"

definition Consume ::
  "('a, 'n, 'j) account_env \<Rightarrow> call \<Rightarrow> string \<Rightarrow> string option \<Rightarrow> identity_db \<Rightarrow> answer \<times> identity_db" where
  "Consume e c token body db =
     (if token = [] then (bad_request, db)
      else (case body of
        None \<Rightarrow> (bad_request, db)
      | Some new \<Rightarrow>
          if length new < 8 then (bad_request, db)
          else (case ask c ''LookupPasswordReset'' (LookupPasswordReset (ca_now c) (ae_HashKey (ac_auth e) token) db) of
                  Inl err \<Rightarrow> (not_found_or_500 err, db)
                | Inr pr \<Rightarrow>
                    (case HashPassword e new of
                       None \<Rightarrow> ((500, ''internal_error''), db)
                     | Some hash \<Rightarrow>
                         (case tell c ''UpdatePasswordHash'' (UpdatePasswordHash (pr_UserID pr) hash) db of
                            (Inl _, db1) \<Rightarrow> ((500, ''internal_error''), db1)
                          | (Inr _, db1) \<Rightarrow>
                              (case tell c ''MarkPasswordResetUsed'' (MarkPasswordResetUsed (ca_now c) (pr_ID pr)) db1 of
                                 (r, db2) \<Rightarrow>
                                   if (case r of Inl err \<Rightarrow> err \<noteq> ErrNotFound | Inr _ \<Rightarrow> False)
                                   then ((500, ''internal_error''), db2)
                                   else ((204, []), best_effort c ''DeleteSessionsForUser'' (DeleteSessionsForUser (pr_UserID pr)) db2)))))))"

section \<open>Keys\<close>

definition positiveLimit :: "int option \<Rightarrow> answer + int option" where
  "positiveLimit v =
     (case v of None \<Rightarrow> Inr None
      | Some n \<Rightarrow> if n = 0 then Inr None else if n < 0 then Inl bad_request else Inr (Some n))"

record key_request =
  kq_Name :: string
  kq_UserID :: "int option"
  kq_Metadata :: "(string \<times> json) list"
  kq_AllowedModels :: "string list"
  kq_RPM :: "int option"
  kq_TPM :: "int option"
  kq_MaxParallelRequests :: "int option"
  kq_UsdLimitCents :: "int option"
  kq_ExpiresAt :: "gotime option"

text \<open>The checks that the three handlers taking key settings share; they yield the concurrency limit.\<close>

definition check_key_request :: "gotime \<Rightarrow> key_request \<Rightarrow> answer + int option" where
  "check_key_request now q =
     (case ValidateKeyBudget (kq_UsdLimitCents q) of
        Inl _ \<Rightarrow> Inl bad_request
      | Inr _ \<Rightarrow>
          if (case kq_RPM q of None \<Rightarrow> False | Some n \<Rightarrow> n < 0) then Inl bad_request
          else if (case kq_TPM q of None \<Rightarrow> False | Some n \<Rightarrow> n < 0) then Inl bad_request
          else (case positiveLimit (kq_MaxParallelRequests q) of
                  Inl a \<Rightarrow> Inl a
                | Inr m \<Rightarrow> if (case kq_ExpiresAt q of None \<Rightarrow> False | Some x \<Rightarrow> x < now) then Inl bad_request else Inr m))"

definition key_params_of ::
  "key_request \<Rightarrow> int option \<Rightarrow> int \<Rightarrow> int option \<Rightarrow> int option \<Rightarrow> string \<Rightarrow> string \<Rightarrow> key_params" where
  "key_params_of q m teamID userID saID hash prefix =
     \<lparr>kp_TeamID = teamID, kp_UserID = userID, kp_ServiceAccountID = saID, kp_KeyHash = hash, kp_Prefix = prefix,
      kp_Name = TrimSpace (kq_Name q), kp_Metadata = kq_Metadata q, kp_AllowedModels = kq_AllowedModels q,
      kp_ScopedRPM = kq_RPM q, kp_ScopedTPM = kq_TPM q, kp_MaxParallelRequests = m,
      kp_ScopedUsdLimitCents = kq_UsdLimitCents q, kp_ExpiresAt = kq_ExpiresAt q\<rparr>"

definition issue_key ::
  "('a, 'n, 'j) account_env \<Rightarrow> call \<Rightarrow> key_request \<Rightarrow> int option \<Rightarrow> team \<Rightarrow> int option \<Rightarrow> int option \<Rightarrow> identity_db \<Rightarrow> answer \<times> identity_db" where
  "issue_key e c q m team userID saID db =
     (case ca_secret c of
        None \<Rightarrow> ((500, ''internal_error''), db)
      | Some secret \<Rightarrow>
          (case GenerateKey (ae_HashKey (ac_auth e)) secret (t_Slug team) of (_, hash, prefix) \<Rightarrow>
             (case tell c ''CreateVirtualKey''
                     (CreateVirtualKey (ca_now c) (key_params_of q m (t_ID team) userID saID hash prefix)) db of
                (Inl _, db1) \<Rightarrow> ((500, ''internal_error''), db1)
              | (Inr _, db1) \<Rightarrow> ((201, []), db1))))"

definition CreateKey ::
  "('a, 'n, 'j) account_env \<Rightarrow> call \<Rightarrow> string \<Rightarrow> key_request option \<Rightarrow> identity_db \<Rightarrow> answer \<times> identity_db" where
  "CreateKey e c slug body db =
     (case ask c ''GetTeamBySlug'' (GetTeamBySlug slug db) of
        Inl err \<Rightarrow> (not_found_or_500 err, db)
      | Inr team \<Rightarrow>
          (case body of
             None \<Rightarrow> (bad_request, db)
           | Some q \<Rightarrow>
               (case check_key_request (ca_now c) q of
                  Inl a \<Rightarrow> (a, db)
                | Inr m \<Rightarrow>
                    (case kq_UserID q of
                       None \<Rightarrow> issue_key e c q m team None None db
                     | Some i \<Rightarrow>
                         (case ask c ''GetUserByID'' (GetUserByID i db) of
                            Inl err \<Rightarrow> (if err = ErrNotFound then bad_request else (500, ''internal_error''), db)
                          | Inr owner \<Rightarrow>
                              if usr_TeamID owner \<noteq> Some (t_ID team) then (bad_request, db)
                              else issue_key e c q m team (Some i) None db)))))"

definition CreateServiceAccountKey ::
  "('a, 'n, 'j) account_env \<Rightarrow> call \<Rightarrow> int \<Rightarrow> key_request option \<Rightarrow> identity_db \<Rightarrow> answer \<times> identity_db" where
  "CreateServiceAccountKey e c i body db =
     (case ask c ''GetServiceAccountByID'' (GetServiceAccountByID i db) of
        Inl err \<Rightarrow> (not_found_or_500 err, db)
      | Inr sa \<Rightarrow>
          (case ask c ''GetTeamByID'' (GetTeamByID (sa_TeamID sa) db) of
             Inl _ \<Rightarrow> ((500, ''internal_error''), db)
           | Inr team \<Rightarrow>
               (case body of
                  None \<Rightarrow> (bad_request, db)
                | Some q \<Rightarrow>
                    (case check_key_request (ca_now c) q of
                       Inl a \<Rightarrow> (a, db)
                     | Inr m \<Rightarrow> issue_key e c q m team None (Some (sa_ID sa)) db))))"

text \<open>The start of the four handlers under \<open>/keys/{id}\<close>: the key with its team, and the caller's right to that team.\<close>

definition with_key ::
  "call \<Rightarrow> int \<Rightarrow> principal option \<Rightarrow> (virtual_key \<Rightarrow> team \<Rightarrow> answer \<times> identity_db) \<Rightarrow> identity_db \<Rightarrow> answer \<times> identity_db" where
  "with_key c i p act db =
     (case ask c ''GetVirtualKeyByID'' (GetVirtualKeyByID i db) of
        Inl err \<Rightarrow> (not_found_or_500 err, db)
      | Inr (current, team) \<Rightarrow>
          if \<not> CanAccessTeam p (t_Slug team) then ((403, ''forbidden''), db) else act current team)"

definition UpdateKey ::
  "call \<Rightarrow> int \<Rightarrow> key_request option \<Rightarrow> principal option \<Rightarrow> identity_db \<Rightarrow> answer \<times> identity_db" where
  "UpdateKey c i body p db =
     with_key c i p (\<lambda>current team.
       if vk_RevokedAt current \<noteq> None then (bad_request, db)
       else (case body of
               None \<Rightarrow> (bad_request, db)
             | Some q \<Rightarrow>
                 (case check_key_request (ca_now c) q of
                    Inl a \<Rightarrow> (a, db)
                  | Inr m \<Rightarrow>
                      (case tell c ''UpdateVirtualKey'' (UpdateVirtualKey i (key_params_of q m 0 None None [] [])) db of
                         (Inl err, db1) \<Rightarrow> (not_found_or_500 err, db1)
                       | (Inr _, db1) \<Rightarrow> ((200, []), db1))))) db"

definition RotateKey ::
  "('a, 'n, 'j) account_env \<Rightarrow> call \<Rightarrow> int \<Rightarrow> int option \<Rightarrow> principal option \<Rightarrow> identity_db \<Rightarrow> answer \<times> identity_db" where
  "RotateKey e c i grace p db =
     with_key c i p (\<lambda>current team.
       if vk_RevokedAt current \<noteq> None then (bad_request, db)
       else if vk_DisabledAt current \<noteq> None then (bad_request, db)
       else if (case vk_ExpiresAt current of None \<Rightarrow> False | Some x \<Rightarrow> x < ca_now c) then (bad_request, db)
       else (case grace of
               None \<Rightarrow> (bad_request, db)
             | Some secs \<Rightarrow>
                 if secs < 0 \<or> secs > 604800 then (bad_request, db)
                 else (case ca_secret c of
                         None \<Rightarrow> ((500, ''internal_error''), db)
                       | Some secret \<Rightarrow>
                           (case GenerateKey (ae_HashKey (ac_auth e)) secret (t_Slug team) of (_, hash, prefix) \<Rightarrow>
                              (case tell c ''RotateVirtualKey''
                                      (RotateVirtualKey (ca_now c) i (t_ID team) hash prefix (secs * Second)) db of
                                 (Inl err, db1) \<Rightarrow> (if err = ErrNotFound then (404, ''not_found'') else bad_request, db1)
                               | (Inr _, db1) \<Rightarrow> ((201, []), db1)))))) db"

definition setKeyPaused :: "call \<Rightarrow> int \<Rightarrow> bool \<Rightarrow> principal option \<Rightarrow> identity_db \<Rightarrow> answer \<times> identity_db" where
  "setKeyPaused c i paused p db =
     with_key c i p (\<lambda>current team.
       case tell c ''SetKeyPaused'' (SetKeyPaused (ca_now c) i paused) db of
         (Inl err, db1) \<Rightarrow> (not_found_or_500 err, db1)
       | (Inr _, db1) \<Rightarrow> ((204, []), db1)) db"

definition RevokeKey_handler :: "call \<Rightarrow> int \<Rightarrow> principal option \<Rightarrow> identity_db \<Rightarrow> answer \<times> identity_db" where
  "RevokeKey_handler c i p db =
     with_key c i p (\<lambda>current team.
       case tell c ''RevokeKey'' (RevokeKey (ca_now c) i) db of
         (Inl err, db1) \<Rightarrow> (not_found_or_500 err, db1)
       | (Inr _, db1) \<Rightarrow> ((204, []), db1)) db"

section \<open>Users\<close>

definition SetUserDisabled_handler :: "call \<Rightarrow> int \<Rightarrow> bool option \<Rightarrow> identity_db \<Rightarrow> answer \<times> identity_db" where
  "SetUserDisabled_handler c i body db =
     (case body of
        None \<Rightarrow> (bad_request, db)
      | Some disabled \<Rightarrow>
          if ''SetUserDisabled'' \<in> set (ca_fails c) then ((500, ''internal_error''), db)
          else let db1 = SetUserDisabled (ca_now c) i disabled db in
               ((204, []),
                if disabled then best_effort c ''DeleteSessionsForUser'' (DeleteSessionsForUser i) db1 else db1))"

definition set_role :: "int \<Rightarrow> string \<Rightarrow> identity_db \<Rightarrow> identity_db" where
  "set_role i role db =
     db\<lparr>idb_users := update_where (\<lambda>r. usr_ID (ur_user r) = i)
                       (\<lambda>r. r\<lparr>ur_user := (ur_user r)\<lparr>usr_Role := role\<rparr>\<rparr>) (idb_users db)\<rparr>"

definition set_team :: "int \<Rightarrow> int \<Rightarrow> identity_db \<Rightarrow> identity_db" where
  "set_team i teamID db =
     db\<lparr>idb_users := update_where (\<lambda>r. usr_ID (ur_user r) = i)
                       (\<lambda>r. r\<lparr>ur_user := (ur_user r)\<lparr>usr_TeamID := Some teamID\<rparr>\<rparr>) (idb_users db)\<rparr>"

definition mark_edited :: "call \<Rightarrow> int \<Rightarrow> identity_db \<Rightarrow> answer \<times> identity_db" where
  "mark_edited c i db =
     (if ''MarkRoleManuallyEdited'' \<in> set (ca_fails c) then ((500, ''internal_error''), db)
      else ((204, []), MarkRoleManuallyEdited i db))"

definition SetUserRole ::
  "call \<Rightarrow> int \<Rightarrow> (string option \<times> string option) option \<Rightarrow> identity_db \<Rightarrow> answer \<times> identity_db" where
  "SetUserRole c i body db =
     (case body of
        None \<Rightarrow> (bad_request, db)
      | Some (None, None) \<Rightarrow> (bad_request, db)
      | Some (role, slug) \<Rightarrow>
          if (case role of None \<Rightarrow> False | Some x \<Rightarrow> x \<notin> set [RoleAdmin, RoleManager, RoleMember]) then (bad_request, db)
          else if role \<noteq> None \<and> ''update role'' \<in> set (ca_fails c) then ((500, ''internal_error''), db)
          else let db1 = (case role of None \<Rightarrow> db | Some x \<Rightarrow> set_role i x db) in
            (case slug of
               None \<Rightarrow> mark_edited c i db1
             | Some s \<Rightarrow>
                 if ''select team'' \<in> set (ca_fails c) then ((500, ''internal_error''), db1)
                 else (case find (\<lambda>t. t_Slug t = s \<and> t_ArchivedAt t = None) (idb_teams db1) of
                         None \<Rightarrow> ((404, ''not_found''), db1)
                       | Some t \<Rightarrow>
                           if ''update team'' \<in> set (ca_fails c) then ((500, ''internal_error''), db1)
                           else mark_edited c i (set_team i (t_ID t) db1))))"

definition ArchiveServiceAccount_handler :: "call \<Rightarrow> int \<Rightarrow> identity_db \<Rightarrow> answer \<times> identity_db" where
  "ArchiveServiceAccount_handler c i db =
     (case tell c ''ArchiveServiceAccount'' (ArchiveServiceAccount (ca_now c) i) db of
        (Inl err, db1) \<Rightarrow> (not_found_or_500 err, db1)
      | (Inr _, db1) \<Rightarrow> ((204, []), db1))"

section \<open>Routes\<close>

datatype account_op =
    Op_Login "(string \<times> string) option"
  | Op_Logout
  | Op_AcceptInvite string "accept_request option"
  | Op_ConsumeReset string "string option"
  | Op_ChangePassword "(string \<times> string) option"
  | Op_RevokeSession string
  | Op_RevokeOtherSessions
  | Op_IssuePasswordReset int
  | Op_SetUserDisabled int "bool option"
  | Op_SetUserRole int "(string option \<times> string option) option"
  | Op_CreateKey string "key_request option"
  | Op_ArchiveServiceAccount int
  | Op_CreateServiceAccountKey int "key_request option"
  | Op_CreateInvite "invite_request option"
  | Op_UpdateKey int "key_request option"
  | Op_RotateKey int "int option"
  | Op_PauseKey int
  | Op_ResumeKey int
  | Op_RevokeKey int

text \<open>The routes without a session.\<close>

fun serve_public ::
  "('a, 'n, 'j) account_env \<Rightarrow> call \<Rightarrow> account_op \<Rightarrow> (identity_db \<Rightarrow> answer \<times> identity_db) option" where
  "serve_public e c (Op_Login body) = Some (Login e c body)"
| "serve_public e c (Op_AcceptInvite token body) = Some (AcceptInvite e c token body)"
| "serve_public e c (Op_ConsumeReset token body) = Some (Consume e c token body)"
| "serve_public e c _ = None"

text \<open>The role check a route adds after \<open>Session\<close>.\<close>

fun route_guard :: "account_op \<Rightarrow> principal option \<Rightarrow> (int \<times> string) option" where
  "route_guard (Op_IssuePasswordReset _) = RequireAdmin"
| "route_guard (Op_SetUserDisabled _ _) = RequireAdmin"
| "route_guard (Op_SetUserRole _ _) = RequireAdmin"
| "route_guard (Op_ArchiveServiceAccount _) = RequireAdmin"
| "route_guard (Op_CreateServiceAccountKey _ _) = RequireAdmin"
| "route_guard (Op_CreateKey slug _) = RequireTeamAccess slug"
| "route_guard (Op_CreateInvite _) = RequireManagerOrAdmin"
| "route_guard (Op_UpdateKey _ _) = RequireManagerOrAdmin"
| "route_guard (Op_RotateKey _ _) = RequireManagerOrAdmin"
| "route_guard (Op_PauseKey _) = RequireManagerOrAdmin"
| "route_guard (Op_ResumeKey _) = RequireManagerOrAdmin"
| "route_guard (Op_RevokeKey _) = RequireManagerOrAdmin"
| "route_guard _ = (\<lambda>_. None)"

fun serve_session ::
  "('a, 'n, 'j) account_env \<Rightarrow> call \<Rightarrow> account_op \<Rightarrow> principal \<Rightarrow> string option \<Rightarrow> identity_db \<Rightarrow> answer \<times> identity_db" where
  "serve_session e c Op_Logout p h db = Logout e c db"
| "serve_session e c (Op_ChangePassword body) p h db = ChangePassword e c body p db"
| "serve_session e c (Op_RevokeSession prefix) p h db = RevokeSession c prefix p db"
| "serve_session e c Op_RevokeOtherSessions p h db = RevokeOtherSessions c p h db"
| "serve_session e c (Op_IssuePasswordReset i) p h db = IssuePasswordReset e c i p db"
| "serve_session e c (Op_SetUserDisabled i body) p h db = SetUserDisabled_handler c i body db"
| "serve_session e c (Op_SetUserRole i body) p h db = SetUserRole c i body db"
| "serve_session e c (Op_CreateKey slug body) p h db = CreateKey e c slug body db"
| "serve_session e c (Op_ArchiveServiceAccount i) p h db = ArchiveServiceAccount_handler c i db"
| "serve_session e c (Op_CreateServiceAccountKey i body) p h db = CreateServiceAccountKey e c i body db"
| "serve_session e c (Op_CreateInvite body) p h db = CreateInvite_handler e c body (Some p) db"
| "serve_session e c (Op_UpdateKey i body) p h db = UpdateKey c i body (Some p) db"
| "serve_session e c (Op_RotateKey i grace) p h db = RotateKey e c i grace (Some p) db"
| "serve_session e c (Op_PauseKey i) p h db = setKeyPaused c i True (Some p) db"
| "serve_session e c (Op_ResumeKey i) p h db = setKeyPaused c i False (Some p) db"
| "serve_session e c (Op_RevokeKey i) p h db = RevokeKey_handler c i (Some p) db"
| "serve_session e c _ p h db = ((404, []), db)"

definition session_of :: "('a, 'n, 'j) account_env \<Rightarrow> call \<Rightarrow> identity_db \<Rightarrow> session_result \<times> identity_db" where
  "session_of e c db =
     Session (ac_auth e) (''LookupSession'' \<in> set (ca_fails c)) (''session write'' \<in> set (ca_fails c)) (ca_now c) (ca_request c) db"

definition serve ::
  "('a, 'n, 'j) account_env \<Rightarrow> call \<Rightarrow> account_op \<Rightarrow> identity_db \<Rightarrow> answer \<times> identity_db" where
  "serve e c op db =
     (case serve_public e c op of
        Some handler \<Rightarrow> handler db
      | None \<Rightarrow>
          (case session_of e c db of
             (SessionRejected status msg, db1) \<Rightarrow>
               ((status, if status = 403 then ''forbidden'' else ''authentication_error''), db1)
           | (SessionOf p h, db1) \<Rightarrow>
               (case route_guard op (Some p) of
                  Some (status, msg) \<Rightarrow>
                    ((status, if status = 403 then ''forbidden'' else ''authentication_error''), db1)
                | None \<Rightarrow> serve_session e c op p h db1)))"

definition serve_all ::
  "('a, 'n, 'j) account_env \<Rightarrow> (call \<times> account_op) list \<Rightarrow> identity_db \<Rightarrow> identity_db" where
  "serve_all e reqs db = fold (\<lambda>(c, op) db. snd (serve e c op db)) reqs db"

end
