(* ===== verification/Access_Laws.thy ===== *)
theory Access_Laws
  imports Account_Handlers
begin

text \<open>
  What the account handlers guarantee over any sequence of requests: the tables stay well formed, a revoked key never
  authenticates again, a rotation hands the policy of a key over, nobody but an administrator raises a role, a manager
  touches only the keys of the own team, and a disabled user gets no session.
\<close>

named_theorems store_ops
named_theorems handler_defs

declare ask_def [handler_defs] tell_def [handler_defs] best_effort_def [handler_defs]

section \<open>Rows\<close>

lemma update_where_simps [simp]:
  "update_where P f [] = []"
  "update_where P f (r # rs) = (if P r then f r else r) # update_where P f rs"
  by (simp_all add: update_where_def)

lemma map_update_where: "(\<And>r. g (f r) = g r) \<Longrightarrow> map g (update_where P f rows) = map g rows"
  by (simp add: update_where_def)

lemma set_update_where: "r \<in> set (update_where P f rows) \<Longrightarrow> r \<in> set rows \<and> \<not> P r \<or> (\<exists>r0 \<in> set rows. P r0 \<and> r = f r0)"
  by (auto simp: update_where_def split: if_splits)

lemma find_map_same:
  "(\<And>r. P (f r) = P r) \<Longrightarrow> find P (map f rows) = map_option f (find P rows)"
  by (induction rows) auto

lemma find_append: "find P (xs @ ys) = (case find P xs of None \<Rightarrow> find P ys | Some x \<Rightarrow> Some x)"
  by (induction xs) auto

lemma find_Some_in: "find P xs = Some x \<Longrightarrow> x \<in> set xs \<and> P x"
  by (auto simp: find_Some_iff)

lemma find_unique:
  assumes "distinct (map g xs)" and "x \<in> set xs" and "g x = a"
  shows "find (\<lambda>y. g y = a) xs = Some x"
  using assms by (induction xs) (auto simp: rev_image_eqI)

section \<open>Effects of the store operations\<close>

text \<open>Each handler changes few tables; these are the tables it leaves alone, and what it does to the others.\<close>

lemma keys_unchanged [simp]:
  "idb_keys (UpdateLastLogin now i db) = idb_keys db"
  "idb_keys (SetUserDisabled now i b db) = idb_keys db"
  "idb_keys (MarkRoleManuallyEdited i db) = idb_keys db"
  "idb_keys (TouchSession now h db) = idb_keys db"
  "idb_keys (DeleteSession h db) = idb_keys db"
  "idb_keys (DeleteSessionsForUser i db) = idb_keys db"
  "idb_keys (set_role i x db) = idb_keys db"
  "idb_keys (set_team i j db) = idb_keys db"
  by (simp_all add: UpdateLastLogin_def SetUserDisabled_def MarkRoleManuallyEdited_def TouchSession_def DeleteSession_def
        DeleteSessionsForUser_def set_role_def set_team_def)

lemma teams_unchanged [simp]:
  "idb_teams (UpdateLastLogin now i db) = idb_teams db"
  "idb_teams (SetUserDisabled now i b db) = idb_teams db"
  "idb_teams (MarkRoleManuallyEdited i db) = idb_teams db"
  "idb_teams (TouchSession now h db) = idb_teams db"
  "idb_teams (DeleteSession h db) = idb_teams db"
  "idb_teams (DeleteSessionsForUser i db) = idb_teams db"
  "idb_teams (set_role i x db) = idb_teams db"
  "idb_teams (set_team i j db) = idb_teams db"
  by (simp_all add: UpdateLastLogin_def SetUserDisabled_def MarkRoleManuallyEdited_def TouchSession_def DeleteSession_def
        DeleteSessionsForUser_def set_role_def set_team_def)

lemma users_unchanged [simp]:
  "idb_users (TouchSession now h db) = idb_users db"
  "idb_users (DeleteSession h db) = idb_users db"
  "idb_users (DeleteSessionsForUser i db) = idb_users db"
  by (simp_all add: TouchSession_def DeleteSession_def DeleteSessionsForUser_def)

lemmas all_splits = option.splits sum.splits prod.splits if_splits

lemma session_keeps:
  "session_of e c db = (s, db1) \<Longrightarrow>
     idb_keys db1 = idb_keys db \<and> idb_teams db1 = idb_teams db \<and> idb_users db1 = idb_users db \<and>
     idb_invites db1 = idb_invites db \<and> idb_key_seq db1 = idb_key_seq db \<and> idb_user_seq db1 = idb_user_seq db"
  by (auto simp: session_of_def Session_def Let_def TouchSession_def DeleteSession_def split: all_splits store_error.splits)

section \<open>Changes of key rows\<close>

definition keys_wf :: "identity_db \<Rightarrow> bool" where
  "keys_wf db \<longleftrightarrow> distinct (map (\<lambda>r. vk_ID (kr_key r)) (idb_keys db)) \<and>
     (\<forall>r \<in> set (idb_keys db). vk_ID (kr_key r) < idb_key_seq db) \<and>
     distinct (map kr_hash (idb_keys db)) \<and> distinct (map t_ID (idb_teams db))"

definition row_kept :: "int set \<Rightarrow> key_row \<Rightarrow> key_row \<Rightarrow> bool" where
  "row_kept T r r' \<longleftrightarrow> kr_hash r' = kr_hash r \<and> vk_ID (kr_key r') = vk_ID (kr_key r) \<and> vk_TeamID (kr_key r') = vk_TeamID (kr_key r) \<and>
     (vk_TeamID (kr_key r) \<notin> T \<or> vk_RevokedAt (kr_key r) \<noteq> None \<longrightarrow> r' = r)"

definition fresh_row :: "int set \<Rightarrow> identity_db \<Rightarrow> key_row \<Rightarrow> bool" where
  "fresh_row T db r \<longleftrightarrow> vk_ID (kr_key r) = idb_key_seq db \<and> vk_TeamID (kr_key r) \<in> T \<and> kr_hash r \<notin> kr_hash ` set (idb_keys db)"

text \<open>A request changes live rows of the teams \<open>T\<close> only, keeps their identity, and adds at most one row, to such a team.\<close>

definition key_change :: "int set \<Rightarrow> identity_db \<Rightarrow> identity_db \<Rightarrow> bool" where
  "key_change T db db' \<longleftrightarrow> idb_teams db' = idb_teams db \<and>
     (\<exists>f new. idb_keys db' = map f (idb_keys db) @ new \<and> (\<forall>r \<in> set (idb_keys db). row_kept T r (f r)) \<and>
        (new = [] \<and> idb_key_seq db' = idb_key_seq db \<or>
         (\<exists>r. new = [r] \<and> fresh_row T db r \<and> idb_key_seq db' = idb_key_seq db + 1)))"

definition same_keys :: "identity_db \<Rightarrow> identity_db \<Rightarrow> bool" where
  "same_keys db db' \<longleftrightarrow> idb_keys db' = idb_keys db \<and> idb_teams db' = idb_teams db \<and> idb_key_seq db' = idb_key_seq db"

lemma key_changeE:
  assumes "key_change T db db'"
  obtains f new where "idb_keys db' = map f (idb_keys db) @ new" "\<forall>r \<in> set (idb_keys db). row_kept T r (f r)"
    "\<forall>r \<in> set new. vk_TeamID (kr_key r) \<in> T"
proof -
  from assms obtain f new where k: "idb_keys db' = map f (idb_keys db) @ new" "\<forall>r \<in> set (idb_keys db). row_kept T r (f r)"
    and n: "new = [] \<or> (\<exists>r. new = [r] \<and> fresh_row T db r)"
    unfolding key_change_def by blast
  from n have "\<forall>r \<in> set new. vk_TeamID (kr_key r) \<in> T" by (auto simp: fresh_row_def)
  with k that show ?thesis by blast
qed

lemma same_keys_change: "same_keys db db' \<Longrightarrow> key_change T db db'"
  by (auto simp: same_keys_def key_change_def row_kept_def intro!: exI [of _ id])

lemma key_change_after: "same_keys db db1 \<Longrightarrow> key_change T db1 db' \<Longrightarrow> key_change T db db'"
  by (simp add: same_keys_def key_change_def fresh_row_def)

lemma key_change_mono: "key_change S db db' \<Longrightarrow> S \<subseteq> T \<Longrightarrow> key_change T db db'"
  unfolding key_change_def row_kept_def fresh_row_def by blast

lemma key_change_wf: "key_change T db db' \<Longrightarrow> keys_wf db \<Longrightarrow> keys_wf db'"
proof -
  assume c: "key_change T db db'" and w: "keys_wf db"
  from c obtain f new where k: "idb_keys db' = map f (idb_keys db) @ new" "\<forall>r \<in> set (idb_keys db). row_kept T r (f r)"
    and n: "new = [] \<and> idb_key_seq db' = idb_key_seq db \<or> (\<exists>r. new = [r] \<and> fresh_row T db r \<and> idb_key_seq db' = idb_key_seq db + 1)"
    and t: "idb_teams db' = idb_teams db" by (auto simp: key_change_def)
  have m: "map (\<lambda>r. vk_ID (kr_key r)) (map f (idb_keys db)) = map (\<lambda>r. vk_ID (kr_key r)) (idb_keys db)"
    "map kr_hash (map f (idb_keys db)) = map kr_hash (idb_keys db)"
    using k(2) by (auto simp: row_kept_def)
  have s: "\<forall>r \<in> set (map f (idb_keys db)). vk_ID (kr_key r) < idb_key_seq db"
    using w k(2) by (auto simp: keys_wf_def row_kept_def)
  have i: "(\<lambda>r. vk_ID (kr_key r)) ` set (map f (idb_keys db)) = (\<lambda>r. vk_ID (kr_key r)) ` set (idb_keys db)"
    "kr_hash ` set (map f (idb_keys db)) = kr_hash ` set (idb_keys db)"
    using m by (metis set_map)+
  from n show "keys_wf db'"
  proof (elim disjE exE conjE)
    assume "new = []" "idb_key_seq db' = idb_key_seq db"
    with w k(1) m s t show ?thesis unfolding keys_wf_def by (simp del: map_map)
  next
    fix r
    assume r: "new = [r]" "fresh_row T db r" "idb_key_seq db' = idb_key_seq db + 1"
    from w r(2) have "idb_key_seq db \<notin> (\<lambda>r. vk_ID (kr_key r)) ` set (idb_keys db)" by (auto simp: keys_wf_def)
    with w k(1) m s t r i show ?thesis unfolding keys_wf_def fresh_row_def by (auto simp del: map_map)
  qed
qed

lemma key_id_unique:
  "keys_wf db \<Longrightarrow> x \<in> set (idb_keys db) \<Longrightarrow> y \<in> set (idb_keys db) \<Longrightarrow> vk_ID (kr_key x) = vk_ID (kr_key y) \<Longrightarrow> x = y"
  by (auto simp: keys_wf_def distinct_map inj_on_def)

subsection \<open>The statements on keys\<close>

lemma change_key_change:
  assumes wf: "keys_wf db" and r0: "key_by_id db i = Some r0" and team: "vk_TeamID (kr_key r0) \<in> T"
    and f: "\<And>r. kr_hash (f r) = kr_hash r \<and> vk_ID (kr_key (f r)) = vk_ID (kr_key r) \<and> vk_TeamID (kr_key (f r)) = vk_TeamID (kr_key r)"
  shows "key_change T db (snd (change_key i f db))"
proof (cases "list_ex (live_key i) (idb_keys db)")
  case True
  let ?g = "\<lambda>r. if live_key i r then f r else r"
  have "row_kept T r (?g r)" if "r \<in> set (idb_keys db)" for r
  proof (cases "live_key i r")
    case live: True
    then have "key_by_id db i = Some r"
      using wf that find_unique [of "\<lambda>r. vk_ID (kr_key r)" "idb_keys db" r i]
      by (simp add: keys_wf_def key_by_id_def live_key_def)
    with r0 team f live show ?thesis by (simp add: row_kept_def live_key_def)
  qed (simp add: row_kept_def)
  with True show ?thesis
    unfolding key_change_def
    by (intro conjI exI [of _ ?g] exI [of _ "[]"]) (auto simp: change_key_def update_some_def update_where_def)
qed (simp add: change_key_def update_some_def same_keys_change same_keys_def)

lemma insert_key_change:
  assumes "vk_TeamID k \<in> T"
  shows "key_change T db (snd (insert_key now h md rot k db))"
proof (cases "key_constraints db h k")
  case True
  then have "h \<notin> kr_hash ` set (idb_keys db)" by (auto simp: key_constraints_def list_ex_iff)
  with True assms show ?thesis
    unfolding key_change_def
    by (intro conjI exI [of _ id])
       (auto simp: insert_key_def Let_def row_kept_def fresh_row_def)
qed (simp add: insert_key_def same_keys_change same_keys_def)

lemma retire_key_id [simp]:
  "kr_hash (retire_key now g r) = kr_hash r" "vk_ID (kr_key (retire_key now g r)) = vk_ID (kr_key r)"
  "vk_TeamID (kr_key (retire_key now g r)) = vk_TeamID (kr_key r)"
  by (simp_all add: retire_key_def)

lemma rotate_cases:
  assumes "RotateVirtualKey now i tid h prefix grace db = (res, db')"
  obtains (refused) e where "res = Inl e" "db' = db"
  | (rotated) r vk db1 where "res = Inr vk" "r \<in> set (idb_keys db)" "vk_ID (kr_key r) = i" "vk_TeamID (kr_key r) = tid"
      "vk_RevokedAt (kr_key r) = None" "vk_DisabledAt (kr_key r) = None"
      "\<not> (case vk_ExpiresAt (kr_key r) of None \<Rightarrow> False | Some e \<Rightarrow> e < now)"
      "insert_key now h (kr_metadata r) (Some i) ((kr_key r)\<lparr>vk_TeamID := tid, vk_KeyPrefix := prefix, vk_OwnerMaxParallelRequests := None\<rparr>) db = (Inr vk, db1)"
      "db' = db1\<lparr>idb_keys := update_where (live_key i) (retire_key now grace) (idb_keys db1)\<rparr>"
proof (cases "find (\<lambda>r. vk_ID (kr_key r) = i \<and> vk_TeamID (kr_key r) = tid) (idb_keys db)")
  case None
  with assms that(1) show ?thesis by (auto simp: RotateVirtualKey_def)
next
  case (Some r)
  note in_db = find_Some_in [OF Some]
  obtain x db1 where i: "insert_key now h (kr_metadata r) (Some i) ((kr_key r)\<lparr>vk_TeamID := tid, vk_KeyPrefix := prefix, vk_OwnerMaxParallelRequests := None\<rparr>) db = (x, db1)"
    by fastforce
  show ?thesis
  proof (cases "vk_RevokedAt (kr_key r) \<noteq> None \<or> vk_DisabledAt (kr_key r) \<noteq> None \<or>
      (case vk_ExpiresAt (kr_key r) of None \<Rightarrow> False | Some e \<Rightarrow> e < now)")
    case True
    with assms Some that(1) show ?thesis by (auto simp: RotateVirtualKey_def Let_def split: if_splits)
  next
    case False
    show ?thesis
    proof (cases x)
      case (Inl e)
      with False assms Some i that(1) show ?thesis by (auto simp: RotateVirtualKey_def Let_def)
    next
      case (Inr vk)
      with False assms Some i have "res = Inr vk" "db' = db1\<lparr>idb_keys := update_where (live_key i) (retire_key now grace) (idb_keys db1)\<rparr>"
        by (simp_all add: RotateVirtualKey_def Let_def)
      with False in_db i Inr that(2) show ?thesis by blast
    qed
  qed
qed

lemma insert_key_Inr:
  assumes "insert_key now h md rot k db = (Inr vk, db1)"
  shows "db1 = db\<lparr>idb_keys := idb_keys db @ [\<lparr>kr_key = k\<lparr>vk_ID := idb_key_seq db\<rparr>, kr_hash = h, kr_metadata = md, kr_rotated_from = rot, kr_created_at = now\<rparr>],
      idb_key_seq := idb_key_seq db + 1\<rparr>"
    and "vk = key_loaded (k\<lparr>vk_ID := idb_key_seq db\<rparr>)" and "key_constraints db h k"
  using assms by (auto simp: insert_key_def Let_def split: if_splits)

lemma rotate_change:
  assumes wf: "keys_wf db" and team: "tid \<in> T"
  shows "key_change T db (snd (RotateVirtualKey now i tid h prefix grace db))"
proof -
  obtain res db' where eq: "RotateVirtualKey now i tid h prefix grace db = (res, db')" by fastforce
  then show ?thesis
  proof (cases rule: rotate_cases)
    case refused
    then show ?thesis by (simp add: eq same_keys_change same_keys_def)
  next
    case (rotated r vk db1)
    let ?g = "\<lambda>x. if live_key i x then retire_key now grace x else x"
    note ins = insert_key_Inr [OF rotated(8)]
    have lt: "i < idb_key_seq db" using wf rotated(2,3) by (auto simp: keys_wf_def)
    have "row_kept T x (?g x)" if "x \<in> set (idb_keys db)" for x
    proof (cases "live_key i x")
      case True
      with wf that rotated(2,3) have "x = r" by (intro key_id_unique [OF wf]) (simp_all add: live_key_def)
      with True rotated(4) team show ?thesis by (auto simp: row_kept_def live_key_def)
    qed (simp add: row_kept_def)
    moreover have "h \<notin> kr_hash ` set (idb_keys db)" using ins(3) by (auto simp: key_constraints_def list_ex_iff)
    ultimately show ?thesis
      unfolding key_change_def eq snd_conv rotated(9) ins(1)
      using lt team by (intro conjI exI [of _ ?g]) (auto simp: update_where_def live_key_def fresh_row_def)
  qed
qed

lemma create_key_change: "kp_TeamID p \<in> T \<Longrightarrow> key_change T db (snd (CreateVirtualKey now p db))"
  by (auto simp: CreateVirtualKey_def same_keys_change same_keys_def intro!: insert_key_change split: sum.splits)

lemma update_key_change:
  assumes "keys_wf db" and "key_by_id db i = Some r0" and "vk_TeamID (kr_key r0) \<in> T"
  shows "key_change T db (snd (UpdateVirtualKey i q db))" "key_change T db (snd (SetKeyPaused now i b db))"
    "key_change T db (snd (RevokeKey now i db))"
  unfolding UpdateVirtualKey_def SetKeyPaused_def RevokeKey_def
  by (auto intro!: change_key_change [OF assms] simp: same_keys_change same_keys_def split: sum.splits)

section \<open>Requests and keys\<close>

definition principal_of :: "('a, 'n, 'j) account_env \<Rightarrow> call \<Rightarrow> identity_db \<Rightarrow> principal option" where
  "principal_of e c db = (case fst (session_of e c db) of SessionOf p h \<Rightarrow> Some p | SessionRejected status msg \<Rightarrow> None)"

definition reachable_teams :: "identity_db \<Rightarrow> principal option \<Rightarrow> int set" where
  "reachable_teams db p = {i. \<exists>t. team_by_id db i = Some t \<and> CanAccessTeam p (t_Slug t)}"

lemma same_keys_simps [simp]:
  "same_keys db db"
  "same_keys db (UpdateLastLogin now i db1) = same_keys db db1"
  "same_keys db (SetUserDisabled now i b db1) = same_keys db db1"
  "same_keys db (MarkRoleManuallyEdited i db1) = same_keys db db1"
  "same_keys db (DeleteSession h db1) = same_keys db db1"
  "same_keys db (DeleteSessionsForUser i db1) = same_keys db db1"
  "same_keys db (set_role i x db1) = same_keys db db1"
  "same_keys db (set_team i j db1) = same_keys db db1"
  by (simp_all add: same_keys_def UpdateLastLogin_def SetUserDisabled_def MarkRoleManuallyEdited_def DeleteSession_def
        DeleteSessionsForUser_def set_role_def set_team_def)

lemma store_same_keys:
  "CreateSessionWithMeta h u x ip ag db = (r1, db1) \<Longrightarrow> same_keys db db1"
  "UpdatePasswordHash u h db = (r2, db1) \<Longrightarrow> same_keys db db1"
  "DeleteUserSessionByPrefix u pre db = (r2, db1) \<Longrightarrow> same_keys db db1"
  "DeleteOtherSessionsForUser u h db = (n, db1) \<Longrightarrow> same_keys db db1"
  "CreateInvite h pre em ro ti x db = (r3, db1) \<Longrightarrow> same_keys db db1"
  "MarkInviteAccepted now h u db = (r2, db1) \<Longrightarrow> same_keys db db1"
  "CreatePasswordReset u h x by db = (r2, db1) \<Longrightarrow> same_keys db db1"
  "MarkPasswordResetUsed now u db = (r2, db1) \<Longrightarrow> same_keys db db1"
  "CreateUser em na ph ti ro db = (r4, db1) \<Longrightarrow> same_keys db db1"
  "ArchiveServiceAccount now u db = (r2, db1) \<Longrightarrow> same_keys db db1"
  by (auto simp: same_keys_def CreateSessionWithMeta_def UpdatePasswordHash_def DeleteUserSessionByPrefix_def
      DeleteOtherSessionsForUser_def CreateInvite_def MarkInviteAccepted_def CreatePasswordReset_def
      MarkPasswordResetUsed_def CreateUser_def ArchiveServiceAccount_def Let_def split: all_splits)

lemma same_keys_trans: "same_keys db db1 \<Longrightarrow> same_keys db1 db2 \<Longrightarrow> same_keys db db2"
  by (simp add: same_keys_def)

lemma session_same_keys: "session_of e c db = (s, db1) \<Longrightarrow> same_keys db db1"
  using session_keeps [of e c db s db1] by (simp add: same_keys_def)

lemma start_session_same_keys: "start_session e c u db = (a, db1) \<Longrightarrow> same_keys db db1"
  by (auto simp: start_session_def handler_defs dest: store_same_keys split: all_splits)

lemma accept_create_same_keys: "accept_create e c chk db = (r, db1) \<Longrightarrow> same_keys db db1"
  by (auto simp: accept_create_def handler_defs dest: store_same_keys split: all_splits)

lemma accept_finish_same_keys: "accept_finish e c token u db = (a, db1) \<Longrightarrow> same_keys db db1"
  by (auto simp: accept_finish_def handler_defs dest!: store_same_keys start_session_same_keys
      intro: same_keys_trans split: all_splits)

lemma invite_row_same_keys: "create_invite_row e c req role ti db = (a, db1) \<Longrightarrow> same_keys db db1"
  by (auto simp: create_invite_row_def handler_defs dest: store_same_keys split: all_splits)

lemma handlers_same_keys:
  "Login e c b1 db = (a, db1) \<Longrightarrow> same_keys db db1"
  "Logout e c db = (a, db1) \<Longrightarrow> same_keys db db1"
  "AcceptInvite e c token b2 db = (a, db1) \<Longrightarrow> same_keys db db1"
  "ChangePassword e c b1 p db = (a, db1) \<Longrightarrow> same_keys db db1"
  "RevokeSession c token p db = (a, db1) \<Longrightarrow> same_keys db db1"
  "RevokeOtherSessions c p h db = (a, db1) \<Longrightarrow> same_keys db db1"
  "CreateInvite_handler e c b3 q db = (a, db1) \<Longrightarrow> same_keys db db1"
  "IssuePasswordReset e c i p db = (a, db1) \<Longrightarrow> same_keys db db1"
  "SetUserDisabled_handler c i b4 db = (a, db1) \<Longrightarrow> same_keys db db1"
  "ArchiveServiceAccount_handler c i db = (a, db1) \<Longrightarrow> same_keys db db1"
  by (auto simp: Login_def Logout_def AcceptInvite_def ChangePassword_def RevokeSession_def RevokeOtherSessions_def
      CreateInvite_handler_def IssuePasswordReset_def SetUserDisabled_handler_def ArchiveServiceAccount_handler_def
      requireUser_def handler_defs Let_def
      dest!: store_same_keys start_session_same_keys accept_create_same_keys accept_finish_same_keys invite_row_same_keys
      intro: same_keys_trans split: all_splits principal.splits)

lemma consume_same_keys: "Consume e c token body db = (a, db1) \<Longrightarrow> same_keys db db1"
  by (auto simp: Consume_def handler_defs dest!: store_same_keys intro: same_keys_trans split: all_splits)

lemma set_role_same_keys: "SetUserRole c i body db = (a, db1) \<Longrightarrow> same_keys db db1"
  by (auto simp: SetUserRole_def mark_edited_def Let_def split: all_splits)

lemma tell_change:
  "key_change T db (snd (f db)) \<Longrightarrow> key_change T db (snd (tell c name f db))"
  by (simp add: tell_def same_keys_change)

lemma team_by_slug:
  assumes "keys_wf db" and "GetTeamBySlug slug db = Inr t"
  shows "t_Slug t = slug" "\<exists>t0. team_by_id db (t_ID t) = Some t0 \<and> t_Slug t0 = slug"
proof -
  from assms(2) obtain t0 where t0: "find (\<lambda>t. t_Slug t = slug) (idb_teams db) = Some t0" and t: "t = team_loaded t0"
    by (auto simp: GetTeamBySlug_def split: option.splits)
  note i = find_Some_in [OF t0]
  then show "t_Slug t = slug" by (simp add: t team_loaded_def)
  have "team_by_id db (t_ID t0) = Some t0"
    using assms(1) i find_unique [of t_ID "idb_teams db" t0 "t_ID t0"] by (simp add: team_by_id_def keys_wf_def)
  with i show "\<exists>t0. team_by_id db (t_ID t) = Some t0 \<and> t_Slug t0 = slug" by (simp add: t team_loaded_def)
qed

lemma reply_change:
  assumes "key_change T db (snd x)"
  shows "key_change T db (snd (case x of (Inl err, db1) \<Rightarrow> (F err, db1) | (Inr y, db1) \<Rightarrow> (G y, db1)))"
  using assms by (cases x; cases "fst x") auto

lemma key_change_refl [simp]: "key_change T db db"
  by (simp add: same_keys_change)

lemmas change_intros = reply_change tell_change create_key_change

lemma issue_key_change:
  assumes "t_ID team \<in> T"
  shows "key_change T db (snd (issue_key e c q m team u sa db))"
  using assms
  by (cases "ca_secret c")
     (auto simp: issue_key_def GenerateKey_def Let_def key_params_of_def intro!: change_intros)

lemma CreateKey_change:
  assumes wf: "keys_wf db" and acc: "CanAccessTeam p slug"
  shows "key_change (reachable_teams db p) db (snd (CreateKey e c slug body db))"
proof (cases "ask c ''GetTeamBySlug'' (GetTeamBySlug slug db)")
  case (Inl err)
  then show ?thesis by (simp add: CreateKey_def same_keys_change)
next
  case (Inr t)
  then have "GetTeamBySlug slug db = Inr t" by (auto simp: ask_def split: if_splits)
  from team_by_slug [OF wf this] acc have "t_ID t \<in> reachable_teams db p" by (auto simp: reachable_teams_def)
  then have "key_change (reachable_teams db p) db (snd (issue_key e c q m t u sa db))" for q m u sa
    by (rule issue_key_change)
  then show ?thesis
    unfolding CreateKey_def Inr by (auto simp: same_keys_change split: all_splits)
qed

lemma team_id_loaded [simp]: "t_ID (team_loaded t) = t_ID t" "t_Slug (team_loaded t) = t_Slug t"
  by (simp_all add: team_loaded_def)

lemma team_by_id_ID: "team_by_id db i = Some t \<Longrightarrow> t_ID t = i"
  using find_Some_in by (fastforce simp: team_by_id_def)

lemma CreateServiceAccountKey_change:
  assumes adm: "IsAdmin p"
  shows "key_change (reachable_teams db p) db (snd (CreateServiceAccountKey e c i body db))"
proof -
  have "t_ID t \<in> reachable_teams db p" if "GetTeamByID j db = Inr t" for j t
    using that adm team_by_id_ID [of db j] by (auto simp: GetTeamByID_def reachable_teams_def CanAccessTeam_def split: option.splits)
  then have i: "key_change (reachable_teams db p) db (snd (issue_key e c q m t u sa db))" if "GetTeamByID j db = Inr t" for q m t u sa j
    using that by (blast intro: issue_key_change)
  show ?thesis
    unfolding CreateServiceAccountKey_def ask_def
    by (auto simp: same_keys_change split: all_splits) (metis i snd_conv)+
qed

lemma with_key_change:
  assumes "\<And>r t current team. key_by_id db i = Some r \<Longrightarrow> team_by_id db (vk_TeamID (kr_key r)) = Some t \<Longrightarrow>
      t_ID team = vk_TeamID (kr_key r) \<Longrightarrow> CanAccessTeam p (t_Slug t) \<Longrightarrow> key_change (reachable_teams db p) db (snd (act current team))"
  shows "key_change (reachable_teams db p) db (snd (with_key c i p act db))"
proof (cases "ask c ''GetVirtualKeyByID'' (GetVirtualKeyByID i db)")
  case (Inl err)
  then show ?thesis by (simp add: with_key_def same_keys_change)
next
  case (Inr ct)
  then obtain r t where r: "key_by_id db i = Some r" "team_by_id db (vk_TeamID (kr_key r)) = Some t"
    and ct: "snd ct = (team_loaded t)\<lparr>t_CapturePayloads := False\<rparr>"
    by (auto simp: ask_def GetVirtualKeyByID_def split: all_splits)
  obtain current team where ct': "ct = (current, team)" by fastforce
  with ct have team: "t_Slug team = t_Slug t" "t_ID team = vk_TeamID (kr_key r)"
    using team_by_id_ID [OF r(2)] by simp_all
  show ?thesis
  proof (cases "CanAccessTeam p (t_Slug t)")
    case True
    then show ?thesis using assms [OF r team(2) True, of current] team by (simp add: with_key_def Inr ct')
  qed (simp add: with_key_def Inr ct' team same_keys_change)
qed

lemma reachable_key:
  "team_by_id db (vk_TeamID (kr_key r)) = Some t \<Longrightarrow> CanAccessTeam p (t_Slug t) \<Longrightarrow> vk_TeamID (kr_key r) \<in> reachable_teams db p"
  by (auto simp: reachable_teams_def)

lemma key_handlers_change:
  assumes wf: "keys_wf db"
  shows "key_change (reachable_teams db p) db (snd (UpdateKey c i body p db))"
    "key_change (reachable_teams db p) db (snd (RotateKey e c i grace p db))"
    "key_change (reachable_teams db p) db (snd (setKeyPaused c i paused p db))"
    "key_change (reachable_teams db p) db (snd (RevokeKey_handler c i p db))"
proof -
  note intros = change_intros update_key_change [OF wf] rotate_change [OF wf]
  show "key_change (reachable_teams db p) db (snd (UpdateKey c i body p db))"
    unfolding UpdateKey_def
    by (rule with_key_change) (auto intro!: intros intro: reachable_key split: option.split sum.split)
  show "key_change (reachable_teams db p) db (snd (RotateKey e c i grace p db))"
    unfolding RotateKey_def GenerateKey_def Let_def
    by (rule with_key_change) (auto intro!: intros simp: reachable_key simp del: Second_def split: option.split)
  show "key_change (reachable_teams db p) db (snd (setKeyPaused c i paused p db))"
    unfolding setKeyPaused_def
    by (rule with_key_change) (auto intro!: intros intro: reachable_key)
  show "key_change (reachable_teams db p) db (snd (RevokeKey_handler c i p db))"
    unfolding RevokeKey_handler_def
    by (rule with_key_change) (auto intro!: intros intro: reachable_key)
qed

lemmas handlers_snd = handlers_same_keys [OF prod.collapse [symmetric]] consume_same_keys [OF prod.collapse [symmetric]]
  set_role_same_keys [OF prod.collapse [symmetric]]

lemma public_same_keys:
  assumes "serve_public e c op = Some handler"
  shows "same_keys db (snd (handler db))"
  using assms
  by (cases op) (auto intro: handlers_snd)

lemma serve_session_change:
  assumes wf: "keys_wf db" and g: "route_guard op (Some p) = None"
  shows "key_change (reachable_teams db (Some p)) db (snd (serve_session e c op p h db))"
proof -
  have acc: "CanAccessTeam (Some p) slug" if "RequireTeamAccess slug (Some p) = None" for slug
    using that by (auto simp: RequireTeamAccess_def split: if_splits)
  have adm: "IsAdmin (Some p)" if "RequireAdmin (Some p) = None"
    using that by (auto simp: RequireAdmin_def split: if_splits)
  show ?thesis
    using g wf
    by (cases op)
       (auto intro!: key_handlers_change CreateKey_change CreateServiceAccountKey_change acc adm
         handlers_snd [THEN same_keys_change])
qed

lemma serve_change:
  assumes "keys_wf db"
  shows "key_change (reachable_teams db (principal_of e c db)) db (snd (serve e c op db))"
proof (cases "serve_public e c op")
  case (Some handler)
  with public_same_keys [OF Some, of db] show ?thesis by (simp add: serve_def same_keys_change)
next
  case None
  obtain s db1 where s: "session_of e c db = (s, db1)" by fastforce
  note k = session_same_keys [OF s]
  then have wf: "keys_wf db1" and r: "reachable_teams db1 = reachable_teams db"
    using assms by (auto simp: same_keys_def keys_wf_def reachable_teams_def team_by_id_def fun_eq_iff)
  show ?thesis
  proof (cases s)
    case (SessionRejected status msg)
    with None s k show ?thesis by (simp add: serve_def same_keys_change)
  next
    case (SessionOf p h)
    show ?thesis
    proof (cases "route_guard op (Some p)")
      case g: None
      from key_change_after [OF k serve_session_change [OF wf g, of e c h]]
      show ?thesis using None s SessionOf g r by (simp add: serve_def principal_of_def)
    qed (use None s k SessionOf in \<open>auto simp: serve_def same_keys_change\<close>)
  qed
qed

lemma serve_wf: "keys_wf db \<Longrightarrow> keys_wf (snd (serve e c op db))"
  using serve_change key_change_wf by blast

lemma serve_all_Cons: "serve_all e ((c, op) # reqs) db = serve_all e reqs (snd (serve e c op db))"
  by (simp add: serve_all_def)

lemma serve_all_Nil [simp]: "serve_all e [] db = db"
  by (simp add: serve_all_def)

text \<open>An invariant of the single request holds after all of them.\<close>

lemma serve_all_invariant:
  assumes "I db" and "\<And>c op db. (c, op) \<in> set reqs \<Longrightarrow> I db \<Longrightarrow> I (snd (serve e c op db))"
  shows "I (serve_all e reqs db)"
  using assms
proof (induction reqs arbitrary: db)
  case (Cons q reqs)
  obtain c op where q: "q = (c, op)" by fastforce
  show ?case unfolding q serve_all_Cons by (rule Cons.IH) (use Cons.prems q in auto)
qed simp

section \<open>Revocation\<close>

lemma revoked_row_stays:
  assumes "keys_wf db" and "r \<in> set (idb_keys db)" and "vk_RevokedAt (kr_key r) \<noteq> None"
  shows "keys_wf (serve_all e reqs db) \<and> r \<in> set (idb_keys (serve_all e reqs db))"
proof (rule serve_all_invariant)
  fix c op db
  assume i: "keys_wf db \<and> r \<in> set (idb_keys db)"
  then obtain f new where k: "idb_keys (snd (serve e c op db)) = map f (idb_keys db) @ new"
    "\<forall>r \<in> set (idb_keys db). row_kept (reachable_teams db (principal_of e c db)) r (f r)"
    using serve_change [of db e c op] by (auto simp: key_change_def)
  with i assms(3) have "f r = r" by (auto simp: row_kept_def)
  with i k have "r \<in> set (idb_keys (snd (serve e c op db)))" by force
  with i serve_wf show "keys_wf (snd (serve e c op db)) \<and> r \<in> set (idb_keys (snd (serve e c op db)))" by blast
qed (use assms in simp)

lemma lookup_revoked:
  assumes "keys_wf db" and "r \<in> set (idb_keys db)" and "vk_RevokedAt (kr_key r) \<noteq> None" and "ae_HashKey e raw = kr_hash r"
  shows "\<exists>msg. bearer_key e lf now q raw db = Rejected 401 msg"
proof -
  have "find (\<lambda>x. kr_hash x = kr_hash r) (idb_keys db) = Some r"
    using assms(1,2) by (auto simp: keys_wf_def intro: find_unique)
  with assms(3,4) show ?thesis
    by (auto simp: bearer_key_def LookupKey_def check_key_def key_loaded_def Let_def split: option.splits)
qed

text \<open>C15: Once \<open>RevokeKey\<close> has succeeded on a key, no sequence of requests by anyone makes the gateway accept that key
  again, at any time.\<close>

theorem revoked_key_stays_revoked:
  assumes "keys_wf db0" and "key_by_id db0 i = Some r0" and "RevokeKey now i db0 = (Inr (), db)"
    and "ExtractBearer q = raw" and "ae_HashKey (ac_auth e) raw = kr_hash r0" and "\<not> looksLikeJWT raw"
  shows "\<exists>msg. Bearer (ac_auth e) lf t q (serve_all e reqs db) = Rejected 401 msg"
proof -
  let ?r = "r0\<lparr>kr_key := (kr_key r0)\<lparr>vk_RevokedAt := Some now\<rparr>\<rparr>"
  have r0: "r0 \<in> set (idb_keys db0)" "vk_ID (kr_key r0) = i"
    using find_Some_in [of _ "idb_keys db0" r0] assms(2) by (auto simp: key_by_id_def)
  have wf: "keys_wf db"
    using key_change_wf [OF update_key_change(3) [OF assms(1,2), of UNIV now] assms(1)] assms(3) by simp
  from assms(3) obtain x where x: "x \<in> set (idb_keys db0)" "live_key i x"
    by (auto simp: RevokeKey_def change_key_def update_some_def list_ex_iff split: if_splits)
  with r0 assms(1) have "live_key i r0" using key_id_unique [of db0 x r0] by (simp add: live_key_def)
  with r0(1) assms(3) have "?r \<in> set (idb_keys db)"
    by (force simp: RevokeKey_def change_key_def update_some_def update_where_def split: if_splits)
  from revoked_row_stays [OF wf this, of e reqs]
  have "keys_wf (serve_all e reqs db) \<and> ?r \<in> set (idb_keys (serve_all e reqs db))" by simp
  then have "\<exists>msg. bearer_key (ac_auth e) lf t q raw (serve_all e reqs db) = Rejected 401 msg"
    using lookup_revoked [of "serve_all e reqs db" ?r "ac_auth e" raw] assms(5) by simp
  with assms(4,6) show ?thesis by (auto simp: Bearer_def Let_def split: option.splits)
qed

section \<open>Tenant isolation\<close>

definition out_of_reach :: "identity_db \<Rightarrow> principal option \<Rightarrow> key_row \<Rightarrow> bool" where
  "out_of_reach db p r \<longleftrightarrow>
     (case team_by_id db (vk_TeamID (kr_key r)) of None \<Rightarrow> True | Some t \<Rightarrow> \<not> CanAccessTeam p (t_Slug t))"

lemma out_of_reach_iff: "out_of_reach db p r \<longleftrightarrow> vk_TeamID (kr_key r) \<notin> reachable_teams db p"
  by (auto simp: out_of_reach_def reachable_teams_def split: option.splits)


section \<open>Rotation\<close>

lemma check_key_Accepted:
  "check_key lib now ip vk t ow = Accepted t' vk' ow' \<longleftrightarrow>
     vk_RevokedAt vk = None \<and> vk_DisabledAt vk = None \<and> (case vk_ExpiresAt vk of None \<Rightarrow> True | Some x \<Rightarrow> now \<le> x) \<and>
     t_ArchivedAt t = None \<and> (vk_AllowedCIDRs vk = [] \<or> ipAllowed lib ip (vk_AllowedCIDRs vk)) \<and> t' = t \<and> vk' = vk \<and> ow' = ow"
  by (auto simp: check_key_def not_less split: option.splits)

lemma find_hash_update_where:
  "(\<And>r. kr_hash (f r) = kr_hash r) \<Longrightarrow>
     find (\<lambda>x. kr_hash x = h) (update_where P f rs) = map_option (\<lambda>r. if P r then f r else r) (find (\<lambda>x. kr_hash x = h) rs)"
  unfolding update_where_def by (rule find_map_same) simp

text \<open>C19: A rotation gives the new key the policy of the old one (team, owner, models, addresses, limits, expiry), and the
  old key is accepted afterwards exactly when it was accepted before and the grace period has not ended.\<close>

theorem rotation_hands_over:
  assumes "keys_wf db" and "LookupKey h0 db = Inr (k, t, ow)"
    and "RotateVirtualKey now (vk_ID k) (vk_TeamID k) h prefix grace db = (Inr vk, db')"
  shows "LookupKey h db' = Inr (k\<lparr>vk_ID := idb_key_seq db, vk_KeyPrefix := prefix\<rparr>, t, ow)
    \<and> (\<exists>k'. LookupKey h0 db' = Inr (k', t, ow) \<and>
          (\<forall>lib at ip. (check_key lib at ip k' t ow = Accepted t k' ow) =
             (check_key lib at ip k t ow = Accepted t k ow \<and> grace > 0 \<and> at \<le> now + grace)))"
proof -
  from assms(2) obtain r0 where r0: "find (\<lambda>x. kr_hash x = h0) (idb_keys db) = Some r0"
    by (auto simp: LookupKey_def split: option.splits)
  note in0 = find_Some_in [OF r0]
  have ids: "vk_ID k = vk_ID (kr_key r0)" "vk_TeamID k = vk_TeamID (kr_key r0)"
    using assms(2) r0 by (auto simp: LookupKey_def Let_def key_loaded_def split: option.splits)
  from assms(3) show ?thesis
  proof (cases rule: rotate_cases)
    case (rotated r vk1 db1)
    have r: "r = r0" using key_id_unique [OF assms(1) rotated(2) conjunct1 [OF in0]] rotated(3) ids by simp
    note ins = insert_key_Inr [OF rotated(8)]
    have live: "live_key (vk_ID k) r0" using rotated(5) ids by (simp add: live_key_def r)
    have fresh: "\<forall>x \<in> set (idb_keys db). kr_hash x \<noteq> h" using ins(3) by (auto simp: key_constraints_def list_ex_iff)
    have none: "find (\<lambda>x. kr_hash x = h) (idb_keys db) = None" using fresh by (auto simp: find_None_iff)
    have id_lt: "vk_ID k < idb_key_seq db" using assms(1) in0 ids by (auto simp: keys_wf_def)
    have same: "team_by_id db' = team_by_id db" "user_by_id db' = user_by_id db" "account_by_id db' = account_by_id db"
      by (simp_all add: rotated(9) ins(1) team_by_id_def user_by_id_def account_by_id_def fun_eq_iff)
    have new: "find (\<lambda>x. kr_hash x = h) (idb_keys db') = Some \<lparr>kr_key = (kr_key r0)\<lparr>vk_TeamID := vk_TeamID k, vk_KeyPrefix := prefix, vk_OwnerMaxParallelRequests := None, vk_ID := idb_key_seq db\<rparr>,
        kr_hash = h, kr_metadata = kr_metadata r0, kr_rotated_from = Some (vk_ID k), kr_created_at = now\<rparr>"
      using none id_lt by (simp add: rotated(9) ins(1) find_hash_update_where find_append live_key_def r)
    have old: "find (\<lambda>x. kr_hash x = h0) (idb_keys db') = Some (retire_key now grace r0)"
      using r0 live by (simp add: rotated(9) ins(1) find_hash_update_where find_append)
    have 1: "LookupKey h db' = Inr (k\<lparr>vk_ID := idb_key_seq db, vk_KeyPrefix := prefix\<rparr>, t, ow)"
      using assms(2) r0 new ids by (auto simp: LookupKey_def same Let_def key_loaded_def split: option.splits)
    let ?k' = "if grace > 0 then k\<lparr>vk_ExpiresAt := Some (case vk_ExpiresAt k of None \<Rightarrow> now + grace | Some x \<Rightarrow> min x (now + grace))\<rparr>
      else k\<lparr>vk_RevokedAt := Some now\<rparr>"
    have 2: "LookupKey h0 db' = Inr (?k', t, ow)"
      using assms(2) r0 old by (auto simp: LookupKey_def same Let_def key_loaded_def retire_key_def split: option.splits)
    show ?thesis using 1 2 by (auto simp: check_key_Accepted split: option.splits)
  qed simp
qed

section \<open>Roles\<close>

definition user_kept :: "user_row \<Rightarrow> user_row \<Rightarrow> bool" where
  "user_kept r r' \<longleftrightarrow> usr_ID (ur_user r') = usr_ID (ur_user r) \<and> usr_Role (ur_user r') = usr_Role (ur_user r) \<and>
     usr_DisabledAt (ur_user r') = usr_DisabledAt (ur_user r)"

text \<open>The users keep their identity, role and state, and at most one is added, with a role in \<open>R\<close>.\<close>

definition user_change :: "string set \<Rightarrow> identity_db \<Rightarrow> identity_db \<Rightarrow> bool" where
  "user_change R db db' \<longleftrightarrow>
     (\<exists>f new. idb_users db' = map f (idb_users db) @ new \<and> (\<forall>r \<in> set (idb_users db). user_kept r (f r)) \<and>
        (new = [] \<and> idb_user_seq db' = idb_user_seq db \<or>
         (\<exists>r. new = [r] \<and> usr_ID (ur_user r) = idb_user_seq db \<and> usr_Role (ur_user r) \<in> R \<and>
              idb_user_seq db' = idb_user_seq db + 1)))"

definition same_users :: "identity_db \<Rightarrow> identity_db \<Rightarrow> bool" where
  "same_users db db' \<longleftrightarrow> user_change {} db db'"

definition pending_roles :: "identity_db \<Rightarrow> string set" where
  "pending_roles db = {normalizeInviteRole (iv_Role v) | v. v \<in> set (idb_invites db) \<and> iv_AcceptedAt v = None}"

lemma user_kept_refl [simp]: "user_kept r r"
  by (simp add: user_kept_def)

lemma same_users_eq: "idb_users db' = idb_users db \<Longrightarrow> idb_user_seq db' = idb_user_seq db \<Longrightarrow> same_users db db'"
  by (auto simp: same_users_def user_change_def intro!: exI [of _ id] exI [of _ "[]"])

lemma same_users_refl [simp]: "same_users db db"
  by (simp add: same_users_eq)

lemma same_users_update:
  "(\<And>r. user_kept r (f r)) \<Longrightarrow> same_users db (db\<lparr>idb_users := update_where P f (idb_users db)\<rparr>)"
  unfolding same_users_def user_change_def
  by (intro exI [of _ "\<lambda>r. if P r then f r else r"] exI [of _ "[]"]) (auto simp: update_where_def)

lemma same_users_change: "same_users db db' \<Longrightarrow> user_change R db db'"
  unfolding same_users_def user_change_def by blast

lemma same_users_map:
  assumes "same_users db db'"
  obtains f where "idb_users db' = map f (idb_users db)" "\<forall>r \<in> set (idb_users db). user_kept r (f r)" "idb_user_seq db' = idb_user_seq db"
  using assms unfolding same_users_def user_change_def by auto

lemma user_change_trans1:
  assumes "user_change R db db1" and "same_users db1 db2"
  shows "user_change R db db2"
proof -
  from assms(1) obtain f new where 1: "idb_users db1 = map f (idb_users db) @ new" "\<forall>r \<in> set (idb_users db). user_kept r (f r)"
    "new = [] \<and> idb_user_seq db1 = idb_user_seq db \<or> (\<exists>r. new = [r] \<and> usr_ID (ur_user r) = idb_user_seq db \<and> usr_Role (ur_user r) \<in> R \<and> idb_user_seq db1 = idb_user_seq db + 1)"
    unfolding user_change_def by blast
  obtain g where 2: "idb_users db2 = map g (idb_users db1)" "\<forall>r \<in> set (idb_users db1). user_kept r (g r)" "idb_user_seq db2 = idb_user_seq db1"
    using assms(2) by (rule same_users_map)
  show ?thesis
    unfolding user_change_def
  proof (intro exI conjI)
    show "idb_users db2 = map (g \<circ> f) (idb_users db) @ map g new" by (simp add: 1 2)
    show "\<forall>r \<in> set (idb_users db). user_kept r ((g \<circ> f) r)" using 1(1,2) 2(2) by (auto simp: user_kept_def)
    show "map g new = [] \<and> idb_user_seq db2 = idb_user_seq db \<or>
       (\<exists>r. map g new = [r] \<and> usr_ID (ur_user r) = idb_user_seq db \<and> usr_Role (ur_user r) \<in> R \<and> idb_user_seq db2 = idb_user_seq db + 1)"
      using 1(1,3) 2(2,3) by (auto simp: user_kept_def)
  qed
qed

lemma same_users_trans: "same_users db db1 \<Longrightarrow> same_users db1 db2 \<Longrightarrow> same_users db db2"
  using user_change_trans1 unfolding same_users_def by blast

lemma user_change_after:
  assumes "idb_users db1 = idb_users db" and "idb_user_seq db1 = idb_user_seq db" and "user_change R db1 db2"
  shows "user_change R db db2"
  using assms by (simp add: user_change_def)

subsection \<open>The statements on users and invites\<close>

lemma user_updates:
  "same_users db (UpdateLastLogin now i db)"
  "same_users db (MarkRoleManuallyEdited i db)"
  "same_users db (snd (UpdatePasswordHash u h db))"
  by (auto simp: UpdateLastLogin_def MarkRoleManuallyEdited_def UpdatePasswordHash_def update_some_def user_kept_def
      intro!: same_users_update split: all_splits)

lemma other_statements:
  "same_users db (DeleteSession h db)"
  "same_users db (DeleteSessionsForUser i db)"
  "same_users db (snd (CreateSessionWithMeta h u x ip ag db))"
  "same_users db (snd (DeleteUserSessionByPrefix u pre db))"
  "same_users db (snd (DeleteOtherSessionsForUser u h db))"
  "same_users db (snd (CreateInvite h pre em ro ti x db))"
  "same_users db (snd (MarkInviteAccepted now h u db))"
  "same_users db (snd (CreatePasswordReset u h x by db))"
  "same_users db (snd (MarkPasswordResetUsed now u db))"
  "same_users db (snd (ArchiveServiceAccount now u db))"
  "same_users db (snd (CreateVirtualKey now kp db))"
  "same_users db (snd (UpdateVirtualKey u kp db))"
  "same_users db (snd (SetKeyPaused now u b db))"
  "same_users db (snd (RevokeKey now u db))"
  "same_users db (snd (RotateVirtualKey now u v h pre g db))"
  by (auto simp: DeleteSession_def DeleteSessionsForUser_def
      CreateSessionWithMeta_def DeleteUserSessionByPrefix_def DeleteOtherSessionsForUser_def
      CreateInvite_def MarkInviteAccepted_def CreatePasswordReset_def MarkPasswordResetUsed_def ArchiveServiceAccount_def
      CreateVirtualKey_def UpdateVirtualKey_def SetKeyPaused_def RevokeKey_def RotateVirtualKey_def insert_key_def
      change_key_def update_some_def Let_def
      intro!: same_users_eq split: all_splits)

lemmas user_statements = user_updates other_statements

lemma create_user_change:
  assumes "role \<in> R" and "role \<noteq> []"
  shows "user_change R db (snd (CreateUser em na ph ti role db))"
proof -
  have *: "user_change R db (db\<lparr>idb_users := idb_users db @ [r], idb_user_seq := idb_user_seq db + 1\<rparr>)"
    if "usr_ID (ur_user r) = idb_user_seq db" "usr_Role (ur_user r) = role" for r
    unfolding user_change_def using that assms by (intro exI [of _ id] exI [of _ "[r]"]) auto
  show ?thesis
    using assms(2) same_users_change [OF same_users_refl, of R db]
    by (auto simp: CreateUser_def Let_def intro!: * split: option.splits)
qed

lemma pair_users: "same_users db (snd x) \<Longrightarrow> x = (r, db1) \<Longrightarrow> same_users db db1"
  by auto

lemmas users_dest = user_updates(3) [THEN pair_users] other_statements(3-) [THEN pair_users]

lemmas users_later = same_users_trans [OF _ user_updates(1)] same_users_trans [OF _ user_updates(2)]
  same_users_trans [OF _ other_statements(1)] same_users_trans [OF _ other_statements(2)]

lemma session_users: "session_of e c db = (s, db1) \<Longrightarrow> same_users db db1"
  using session_keeps [of e c db s db1] by (simp add: same_users_eq)

lemma start_session_users: "start_session e c u db = (a, db1) \<Longrightarrow> same_users db db1"
  by (auto simp: start_session_def handler_defs dest!: users_dest intro!: users_later split: all_splits)

lemma invite_row_users: "create_invite_row e c req role ti db = (a, db1) \<Longrightarrow> same_users db db1"
  by (auto simp: create_invite_row_def handler_defs dest!: users_dest split: all_splits)

lemma accept_finish_users: "accept_finish e c token u db = (a, db1) \<Longrightarrow> same_users db db1"
  by (auto simp: accept_finish_def handler_defs dest!: users_dest start_session_users
      intro: same_users_trans split: all_splits)

lemma issue_key_users: "issue_key e c q m t u sa db = (a, db1) \<Longrightarrow> same_users db db1"
  by (auto simp: issue_key_def handler_defs dest!: users_dest split: all_splits)

lemma handlers_users:
  "Login e c b1 db = (a, db1) \<Longrightarrow> same_users db db1"
  "Logout e c db = (a, db1) \<Longrightarrow> same_users db db1"
  "ChangePassword e c b1 p db = (a, db1) \<Longrightarrow> same_users db db1"
  "RevokeSession c token p db = (a, db1) \<Longrightarrow> same_users db db1"
  "RevokeOtherSessions c p h db = (a, db1) \<Longrightarrow> same_users db db1"
  "CreateInvite_handler e c b3 q db = (a, db1) \<Longrightarrow> same_users db db1"
  "IssuePasswordReset e c i p db = (a, db1) \<Longrightarrow> same_users db db1"
  "ArchiveServiceAccount_handler c i db = (a, db1) \<Longrightarrow> same_users db db1"
  by (auto simp: Login_def Logout_def ChangePassword_def RevokeSession_def RevokeOtherSessions_def
      CreateInvite_handler_def IssuePasswordReset_def ArchiveServiceAccount_handler_def
      requireUser_def handler_defs Let_def
      dest!: users_dest start_session_users invite_row_users
      intro!: users_later intro: same_users_trans split: all_splits principal.splits)

lemma key_handlers_users:
  "CreateKey e c slug body db = (a, db1) \<Longrightarrow> same_users db db1"
  "CreateServiceAccountKey e c i body db = (a, db1) \<Longrightarrow> same_users db db1"
  "UpdateKey c i body q db = (a, db1) \<Longrightarrow> same_users db db1"
  "setKeyPaused c i paused q db = (a, db1) \<Longrightarrow> same_users db db1"
  "RevokeKey_handler c i q db = (a, db1) \<Longrightarrow> same_users db db1"
  by (auto simp: CreateKey_def CreateServiceAccountKey_def UpdateKey_def setKeyPaused_def RevokeKey_handler_def
      with_key_def handler_defs dest!: users_dest issue_key_users split: all_splits)

lemma rotate_users: "RotateKey e c i grace q db = (a, db1) \<Longrightarrow> same_users db db1"
  by (auto simp: RotateKey_def with_key_def handler_defs simp del: Second_def dest!: users_dest split: all_splits)

lemma consume_users: "Consume e c token body db = (a, db1) \<Longrightarrow> same_users db db1"
  by (auto simp: Consume_def handler_defs dest!: users_dest intro!: users_later intro: same_users_trans split: all_splits)

subsection \<open>Invites\<close>

lemma invites_unchanged [simp]:
  "idb_invites (UpdateLastLogin now i db) = idb_invites db"
  "idb_invites (MarkRoleManuallyEdited i db) = idb_invites db"
  "idb_invites (SetUserDisabled now i b db) = idb_invites db"
  "idb_invites (DeleteSession h db) = idb_invites db"
  "idb_invites (DeleteSessionsForUser i db) = idb_invites db"
  "idb_invites (set_role i x db) = idb_invites db"
  "idb_invites (set_team i j db) = idb_invites db"
  by (simp_all add: UpdateLastLogin_def MarkRoleManuallyEdited_def SetUserDisabled_def DeleteSession_def
      DeleteSessionsForUser_def set_role_def set_team_def)

lemma invite_frame:
  "CreateSessionWithMeta h u x ip ag db = (r1, db1) \<Longrightarrow> idb_invites db1 = idb_invites db"
  "UpdatePasswordHash u h db = (r1, db1) \<Longrightarrow> idb_invites db1 = idb_invites db"
  "DeleteUserSessionByPrefix u pre db = (r1, db1) \<Longrightarrow> idb_invites db1 = idb_invites db"
  "DeleteOtherSessionsForUser u h db = (n, db1) \<Longrightarrow> idb_invites db1 = idb_invites db"
  "CreatePasswordReset u h x by db = (r1, db1) \<Longrightarrow> idb_invites db1 = idb_invites db"
  "MarkPasswordResetUsed now u db = (r1, db1) \<Longrightarrow> idb_invites db1 = idb_invites db"
  "ArchiveServiceAccount now u db = (r1, db1) \<Longrightarrow> idb_invites db1 = idb_invites db"
  "CreateVirtualKey now kp db = (r2, db1) \<Longrightarrow> idb_invites db1 = idb_invites db"
  "UpdateVirtualKey u kp db = (r1, db1) \<Longrightarrow> idb_invites db1 = idb_invites db"
  "SetKeyPaused now u b db = (r1, db1) \<Longrightarrow> idb_invites db1 = idb_invites db"
  "RevokeKey now u db = (r1, db1) \<Longrightarrow> idb_invites db1 = idb_invites db"
  "RotateVirtualKey now u v h pre g db = (r2, db1) \<Longrightarrow> idb_invites db1 = idb_invites db"
  "CreateUser em na ph ti ro db = (r4, db1) \<Longrightarrow> idb_invites db1 = idb_invites db"
  by (auto simp: CreateSessionWithMeta_def UpdatePasswordHash_def DeleteUserSessionByPrefix_def
      DeleteOtherSessionsForUser_def CreatePasswordReset_def MarkPasswordResetUsed_def ArchiveServiceAccount_def
      CreateVirtualKey_def UpdateVirtualKey_def SetKeyPaused_def RevokeKey_def RotateVirtualKey_def insert_key_def
      change_key_def CreateUser_def Let_def split: all_splits)

lemma mark_accepted_pending: "MarkInviteAccepted now h u db = (r, db1) \<Longrightarrow> pending_roles db1 \<subseteq> pending_roles db"
  by (auto simp: MarkInviteAccepted_def update_some_def update_where_def pending_roles_def split: all_splits)

lemma pending_eq: "idb_invites db1 = idb_invites db \<Longrightarrow> pending_roles db1 \<subseteq> pending_roles db"
  by (simp add: pending_roles_def)

lemma start_session_invites: "start_session e c u db = (a, db1) \<Longrightarrow> idb_invites db1 = idb_invites db"
  by (auto simp: start_session_def handler_defs dest!: invite_frame split: all_splits)

lemma issue_key_invites: "issue_key e c q m t u sa db = (a, db1) \<Longrightarrow> idb_invites db1 = idb_invites db"
  by (auto simp: issue_key_def handler_defs dest!: invite_frame split: all_splits)

lemma handlers_invites:
  "Login e c b1 db = (a, db1) \<Longrightarrow> idb_invites db1 = idb_invites db"
  "Logout e c db = (a, db1) \<Longrightarrow> idb_invites db1 = idb_invites db"
  "ChangePassword e c b1 p db = (a, db1) \<Longrightarrow> idb_invites db1 = idb_invites db"
  "RevokeSession c token p db = (a, db1) \<Longrightarrow> idb_invites db1 = idb_invites db"
  "RevokeOtherSessions c p h db = (a, db1) \<Longrightarrow> idb_invites db1 = idb_invites db"
  "IssuePasswordReset e c i p db = (a, db1) \<Longrightarrow> idb_invites db1 = idb_invites db"
  "ArchiveServiceAccount_handler c i db = (a, db1) \<Longrightarrow> idb_invites db1 = idb_invites db"
  "SetUserDisabled_handler c i b4 db = (a, db1) \<Longrightarrow> idb_invites db1 = idb_invites db"
  "CreateKey e c slug body db = (a, db1) \<Longrightarrow> idb_invites db1 = idb_invites db"
  "CreateServiceAccountKey e c i body db = (a, db1) \<Longrightarrow> idb_invites db1 = idb_invites db"
  "UpdateKey c i body q db = (a, db1) \<Longrightarrow> idb_invites db1 = idb_invites db"
  "setKeyPaused c i paused q db = (a, db1) \<Longrightarrow> idb_invites db1 = idb_invites db"
  "RevokeKey_handler c i q db = (a, db1) \<Longrightarrow> idb_invites db1 = idb_invites db"
  by (auto simp: Login_def Logout_def ChangePassword_def RevokeSession_def RevokeOtherSessions_def
      IssuePasswordReset_def ArchiveServiceAccount_handler_def SetUserDisabled_handler_def
      CreateKey_def CreateServiceAccountKey_def UpdateKey_def setKeyPaused_def RevokeKey_handler_def
      requireUser_def with_key_def handler_defs Let_def
      dest!: invite_frame start_session_invites issue_key_invites split: all_splits principal.splits)

lemma more_handlers_invites:
  "RotateKey e c i grace q db = (a, db1) \<Longrightarrow> idb_invites db1 = idb_invites db"
  "Consume e c token cbody db = (a, db1) \<Longrightarrow> idb_invites db1 = idb_invites db"
  "SetUserRole c i rbody db = (a, db1) \<Longrightarrow> idb_invites db1 = idb_invites db"
  by (auto simp: RotateKey_def Consume_def SetUserRole_def mark_edited_def with_key_def handler_defs Let_def
      simp del: Second_def dest!: invite_frame split: all_splits)

lemma accept_finish_pending: "accept_finish e c token u db = (a, db1) \<Longrightarrow> pending_roles db1 \<subseteq> pending_roles db"
  by (auto simp: accept_finish_def handler_defs dest!: mark_accepted_pending start_session_invites pending_eq split: all_splits)

lemma accept_cases:
  assumes "AcceptInvite e c token body db = (a, db1)"
  shows "user_change (pending_roles db) db db1 \<and> pending_roles db1 \<subseteq> pending_roles db"
proof (cases "accept_check e c token body db")
  case (Inl x)
  with assms show ?thesis by (simp add: AcceptInvite_def same_users_change)
next
  case (Inr chk)
  obtain v req pw where chk: "chk = (v, req, pw)" by (metis prod.exhaust)
  obtain r db2 where c: "accept_create e c chk db = (r, db2)" by fastforce
  have "GetInviteByTokenHash (ae_HashKey (ac_auth e) token) db = Inr v" "iv_AcceptedAt v = None"
    using Inr by (auto simp: accept_check_def chk ask_def split: all_splits)
  then have role: "normalizeInviteRole (iv_Role v) \<in> pending_roles db"
    using find_Some_in [of _ "idb_invites db" v] by (auto simp: GetInviteByTokenHash_def pending_roles_def split: option.splits)
  have u: "user_change (pending_roles db) db db2"
    using create_user_change [OF role, of db "ac_ToLower e (TrimSpace (aq_Email req))" "TrimSpace (aq_Name req)" pw "iv_TeamID v"] c
    by (auto simp: accept_create_def chk tell_def normalizeInviteRole_def same_users_change split: if_splits)
  have p: "pending_roles db2 \<subseteq> pending_roles db"
    using c by (auto simp: accept_create_def chk tell_def dest!: invite_frame pending_eq split: if_splits)
  show ?thesis
  proof (cases r)
    case (Inl x)
    with assms Inr c u p show ?thesis by (simp add: AcceptInvite_def)
  next
    case r: (Inr user)
    with assms Inr c have f: "accept_finish e c token user db2 = (a, db1)" by (simp add: AcceptInvite_def)
    show ?thesis
      using user_change_trans1 [OF u accept_finish_users [OF f]] accept_finish_pending [OF f] p by blast
  qed
qed

lemma CreateInvite_pending:
  "pending_roles (snd (CreateInvite h pre em ro ti x db)) \<subseteq> insert (normalizeInviteRole ro) (pending_roles db)"
  by (cases "list_ex (\<lambda>v. iv_hash v = h) (idb_invites db) \<or> (case ti of None \<Rightarrow> False | Some i \<Rightarrow> team_by_id db i = None)")
     (auto simp: CreateInvite_def Let_def pending_roles_def)

lemma invite_row_pending:
  "pending_roles (snd (create_invite_row e c req ro ti db)) \<subseteq> insert (normalizeInviteRole ro) (pending_roles db)"
proof (cases "ca_secret c")
  case (Some secret)
  let ?x = "tell c ''CreateInvite'' (CreateInvite (ae_HashKey (ac_auth e) secret) (take 8 secret) (ir_Email req) ro ti
      (ca_now c + invite_hours (ir_ExpiresInHours req) * 60 * Minute)) db"
  have "pending_roles (snd ?x) \<subseteq> insert (normalizeInviteRole ro) (pending_roles db)"
    using CreateInvite_pending by (simp add: tell_def subset_insertI)
  then show ?thesis using Some by (cases ?x; cases "fst ?x") (simp_all add: create_invite_row_def)
qed (simp add: create_invite_row_def subset_insertI)

lemma create_invite_pending:
  assumes "\<not> IsAdmin p"
  shows "pending_roles (snd (CreateInvite_handler e c body p db)) \<subseteq> insert RoleMember (pending_roles db)"
proof -
  have guard: "role = ''member''" if "invite_guard p role slug = Inr slug'" for role slug slug'
    using that assms by (auto simp: invite_guard_def split: if_splits)
  have row: "pending_roles (snd (create_invite_row e c req ''member'' ti db)) \<subseteq> insert RoleMember (pending_roles db)" for req ti
    using invite_row_pending [of e c req "''member''" ti db] by (simp add: normalizeInviteRole_def role_defs)
  show ?thesis
  proof (cases body)
    case (Some req)
    show ?thesis
    proof (cases "invite_role (ir_Role req)")
      case role: (Some role)
      show ?thesis
      proof (cases "invite_guard p role (ir_TeamSlug req)")
        case (Inr slug)
        with guard [OF Inr] Some role row show ?thesis
          by (cases "ask c ''GetTeamBySlug'' (GetTeamBySlug slug db)") (simp_all add: CreateInvite_handler_def subset_insertI)
      qed (simp add: CreateInvite_handler_def Some role subset_insertI)
    qed (simp add: CreateInvite_handler_def Some subset_insertI)
  qed (simp add: CreateInvite_handler_def subset_insertI)
qed

lemmas users_snd = handlers_users [OF prod.collapse [symmetric]] key_handlers_users [OF prod.collapse [symmetric]]
  rotate_users [OF prod.collapse [symmetric]] consume_users [OF prod.collapse [symmetric]]

lemmas invites_snd = handlers_invites [OF prod.collapse [symmetric]] more_handlers_invites [OF prod.collapse [symmetric]]

fun changes_user :: "account_op \<Rightarrow> bool" where
  "changes_user (Op_SetUserDisabled _ _) = True"
| "changes_user (Op_SetUserRole _ _) = True"
| "changes_user _ = False"

lemma public_users:
  assumes "serve_public e c op = Some handler"
  shows "user_change (pending_roles db) db (snd (handler db))" "pending_roles (snd (handler db)) \<subseteq> pending_roles db"
proof -
  note accept = accept_cases [OF prod.collapse [symmetric]]
  show "user_change (pending_roles db) db (snd (handler db))"
    using assms by (cases op) (auto intro: users_snd [THEN same_users_change] conjunct1 [OF accept])
  show "pending_roles (snd (handler db)) \<subseteq> pending_roles db"
    using assms by (cases op) (auto simp only: serve_public.simps option.inject option.distinct
        accept intro!: invites_snd [THEN pending_eq] conjunct2 [OF accept])
qed

lemma serve_session_users:
  "\<not> changes_user op \<Longrightarrow> same_users db (snd (serve_session e c op p h db))"
  by (cases op) (auto intro: users_snd)

lemma serve_session_pending:
  assumes "\<not> IsAdmin (Some p)"
  shows "pending_roles (snd (serve_session e c op p h db)) \<subseteq> insert RoleMember (pending_roles db)"
proof -
  have *: "pending_roles db' \<subseteq> insert RoleMember (pending_roles db)" if "idb_invites db' = idb_invites db" for db'
    using pending_eq [OF that] by blast
  show ?thesis
    using create_invite_pending [OF assms] by (cases op) (simp_all add: * invites_snd)
qed

lemma serve_no_admin:
  assumes "\<not> IsAdmin (principal_of e c db)"
  shows "user_change (pending_roles db) db (snd (serve e c op db))
    \<and> pending_roles (snd (serve e c op db)) \<subseteq> insert RoleMember (pending_roles db)"
proof (cases "serve_public e c op")
  case (Some handler)
  with public_users [OF Some, of db] show ?thesis by (auto simp: serve_def)
next
  case None
  obtain s db1 where s: "session_of e c db = (s, db1)" by fastforce
  note k = session_keeps [OF s]
  have same: "same_users db db1" "pending_roles db1 = pending_roles db" using k by (auto simp: same_users_eq pending_roles_def)
  show ?thesis
  proof (cases s)
    case (SessionRejected status msg)
    with None s same show ?thesis by (simp add: serve_def same_users_change subset_insertI)
  next
    case (SessionOf p h)
    then have p: "\<not> IsAdmin (Some p)" using assms s by (simp add: principal_of_def)
    show ?thesis
    proof (cases "route_guard op (Some p)")
      case g: None
      then have "\<not> changes_user op" using p by (cases op) (auto simp: RequireAdmin_def)
      then have "same_users db1 (snd (serve_session e c op p h db1))" by (rule serve_session_users)
      then have "user_change (pending_roles db) db (snd (serve_session e c op p h db1))"
        using same same_users_trans same_users_change by blast
      with serve_session_pending [OF p, of e c op h db1] None s SessionOf g same
      show ?thesis by (simp add: serve_def)
    qed (use None s same SessionOf in \<open>auto simp: serve_def same_users_change\<close>)
  qed
qed

definition elevated :: "identity_db \<Rightarrow> (int \<times> string) set" where
  "elevated db = {(usr_ID (ur_user r), usr_Role (ur_user r)) | r. r \<in> set (idb_users db) \<and> usr_Role (ur_user r) \<noteq> RoleMember}"

lemma user_change_elevated: "user_change R db db' \<Longrightarrow> R \<subseteq> {RoleMember} \<Longrightarrow> elevated db' \<subseteq> elevated db"
  by (fastforce simp: user_change_def elevated_def user_kept_def)

fun no_admin_acts :: "('a, 'n, 'j) account_env \<Rightarrow> (call \<times> account_op) list \<Rightarrow> identity_db \<Rightarrow> bool" where
  "no_admin_acts e [] db = True"
| "no_admin_acts e ((c, op) # reqs) db =
     (\<not> IsAdmin (principal_of e c db) \<and> no_admin_acts e reqs (snd (serve e c op db)))"


section \<open>Disabled users\<close>

definition locked :: "int \<Rightarrow> identity_db \<Rightarrow> bool" where
  "locked i db \<longleftrightarrow> i < idb_user_seq db \<and>
     (\<forall>r \<in> set (idb_users db). usr_ID (ur_user r) = i \<longrightarrow> usr_DisabledAt (ur_user r) \<noteq> None)"

lemma user_change_locked: "user_change R db db' \<Longrightarrow> locked i db \<Longrightarrow> locked i db'"
  by (fastforce simp: user_change_def locked_def user_kept_def)

lemma role_locked:
  "locked i db \<Longrightarrow> locked i (set_role j x db)" "locked i db \<Longrightarrow> locked i (set_team j k db)"
  "locked i db \<Longrightarrow> locked i (MarkRoleManuallyEdited j db)"
  by (auto simp: locked_def set_role_def set_team_def MarkRoleManuallyEdited_def dest!: set_update_where)

lemma SetUserRole_locked: "locked i db \<Longrightarrow> SetUserRole c j body db = (a, db1) \<Longrightarrow> locked i db1"
  by (auto simp: SetUserRole_def mark_edited_def Let_def intro!: role_locked split: all_splits)

lemma SetUserDisabled_locked:
  "locked i db \<Longrightarrow> disabled \<or> j \<noteq> i \<Longrightarrow> locked i (SetUserDisabled now j disabled db)"
  by (auto simp: locked_def SetUserDisabled_def dest!: set_update_where split: if_splits)

lemma SetUserDisabled_locks: "i < idb_user_seq db \<Longrightarrow> locked i (SetUserDisabled now i True db)"
  unfolding locked_def
proof (intro conjI ballI impI)
  fix r
  assume "r \<in> set (idb_users (SetUserDisabled now i True db))" and i: "usr_ID (ur_user r) = i"
  then have "r \<in> set (update_where (\<lambda>r. usr_ID (ur_user r) = i \<and> usr_DisabledAt (ur_user r) = None)
      (\<lambda>r. r\<lparr>ur_user := (ur_user r)\<lparr>usr_DisabledAt := Some now\<rparr>\<rparr>) (idb_users db))"
    by (simp add: SetUserDisabled_def)
  from set_update_where [OF this] i show "usr_DisabledAt (ur_user r) \<noteq> None"
    by (elim disjE bexE conjE) simp_all
qed (simp add: SetUserDisabled_def)

lemma disabled_handler_locked:
  assumes "locked i db" and "Op_SetUserDisabled j body \<noteq> Op_SetUserDisabled i (Some False)"
  shows "locked i (snd (SetUserDisabled_handler c j body db))"
  using assms SetUserDisabled_locked [OF assms(1), of _ j "ca_now c"]
  by (auto simp: SetUserDisabled_handler_def best_effort_def Let_def locked_def DeleteSessionsForUser_def split: option.splits)

lemma serve_locked:
  assumes "locked i db" and op: "op \<noteq> Op_SetUserDisabled i (Some False)"
  shows "locked i (snd (serve e c op db))"
proof (cases "serve_public e c op")
  case (Some handler)
  with user_change_locked [OF public_users(1) [OF Some] assms(1)] show ?thesis by (simp add: serve_def)
next
  case None
  obtain s db1 where s: "session_of e c db = (s, db1)" by fastforce
  have db1: "locked i db1" using user_change_locked [OF session_users [OF s, unfolded same_users_def] assms(1)] .
  have "locked i (snd (serve_session e c op p h db1))" for p h
  proof (cases "changes_user op")
    case True
    then show ?thesis
      using db1 op SetUserRole_locked [OF db1 prod.collapse [symmetric]] disabled_handler_locked [OF db1]
      by (cases op) auto
  next
    case False
    then show ?thesis using user_change_locked [OF serve_session_users [unfolded same_users_def] db1] by blast
  qed
  with None s db1 show ?thesis by (auto simp: serve_def split: session_result.splits option.splits)
qed

lemma locked_user:
  "locked i db \<Longrightarrow> user_by_id db i = Some r \<Longrightarrow> usr_DisabledAt (ur_user r) \<noteq> None"
  unfolding locked_def user_by_id_def using find_Some_in by fastforce

lemma user_by_id_ID: "user_by_id db i = Some r \<Longrightarrow> usr_ID (ur_user r) = i"
  using find_Some_in by (fastforce simp: user_by_id_def)

lemma locked_session:
  assumes "locked i db" and "session_of e c db = (SessionOf (UserPrincipal u) h, db1)"
  shows "usr_ID u \<noteq> i"
proof -
  from assms(2) obtain hash where l: "LookupSession (ca_now c) hash db = Inr u" and d: "usr_DisabledAt u = None"
    by (auto simp: session_of_def Session_def Let_def split: if_splits sum.splits store_error.splits)
  from l obtain j r where r: "user_by_id db j = Some r" and u: "u = with_slug db (ur_user r)"
    by (auto simp: LookupSession_def split: option.splits if_splits)
  from d have "usr_DisabledAt (ur_user r) = None" by (simp add: u with_slug_def)
  moreover have "usr_ID u = j" using user_by_id_ID [OF r] by (simp add: u with_slug_def)
  ultimately show ?thesis using locked_user [OF assms(1)] r by blast
qed

lemma locked_login:
  assumes "locked i db" and "GetUserByEmail (ac_lower e) email db = Inr (u, hash)" and "usr_ID u = i"
  shows "fst (Login e c (Some (email, password)) db) \<noteq> (200, [])"
proof -
  have "usr_DisabledAt u \<noteq> None"
    using assms find_Some_in [of _ "idb_users db"]
    by (fastforce simp: GetUserByEmail_def locked_def with_slug_def split: option.splits)
  then show ?thesis by (auto simp: Login_def ask_def bad_request_def assms(2) split: if_splits)
qed

text \<open>C18: A disabled user is locked out of the control plane: whatever requests follow, unless one of them enables the
  user again, no session is accepted as that user and no login of that user succeeds.\<close>

theorem disabled_user_locked_out:
  assumes "user_by_id db0 i \<noteq> None" and "\<forall>r \<in> set (idb_users db0). usr_ID (ur_user r) < idb_user_seq db0"
    and "\<forall>(c, op) \<in> set reqs. op \<noteq> Op_SetUserDisabled i (Some False)"
    and "db = serve_all e reqs (SetUserDisabled now i True db0)"
  shows "(\<forall>u h. fst (session_of e c db) = SessionOf (UserPrincipal u) h \<longrightarrow> usr_ID u \<noteq> i)
    \<and> (\<forall>u hash. GetUserByEmail (ac_lower e) email db = Inr (u, hash) \<and> usr_ID u = i \<longrightarrow>
         fst (Login e c (Some (email, password)) db) \<noteq> (200, []))"
proof -
  from assms(1) obtain r where r: "user_by_id db0 i = Some r" by auto
  with find_Some_in have "r \<in> set (idb_users db0)" "usr_ID (ur_user r) = i" by (fastforce simp: user_by_id_def)+
  with assms(2) have "i < idb_user_seq db0" by blast
  then have "locked i (SetUserDisabled now i True db0)" by (rule SetUserDisabled_locks)
  then have "locked i db"
    unfolding assms(4) by (rule serve_all_invariant) (use assms(3) in \<open>auto intro: serve_locked\<close>)
  note db = this
  show ?thesis
  proof (intro conjI allI impI)
    fix u h
    assume "fst (session_of e c db) = SessionOf (UserPrincipal u) h"
    then have "session_of e c db = (SessionOf (UserPrincipal u) h, snd (session_of e c db))" by (simp add: prod_eq_iff)
    then show "usr_ID u \<noteq> i" by (rule locked_session [OF db])
  next
    fix u hash
    assume "GetUserByEmail (ac_lower e) email db = Inr (u, hash) \<and> usr_ID u = i"
    then show "fst (Login e c (Some (email, password)) db) \<noteq> (200, [])" using locked_login [OF db] by blast
  qed
qed

section \<open>An example database\<close>

definition ex_team :: "int \<Rightarrow> string \<Rightarrow> team" where
  "ex_team i slug = \<lparr>t_ID = i, t_Slug = slug, t_Name = slug, t_UsdLimitCents = None, t_Period = ''month'', t_AllowedModels = [],
     t_RPM = None, t_TPM = None, t_MaxParallelRequests = None, t_CapturePayloads = False, t_CustomerRegistration = [],
     t_CreatedAt = 0, t_ArchivedAt = None\<rparr>"

definition ex_user :: "int \<Rightarrow> string \<Rightarrow> int option \<Rightarrow> string \<Rightarrow> user_row" where
  "ex_user i email team role = \<lparr>ur_user = \<lparr>usr_ID = i, usr_Email = email, usr_TeamID = team, usr_TeamSlug = [], usr_Role = role,
     usr_UsdLimitCents = None, usr_Period = ''month'', usr_MaxParallelRequests = None, usr_DisabledAt = None, usr_ArchivedAt = None\<rparr>,
     ur_name = [], ur_password = ''pw'', ur_role_managed_by_oidc = False, ur_last_login = None\<rparr>"

definition ex_key :: "int \<Rightarrow> int \<Rightarrow> string \<Rightarrow> key_row" where
  "ex_key i team hash = \<lparr>kr_key = (jwt_key (ex_team team []) [])\<lparr>vk_ID := i, vk_AllowedModels := [''*'']\<rparr>, kr_hash = hash, kr_metadata = [],
     kr_rotated_from = None, kr_created_at = 0\<rparr>"

definition ex_session :: "string \<Rightarrow> int \<Rightarrow> session_row" where
  "ex_session hash u = \<lparr>sn_hash = hash, sn_user = u, sn_expires = 100, sn_ip = [], sn_agent = [], sn_last_seen = None\<rparr>"

definition ex_db :: identity_db where
  "ex_db = \<lparr>idb_teams = [ex_team 1 ''red'', ex_team 2 ''blue''],
     idb_users = [ex_user 1 ''m'' (Some 1) ''manager'', ex_user 2 ''u'' (Some 2) ''member''], idb_accounts = [],
     idb_keys = [ex_key 1 1 ''k1'', ex_key 2 2 ''k2''], idb_sessions = [ex_session ''s1'' 1, ex_session ''s2'' 2],
     idb_invites = [], idb_resets = [], idb_key_seq = 3, idb_user_seq = 3, idb_invite_seq = 1, idb_reset_seq = 1\<rparr>"

definition ex_env :: "(unit, unit, unit) account_env" where
  "ex_env = \<lparr>ac_auth = \<lparr>ae_lib = \<lparr>ParseIP = (\<lambda>_. None), ParseCIDR = (\<lambda>_. None), Contains_net = (\<lambda>_ _. False), SplitHost = Some\<rparr>,
       ae_trusted = [], ae_HashKey = (\<lambda>s. s), ae_parse_jwt = (\<lambda>_ _. None), ae_verifier = None, ae_master = ''master''\<rparr>,
     ac_bcrypt = Some, ac_matches = (=), ac_ToLower = (\<lambda>s. s), ac_EqualFold = (=), ac_lower = (\<lambda>s. s)\<rparr>"

definition ex_request :: "string \<Rightarrow> http_request" where
  "ex_request token = \<lparr>hr_remote = ''peer'', hr_header = (\<lambda>n. if n = ''Authorization'' then ''Bearer '' @ token else []), hr_cookie = (\<lambda>_. None)\<rparr>"

definition ex_call :: "string \<Rightarrow> call" where
  "ex_call token = \<lparr>ca_now = 5, ca_fails = [], ca_secret = Some ''x'', ca_request = ex_request token\<rparr>"

lemmas ex_defs = ex_team_def ex_user_def ex_key_def ex_session_def ex_db_def ex_env_def ex_request_def ex_call_def jwt_key_def

lemma ex_db_wf: "keys_wf ex_db"
  by (simp add: keys_wf_def ex_defs)

theorem revoked_key_stays_revoked_witness:
  "\<exists>msg. Bearer (ac_auth ex_env) False 7 (ex_request ''k1'')
     (serve_all ex_env [(ex_call ''s1'', Op_ResumeKey 1), (ex_call ''master'', Op_RotateKey 1 (Some 60))] (snd (RevokeKey 5 1 ex_db)))
     = Rejected 401 msg"
proof (rule revoked_key_stays_revoked [where i = 1 and now = 5 and raw = "''k1''", OF ex_db_wf])
  show "key_by_id ex_db 1 = Some (ex_key 1 1 ''k1'')" by (simp add: key_by_id_def ex_defs)
  show "RevokeKey 5 1 ex_db = (Inr (), snd (RevokeKey 5 1 ex_db))" by code_simp
  show "ExtractBearer (ex_request ''k1'') = ''k1''" by code_simp
  show "ae_HashKey (ac_auth ex_env) ''k1'' = kr_hash (ex_key 1 1 ''k1'')" by code_simp
  show "\<not> looksLikeJWT ''k1''" by code_simp
qed


theorem rotation_hands_over_witness:
  "(\<exists>k t. LookupKey ''n'' (snd (RotateVirtualKey 5 1 1 ''n'' ''gw-n'' 10 ex_db)) = Inr (k, t, None) \<and> vk_ID k = 3)
   \<and> fst (RotateVirtualKey 5 1 1 ''n'' ''gw-n'' 10 ex_db) \<noteq> Inl ErrNotFound"
proof -
  let ?k = "kr_key (ex_key 1 1 ''k1'')" and ?t = "(ex_team 1 ''red'')\<lparr>t_AllowedModels := [''*'']\<rparr>"
  have l: "LookupKey ''k1'' ex_db = Inr (?k, ?t, None)" by code_simp
  have k: "vk_ID ?k = 1" "vk_TeamID ?k = 1" "idb_key_seq ex_db = 3" by (simp_all add: ex_defs)
  have "fst (RotateVirtualKey 5 1 1 ''n'' ''gw-n'' 10 ex_db) = Inr (?k\<lparr>vk_ID := 3, vk_KeyPrefix := ''gw-n''\<rparr>)" by code_simp
  then have r: "RotateVirtualKey 5 1 1 ''n'' ''gw-n'' 10 ex_db =
      (Inr (?k\<lparr>vk_ID := 3, vk_KeyPrefix := ''gw-n''\<rparr>), snd (RotateVirtualKey 5 1 1 ''n'' ''gw-n'' 10 ex_db))"
    by (metis prod.collapse)
  have "LookupKey ''n'' (snd (RotateVirtualKey 5 1 1 ''n'' ''gw-n'' 10 ex_db)) = Inr (?k\<lparr>vk_ID := 3, vk_KeyPrefix := ''gw-n''\<rparr>, ?t, None)"
    using rotation_hands_over [OF ex_db_wf l, of 5 "''n''" "''gw-n''" 10, unfolded k, OF r] by (rule conjunct1)
  then show ?thesis using arg_cong [OF r, of fst] by simp
qed


theorem disabled_user_locked_out_witness:
  "\<not> (\<exists>u h. fst (session_of ex_env (ex_call ''s2'') (serve_all ex_env [(ex_call [], Op_Login (Some (''u'', ''pw'')))] (SetUserDisabled 3 2 True ex_db)))
     = SessionOf (UserPrincipal u) h \<and> usr_ID u = 2)"
proof -
  have "user_by_id ex_db 2 \<noteq> None" "\<forall>r \<in> set (idb_users ex_db). usr_ID (ur_user r) < idb_user_seq ex_db"
    "\<forall>(c, op) \<in> set [(ex_call [], Op_Login (Some (''u'', ''pw'')))]. op \<noteq> Op_SetUserDisabled 2 (Some False)"
    by (simp_all add: user_by_id_def ex_defs)
  from disabled_user_locked_out [OF this refl, of ex_env "ex_call ''s2''" 3 "''u''" "''pw''"] show ?thesis by blast
qed

section \<open>Corner cases\<close>

definition ex_accept :: "string \<Rightarrow> accept_request option" where
  "ex_accept email = Some \<lparr>aq_Email = email, aq_Name = [], aq_Password = email @ ''-password''\<rparr>"

definition ex_invited :: identity_db where
  "ex_invited = snd (CreateInvite ''tok'' ''tok'' [] ''admin'' None 100 ex_db)"

text \<open>Two acceptances of one invite, interleaved between their statements: both read it, then both create their user,
  then both mark it.\<close>

definition accept_race :: "string \<Rightarrow> string \<Rightarrow> identity_db \<Rightarrow> (answer \<times> answer) \<times> identity_db" where
  "accept_race a b db =
     (case (accept_check ex_env (ex_call []) ''tok'' (ex_accept a) db, accept_check ex_env (ex_call []) ''tok'' (ex_accept b) db) of
        (Inr ca, Inr cb) \<Rightarrow>
          (case accept_create ex_env (ex_call []) ca db of
             (Inr ua, db1) \<Rightarrow>
               (case accept_create ex_env (ex_call []) cb db1 of
                  (Inr ub, db2) \<Rightarrow>
                    (case accept_finish ex_env (ex_call []) ''tok'' ua db2 of
                       (ra, db3) \<Rightarrow> (case accept_finish ex_env (ex_call []) ''tok'' ub db3 of (rb, db4) \<Rightarrow> ((ra, rb), db4)))
                | (Inl _, db2) \<Rightarrow> ((bad_request, bad_request), db2))
           | (Inl _, db1) \<Rightarrow> ((bad_request, bad_request), db1))
      | _ \<Rightarrow> ((bad_request, bad_request), db))"


text \<open>A key of a team whose slug has two dots has the shape of a JWT. Once any team has a JWKS, it is refused although
  the key itself is valid.\<close>

definition ex_dotted :: identity_db where
  "ex_dotted = ex_db\<lparr>idb_teams := [ex_team 1 ''a.b.c''], idb_keys := [ex_key 1 1 (fst (GenerateKey (\<lambda>s. s) ''00'' ''a.b.c''))]\<rparr>"

definition ex_jwt_env :: "(unit, unit, unit) auth_env" where
  "ex_jwt_env = (ac_auth ex_env)\<lparr>ae_verifier :=
     Some \<lparr>jv_teams = [\<lparr>jt_TeamSlug = ''other'', jt_JWKSURL = ''u'', jt_TeamClaim = ''team_slug'', jt_Audience = []\<rparr>], jv_jwks = (\<lambda>_. Some ())\<rparr>\<rparr>"

theorem dotted_slug_key_refused:
  "(case Bearer (ac_auth ex_env) False 5 (ex_request ''gw-a.b.c-00'') ex_dotted of Accepted t k ow \<Rightarrow> vk_ID k = 1 | Rejected _ _ \<Rightarrow> False)
   \<and> Bearer ex_jwt_env False 5 (ex_request ''gw-a.b.c-00'') ex_dotted
       = Rejected 401 ''jwt verification failed: invalid or unrecognized jwt''"
  by code_simp

text \<open>A percent sign is a prefix of every session: one request deletes all sessions of the caller, the current one
  included.\<close>

theorem session_prefix_wildcard:
  "idb_sessions (snd (DeleteUserSessionByPrefix 1 ''%'' (ex_db\<lparr>idb_sessions := [ex_session ''s1'' 1, ex_session ''s2'' 2, ex_session ''s3'' 1]\<rparr>)))
     = [ex_session ''s2'' 2]"
  by code_simp

end
