(* ===== verification/Server_Lifecycle.thy ===== *)
theory Server_Lifecycle
  imports Gw_Prelude
begin

text \<open>
  Draining and shutdown of the server (\<^verbatim>\<open>internal/server/lifecycle.go\<close>): the count of active inference requests with
  the channel that is closed when it falls to zero, the middleware around every inference route, and the phases of
  \<open>shutdown\<close>, as a step relation over any number of callers.

  \<^item> A channel is a number; \<open>lc_closed\<close> lists the closed ones, and closing a closed or nil channel panics.
  \<^item> Everything under \<open>requestsMu\<close> is one step. The handlers behind the middleware, the listener, the workers and the
    time limits may do what they like: a handler returns at any time, and a wait may run out at any time.
\<close>

section \<open>Active requests\<close>

record lifecycle =
  lc_draining :: bool
  lc_active :: int
  lc_done :: "nat option"
  lc_closed :: "nat list"
  lc_next :: nat
  lc_cancelled :: bool

definition initLifecycle :: lifecycle where
  "initLifecycle = \<lparr>lc_draining = False, lc_active = 0, lc_done = Some 0, lc_closed = [0], lc_next = 1, lc_cancelled = False\<rparr>"

definition Drain :: "lifecycle \<Rightarrow> lifecycle" where
  "Drain l = l\<lparr>lc_draining := True\<rparr>"

definition close_chan :: "nat option \<Rightarrow> lifecycle \<Rightarrow> lifecycle may_panic" where
  "close_chan ch l =
     (case ch of
        None \<Rightarrow> Inl (Panic ''close of nil channel'')
      | Some n \<Rightarrow> if n \<in> set (lc_closed l) then Inl (Panic ''close of closed channel'')
                  else Inr (l\<lparr>lc_closed := n # lc_closed l\<rparr>))"

text \<open>The two critical sections of \<open>inferenceLifecycle\<close>: whether the request may go on, and its end.\<close>

definition enter :: "lifecycle \<Rightarrow> bool \<times> lifecycle" where
  "enter l =
     (if lc_draining l then (False, l)
      else let l1 = (if lc_active l = 0 then l\<lparr>lc_done := Some (lc_next l), lc_next := Suc (lc_next l)\<rparr> else l)
           in (True, l1\<lparr>lc_active := lc_active l + 1\<rparr>))"

definition leave :: "lifecycle \<Rightarrow> lifecycle may_panic" where
  "leave l =
     (let l1 = l\<lparr>lc_active := lc_active l - 1\<rparr> in
      if lc_active l1 = 0 then close_chan (lc_done l1) l1 else Inr l1)"

definition rejectDrained :: "lifecycle \<Rightarrow> bool" where
  "rejectDrained l = lc_draining l"

text \<open>The two halves of \<open>waitInference\<close>: the channel read under the mutex, and whether the wait on it is over.\<close>

definition wait_channel :: "lifecycle \<Rightarrow> nat option" where
  "wait_channel l = lc_done l"

definition wait_over :: "nat option \<Rightarrow> lifecycle \<Rightarrow> bool" where
  "wait_over ch l = (case ch of None \<Rightarrow> True | Some n \<Rightarrow> n \<in> set (lc_closed l))"

section \<open>Callers and shutdown\<close>

text \<open>The function registered with \<open>context.AfterFunc\<close>: not started, started, or past closing \<open>canceled\<close>.\<close>

datatype after = Armed | Firing | Fired

datatype caller = Arrived | Refused | Entered after | Working after | Returning after | Gone

text \<open>Where \<open>shutdown\<close> is: before it; after \<open>Drain\<close>; waiting for the grace period; past it; after \<open>requestCancel\<close>;
  in the cleanup wait; closing the stores and clients, with whether the cleanup wait ended in time; returned.\<close>

datatype phase =
    Before | Draining | Grace "nat option" | GraceOver | Cancelled | Cleanup "nat option" | Closing bool | Returned bool

record server =
  sv_life :: lifecycle
  sv_callers :: "caller list"
  sv_phase :: phase
  sv_crashed :: bool

definition new_server :: "nat \<Rightarrow> server" where
  "new_server n = \<lparr>sv_life = initLifecycle, sv_callers = replicate n Arrived, sv_phase = Before, sv_crashed = False\<rparr>"

definition set_caller :: "nat \<Rightarrow> caller \<Rightarrow> server \<Rightarrow> server" where
  "set_caller i c s = s\<lparr>sv_callers := (sv_callers s)[i := c]\<rparr>"

definition at :: "server \<Rightarrow> nat \<Rightarrow> caller \<Rightarrow> bool" where
  "at s i c \<longleftrightarrow> i < length (sv_callers s) \<and> sv_callers s ! i = c"

inductive caller_step :: "server \<Rightarrow> server \<Rightarrow> bool" where
  arrive: "at s i Arrived \<Longrightarrow> enter (sv_life s) = (True, l) \<Longrightarrow>
     caller_step s ((set_caller i (Entered Armed) s)\<lparr>sv_life := l\<rparr>)"
| refuse: "at s i Arrived \<Longrightarrow> enter (sv_life s) = (False, l) \<Longrightarrow> caller_step s (set_caller i Refused s)"
| recheck: "at s i (Entered a) \<Longrightarrow>
     caller_step s (set_caller i (if rejectDrained (sv_life s) then Returning a else Working a) s)"
| turned_away: "at s i (Entered a) \<Longrightarrow> caller_step s (set_caller i (Returning a) s)"
| return: "at s i (Working a) \<Longrightarrow> caller_step s (set_caller i (Returning a) s)"
| fire: "at s i (C Armed) \<Longrightarrow> C \<in> {Entered, Working, Returning} \<Longrightarrow> lc_cancelled (sv_life s) \<Longrightarrow>
     caller_step s (set_caller i (C Firing) s)"
| fired: "at s i (C Firing) \<Longrightarrow> C \<in> {Entered, Working, Returning} \<Longrightarrow> caller_step s (set_caller i (C Fired) s)"
| leaves: "at s i (Returning a) \<Longrightarrow> a \<noteq> Firing \<Longrightarrow> leave (sv_life s) = Inr l \<Longrightarrow>
     caller_step s ((set_caller i Gone s)\<lparr>sv_life := l\<rparr>)"
| crash: "at s i (Returning a) \<Longrightarrow> a \<noteq> Firing \<Longrightarrow> leave (sv_life s) = Inl p \<Longrightarrow>
     caller_step s (s\<lparr>sv_crashed := True\<rparr>)"

inductive shutdown_step :: "server \<Rightarrow> server \<Rightarrow> bool" where
  drain: "shutdown_step s (s\<lparr>sv_life := Drain (sv_life s)\<rparr>)"
| start: "sv_phase s = Before \<Longrightarrow> shutdown_step s (s\<lparr>sv_life := Drain (sv_life s), sv_phase := Draining\<rparr>)"
| grace: "sv_phase s = Draining \<Longrightarrow> shutdown_step s (s\<lparr>sv_phase := Grace (wait_channel (sv_life s))\<rparr>)"
| grace_ok: "sv_phase s = Grace ch \<Longrightarrow> wait_over ch (sv_life s) \<Longrightarrow> shutdown_step s (s\<lparr>sv_phase := GraceOver\<rparr>)"
| grace_expired: "sv_phase s = Grace ch \<Longrightarrow> shutdown_step s (s\<lparr>sv_phase := GraceOver\<rparr>)"
| cancel: "sv_phase s = GraceOver \<Longrightarrow>
     shutdown_step s (s\<lparr>sv_life := (sv_life s)\<lparr>lc_cancelled := True\<rparr>, sv_phase := Cancelled\<rparr>)"
| cleanup: "sv_phase s = Cancelled \<Longrightarrow> shutdown_step s (s\<lparr>sv_phase := Cleanup (wait_channel (sv_life s))\<rparr>)"
| cleanup_ok: "sv_phase s = Cleanup ch \<Longrightarrow> wait_over ch (sv_life s) \<Longrightarrow> shutdown_step s (s\<lparr>sv_phase := Closing True\<rparr>)"
| cleanup_expired: "sv_phase s = Cleanup ch \<Longrightarrow> shutdown_step s (s\<lparr>sv_phase := Closing False\<rparr>)"
| close_all: "sv_phase s = Closing ok \<Longrightarrow> shutdown_step s (s\<lparr>sv_phase := Returned (ok \<and> others_ok)\<rparr>)"

inductive server_reach :: "nat \<Rightarrow> server \<Rightarrow> bool" for n where
  init: "server_reach n (new_server n)"
| caller: "server_reach n s \<Longrightarrow> caller_step s s' \<Longrightarrow> server_reach n s'"
| shutdown: "server_reach n s \<Longrightarrow> shutdown_step s s' \<Longrightarrow> server_reach n s'"

section \<open>The invariant\<close>

fun active_caller :: "caller \<Rightarrow> bool" where
  "active_caller (Entered _) = True"
| "active_caller (Working _) = True"
| "active_caller (Returning _) = True"
| "active_caller _ = False"

fun active_count :: "caller list \<Rightarrow> int" where
  "active_count [] = 0"
| "active_count (c # cs) = (if active_caller c then 1 else 0) + active_count cs"

lemma active_count_nonneg [simp]: "0 \<le> active_count cs"
  by (induction cs) auto

lemma active_count_update:
  "i < length cs \<Longrightarrow> active_count (cs[i := c]) =
     active_count cs - (if active_caller (cs ! i) then 1 else 0) + (if active_caller c then 1 else 0)"
proof (induction cs arbitrary: i)
  case (Cons a cs)
  then show ?case by (cases i) simp_all
qed simp

lemma active_count_pos: "c \<in> set cs \<Longrightarrow> active_caller c \<Longrightarrow> active_count cs > 0"
proof (induction cs)
  case (Cons a cs)
  then show ?case using active_count_nonneg [of cs] by (auto simp del: active_count_nonneg)
qed simp

fun phase_ok :: "phase \<Rightarrow> lifecycle \<Rightarrow> bool" where
  "phase_ok Before l = True"
| "phase_ok (Grace ch) l = (lc_draining l \<and> ch = lc_done l)"
| "phase_ok (Cleanup ch) l = (lc_draining l \<and> ch = lc_done l)"
| "phase_ok (Closing ok) l = (lc_draining l \<and> (ok \<longrightarrow> lc_active l = 0))"
| "phase_ok (Returned ok) l = (lc_draining l \<and> (ok \<longrightarrow> lc_active l = 0))"
| "phase_ok _ l = lc_draining l"

definition life_ok :: "lifecycle \<Rightarrow> bool" where
  "life_ok l \<longleftrightarrow> 0 \<le> lc_active l \<and>
     (\<exists>d. lc_done l = Some d \<and> d < lc_next l \<and> (d \<in> set (lc_closed l) \<longleftrightarrow> lc_active l = 0)) \<and>
     (\<forall>n \<in> set (lc_closed l). n < lc_next l)"

definition server_ok :: "server \<Rightarrow> bool" where
  "server_ok s \<longleftrightarrow> \<not> sv_crashed s \<and> life_ok (sv_life s) \<and> lc_active (sv_life s) = active_count (sv_callers s) \<and>
     phase_ok (sv_phase s) (sv_life s)"

lemma enter_ok:
  assumes "life_ok l" and "enter l = (True, l')"
  shows "life_ok l'" "lc_active l' = lc_active l + 1" "phase_ok ph l \<Longrightarrow> phase_ok ph l'" "\<not> lc_draining l"
  using assms by (auto simp: life_ok_def enter_def Let_def split: if_splits) (cases ph; auto)+

lemma leave_ok:
  assumes "life_ok l" and "lc_active l > 0"
  shows "\<exists>l'. leave l = Inr l' \<and> life_ok l' \<and> lc_active l' = lc_active l - 1 \<and> lc_draining l' = lc_draining l \<and> lc_done l' = lc_done l"
  using assms by (auto simp: life_ok_def leave_def close_chan_def Let_def)

lemma phase_ok_leave:
  "phase_ok ph l \<Longrightarrow> lc_active l > 0 \<Longrightarrow> lc_draining l' = lc_draining l \<Longrightarrow> lc_done l' = lc_done l \<Longrightarrow> phase_ok ph l'"
  by (cases ph) auto

lemma at_active:
  "server_ok s \<Longrightarrow> at s i c \<Longrightarrow> active_caller c \<Longrightarrow> lc_active (sv_life s) > 0"
  by (auto simp: server_ok_def at_def intro: active_count_pos [OF nth_mem])

lemma set_caller_ok:
  "server_ok s \<Longrightarrow> at s i c \<Longrightarrow> active_caller c = active_caller c' \<Longrightarrow> server_ok (set_caller i c' s)"
  by (auto simp: server_ok_def set_caller_def at_def active_count_update)

lemma caller_step_ok:
  assumes "caller_step s s'" and "server_ok s"
  shows "server_ok s'"
  using assms
proof (cases rule: caller_step.cases)
  case (arrive i l)
  with assms(2) enter_ok [of "sv_life s" l] show ?thesis
    by (auto simp: server_ok_def set_caller_def at_def active_count_update)
next
  case (leaves i a l)
  have pos: "lc_active (sv_life s) > 0" using at_active [OF assms(2) leaves(2)] by simp
  with leave_ok [of "sv_life s"] assms(2) leaves(4)
  have "life_ok l" "lc_active l = lc_active (sv_life s) - 1" "lc_draining l = lc_draining (sv_life s)" "lc_done l = lc_done (sv_life s)"
    by (auto simp: server_ok_def)
  with assms(2) leaves pos phase_ok_leave [of "sv_phase s" "sv_life s" l] show ?thesis
    by (auto simp: server_ok_def set_caller_def at_def active_count_update)
next
  case (crash i a p)
  with leave_ok [of "sv_life s"] at_active [OF assms(2) crash(2)] assms(2) show ?thesis by (auto simp: server_ok_def)
qed (use assms(2) in \<open>auto intro: set_caller_ok split: if_splits\<close>)

lemma shutdown_step_ok: "shutdown_step s s' \<Longrightarrow> server_ok s \<Longrightarrow> server_ok s'"
proof (induction rule: shutdown_step.induct)
  case (drain s)
  then show ?case by (cases "sv_phase s") (auto simp: server_ok_def Drain_def life_ok_def)
qed (auto simp: server_ok_def life_ok_def Drain_def wait_channel_def wait_over_def split: option.splits)

lemma reach_ok: "server_reach n s \<Longrightarrow> server_ok s"
proof (induction rule: server_reach.induct)
  case init
  have "active_count (replicate n Arrived) = 0" by (induction n) auto
  then show ?case by (simp add: server_ok_def new_server_def initLifecycle_def life_ok_def)
qed (auto intro: caller_step_ok shutdown_step_ok)

inductive_cases caller_stepE: "caller_step s s'"

lemma at_set_caller: "at s i c \<Longrightarrow> at (set_caller i c' s) i c'"
  by (simp add: at_def set_caller_def)

lemma set_caller_life [simp]: "sv_life (set_caller i c s) = sv_life s"
  by (simp add: set_caller_def)

lemma returning_leaves:
  assumes "server_ok s" and "at s i (Returning a)"
  shows "\<exists>s'. caller_step\<^sup>*\<^sup>* s s' \<and> at s' i Gone"
proof -
  have out: "\<exists>s'. caller_step t s' \<and> at s' i Gone" if ok: "server_ok t" and r: "at t i (Returning b)" and b: "b \<noteq> Firing" for t b
  proof -
    obtain l where "leave (sv_life t) = Inr l"
      using leave_ok [of "sv_life t"] at_active [OF ok r] ok by (auto simp: server_ok_def)
    then have "caller_step t ((set_caller i Gone t)\<lparr>sv_life := l\<rparr>)" using r b by (intro caller_step.leaves)
    moreover have "at ((set_caller i Gone t)\<lparr>sv_life := l\<rparr>) i Gone" using r by (simp add: at_def set_caller_def)
    ultimately show ?thesis by blast
  qed
  show ?thesis
  proof (cases "a = Firing")
    case True
    then have f: "caller_step s (set_caller i (Returning Fired) s)" using assms(2) by (auto intro: caller_step.fired)
    from out [OF caller_step_ok [OF f assms(1)] at_set_caller [OF assms(2)]]
    obtain s' where "caller_step (set_caller i (Returning Fired) s) s'" "at s' i Gone" by auto
    with f show ?thesis by (meson converse_rtranclp_into_rtranclp r_into_rtranclp)
  next
    case False
    from out [OF assms False] show ?thesis by blast
  qed
qed

lemma active_leaves:
  assumes "server_ok s" and "at s i c" and "active_caller c"
  shows "\<exists>s'. caller_step\<^sup>*\<^sup>* s s' \<and> at s' i Gone"
proof -
  consider a where "c = Returning a" | a where "c = Entered a" | a where "c = Working a"
    using assms(3) by (cases c) auto
  then show ?thesis
  proof cases
    case 1
    with assms returning_leaves show ?thesis by blast
  next
    case (2 a)
    then have f: "caller_step s (set_caller i (Returning a) s)" using assms(2) by (auto intro: caller_step.turned_away)
    from returning_leaves [OF caller_step_ok [OF f assms(1)] at_set_caller [OF assms(2)]] f
    show ?thesis by (meson converse_rtranclp_into_rtranclp)
  next
    case (3 a)
    then have f: "caller_step s (set_caller i (Returning a) s)" using assms(2) by (auto intro: caller_step.return)
    from returning_leaves [OF caller_step_ok [OF f assms(1)] at_set_caller [OF assms(2)]] f
    show ?thesis by (meson converse_rtranclp_into_rtranclp)
  qed
qed

lemma no_entry_while_draining:
  assumes "caller_step s s'" and "lc_draining (sv_life s)" and "j < length (sv_callers s)" and "active_caller (sv_callers s' ! j)"
  shows "active_caller (sv_callers s ! j)"
  using assms
  by (cases rule: caller_step.cases) (auto simp: set_caller_def at_def enter_def nth_list_update split: if_splits)

lemma no_work_while_draining:
  assumes "caller_step s s'" and "lc_draining (sv_life s)" and "j < length (sv_callers s)" and "sv_callers s' ! j = Working a"
  shows "\<exists>b. sv_callers s ! j = Working b"
  using assms
  by (cases rule: caller_step.cases) (auto simp: set_caller_def at_def enter_def rejectDrained_def nth_list_update split: if_splits)

text \<open>C20: In every reachable state of the server: no channel was closed twice; once shutdown has started no request enters and
  none goes on to work past the recheck; when the cleanup wait has ended in time, no request is active while the stores
  and clients are closed or after; and every active request can still return and leave.\<close>

theorem shutdown_waits_for_requests:
  assumes "server_reach n s"
  shows "\<not> sv_crashed s
    \<and> (sv_phase s \<noteq> Before \<longrightarrow>
        (\<forall>s' j. caller_step s s' \<and> j < length (sv_callers s) \<longrightarrow>
           (active_caller (sv_callers s' ! j) \<longrightarrow> active_caller (sv_callers s ! j)) \<and>
           (\<forall>a. sv_callers s' ! j = Working a \<longrightarrow> (\<exists>b. sv_callers s ! j = Working b))))
    \<and> (sv_phase s \<in> {Closing True, Returned True} \<longrightarrow> (\<forall>c \<in> set (sv_callers s). \<not> active_caller c))
    \<and> (\<forall>i c. at s i c \<and> active_caller c \<longrightarrow> (\<exists>s'. caller_step\<^sup>*\<^sup>* s s' \<and> at s' i Gone))"
proof -
  note ok = reach_ok [OF assms]
  have d: "lc_draining (sv_life s)" if "sv_phase s \<noteq> Before"
    using ok that by (cases "sv_phase s") (auto simp: server_ok_def)
  have z: "active_count (sv_callers s) = 0" if "sv_phase s \<in> {Closing True, Returned True}"
    using ok that by (auto simp: server_ok_def)
  have "\<forall>c \<in> set (sv_callers s). \<not> active_caller c" if "sv_phase s \<in> {Closing True, Returned True}"
    using z [OF that] active_count_pos by fastforce
  with d ok active_leaves [OF ok] show ?thesis
    by (auto simp only: server_ok_def intro: no_entry_while_draining no_work_while_draining)
qed

definition one_request :: server where
  "one_request = (set_caller 0 (Entered Armed) (new_server 1))\<lparr>sv_life := snd (enter initLifecycle)\<rparr>"

theorem shutdown_waits_for_requests_witness:
  "\<not> sv_crashed one_request \<and> (\<exists>s'. caller_step\<^sup>*\<^sup>* one_request s' \<and> at s' 0 Gone)"
proof -
  have "caller_step (new_server 1) one_request"
    unfolding one_request_def
    by (rule caller_step.arrive) (simp_all add: at_def new_server_def enter_def initLifecycle_def)
  then have r: "server_reach 1 one_request" by (rule server_reach.caller [OF server_reach.init])
  have "at one_request 0 (Entered Armed)" by (simp add: one_request_def at_def set_caller_def new_server_def)
  with shutdown_waits_for_requests [OF r] show ?thesis by (metis active_caller.simps(1))
qed

end
