(* ===== verification/Prompt_Cache.thy ===== *)
theory Prompt_Cache
  imports Router_Registry "HOL-Library.List_Lexorder" "HOL-Library.Char_ord"
begin

text \<open>
  The prompt cache (\<^verbatim>\<open>internal/cache/cache.go\<close>): the canonical form of a request body, the key made from it, and the
  entries in Redis.

  \<^item> A decoded body is an \<open>any\<close> value of \<^verbatim>\<open>encoding/json\<close>. An object is the list of its fields, in any order, since a Go
    map has none; its keys are distinct. A number is a \<open>float64\<close>, an element of the type variable \<open>'n\<close>, and
    \<open>num\<close> is how \<open>json.Marshal\<close> writes it.
  \<^item> Bodies are UTF-8; the decoder would put U+FFFD for a byte that is not. They nest less deep than its limit of 10000.
  \<^item> \<open>num_of\<close> is the conversion of a number's text, which fails on a text that is not a JSON number or is out of
    range; \<open>float_text\<close> is what \<open>json.Marshal\<close> and the decoder promise of it: a number that was written is read back.
  \<^item> \<open>digest\<close> is SHA-256 in hexadecimal, and \<open>glob\<close> the pattern match of Redis.
\<close>

datatype 'n any = A_nil | A_bool bool | A_num 'n | A_str string | A_arr "'n any list" | A_obj "(string \<times> 'n any) list"

section \<open>Writing JSON\<close>

definition hexdigit :: "nat \<Rightarrow> char" where
  "hexdigit n = (if n < 10 then char_of (48 + n) else char_of (87 + n))"

definition u_escape :: "nat \<Rightarrow> string" where
  "u_escape n = [CHR 0x5C, CHR ''u'', hexdigit (n div 4096), hexdigit (n div 256 mod 16), hexdigit (n div 16 mod 16), hexdigit (n mod 16)]"

text \<open>\<open>json.Marshal\<close> of a string: quotes, backslashes and control characters are escaped, and so are the characters that are
  special in HTML and the line separators of JavaScript.\<close>

definition escape :: "char \<Rightarrow> string" where
  "escape c =
     (if c = CHR 0x22 then [CHR 0x5C, CHR 0x22] else if c = CHR 0x5C then [CHR 0x5C, CHR 0x5C]
      else if c = CHR 0x08 then [CHR 0x5C, CHR ''b''] else if c = CHR 0x0C then [CHR 0x5C, CHR ''f'']
      else if c = CHR 0x0A then [CHR 0x5C, CHR ''n''] else if c = CHR 0x0D then [CHR 0x5C, CHR ''r'']
      else if c = CHR 0x09 then [CHR 0x5C, CHR ''t'']
      else if (of_char c :: nat) < 32 \<or> c \<in> {CHR ''<'', CHR ''>'', CHR ''&''} then u_escape (of_char c)
      else [c])"

function write_chars :: "string \<Rightarrow> string" where
  "write_chars [] = []"
| "write_chars (c # cs) =
     (if take 3 (c # cs) = [CHR 0xE2, CHR 0x80, CHR 0xA8] then u_escape 0x2028 @ write_chars (drop 2 cs)
      else if take 3 (c # cs) = [CHR 0xE2, CHR 0x80, CHR 0xA9] then u_escape 0x2029 @ write_chars (drop 2 cs)
      else escape c @ write_chars cs)"
  by pat_completeness auto
termination by (relation "measure length") auto

definition write_string :: "string \<Rightarrow> string" where
  "write_string s = CHR 0x22 # write_chars s @ [CHR 0x22]"

fun join :: "string list \<Rightarrow> string" where
  "join [] = []"
| "join [x] = x"
| "join (x # xs) = x @ CHR '','' # join xs"

text \<open>\<open>marshalSorted\<close>. The keys of an object are written in the order of their bytes.\<close>

fun marshalSorted :: "('n \<Rightarrow> string) \<Rightarrow> 'n any \<Rightarrow> string" where
  "marshalSorted num A_nil = ''null''"
| "marshalSorted num (A_bool b) = (if b then ''true'' else ''false'')"
| "marshalSorted num (A_num n) = num n"
| "marshalSorted num (A_str s) = write_string s"
| "marshalSorted num (A_arr vs) = CHR ''['' # join (map (marshalSorted num) vs) @ '']''"
| "marshalSorted num (A_obj t) =
     CHR ''{'' # join (map (\<lambda>(k, v). write_string k @ CHR '':'' # marshalSorted num v) (sort_key fst t)) @ ''}''"

section \<open>Reading JSON\<close>

text \<open>\<open>json.Unmarshal\<close> into \<open>any\<close>. \<open>read_value\<close> takes a value off the front of the text; the fuel bounds the calls, and
  the length of the text is always enough.\<close>

definition skip_space :: "string \<Rightarrow> string" where
  "skip_space s = dropWhile (\<lambda>c. c \<in> {CHR '' '', CHR 0x09, CHR 0x0A, CHR 0x0D}) s"

definition hexval :: "char \<Rightarrow> nat option" where
  "hexval c =
     (let n = (of_char c :: nat) in
      if 48 \<le> n \<and> n \<le> 57 then Some (n - 48)
      else if 97 \<le> n \<and> n \<le> 102 then Some (n - 87)
      else if 65 \<le> n \<and> n \<le> 70 then Some (n - 55)
      else None)"

fun hex4 :: "string \<Rightarrow> (nat \<times> string) option" where
  "hex4 (a # b # c # d # r) =
     (case (hexval a, hexval b, hexval c, hexval d) of
        (Some w, Some x, Some y, Some z) \<Rightarrow> Some (4096 * w + 256 * x + 16 * y + z, r)
      | _ \<Rightarrow> None)"
| "hex4 _ = None"

definition utf8_bytes :: "nat \<Rightarrow> string" where
  "utf8_bytes n =
     (if n < 0x80 then [char_of n]
      else if n < 0x800 then [char_of (0xC0 + n div 64), char_of (0x80 + n mod 64)]
      else if n < 0x10000 then [char_of (0xE0 + n div 4096), char_of (0x80 + n div 64 mod 64), char_of (0x80 + n mod 64)]
      else [char_of (0xF0 + n div 262144), char_of (0x80 + n div 4096 mod 64), char_of (0x80 + n div 64 mod 64), char_of (0x80 + n mod 64)])"

text \<open>A \<open>\u\<close> escape: two halves of a surrogate pair make one rune, half a pair is U+FFFD.\<close>

definition read_u :: "string \<Rightarrow> (string \<times> string) option" where
  "read_u s =
     (case hex4 s of
        None \<Rightarrow> None
      | Some (n, r) \<Rightarrow>
          if n < 0xD800 \<or> 0xE000 \<le> n then Some (utf8_bytes n, r)
          else if n < 0xDC00 \<and> take 2 r = [CHR 0x5C, CHR ''u'']
          then (case hex4 (drop 2 r) of
                  None \<Rightarrow> None
                | Some (n2, r2) \<Rightarrow>
                    if 0xDC00 \<le> n2 \<and> n2 < 0xE000 then Some (utf8_bytes ((n - 0xD800) * 1024 + (n2 - 0xDC00) + 0x10000), r2)
                    else Some (utf8_bytes 0xFFFD, r))
          else Some (utf8_bytes 0xFFFD, r))"

fun read_escape :: "string \<Rightarrow> (string \<times> string) option" where
  "read_escape [] = None"
| "read_escape (c # cs) =
     (if c = CHR ''u'' then read_u cs
      else if c \<in> {CHR 0x22, CHR 0x5C, CHR ''/''} then Some ([c], cs)
      else if c = CHR ''b'' then Some ([CHR 0x08], cs) else if c = CHR ''f'' then Some ([CHR 0x0C], cs)
      else if c = CHR ''n'' then Some ([CHR 0x0A], cs) else if c = CHR ''r'' then Some ([CHR 0x0D], cs)
      else if c = CHR ''t'' then Some ([CHR 0x09], cs) else None)"

lemma hex4_shorter: "hex4 s = Some (n, r) \<Longrightarrow> length r < length s"
  by (cases s rule: hex4.cases) (auto split: option.splits)

lemma read_escape_shorter: "read_escape s = Some (b, r) \<Longrightarrow> length r < length s"
proof (cases s)
  case (Cons c cs)
  assume "read_escape s = Some (b, r)"
  moreover have "read_u cs = Some (b, r) \<Longrightarrow> length r < length cs"
    unfolding read_u_def by (auto split: option.splits if_splits prod.splits dest!: hex4_shorter)
  ultimately show ?thesis using Cons by (auto split: if_splits)
qed simp

function read_chars :: "string \<Rightarrow> (string \<times> string) option" where
  "read_chars [] = None"
| "read_chars (c # cs) =
     (if c = CHR 0x22 then Some ([], cs)
      else if c = CHR 0x5C
      then (case read_escape cs of
              None \<Rightarrow> None
            | Some (b, r) \<Rightarrow> map_option (\<lambda>(s, r2). (b @ s, r2)) (read_chars r))
      else if (of_char c :: nat) < 32 then None
      else map_option (\<lambda>(s, r). (c # s, r)) (read_chars cs))"
  by pat_completeness auto
termination by (relation "measure length") (auto dest: read_escape_shorter)

definition num_char :: "char \<Rightarrow> bool" where
  "num_char c \<longleftrightarrow> c \<in> set ''0123456789+-.eE''"

text \<open>A key that is given twice keeps its last value.\<close>

definition add_field :: "string \<Rightarrow> 'v \<Rightarrow> (string \<times> 'v) list \<Rightarrow> (string \<times> 'v) list" where
  "add_field k v t = (if k \<in> fst ` set t then t else (k, v) # t)"

fun read_value :: "(string \<Rightarrow> 'n option) \<Rightarrow> nat \<Rightarrow> string \<Rightarrow> ('n any \<times> string) option"
and read_items :: "(string \<Rightarrow> 'n option) \<Rightarrow> nat \<Rightarrow> string \<Rightarrow> ('n any list \<times> string) option"
and read_members :: "(string \<Rightarrow> 'n option) \<Rightarrow> nat \<Rightarrow> string \<Rightarrow> ((string \<times> 'n any) list \<times> string) option" where
  "read_value num_of 0 s = None"
| "read_value num_of (Suc f) s =
     (case skip_space s of
        [] \<Rightarrow> None
      | c # cs \<Rightarrow>
          if c = CHR 0x22 then map_option (\<lambda>(t, r). (A_str t, r)) (read_chars cs)
          else if c = CHR ''['' then
            (if take 1 (skip_space cs) = '']'' then Some (A_arr [], drop 1 (skip_space cs))
             else map_option (\<lambda>(vs, r). (A_arr vs, r)) (read_items num_of f cs))
          else if c = CHR ''{'' then
            (if take 1 (skip_space cs) = ''}'' then Some (A_obj [], drop 1 (skip_space cs))
             else map_option (\<lambda>(t, r). (A_obj t, r)) (read_members num_of f cs))
          else if take 4 (c # cs) = ''null'' then Some (A_nil, drop 4 (c # cs))
          else if take 4 (c # cs) = ''true'' then Some (A_bool True, drop 4 (c # cs))
          else if take 5 (c # cs) = ''false'' then Some (A_bool False, drop 5 (c # cs))
          else map_option (\<lambda>n. (A_num n, dropWhile num_char (c # cs))) (num_of (takeWhile num_char (c # cs))))"
| "read_items num_of 0 s = None"
| "read_items num_of (Suc f) s =
     (case read_value num_of f s of
        None \<Rightarrow> None
      | Some (v, r) \<Rightarrow>
          (case skip_space r of
             [] \<Rightarrow> None
           | c # cs \<Rightarrow>
               if c = CHR '']'' then Some ([v], cs)
               else if c = CHR '','' then map_option (\<lambda>(vs, r). (v # vs, r)) (read_items num_of f cs)
               else None))"
| "read_members num_of 0 s = None"
| "read_members num_of (Suc f) s =
     (case skip_space s of
        [] \<Rightarrow> None
      | q # cs0 \<Rightarrow>
          if q \<noteq> CHR 0x22 then None
          else (case read_chars cs0 of
                  None \<Rightarrow> None
                | Some (k, r1) \<Rightarrow>
                    if take 1 (skip_space r1) \<noteq> '':'' then None
                    else (case read_value num_of f (drop 1 (skip_space r1)) of
                            None \<Rightarrow> None
                          | Some (v, r) \<Rightarrow>
                              (case skip_space r of
                                 [] \<Rightarrow> None
                               | c # cs \<Rightarrow>
                                   if c = CHR ''}'' then Some ([(k, v)], cs)
                                   else if c = CHR '','' then map_option (\<lambda>(t, r). (add_field k v t, r)) (read_members num_of f cs)
                                   else None))))"

definition Unmarshal :: "(string \<Rightarrow> 'n option) \<Rightarrow> string \<Rightarrow> (string \<times> 'n any) list option" where
  "Unmarshal num_of s =
     (case read_value num_of (Suc (length s)) s of
        Some (v, r) \<Rightarrow>
          if skip_space r \<noteq> [] then None
          else (case v of A_obj t \<Rightarrow> Some t | A_nil \<Rightarrow> Some [] | _ \<Rightarrow> None)
      | None \<Rightarrow> None)"

definition float_text :: "('n \<Rightarrow> string) \<Rightarrow> (string \<Rightarrow> 'n option) \<Rightarrow> bool" where
  "float_text num num_of \<longleftrightarrow>
     (\<forall>n. (case num n of [] \<Rightarrow> False | c # cs \<Rightarrow> c \<in> set ''-0123456789'') \<and> list_all num_char (num n) \<and> num_of (num n) = Some n)"

section \<open>The canonical request\<close>

function collapse :: "string \<Rightarrow> string" where
  "collapse [] = []"
| "collapse (c # cs) =
     (if c \<in> {CHR '' '', CHR 0x09} then CHR '' '' # collapse (dropWhile (\<lambda>d. d \<in> {CHR '' '', CHR 0x09}) cs)
      else c # collapse cs)"
  by pat_completeness auto
termination by (relation "measure length") (auto simp: le_imp_less_Suc length_dropWhile_le)

definition normalizeWhitespace :: "string \<Rightarrow> string" where
  "normalizeWhitespace s = collapse (TrimSpace s)"

definition ignored_fields :: "string list" where
  "ignored_fields = [''stream'', ''user'', ''request_id'', ''metadata'', ''stream_options'']"

text \<open>Assignment to a key that a map has.\<close>

definition set_field :: "string \<Rightarrow> 'n any \<Rightarrow> (string \<times> 'n any) list \<Rightarrow> (string \<times> 'n any) list" where
  "set_field k v t = map (\<lambda>(k', v'). (k', if k' = k then v else v')) t"

fun normalize_message :: "'n any \<Rightarrow> 'n any" where
  "normalize_message (A_obj m) =
     (case map_of m ''content'' of
        Some (A_str s) \<Rightarrow> A_obj (set_field ''content'' (A_str (normalizeWhitespace s)) m)
      | _ \<Rightarrow> A_obj m)"
| "normalize_message v = v"

definition canonical_value :: "(string \<times> 'n any) list \<Rightarrow> 'n any" where
  "canonical_value raw =
     (let raw1 = filter (\<lambda>(k, v). k \<notin> set ignored_fields) raw;
          raw2 = (case map_of raw1 ''messages'' of
                    Some (A_arr msgs) \<Rightarrow> set_field ''messages'' (A_arr (map normalize_message msgs)) raw1
                  | _ \<Rightarrow> raw1);
          raw3 = (case map_of raw2 ''input'' of
                    Some (A_str input) \<Rightarrow> set_field ''input'' (A_str (normalizeWhitespace input)) raw2
                  | _ \<Rightarrow> raw2)
      in A_obj raw3)"

definition canonicalize ::
  "(string \<Rightarrow> 'n option) \<Rightarrow> ('n \<Rightarrow> string) \<Rightarrow> string \<Rightarrow> string option" where
  "canonicalize num_of num body = map_option (\<lambda>raw. marshalSorted num (canonical_value raw)) (Unmarshal num_of body)"

section \<open>Entries\<close>

record 'e prompt_cache =
  pc_prefix :: string
  pc_redis :: "string \<rightharpoonup> 'e \<times> int"

definition Key :: "(string \<Rightarrow> string) \<Rightarrow> (string \<Rightarrow> 'n option) \<Rightarrow> ('n \<Rightarrow> string) \<Rightarrow> 'e prompt_cache \<Rightarrow>
    int \<Rightarrow> string \<Rightarrow> string \<Rightarrow> string option" where
  "Key digest num_of num c teamID al body =
     map_option
       (\<lambda>canonical. (if pc_prefix c = [] then ''aiport'' else pc_prefix c) @ '':cache:'' @ show_int teamID @ '':'' @ al @ '':'' @ digest canonical)
       (canonicalize num_of num body)"

text \<open>\<open>New\<close> without an address is a nil cache; \<open>Get\<close> of a nil cache misses and \<open>Set\<close> drops. An entry lives for its
  time to live in whole milliseconds, at least one. \<open>redis_up\<close> says whether the command reaches Redis.\<close>

definition New_cache :: "string \<Rightarrow> string \<Rightarrow> 'e prompt_cache option" where
  "New_cache addr keyPrefix =
     (if addr = [] then None
      else Some \<lparr>pc_prefix = (if keyPrefix = [] then ''aiport'' else keyPrefix), pc_redis = Map.empty\<rparr>)"

datatype 'e lookup = Hit 'e | Miss | LookupError

definition Get :: "bool \<Rightarrow> int \<Rightarrow> string \<Rightarrow> 'e prompt_cache option \<Rightarrow> 'e lookup" where
  "Get redis_up now_ms k c =
     (case c of
        None \<Rightarrow> Miss
      | Some pc \<Rightarrow>
          if \<not> redis_up then LookupError
          else (case pc_redis pc k of
                  None \<Rightarrow> Miss
                | Some (e, ex) \<Rightarrow> if ex \<le> now_ms then Miss else Hit e))"

definition Set :: "bool \<Rightarrow> int \<Rightarrow> string \<Rightarrow> 'e \<Rightarrow> duration \<Rightarrow> 'e prompt_cache option \<Rightarrow> bool \<times> 'e prompt_cache option" where
  "Set redis_up now_ms k e ttl c =
     (case c of
        None \<Rightarrow> (True, None)
      | Some pc \<Rightarrow>
          if ttl \<le> 0 then (True, c)
          else if \<not> redis_up then (False, c)
          else (True, Some (pc\<lparr>pc_redis := (pc_redis pc)(k \<mapsto> (e, now_ms + max 1 (ttl div Millisecond)))\<rparr>)))"

definition Delete :: "bool \<Rightarrow> string \<Rightarrow> 'e prompt_cache option \<Rightarrow> bool \<times> 'e prompt_cache option" where
  "Delete redis_up k c =
     (case c of
        None \<Rightarrow> (True, None)
      | Some pc \<Rightarrow> if \<not> redis_up then (False, c) else (True, Some (pc\<lparr>pc_redis := (pc_redis pc)(k := None)\<rparr>)))"

definition FlushAlias :: "(string \<Rightarrow> string \<Rightarrow> bool) \<Rightarrow> bool \<Rightarrow> int \<Rightarrow> string \<Rightarrow> 'e prompt_cache option \<Rightarrow> bool \<times> 'e prompt_cache option" where
  "FlushAlias glob redis_up teamID al c =
     (case c of
        None \<Rightarrow> (True, None)
      | Some pc \<Rightarrow>
          let pattern = pc_prefix pc @ '':cache:'' @ show_int teamID @ '':'' @ al @ '':*'' in
          if \<not> redis_up then (False, c)
          else (True, Some (pc\<lparr>pc_redis := (\<lambda>k. if glob pattern k then None else pc_redis pc k)\<rparr>)))"

text \<open>\<open>cacheParams\<close> and \<open>cacheable\<close> of \<^verbatim>\<open>api/v1.go\<close>: whether a request of an alias is cached, for how long and under which
  key, and whether an answer with these finish reasons may be stored.\<close>

definition cacheParams :: "(string \<Rightarrow> string) \<Rightarrow> (string \<Rightarrow> 'n option) \<Rightarrow> ('n \<Rightarrow> string) \<Rightarrow> 'e prompt_cache option \<Rightarrow> registry \<Rightarrow>
    int \<Rightarrow> string \<Rightarrow> string \<Rightarrow> bool \<times> duration \<times> string" where
  "cacheParams digest num_of num c r teamID al body =
     (case c of
        None \<Rightarrow> (False, 0, [])
      | Some pc \<Rightarrow>
          (case Meta al r of
             None \<Rightarrow> (False, 0, [])
           | Some meta \<Rightarrow>
               if \<not> am_CacheEnabled meta \<or> am_CacheTTLSeconds meta \<le> 0 then (False, 0, [])
               else (case Key digest num_of num pc teamID al body of
                       None \<Rightarrow> (False, 0, [])
                     | Some k \<Rightarrow> (True, am_CacheTTLSeconds meta * Second, k))))"

definition cacheable :: "string list option \<Rightarrow> bool" where
  "cacheable finish_reasons =
     (case finish_reasons of
        None \<Rightarrow> False
      | Some rs \<Rightarrow> rs \<noteq> [] \<and> \<not> list_ex (\<lambda>r. r \<in> set [''tool_calls'', ''function_call'']) rs)"

section \<open>The canonical text is read back\<close>

lemma hexval_hexdigit [simp]: "d < 16 \<Longrightarrow> hexval (hexdigit d) = Some d"
  by (auto simp: hexval_def hexdigit_def Let_def)

lemma hex4_u_escape: "n < 65536 \<Longrightarrow> hex4 (drop 2 (u_escape n) @ xs) = Some (n, xs)"
proof -
  have e: "n = 16 * (n div 16) + n mod 16" "n div 16 = 16 * (n div 16 div 16) + n div 16 mod 16"
    "n div 256 = 16 * (n div 256 div 16) + n div 256 mod 16" by simp_all
  have "n div 16 div 16 = n div 256" "n div 256 div 16 = n div 4096" by (simp_all add: div_mult2_eq [symmetric])
  with e have "4096 * (n div 4096) + 256 * (n div 256 mod 16) + 16 * (n div 16 mod 16) + n mod 16 = n" by linarith
  moreover assume "n < 65536"
  ultimately show ?thesis by (simp add: u_escape_def)
qed

lemma read_chars_u_escape:
  assumes "n < 0xD800"
  shows "read_chars (u_escape n @ xs) = map_option (\<lambda>(s, r). (utf8_bytes n @ s, r)) (read_chars xs)"
proof -
  have "read_u (drop 2 (u_escape n) @ xs) = Some (utf8_bytes n, xs)"
    using assms by (simp add: read_u_def hex4_u_escape)
  then show ?thesis by (simp add: u_escape_def)
qed

lemma read_chars_escape: "read_chars (escape c @ xs) = map_option (\<lambda>(s, r). (c # s, r)) (read_chars xs)"
proof (cases "(of_char c :: nat) < 32 \<or> c \<in> {CHR ''<'', CHR ''>'', CHR ''&''}")
  case True
  then have "(of_char c :: nat) < 0x80" by auto
  then have "utf8_bytes (of_char c) = [c]" "(of_char c :: nat) < 0xD800" by (auto simp: utf8_bytes_def)
  with True show ?thesis by (auto simp: escape_def read_chars_u_escape)
next
  case False
  then show ?thesis by (auto simp: escape_def)
qed

lemma take3_split:
  assumes "take 3 (c # cs) = [a, b, d]"
  obtains r where "c = a" "cs = b # d # r"
proof -
  from assms obtain x y r where "cs = x # y # r" by (cases cs; cases "tl cs") auto
  with assms that show ?thesis by simp
qed

lemma read_write_chars: "read_chars (write_chars s @ CHR 0x22 # rest) = Some (s, rest)"
proof (induction s rule: write_chars.induct)
  case (2 c cs)
  show ?case
  proof (cases "take 3 (c # cs) = [CHR 0xE2, CHR 0x80, CHR 0xA8]")
    case True
    then obtain r where r: "c = CHR 0xE2" "cs = CHR 0x80 # CHR 0xA8 # r" by (rule take3_split)
    have u: "utf8_bytes 0x2028 = [CHR 0xE2, CHR 0x80, CHR 0xA8]" by (simp add: utf8_bytes_def char_of_def bit_simps)
    have "read_chars (write_chars r @ CHR 0x22 # rest) = Some (r, rest)" using 2(1) [OF True] r by simp
    then show ?thesis unfolding r by (simp add: read_chars_u_escape u)
  next
    case F: False
    show ?thesis
    proof (cases "take 3 (c # cs) = [CHR 0xE2, CHR 0x80, CHR 0xA9]")
      case True
      then obtain r where r: "c = CHR 0xE2" "cs = CHR 0x80 # CHR 0xA9 # r" by (rule take3_split)
      have u: "utf8_bytes 0x2029 = [CHR 0xE2, CHR 0x80, CHR 0xA9]" by (simp add: utf8_bytes_def char_of_def bit_simps)
      have "read_chars (write_chars r @ CHR 0x22 # rest) = Some (r, rest)" using 2(2) [OF F True] r by simp
      then show ?thesis unfolding r by (simp add: read_chars_u_escape u)
    next
      case False
      with F have "write_chars (c # cs) = escape c @ write_chars cs" by (simp only: write_chars.simps if_False)
      with 2(3) [OF F False] show ?thesis by (simp add: read_chars_escape)
    qed
  qed
qed simp

lemma read_write_string: "\<exists>cs. write_string s @ rest = CHR 0x22 # cs \<and> read_chars cs = Some (s, rest)"
  using read_write_chars [of s rest] by (simp add: write_string_def)

text \<open>A value with its fields in order, and values whose objects have distinct keys.\<close>

fun sorted_form :: "'n any \<Rightarrow> 'n any" where
  "sorted_form (A_arr vs) = A_arr (map sorted_form vs)"
| "sorted_form (A_obj t) = A_obj (map (\<lambda>(k, v). (k, sorted_form v)) (sort_key fst t))"
| "sorted_form v = v"

fun distinct_keys :: "'n any \<Rightarrow> bool" where
  "distinct_keys (A_arr vs) \<longleftrightarrow> (\<forall>v \<in> set vs. distinct_keys v)"
| "distinct_keys (A_obj t) \<longleftrightarrow> distinct (map fst t) \<and> (\<forall>(k, v) \<in> set t. distinct_keys v)"
| "distinct_keys v \<longleftrightarrow> True"

definition ends_number :: "string \<Rightarrow> bool" where
  "ends_number rest \<longleftrightarrow> takeWhile num_char rest = []"

lemma ends_number_simps [simp]:
  "ends_number []" "ends_number (CHR '','' # r)" "ends_number (CHR '']'' # r)" "ends_number (CHR ''}'' # r)"
  by (simp_all add: ends_number_def num_char_def)

definition reads_back :: "('n \<Rightarrow> string) \<Rightarrow> (string \<Rightarrow> 'n option) \<Rightarrow> 'n any \<Rightarrow> bool" where
  "reads_back num num_of v \<longleftrightarrow>
     (\<forall>f rest. length (marshalSorted num v) \<le> f \<longrightarrow> ends_number rest \<longrightarrow>
        read_value num_of f (marshalSorted num v @ rest) = Some (sorted_form v, rest))"

lemma join_Cons: "xs \<noteq> [] \<Longrightarrow> join (x # xs) = x @ CHR '','' # join xs"
  by (cases xs) auto

lemma read_items_join:
  assumes "vs \<noteq> []" and "\<And>v. v \<in> set vs \<Longrightarrow> reads_back num num_of v"
    and "length (join (map (marshalSorted num) vs)) < f"
  shows "read_items num_of f (join (map (marshalSorted num) vs) @ CHR '']'' # rest) = Some (map sorted_form vs, rest)"
  using assms
proof (induction vs arbitrary: f)
  case (Cons v vs)
  from Cons.prems(3) obtain f' where f: "f = Suc f'" by (cases f) auto
  have v: "reads_back num num_of v" using Cons.prems(2) by simp
  show ?case
  proof (cases "vs = []")
    case True
    with v Cons.prems(3) f show ?thesis by (simp add: reads_back_def skip_space_def)
  next
    case False
    then have j: "join (map (marshalSorted num) (v # vs)) = marshalSorted num v @ CHR '','' # join (map (marshalSorted num) vs)"
      by (simp add: join_Cons)
    have "read_items num_of f' (join (map (marshalSorted num) vs) @ CHR '']'' # rest) = Some (map sorted_form vs, rest)"
      using Cons.IH [OF False, of f'] Cons.prems(2,3) f j by simp
    with v Cons.prems(3) f j show ?thesis by (simp add: reads_back_def skip_space_def)
  qed
qed simp

abbreviation member_text :: "('n \<Rightarrow> string) \<Rightarrow> string \<times> 'n any \<Rightarrow> string" where
  "member_text num \<equiv> \<lambda>(k, v). write_string k @ CHR '':'' # marshalSorted num v"

lemma read_members_join:
  assumes "t \<noteq> []" and "\<And>k v. (k, v) \<in> set t \<Longrightarrow> reads_back num num_of v" and "distinct (map fst t)"
    and "length (join (map (member_text num) t)) < f"
  shows "read_members num_of f (join (map (member_text num) t) @ CHR ''}'' # rest) = Some (map (\<lambda>(k, v). (k, sorted_form v)) t, rest)"
  using assms
proof (induction t arbitrary: f)
  case (Cons kv t)
  obtain k v where kv: "kv = (k, v)" by (cases kv)
  from Cons.prems(4) obtain f' where f: "f = Suc f'" by (cases f) auto
  have v: "reads_back num num_of v" using Cons.prems(2) [of k v] kv by simp
  show ?case
  proof (cases "t = []")
    case True
    with v Cons.prems(4) f kv show ?thesis
      by (simp add: reads_back_def skip_space_def write_string_def read_write_chars)
  next
    case False
    then have j: "join (map (member_text num) (kv # t)) = write_string k @ CHR '':'' # marshalSorted num v @ CHR '','' # join (map (member_text num) t)"
      by (simp add: join_Cons kv)
    have "read_members num_of f' (join (map (member_text num) t) @ CHR ''}'' # rest) = Some (map (\<lambda>(k, v). (k, sorted_form v)) t, rest)"
    proof (rule Cons.IH [OF False])
      show "reads_back num num_of v" if "(k, v) \<in> set t" for k v using Cons.prems(2) [of k v] that by simp
    qed (use Cons.prems(3,4) f j in auto)
    moreover have "k \<notin> fst ` set (map (\<lambda>(k, v). (k, sorted_form v)) t)" using Cons.prems(3) kv by force
    ultimately show ?thesis using v Cons.prems(4) f j kv
      by (simp add: reads_back_def skip_space_def write_string_def read_write_chars add_field_def)
  qed
qed simp

lemma marshal_not_closing: "float_text num num_of \<Longrightarrow> \<exists>c cs. marshalSorted num v = c # cs \<and> c \<notin> set '' ]}'' \<and> c \<notin> {CHR 0x09, CHR 0x0A, CHR 0x0D}"
proof (cases v)
  case (A_num n)
  assume "float_text num num_of"
  then have "case num n of [] \<Rightarrow> False | c # cs \<Rightarrow> c \<in> set ''-0123456789''" by (simp add: float_text_def)
  with A_num show ?thesis by (cases "num n") auto
qed (auto simp: write_string_def)

lemma read_number:
  assumes "float_text num num_of" and "ends_number rest" and "num n \<noteq> []"
  shows "takeWhile num_char (num n @ rest) = num n" "dropWhile num_char (num n @ rest) = rest"
proof -
  have "list_all num_char (num n)" using assms(1) by (simp add: float_text_def)
  then show "takeWhile num_char (num n @ rest) = num n" "dropWhile num_char (num n @ rest) = rest"
    using assms(2) by (auto simp: ends_number_def list_all_iff takeWhile_eq_Nil_iff dropWhile_eq_self_iff)
qed

lemma reads_back_num:
  assumes "float_text num num_of"
  shows "reads_back num num_of (A_num n)"
  unfolding reads_back_def
proof (intro allI impI)
  fix f rest
  assume f: "length (marshalSorted num (A_num n)) \<le> f" and rest: "ends_number rest"
  from assms have "case num n of [] \<Rightarrow> False | c # cs \<Rightarrow> c \<in> set ''-0123456789''" by (simp add: float_text_def)
  then obtain c cs where n: "num n = c # cs" and c: "c \<in> set ''-0123456789''" by (cases "num n") auto
  from f n obtain f' where f': "f = Suc f'" by (cases f) auto
  have "num_of (num n) = Some n" using assms by (simp add: float_text_def)
  with read_number [OF assms rest, of n] n
  have "num_of (takeWhile num_char (c # cs @ rest)) = Some n" "dropWhile num_char (c # cs @ rest) = rest" by simp_all
  moreover have "c \<noteq> CHR 0x22" "c \<noteq> CHR ''[''" "c \<noteq> CHR ''{''" "c \<noteq> CHR ''n''" "c \<noteq> CHR ''t''" "c \<noteq> CHR ''f''"
    "c \<notin> {CHR '' '', CHR 0x09, CHR 0x0A, CHR 0x0D}" using c by auto
  ultimately show "read_value num_of f (marshalSorted num (A_num n) @ rest) = Some (sorted_form (A_num n), rest)"
    by (simp add: skip_space_def f' n)
qed

lemma reads_back_word: "reads_back num num_of A_nil" "reads_back num num_of (A_bool b)"
proof -
  have "read_value num_of (Suc f) (''null'' @ rest) = Some (A_nil, rest)"
    "read_value num_of (Suc f) (''true'' @ rest) = Some (A_bool True, rest)"
    "read_value num_of (Suc f) (''false'' @ rest) = Some (A_bool False, rest)" for f rest
    by (simp_all add: skip_space_def)
  then show "reads_back num num_of A_nil" "reads_back num num_of (A_bool b)"
    unfolding reads_back_def by (auto dest!: Suc_le_D simp del: read_value.simps)
qed

lemma reads_back_marshal:
  assumes fl: "float_text num num_of"
  shows "distinct_keys v \<Longrightarrow> reads_back num num_of v"
proof (induction v)
  case (A_arr vs)
  have "reads_back num num_of v" if "v \<in> set vs" for v using A_arr that by simp
  note items = read_items_join [of vs num num_of, OF _ this]
  show ?case unfolding reads_back_def
  proof (intro allI impI)
    fix f rest
    assume f: "length (marshalSorted num (A_arr vs)) \<le> f"
    then obtain f' where f': "f = Suc f'" by (cases f) auto
    show "read_value num_of f (marshalSorted num (A_arr vs) @ rest) = Some (sorted_form (A_arr vs), rest)"
    proof (cases vs)
      case (Cons w ws)
      then obtain c cs where "join (map (marshalSorted num) vs) = c # cs" "c \<notin> set '' ]}''" "c \<notin> {CHR 0x09, CHR 0x0A, CHR 0x0D}"
        using marshal_not_closing [OF fl, of w] by (cases ws) auto
      then show ?thesis using items [of f' rest] Cons f f' by (simp add: skip_space_def)
    qed (simp add: f' skip_space_def)
  qed
next
  case (A_obj t)
  let ?t = "sort_key fst t"
  have "reads_back num num_of v" if "(k, v) \<in> set ?t" for k v using A_obj that by fastforce
  note members = read_members_join [of ?t num num_of, OF _ this]
  have d: "distinct (map fst ?t)" using A_obj.prems by (simp add: distinct_map inj_on_def)
  show ?case unfolding reads_back_def
  proof (intro allI impI)
    fix f rest
    assume f: "length (marshalSorted num (A_obj t)) \<le> f"
    then obtain f' where f': "f = Suc f'" by (cases f) auto
    show "read_value num_of f (marshalSorted num (A_obj t) @ rest) = Some (sorted_form (A_obj t), rest)"
    proof (cases ?t)
      case (Cons w ws)
      then obtain cs where "join (map (member_text num) ?t) = CHR 0x22 # cs"
        by (cases ws; cases w) (auto simp: write_string_def)
      then show ?thesis using members [where f = f' and rest = rest] d Cons f f' by (simp add: skip_space_def)
    next
      case Nil
      then have "t = []" by (metis length_0_conv length_sort)
      then show ?thesis by (simp add: f' skip_space_def)
    qed
  qed
next
  case A_nil
  show ?case by (rule reads_back_word)
next
  case (A_bool b)
  show ?case by (rule reads_back_word)
next
  case (A_str s)
  show ?case unfolding reads_back_def
  proof (intro allI impI)
    fix f rest
    assume "length (marshalSorted num (A_str s)) \<le> f"
    then obtain f' where "f = Suc f'" by (cases f) (auto simp: write_string_def)
    then show "read_value num_of f (marshalSorted num (A_str s) @ rest) = Some (sorted_form (A_str s), rest)"
      by (simp add: write_string_def skip_space_def read_write_chars)
  qed
next
  case (A_num n)
  show ?case by (rule reads_back_num [OF fl])
qed

section \<open>What the decoder produces\<close>

lemma distinct_keys_add_field:
  "distinct_keys (A_obj t) \<Longrightarrow> distinct_keys v \<Longrightarrow> distinct_keys (A_obj (add_field k v t))"
  by (auto simp: add_field_def)

lemma read_distinct_keys:
  "read_value num_of f s = Some (v, r) \<Longrightarrow> distinct_keys v"
  "read_items num_of f s = Some (vs, r) \<Longrightarrow> \<forall>v \<in> set vs. distinct_keys v"
  "read_members num_of f s = Some (t, r) \<Longrightarrow> distinct_keys (A_obj t)"
proof (induction num_of f s and num_of f s and num_of f s arbitrary: v r and vs r and t r rule: read_value_read_items_read_members.induct)
  case (2 num_of f s)
  then show ?case by (auto split: list.splits if_splits)
next
  case (4 num_of f s)
  then show ?case by (auto split: option.splits prod.splits list.splits if_splits)
next
  case (6 num_of f s)
  then show ?case
    by (auto split: option.splits prod.splits list.splits if_splits simp del: distinct_keys.simps(2) intro!: distinct_keys_add_field)
      simp_all
qed auto

lemma Unmarshal_distinct_keys: "Unmarshal num_of s = Some raw \<Longrightarrow> distinct_keys (A_obj raw)"
  using read_distinct_keys(1) [of num_of "Suc (length s)" s]
  by (auto simp: Unmarshal_def simp del: read_value.simps split: option.splits prod.splits if_splits any.splits)

lemma map_fst_set_field [simp]: "map fst (set_field k v t) = map fst t"
  by (auto simp: set_field_def)

lemma distinct_keys_set_field:
  "distinct_keys (A_obj t) \<Longrightarrow> distinct_keys v \<Longrightarrow> distinct_keys (A_obj (set_field k v t))"
  by (auto simp: set_field_def comp_def case_prod_beta split: if_splits)

lemma distinct_keys_lookup: "distinct_keys (A_obj t) \<Longrightarrow> map_of t k = Some v \<Longrightarrow> distinct_keys v"
  by (auto dest: map_of_SomeD)

lemma distinct_keys_filter: "distinct_keys (A_obj t) \<Longrightarrow> distinct_keys (A_obj (filter P t))"
  by (auto simp: distinct_map_filter)

lemma distinct_keys_normalize_message: "distinct_keys v \<Longrightarrow> distinct_keys (normalize_message v)"
  by (cases v rule: normalize_message.cases)
    (auto simp del: distinct_keys.simps intro: distinct_keys_set_field simp: distinct_keys.simps(3-) split: option.splits any.splits)

lemma distinct_keys_canonical_value:
  assumes "distinct_keys (A_obj raw)"
  shows "distinct_keys (canonical_value raw)"
proof -
  define raw1 where "raw1 = filter (\<lambda>(k, v). k \<notin> set ignored_fields) raw"
  define raw2 where "raw2 = (case map_of raw1 ''messages'' of
    Some (A_arr msgs) \<Rightarrow> set_field ''messages'' (A_arr (map normalize_message msgs)) raw1 | _ \<Rightarrow> raw1)"
  have 1: "distinct_keys (A_obj raw1)" unfolding raw1_def by (rule distinct_keys_filter [OF assms])
  have 2: "distinct_keys (A_obj raw2)"
  proof (cases "\<exists>msgs. map_of raw1 ''messages'' = Some (A_arr msgs)")
    case True
    then obtain msgs where m: "map_of raw1 ''messages'' = Some (A_arr msgs)" by blast
    have "distinct_keys (A_arr (map normalize_message msgs))"
      using distinct_keys_lookup [OF 1 m] distinct_keys_normalize_message by auto
    then show ?thesis using distinct_keys_set_field [OF 1] m by (simp add: raw2_def del: distinct_keys.simps)
  next
    case False
    then have "raw2 = raw1" by (auto simp: raw2_def split: option.splits any.splits)
    with 1 show ?thesis by simp
  qed
  have "canonical_value raw = A_obj (case map_of raw2 ''input'' of
      Some (A_str input) \<Rightarrow> set_field ''input'' (A_str (normalizeWhitespace input)) raw2 | _ \<Rightarrow> raw2)"
    unfolding canonical_value_def Let_def raw2_def raw1_def by (rule refl)
  then show ?thesis using 2 distinct_keys_set_field [OF 2] by (simp del: distinct_keys.simps add: distinct_keys.simps(3-) split: option.splits any.splits)
qed

section \<open>Equal texts are equal requests\<close>

lemma sort_key_stable: "sorted (map fst t) \<Longrightarrow> sort_key fst t = t"
  by (rule sort_key_id_if_sorted)

lemma marshal_sorted_form: "marshalSorted num (sorted_form v) = marshalSorted num v"
proof (induction v)
  case (A_arr vs)
  then show ?case by (simp add: comp_def cong: map_cong)
next
  case (A_obj t)
  let ?t = "map (\<lambda>(k, v). (k, sorted_form v)) (sort_key fst t)"
  have f: "map fst ?t = map fst (sort_key fst t)" by (simp add: comp_def case_prod_beta)
  then have "sort_key fst ?t = ?t" by (intro sort_key_stable) (simp only: sorted_sort_key)
  moreover have "map (member_text num) ?t = map (member_text num) (sort_key fst t)"
    using A_obj by (auto simp: comp_def)
  ultimately show ?case by (simp only: sorted_form.simps marshalSorted.simps)
qed auto

lemma read_whole:
  assumes "float_text num num_of" and "distinct_keys v"
  shows "read_value num_of (Suc (length (marshalSorted num v))) (marshalSorted num v) = Some (sorted_form v, [])"
  using reads_back_marshal [OF assms] unfolding reads_back_def
  by (metis append_Nil2 ends_number_simps(1) le_SucI order_refl)

lemma marshal_equal_iff:
  assumes "float_text num num_of" and "distinct_keys v" and "distinct_keys w"
  shows "marshalSorted num v = marshalSorted num w \<longleftrightarrow> sorted_form v = sorted_form w"
proof
  assume "marshalSorted num v = marshalSorted num w"
  then show "sorted_form v = sorted_form w"
    using read_whole [OF assms(1,2)] read_whole [OF assms(1,3)] by simp
next
  assume "sorted_form v = sorted_form w"
  then show "marshalSorted num v = marshalSorted num w" by (metis marshal_sorted_form)
qed

lemma canonicalize_Some_iff:
  "canonicalize num_of num body = Some c \<longleftrightarrow> (\<exists>raw. Unmarshal num_of body = Some raw \<and> c = marshalSorted num (canonical_value raw))"
  by (auto simp: canonicalize_def)

text \<open>C33: The canonical text of a request body is itself JSON and loses nothing of what the cache compares: for every body
  that parses, the canonical text exists, and parsing it gives the fields of the normalised request in key order. So two
  bodies share a canonical text only when they normalise to the same request.\<close>

theorem canonical_text_reads_back:
  assumes "float_text num num_of" and "Unmarshal num_of body = Some raw"
  shows "\<exists>c t. canonicalize num_of num body = Some c \<and> Unmarshal num_of c = Some t \<and> A_obj t = sorted_form (canonical_value raw)"
proof -
  let ?v = "canonical_value raw"
  have "distinct_keys ?v" by (rule distinct_keys_canonical_value [OF Unmarshal_distinct_keys [OF assms(2)]])
  note r = read_whole [OF assms(1) this]
  obtain t where "sorted_form ?v = A_obj t" by (simp add: canonical_value_def Let_def)
  with r have "Unmarshal num_of (marshalSorted num ?v) = Some t" by (simp add: Unmarshal_def skip_space_def del: read_value.simps)
  with assms(2) \<open>sorted_form ?v = A_obj t\<close> show ?thesis by (auto simp: canonicalize_def)
qed

section \<open>Keys\<close>

lemma colon_not_in_show_int: "CHR '':'' \<notin> set (show_int i)"
  using set_show_nat [of "CHR '':''"] by (auto simp: show_int_def)

lemma split_at_colon:
  assumes "a @ CHR '':'' # xs = b @ CHR '':'' # ys" and "CHR '':'' \<notin> set a" and "CHR '':'' \<notin> set b"
  shows "a = b \<and> xs = ys"
proof -
  have split: "takeWhile (\<lambda>c. c \<noteq> CHR '':'') (w @ CHR '':'' # zs) = w" "dropWhile (\<lambda>c. c \<noteq> CHR '':'') (w @ CHR '':'' # zs) = CHR '':'' # zs"
    if "CHR '':'' \<notin> set w" for w zs
    using that by (induction w) auto
  show ?thesis using split [OF assms(2), of xs] split [OF assms(3), of ys] assms(1) by simp
qed

lemma key_parts:
  assumes "show_int i @ CHR '':'' # a @ CHR '':'' # d = show_int j @ CHR '':'' # b @ CHR '':'' # e" and "length d = length e"
  shows "i = j \<and> a = b \<and> d = e"
proof -
  have "show_int i = show_int j \<and> a @ CHR '':'' # d = b @ CHR '':'' # e"
    by (rule split_at_colon [OF assms(1) colon_not_in_show_int colon_not_in_show_int])
  with assms(2) show ?thesis by (simp add: show_int_inject append_eq_append_conv)
qed

text \<open>C34: Two requests use the same cache key exactly when they come from the same team, name the same alias and normalise to
  the same request (fields other than \<^verbatim>\<open>stream\<close>, \<^verbatim>\<open>user\<close>, \<^verbatim>\<open>request_id\<close>, \<^verbatim>\<open>metadata\<close> and \<^verbatim>\<open>stream_options\<close>, up to field order and runs of
  blanks in the prompt), provided the digest does not collide on the two canonical texts. A colon in an alias cannot
  confuse two keys.\<close>

theorem same_key_iff_same_request:
  assumes "float_text num num_of" and "Unmarshal num_of b1 = Some raw1" and "Unmarshal num_of b2 = Some raw2"
    and "\<And>x y. length (digest x) = length (digest y)"
    and "digest (marshalSorted num (canonical_value raw1)) = digest (marshalSorted num (canonical_value raw2)) \<Longrightarrow>
      marshalSorted num (canonical_value raw1) = marshalSorted num (canonical_value raw2)"
  shows "Key digest num_of num c t1 a1 b1 = Key digest num_of num c t2 a2 b2 \<longleftrightarrow>
    t1 = t2 \<and> a1 = a2 \<and> sorted_form (canonical_value raw1) = sorted_form (canonical_value raw2)"
proof -
  have d: "distinct_keys (canonical_value raw1)" "distinct_keys (canonical_value raw2)"
    by (rule distinct_keys_canonical_value [OF Unmarshal_distinct_keys], rule assms(2) assms(3))+
  have "Key digest num_of num c t1 a1 b1 = Key digest num_of num c t2 a2 b2 \<longleftrightarrow>
    t1 = t2 \<and> a1 = a2 \<and> marshalSorted num (canonical_value raw1) = marshalSorted num (canonical_value raw2)"
  proof
    assume "Key digest num_of num c t1 a1 b1 = Key digest num_of num c t2 a2 b2"
    then have "show_int t1 @ CHR '':'' # a1 @ CHR '':'' # digest (marshalSorted num (canonical_value raw1)) =
        show_int t2 @ CHR '':'' # a2 @ CHR '':'' # digest (marshalSorted num (canonical_value raw2))"
      by (simp add: Key_def canonicalize_def assms(2,3))
    from key_parts [OF this assms(4)] assms(5)
    show "t1 = t2 \<and> a1 = a2 \<and> marshalSorted num (canonical_value raw1) = marshalSorted num (canonical_value raw2)" by simp
  qed (simp add: Key_def canonicalize_def assms(2,3))
  then show ?thesis by (simp only: marshal_equal_iff [OF assms(1) d])
qed

section \<open>Entries live for their time to live\<close>

theorem cached_until_expiry:
  assumes "0 < ttl" and "Set True t0 k e ttl (Some pc) = (ok, c)"
  shows "ok \<and> Get True t k' c = (if k' = k then if t < t0 + max 1 (ttl div Millisecond) then Hit e else Miss else Get True t k' (Some pc))"
proof -
  have "ok" and c: "c = Some (pc\<lparr>pc_redis := (pc_redis pc)(k \<mapsto> (e, t0 + max 1 (ttl div Millisecond)))\<rparr>)"
    using assms by (simp_all add: Set_def)
  then show ?thesis by (simp add: Get_def linorder_not_le [symmetric])
qed

lemma nil_cache_never_hits: "Get up t k None = Miss" "Set up t k e ttl None = (True, None)"
  by (simp_all add: Get_def Set_def)

lemma lost_cache_is_unchanged: "Set False t k e ttl c = (ok, c') \<Longrightarrow> c' = c"
  by (auto simp: Set_def split: option.splits if_splits)

text \<open>What the gateway asks of the pattern match: a pattern of plain characters and a final star matches the keys that begin
  with those characters.\<close>

definition plain_glob :: "(string \<Rightarrow> string \<Rightarrow> bool) \<Rightarrow> bool" where
  "plain_glob glob \<longleftrightarrow>
     (\<forall>p k. (\<forall>c \<in> set p. c \<notin> set ''*?[]^-'' \<and> c \<noteq> CHR 0x5C) \<longrightarrow> glob (p @ ''*'') k = (take (length p) k = p))"

text \<open>Flushing an alias removes its entries, and those of every alias of the team that extends its name with a colon.\<close>

lemma flush_removes_by_prefix:
  assumes "plain_glob glob" and "\<forall>c \<in> set (pc_prefix pc @ al). c \<notin> set ''*?[]^-'' \<and> c \<noteq> CHR 0x5C" and "0 \<le> teamID"
    and "p = pc_prefix pc @ '':cache:'' @ show_int teamID @ '':'' @ al @ '':''"
  shows "\<exists>pc'. FlushAlias glob True teamID al (Some pc) = (True, Some pc') \<and>
    (\<forall>k. pc_redis pc' k = (if take (length p) k = p then None else pc_redis pc k))"
proof -
  have "c \<notin> set ''*?[]^-'' \<and> c \<noteq> CHR 0x5C" if "c \<in> set (show_int teamID)" for c
    using set_show_nat [of c "nat teamID"] that assms(3) by (auto simp: show_int_def)
  with assms(2) have "\<forall>c \<in> set p. c \<notin> set ''*?[]^-'' \<and> c \<noteq> CHR 0x5C" unfolding assms(4) by auto
  with assms(1) have g: "glob (p @ ''*'') k = (take (length p) k = p)" for k unfolding plain_glob_def by blast
  have pat: "pc_prefix pc @ '':cache:'' @ show_int teamID @ '':'' @ al @ '':*'' = p @ ''*''" unfolding assms(4) by simp
  have "FlushAlias glob True teamID al (Some pc) =
      (True, Some (pc\<lparr>pc_redis := (\<lambda>k. if glob (p @ ''*'') k then None else pc_redis pc k)\<rparr>))"
    unfolding FlushAlias_def Let_def option.case pat by simp
  then show ?thesis by (simp add: g)
qed

section \<open>Concrete requests\<close>

text \<open>Numbers written as decimal integers.\<close>

definition read_int :: "string \<Rightarrow> int option" where
  "read_int s = (case s of [] \<Rightarrow> None | c # cs \<Rightarrow> if c = CHR ''-'' then Some (- int (digits_value cs 0)) else Some (int (digits_value s 0)))"

lemma show_nat_Cons: "\<exists>c cs. show_nat n = c # cs \<and> 48 \<le> (of_char c :: nat) \<and> (of_char c :: nat) \<le> 57"
proof (cases "show_nat n")
  case Nil
  then show ?thesis by (subst (asm) show_nat.simps) (simp split: if_splits)
next
  case (Cons c cs)
  then show ?thesis using set_show_nat [of c n] by auto
qed

lemma digit_char:
  assumes "48 \<le> (of_char c :: nat)" "(of_char c :: nat) \<le> 57"
  shows "c \<in> set ''0123456789''"
proof -
  have "(of_char c :: nat) = 48 \<or> of_char c = (49::nat) \<or> of_char c = (50::nat) \<or> of_char c = (51::nat) \<or> of_char c = (52::nat) \<or>
    of_char c = (53::nat) \<or> of_char c = (54::nat) \<or> of_char c = (55::nat) \<or> of_char c = (56::nat) \<or> of_char c = (57::nat)"
    using assms by presburger
  then have "c = char_of (48::nat) \<or> c = char_of (49::nat) \<or> c = char_of (50::nat) \<or> c = char_of (51::nat) \<or> c = char_of (52::nat) \<or>
    c = char_of (53::nat) \<or> c = char_of (54::nat) \<or> c = char_of (55::nat) \<or> c = char_of (56::nat) \<or> c = char_of (57::nat)"
    by (metis char_of_char)
  then show ?thesis by (simp add: char_of_def bit_simps)
qed

lemma float_text_int: "float_text show_int read_int"
proof -
  have ds: "c \<in> set ''0123456789''" if "c \<in> set (show_nat n)" for c n using set_show_nat [OF that] digit_char by blast
  have *: "case show_nat n of [] \<Rightarrow> False | c # cs \<Rightarrow> c \<in> set ''0123456789''" for n
    using show_nat_Cons [of n] digit_char by auto
  have "list_all num_char (show_nat n)" for n using ds by (fastforce simp: list_all_iff num_char_def)
  moreover have "read_int (show_nat n) = Some (int n)" for n
    using show_nat_Cons [of n] digits_value_show [of n] by (auto simp: read_int_def)
  moreover have "read_int (CHR ''-'' # show_nat n) = Some (- int n)" for n by (simp add: read_int_def digits_value_show)
  ultimately have "(case show_int i of [] \<Rightarrow> False | c # cs \<Rightarrow> c \<in> set ''-0123456789'') \<and> list_all num_char (show_int i) \<and>
      read_int (show_int i) = Some i" for i
    using * [of "nat i"] by (cases "i < 0") (auto simp: show_int_def num_char_def split: list.splits)
  then show ?thesis by (simp add: float_text_def)
qed

definition sample_body :: string where
  "sample_body = [CHR ''{'', CHR 0x22, CHR ''n'', CHR 0x22, CHR '':'', CHR '' '', CHR ''2'', CHR '','',
     CHR 0x22, CHR ''a'', CHR 0x22, CHR '':'', CHR 0x22, CHR ''x'', CHR 0x5C, CHR ''n'', CHR 0x22, CHR ''}'']"

lemma sample_body_parses: "Unmarshal read_int sample_body = Some [(''n'', A_num 2), (''a'', A_str [CHR ''x'', CHR 0x0A])]"
  by (simp add: Unmarshal_def sample_body_def skip_space_def num_char_def read_int_def add_field_def)

theorem canonical_text_reads_back_witness:
  "\<exists>c t. canonicalize read_int show_int sample_body = Some c \<and> Unmarshal read_int c = Some t \<and>
     A_obj t = sorted_form (canonical_value [(''n'', A_num 2), (''a'', A_str [CHR ''x'', CHR 0x0A])])"
  by (rule canonical_text_reads_back [OF float_text_int sample_body_parses])

theorem same_key_iff_same_request_witness:
  "(Key (\<lambda>s. [CHR ''0'']) read_int show_int \<lparr>pc_prefix = ''p'', pc_redis = (Map.empty :: string \<Rightarrow> (unit \<times> int) option)\<rparr> 7 ''a:b'' sample_body =
    Key (\<lambda>s. [CHR ''0'']) read_int show_int \<lparr>pc_prefix = ''p'', pc_redis = (Map.empty :: string \<Rightarrow> (unit \<times> int) option)\<rparr> 7 ''a'' sample_body) = False"
  using same_key_iff_same_request [OF float_text_int sample_body_parses sample_body_parses,
      of "\<lambda>s. [CHR ''0'']" "\<lparr>pc_prefix = ''p'', pc_redis = (Map.empty :: string \<Rightarrow> (unit \<times> int) option)\<rparr>" 7 "''a:b''" 7 "''a''"]
  by simp

end
