(* ===== verification/Callback_Bus.thy ===== *)
theory Callback_Bus
  imports Gw_Prelude
begin

text \<open>
  The event bus (\<^verbatim>\<open>internal/callbacks/callbacks.go\<close>): a bounded queue and a worker for each sink, emitters that never
  wait, and the goroutine that accounts for what is left when the bus stops.

  \<^item> Emitters, workers and the goroutine of \<open>Start\<close> interleave at every channel operation. \<open>b_emits\<close> are the
    calls of \<open>Emit\<close> that hold the read lock, each with the worker it has come to; what takes the write lock
    happens only when there are none.
  \<^item> A sink is its name, and its event types; it may take any time over an event and fail on any. \<open>w_at\<close> is where the
    goroutine of a worker is, and \<open>w_offered\<close> counts the events that matched its filter: nothing reads it.
  \<^item> The body of an event, which the bus never looks at, is of type \<open>'p\<close>. Logging and the flush of a sink are left out.
\<close>

section \<open>State\<close>

record 'p event =
  ev_ID :: string
  ev_Type :: string
  ev_Ts :: "gotime option"
  ev_Payload :: 'p

datatype 'p worker_at = Unstarted | Loop_head | Selecting | Received "'p event" | Sending "'p event" | Returned

record 'p worker =
  w_name :: string
  w_subscribed :: "string list"
  w_subAll :: bool
  w_queue :: "'p event list"
  w_delivered :: nat
  w_failed :: nat
  w_dropped :: nat
  w_circuit :: nat
  w_openUntil :: gotime
  w_at :: "'p worker_at"
  w_offered :: nat

datatype emit_stage = First_try | Make_room | Second_try

record 'p emitter =
  em_event :: "'p event"
  em_worker :: nat
  em_stage :: emit_stage

datatype closer = Not_started | Waiting_cancel | Waiting_workers | Bus_done

record 'p bus =
  b_workers :: "'p worker list"
  b_sealed :: bool
  b_stopped :: bool
  b_cancelled :: bool
  b_closer :: closer
  b_emits :: "'p emitter list"

definition queue_depth :: nat where "queue_depth = 10000"
definition max_callbacks :: nat where "max_callbacks = 32"

section \<open>Operations\<close>

definition NewBus :: "'p bus" where
  "NewBus = \<lparr>b_workers = [], b_sealed = False, b_stopped = False, b_cancelled = False, b_closer = Not_started, b_emits = []\<rparr>"

definition new_worker :: "string \<Rightarrow> string list \<Rightarrow> 'p worker" where
  "new_worker name types =
     \<lparr>w_name = name, w_subscribed = types, w_subAll = (types = []), w_queue = [], w_delivered = 0, w_failed = 0, w_dropped = 0,
      w_circuit = 0, w_openUntil = 0, w_at = Unstarted, w_offered = 0\<rparr>"

definition Register :: "string \<Rightarrow> string list \<Rightarrow> 'p bus \<Rightarrow> string + 'p bus" where
  "Register name types b =
     (if b_sealed b then Inl ''callback registration is closed''
      else if length (b_workers b) \<ge> max_callbacks then Inl ''at most 32 callbacks may be registered''
      else Inr (b\<lparr>b_workers := b_workers b @ [new_worker name types]\<rparr>))"

text \<open>\<open>Start\<close> runs once: registration ends, every worker gets a goroutine, and one more waits for the context.\<close>

definition Start :: "'p bus \<Rightarrow> 'p bus" where
  "Start b =
     (if b_closer b \<noteq> Not_started then b
      else b\<lparr>b_sealed := True, b_workers := map (\<lambda>w. w\<lparr>w_at := Loop_head\<rparr>) (b_workers b), b_closer := Waiting_cancel\<rparr>)"

definition stamp :: "gotime \<Rightarrow> 'p event \<Rightarrow> 'p event" where
  "stamp now e =
     (let e1 = (if ev_ID e = [] then e\<lparr>ev_ID := ''evt_'' @ show_int now\<rparr> else e)
      in if ev_Ts e1 = None then e1\<lparr>ev_Ts := Some now\<rparr> else e1)"

definition drop_event :: "'p worker \<Rightarrow> 'p worker" where
  "drop_event w = w\<lparr>w_dropped := w_dropped w + 1\<rparr>"

definition offer :: "'p worker \<Rightarrow> 'p worker" where
  "offer w = w\<lparr>w_offered := w_offered w + 1\<rparr>"

definition enqueue :: "'p event \<Rightarrow> 'p worker \<Rightarrow> 'p worker" where
  "enqueue e w = w\<lparr>w_queue := w_queue w @ [e]\<rparr>"

definition subscribes :: "'p event \<Rightarrow> 'p worker \<Rightarrow> bool" where
  "subscribes e w \<longleftrightarrow> w_subAll w \<or> ev_Type e \<in> set (w_subscribed w)"

text \<open>One operation of \<open>Emit\<close> on a worker; \<open>None\<close> when the loop goes on to the next one.\<close>

fun emit_worker :: "bool \<Rightarrow> 'p event \<Rightarrow> emit_stage \<Rightarrow> 'p worker \<Rightarrow> 'p worker \<times> emit_stage option" where
  "emit_worker stopped e First_try w =
     (if \<not> subscribes e w then (w, None)
      else if stopped then (drop_event (offer w), None)
      else if length (w_queue w) < queue_depth then (enqueue e (offer w), None)
      else (w, Some Make_room))"
| "emit_worker stopped e Make_room w =
     (case w_queue w of
        [] \<Rightarrow> (w, Some Second_try)
      | _ # q \<Rightarrow> (drop_event (w\<lparr>w_queue := q\<rparr>), Some Second_try))"
| "emit_worker stopped e Second_try w =
     (if length (w_queue w) < queue_depth then (enqueue e (offer w), None)
      else (drop_event (offer w), None))"

definition emit_begin :: "gotime \<Rightarrow> 'p event \<Rightarrow> 'p bus \<Rightarrow> 'p bus" where
  "emit_begin now e b = b\<lparr>b_emits := \<lparr>em_event = stamp now e, em_worker = 0, em_stage = First_try\<rparr> # b_emits b\<rparr>"

definition emit_step :: "nat \<Rightarrow> 'p bus \<Rightarrow> 'p bus" where
  "emit_step k b =
     (let em = b_emits b ! k; i = em_worker em in
      if i < length (b_workers b)
      then (case emit_worker (b_stopped b) (em_event em) (em_stage em) (b_workers b ! i) of
              (w, None) \<Rightarrow>
                b\<lparr>b_workers := (b_workers b)[i := w],
                  b_emits := (b_emits b)[k := em\<lparr>em_worker := i + 1, em_stage := First_try\<rparr>]\<rparr>
            | (w, Some st) \<Rightarrow>
                b\<lparr>b_workers := (b_workers b)[i := w], b_emits := (b_emits b)[k := em\<lparr>em_stage := st\<rparr>]\<rparr>)
      else b\<lparr>b_emits := take k (b_emits b) @ drop (Suc k) (b_emits b)\<rparr>)"

text \<open>\<open>run\<close>, one operation of the worker's goroutine. \<open>take\<close> is the choice of \<open>select\<close>, \<open>failed\<close> the answer of the sink.\<close>

fun run_step :: "bool \<Rightarrow> gotime \<Rightarrow> bool \<Rightarrow> bool \<Rightarrow> 'p worker \<Rightarrow> 'p worker option" where
  "run_step cancelled now takes failed w =
     (case w_at w of
        Unstarted \<Rightarrow> None
      | Loop_head \<Rightarrow> Some (w\<lparr>w_at := (if cancelled then Returned else Selecting)\<rparr>)
      | Selecting \<Rightarrow>
          if takes then (case w_queue w of [] \<Rightarrow> None | e # q \<Rightarrow> Some (w\<lparr>w_queue := q, w_at := Received e\<rparr>))
          else if cancelled then Some (w\<lparr>w_at := Returned\<rparr>) else None
      | Received e \<Rightarrow>
          if 0 < w_openUntil w \<and> now < w_openUntil w then Some ((drop_event w)\<lparr>w_at := Loop_head\<rparr>)
          else Some (w\<lparr>w_at := Sending e\<rparr>)
      | Sending e \<Rightarrow>
          if failed
          then Some (if w_circuit w + 1 > 10
                     then w\<lparr>w_failed := w_failed w + 1, w_openUntil := now + 60 * Second, w_circuit := 0, w_at := Loop_head\<rparr>
                     else w\<lparr>w_failed := w_failed w + 1, w_circuit := w_circuit w + 1, w_at := Loop_head\<rparr>)
          else Some (w\<lparr>w_delivered := w_delivered w + 1, w_circuit := 0, w_at := Loop_head\<rparr>)
      | Returned \<Rightarrow> None)"

text \<open>The end of the goroutine of \<open>Start\<close>: what the workers have left is taken out and counted.\<close>

definition drain_worker :: "'p worker \<Rightarrow> 'p worker" where
  "drain_worker w = w\<lparr>w_queue := [], w_dropped := w_dropped w + length (w_queue w)\<rparr>"

definition close_step :: "'p bus \<Rightarrow> 'p bus option" where
  "close_step b =
     (case b_closer b of
        Not_started \<Rightarrow> None
      | Waiting_cancel \<Rightarrow>
          if b_cancelled b \<and> b_emits b = [] then Some (b\<lparr>b_stopped := True, b_closer := Waiting_workers\<rparr>) else None
      | Waiting_workers \<Rightarrow>
          if list_all (\<lambda>w. w_at w = Returned) (b_workers b)
          then Some (b\<lparr>b_workers := map drain_worker (b_workers b), b_closer := Bus_done\<rparr>) else None
      | Bus_done \<Rightarrow> None)"

record stat =
  st_Name :: string
  st_Delivered :: nat
  st_Failed :: nat
  st_Dropped :: nat
  st_QueueLen :: nat
  st_Circuit :: string

definition worker_stat :: "gotime \<Rightarrow> 'p worker \<Rightarrow> stat" where
  "worker_stat now w =
     \<lparr>st_Name = w_name w, st_Delivered = w_delivered w, st_Failed = w_failed w, st_Dropped = w_dropped w,
      st_QueueLen = length (w_queue w),
      st_Circuit = (if 0 < w_openUntil w \<and> now < w_openUntil w then ''open'' else ''closed'')\<rparr>"

definition Stats :: "gotime \<Rightarrow> 'p bus option \<Rightarrow> stat list" where
  "Stats now b = (case b of None \<Rightarrow> [] | Some b \<Rightarrow> map (worker_stat now) (b_workers b))"

section \<open>Steps\<close>

inductive bus_step :: "'p bus \<Rightarrow> 'p bus \<Rightarrow> bool" where
  register: "b_emits b = [] \<Longrightarrow> Register name types b = Inr b' \<Longrightarrow> bus_step b b'"
| start: "b_emits b = [] \<Longrightarrow> bus_step b (Start b)"
| cancel: "bus_step b (b\<lparr>b_cancelled := True\<rparr>)"
| emit: "bus_step b (emit_begin now e b)"
| emit_next: "k < length (b_emits b) \<Longrightarrow> bus_step b (emit_step k b)"
| run: "i < length (b_workers b) \<Longrightarrow> run_step (b_cancelled b) now takes failed (b_workers b ! i) = Some w \<Longrightarrow>
    bus_step b (b\<lparr>b_workers := (b_workers b)[i := w]\<rparr>)"
| close: "close_step b = Some b' \<Longrightarrow> bus_step b b'"

inductive bus_reach :: "'p bus \<Rightarrow> bool" where
  new: "bus_reach NewBus"
| step: "bus_reach b \<Longrightarrow> bus_step b b' \<Longrightarrow> bus_reach b'"

section \<open>Every event is accounted for\<close>

fun in_flight :: "'p worker_at \<Rightarrow> nat" where
  "in_flight (Received e) = 1"
| "in_flight (Sending e) = 1"
| "in_flight _ = 0"

definition worker_ok :: "'p worker \<Rightarrow> bool" where
  "worker_ok w \<longleftrightarrow>
     w_offered w = w_delivered w + w_failed w + w_dropped w + length (w_queue w) + in_flight (w_at w) \<and>
     length (w_queue w) \<le> queue_depth \<and> w_circuit w \<le> 10"

definition bus_ok :: "'p bus \<Rightarrow> bool" where
  "bus_ok b \<longleftrightarrow>
     (\<forall>w \<in> set (b_workers b). worker_ok w) \<and> length (b_workers b) \<le> max_callbacks \<and>
     (if b_closer b = Not_started then (\<forall>w \<in> set (b_workers b). w_at w = Unstarted)
      else b_sealed b \<and> (\<forall>w \<in> set (b_workers b). w_at w \<noteq> Unstarted)) \<and>
     (b_closer b \<in> {Waiting_workers, Bus_done} \<longrightarrow> b_stopped b) \<and>
     (b_stopped b \<longrightarrow> b_cancelled b \<and> (\<forall>em \<in> set (b_emits b). em_stage em = First_try)) \<and>
     (b_closer b = Bus_done \<longrightarrow> (\<forall>w \<in> set (b_workers b). w_queue w = [] \<and> w_at w = Returned))"

lemma worker_ok_new: "worker_ok (new_worker n ts)"
  by (simp add: worker_ok_def new_worker_def)

lemma emit_worker_ok: "emit_worker stopped e st w = (w', n) \<Longrightarrow> worker_ok w \<Longrightarrow> worker_ok w'"
  by (cases st) (auto simp: worker_ok_def drop_event_def offer_def enqueue_def split: if_splits list.splits)

lemma emit_worker_stopped:
  "emit_worker True e First_try w = (w', n) \<Longrightarrow> n = None \<and> w_queue w' = w_queue w \<and> w_at w' = w_at w"
  by (auto simp: drop_event_def offer_def split: if_splits)

lemma emit_worker_at: "emit_worker stopped e st w = (w', n) \<Longrightarrow> w_at w' = w_at w"
  by (cases st) (auto simp: drop_event_def offer_def enqueue_def split: if_splits list.splits)

lemma run_step_ok: "run_step c now takes failed w = Some w' \<Longrightarrow> worker_ok w \<Longrightarrow> worker_ok w'"
  by (auto simp: worker_ok_def drop_event_def split: worker_at.splits if_splits list.splits)

lemma run_step_returned: "run_step c now takes failed w = Some w' \<Longrightarrow> w_at w \<noteq> Returned"
  by (auto split: worker_at.splits)

lemma run_step_started: "run_step c now takes failed w = Some w' \<Longrightarrow> w_at w \<noteq> Unstarted \<and> w_at w' \<noteq> Unstarted"
  by (auto split: worker_at.splits if_splits list.splits)

lemma drain_worker_ok: "worker_ok w \<Longrightarrow> w_at w = Returned \<Longrightarrow> worker_ok (drain_worker w)"
  by (simp add: worker_ok_def drain_worker_def)

lemma set_update_ok: "\<forall>x \<in> set xs. P x \<Longrightarrow> P y \<Longrightarrow> \<forall>x \<in> set (xs[i := y]). P x"
  using set_update_subset_insert [of xs i y] by blast

lemma emit_step_ok:
  assumes ok: "bus_ok b" and k: "k < length (b_emits b)"
  shows "bus_ok (emit_step k b)"
proof -
  define em where "em = b_emits b ! k"
  define i where "i = em_worker em"
  have em: "em \<in> set (b_emits b)" unfolding em_def using k by simp
  show ?thesis
  proof (cases "i < length (b_workers b)")
    case False
    then have "emit_step k b = b\<lparr>b_emits := take k (b_emits b) @ drop (Suc k) (b_emits b)\<rparr>"
      by (simp add: emit_step_def Let_def em_def i_def)
    with ok show ?thesis by (auto simp: bus_ok_def dest: in_set_takeD in_set_dropD)
  next
    case True
    let ?w = "b_workers b ! i"
    obtain w n where w: "emit_worker (b_stopped b) (em_event em) (em_stage em) ?w = (w, n)" by (metis surj_pair)
    define em' where "em' = (case n of None \<Rightarrow> em\<lparr>em_worker := i + 1, em_stage := First_try\<rparr> | Some st \<Rightarrow> em\<lparr>em_stage := st\<rparr>)"
    have b': "emit_step k b = b\<lparr>b_workers := (b_workers b)[i := w], b_emits := (b_emits b)[k := em']\<rparr>"
      using True w by (simp add: emit_step_def Let_def em_def [symmetric] i_def [symmetric] em'_def split: option.splits)
    have in_b: "?w \<in> set (b_workers b)" using True by simp
    have "worker_ok w" using emit_worker_ok [OF w] ok in_b by (simp add: bus_ok_def)
    then have workers: "\<forall>x \<in> set ((b_workers b)[i := w]). worker_ok x"
      using ok by (intro set_update_ok) (simp_all add: bus_ok_def)
    have stopped: "n = None \<and> w_queue w = w_queue ?w \<and> w_at w = w_at ?w" if "b_stopped b"
      using emit_worker_stopped [of "em_event em" ?w w n] w that em ok by (simp add: bus_ok_def)
    then have stage: "\<forall>x \<in> set ((b_emits b)[k := em']). em_stage x = First_try" if "b_stopped b"
      using that ok by (intro set_update_ok) (simp_all add: bus_ok_def em'_def)
    have closed: "\<forall>x \<in> set ((b_workers b)[i := w]). w_queue x = [] \<and> w_at x = Returned" if "b_closer b = Bus_done"
      using stopped that ok in_b by (intro set_update_ok) (simp_all add: bus_ok_def)
    have unstarted: "\<forall>x \<in> set ((b_workers b)[i := w]). w_at x = Unstarted" if "b_closer b = Not_started"
      using emit_worker_at [OF w] that ok in_b by (intro set_update_ok) (simp_all add: bus_ok_def)
    have started: "\<forall>x \<in> set ((b_workers b)[i := w]). w_at x \<noteq> Unstarted" if "b_closer b \<noteq> Not_started"
      using emit_worker_at [OF w] that ok in_b by (intro set_update_ok) (simp_all add: bus_ok_def)
    show ?thesis unfolding b' using ok workers stage closed unstarted started by (simp add: bus_ok_def)
  qed
qed

lemma run_ok:
  assumes ok: "bus_ok b" and i: "i < length (b_workers b)" and r: "run_step c now takes failed (b_workers b ! i) = Some w"
  shows "bus_ok (b\<lparr>b_workers := (b_workers b)[i := w]\<rparr>)"
proof -
  have in_b: "b_workers b ! i \<in> set (b_workers b)" using i by simp
  have "worker_ok w" using run_step_ok [OF r] ok in_b by (simp add: bus_ok_def)
  then have "\<forall>x \<in> set ((b_workers b)[i := w]). worker_ok x"
    using ok by (intro set_update_ok) (simp_all add: bus_ok_def)
  moreover have "b_closer b \<noteq> Bus_done" using run_step_returned [OF r] ok in_b by (auto simp: bus_ok_def)
  moreover have started: "b_closer b \<noteq> Not_started" using run_step_started [OF r] ok in_b by (auto simp: bus_ok_def)
  moreover have "\<forall>x \<in> set ((b_workers b)[i := w]). w_at x \<noteq> Unstarted"
    using started run_step_started [OF r] ok by (intro set_update_ok) (simp_all add: bus_ok_def)
  ultimately show ?thesis using ok by (simp add: bus_ok_def)
qed

lemma close_step_ok: "close_step b = Some b' \<Longrightarrow> bus_ok b \<Longrightarrow> bus_ok b'"
proof (cases "b_closer b")
  case Waiting_workers
  assume "close_step b = Some b'" "bus_ok b"
  with Waiting_workers have all: "list_all (\<lambda>w. w_at w = Returned) (b_workers b)"
    and b': "b' = b\<lparr>b_workers := map drain_worker (b_workers b), b_closer := Bus_done\<rparr>"
    by (auto simp: close_step_def split: if_splits)
  have "worker_ok (drain_worker w) \<and> w_queue (drain_worker w) = [] \<and> w_at (drain_worker w) = Returned" if "w \<in> set (b_workers b)" for w
    using drain_worker_ok [of w] that all \<open>bus_ok b\<close> by (simp add: bus_ok_def list_all_iff) (simp add: drain_worker_def)
  with \<open>bus_ok b\<close> Waiting_workers show ?thesis unfolding b' by (simp add: bus_ok_def)
qed (auto simp: close_step_def bus_ok_def split: if_splits)

lemma Start_ok: "bus_ok b \<Longrightarrow> b_emits b = [] \<Longrightarrow> bus_ok (Start b)"
  by (auto simp: bus_ok_def Start_def worker_ok_def)

lemma Register_ok: "Register name types b = Inr b' \<Longrightarrow> bus_ok b \<Longrightarrow> bus_ok b'"
  by (auto simp: bus_ok_def Register_def worker_ok_new split: if_splits) (simp_all add: new_worker_def)

theorem bus_step_ok: "bus_step b b' \<Longrightarrow> bus_ok b \<Longrightarrow> bus_ok b'"
proof (induction rule: bus_step.induct)
  case (register b name types b')
  then show ?case by (metis Register_ok)
next
  case (emit b now e)
  then show ?case by (auto simp: bus_ok_def emit_begin_def)
next
  case (close b b')
  then show ?case by (metis close_step_ok)
qed (auto simp: Start_ok emit_step_ok run_ok, simp add: bus_ok_def)

lemma bus_reach_ok: "bus_reach b \<Longrightarrow> bus_ok b"
  by (induction rule: bus_reach.induct) (auto simp: bus_step_ok, simp add: bus_ok_def NewBus_def)

text \<open>C35: In every reachable state of the bus, under any interleaving of emitters, workers and shutdown, each worker accounts for
  every event that matched its filter: the events offered are those delivered, failed, dropped, queued and in hand. No
  queue is longer than 10000. When the channel of \<^verbatim>\<open>Start\<close> is closed, every queue is empty, so the counters that
  \<^verbatim>\<open>Stats\<close> reports add up to the events offered, also for events emitted after the stop.\<close>

theorem callback_events_accounted:
  assumes "bus_reach b" and "w \<in> set (b_workers b)"
  shows "w_offered w = w_delivered w + w_failed w + w_dropped w + length (w_queue w) + in_flight (w_at w) \<and>
    length (w_queue w) \<le> queue_depth \<and>
    (b_closer b = Bus_done \<longrightarrow> (let s = worker_stat now w in
       st_QueueLen s = 0 \<and> w_offered w = st_Delivered s + st_Failed s + st_Dropped s))"
proof -
  have "bus_ok b" by (rule bus_reach_ok [OF assms(1)])
  with assms(2) have "worker_ok w" "b_closer b = Bus_done \<Longrightarrow> w_queue w = [] \<and> w_at w = Returned"
    by (simp_all add: bus_ok_def)
  then show ?thesis by (auto simp: worker_ok_def worker_stat_def Let_def)
qed

section \<open>Emitting ends, and so does shutdown\<close>

text \<open>What a call of \<open>Emit\<close> has left to do: at most three operations on each worker it has not passed.\<close>

fun stage_left :: "emit_stage \<Rightarrow> nat" where
  "stage_left First_try = 3"
| "stage_left Make_room = 2"
| "stage_left Second_try = 1"

definition emit_left :: "'p bus \<Rightarrow> 'p emitter \<Rightarrow> nat" where
  "emit_left b em = 3 * (length (b_workers b) - em_worker em) + stage_left (em_stage em)"

lemma emit_worker_stage: "emit_worker stopped e st w = (w', Some st') \<Longrightarrow> stage_left st' < stage_left st"
  by (cases st) (auto split: if_splits list.splits)

lemma emit_never_waits:
  assumes k: "k < length (b_emits b)" and i: "em_worker (b_emits b ! k) < length (b_workers b)"
  shows "length (b_emits (emit_step k b)) = length (b_emits b) \<and>
    emit_left (emit_step k b) (b_emits (emit_step k b) ! k) < emit_left b (b_emits b ! k)"
proof -
  let ?em = "b_emits b ! k"
  obtain w n where w: "emit_worker (b_stopped b) (em_event ?em) (em_stage ?em) (b_workers b ! em_worker ?em) = (w, n)" by (metis surj_pair)
  show ?thesis
  proof (cases n)
    case None
    have "0 < stage_left (em_stage ?em)" by (cases "em_stage ?em") auto
    with k i w None show ?thesis by (auto simp: emit_step_def Let_def emit_left_def)
  next
    case (Some st)
    with emit_worker_stage [of _ _ _ _ w st] w have "stage_left st < stage_left (em_stage ?em)" by metis
    with k i w Some show ?thesis by (simp add: emit_step_def Let_def emit_left_def)
  qed
qed

lemma run_step_cancelled:
  assumes "w_at w \<noteq> Unstarted" and "w_at w \<noteq> Returned"
  shows "\<exists>w'. run_step True now False failed w = Some w'"
  using assms by (cases "w_at w") auto

text \<open>A bus that has been cancelled is never stuck: while no \<open>Emit\<close> is running and the bus is not done, a worker or the goroutine of
  \<open>Start\<close> can go on.\<close>

lemma shutdown_not_stuck:
  assumes "bus_reach b" and "b_cancelled b" and "b_emits b = []" and "b_closer b \<notin> {Not_started, Bus_done}"
  shows "(\<exists>b'. close_step b = Some b') \<or> (\<exists>i w. i < length (b_workers b) \<and> run_step True now False failed (b_workers b ! i) = Some w)"
proof (cases "list_all (\<lambda>w. w_at w = Returned) (b_workers b)")
  case True
  with assms show ?thesis by (cases "b_closer b") (auto simp: close_step_def)
next
  case False
  then obtain i where i: "i < length (b_workers b)" "w_at (b_workers b ! i) \<noteq> Returned"
    by (auto simp: list_all_iff in_set_conv_nth)
  have "w_at (b_workers b ! i) \<noteq> Unstarted"
    using bus_reach_ok [OF assms(1)] assms(4) i(1) by (simp add: bus_ok_def)
  then show ?thesis using run_step_cancelled i by blast
qed

section \<open>The circuit of a sink\<close>

fun sends :: "gotime \<Rightarrow> bool list \<Rightarrow> 'p worker \<Rightarrow> 'p worker" where
  "sends now [] w = w"
| "sends now (f # fs) w =
     sends now fs (case w_at w of Sending e \<Rightarrow> (the (run_step False now False f w))\<lparr>w_at := Sending e\<rparr> | _ \<Rightarrow> w)"

lemma failures_below_limit_stay_closed:
  assumes "w_at w = Sending e" and "w_circuit w + n \<le> 10"
  shows "w_circuit (sends now (replicate n True) w) = w_circuit w + n \<and> w_openUntil (sends now (replicate n True) w) = w_openUntil w \<and>
    w_at (sends now (replicate n True) w) = Sending e"
  using assms by (induction n arbitrary: w) simp_all

lemma eleventh_failure_opens:
  assumes "w_at w = Sending e" and "w_circuit w = 10"
  shows "\<exists>w'. run_step c now takes True w = Some w' \<and> w_openUntil w' = now + 60 * Second \<and> w_circuit w' = 0"
  using assms by simp

section \<open>A concrete run\<close>

definition one_event :: "nat event" where
  "one_event = \<lparr>ev_ID = [], ev_Type = ''key.created'', ev_Ts = None, ev_Payload = 0\<rparr>"

definition one_sink :: "nat bus" where
  "one_sink = NewBus\<lparr>b_workers := [new_worker ''hook'' []]\<rparr>"

definition one_queued :: "nat bus" where
  "one_queued = emit_step 0 (emit_begin 5 one_event one_sink)"

lemma one_queued_reachable: "bus_reach one_queued"
proof -
  have "bus_reach one_sink"
    by (rule bus_reach.step [OF bus_reach.new], rule bus_step.register [of _ "''hook''" "[]"])
      (simp_all add: NewBus_def one_sink_def Register_def max_callbacks_def)
  then have "bus_reach (emit_begin 5 one_event one_sink)" by (rule bus_reach.step) (rule bus_step.emit)
  then show ?thesis unfolding one_queued_def by (rule bus_reach.step) (rule bus_step.emit_next, simp add: emit_begin_def)
qed

lemma one_queued_workers:
  "b_workers one_queued = [(new_worker ''hook'' [])\<lparr>w_offered := 1, w_queue := [one_event\<lparr>ev_ID := ''evt_5'', ev_Ts := Some 5\<rparr>]\<rparr>]"
  by (simp add: one_queued_def emit_step_def emit_begin_def one_sink_def NewBus_def new_worker_def Let_def subscribes_def
      queue_depth_def enqueue_def offer_def stamp_def one_event_def show_int_def show_nat.simps char_of_def bit_simps)

theorem callback_events_accounted_witness:
  "w_offered (hd (b_workers one_queued)) = 1 \<and> length (w_queue (hd (b_workers one_queued))) \<le> queue_depth"
  using callback_events_accounted [OF one_queued_reachable, of "hd (b_workers one_queued)"]
  by (simp add: one_queued_workers new_worker_def)

end
