(* ===== verification/Wire_Format.thy ===== *)
theory Wire_Format
  imports Rate_Limit Token_Cost Json_Value
begin

text \<open>
  Requests and responses on the wire (\<^verbatim>\<open>internal/providers/provider.go\<close>, \<^verbatim>\<open>embedding_input.go\<close>): the typed view of a body that
  routing and admission read, the raw fields beside it, and the body that is sent upstream, which is the client's with the
  fields laid over it that the gateway may change.

  \<^item> A body is a \<open>json\<close> value; \<open>None\<close> is a decoding error. The order of the fields of an object has no meaning.
  \<^item> The fields of a struct are matched like \<^verbatim>\<open>encoding/json\<close> does, without regard to the case of ASCII letters; no two keys
    of an object differ only in case.
  \<^item> \<open>refloat\<close> reads a JSON number into a \<open>float64\<close> and writes it again, \<open>None\<close> if it is out of range.
\<close>

section \<open>Decoding struct fields\<close>

definition lower_char :: "char \<Rightarrow> char" where
  "lower_char c = (let n = (of_char c :: nat) in if 65 \<le> n \<and> n \<le> 90 then char_of (n + 32) else c)"

definition fold_name :: "string \<Rightarrow> string" where
  "fold_name k = map lower_char k"

definition struct_field :: "string \<Rightarrow> (string \<times> json) list \<Rightarrow> json option" where
  "struct_field name t = map_option snd (find (\<lambda>(k, v). fold_name k = name) t)"

definition string_field :: "string \<Rightarrow> (string \<times> json) list \<Rightarrow> string option" where
  "string_field name t =
     (case struct_field name t of None \<Rightarrow> Some [] | Some J_null \<Rightarrow> Some [] | Some (J_str s) \<Rightarrow> Some s | _ \<Rightarrow> None)"

definition bool_field :: "string \<Rightarrow> (string \<times> json) list \<Rightarrow> bool option" where
  "bool_field name t =
     (case struct_field name t of None \<Rightarrow> Some False | Some J_null \<Rightarrow> Some False | Some (J_bool b) \<Rightarrow> Some b | _ \<Rightarrow> None)"

definition int_ptr_field :: "string \<Rightarrow> (string \<times> json) list \<Rightarrow> int option option" where
  "int_ptr_field name t =
     (case struct_field name t of
        None \<Rightarrow> Some None
      | Some J_null \<Rightarrow> Some None
      | Some (J_num n) \<Rightarrow> if is_i64 n then Some (Some n) else None
      | _ \<Rightarrow> None)"

definition int_field :: "string \<Rightarrow> (string \<times> json) list \<Rightarrow> int option" where
  "int_field name t = map_option (\<lambda>n. case n of None \<Rightarrow> 0 | Some i \<Rightarrow> i) (int_ptr_field name t)"

definition float_ptr_field :: "(json \<Rightarrow> json option) \<Rightarrow> string \<Rightarrow> (string \<times> json) list \<Rightarrow> json option option" where
  "float_ptr_field refloat name t =
     (case struct_field name t of
        None \<Rightarrow> Some None
      | Some J_null \<Rightarrow> Some None
      | Some (J_num n) \<Rightarrow> map_option Some (refloat (J_num n))
      | Some (J_dec d) \<Rightarrow> map_option Some (refloat (J_dec d))
      | _ \<Rightarrow> None)"

text \<open>A pointer to a struct.\<close>

definition ptr_field :: "((string \<times> json) list \<Rightarrow> 'a option) \<Rightarrow> string \<Rightarrow> (string \<times> json) list \<Rightarrow> 'a option option" where
  "ptr_field decode name t =
     (case struct_field name t of
        None \<Rightarrow> Some None
      | Some J_null \<Rightarrow> Some None
      | Some (J_obj o1) \<Rightarrow> map_option Some (decode o1)
      | _ \<Rightarrow> None)"

text \<open>\<open>cloneRawMap\<close> is the identity on values; \<open>putJSON\<close> sets a field.\<close>

definition putJSON :: "string \<Rightarrow> json \<Rightarrow> (string \<times> json) list \<Rightarrow> (string \<times> json) list" where
  "putJSON k v t = (if k \<in> fst ` set t then map (\<lambda>(k', v'). (k', if k' = k then v else v')) t else t @ [(k, v)])"

definition put_opt :: "string \<Rightarrow> json option \<Rightarrow> (string \<times> json) list \<Rightarrow> (string \<times> json) list" where
  "put_opt k v t = (case v of None \<Rightarrow> t | Some j \<Rightarrow> putJSON k j t)"

lemma map_of_replace:
  "map_of (map (\<lambda>(k', v'). (k', if k' = k then v else v')) t) x = (if x = k then map_option (\<lambda>_. v) (map_of t k) else map_of t x)"
  by (induction t) auto

lemma map_of_putJSON [simp]: "map_of (putJSON k v t) = (map_of t)(k \<mapsto> v)"
proof (cases "k \<in> fst ` set t")
  case True
  then obtain w where "map_of t k = Some w" by (metis map_of_eq_None_iff not_None_eq)
  with True show ?thesis by (auto simp: putJSON_def map_of_replace fun_eq_iff)
next
  case False
  then have "map_of t k = None" by (simp add: map_of_eq_None_iff)
  then show ?thesis by (auto simp: putJSON_def False fun_eq_iff map_add_def split: option.splits)
qed

lemma map_of_put_opt: "map_of (put_opt k v t) k' = (if k' = k \<and> v \<noteq> None then v else map_of t k')"
  by (simp add: put_opt_def split: option.splits)

lemma map_of_put_cases:
  "map_of (put_opt k (map_option f x) t) k' = (if k' = k \<and> x \<noteq> None then map_option f x else map_of t k')"
  "map_of (put_opt k (if b then Some j else None) t) k' = (if k' = k \<and> b then Some j else map_of t k')"
  by (auto simp: map_of_put_opt)

section \<open>Messages\<close>

record chat_message =
  ms_Role :: string
  ms_Content :: string
  ms_raw :: "(string \<times> json) list option"
  ms_originalRole :: string
  ms_originalContent :: string

text \<open>The text of a content part: its first field of the two that decodes as a string; \<open>null\<close> decodes as the empty one.\<close>

fun part_text :: "string list \<Rightarrow> (string \<times> json) list \<Rightarrow> string option" where
  "part_text [] part = None"
| "part_text (key # keys) part =
     (case map_of part key of
        Some (J_str s) \<Rightarrow> Some s
      | Some J_null \<Rightarrow> Some []
      | _ \<Rightarrow> part_text keys part)"

fun join_parts :: "string \<Rightarrow> (string \<times> json) list list \<Rightarrow> string" where
  "join_parts out [] = out"
| "join_parts out (part # parts) =
     (case part_text [''text'', ''content''] part of
        None \<Rightarrow> join_parts out parts
      | Some value \<Rightarrow> join_parts ((if out \<noteq> [] then out @ [CHR 0x0A] else out) @ value) parts)"

fun as_object :: "json \<Rightarrow> (string \<times> json) list option" where
  "as_object (J_obj t) = Some t"
| "as_object J_null = Some []"
| "as_object _ = None"

definition textContent :: "json option \<Rightarrow> string option" where
  "textContent raw =
     (case raw of
        None \<Rightarrow> Some []
      | Some J_null \<Rightarrow> Some []
      | Some (J_str s) \<Rightarrow> Some s
      | Some (J_arr parts) \<Rightarrow> map_option (join_parts []) (those (map as_object parts))
      | _ \<Rightarrow> None)"

definition ChatMessage_UnmarshalJSON :: "json \<Rightarrow> chat_message option" where
  "ChatMessage_UnmarshalJSON data =
     (case as_object data of
        None \<Rightarrow> None
      | Some raw \<Rightarrow>
          (case (case map_of raw ''role'' of None \<Rightarrow> Some [] | Some J_null \<Rightarrow> Some [] | Some (J_str s) \<Rightarrow> Some s | _ \<Rightarrow> None) of
             None \<Rightarrow> None
           | Some role \<Rightarrow>
               map_option (\<lambda>content.
                   \<lparr>ms_Role = role, ms_Content = content, ms_raw = (if data = J_null then None else Some raw),
                    ms_originalRole = role, ms_originalContent = content\<rparr>)
                 (textContent (map_of raw ''content''))))"

definition ChatMessage_MarshalJSON :: "chat_message \<Rightarrow> json" where
  "ChatMessage_MarshalJSON m =
     (case ms_raw m of
        None \<Rightarrow> J_obj [(''role'', J_str (ms_Role m)), (''content'', J_str (ms_Content m))]
      | Some raw \<Rightarrow>
          let raw1 = (if ms_Role m \<noteq> ms_originalRole m then putJSON ''role'' (J_str (ms_Role m)) raw else raw)
          in J_obj (if ms_Content m \<noteq> ms_originalContent m then putJSON ''content'' (J_str (ms_Content m)) raw1 else raw1))"

section \<open>Chat requests\<close>

record chat_request =
  cr_Model :: string
  cr_Messages :: "chat_message list option"
  cr_Stream :: bool
  cr_StreamOptions :: "bool option"
  cr_Temperature :: "json option"
  cr_MaxTokens :: "int option"
  cr_MaxCompletionTokens :: "int option"
  cr_User :: string
  cr_raw :: "(string \<times> json) list option"

definition messages_field :: "(string \<times> json) list \<Rightarrow> chat_message list option option" where
  "messages_field t =
     (case struct_field ''messages'' t of
        None \<Rightarrow> Some None
      | Some J_null \<Rightarrow> Some None
      | Some (J_arr xs) \<Rightarrow> map_option Some (those (map ChatMessage_UnmarshalJSON xs))
      | _ \<Rightarrow> None)"

definition ChatRequest_UnmarshalJSON :: "(json \<Rightarrow> json option) \<Rightarrow> json \<Rightarrow> chat_request option" where
  "ChatRequest_UnmarshalJSON refloat data =
     (case as_object data of
        None \<Rightarrow> None
      | Some t \<Rightarrow>
          (case (string_field ''model'' t, messages_field t, bool_field ''stream'' t,
                 ptr_field (bool_field ''include_usage'') ''stream_options'' t, float_ptr_field refloat ''temperature'' t,
                 int_ptr_field ''max_tokens'' t, int_ptr_field ''max_completion_tokens'' t, string_field ''user'' t) of
             (Some model, Some messages, Some stream, Some streamOptions, Some temperature, Some maxTokens, Some maxCompletion, Some user) \<Rightarrow>
               Some \<lparr>cr_Model = model, cr_Messages = messages, cr_Stream = stream, cr_StreamOptions = streamOptions,
                     cr_Temperature = temperature, cr_MaxTokens = maxTokens, cr_MaxCompletionTokens = maxCompletion,
                     cr_User = user, cr_raw = (if data = J_null then None else Some t)\<rparr>
           | _ \<Rightarrow> None))"

text \<open>The stream options of the client with \<open>include_usage\<close> set.\<close>

definition overlay_options :: "bool \<Rightarrow> (string \<times> json) list \<Rightarrow> json" where
  "overlay_options includeUsage raw =
     J_obj (putJSON ''include_usage'' (J_bool includeUsage)
       (case map_of raw ''stream_options'' of Some (J_obj opts) \<Rightarrow> opts | _ \<Rightarrow> []))"

definition ChatRequest_MarshalJSON :: "chat_request \<Rightarrow> json" where
  "ChatRequest_MarshalJSON r =
     (let messages = map_option (\<lambda>ms. J_arr (map ChatMessage_MarshalJSON ms)) (cr_Messages r);
          user = (if cr_User r \<noteq> [] then Some (J_str (cr_User r)) else None)
      in (case cr_raw r of
            None \<Rightarrow>
              J_obj (put_opt ''user'' user (put_opt ''max_completion_tokens'' (map_option J_num (cr_MaxCompletionTokens r))
                (put_opt ''max_tokens'' (map_option J_num (cr_MaxTokens r)) (put_opt ''temperature'' (cr_Temperature r)
                (put_opt ''stream_options'' (map_option (\<lambda>b. J_obj (if b then [(''include_usage'', J_bool True)] else [])) (cr_StreamOptions r))
                (put_opt ''stream'' (if cr_Stream r then Some (J_bool True) else None)
                  [(''model'', J_str (cr_Model r)), (''messages'', case messages of None \<Rightarrow> J_null | Some j \<Rightarrow> j)]))))))
          | Some raw0 \<Rightarrow>
              let raw1 = putJSON ''model'' (J_str (cr_Model r)) raw0;
                  raw2 = put_opt ''messages'' messages raw1;
                  raw3 = (if cr_Stream r \<or> map_of raw2 ''stream'' \<noteq> None then putJSON ''stream'' (J_bool (cr_Stream r)) raw2 else raw2);
                  raw4 = put_opt ''stream_options'' (map_option (\<lambda>b. overlay_options b raw3) (cr_StreamOptions r)) raw3;
                  raw5 = put_opt ''temperature'' (cr_Temperature r) raw4;
                  raw6 = put_opt ''max_tokens'' (map_option J_num (cr_MaxTokens r)) raw5;
                  raw7 = put_opt ''max_completion_tokens'' (map_option J_num (cr_MaxCompletionTokens r)) raw6
              in J_obj (put_opt ''user'' user raw7)))"

definition OutputTokenLimit :: "chat_request \<Rightarrow> int option" where
  "OutputTokenLimit r = (if cr_MaxCompletionTokens r \<noteq> None then cr_MaxCompletionTokens r else cr_MaxTokens r)"

text \<open>\<open>BoundCustomerCompletion\<close>: the tokens a controlled request may produce, and the request with its limit made explicit.\<close>

definition BoundCustomerCompletion :: "chat_request \<Rightarrow> (string + int) \<times> chat_request" where
  "BoundCustomerCompletion r =
     (if cr_MaxTokens r \<noteq> None \<and> cr_MaxCompletionTokens r \<noteq> None
      then (Inl ''specify only one of max_tokens and max_completion_tokens'', r)
      else
        let r1 = (if OutputTokenLimit r = None then r\<lparr>cr_MaxCompletionTokens := Some 1024\<rparr> else r);
            limit = the (OutputTokenLimit r1)
        in if limit < 1 \<or> limit > 1000000 then (Inl ''customer-controlled completion limit must be 1-1000000'', r1)
           else (case map_of (case cr_raw r1 of None \<Rightarrow> [] | Some t \<Rightarrow> t) ''n'' of
                   None \<Rightarrow> (Inr limit, r1)
                 | Some J_null \<Rightarrow> (Inr limit, r1)
                 | Some (J_num n) \<Rightarrow>
                     if n < 1 \<or> n > 128 then (Inl ''n must be 1-128 for customer-controlled requests'', r1)
                     else (Inr (wrap64 (limit * n)), r1)
                 | _ \<Rightarrow> (Inl ''n must be 1-128 for customer-controlled requests'', r1)))"

section \<open>Chat and embedding responses\<close>

fun reportedCounters :: "json option \<Rightarrow> string list \<Rightarrow> bool" where
  "reportedCounters raw names =
     (case raw of
        Some (J_obj t) \<Rightarrow> list_all (\<lambda>name. case map_of t name of Some (J_num n) \<Rightarrow> is_i64 n \<and> 0 \<le> n | _ \<Rightarrow> False) names
      | Some J_null \<Rightarrow> names = []
      | _ \<Rightarrow> False)"

definition ReportedUsage :: "json option \<Rightarrow> bool \<Rightarrow> bool" where
  "ReportedUsage raw completion = reportedCounters raw ([''prompt_tokens''] @ (if completion then [''completion_tokens''] else []))"

definition decode_prompt_details :: "(string \<times> json) list \<Rightarrow> prompt_tokens_details option" where
  "decode_prompt_details t =
     (case (int_field ''cached_tokens'' t, int_field ''audio_tokens'' t) of
        (Some c, Some a) \<Rightarrow> Some \<lparr>CachedTokens = c, PromptAudioTokens = a\<rparr> | _ \<Rightarrow> None)"

definition decode_completion_details :: "(string \<times> json) list \<Rightarrow> completion_tokens_details option" where
  "decode_completion_details t =
     (case (int_field ''reasoning_tokens'' t, int_field ''audio_tokens'' t) of
        (Some c, Some a) \<Rightarrow> Some \<lparr>ReasoningTokens = c, CompletionAudioTokens = a\<rparr> | _ \<Rightarrow> None)"

definition decode_cache_creation :: "(string \<times> json) list \<Rightarrow> cache_creation_details option" where
  "decode_cache_creation t =
     (case (int_field ''ephemeral_5m_input_tokens'' t, int_field ''ephemeral_1h_input_tokens'' t) of
        (Some a, Some b) \<Rightarrow> Some \<lparr>Ephemeral5mInputTokens = a, Ephemeral1hInputTokens = b\<rparr> | _ \<Rightarrow> None)"

definition decode_usage :: "(string \<times> json) list \<Rightarrow> usage option" where
  "decode_usage t =
     (case (int_field ''prompt_tokens'' t, int_field ''completion_tokens'' t, int_field ''total_tokens'' t,
            ptr_field decode_prompt_details ''prompt_tokens_details'' t, ptr_field decode_completion_details ''completion_tokens_details'' t,
            int_field ''cache_creation_input_tokens'' t, int_field ''cache_read_input_tokens'' t,
            ptr_field decode_cache_creation ''cache_creation'' t) of
        (Some p, Some c, Some tt, Some pd, Some cd, Some cc, Some cr, Some cx) \<Rightarrow>
          Some \<lparr>PromptTokens = p, CompletionTokens = c, TotalTokens = tt, PromptTokensDetails = pd, CompletionTokensDetails = cd,
                CacheCreationInputTokens = cc, CacheReadInputTokens = cr, CacheCreation = cx\<rparr>
      | _ \<Rightarrow> None)"

definition usage_field :: "(string \<times> json) list \<Rightarrow> usage option" where
  "usage_field t =
     (case struct_field ''usage'' t of
        None \<Rightarrow> decode_usage []
      | Some J_null \<Rightarrow> decode_usage []
      | Some (J_obj u) \<Rightarrow> decode_usage u
      | _ \<Rightarrow> None)"

record chat_choice =
  ch_Index :: int
  ch_Message :: chat_message
  ch_FinishReason :: string

definition empty_message :: chat_message where
  "empty_message = \<lparr>ms_Role = [], ms_Content = [], ms_raw = None, ms_originalRole = [], ms_originalContent = []\<rparr>"

definition decode_choice :: "json \<Rightarrow> chat_choice option" where
  "decode_choice data =
     (case as_object data of
        None \<Rightarrow> None
      | Some t \<Rightarrow>
          (case (int_field ''index'' t, (case struct_field ''message'' t of None \<Rightarrow> Some empty_message | Some j \<Rightarrow> ChatMessage_UnmarshalJSON j),
                 string_field ''finish_reason'' t) of
             (Some i, Some m, Some f) \<Rightarrow> Some \<lparr>ch_Index = i, ch_Message = m, ch_FinishReason = f\<rparr>
           | _ \<Rightarrow> None))"

definition choices_field :: "(string \<times> json) list \<Rightarrow> chat_choice list option" where
  "choices_field t =
     (case struct_field ''choices'' t of
        None \<Rightarrow> Some []
      | Some J_null \<Rightarrow> Some []
      | Some (J_arr xs) \<Rightarrow> those (map decode_choice xs)
      | _ \<Rightarrow> None)"

record chat_response =
  cp_ID :: string
  cp_Model :: string
  cp_Choices :: "chat_choice list"
  cp_Usage :: usage
  cp_raw :: "(string \<times> json) list option"

definition ChatResponse_UnmarshalJSON :: "json \<Rightarrow> chat_response option" where
  "ChatResponse_UnmarshalJSON data =
     (case as_object data of
        None \<Rightarrow> None
      | Some t \<Rightarrow>
          (case (string_field ''id'' t, string_field ''model'' t, choices_field t, usage_field t) of
             (Some i, Some m, Some cs, Some u) \<Rightarrow>
               Some \<lparr>cp_ID = i, cp_Model = m, cp_Choices = cs, cp_Usage = u, cp_raw = (if data = J_null then None else Some t)\<rparr>
           | _ \<Rightarrow> None))"

text \<open>The body of a response that an OpenAI-compatible upstream sent; an adapter that builds one has no raw fields, and
  \<open>plain\<close> is how its struct is written.\<close>

definition ChatResponse_MarshalJSON :: "(chat_response \<Rightarrow> json) \<Rightarrow> chat_response \<Rightarrow> json" where
  "ChatResponse_MarshalJSON plain r =
     (case cp_raw r of None \<Rightarrow> plain r | Some raw \<Rightarrow> J_obj (putJSON ''model'' (J_str (cp_Model r)) raw))"

definition ChatResponse_UsageReported :: "chat_response \<Rightarrow> bool" where
  "ChatResponse_UsageReported r =
     (case cp_raw r of
        Some raw \<Rightarrow> ReportedUsage (map_of raw ''usage'') True
      | None \<Rightarrow> let u = cp_Usage r in
                PromptTokens u \<ge> 0 \<and> CompletionTokens u \<ge> 0 \<and> (PromptTokens u > 0 \<or> CompletionTokens u > 0))"

section \<open>Embedding input\<close>

record embedding_body =
  eb_Input :: embedding_input
  eb_single :: bool

fun parseTokens :: "json list \<Rightarrow> int list option" where
  "parseTokens [] = None"
| "parseTokens xs = those (map (\<lambda>j. case j of J_num n \<Rightarrow> if is_i64 n \<and> 0 \<le> n then Some n else None | _ \<Rightarrow> None) xs)"

fun parseTexts :: "json list \<Rightarrow> string list option" where
  "parseTexts xs = those (map (\<lambda>j. case j of J_str s \<Rightarrow> if s = [] then None else Some s | _ \<Rightarrow> None) xs)"

definition EmbeddingInput_UnmarshalJSON :: "json \<Rightarrow> embedding_body option" where
  "EmbeddingInput_UnmarshalJSON data =
     (case data of
        J_str s \<Rightarrow> if s = [] then None else Some \<lparr>eb_Input = \<lparr>ei_Texts = [s], ei_Tokens = []\<rparr>, eb_single = True\<rparr>
      | J_arr (J_str s # xs) \<Rightarrow>
          map_option (\<lambda>ts. \<lparr>eb_Input = \<lparr>ei_Texts = ts, ei_Tokens = []\<rparr>, eb_single = False\<rparr>) (parseTexts (J_str s # xs))
      | J_arr (J_arr row # xs) \<Rightarrow>
          map_option (\<lambda>rows. \<lparr>eb_Input = \<lparr>ei_Texts = [], ei_Tokens = rows\<rparr>, eb_single = False\<rparr>)
            (those (map (\<lambda>j. case as_array j of None \<Rightarrow> None | Some r \<Rightarrow> parseTokens r) (J_arr row # xs)))
      | J_arr (x # xs) \<Rightarrow>
          map_option (\<lambda>ts. \<lparr>eb_Input = \<lparr>ei_Texts = [], ei_Tokens = [ts]\<rparr>, eb_single = True\<rparr>) (parseTokens (x # xs))
      | _ \<Rightarrow> None)"

definition EmbeddingInput_MarshalJSON :: "embedding_body \<Rightarrow> json" where
  "EmbeddingInput_MarshalJSON b =
     (let i = eb_Input b in
      if IsTokenized i
      then (if eb_single b then J_arr (map J_num (hd (ei_Tokens i)))
            else J_arr (map (\<lambda>ts. J_arr (map J_num ts)) (ei_Tokens i)))
      else if eb_single b \<and> length (ei_Texts i) = 1 then J_str (hd (ei_Texts i))
      else J_arr (map J_str (ei_Texts i)))"

record embedding_request =
  eg_Model :: string
  eg_Input :: "embedding_body option"
  eg_User :: string
  eg_raw :: "(string \<times> json) list option"

definition EmbeddingRequest_UnmarshalJSON :: "json \<Rightarrow> embedding_request option" where
  "EmbeddingRequest_UnmarshalJSON data =
     (case as_object data of
        None \<Rightarrow> None
      | Some t \<Rightarrow>
          (case (string_field ''model'' t,
                 (case struct_field ''input'' t of None \<Rightarrow> Some None | Some j \<Rightarrow> map_option Some (EmbeddingInput_UnmarshalJSON j)),
                 string_field ''user'' t) of
             (Some m, Some i, Some u) \<Rightarrow> Some \<lparr>eg_Model = m, eg_Input = i, eg_User = u, eg_raw = (if data = J_null then None else Some t)\<rparr>
           | _ \<Rightarrow> None))"

text \<open>Requests are always decoded, so \<open>raw\<close> is missing only for the body \<open>null\<close>, which names no model.\<close>

definition EmbeddingRequest_MarshalJSON :: "embedding_request \<Rightarrow> json" where
  "EmbeddingRequest_MarshalJSON r =
     (case eg_raw r of
        Some raw \<Rightarrow> J_obj (putJSON ''model'' (J_str (eg_Model r)) raw)
      | None \<Rightarrow> J_obj (put_opt ''user'' (if eg_User r \<noteq> [] then Some (J_str (eg_User r)) else None)
                  [(''model'', J_str (eg_Model r)),
                   (''input'', EmbeddingInput_MarshalJSON (case eg_Input r of Some b \<Rightarrow> b | None \<Rightarrow> \<lparr>eb_Input = \<lparr>ei_Texts = [], ei_Tokens = []\<rparr>, eb_single = False\<rparr>))]))"

record embedding_response =
  ep_Object :: string
  ep_Model :: string
  ep_Usage :: usage
  ep_raw :: "(string \<times> json) list option"

definition EmbeddingResponse_UnmarshalJSON :: "json \<Rightarrow> embedding_response option" where
  "EmbeddingResponse_UnmarshalJSON data =
     (case as_object data of
        None \<Rightarrow> None
      | Some t \<Rightarrow>
          (case (string_field ''object'' t, string_field ''model'' t, usage_field t) of
             (Some ob, Some m, Some u) \<Rightarrow> Some \<lparr>ep_Object = ob, ep_Model = m, ep_Usage = u, ep_raw = (if data = J_null then None else Some t)\<rparr>
           | _ \<Rightarrow> None))"

definition EmbeddingResponse_MarshalJSON :: "(embedding_response \<Rightarrow> json) \<Rightarrow> embedding_response \<Rightarrow> json" where
  "EmbeddingResponse_MarshalJSON plain r =
     (case ep_raw r of None \<Rightarrow> plain r | Some raw \<Rightarrow> J_obj (putJSON ''model'' (J_str (ep_Model r)) raw))"

definition EmbeddingResponse_UsageReported :: "embedding_response \<Rightarrow> bool" where
  "EmbeddingResponse_UsageReported r =
     (case ep_raw r of Some raw \<Rightarrow> ReportedUsage (map_of raw ''usage'') False | None \<Rightarrow> PromptTokens (ep_Usage r) > 0)"

section \<open>What the gateway forwards\<close>

text \<open>The fields the gateway knows are spelled as it spells them.\<close>

definition known_fields :: "string list" where
  "known_fields = [''model'', ''messages'', ''stream'', ''stream_options'', ''temperature'', ''max_tokens'', ''max_completion_tokens'', ''user'']"

definition exact_names :: "(string \<times> json) list \<Rightarrow> bool" where
  "exact_names t = list_all (\<lambda>(k, v). fold_name k \<in> set known_fields \<longrightarrow> fold_name k = k) t"

lemma struct_field_exact: "exact_names t \<Longrightarrow> name \<in> set known_fields \<Longrightarrow> fold_name name = name \<Longrightarrow> struct_field name t = map_of t name"
  by (induction t) (auto simp: struct_field_def exact_names_def)

lemma fold_name_known: "name \<in> set known_fields \<Longrightarrow> fold_name name = name"
  by (auto simp: known_fields_def fold_name_def lower_char_def)

lemma field_exact: "exact_names t \<Longrightarrow> name \<in> set known_fields \<Longrightarrow> struct_field name t = map_of t name"
  by (simp add: struct_field_exact fold_name_known)

lemma those_map_inverse:
  assumes "those (map f xs) = Some ys" and "\<And>x y. x \<in> set xs \<Longrightarrow> f x = Some y \<Longrightarrow> g y = x"
  shows "map g ys = xs"
  using assms by (induction xs arbitrary: ys) (auto split: option.splits)

lemma message_kept: "ChatMessage_UnmarshalJSON x = Some m \<Longrightarrow> x \<noteq> J_null \<Longrightarrow> ChatMessage_MarshalJSON m = x"
  by (cases x) (auto simp: ChatMessage_UnmarshalJSON_def ChatMessage_MarshalJSON_def split: option.splits json.splits)

definition no_null_messages :: "(string \<times> json) list \<Rightarrow> bool" where
  "no_null_messages t = (case map_of t ''messages'' of Some (J_arr xs) \<Rightarrow> J_null \<notin> set xs | _ \<Rightarrow> True)"

lemma messages_kept:
  assumes "messages_field t = Some msgs" and "exact_names t" and "no_null_messages t" and "msgs = Some l"
  shows "map_of t ''messages'' = Some (J_arr (map ChatMessage_MarshalJSON l))"
proof -
  have f: "struct_field ''messages'' t = map_of t ''messages''" by (rule field_exact [OF assms(2)]) (simp add: known_fields_def)
  obtain xs where xs: "map_of t ''messages'' = Some (J_arr xs)" "those (map ChatMessage_UnmarshalJSON xs) = Some l"
    using assms(1,4) by (auto simp: messages_field_def f split: option.splits json.splits)
  have "J_null \<notin> set xs" using assms(3) xs(1) by (simp add: no_null_messages_def)
  then have "map ChatMessage_MarshalJSON l = xs" by (intro those_map_inverse [OF xs(2)]) (metis message_kept)
  with xs(1) show ?thesis by simp
qed

lemma int_ptr_kept: "int_ptr_field k t = Some (Some n) \<Longrightarrow> struct_field k t = map_of t k \<Longrightarrow> map_of t k = Some (J_num n)"
  by (auto simp: int_ptr_field_def split: option.splits json.splits if_splits)

lemma string_kept: "string_field k t = Some s \<Longrightarrow> struct_field k t = map_of t k \<Longrightarrow> s \<noteq> [] \<Longrightarrow> map_of t k = Some (J_str s)"
  by (auto simp: string_field_def split: option.splits json.splits)

lemma Unmarshal_parts:
  assumes "ChatRequest_UnmarshalJSON refloat (J_obj t) = Some r"
  shows "messages_field t = Some (cr_Messages r)" "int_ptr_field ''max_tokens'' t = Some (cr_MaxTokens r)"
    "int_ptr_field ''max_completion_tokens'' t = Some (cr_MaxCompletionTokens r)" "string_field ''user'' t = Some (cr_User r)" "cr_raw r = Some t"
  using assms by (auto simp: ChatRequest_UnmarshalJSON_def split: option.splits)

text \<open>The value of each field of the body that is sent.\<close>

definition overlaid :: "chat_request \<Rightarrow> (string \<times> json) list \<Rightarrow> string \<Rightarrow> json option" where
  "overlaid r raw k =
     (if k = ''user'' \<and> cr_User r \<noteq> [] then Some (J_str (cr_User r))
      else if k = ''max_completion_tokens'' \<and> cr_MaxCompletionTokens r \<noteq> None then map_option J_num (cr_MaxCompletionTokens r)
      else if k = ''max_tokens'' \<and> cr_MaxTokens r \<noteq> None then map_option J_num (cr_MaxTokens r)
      else if k = ''temperature'' \<and> cr_Temperature r \<noteq> None then cr_Temperature r
      else if k = ''stream_options'' \<and> cr_StreamOptions r \<noteq> None then map_option (\<lambda>b. overlay_options b raw) (cr_StreamOptions r)
      else if k = ''stream'' \<and> (cr_Stream r \<or> map_of raw ''stream'' \<noteq> None) then Some (J_bool (cr_Stream r))
      else if k = ''messages'' \<and> cr_Messages r \<noteq> None then map_option (\<lambda>l. J_arr (map ChatMessage_MarshalJSON l)) (cr_Messages r)
      else if k = ''model'' then Some (J_str (cr_Model r))
      else map_of raw k)"

lemma MarshalJSON_overlaid:
  assumes "cr_raw r = Some raw"
  shows "\<exists>t'. ChatRequest_MarshalJSON r = J_obj t' \<and> map_of t' = overlaid r raw"
proof -
  define raw2 where "raw2 = put_opt ''messages'' (map_option (\<lambda>l. J_arr (map ChatMessage_MarshalJSON l)) (cr_Messages r)) (putJSON ''model'' (J_str (cr_Model r)) raw)"
  define raw3 where "raw3 = (if cr_Stream r \<or> map_of raw2 ''stream'' \<noteq> None then putJSON ''stream'' (J_bool (cr_Stream r)) raw2 else raw2)"
  have s2: "map_of raw2 ''stream'' = map_of raw ''stream''" by (simp add: raw2_def map_of_put_opt)
  have o3: "overlay_options b raw3 = overlay_options b raw" for b by (simp add: overlay_options_def raw3_def raw2_def map_of_put_opt)
  have m2: "map_of raw2 k = (if k = ''messages'' \<and> cr_Messages r \<noteq> None then map_option (\<lambda>l. J_arr (map ChatMessage_MarshalJSON l)) (cr_Messages r)
      else if k = ''model'' then Some (J_str (cr_Model r)) else map_of raw k)" for k
    unfolding raw2_def map_of_put_cases map_of_putJSON fun_upd_apply by (rule refl)
  have m3: "map_of raw3 k = (if k = ''stream'' \<and> (cr_Stream r \<or> map_of raw ''stream'' \<noteq> None) then Some (J_bool (cr_Stream r)) else map_of raw2 k)" for k
    by (simp add: raw3_def s2)
  define t' where "t' = put_opt ''user'' (if cr_User r \<noteq> [] then Some (J_str (cr_User r)) else None)
    (put_opt ''max_completion_tokens'' (map_option J_num (cr_MaxCompletionTokens r)) (put_opt ''max_tokens'' (map_option J_num (cr_MaxTokens r))
    (put_opt ''temperature'' (cr_Temperature r) (put_opt ''stream_options'' (map_option (\<lambda>b. overlay_options b raw3) (cr_StreamOptions r)) raw3))))"
  have "ChatRequest_MarshalJSON r = J_obj t'"
    by (simp add: ChatRequest_MarshalJSON_def assms Let_def raw2_def raw3_def t'_def)
  moreover have "map_of t' k = overlaid r raw k" for k
    unfolding t'_def map_of_put_cases map_of_put_opt [of "''temperature''"] m3 m2 o3 overlaid_def by (rule refl)
  ultimately show ?thesis by blast
qed


section \<open>Round trips\<close>

lemma parseTokens_inverse: "parseTokens xs = Some ts \<Longrightarrow> map J_num ts = xs"
  by (cases xs rule: parseTokens.cases)
    (auto elim!: those_map_inverse [where f = "\<lambda>j. case j of J_num n \<Rightarrow> if is_i64 n \<and> 0 \<le> n then Some n else None | _ \<Rightarrow> None"]
      split: json.splits if_splits option.splits)

lemma parseTexts_inverse: "parseTexts xs = Some ts \<Longrightarrow> map J_str ts = xs"
  by (auto elim!: those_map_inverse split: json.splits if_splits)

lemma those_length: "those xs = Some ys \<Longrightarrow> length ys = length xs"
  by (induction xs arbitrary: ys) (auto split: option.splits)

lemma rows_inverse:
  assumes "those (map (\<lambda>j. case as_array j of None \<Rightarrow> None | Some r \<Rightarrow> parseTokens r) xs) = Some rows"
  shows "map (\<lambda>ts. J_arr (map J_num ts)) rows = xs"
  using assms
proof (rule those_map_inverse)
  fix x y
  assume "(case as_array x of None \<Rightarrow> None | Some r \<Rightarrow> parseTokens r) = Some y"
  then show "J_arr (map J_num y) = x" by (cases x) (auto dest: parseTokens_inverse)
qed

text \<open>An embedding input that decodes is written back as it was, a single one as a single one.\<close>

theorem embedding_input_roundtrip:
  assumes "EmbeddingInput_UnmarshalJSON j = Some b"
  shows "EmbeddingInput_MarshalJSON b = j"
proof -
  consider (str) s where "j = J_str s" | (strs) s xs where "j = J_arr (J_str s # xs)" | (rows) row xs where "j = J_arr (J_arr row # xs)"
    | (toks) x xs where "j = J_arr (x # xs)" "\<forall>s. x \<noteq> J_str s" "\<forall>r. x \<noteq> J_arr r"
    using assms unfolding EmbeddingInput_UnmarshalJSON_def by (auto split: json.splits list.splits)
  then show ?thesis
  proof cases
    case str
    with assms show ?thesis by (auto simp: EmbeddingInput_UnmarshalJSON_def EmbeddingInput_MarshalJSON_def IsTokenized_def split: if_splits)
  next
    case strs
    then obtain ts where ts: "parseTexts (J_str s # xs) = Some ts" "b = \<lparr>eb_Input = \<lparr>ei_Texts = ts, ei_Tokens = []\<rparr>, eb_single = False\<rparr>"
      using assms by (auto simp: EmbeddingInput_UnmarshalJSON_def simp del: parseTexts.simps)
    with strs parseTexts_inverse [OF ts(1)] show ?thesis by (simp add: EmbeddingInput_MarshalJSON_def IsTokenized_def)
  next
    case rows
    then obtain rs where rs: "those (map (\<lambda>j. case as_array j of None \<Rightarrow> None | Some r \<Rightarrow> parseTokens r) (J_arr row # xs)) = Some rs"
      "b = \<lparr>eb_Input = \<lparr>ei_Texts = [], ei_Tokens = rs\<rparr>, eb_single = False\<rparr>"
      using assms unfolding EmbeddingInput_UnmarshalJSON_def rows json.case list.case by blast
    then have "rs \<noteq> []" using those_length [OF rs(1)] by auto
    with rows rs rows_inverse [OF rs(1)] show ?thesis by (simp add: EmbeddingInput_MarshalJSON_def IsTokenized_def)
  next
    case toks
    then obtain ts where ts: "parseTokens (x # xs) = Some ts" "b = \<lparr>eb_Input = \<lparr>ei_Texts = [], ei_Tokens = [ts]\<rparr>, eb_single = True\<rparr>"
      using assms by (cases x) (auto simp: EmbeddingInput_UnmarshalJSON_def simp del: parseTokens.simps)
    with toks parseTokens_inverse [OF ts(1)] show ?thesis by (simp add: EmbeddingInput_MarshalJSON_def IsTokenized_def)
  qed
qed

text \<open>A response is handed on with its model renamed and nothing else changed.\<close>

lemma response_keeps_fields:
  assumes "ChatResponse_UnmarshalJSON (J_obj t) = Some r"
  shows "\<exists>t'. ChatResponse_MarshalJSON plain (r\<lparr>cp_Model := m\<rparr>) = J_obj t' \<and> map_of t' = (map_of t)(''model'' \<mapsto> J_str m)"
  using assms by (auto simp: ChatResponse_UnmarshalJSON_def ChatResponse_MarshalJSON_def split: option.splits)

text \<open>A controlled request that passes has an explicit limit of at most a million tokens, and the completions together never
  overflow.\<close>

lemma bounded_completion:
  assumes "BoundCustomerCompletion r = (Inr n, r')"
  shows "1 \<le> n \<and> n \<le> 128000000 \<and> (\<exists>limit. OutputTokenLimit r' = Some limit \<and> 1 \<le> limit \<and> limit \<le> n)"
proof -
  define r1 where "r1 = (if OutputTokenLimit r = None then r\<lparr>cr_MaxCompletionTokens := Some 1024\<rparr> else r)"
  obtain limit where l: "OutputTokenLimit r1 = Some limit"
  proof (cases "OutputTokenLimit r")
    case None
    then have "OutputTokenLimit r1 = Some 1024" by (simp add: r1_def) (simp add: OutputTokenLimit_def)
    then show ?thesis by (rule that)
  next
    case (Some n)
    then show ?thesis by (intro that [of n]) (simp add: r1_def)
  qed
  have b: "1 \<le> limit" "limit \<le> 1000000" and r': "r' = r1"
    using assms l by (auto simp: BoundCustomerCompletion_def r1_def [symmetric] Let_def split: if_splits option.splits json.splits)
  have "n = limit \<or> (\<exists>k. 1 \<le> k \<and> k \<le> 128 \<and> n = wrap64 (limit * k))"
    using assms l by (simp add: BoundCustomerCompletion_def r1_def [symmetric] Let_def linorder_not_less split: if_splits option.splits json.splits) blast+
  then show ?thesis
  proof
    assume "\<exists>k. 1 \<le> k \<and> k \<le> 128 \<and> n = wrap64 (limit * k)"
    then obtain k where k: "1 \<le> k" "k \<le> 128" "n = wrap64 (limit * k)" by blast
    have m: "limit * k \<le> 1000000 * 128" by (rule mult_mono) (use b k in auto)
    have ge: "limit * 1 \<le> limit * k" by (rule mult_left_mono) (use b k in auto)
    have "0 \<le> limit * k" using ge b by linarith
    with m have "is_i64 (limit * k)" unfolding i64_defs by linarith
    with k(3) have "n = limit * k" by simp
    with ge m b have "limit \<le> n" "n \<le> 128000000" by linarith+
    with b l r' show ?thesis by auto
  qed (use b l r' in auto)
qed

section \<open>A concrete request\<close>

definition sample_chat :: "(string \<times> json) list" where
  "sample_chat = [(''model'', J_str ''fast''), (''messages'', J_arr [J_obj [(''role'', J_str ''user''), (''content'', J_str ''hi'')]]),
     (''max_tokens'', J_num 5), (''tools'', J_arr []), (''temperature'', J_dec ''0.50'')]"

definition sample_decoded :: chat_request where
  "sample_decoded = \<lparr>cr_Model = ''fast'', cr_Messages = Some [\<lparr>ms_Role = ''user'', ms_Content = ''hi'',
       ms_raw = Some [(''role'', J_str ''user''), (''content'', J_str ''hi'')], ms_originalRole = ''user'', ms_originalContent = ''hi''\<rparr>],
     cr_Stream = False, cr_StreamOptions = None, cr_Temperature = Some (J_dec ''0.5''), cr_MaxTokens = Some 5,
     cr_MaxCompletionTokens = None, cr_User = [], cr_raw = Some sample_chat\<rparr>"

lemma fold_name_sample [simp]:
  "fold_name ''tools'' = ''tools''" "fold_name ''model'' = ''model''" "fold_name ''messages'' = ''messages''"
  "fold_name ''max_tokens'' = ''max_tokens''" "fold_name ''temperature'' = ''temperature''"
  by (simp_all add: fold_name_def lower_char_def)

lemma sample_decodes: "ChatRequest_UnmarshalJSON (\<lambda>_. Some (J_dec ''0.5'')) (J_obj sample_chat) = Some sample_decoded"
  by (simp add: ChatRequest_UnmarshalJSON_def sample_chat_def sample_decoded_def string_field_def struct_field_def messages_field_def
      bool_field_def ptr_field_def float_ptr_field_def int_ptr_field_def ChatMessage_UnmarshalJSON_def textContent_def i64_defs)


end
