(* ===== verification/Sse_Stream.thy ===== *)
theory Sse_Stream
  imports Gw_Prelude
begin

text \<open>
  Server-sent events (\<^verbatim>\<open>internal/api/sse.go\<close>): the line splitter of the scanner, the reader that collects lines into events, and the
  encoder that writes an event to the client.

  \<^item> The scanner hands the splitter what it holds each time bytes arrive; \<open>feed\<close> is the work done for one arrival, the
    lines that come out, and what is held back. A line and an event have at most 1 MiB; the scanner's own limit on a line
    and the reader's limit on an event end the stream with the same error, so the second is modelled.
\<close>

abbreviation LF :: char where "LF \<equiv> CHR 0x0A"
abbreviation CR :: char where "CR \<equiv> CHR 0x0D"

section \<open>Lines\<close>

text \<open>One call of the function that \<open>splitSSELines\<close> returns: how far to advance, the line if there is one, and \<open>skipLF\<close>.\<close>

definition splitSSELines :: "bool \<Rightarrow> string \<Rightarrow> bool \<Rightarrow> nat \<times> string option \<times> bool" where
  "splitSSELines skipLF data0 atEOF =
     (let skip = skipLF \<and> data0 \<noteq> [] \<and> hd data0 = LF;
          data = (if skip then tl data0 else data0);
          pre = (if skip then 1 else 0);
          skip1 = (if data0 = [] then skipLF else False);
          line = takeWhile (\<lambda>b. b \<noteq> LF \<and> b \<noteq> CR) data;
          rest = dropWhile (\<lambda>b. b \<noteq> LF \<and> b \<noteq> CR) data
      in (case rest of
            b # _ \<Rightarrow> (pre + length line + 1, Some line, if b = CR then True else skip1)
          | [] \<Rightarrow> if atEOF \<and> data \<noteq> [] then (pre + length data, Some data, skip1) else (pre, None, skip1)))"

lemma splitSSELines_progress:
  assumes "splitSSELines skipLF held eof = (n, Some line, s)"
  shows "0 < n \<and> n \<le> length held"
proof -
  define skip where "skip \<longleftrightarrow> skipLF \<and> held \<noteq> [] \<and> hd held = LF"
  define data where "data = (if skip then tl held else held)"
  define pre :: nat where "pre = (if skip then 1 else 0)"
  define rest where "rest = dropWhile (\<lambda>b. b \<noteq> LF \<and> b \<noteq> CR) data"
  have len: "pre + length data = length held" unfolding pre_def data_def skip_def by (cases held) auto
  have parts: "length (takeWhile (\<lambda>b. b \<noteq> LF \<and> b \<noteq> CR) data) + length rest = length data"
    unfolding rest_def by (metis length_append takeWhile_dropWhile_id)
  note d = assms [unfolded splitSSELines_def Let_def, folded skip_def, folded data_def pre_def, folded rest_def]
  show ?thesis
  proof (cases rest)
    case Nil
    with d have "n = pre + length data" "data \<noteq> []" by (auto split: if_splits)
    with len show ?thesis by (cases data) auto
  next
    case (Cons b r)
    with d have "n = pre + length (takeWhile (\<lambda>b. b \<noteq> LF \<and> b \<noteq> CR) data) + 1" by auto
    with parts Cons len show ?thesis by simp
  qed
qed

text \<open>The scanner's loop over what it holds, as long as lines come out.\<close>

function scan_held :: "bool \<Rightarrow> string \<Rightarrow> string list \<times> bool \<times> string" where
  "scan_held skipLF held =
     (case splitSSELines skipLF held False of
        (n, None, skip1) \<Rightarrow> ([], skip1, drop n held)
      | (n, Some line, skip1) \<Rightarrow>
          (case scan_held skip1 (drop n held) of (lines, out) \<Rightarrow> (line # lines, out)))"
  by pat_completeness auto
termination
  by (relation "measure (\<lambda>(_, held). length held)") (auto dest!: splitSSELines_progress [OF sym])

declare scan_held.simps [simp del]

record scanner =
  sn_skipLF :: bool
  sn_held :: string

definition feed :: "string \<Rightarrow> scanner \<Rightarrow> string list \<times> scanner" where
  "feed chunk s =
     (case scan_held (sn_skipLF s) (sn_held s @ chunk) of
        (lines, skip1, held1) \<Rightarrow> (lines, \<lparr>sn_skipLF = skip1, sn_held = held1\<rparr>))"

definition end_of_input :: "scanner \<Rightarrow> string list" where
  "end_of_input s = (case splitSSELines (sn_skipLF s) (sn_held s) True of (n, Some line, _) \<Rightarrow> [line] | (n, None, _) \<Rightarrow> [])"

fun feed_all :: "string list \<Rightarrow> scanner \<Rightarrow> string list \<times> scanner" where
  "feed_all [] s = ([], s)"
| "feed_all (c # cs) s = (case feed c s of (ls, s1) \<Rightarrow> case feed_all cs s1 of (ls2, s2) \<Rightarrow> (ls @ ls2, s2))"

definition new_scanner :: scanner where
  "new_scanner = \<lparr>sn_skipLF = False, sn_held = []\<rparr>"

definition scan_chunks :: "string list \<Rightarrow> string list" where
  "scan_chunks cs = (case feed_all cs new_scanner of (ls, s) \<Rightarrow> ls @ end_of_input s)"

section \<open>Events\<close>

definition maxStreamEventBytes :: nat where "maxStreamEventBytes = 1024 * 1024"

record sse_event =
  se_fields :: string
  se_data :: string
  se_hasData :: bool

datatype sse_error = StreamEventTooLarge | EndOfStream

definition byte_order_mark :: string where "byte_order_mark = [CHR 0xEF, CHR 0xBB, CHR 0xBF]"

definition TrimPrefix :: "string \<Rightarrow> string \<Rightarrow> string" where
  "TrimPrefix s p = (if take (length p) s = p then drop (length p) s else s)"

text \<open>\<open>strings.Cut\<close> at a colon.\<close>

definition cut_colon :: "string \<Rightarrow> string \<times> string" where
  "cut_colon line = (takeWhile (\<lambda>c. c \<noteq> CHR '':'') line, drop 1 (dropWhile (\<lambda>c. c \<noteq> CHR '':'') line))"

definition add_line :: "string \<Rightarrow> sse_event \<Rightarrow> sse_event" where
  "add_line line e =
     (case cut_colon line of
        (field, value) \<Rightarrow>
          if field = ''data''
          then e\<lparr>se_data := se_data e @ (if se_hasData e then [LF] else []) @ TrimPrefix value '' '', se_hasData := True\<rparr>
          else e\<lparr>se_fields := se_fields e @ line @ [LF]\<rparr>)"

text \<open>\<open>next\<close>: an event or the error, the lines left, and whether the next line is the first of the stream.\<close>

fun next_event :: "bool \<Rightarrow> nat \<Rightarrow> sse_event \<Rightarrow> string list \<Rightarrow> (sse_error + sse_event) \<times> string list \<times> bool" where
  "next_event first sz e [] = (Inl EndOfStream, [], first)"
| "next_event first sz e (line0 # lines) =
     (let line = (if first then TrimPrefix line0 byte_order_mark else line0);
          sz1 = sz + length line + 1
      in if sz1 > maxStreamEventBytes then (Inl StreamEventTooLarge, lines, False)
         else if line = [] then (Inr e, lines, False)
         else next_event False sz1 (add_line line e) lines)"

definition empty_event :: sse_event where
  "empty_event = \<lparr>se_fields = [], se_data = [], se_hasData = False\<rparr>"

lemma next_event_shorter: "next_event first sz e lines = (Inr ev, rest, f) \<Longrightarrow> length rest < length lines"
  by (induction first sz e lines rule: next_event.induct) (fastforce simp: Let_def split: if_splits)+

function read_events :: "bool \<Rightarrow> string list \<Rightarrow> sse_event list \<times> sse_error" where
  "read_events first lines =
     (case next_event first 0 empty_event lines of
        (Inl err, rest, f) \<Rightarrow> ([], err)
      | (Inr ev, rest, f) \<Rightarrow> (case read_events f rest of (evs, err) \<Rightarrow> (ev # evs, err)))"
  by pat_completeness auto
termination by (relation "measure (\<lambda>(_, lines). length lines)") (auto intro: next_event_shorter [OF sym])

declare read_events.simps [simp del]

fun split_lf :: "string \<Rightarrow> string list" where
  "split_lf [] = [[]]"
| "split_lf (c # cs) = (if c = LF then [] # split_lf cs else (case split_lf cs of [] \<Rightarrow> [[c]] | l # ls \<Rightarrow> (c # l) # ls))"

definition data_line :: "string \<Rightarrow> string" where
  "data_line line = ''data: '' @ line"

definition encode :: "sse_event \<Rightarrow> string \<Rightarrow> string" where
  "encode e data =
     se_fields e @ (if se_hasData e then concat (map (\<lambda>line. data_line line @ [LF]) (split_lf data)) else []) @ [LF]"

section \<open>Lines do not depend on how the bytes arrive\<close>

text \<open>The lines of a text, read byte by byte.\<close>

fun byte_step :: "char \<Rightarrow> string list \<times> bool \<times> string \<Rightarrow> string list \<times> bool \<times> string" where
  "byte_step c (ls, skip, cur) =
     (if c = LF then (if skip then (ls, False, cur) else (ls @ [cur], False, []))
      else if c = CR then (ls @ [cur], True, [])
      else (ls, False, cur @ [c]))"

definition plain_byte :: "char \<Rightarrow> bool" where
  "plain_byte b \<longleftrightarrow> b \<noteq> LF \<and> b \<noteq> CR"

lemma fold_plain:
  "list_all plain_byte l \<Longrightarrow> fold byte_step l (ls, skip, cur) = (ls, skip \<and> l = [], cur @ l)"
  by (induction l arbitrary: skip cur) (auto simp: plain_byte_def)

lemma fold_shift: "fold byte_step xs (ls @ ls0, skip, cur) =
    (case fold byte_step xs (ls0, skip, cur) of (ls1, out) \<Rightarrow> (ls @ ls1, out))"
proof (induction xs arbitrary: ls0 skip cur)
  case (Cons x xs)
  show ?case
  proof (cases "x = LF")
    case True
    then show ?thesis using Cons.IH [of ls0 False cur] Cons.IH [of "ls0 @ [cur]" False "[]"] by simp
  next
    case F: False
    then show ?thesis
      using Cons.IH [of "ls0 @ [cur]" True "[]"] Cons.IH [of ls0 False "cur @ [x]"] by (cases "x = CR") simp_all
  qed
qed simp

lemma scan_held_bytes: "scan_held skip held = fold byte_step held ([], skip, [])"
proof (induction skip held rule: scan_held.induct)
  case (1 skipLF held)
  define skip where "skip \<longleftrightarrow> skipLF \<and> held \<noteq> [] \<and> hd held = LF"
  define data where "data = (if skip then tl held else held)"
  define pre :: nat where "pre = (if skip then 1 else 0)"
  define line where "line = takeWhile plain_byte data"
  define rest where "rest = dropWhile plain_byte data"
  have pb: "plain_byte = (\<lambda>b. b \<noteq> LF \<and> b \<noteq> CR)" by (auto simp: plain_byte_def fun_eq_iff)
  define skip1 where "skip1 \<longleftrightarrow> held = [] \<and> skipLF"
  have split: "splitSSELines skipLF held False =
      (case rest of b # _ \<Rightarrow> (pre + length line + 1, Some line, b = CR \<or> skip1) | [] \<Rightarrow> (pre, None, skip1))"
    unfolding splitSSELines_def Let_def skip_def [symmetric] data_def [symmetric] pre_def [symmetric] pb [symmetric]
      line_def [symmetric] rest_def [symmetric] skip1_def by (auto split: list.splits)
  have dr: "data = line @ rest" by (simp add: line_def rest_def)
  have lp: "list_all plain_byte line" by (auto simp: line_def list_all_iff dest: set_takeWhileD)
  have held: "fold byte_step held ([], skipLF, []) = fold byte_step data ([], skip1 \<or> (skipLF \<and> \<not> skip \<and> held \<noteq> []), [])"
    by (cases held) (auto simp: data_def skip_def skip1_def)
  have dp: "drop (pre + k) held = drop k data" for k by (cases held) (auto simp: pre_def data_def skip_def)
  show ?case
  proof (cases rest)
    case Nil
    then have "scan_held skipLF held = ([], skip1, data)" using split dp [of 0] by (simp add: scan_held.simps)
    moreover have "fold byte_step held ([], skipLF, []) = ([], skip1, data)"
      unfolding held using Nil dr lp fold_plain [of data "[]"] skip1_def by (cases held) (auto simp: data_def skip_def split: if_splits)
    ultimately show ?thesis by simp
  next
    case (Cons b r)
    have b: "\<not> plain_byte b" using Cons by (metis rest_def hd_dropWhile list.sel(1) list.distinct(1))
    have s: "splitSSELines skipLF held False = (pre + (length line + 1), Some line, b = CR \<or> skip1)" using split Cons by simp
    have h: "held \<noteq> []" using Cons dr by (auto simp: data_def split: if_splits)
    then have n1: "\<not> skip1" by (simp add: skip1_def)
    have "drop (length line + 1) data = r" using dr Cons by simp
    then have sc: "scan_held skipLF held = (case scan_held (b = CR) r of (lines, out) \<Rightarrow> (line # lines, out))"
      using s n1 dp [of "length line + 1"] by (simp add: scan_held.simps [of skipLF held])
    have ih: "scan_held (b = CR) r = fold byte_step r ([], b = CR, [])"
      using "1.IH" [OF s [symmetric]] n1 dp [of "length line + 1"] \<open>drop (length line + 1) data = r\<close> by simp
    have "b = CR \<or> b = LF" using b by (auto simp: plain_byte_def)
    moreover have "b = LF \<Longrightarrow> line = [] \<Longrightarrow> \<not> (skipLF \<and> \<not> skip)"
      using dr Cons h by (cases held) (auto simp: data_def skip_def split: if_splits)
    ultimately have "fold byte_step data ([], skipLF \<and> \<not> skip, []) = fold byte_step r ([line], b = CR, [])"
      using dr Cons lp by (auto simp: fold_plain)
    then show ?thesis
      using sc ih held n1 h fold_shift [of r "[line]" "[]" "b = CR" "[]"] by (simp add: skip1_def split: prod.splits)
  qed
qed

definition held_ok :: "bool \<Rightarrow> string \<Rightarrow> bool" where
  "held_ok skip cur \<longleftrightarrow> list_all plain_byte cur \<and> (cur \<noteq> [] \<longrightarrow> \<not> skip)"

definition scan_ok :: "string list \<times> bool \<times> string \<Rightarrow> bool" where
  "scan_ok st = (case st of (ls, skip, cur) \<Rightarrow> (\<forall>l \<in> set ls. list_all plain_byte l) \<and> held_ok skip cur)"

lemma byte_step_ok: "scan_ok st \<Longrightarrow> scan_ok (byte_step c st)"
  by (cases st) (auto simp: scan_ok_def held_ok_def plain_byte_def)

lemma fold_scan_ok: "scan_ok st \<Longrightarrow> scan_ok (fold byte_step xs st)"
  by (induction xs arbitrary: st) (simp_all add: byte_step_ok del: byte_step.simps)

lemma fold_held_ok: "fold byte_step xs ([], skip, cur) = (ls', skip', cur') \<Longrightarrow> held_ok skip cur \<Longrightarrow> held_ok skip' cur'"
  using fold_scan_ok [of "([], skip, cur)" xs] by (simp add: scan_ok_def)

lemma feed_bytes:
  assumes "held_ok (sn_skipLF s) (sn_held s)"
  shows "feed chunk s = (case fold byte_step chunk ([], sn_skipLF s, sn_held s) of (ls, skip, cur) \<Rightarrow> (ls, \<lparr>sn_skipLF = skip, sn_held = cur\<rparr>))"
proof -
  have "(sn_skipLF s \<and> sn_held s = []) = sn_skipLF s" using assms by (auto simp: held_ok_def)
  then have "fold byte_step (sn_held s @ chunk) ([], sn_skipLF s, []) = fold byte_step chunk ([], sn_skipLF s, sn_held s)"
    using assms fold_plain [of "sn_held s" "[]" "sn_skipLF s" "[]"] by (simp add: held_ok_def)
  then show ?thesis by (simp add: feed_def scan_held_bytes)
qed

lemma feed_all_bytes:
  assumes "held_ok (sn_skipLF s) (sn_held s)"
  shows "feed_all cs s = (case fold byte_step (concat cs) ([], sn_skipLF s, sn_held s) of (ls, skip, cur) \<Rightarrow> (ls, \<lparr>sn_skipLF = skip, sn_held = cur\<rparr>))"
  using assms
proof (induction cs arbitrary: s)
  case (Cons c cs)
  obtain ls skip cur where f: "fold byte_step c ([], sn_skipLF s, sn_held s) = (ls, skip, cur)" using prod_cases3 by blast
  have ok: "held_ok skip cur" by (rule fold_held_ok [OF f Cons.prems])
  show ?case
    using Cons.IH [of "\<lparr>sn_skipLF = skip, sn_held = cur\<rparr>"] ok f feed_bytes [OF Cons.prems, of c]
      fold_shift [of "concat cs" ls "[]" skip cur] by (simp split: prod.splits)
qed simp

text \<open>The lines of a text.\<close>

definition lines_of :: "string \<Rightarrow> string list" where
  "lines_of t = (case fold byte_step t ([], False, []) of (ls, skip, cur) \<Rightarrow> ls @ (if cur = [] then [] else [cur]))"

theorem lines_independent_of_chunks: "scan_chunks cs = lines_of (concat cs)"
proof -
  obtain ls skip cur where f: "fold byte_step (concat cs) ([], False, []) = (ls, skip, cur)" using prod_cases3 by blast
  have ok: "held_ok skip cur" by (rule fold_held_ok [OF f]) (simp add: held_ok_def)
  have plain: "takeWhile (\<lambda>b. b \<noteq> LF \<and> b \<noteq> CR) cur = cur" "dropWhile (\<lambda>b. b \<noteq> LF \<and> b \<noteq> CR) cur = []"
    using ok by (auto simp: held_ok_def list_all_iff plain_byte_def takeWhile_eq_all_conv dropWhile_eq_Nil_conv)
  have "end_of_input \<lparr>sn_skipLF = skip, sn_held = cur\<rparr> = (if cur = [] then [] else [cur])"
    using ok plain by (cases cur) (auto simp: end_of_input_def splitSSELines_def Let_def held_ok_def)
  then show ?thesis
    using feed_all_bytes [of new_scanner cs] f by (simp add: scan_chunks_def lines_of_def new_scanner_def held_ok_def)
qed

section \<open>An event that is forwarded arrives\<close>

abbreviation unlines :: "string list \<Rightarrow> string" where
  "unlines ls \<equiv> concat (map (\<lambda>l. l @ [LF]) ls)"

lemma fold_unlines: "\<forall>l \<in> set ls. list_all plain_byte l \<Longrightarrow> fold byte_step (unlines ls) (ls0, False, []) = (ls0 @ ls, False, [])"
  by (induction ls arbitrary: ls0) (auto simp: fold_plain)

lemma lines_of_unlines: "\<forall>l \<in> set ls. list_all plain_byte l \<Longrightarrow> lines_of (unlines ls) = ls"
  by (simp add: lines_of_def fold_unlines)

lemma plain_lines_of: "l \<in> set (lines_of t) \<Longrightarrow> list_all plain_byte l"
  using fold_scan_ok [of "([], False, [])" t]
  by (auto simp: lines_of_def scan_ok_def held_ok_def split: prod.splits if_splits)

definition field_line :: "string \<Rightarrow> bool" where
  "field_line l \<longleftrightarrow> l \<noteq> [] \<and> list_all plain_byte l \<and> fst (cut_colon l) \<noteq> ''data''"

text \<open>An event as the reader makes it: its fields are lines, and it has data only if a line had.\<close>

definition event_ok :: "sse_event \<Rightarrow> bool" where
  "event_ok e \<longleftrightarrow> (\<exists>fs. se_fields e = unlines fs \<and> list_all field_line fs) \<and> (\<not> se_hasData e \<longrightarrow> se_data e = [])"

lemma add_line_ok:
  assumes "event_ok e" and "l \<noteq> []" and "list_all plain_byte l"
  shows "event_ok (add_line l e)"
proof -
  from assms(1) obtain fs where fs: "se_fields e = unlines fs" "list_all field_line fs" by (auto simp: event_ok_def)
  have "unlines (fs @ [l]) = unlines fs @ l @ [LF]" by simp
  then show ?thesis using assms fs
    by (cases "fst (cut_colon l) = ''data''") (auto simp: event_ok_def add_line_def field_line_def split: prod.splits intro!: exI [of _ "fs @ [l]"])
qed

lemma TrimPrefix_plain: "list_all plain_byte l \<Longrightarrow> list_all plain_byte (TrimPrefix l p)"
  by (auto simp: TrimPrefix_def list_all_iff dest: in_set_dropD)

lemma next_event_ok:
  "next_event first sz e ls = (Inr ev, rest, f) \<Longrightarrow> event_ok e \<Longrightarrow> \<forall>l \<in> set ls. list_all plain_byte l \<Longrightarrow>
     event_ok ev \<and> (\<forall>l \<in> set rest. list_all plain_byte l)"
proof (induction first sz e ls rule: next_event.induct)
  case (2 first sz e line0 ls)
  define line where "line = (if first then TrimPrefix line0 byte_order_mark else line0)"
  have p: "list_all plain_byte line" using 2(4) by (auto simp: line_def TrimPrefix_plain)
  show ?case
  proof (cases "line = []")
    case True
    with 2(2,3,4) show ?thesis by (auto simp: line_def [symmetric] Let_def split: if_splits)
  next
    case False
    with 2(2) have n: "next_event False (sz + length line + 1) (add_line line e) ls = (Inr ev, rest, f)" "\<not> sz + length line + 1 > maxStreamEventBytes"
      by (auto simp: line_def [symmetric] Let_def split: if_splits)
    show ?thesis using 2(1) [OF line_def refl n(2) False n(1) add_line_ok [OF 2(3) False p]] 2(4) by simp
  qed
qed simp

lemma read_events_ok: "\<forall>l \<in> set ls. list_all plain_byte l \<Longrightarrow> ev \<in> set (fst (read_events first ls)) \<Longrightarrow> event_ok ev"
proof (induction first ls rule: read_events.induct)
  case (1 first ls)
  obtain x rest f where n: "next_event first 0 empty_event ls = (x, rest, f)" using prod_cases3 by blast
  have e0: "event_ok empty_event" by (auto simp: event_ok_def empty_event_def intro!: exI [of _ "[]"])
  show ?case
  proof (cases x)
    case (Inl err)
    with 1(3) n show ?thesis by (simp add: read_events.simps [of first ls])
  next
    case (Inr ev0)
    note ok = next_event_ok [OF n [unfolded Inr] e0 1(2)]
    from 1(3) n Inr have "ev = ev0 \<or> ev \<in> set (fst (read_events f rest))"
      by (auto simp: read_events.simps [of first ls] split: prod.splits)
    then show ?thesis using 1(1) [OF n [symmetric] Inr] ok by (metis fst_conv snd_conv)
  qed
qed

fun join_lf :: "string list \<Rightarrow> string" where
  "join_lf [] = []"
| "join_lf [x] = x"
| "join_lf (x # xs) = x @ LF # join_lf xs"

lemma split_lf_not_Nil: "split_lf t \<noteq> []"
  by (cases t) (auto split: list.splits)

lemma join_lf_Cons: "xs \<noteq> [] \<Longrightarrow> join_lf (x # xs) = x @ LF # join_lf xs"
  by (cases xs) auto

lemma join_split_lf: "join_lf (split_lf t) = t"
proof (induction t)
  case (Cons c t)
  obtain l ls where sp: "split_lf t = l # ls" using split_lf_not_Nil [of t] by (cases "split_lf t") auto
  with Cons show ?case by (cases ls) auto
qed simp

lemma split_lf_plain: "CR \<notin> set t \<Longrightarrow> \<forall>l \<in> set (split_lf t). list_all plain_byte l"
  by (induction t) (auto simp: plain_byte_def split: list.splits)

lemma add_data_line: "add_line (data_line l) e = e\<lparr>se_data := se_data e @ (if se_hasData e then [LF] else []) @ l, se_hasData := True\<rparr>"
  by (simp add: add_line_def cut_colon_def TrimPrefix_def data_line_def)

lemma fold_data_lines:
  "fold add_line (map data_line ls) (e\<lparr>se_data := d, se_hasData := True\<rparr>) =
     e\<lparr>se_data := d @ concat (map (\<lambda>l. LF # l) ls), se_hasData := True\<rparr>"
  by (induction ls arbitrary: d) (simp_all add: add_data_line)

lemma join_lf_concat: "join_lf (l # ls) = l @ concat (map (\<lambda>l. LF # l) ls)"
  by (induction ls arbitrary: l) (simp_all add: join_lf_Cons)

lemma fold_data:
  assumes "\<not> se_hasData e" and "se_data e = []" and "ls \<noteq> []"
  shows "fold add_line (map data_line ls) e = e\<lparr>se_data := join_lf ls, se_hasData := True\<rparr>"
proof -
  obtain l ls' where ls: "ls = l # ls'" using assms(3) by (cases ls) auto
  have 1: "add_line (data_line l) e = e\<lparr>se_data := l, se_hasData := True\<rparr>" using assms by (simp add: add_data_line)
  have "fold add_line (map data_line ls) e = fold add_line (map data_line ls') (add_line (data_line l) e)"
    by (simp add: ls)
  also have "\<dots> = e\<lparr>se_data := l @ concat (map (\<lambda>l. LF # l) ls'), se_hasData := True\<rparr>" unfolding 1 by (rule fold_data_lines)
  finally show ?thesis by (simp add: ls join_lf_concat)
qed

lemma fold_field_lines: "list_all field_line fs \<Longrightarrow> fold add_line fs e = e\<lparr>se_fields := se_fields e @ unlines fs\<rparr>"
  by (induction fs arbitrary: e) (auto simp: add_line_def field_line_def split: prod.splits)

lemma next_event_lines:
  assumes "\<forall>l \<in> set ls. l \<noteq> []" and "sz + length (unlines ls) + 1 \<le> maxStreamEventBytes"
  shows "next_event False sz e (ls @ [] # rest) = (Inr (fold add_line ls e), rest, False)"
  using assms
proof (induction ls arbitrary: sz e)
  case (Cons l ls)
  then show ?case using Cons.IH [of "sz + length l + 1" "add_line l e"] by (simp add: Let_def)
qed (simp add: Let_def)

lemma encode_lines:
  assumes "se_fields e = unlines fs"
  shows "encode e data = unlines ((fs @ (if se_hasData e then map data_line (split_lf data) else [])) @ [[]])"
  using assms by (simp add: encode_def comp_def)

text \<open>C37: Events pass through the gateway intact, however the network cuts them. Take any event that the reader makes of an upstream
  stream, in whatever pieces its bytes arrive, and write it to the client with new data (without carriage returns, which JSON
  escapes); a client that reads it, again in any pieces, gets exactly one event with the same fields and that data.\<close>

theorem forwarded_event_arrives:
  assumes "ev \<in> set (fst (read_events first (scan_chunks upstream)))" and "CR \<notin> set data"
    and "length (encode ev data) \<le> maxStreamEventBytes" and "concat pieces = encode ev data"
  shows "read_events False (scan_chunks pieces) = ([ev\<lparr>se_data := if se_hasData ev then data else []\<rparr>], EndOfStream)"
proof -
  have "event_ok ev"
    by (rule read_events_ok [OF _ assms(1)]) (auto simp: lines_independent_of_chunks intro: plain_lines_of)
  then obtain fs where fs: "se_fields ev = unlines fs" "list_all field_line fs" by (auto simp: event_ok_def)
  define ds where "ds = (if se_hasData ev then map data_line (split_lf data) else [])"
  have enc: "encode ev data = unlines ((fs @ ds) @ [[]])" unfolding ds_def by (rule encode_lines [OF fs(1)])
  have "list_all plain_byte l" if "l \<in> set fs" for l using fs(2) that by (simp add: list_all_iff field_line_def)
  moreover have "list_all plain_byte l" if "l \<in> set ds" for l
  proof -
    from that obtain x where "x \<in> set (split_lf data)" "l = data_line x" by (auto simp: ds_def split: if_splits)
    with split_lf_plain [OF assms(2)] show ?thesis by (simp add: data_line_def) (simp add: plain_byte_def)
  qed
  ultimately have pl: "\<forall>l \<in> set ((fs @ ds) @ [[]]). list_all plain_byte l" by auto
  then have lines: "scan_chunks pieces = (fs @ ds) @ [[]]"
    by (simp add: lines_independent_of_chunks assms(4) enc lines_of_unlines del: map_append concat_append append_assoc)
  have ne: "\<forall>l \<in> set (fs @ ds). l \<noteq> []" using fs(2) by (auto simp: ds_def list_all_iff field_line_def data_line_def)
  have len: "0 + length (unlines (fs @ ds)) + 1 \<le> maxStreamEventBytes" using assms(3) enc by simp
  have f1: "fold add_line fs empty_event = empty_event\<lparr>se_fields := unlines fs\<rparr>" using fold_field_lines [OF fs(2)] by (simp add: empty_event_def)
  have "fold add_line (fs @ ds) empty_event = ev\<lparr>se_data := if se_hasData ev then data else []\<rparr>"
  proof (cases "se_hasData ev")
    case True
    have "fold add_line (fs @ ds) empty_event = fold add_line (map data_line (split_lf data)) (empty_event\<lparr>se_fields := unlines fs\<rparr>)"
      using f1 True by (simp add: ds_def)
    also have "\<dots> = empty_event\<lparr>se_fields := unlines fs, se_data := data, se_hasData := True\<rparr>"
      by (subst fold_data) (simp_all add: empty_event_def split_lf_not_Nil join_split_lf)
    finally show ?thesis using fs(1) True by (simp add: empty_event_def)
  next
    case False
    then show ?thesis using f1 fs(1) by (simp add: ds_def empty_event_def)
  qed
  with next_event_lines [OF ne len, of empty_event "[]"]
  have "next_event False 0 empty_event (scan_chunks pieces) = (Inr (ev\<lparr>se_data := if se_hasData ev then data else []\<rparr>), [], False)"
    by (simp add: lines)
  then show ?thesis by (simp add: read_events.simps [of _ "scan_chunks pieces"] read_events.simps [of _ "[]"])
qed

theorem forwarded_event_arrives_witness:
  "read_events False (scan_chunks [''id: 1'', [CR, LF] @ ''data: x'', [LF], [LF]]) =
     ([\<lparr>se_fields = ''id: 1'' @ [LF], se_data = ''x'', se_hasData = True\<rparr>], EndOfStream)"
proof -
  define ev where "ev = \<lparr>se_fields = ''id: 1'' @ [LF], se_data = ''y'', se_hasData = True\<rparr>"
  have r: "ev \<in> set (fst (read_events True (scan_chunks [''id: 1'' @ [CR], [LF] @ ''da'', ''ta:y'' @ [LF, LF]])))"
    unfolding lines_independent_of_chunks ev_def
    by (simp add: lines_of_def read_events.simps Let_def TrimPrefix_def byte_order_mark_def maxStreamEventBytes_def add_line_def cut_colon_def empty_event_def)
  have e: "encode ev ''x'' = ''id: 1'' @ [LF] @ ''data: x'' @ [LF, LF]" by (simp add: encode_def ev_def data_line_def)
  have "read_events False (scan_chunks [''id: 1'' @ [LF] @ ''data: x'' @ [LF, LF]]) = ([ev\<lparr>se_data := ''x''\<rparr>], EndOfStream)"
    using forwarded_event_arrives [OF r, of "''x''" "[''id: 1'' @ [LF] @ ''data: x'' @ [LF, LF]]"] e
    by (simp add: maxStreamEventBytes_def) (simp add: ev_def)
  then show ?thesis unfolding lines_independent_of_chunks by (simp add: lines_of_def ev_def)
qed

end
