(* ===== verification/Json_Text.thy ===== *)
theory Json_Text
  imports Prompt_Cache
begin

text \<open>
  Bodies as text: the reader and the writer of \<open>Prompt_Cache\<close> with a number kept as its text, between bytes and the values of
  \<open>Json_Value\<close>. \<open>parse_json\<close> is \<open>json.Unmarshal\<close>, which accepts one value and space around it; \<open>decode_json\<close> is the first value
  a \<open>json.Decoder\<close> reads, whatever follows it; \<open>write_json\<close> is \<open>json.Marshal\<close> up to the order of the fields.
\<close>

definition digit :: "char \<Rightarrow> bool" where
  "digit c \<longleftrightarrow> c \<in> set ''0123456789''"

text \<open>The grammar of a JSON number, and the numbers that are written as integers.\<close>

definition int_text :: "string \<Rightarrow> bool" where
  "int_text s = (let d = (if take 1 s = ''-'' then drop 1 s else s) in d \<noteq> [] \<and> list_all digit d \<and> (length d = 1 \<or> hd d \<noteq> CHR ''0''))"

definition json_number :: "string \<Rightarrow> bool" where
  "json_number s =
     (let whole = takeWhile (\<lambda>c. digit c \<or> c = CHR ''-'') s; r1 = drop (length whole) s;
          frac = (if take 1 r1 = ''.'' then takeWhile digit (drop 1 r1) else []);
          r2 = (if take 1 r1 = ''.'' then drop (1 + length frac) r1 else r1);
          e1 = drop 1 r2; e2 = (if take 1 e1 \<in> {''+'', ''-''} then drop 1 e1 else e1)
      in int_text whole \<and> (take 1 r1 = ''.'' \<longrightarrow> frac \<noteq> [])
         \<and> (r2 = [] \<or> take 1 r2 \<in> {''e'', ''E''} \<and> e2 \<noteq> [] \<and> list_all digit e2))"

fun to_json :: "string any \<Rightarrow> json" where
  "to_json A_nil = J_null"
| "to_json (A_bool b) = J_bool b"
| "to_json (A_num t) =
     (if int_text t then J_num (if take 1 t = ''-'' then - int (digits_value (drop 1 t) 0) else int (digits_value t 0)) else J_dec t)"
| "to_json (A_str s) = J_str s"
| "to_json (A_arr vs) = J_arr (map to_json vs)"
| "to_json (A_obj t) = J_obj (map (\<lambda>(k, v). (k, to_json v)) t)"

fun of_json :: "json \<Rightarrow> string any" where
  "of_json J_null = A_nil"
| "of_json (J_bool b) = A_bool b"
| "of_json (J_num n) = A_num (show_int n)"
| "of_json (J_dec t) = A_num t"
| "of_json (J_str s) = A_str s"
| "of_json (J_arr vs) = A_arr (map of_json vs)"
| "of_json (J_obj t) = A_obj (map (\<lambda>(k, v). (k, of_json v)) t)"

definition parse_json :: "string \<Rightarrow> json option" where
  "parse_json s =
     (case read_value (\<lambda>t. if json_number t then Some t else None) (Suc (length s)) s of
        Some (v, r) \<Rightarrow> if skip_space r = [] then Some (to_json v) else None
      | None \<Rightarrow> None)"

definition write_json :: "json \<Rightarrow> string" where
  "write_json j = marshalSorted (\<lambda>t. t) (of_json j)"

definition decode_json :: "string \<Rightarrow> json option" where
  "decode_json s =
     map_option (\<lambda>(v, r). to_json v) (read_value (\<lambda>t. if json_number t then Some t else None) (Suc (length s)) s)"

end
