(* ===== verification/Chat_Path.thy ===== *)
theory Chat_Path
  imports Request_Path Wire_Format Json_Text Sse_Stream
begin

text \<open>
  The chat endpoint (\<open>ChatCompletions\<close>, \<open>replayCachedChat\<close> and \<open>streamChat\<close> in \<^verbatim>\<open>internal/api/v1.go\<close>), the stream proxy (\<^verbatim>\<open>stream.go\<close>)
  and the check that a budgeted request can be priced (\<^verbatim>\<open>customer_admission.go\<close>), composed of the parts of the other theories.

  \<^item> A body is its text; \<open>parse_json\<close> and \<open>write_json\<close> are \<open>encoding/json\<close>. The state is that of \<open>Request_Path\<close> and the
    prompt cache. A reply comes with its body.
  \<^item> \<open>chat_env\<close> has what a call meets outside: the database, Redis, the upstreams and the clocks. An opened stream is the
    list of what the reader pulls from it, each with whether the idle timer and the write to the client succeed.
  \<^item> Payload capture, the text it collects, callbacks, metrics and traces are left out.
\<close>

section \<open>State and environment\<close>

record cache_entry =
  en_StatusCode :: int
  en_Body :: json
  en_PromptTokens :: int
  en_CompletionTokens :: int
  en_UpstreamModel :: string
  en_OriginRequestID :: string
  en_OriginDeployment :: string
  en_CachedAt :: gotime

record chat_state =
  ct_v1 :: v1_state
  ct_cache :: "cache_entry prompt_cache option"

datatype stream_error = Stream_call call_error | Stream_write | Stream_guard int string | Stream_reported

record pull =
  pl_event :: "stream_error + sse_event"
  pl_pause :: "stream_error option"
  pl_write :: bool

record 'n chat_env =
  cx_admit :: "chat_response admit_env"
  cx_deny :: db_env
  cx_fold :: "rune \<Rightarrow> rune"
  cx_pre_up :: bool
  cx_post_up :: bool
  cx_refloat :: "json \<Rightarrow> json option"
  cx_rate_ms :: int
  cx_rate_now :: gotime
  cx_rate :: db_env
  cx_digest :: "string \<Rightarrow> string"
  cx_num_of :: "string \<Rightarrow> 'n option"
  cx_num :: "'n \<Rightarrow> string"
  cx_cache_up :: bool
  cx_cache_ms :: int
  cx_load_sa :: "int \<Rightarrow> string + service_account"
  cx_budget :: db_env
  cx_attempts :: "chat_response attempt_env list"
  cx_streams :: "pull list attempt_env list"
  cx_ctx_err :: "call_error option"
  cx_record :: db_env
  cx_marshal :: "usage \<Rightarrow> string"
  cx_plain :: "chat_response \<Rightarrow> json"
  cx_started :: gotime
  cx_timings :: timings
  cx_release :: "chat_response attempt_env"
  cx_finish :: db_env

definition raw_ok :: "string \<Rightarrow> bool" where
  "raw_ok raw \<longleftrightarrow> int (length raw) \<le> MaxPayload \<and> utf8_runes raw \<noteq> None"

section \<open>Before the call\<close>

text \<open>The endpoint's guard: the request as the policies rewrote it.\<close>

definition chat_guard ::
  "'n chat_env \<Rightarrow> inference_request \<Rightarrow> guardrail_run option \<Rightarrow> chat_request \<Rightarrow> string \<Rightarrow> v1_state
    \<Rightarrow> (reply + chat_request \<times> string) \<times> guardrail_run option \<times> v1_state" where
  "chat_guard cx r guard q raw v =
     (case guard of
        None \<Rightarrow> (Inr (q, raw), None, v)
      | Some g \<Rightarrow>
          (case guardrailPre (cx_fold cx) (cx_pre_up cx) (raw_ok raw) (parse_json raw) guard (v_decisions v) of
             (Inl (status, code), g', log) \<Rightarrow>
               (Inl (error_reply status code), g',
                recordDenial (cx_deny cx) (r\<lparr>rq_id := gd_requestID g\<rparr>) (gd_alias g) status code (v\<lparr>v_decisions := log\<rparr>))
           | (Inr out, g', log) \<Rightarrow>
               let raw' = write_json (the out); v' = v\<lparr>v_decisions := log\<rparr> in
               (case Option.bind (parse_json raw') (ChatRequest_UnmarshalJSON (cx_refloat cx)) of
                  None \<Rightarrow> (Inl (error_reply 503 ''guardrail_unavailable''), g', v')
                | Some q' \<Rightarrow> (Inr (q', raw'), g', v'))))"

definition given_field :: "string \<Rightarrow> (string \<times> json) list \<Rightarrow> json option" where
  "given_field key body = (case map_of body key of None \<Rightarrow> None | Some J_null \<Rightarrow> None | Some j \<Rightarrow> Some j)"

definition audio_part :: "json \<Rightarrow> bool" where
  "audio_part p = (case p of J_obj t \<Rightarrow> struct_field ''type'' t = Some (J_str ''input_audio'') | _ \<Rightarrow> False)"

definition audio_message :: "json \<Rightarrow> bool" where
  "audio_message m =
     (case m of J_obj t \<Rightarrow> (case struct_field ''content'' t of Some (J_arr parts) \<Rightarrow> list_ex audio_part parts | _ \<Rightarrow> False) | _ \<Rightarrow> False)"

definition unsupported :: "(string \<times> json) list \<Rightarrow> bool" where
  "unsupported body \<longleftrightarrow>
     list_ex (\<lambda>key. given_field key body \<noteq> None) [''audio'', ''web_search_options'', ''prediction'', ''moderation'']
     \<or> (case given_field ''service_tier'' body of None \<Rightarrow> False | Some j \<Rightarrow> j \<noteq> J_str ''default'')
     \<or> (case given_field ''modalities'' body of
          None \<Rightarrow> False
        | Some (J_arr xs) \<Rightarrow> list_ex (\<lambda>x. x \<noteq> J_str ''text'') xs
        | Some _ \<Rightarrow> True)
     \<or> (case map_of body ''messages'' of Some (J_arr xs) \<Rightarrow> list_ex audio_message xs | _ \<Rightarrow> False)"

definition customer_limited :: "inference_request \<Rightarrow> bool" where
  "customer_limited r = (case rq_customer r of None \<Rightarrow> False | Some c \<Rightarrow> c_UsdLimitCents c \<noteq> None)"

text \<open>\<open>admitCustomerPricing\<close>; a body that does not decode, which the endpoint has excluded, ends the request without a reply of its own.\<close>

definition admitCustomerPricing :: "'n chat_env \<Rightarrow> inference_request \<Rightarrow> string \<Rightarrow> string \<Rightarrow> v1_state \<Rightarrow> reply option \<times> v1_state" where
  "admitCustomerPricing cx r alias raw v =
     (if \<not> hasKeyBudget r \<and> \<not> customer_limited r then (None, v)
      else (case Option.bind (parse_json raw) as_object of
              None \<Rightarrow> (Some (error_reply 200 []), v)
            | Some body \<Rightarrow>
                if unsupported body
                then let code = (if hasKeyBudget r then ''key_accounting_unsupported'' else ''customer_accounting_unsupported'')
                     in (Some (error_reply 400 code), recordDenial (cx_deny cx) r alias 400 code v)
                else (None, v)))"

text \<open>The tokens that are admitted: the estimate, or for a request under a cost or token limit an explicit bound.\<close>

definition chat_tokens :: "inference_request \<Rightarrow> chat_request \<Rightarrow> string \<Rightarrow> string + int \<times> int \<times> chat_request" where
  "chat_tokens r q raw =
     (case EstimateChatUsage (Some (map ms_Content (case cr_Messages q of None \<Rightarrow> [] | Some l \<Rightarrow> l), OutputTokenLimit q)) of
        (promptTokens, completionTokens) \<Rightarrow>
          if hasKeyBudget r \<or> customer_limited r \<or> (case rq_customer r of None \<Rightarrow> False | Some c \<Rightarrow> positive_count (c_TPM c))
          then (case BoundCustomerCompletion q of
                  (Inl err, q') \<Rightarrow> Inl err
                | (Inr n, q') \<Rightarrow> Inr (max promptTokens ((int (length raw) + 3) sdiv 4), n, q'))
          else Inr (promptTokens, completionTokens, q))"

section \<open>The prompt cache of the endpoint\<close>

definition cache_bypass :: "inference_request \<Rightarrow> bool" where
  "cache_bypass r \<longleftrightarrow> rq_header r ''X-Gatemux-No-Cache'' = ''1'' \<or> rq_header r ''X-Aiport-No-Cache'' = ''1''"

text \<open>Protected requests neither read nor write the cache.\<close>

definition chat_cache_params :: "'n chat_env \<Rightarrow> inference_request \<Rightarrow> guardrail_run option \<Rightarrow> string \<Rightarrow> string \<Rightarrow> chat_state \<Rightarrow> bool \<times> duration \<times> string" where
  "chat_cache_params cx r guard alias raw ct =
     (case cacheParams (cx_digest cx) (cx_num_of cx) (cx_num cx) (ct_cache ct) (gw_registry (v_gateway (ct_v1 ct)))
             (case rq_team r of None \<Rightarrow> 0 | Some t \<Rightarrow> t_ID t) alias raw of
        (on, ttl, key) \<Rightarrow> (on \<and> guard = None, ttl, key))"

definition cached_target :: "string \<Rightarrow> resolved" where
  "cached_target name = \<lparr>rs_Identity = [], rs_DeploymentName = name, rs_ProviderType = [],
     rs_Provider = \<lparr>cl_adapter = OpenAI, cl_apiKey = [], cl_baseURL = [], cl_region = [], cl_projectID = []\<rparr>,
     rs_UpstreamModel = [], rs_Priority = 0, rs_Weight = 0, rs_BaseURL = [], rs_APIKey = []\<rparr>"

definition replayCachedChat ::
  "pricing_row list option \<Rightarrow> 'n chat_env \<Rightarrow> inference_request \<Rightarrow> string \<Rightarrow> cache_entry \<Rightarrow> v1_state \<Rightarrow> (reply \<times> json option) \<times> v1_state" where
  "replayCachedChat pricing cx r alias entry v =
     (((error_reply (en_StatusCode entry) []), Some (en_Body entry)),
      recordUsage pricing (cx_marshal cx) (cx_record cx) r
        \<lparr>cm_resolved = Some (cached_target (en_OriginDeployment entry)), cm_alias = alias, cm_modelUsed = en_UpstreamModel entry,
         cm_usage = no_usage\<lparr>PromptTokens := en_PromptTokens entry, CompletionTokens := en_CompletionTokens entry,
           TotalTokens := wrap64 (en_PromptTokens entry + en_CompletionTokens entry)\<rparr>,
         cm_started = cx_started cx, cm_status = 200, cm_error = [], cm_cached = True, cm_origin = en_OriginRequestID entry,
         cm_tags = [], cm_timings = no_timings\<rparr> v)"

section \<open>The stream proxy\<close>

record proxy =
  px_model :: string
  px_usage :: "usage option"
  px_id :: string

text \<open>\<open>processChunk\<close>: the model and the usage are noted, the model is renamed to the alias.\<close>

definition processChunk :: "string \<Rightarrow> string \<Rightarrow> proxy \<Rightarrow> string \<times> proxy" where
  "processChunk alias data px =
     (case parse_json data of
        Some (J_obj raw) \<Rightarrow>
          let px1 = (case map_of raw ''model'' of Some (J_str m) \<Rightarrow> if px_model px = [] then px\<lparr>px_model := m\<rparr> else px | _ \<Rightarrow> px);
              px2 = (case map_of raw ''id'' of Some (J_str i) \<Rightarrow> if px_id px1 = [] then px1\<lparr>px_id := i\<rparr> else px1 | _ \<Rightarrow> px1);
              px3 = (case map_of raw ''usage'' of
                       Some (J_obj u) \<Rightarrow>
                         (case decode_usage u of
                            Some u2 \<Rightarrow> if ReportedUsage (Some (J_obj u)) True then px2\<lparr>px_usage := Some u2\<rparr> else px2
                          | None \<Rightarrow> px2)
                     | _ \<Rightarrow> px2);
              raw' = (if alias \<noteq> [] then putJSON ''model'' (J_str alias) raw else raw)
          in (write_json (J_obj raw'), px3)
      | _ \<Rightarrow> (data, px))"

definition reports_error :: "string \<Rightarrow> bool" where
  "reports_error data =
     (case parse_json data of
        Some (J_obj t) \<Rightarrow> (case struct_field ''error'' t of None \<Rightarrow> False | Some J_null \<Rightarrow> False | Some _ \<Rightarrow> True)
      | _ \<Rightarrow> False)"

definition done_mark :: string where "done_mark = ''[DONE]''"

fun guard_stream_error :: "run_error \<Rightarrow> stream_error" where
  "guard_stream_error e = (case guardrailFailure e of (status, code) \<Rightarrow> Stream_guard status code)"

text \<open>The guard's part of \<open>Run\<close> for one event with data: the text to send, or the error that ends the stream.\<close>

definition guard_chunk ::
  "'n chat_env \<Rightarrow> bool \<Rightarrow> string \<Rightarrow> guardrail_run \<Rightarrow> decision_row list \<Rightarrow> (stream_error + string) \<times> guardrail_run \<times> decision_row list" where
  "guard_chunk cx hasError data g log =
     (if hasError
      then (case finish_run (cx_post_up cx) (Some (Other_error ''upstream reported a stream error'')) g log of
              (Some e, g', log') \<Rightarrow> (Inl (guard_stream_error e), g', log')
            | (None, g', log') \<Rightarrow> (Inl Stream_reported, g', log'))
      else if data = done_mark
      then (case finish_run (cx_post_up cx) (case Complete (the (gd_post g)) of Inl e \<Rightarrow> Some (Guard e) | Inr _ \<Rightarrow> None) g log of
              (Some e, g', log') \<Rightarrow> (Inl (guard_stream_error e), g', log')
            | (None, g', log') \<Rightarrow> (Inr data, g', log'))
      else (case guard_response (cx_fold cx) (cx_post_up cx) (raw_ok data) (parse_json data) True g log of
              (Inl e, g', log') \<Rightarrow> (Inl (guard_stream_error e), g', log')
            | (Inr out, g', log') \<Rightarrow> (Inr (write_json out), g', log')))"

text \<open>\<open>Run\<close>: what is written to the client, how it ends, and the guard. A stream whose pulls run out has been cut off.\<close>

fun proxy_run ::
  "'n chat_env \<Rightarrow> string \<Rightarrow> pull list \<Rightarrow> proxy \<Rightarrow> guardrail_run option \<Rightarrow> decision_row list
    \<Rightarrow> string list \<times> stream_error option \<times> proxy \<times> guardrail_run option \<times> decision_row list" where
  "proxy_run cx alias [] px guard log = ([], Some (Stream_call (OtherError ''EOF'')), px, guard, log)"
| "proxy_run cx alias (p # ps) px guard log =
     (case pl_event p of
        Inl err \<Rightarrow> ([], Some err, px, guard, log)
      | Inr ev \<Rightarrow>
          let hasError = reports_error (se_data ev);
              (data, px1) = (if se_hasData ev \<and> se_data ev \<noteq> done_mark \<and> \<not> hasError then processChunk alias (se_data ev) px else (se_data ev, px))
          in (case guard of
                Some g \<Rightarrow>
                  if \<not> se_hasData ev then proxy_run cx alias ps px1 guard log
                  else (case guard_chunk cx hasError data g log of
                          (Inl err, g', log') \<Rightarrow> ([], Some err, px1, Some g', log')
                        | (Inr out, g', log') \<Rightarrow>
                            (case pl_pause p of
                               Some err \<Rightarrow> ([], Some err, px1, Some g', log')
                             | None \<Rightarrow>
                                 let encoded = ''data: '' @ out @ [LF, LF] in
                                 if \<not> pl_write p then ([encoded], Some Stream_write, px1, Some g', log')
                                 else if se_data ev = done_mark then ([encoded], None, px1, Some g', log')
                                 else (case proxy_run cx alias ps px1 (Some g') log' of (outs, rest) \<Rightarrow> (encoded # outs, rest))))
              | None \<Rightarrow>
                  (case pl_pause p of
                     Some err \<Rightarrow> ([], Some err, px1, None, log)
                   | None \<Rightarrow>
                       let encoded = encode ev data in
                       if \<not> pl_write p then ([encoded], Some Stream_write, px1, None, log)
                       else if hasError then ([encoded], Some Stream_reported, px1, None, log)
                       else if se_hasData ev \<and> se_data ev = done_mark then ([encoded], None, px1, None, log)
                       else (case proxy_run cx alias ps px1 None log of (outs, rest) \<Rightarrow> (encoded # outs, rest)))))"

fun run_error_of :: "stream_error \<Rightarrow> run_error" where
  "run_error_of (Stream_guard status code) = Typed status code"
| "run_error_of _ = Other_error ''stream''"

text \<open>How the end of a stream is recorded.\<close>

definition stream_status :: "call_error option \<Rightarrow> stream_error option \<Rightarrow> int \<times> bool" where
  "stream_status ctxErr runErr =
     (case runErr of
        None \<Rightarrow> (200, False)
      | Some e \<Rightarrow>
          if ctxErr \<noteq> None \<or> e = Stream_write then (if ctxErr = Some DeadlineExceeded then 504 else 499, False)
          else (case e of
                  Stream_guard status code \<Rightarrow> (status, False)
                | Stream_call DeadlineExceeded \<Rightarrow> (504, True)
                | _ \<Rightarrow> (502, True)))"

fun call_error_of :: "stream_error \<Rightarrow> call_error" where
  "call_error_of (Stream_call e) = e"
| "call_error_of _ = OtherError ''stream''"

fun stream_message :: "stream_error option \<Rightarrow> string" where
  "stream_message None = []"
| "stream_message (Some (Stream_guard status code)) = code"
| "stream_message (Some _) = ''stream error''"

text \<open>The last event of a stream that broke off, unless the client is gone or has seen the upstream's own error.\<close>

definition stream_failure_event :: "call_error option \<Rightarrow> stream_error option \<Rightarrow> string list" where
  "stream_failure_event ctxErr runErr =
     (case runErr of
        None \<Rightarrow> []
      | Some e \<Rightarrow>
          if ctxErr \<noteq> None \<or> e = Stream_write \<or> e = Stream_reported then []
          else let errType = (case e of Stream_guard status code \<Rightarrow> code | Stream_call DeadlineExceeded \<Rightarrow> ''upstream_timeout'' | _ \<Rightarrow> ''upstream_error'')
               in [''data: '' @ write_json (J_obj [(''error'', J_obj [(''type'', J_str errType), (''message'', J_str ''stream interrupted before completion'')])]) @ [LF, LF]])"

definition chat_routing_error ::
  "pricing_row list option \<Rightarrow> 'n chat_env \<Rightarrow> inference_request \<Rightarrow> guardrail_run option \<Rightarrow> string \<Rightarrow> gw_error \<Rightarrow> v1_state \<Rightarrow> reply \<times> v1_state" where
  "chat_routing_error pricing cx r guard alias err v =
     (let (rep, log) =
            (case guard of
               None \<Rightarrow> (routing_reply err, v_decisions v)
             | Some g \<Rightarrow>
                 (case finish_run (cx_post_up cx) (Some (if err = GuardUnsupported then Guard ErrUnsupported else Other_error ''upstream'')) g (v_decisions v) of
                    (Some e, g', log') \<Rightarrow> (case guardrailFailure e of (status, code) \<Rightarrow> ((routing_reply err)\<lparr>rep_status := status, rep_type := code\<rparr>, log'))
                  | (None, g', log') \<Rightarrow> (routing_reply err, log')))
      in (rep, recordUsage pricing (cx_marshal cx) (cx_record cx) r
           \<lparr>cm_resolved = None, cm_alias = alias, cm_modelUsed = [], cm_usage = no_usage, cm_started = cx_started cx,
            cm_status = rep_status rep, cm_error = rep_type rep, cm_cached = False, cm_origin = [], cm_tags = [],
            cm_timings = no_timings\<lparr>tm_UnknownUsage := True\<rparr>\<rparr> (v\<lparr>v_decisions := log\<rparr>)))"

definition streamChat ::
  "request_env \<Rightarrow> pricing_row list option \<Rightarrow> 'n chat_env \<Rightarrow> inference_request \<Rightarrow> guardrail_run option \<Rightarrow> string \<Rightarrow> v1_state
    \<Rightarrow> ((reply \<times> string list) \<times> v1_state) option" where
  "streamChat req pricing cx r guard alias v =
     (case openStreamWithFallback req alias (resolveContextFromRequest r) (cx_streams cx) (v_gateway v) of
        None \<Rightarrow> None
      | Some (Inl (_, Panicked p), gw) \<Rightarrow>
          Some ((error_reply 500 ''internal_error'', []), reconcileBudgetOnPanic pricing (cx_record cx) (rq_id r) (v\<lparr>v_gateway := gw\<rparr>))
      | Some (Inl (_, err), gw) \<Rightarrow>
          (case chat_routing_error pricing cx r guard alias err (v\<lparr>v_gateway := gw\<rparr>) of (rep, v') \<Rightarrow> Some ((rep, []), v'))
      | Some (Inr (target, permit, pulls), gw) \<Rightarrow>
          (case proxy_run cx alias pulls \<lparr>px_model = [], px_usage = None, px_id = []\<rparr> guard (v_decisions v) of
             (outs, err0, px, guard1, log) \<Rightarrow>
               let (runErr, log1) =
                     (case guard1 of
                        None \<Rightarrow> (err0, log)
                      | Some g \<Rightarrow> (case finish_run (cx_post_up cx) (map_option run_error_of err0) g log of
                                    (e, g', log') \<Rightarrow> (map_option guard_stream_error e, log')));
                   gw1 = releaseUpstreamPermit (cx_release cx) (Some permit) gw;
                   (status, blame) = stream_status (cx_ctx_err cx) runErr;
                   gw2 = (case runErr of
                            None \<Rightarrow> on_registry (RecordSuccess (rs_DeploymentName target)) gw1
                          | Some e \<Rightarrow>
                              if blame
                              then on_registry (RecordFailure (ae_mirror (cx_release cx)) (ae_now (cx_release cx)) (rs_DeploymentName target) (Some (call_error_of e))) gw1
                              else gw1);
                   usage = (case px_usage px of None \<Rightarrow> no_usage | Some u \<Rightarrow> u)
               in Some ((error_reply 200 [], outs @ stream_failure_event (cx_ctx_err cx) runErr),
                    recordUsage pricing (cx_marshal cx) (cx_record cx) r
                      \<lparr>cm_resolved = Some target, cm_alias = alias, cm_modelUsed = px_model px, cm_usage = usage, cm_started = cx_started cx,
                       cm_status = status, cm_error = stream_message runErr, cm_cached = False, cm_origin = [],
                       cm_tags = rc_Tags (resolveContextFromRequest r),
                       cm_timings = (cx_timings cx)\<lparr>tm_UnknownUsage := px_usage px = None\<rparr>\<rparr>
                      (v\<lparr>v_gateway := gw2, v_decisions := log1\<rparr>))))"

section \<open>The endpoint\<close>

text \<open>What is done with the response of an upstream: the guard, the usage record and the cache.\<close>

definition chat_completion ::
  "bool \<Rightarrow> bool \<Rightarrow> chat_response \<Rightarrow> resolved \<Rightarrow> inference_request \<Rightarrow> string \<Rightarrow> int \<Rightarrow> string \<Rightarrow> usage \<Rightarrow> 'n chat_env \<Rightarrow> completion" where
  "chat_completion unknown ok resp target r alias status err u cx =
     \<lparr>cm_resolved = Some target, cm_alias = alias, cm_modelUsed = cp_Model resp, cm_usage = u, cm_started = cx_started cx,
      cm_status = status, cm_error = err, cm_cached = False, cm_origin = [], cm_tags = rc_Tags (resolveContextFromRequest r),
      cm_timings = (if ok then cx_timings cx else no_timings)\<lparr>tm_UnknownUsage := unknown\<rparr>\<rparr>"

definition finish_chat ::
  "pricing_row list option \<Rightarrow> 'n chat_env \<Rightarrow> inference_request \<Rightarrow> guardrail_run option \<Rightarrow> string \<Rightarrow> bool \<times> duration \<times> string \<Rightarrow>
    resolved \<Rightarrow> chat_response \<Rightarrow> chat_state \<Rightarrow> (reply \<times> json option) \<times> chat_state" where
  "finish_chat pricing cx r guard alias params target resp0 ct =
     (let v = ct_v1 ct;
          unknown = \<not> ChatResponse_UsageReported resp0;
          resp = resp0\<lparr>cp_Model := alias\<rparr>;
          guarded = (case guard of
                       None \<Rightarrow> (Inr (Some resp), v_decisions v)
                     | Some g \<Rightarrow>
                         let b = ChatResponse_MarshalJSON (cx_plain cx) resp in
                         (case guard_response (cx_fold cx) (cx_post_up cx) (raw_ok (write_json b)) (parse_json (write_json b)) False g (v_decisions v) of
                            (Inl e, g', log) \<Rightarrow> (Inl (guardrailFailure e), log)
                          | (Inr out, g', log) \<Rightarrow> (Inr (ChatResponse_UnmarshalJSON out), log)))
      in (case guarded of
            (Inl (status, code), log) \<Rightarrow>
              ((error_reply status code, None),
               ct\<lparr>ct_v1 := recordUsage pricing (cx_marshal cx) (cx_record cx) r
                  (chat_completion unknown False resp0 target r alias status code (cp_Usage resp0) cx) (v\<lparr>v_decisions := log\<rparr>)\<rparr>)
          | (Inr None, log) \<Rightarrow> ((error_reply 503 ''guardrail_unavailable'', None), ct\<lparr>ct_v1 := v\<lparr>v_decisions := log\<rparr>\<rparr>)
          | (Inr (Some resp1), log) \<Rightarrow>
              let body = ChatResponse_MarshalJSON (cx_plain cx) resp1;
                  v1 = recordUsage pricing (cx_marshal cx) (cx_record cx) r
                         (chat_completion unknown True resp0 target r alias 200 [] (cp_Usage resp1) cx) (v\<lparr>v_decisions := log\<rparr>);
                  cache1 = (case params of
                     (on, ttl, key) \<Rightarrow>
                       if on \<and> \<not> cache_bypass r \<and> cacheable (Some (map ch_FinishReason (cp_Choices resp1)))
                       then snd (Set (cx_cache_up cx) (cx_cache_ms cx) key
                              \<lparr>en_StatusCode = 200, en_Body = body, en_PromptTokens = PromptTokens (cp_Usage resp1),
                               en_CompletionTokens = CompletionTokens (cp_Usage resp1), en_UpstreamModel = cp_Model resp0,
                               en_OriginRequestID = rq_id r, en_OriginDeployment = rs_DeploymentName target, en_CachedAt = dbe_now (cx_record cx)\<rparr> ttl (ct_cache ct))
                       else ct_cache ct)
              in ((error_reply 200 [], Some body), \<lparr>ct_v1 = v1, ct_cache = cache1\<rparr>)))"

text \<open>From the rate limit to the reply.\<close>

definition call_chat ::
  "request_env \<Rightarrow> pricing_row list option \<Rightarrow> 'n chat_env \<Rightarrow> inference_request \<Rightarrow> guardrail_run option \<Rightarrow> chat_request \<Rightarrow> int \<Rightarrow> int \<Rightarrow>
    bool \<times> duration \<times> string \<Rightarrow> string \<Rightarrow> chat_state \<Rightarrow> ((reply \<times> json option) \<times> chat_state) option" where
  "call_chat req pricing cx r guard q promptTokens completionTokens params alias ct =
     (case enforceBudget pricing (cx_load_sa cx) (cx_budget cx) r alias promptTokens completionTokens CapabilityChat (ct_v1 ct) of
        (Some reply, v2) \<Rightarrow> Some ((reply, None), ct\<lparr>ct_v1 := v2\<rparr>)
      | (None, v2) \<Rightarrow>
          if cr_Stream q
          then map_option (\<lambda>((reply, outs), v3). ((reply, None), ct\<lparr>ct_v1 := v3\<rparr>)) (streamChat req pricing cx r guard alias v2)
          else (case runChatWithFallback req alias (resolveContextFromRequest r) (cx_attempts cx) (v_gateway v2) of
                  None \<Rightarrow> None
                | Some (Inl (_, Panicked p), gw) \<Rightarrow>
                    Some ((error_reply 500 ''internal_error'', None),
                          ct\<lparr>ct_v1 := reconcileBudgetOnPanic pricing (cx_record cx) (rq_id r) (v2\<lparr>v_gateway := gw\<rparr>)\<rparr>)
                | Some (Inl (_, err), gw) \<Rightarrow>
                    (case chat_routing_error pricing cx r guard alias err (v2\<lparr>v_gateway := gw\<rparr>) of
                       (rep, v3) \<Rightarrow> Some ((rep, None), ct\<lparr>ct_v1 := v3\<rparr>))
                | Some (Inr (target, resp), gw) \<Rightarrow>
                    Some (finish_chat pricing cx r guard alias params target resp (ct\<lparr>ct_v1 := v2\<lparr>v_gateway := gw\<rparr>\<rparr>))))"

definition serve_chat ::
  "request_env \<Rightarrow> pricing_row list option \<Rightarrow> 'n chat_env \<Rightarrow> inference_request \<Rightarrow> guardrail_run option \<Rightarrow> chat_request \<Rightarrow> string \<Rightarrow> string \<Rightarrow> chat_state
    \<Rightarrow> ((reply \<times> json option) \<times> chat_state) option" where
  "serve_chat req pricing cx r guard0 q0 raw0 alias ct =
     (case chat_guard cx r guard0 q0 raw0 (ct_v1 ct) of
        (Inl reply, guard, v1) \<Rightarrow> Some ((reply, None), ct\<lparr>ct_v1 := v1\<rparr>)
      | (Inr (q1, raw), guard, v1) \<Rightarrow>
          (case admitCustomerPricing cx r alias raw v1 of
             (Some reply, v2) \<Rightarrow> Some ((reply, None), ct\<lparr>ct_v1 := v2\<rparr>)
           | (None, v2) \<Rightarrow>
               (case chat_tokens r q1 raw of
                  Inl err \<Rightarrow> Some ((error_reply 400 ''invalid_request'', None), ct\<lparr>ct_v1 := v2\<rparr>)
                | Inr (promptTokens, completionTokens, q) \<Rightarrow>
                    (case enforceRateLimit (cx_rate_ms cx) (cx_rate_now cx) (cx_rate cx) r alias (wrap64 (promptTokens + completionTokens)) v2 of
                       (Some reply, v3) \<Rightarrow> Some ((reply, None), ct\<lparr>ct_v1 := v3\<rparr>)
                     | (None, v3) \<Rightarrow>
                         let params = chat_cache_params cx r guard alias raw (ct\<lparr>ct_v1 := v3\<rparr>) in
                         (case (if fst params \<and> \<not> cache_bypass r \<and> \<not> cr_Stream q
                                then Get (cx_cache_up cx) (cx_cache_ms cx) (snd (snd params)) (ct_cache ct) else Miss) of
                            Hit entry \<Rightarrow>
                              (case replayCachedChat pricing cx r alias entry v3 of (rep, v4) \<Rightarrow> Some (rep, ct\<lparr>ct_v1 := v4\<rparr>))
                          | _ \<Rightarrow> call_chat req pricing cx r guard q promptTokens completionTokens params alias (ct\<lparr>ct_v1 := v3\<rparr>))))))"

definition release_chat :: "'n chat_env \<Rightarrow> lease option \<Rightarrow> chat_state \<Rightarrow> chat_state" where
  "release_chat cx l ct =
     (let v = ct_v1 ct in ct\<lparr>ct_v1 := finishAccounting (cx_finish cx) (v\<lparr>v_gateway := releaseRoutingLease (cx_release cx) l (v_gateway v)\<rparr>)\<rparr>)"

definition ChatCompletions ::
  "request_env \<Rightarrow> pricing_row list option \<Rightarrow> 'n chat_env \<Rightarrow> inference_request \<Rightarrow> string option \<Rightarrow> chat_state \<Rightarrow> ((reply \<times> json option) \<times> chat_state) option" where
  "ChatCompletions req pricing cx r body ct =
     (let refuse = (\<lambda>status ty. Some ((error_reply status ty, None), ct)) in
      if rq_team r = None then refuse 401 ''authentication_error''
      else (case body of
        None \<Rightarrow> refuse 400 ''invalid_request''
      | Some raw \<Rightarrow>
          (case Option.bind (parse_json raw) (ChatRequest_UnmarshalJSON (cx_refloat cx)) of
             None \<Rightarrow> refuse 400 ''invalid_request''
           | Some q \<Rightarrow>
               if cr_Model q = [] then refuse 400 ''invalid_request''
               else if (case cr_Messages q of None \<Rightarrow> True | Some l \<Rightarrow> l = []) then refuse 400 ''invalid_request''
               else if \<not> modelAllowed (rq_team r) (rq_key r) (cr_Model q)
               then Some ((error_reply 403 ''model_not_allowed'', None),
                      ct\<lparr>ct_v1 := recordDenial (cx_deny cx) r (cr_Model q) 403 ''model_not_allowed'' (ct_v1 ct)\<rparr>)
               else (case admitRequestConcurrency req (cx_admit cx) (cr_Model q) (cr_User q) r (ct_v1 ct) of
                       (Inl p, v1) \<Rightarrow> Some ((error_reply 500 ''internal_error'', None), ct\<lparr>ct_v1 := v1\<rparr>)
                     | (Inr (Inl reply), v1) \<Rightarrow> Some ((reply, None), ct\<lparr>ct_v1 := v1\<rparr>)
                     | (Inr (Inr (guard, l, r1)), v1) \<Rightarrow>
                         map_option (\<lambda>(rep, ct2). (rep, release_chat cx l ct2))
                           (serve_chat req pricing cx r1 guard q raw (cr_Model q) (ct\<lparr>ct_v1 := v1\<rparr>))))))"

section \<open>Every chat request is accounted\<close>

lemma decisions_acc: "acc_step rid v (v\<lparr>v_decisions := log\<rparr>)"
  by (rule acc_step_progress) (simp_all add: v_ledger_def progress_same)

lemma chat_guard_acc: "chat_guard cx r guard q raw v = (x, g, v') \<Longrightarrow> acc_step rid v v'"
  using decisions_acc acc_step_trans [OF decisions_acc recordDenial_acc]
  by (auto simp: chat_guard_def Let_def split: option.splits prod.splits sum.splits)

lemma admitCustomerPricing_acc: "admitCustomerPricing cx r alias raw v = (x, v') \<Longrightarrow> acc_step rid v v'"
  by (auto simp: admitCustomerPricing_def Let_def recordDenial_acc split: option.splits if_splits)

lemma openStreamWithFallback_from_run:
  "openStreamWithFallback_from req alias rc envs tried lastErr saturated gw = Some (out, gw') \<Longrightarrow> run_kept gw gw'"
proof (induction envs arbitrary: tried lastErr saturated gw)
  case (Cons env envs)
  show ?case
  proof (cases "ae_done_before env")
    case (Some e)
    then show ?thesis using Cons.prems by (simp add: run_kept_same)
  next
    case None
    obtain x gw1 where r: "resolve_gw req env alias tried CapabilityStreamChat rc gw = (x, gw1)" by fastforce
    note k1 = resolve_gw_run [OF r]
    show ?thesis
    proof (cases x)
      case (Inl err)
      then show ?thesis using Cons.prems None r k1 by simp
    next
      case (Inr target)
      obtain y gw2 where t: "tryAcquireUpstream req env target gw1 = (y, gw2)" by fastforce
      note k2 = run_kept_trans [OF k1 tryAcquireUpstream_run [OF t]]
      define gw3 where "gw3 = gw2\<lparr>gw_calls := gw_calls gw2 @ [rs_DeploymentName target]\<rparr>"
      have k3: "run_kept gw gw3" by (rule run_kept_trans [OF k2]) (simp add: gw3_def run_kept_same)
      note k4 = run_kept_trans [OF run_kept_trans [OF k3 releaseUpstreamPermit_run] on_registry_run]
      note step = Cons.prems [unfolded openStreamWithFallback_from.simps None r Inr t Let_def option.case sum.case prod.case]
      show ?thesis
      proof (cases y)
        case (Inl e)
        then show ?thesis using step k2 run_kept_trans [OF k2 Cons.IH] by (auto split: if_splits)
      next
        case (Inr po)
        show ?thesis
        proof (cases po)
          case None
          then show ?thesis using step Inr run_kept_trans [OF k2 Cons.IH] by simp
        next
          case (Some p)
          then show ?thesis
            using step Inr k3 k4 run_kept_trans [OF k4 Cons.IH] by (auto simp: gw3_def [symmetric] split: sum.splits if_splits)
        qed
      qed
    qed
  qed
qed simp

lemma chat_routing_error_acc: "acc_step rid v (snd (chat_routing_error pricing cx r guard alias err v))"
  using acc_step_trans [OF decisions_acc recordUsage_acc] recordUsage_acc
  by (auto simp: chat_routing_error_def Let_def split: option.splits prod.splits)

lemma gateway_decisions_acc: "run_kept (v_gateway v) gw \<Longrightarrow> acc_step rid v (v\<lparr>v_gateway := gw, v_decisions := log\<rparr>)"
  using acc_step_trans [OF run_kept_acc decisions_acc, of v gw rid log] by simp

lemma streamChat_acc:
  assumes "streamChat req pricing cx r guard alias v = Some (rep, v')"
  shows "acc_step rid v v'"
proof -
  let ?open = "openStreamWithFallback req alias (resolveContextFromRequest r) (cx_streams cx) (v_gateway v)"
  obtain out gw where o: "?open = Some (out, gw)" using assms by (cases ?open) (auto simp: streamChat_def)
  have k: "run_kept (v_gateway v) gw" using openStreamWithFallback_from_run o unfolding openStreamWithFallback_def by blast
  note k1 = run_kept_trans [OF k releaseUpstreamPermit_run] and k2 = run_kept_trans [OF run_kept_trans [OF k releaseUpstreamPermit_run] on_registry_run]
  note ends = acc_step_trans [OF run_kept_acc [OF k] chat_routing_error_acc] acc_step_trans [OF run_kept_acc [OF k] reconcileBudgetOnPanic_acc]
  show ?thesis
  proof (cases out)
    case (Inl e)
    obtain tgt err where e: "e = (tgt, err)" by (cases e)
    show ?thesis
    proof (cases "\<exists>p. err = Panicked p")
      case True
      then show ?thesis using assms o Inl e ends(2) by (auto simp: streamChat_def)
    next
      case False
      then have "v' = snd (chat_routing_error pricing cx r guard alias err (v\<lparr>v_gateway := gw\<rparr>))"
        using assms o Inl e by (auto simp: streamChat_def split: gw_error.splits prod.splits)
      then show ?thesis using ends(1) by simp
    qed
  next
    case (Inr x)
    then have "\<exists>gw2 log c. run_kept (v_gateway v) gw2 \<and> v' = recordUsage pricing (cx_marshal cx) (cx_record cx) r c (v\<lparr>v_gateway := gw2, v_decisions := log\<rparr>)"
      using assms o k1 k2 by (fastforce simp: streamChat_def Let_def split: prod.splits option.splits)
    then show ?thesis using acc_step_trans [OF gateway_decisions_acc recordUsage_acc] by blast
  qed
qed

lemma finish_chat_acc:
  assumes "finish_chat pricing cx r guard alias params target resp ct = (rep, ct')"
  shows "acc_step rid (ct_v1 ct) (ct_v1 ct')"
proof -
  note rec = acc_step_trans [OF decisions_acc recordUsage_acc]
  show ?thesis using assms rec decisions_acc recordUsage_acc
    by (auto simp: finish_chat_def Let_def split: prod.splits option.splits sum.splits)
qed

lemma call_chat_acc:
  assumes "call_chat req pricing cx r guard q p c params alias ct = Some (rep, ct')"
  shows "acc_step rid (ct_v1 ct) (ct_v1 ct')"
proof -
  obtain x v2 where b: "enforceBudget pricing (cx_load_sa cx) (cx_budget cx) r alias p c CapabilityChat (ct_v1 ct) = (x, v2)" by fastforce
  have s2: "acc_step rid (ct_v1 ct) v2" using enforceBudget_acc [of rid "ct_v1 ct"] b by (metis snd_conv)
  have s3: "acc_step rid (ct_v1 ct) (v2\<lparr>v_gateway := gw\<rparr>)"
    if "runChatWithFallback req alias (resolveContextFromRequest r) (cx_attempts cx) (v_gateway v2) = Some (out, gw)" for out gw
    using acc_step_trans [OF s2 run_kept_acc] runWithFallback_run that unfolding runChatWithFallback_def by blast
  note ends = acc_step_trans [OF s3 chat_routing_error_acc] acc_step_trans [OF s3 reconcileBudgetOnPanic_acc]
  show ?thesis
  proof (cases x)
    case (Some reply)
    then show ?thesis using assms b s2 by (auto simp: call_chat_def)
  next
    case None
    show ?thesis
    proof (cases "cr_Stream q")
      case True
      with assms b None obtain o1 v3 where "streamChat req pricing cx r guard alias v2 = Some (o1, v3)" "ct_v1 ct' = v3"
        by (auto simp: call_chat_def)
      then show ?thesis using acc_step_trans [OF s2 streamChat_acc] by blast
    next
      case F: False
      let ?run = "runChatWithFallback req alias (resolveContextFromRequest r) (cx_attempts cx) (v_gateway v2)"
      obtain out gw where o: "?run = Some (out, gw)" using assms b None F by (cases ?run) (auto simp: call_chat_def)
      show ?thesis
      proof (cases out)
        case (Inl e)
        obtain tgt err where e: "e = (tgt, err)" by (cases e)
        show ?thesis
        proof (cases "\<exists>p. err = Panicked p")
          case True
          then show ?thesis using assms b None F o Inl e ends(2) [OF o] by (auto simp: call_chat_def)
        next
          case False
          then have "ct_v1 ct' = snd (chat_routing_error pricing cx r guard alias err (v2\<lparr>v_gateway := gw\<rparr>))"
            using assms b None F o Inl e by (auto simp: call_chat_def split: gw_error.splits prod.splits)
          then show ?thesis using ends(1) [OF o] by simp
        qed
      next
        case (Inr t)
        then have "finish_chat pricing cx r guard alias params (fst t) (snd t) (ct\<lparr>ct_v1 := v2\<lparr>v_gateway := gw\<rparr>\<rparr>) = (rep, ct')"
          using assms b None F o by (auto simp: call_chat_def split: prod.splits)
        from finish_chat_acc [OF this, of rid] acc_step_trans [OF s3 [OF o]] show ?thesis by simp
      qed
    qed
  qed
qed

lemma serve_chat_acc:
  assumes "serve_chat req pricing cx r guard0 q0 raw0 alias ct = Some (rep, ct')"
  shows "acc_step rid (ct_v1 ct) (ct_v1 ct')"
proof -
  obtain x guard v1 where g: "chat_guard cx r guard0 q0 raw0 (ct_v1 ct) = (x, guard, v1)" using prod_cases3 by blast
  have s1: "acc_step rid (ct_v1 ct) v1" by (rule chat_guard_acc [OF g])
  show ?thesis
  proof (cases x)
    case (Inl reply)
    then show ?thesis using assms g s1 by (auto simp: serve_chat_def)
  next
    case (Inr qr)
    obtain q1 raw where qr: "qr = (q1, raw)" by (cases qr)
    obtain y v2 where a: "admitCustomerPricing cx r alias raw v1 = (y, v2)" by fastforce
    have s2: "acc_step rid (ct_v1 ct) v2" by (rule acc_step_trans [OF s1 admitCustomerPricing_acc [OF a]])
    show ?thesis
    proof (cases y)
      case (Some reply)
      then show ?thesis using assms g Inr qr a s2 by (auto simp: serve_chat_def)
    next
      case None
      show ?thesis
      proof (cases "chat_tokens r q1 raw")
        case (Inl err)
        then show ?thesis using assms g Inr qr a s2 None by (auto simp: serve_chat_def)
      next
        case T: (Inr pcq)
        obtain p c q where pcq: "pcq = (p, c, q)" using prod_cases3 by blast
        obtain z v3 where l: "enforceRateLimit (cx_rate_ms cx) (cx_rate_now cx) (cx_rate cx) r alias (wrap64 (p + c)) v2 = (z, v3)" by fastforce
        have s3: "acc_step rid (ct_v1 ct) v3" using acc_step_trans [OF s2] enforceRateLimit_acc [of rid v2] l by (metis snd_conv)
        define params where "params = chat_cache_params cx r guard alias raw (ct\<lparr>ct_v1 := v3\<rparr>)"
        define found where "found = (if fst params \<and> \<not> cache_bypass r \<and> \<not> cr_Stream q
          then Get (cx_cache_up cx) (cx_cache_ms cx) (snd (snd params)) (ct_cache ct) else Miss)"
        have whole: "serve_chat req pricing cx r guard0 q0 raw0 alias ct = (case z of Some reply \<Rightarrow> Some ((reply, None), ct\<lparr>ct_v1 := v3\<rparr>)
          | None \<Rightarrow> (case found of Hit entry \<Rightarrow> (case replayCachedChat pricing cx r alias entry v3 of (rep, v4) \<Rightarrow> Some (rep, ct\<lparr>ct_v1 := v4\<rparr>))
              | _ \<Rightarrow> call_chat req pricing cx r guard q p c params alias (ct\<lparr>ct_v1 := v3\<rparr>)))"
          unfolding serve_chat_def g Inr qr prod.case sum.case a None option.case T pcq l Let_def params_def found_def by (rule refl)
        have call: "acc_step rid (ct_v1 ct) (ct_v1 ct')"
          if "call_chat req pricing cx r guard q p c params alias (ct\<lparr>ct_v1 := v3\<rparr>) = Some (rep, ct')"
          using acc_step_trans [OF s3] call_chat_acc [OF that, of rid] by simp
        show ?thesis
        proof (cases z)
          case (Some reply)
          then show ?thesis using assms whole s3 by auto
        next
          case None
          show ?thesis
          proof (cases found)
            case (Hit entry)
            then show ?thesis using assms whole None acc_step_trans [OF s3 recordUsage_acc] by (auto simp: replayCachedChat_def)
          qed (use assms whole None call in auto)
        qed
      qed
    qed
  qed
qed

lemma release_chat_acc:
  assumes "acc_inv rid (ct_v1 ct)"
  shows "acc_inv rid (ct_v1 (release_chat cx l ct)) \<and>
    (\<not> is_pending rid (v_ledger (ct_v1 (release_chat cx l ct))) \<or> failures (ct_v1 ct) < failures (ct_v1 (release_chat cx l ct)))"
proof -
  let ?v = "(ct_v1 ct)\<lparr>v_gateway := releaseRoutingLease (cx_release cx) l (v_gateway (ct_v1 ct))\<rparr>"
  have i: "acc_inv rid ?v" and f: "failures ?v = failures (ct_v1 ct)"
    using run_kept_acc [OF releaseRoutingLease_run] assms by (auto simp: acc_step_def failures_def)
  show ?thesis using finishAccounting_acc [OF i, of "cx_finish cx"] acc_done f unfolding release_chat_def Let_def by force
qed

text \<open>C38: No chat request escapes accounting. However it ends (refused by a policy, a limit or a budget, answered from the cache, by an
  upstream, as a stream that broke off, or after the fallback gave up), and however its calls to Redis, to the database
  and upstream turned out, either it never began and called no upstream, or its durable intent is completed, or a failure has
  been counted, which pauses the gateway until recovery has completed the intent.\<close>

theorem chat_requests_are_accounted:
  assumes "ChatCompletions req pricing cx r body ct = Some (rep, ct')" and "v_logger (ct_v1 ct) \<noteq> None"
    and "distinct_ids (v_ledger (ct_v1 ct))" and "gw_run (v_gateway (ct_v1 ct)) = None"
  shows "gw_run (v_gateway (ct_v1 ct')) = None \<and> gw_calls (v_gateway (ct_v1 ct')) = gw_calls (v_gateway (ct_v1 ct))
    \<or> (\<exists>run. gw_run (v_gateway (ct_v1 ct')) = Some run
         \<and> (\<not> is_pending (e_RequestID (run_entry run)) (v_ledger (ct_v1 ct')) \<or> failures (ct_v1 ct) < failures (ct_v1 ct')))"
proof -
  let ?v = "ct_v1 ct"
  have v: "fresh_state ?v" using assms by (simp add: fresh_state_def)
  have same: "accounted ?v ?v" using accounted_not_begun [OF v] by simp
  have deny: "accounted ?v (recordDenial e r a s c ?v)" for e a s c using accounted_not_begun [OF v not_begun_denial] .
  have "accounted ?v (ct_v1 ct')"
  proof (cases "Option.bind body (\<lambda>raw. Option.bind (parse_json raw) (ChatRequest_UnmarshalJSON (cx_refloat cx)))")
    case None
    then show ?thesis using assms(1) same by (cases body) (auto simp: ChatCompletions_def split: if_splits)
  next
    case (Some q)
    then obtain raw where raw: "body = Some raw" "Option.bind (parse_json raw) (ChatRequest_UnmarshalJSON (cx_refloat cx)) = Some q"
      by (cases body) auto
    obtain res v1 where adm: "admitRequestConcurrency req (cx_admit cx) (cr_Model q) (cr_User q) r ?v = (res, v1)" by fastforce
    note a = admitRequestConcurrency_accounted [OF adm v]
    have served: "accounted ?v (ct_v1 (release_chat cx l ct2))"
      if "res = Inr (Inr (guard, l, r1))" "serve_chat req pricing cx r1 guard q raw (cr_Model q) (ct\<lparr>ct_v1 := v1\<rparr>) = Some (rep2, ct2)" for guard l r1 rep2 ct2
    proof -
      have "acc_inv (rq_id r1) v1" "failures ?v \<le> failures v1" using a that(1) by simp_all
      with serve_chat_acc [OF that(2), of "rq_id r1"] have i: "acc_inv (rq_id r1) (ct_v1 ct2)" "failures ?v \<le> failures (ct_v1 ct2)"
        by (simp_all add: acc_step_def)
      show ?thesis using release_chat_acc [OF i(1), of cx l] i(2) by (intro acc_inv_accounted [of "rq_id r1"]) (blast, fastforce)
    qed
    show ?thesis
      using assms(1) raw adm a same served deny
      by (auto simp: ChatCompletions_def Let_def split: if_splits sum.splits prod.splits)
  qed
  then show ?thesis unfolding accounted_def .
qed

definition sample_chat_attempt :: "chat_response attempt_env" where
  "sample_chat_attempt = \<lparr>ae_now = 50, ae_peer = (\<lambda>_. Inr None), ae_mirror = Inr (0, None), ae_now_ms = 0, ae_io = Io_ok, ae_release_io = Io_ok,
     ae_lease_id = ''x'', ae_remaining = None, ae_db_now = 50, ae_db_up = True, ae_done_before = None,
     ae_result = Inr \<lparr>cp_ID = ''c'', cp_Model = ''llama3'', cp_Choices = [], cp_Usage = no_usage, cp_raw = None\<rparr>, ae_done_after = False\<rparr>"

definition sample_chat_env :: "int chat_env" where
  "sample_chat_env = \<lparr>cx_admit = \<lparr>ad_policies = Inr [], ad_guard_up = True, ad_guard = sample_guard_request,
       ad_customer = \<lparr>ce_has_store = True, ce_get = Customer_missing, ce_get_or_create = Customer_missing\<rparr>, ad_deny = sample_db_env,
       ad_begin = \<lparr>be_db = sample_db_env, be_remaining = None, be_entropy = None, be_json_len = (\<lambda>_. Some 100), be_nonBillable = False\<rparr>,
       ad_lease = sample_chat_attempt, ad_finish = sample_db_env\<rparr>,
     cx_deny = sample_db_env, cx_fold = (\<lambda>x. x), cx_pre_up = True, cx_post_up = True, cx_refloat = Some, cx_rate_ms = 0, cx_rate_now = 50,
     cx_rate = sample_db_env, cx_digest = (\<lambda>_. ''0''), cx_num_of = read_int, cx_num = show_int, cx_cache_up = True, cx_cache_ms = 0,
     cx_load_sa = (\<lambda>_. Inl []), cx_budget = sample_db_env, cx_attempts = [sample_chat_attempt, sample_chat_attempt], cx_streams = [],
     cx_ctx_err = None, cx_record = sample_db_env\<lparr>dbe_io := Db_lost False\<rparr>, cx_marshal = (\<lambda>_. []), cx_plain = (\<lambda>_. J_null), cx_started = 0,
     cx_timings = no_timings, cx_release = sample_chat_attempt, cx_finish = sample_db_env\<lparr>dbe_io := Db_lost False\<rparr>\<rparr>"

definition sample_chat_body :: string where
  "sample_chat_body = write_json (J_obj [(''model'', J_str ''gpt''), (''messages'', J_arr [J_obj [(''role'', J_str ''user''), (''content'', J_str ''hi'')]])])"

definition chat_run :: "((reply \<times> json option) \<times> chat_state) option" where
  "chat_run = ChatCompletions sample_req None sample_chat_env sample_caller (Some sample_chat_body) \<lparr>ct_v1 = sample_v1, ct_cache = None\<rparr>"

lemma chat_run_ok: "case chat_run of None \<Rightarrow> False | Some ((rep, body), ct') \<Rightarrow> rep_status rep = 200
    \<and> gw_calls (v_gateway (ct_v1 ct')) = [''b''] \<and> gw_run (v_gateway (ct_v1 ct')) \<noteq> None"
  by code_simp

theorem chat_requests_are_accounted_witness:
  "\<exists>rep ct' run. chat_run = Some (rep, ct') \<and> gw_calls (v_gateway (ct_v1 ct')) = [''b''] \<and> gw_run (v_gateway (ct_v1 ct')) = Some run
     \<and> (\<not> is_pending (e_RequestID (run_entry run)) (v_ledger (ct_v1 ct')) \<or> 0 < failures (ct_v1 ct'))"
proof -
  from chat_run_ok obtain rep ct' where run: "chat_run = Some (rep, ct')"
    and ct': "gw_calls (v_gateway (ct_v1 ct')) = [''b'']" "gw_run (v_gateway (ct_v1 ct')) \<noteq> None" by (auto split: option.splits prod.splits)
  have v: "v_logger sample_v1 \<noteq> None" "distinct_ids (v_ledger sample_v1)" "gw_run (v_gateway sample_v1) = None" "failures sample_v1 = 0"
    by (simp_all add: sample_v1_def v_ledger_def sample_gw_def empty_ledger_def distinct_ids_def failures_def NewLogger_def)
  from chat_requests_are_accounted [OF run [unfolded chat_run_def]] v ct'(2)
  obtain r1 where "gw_run (v_gateway (ct_v1 ct')) = Some r1"
    "\<not> is_pending (e_RequestID (run_entry r1)) (v_ledger (ct_v1 ct')) \<or> 0 < failures (ct_v1 ct')" by auto
  with run ct'(1) show ?thesis by blast
qed

section \<open>Answers from the cache\<close>

text \<open>An answer that was stored is found again under its key until its time to live is over, with the body the first client got, and
  replaying it calls no upstream and is recorded as not billable.\<close>

lemma stored_answer_is_found:
  assumes "finish_chat pricing cx r None alias (True, ttl, key) target resp ct = ((rep, Some body), ct')"
    and "\<not> cache_bypass r" and "cacheable (Some (map ch_FinishReason (cp_Choices resp)))" and "cx_cache_up cx" and "ct_cache ct = Some pc"
    and "0 < ttl" and "now < cx_cache_ms cx + max 1 (ttl div Millisecond)"
  shows "\<exists>entry. Get True now key (ct_cache ct') = Hit entry \<and> en_Body entry = body \<and> en_StatusCode entry = 200 \<and> en_OriginRequestID entry = rq_id r"
  using assms by (auto simp: finish_chat_def Let_def Set_def Get_def)

lemma recordUsage_calls: "gw_calls (v_gateway (recordUsage pricing marshal env r c v)) = gw_calls (v_gateway v)"
  by (auto simp: recordUsage_def persistUsage_def Let_def split: prod.splits option.splits sum.splits)

lemma replay_calls_nobody:
  assumes "replayCachedChat pricing cx r alias entry v = (rep, v')"
  shows "gw_calls (v_gateway v') = gw_calls (v_gateway v) \<and> snd rep = Some (en_Body entry)"
  using assms by (auto simp: replayCachedChat_def recordUsage_calls)

text \<open>A protected stream writes nothing that the guard did not produce.\<close>

lemma protected_stream_writes:
  assumes "proxy_run cx alias ps px (Some g) log = (outs, rest)" and "out \<in> set outs"
  shows "\<exists>hasError data g1 log1 o1 g2 log2. guard_chunk cx hasError data g1 log1 = (Inr o1, g2, log2) \<and> out = ''data: '' @ o1 @ [LF, LF]"
  using assms
proof (induction ps arbitrary: px g log outs rest)
  case (Cons p ps)
  show ?case
  proof (cases "pl_event p")
    case (Inl err)
    then show ?thesis using Cons.prems by simp
  next
    case (Inr ev)
    define hasError where "hasError = reports_error (se_data ev)"
    obtain data px1 where d: "(if se_hasData ev \<and> se_data ev \<noteq> done_mark \<and> \<not> hasError then processChunk alias (se_data ev) px else (se_data ev, px)) = (data, px1)"
      by fastforce
    obtain x g' log' where c: "guard_chunk cx hasError data g log = (x, g', log')" using prod_cases3 by blast
    note step = Cons.prems(1) [unfolded proxy_run.simps Inr sum.case Let_def, folded hasError_def, unfolded d prod.case option.case c]
    show ?thesis
    proof (cases "se_hasData ev")
      case False
      then show ?thesis using Cons.IH [OF _ Cons.prems(2)] step by simp
    next
      case True
      obtain outs2 rest2 where r2: "proxy_run cx alias ps px1 (Some g') log' = (outs2, rest2)" by (metis surj_pair)
      show ?thesis
      proof (cases x)
        case (Inl err)
        then show ?thesis using step True Cons.prems(2) by simp
      next
        case T: (Inr o1)
        then have "out = ''data: '' @ o1 @ [LF, LF] \<or> out \<in> set outs2"
          using step True Cons.prems(2) r2 by (auto split: option.splits if_splits)
        then show ?thesis using c T Cons.IH [OF r2] by blast
      qed
    qed
  qed
qed simp

end
