(* ===== verification/Alert_Rules.thy ===== *)
theory Alert_Rules
  imports Account_Handlers Budget_Service Complex_Main
begin

text \<open>
  Alert rules (\<^verbatim>\<open>internal/alerts/evaluator.go\<close>, \<^verbatim>\<open>internal/store/alerts.go\<close>, \<^verbatim>\<open>internal/api/alerts.go\<close>) and the spend
  sums of \<^verbatim>\<open>internal/store/teams.go\<close> they read.

  \<^item> The state is the two tables. \<open>alert_world\<close> holds the tables the evaluator only reads. \<open>tick\<close> is what the
    evaluation of one rule meets: the clock of the gateway at its two readings, the clock of the database at the
    insert, the calls that do not reach the database and the answers to the posts.
  \<^item> float64 values are rationals or one of the special values; the rounding of an operation, the reading of a number
    with a fraction, the conversion of a float outside int64, the verbs of \<open>fmt\<close> for floats and the order of names in
    the database are parameters (\<open>alert_env\<close>).
  \<^item> \<open>alert_step\<close> interleaves passes of the evaluator with the handlers. Theorems: two recorded firings of a rule are
    a cooldown apart; a budget rule fires exactly when the spend has reached the share of the limit; the dollars of a
    message read back to the exact amount.
\<close>

section \<open>Tables\<close>

record alert_rule =
  ar_ID :: int
  ar_Name :: string
  ar_Enabled :: bool
  ar_ScopeType :: string
  ar_ScopeID :: "int option"
  ar_TriggerType :: string
  ar_ThresholdOptions :: options
  ar_ChannelType :: string
  ar_ChannelTarget :: string
  ar_CooldownSeconds :: int
  ar_CreatedAt :: gotime

datatype f64 = F rat | F_NaN | F_Inf bool

datatype payload =
    Budget_payload (pl_team_slug: string) (pl_limit_cents: int) (pl_spend_cents: int) (pl_limit_microcents: string)
      (pl_spend_microcents: string) (pl_threshold_pct: f64) (pl_actual_pct: f64) (pl_period: string)
      (pl_period_start: gotime) (pl_period_end: gotime)
  | Traffic_payload (pl_metric: string) (pl_value: f64) (pl_threshold: f64) (pl_requests: int) (pl_window_minutes: f64) (pl_scope: string)
  | Provider_payload (pl_deployments: "string list") (pl_window_minutes: f64)

record alert_event =
  ev_ID :: int
  ev_RuleID :: int
  ev_FiredAt :: gotime
  ev_Payload :: payload
  ev_DeliveryStatus :: string
  ev_DeliveryError :: "string option"

record alert_db =
  adb_rules :: "alert_rule list"
  adb_events :: "alert_event list"
  adb_next_rule :: int
  adb_next_event :: int

record health_sample =
  hs_deployment_name :: string
  hs_sampled_at :: gotime
  hs_ready :: bool
  hs_circuit :: string

record alert_world =
  aw_identity :: identity_db
  aw_ledger :: ledger
  aw_samples :: "health_sample list"
  aw_deployments :: "(string \<times> bool) list"

record alert_env =
  al_round :: "rat \<Rightarrow> rat"
  al_parse :: "string \<Rightarrow> rat"
  al_int :: "rat \<Rightarrow> int"
  al_fmt :: "string \<Rightarrow> f64 \<Rightarrow> string"
  al_order :: "string list \<Rightarrow> string list"

datatype post_result = Post_failed string | Post_status int

record tick =
  tk_cancelled :: bool
  tk_since :: gotime
  tk_now :: gotime
  tk_db :: gotime
  tk_fails :: "string list"
  tk_slack :: "string \<Rightarrow> string \<Rightarrow> post_result"
  tk_webhook :: "string \<Rightarrow> payload \<Rightarrow> post_result"

section \<open>The store\<close>

definition ListAllAlertRules :: "alert_db \<Rightarrow> alert_rule list" where
  "ListAllAlertRules db = rev (sort_key ar_ID (adb_rules db))"

definition SetAlertRuleEnabled :: "int \<Rightarrow> bool \<Rightarrow> alert_db \<Rightarrow> (store_error + unit) \<times> alert_db" where
  "SetAlertRuleEnabled i on db =
     (if \<exists>r \<in> set (adb_rules db). ar_ID r = i
      then (Inr (), db\<lparr>adb_rules := map (\<lambda>r. if ar_ID r = i then r\<lparr>ar_Enabled := on\<rparr> else r) (adb_rules db)\<rparr>)
      else (Inl ErrNotFound, db))"

text \<open>The events of the rule go with it (\<open>ON DELETE CASCADE\<close>).\<close>

definition DeleteAlertRule :: "int \<Rightarrow> alert_db \<Rightarrow> (store_error + unit) \<times> alert_db" where
  "DeleteAlertRule i db =
     (if \<exists>r \<in> set (adb_rules db). ar_ID r = i
      then (Inr (), db\<lparr>adb_rules := filter (\<lambda>r. ar_ID r \<noteq> i) (adb_rules db),
                      adb_events := filter (\<lambda>ev. ev_RuleID ev \<noteq> i) (adb_events db)\<rparr>)
      else (Inl ErrNotFound, db))"

text \<open>The most recent firings with the name of their rule; events of one instant are in the order of their ids.\<close>

definition ListAlertEvents :: "int \<Rightarrow> alert_db \<Rightarrow> (alert_event \<times> string) list" where
  "ListAlertEvents limit db =
     (let n = (if limit \<le> 0 \<or> limit > 200 then 50 else limit) in
      take (nat n) (concat (map (\<lambda>ev. map (\<lambda>r. (ev, ar_Name r)) (filter (\<lambda>r. ar_ID r = ev_RuleID ev) (adb_rules db)))
        (rev (sort_key ev_FiredAt (adb_events db))))))"

definition ListAlertRules :: "alert_db \<Rightarrow> alert_rule list" where
  "ListAlertRules db = sort_key ar_ID (filter ar_Enabled (adb_rules db))"

definition LastAlertEventTime :: "int \<Rightarrow> alert_db \<Rightarrow> gotime option" where
  "LastAlertEventTime i db =
     (let ts = map ev_FiredAt (filter (\<lambda>ev. ev_RuleID ev = i) (adb_events db)) in
      if ts = [] then None else Some (foldl max (hd ts) (tl ts)))"

fun is_finite :: "f64 \<Rightarrow> bool" where
  "is_finite (F _) = True"
| "is_finite _ = False"

text \<open>\<open>json.Marshal\<close> refuses a float that is not finite; the statement then gets NULL for a column that has none.\<close>

fun marshals :: "payload \<Rightarrow> bool" where
  "marshals (Budget_payload _ _ _ _ _ pct actual _ _ _) = (is_finite pct \<and> is_finite actual)"
| "marshals (Traffic_payload _ v th _ m _) = (is_finite v \<and> is_finite th \<and> is_finite m)"
| "marshals (Provider_payload _ m) = is_finite m"

definition RecordAlertEvent :: "gotime \<Rightarrow> int \<Rightarrow> payload \<Rightarrow> string \<Rightarrow> string \<Rightarrow> alert_db \<Rightarrow> (store_error + unit) \<times> alert_db" where
  "RecordAlertEvent db_now ruleID pay deliveryStatus deliveryErr db =
     (if \<not> marshals pay then (Inl ErrStore, db)
      else if \<not> (\<exists>r \<in> set (adb_rules db). ar_ID r = ruleID) then (Inl ErrStore, db)
      else (Inr (), db\<lparr>adb_events := adb_events db @
             [\<lparr>ev_ID = adb_next_event db, ev_RuleID = ruleID, ev_FiredAt = db_now, ev_Payload = pay,
               ev_DeliveryStatus = deliveryStatus,
               ev_DeliveryError = (if deliveryErr \<noteq> [] then Some deliveryErr else None)\<rparr>],
             adb_next_event := adb_next_event db + 1\<rparr>))"

record alert_params =
  ap_Name :: string
  ap_ScopeType :: string
  ap_ScopeID :: "int option"
  ap_TriggerType :: string
  ap_ThresholdOptions :: "options option"
  ap_ChannelType :: string
  ap_ChannelTarget :: string
  ap_CooldownSeconds :: int

definition CreateAlertRule_store :: "gotime \<Rightarrow> alert_params \<Rightarrow> alert_db \<Rightarrow> (store_error + alert_rule) \<times> alert_db" where
  "CreateAlertRule_store db_now p db =
     (let cooldown = (if ap_CooldownSeconds p \<le> 0 then 300 else ap_CooldownSeconds p);
          opts = (case ap_ThresholdOptions p of None \<Rightarrow> Map.empty | Some m \<Rightarrow> m);
          r = \<lparr>ar_ID = adb_next_rule db, ar_Name = ap_Name p, ar_Enabled = True, ar_ScopeType = ap_ScopeType p,
               ar_ScopeID = ap_ScopeID p, ar_TriggerType = ap_TriggerType p, ar_ThresholdOptions = opts,
               ar_ChannelType = ap_ChannelType p, ar_ChannelTarget = ap_ChannelTarget p,
               ar_CooldownSeconds = cooldown, ar_CreatedAt = db_now\<rparr>
      in if cooldown > 2147483647 then (Inl ErrStore, db)
         else (Inr r, db\<lparr>adb_rules := adb_rules db @ [r], adb_next_rule := adb_next_rule db + 1\<rparr>))"

section \<open>What the evaluator reads\<close>

text \<open>\<open>SUM\<close> of bigints is a numeric; the scan into an int64 fails beyond it.\<close>

fun sum_amounts :: "usage_row list \<Rightarrow> string + int" where
  "sum_amounts [] = Inr 0"
| "sum_amounts (u # us) =
     bind_ok (pg_amount (u_cost_cents u) (u_cost_microcents u)) (\<lambda>a. bind_ok (sum_amounts us) (\<lambda>s. Inr (a + s)))"

definition in_window :: "(usage_row \<Rightarrow> int option) \<Rightarrow> int \<Rightarrow> gotime \<Rightarrow> gotime \<Rightarrow> usage_row \<Rightarrow> bool" where
  "in_window column i start stop u \<longleftrightarrow> column u = Some i \<and> start \<le> u_ts u \<and> u_ts u < stop"

definition sumSpendInWindow :: "(usage_row \<Rightarrow> int option) \<Rightarrow> int \<Rightarrow> gotime \<Rightarrow> gotime \<Rightarrow> ledger \<Rightarrow> string + int" where
  "sumSpendInWindow column i start stop db =
     bind_ok (sum_amounts (filter (in_window column i start stop) (usage_log db))) (\<lambda>total.
       if \<not> is_i64 total then Inl ''cannot scan''
       else if total < 0 then Inl ''negative spend total'' else Inr total)"

definition SumTeamSpendInWindow :: "int \<Rightarrow> gotime \<Rightarrow> gotime \<Rightarrow> ledger \<Rightarrow> string + int" where
  "SumTeamSpendInWindow = sumSpendInWindow (\<lambda>u. Some (u_team_id u))"

definition SumUserSpendInWindow :: "int \<Rightarrow> gotime \<Rightarrow> gotime \<Rightarrow> ledger \<Rightarrow> string + int" where
  "SumUserSpendInWindow = sumSpendInWindow u_user_id"

definition SumKeySpendInWindow :: "int \<Rightarrow> gotime \<Rightarrow> gotime \<Rightarrow> ledger \<Rightarrow> string + int" where
  "SumKeySpendInWindow = sumSpendInWindow u_key_id"

record traffic =
  tr_Requests :: int
  tr_ServerErrors :: int
  tr_P95Ms :: rat

text \<open>\<open>percentile_cont(0.95)\<close>: linear interpolation in double precision between the two nearest values.\<close>

definition percentile95 :: "alert_env \<Rightarrow> int list \<Rightarrow> rat" where
  "percentile95 e ls =
     (if ls = [] then 0
      else let rnd = al_round e; p = rnd (rnd (19 / 20) * of_nat (length ls - 1));
               lo = of_int (sort ls ! nat \<lfloor>p\<rfloor>); hi = of_int (sort ls ! nat \<lceil>p\<rceil>)
           in if \<lfloor>p\<rfloor> = \<lceil>p\<rceil> then lo
              else rnd (lo + rnd (rnd (p - of_int \<lfloor>p\<rfloor>) * rnd (hi - lo))))"

definition AlertTraffic :: "alert_env \<Rightarrow> int option \<Rightarrow> gotime \<Rightarrow> ledger \<Rightarrow> traffic" where
  "AlertTraffic e teamID since db =
     (let rows = filter (\<lambda>u. since \<le> u_ts u \<and> (teamID = None \<or> teamID = Some (u_team_id u))) (usage_log db)
      in \<lparr>tr_Requests = int (length rows),
          tr_ServerErrors = int (length (filter (\<lambda>u. 500 \<le> e_StatusCode (u_entry u)) rows)),
          tr_P95Ms = percentile95 e (map (\<lambda>u. e_LatencyMs (u_entry u)) rows)\<rparr>)"

definition unavailable :: "health_sample \<Rightarrow> bool" where
  "unavailable h \<longleftrightarrow> \<not> hs_ready h \<or> hs_circuit h = ''open''"

definition UnavailableDeployments :: "alert_env \<Rightarrow> gotime \<Rightarrow> alert_world \<Rightarrow> string list" where
  "UnavailableDeployments e since w =
     (let hs = filter (\<lambda>h. since \<le> hs_sampled_at h \<and> (hs_deployment_name h, True) \<in> set (aw_deployments w)) (aw_samples w)
      in al_order e (filter (\<lambda>n. \<forall>h \<in> set hs. hs_deployment_name h = n \<longrightarrow> unavailable h)
           (remdups (map hs_deployment_name hs))))"

section \<open>The evaluator\<close>

definition rule_option :: "alert_env \<Rightarrow> options \<Rightarrow> string \<Rightarrow> rat \<Rightarrow> rat" where
  "rule_option e opts key fallback =
     (case opts key of
        Some (J_num n) \<Rightarrow> al_round e (of_int n)
      | Some (J_dec s) \<Rightarrow> al_parse e s
      | _ \<Rightarrow> fallback)"

text \<open>The conversion of a float to int64 drops the fraction.\<close>

definition to_int64 :: "alert_env \<Rightarrow> rat \<Rightarrow> int" where
  "to_int64 e x = (let t = (if 0 \<le> x then \<lfloor>x\<rfloor> else \<lceil>x\<rceil>) in if is_i64 t then t else al_int e x)"

definition minutes :: "alert_env \<Rightarrow> duration \<Rightarrow> f64" where
  "minutes e d = F (al_round e (al_round e (of_int (d sdiv Minute)) + al_round e (of_int (d smod Minute) / 60000000000)))"

definition fdiv :: "alert_env \<Rightarrow> rat \<Rightarrow> rat \<Rightarrow> f64" where
  "fdiv e x y = (if y = 0 then (if x = 0 then F_NaN else F_Inf (x < 0)) else F (al_round e (x / y)))"

text \<open>\<open>100 * float64(a) / float64(b)\<close>.\<close>

definition percent_of :: "alert_env \<Rightarrow> int \<Rightarrow> int \<Rightarrow> f64" where
  "percent_of e a b = fdiv e (al_round e (100 * al_round e (of_int a))) (al_round e (of_int b))"

text \<open>\<open>x < y\<close> on floats: a comparison with a NaN is false.\<close>

fun f64_less :: "f64 \<Rightarrow> rat \<Rightarrow> bool" where
  "f64_less (F x) y = (x < y)"
| "f64_less F_NaN y = False"
| "f64_less (F_Inf neg) y = neg"

definition windowFor :: "string \<Rightarrow> gotime \<Rightarrow> gotime \<times> gotime" where
  "windowFor period now =
     (if period = ''day'' then (utc_day now * day_ns, utc_day now * day_ns + day_ns)
      else if period = ''week'' then
        (let start = (utc_day now - (utc_day now + 4) mod 7) * day_ns in (start, start + 7 * day_ns))
      else let (y, m) = month_of (utc_day now) in (month_first (y, m) * day_ns, month_first (y, Suc m) * day_ns))"

section \<open>Messages and delivery\<close>

fun group_digits :: "nat \<Rightarrow> string \<Rightarrow> string" where
  "group_digits i s = (if i = 0 then s else group_digits (i - 3) (take i s @ '','' @ drop i s))"

declare group_digits.simps [simp del]

text \<open>\<open>%08d\<close>: the width counts the sign.\<close>

definition pad8 :: "int \<Rightarrow> string" where
  "pad8 i = (let s = show_nat (nat \<bar>i\<bar>) in
     if i < 0 then ''-'' @ replicate (7 - length s) (CHR ''0'') @ s else replicate (8 - length s) (CHR ''0'') @ s)"

definition trim_zeros :: "string \<Rightarrow> string" where
  "trim_zeros s = rev (dropWhile (\<lambda>c. c = CHR ''0'') (rev s))"

definition formatMicrocentsUSD :: "int \<Rightarrow> string" where
  "formatMicrocentsUSD microcents =
     (let perDollar = 100 * MicrocentsPerCent;
          dollars = show_int (microcents sdiv perDollar);
          fraction = trim_zeros (pad8 (microcents smod perDollar))
      in ''$'' @ group_digits (length dollars - 3) dollars @ ''.'' @ fraction @ replicate (2 - length fraction) (CHR ''0''))"

text \<open>\<open>strconv.ParseInt\<close> on the text of the payload, 0 when it is not a number.\<close>

definition parse_i64 :: "string \<Rightarrow> int" where
  "parse_i64 s =
     (let neg = (s \<noteq> [] \<and> hd s = CHR ''-''); ds = (if neg then tl s else s) in
      if ds = [] \<or> \<not> list_all (\<lambda>c. 48 \<le> (of_char c :: nat) \<and> (of_char c :: nat) \<le> 57) ds then 0
      else max MinInt64 (min MaxInt64 (if neg then - int (digits_value ds 0) else int (digits_value ds 0))))"

fun spaced :: "string list \<Rightarrow> string" where
  "spaced [] = []"
| "spaced [n] = n"
| "spaced (n # ns) = n @ '' '' @ spaced ns"

text \<open>Every trigger has its own kind of payload, so that the last text is only met by a trigger of no kind.\<close>

definition slackText :: "alert_env \<Rightarrow> alert_rule \<Rightarrow> payload \<Rightarrow> string" where
  "slackText e rule pay =
     (let trigger = ar_TriggerType rule; other = ''Alert *'' @ ar_Name rule @ ''* fired'' in
      case pay of
        Budget_payload slug _ _ limit spend _ actual per _ _ \<Rightarrow>
          if trigger = ''budget_threshold'' then
            '':warning: Team *'' @ slug @ ''* has used '' @ al_fmt e ''%.1f'' actual @ ''% of its '' @ per @ '' budget (limit ''
              @ formatMicrocentsUSD (parse_i64 limit) @ '', spent '' @ formatMicrocentsUSD (parse_i64 spend) @ '')''
          else if trigger = ''budget_exceeded'' then
            '':rotating_light: Team *'' @ slug @ ''* has exceeded its '' @ per @ '' budget''
          else other
      | Traffic_payload _ v _ n m _ \<Rightarrow>
          if trigger = ''error_rate'' then
            '':warning: *'' @ ar_Name rule @ ''*: '' @ al_fmt e ''%.1f'' v @ ''% of '' @ show_int n
              @ '' requests failed with a server error in the last '' @ al_fmt e ''%v'' m @ '' minutes''
          else if trigger = ''latency_p95'' then
            '':snail: *'' @ ar_Name rule @ ''*: p95 latency is '' @ al_fmt e ''%.0f'' v @ '' ms over the last ''
              @ al_fmt e ''%v'' m @ '' minutes ('' @ show_int n @ '' requests)''
          else other
      | Provider_payload ns m \<Rightarrow>
          if trigger = ''provider_unavailable'' then
            '':red_circle: *'' @ ar_Name rule @ ''*: unavailable for '' @ al_fmt e ''%v'' m @ '' minutes: ['' @ spaced ns @ '']''
          else other)"

definition delivery_result :: "string \<Rightarrow> post_result \<Rightarrow> string" where
  "delivery_result who p =
     (case p of Post_failed err \<Rightarrow> err | Post_status st \<Rightarrow> if 400 \<le> st then who @ '' status '' @ show_int st else [])"

definition slackDeliver :: "tick \<Rightarrow> string \<Rightarrow> string \<Rightarrow> string" where
  "slackDeliver tk webhookURL msg = delivery_result ''slack'' (tk_slack tk webhookURL msg)"

definition webhookDeliver :: "tick \<Rightarrow> string \<Rightarrow> payload \<Rightarrow> string" where
  "webhookDeliver tk url pay = delivery_result ''webhook'' (tk_webhook tk url pay)"

definition deliver :: "alert_env \<Rightarrow> tick \<Rightarrow> alert_rule \<Rightarrow> payload \<Rightarrow> string" where
  "deliver e tk rule pay =
     (if ar_ChannelType rule = ''slack'' then slackDeliver tk (ar_ChannelTarget rule) (slackText e rule pay)
      else if ar_ChannelType rule = ''webhook'' then webhookDeliver tk (ar_ChannelTarget rule) pay
      else ''unsupported channel: '' @ ar_ChannelType rule)"

text \<open>
  The error of the insert is dropped, so that a lost answer counts as one that arrived. The first component is the
  payload that was delivered.
\<close>

definition fire :: "alert_env \<Rightarrow> tick \<Rightarrow> alert_rule \<Rightarrow> payload \<Rightarrow> alert_db \<Rightarrow> payload option \<times> alert_db" where
  "fire e tk rule pay db =
     (let delivErr = deliver e tk rule pay;
          status = (if delivErr \<noteq> [] then ''failed'' else ''delivered'')
      in (Some pay, if ''RecordAlertEvent'' \<in> set (tk_fails tk) then db
                    else snd (RecordAlertEvent (tk_db tk) (ar_ID rule) pay status delivErr db)))"

section \<open>Triggers\<close>

definition evaluateTraffic :: "alert_env \<Rightarrow> tick \<Rightarrow> alert_world \<Rightarrow> alert_rule \<Rightarrow> string \<Rightarrow> alert_db \<Rightarrow> payload option \<times> alert_db" where
  "evaluateTraffic e tk w rule met db =
     (let opts = ar_ThresholdOptions rule;
          window = wrap64 (to_int64 e (rule_option e opts ''window_minutes'' 15) * Minute);
          minRequests = to_int64 e (rule_option e opts ''min_requests'' 20);
          th = rule_option e opts ''threshold'' (if met = ''error_rate'' then 5 else if met = ''latency_p95'' then 5000 else 0);
          teamID = (if ar_ScopeType rule = ''team'' then ar_ScopeID rule else None);
          t = AlertTraffic e teamID (tk_now tk + wrap64 (- window)) (aw_ledger w)
      in if ''AlertTraffic'' \<in> set (tk_fails tk) \<or> tr_Requests t < minRequests then (None, db)
         else let v = (if met = ''error_rate'' then percent_of e (tr_ServerErrors t) (tr_Requests t) else F (tr_P95Ms t)) in
              if f64_less v th then (None, db)
              else fire e tk rule (Traffic_payload met v (F th) (tr_Requests t) (minutes e window) (ar_ScopeType rule)) db)"

definition evaluateProviders :: "alert_env \<Rightarrow> tick \<Rightarrow> alert_world \<Rightarrow> alert_rule \<Rightarrow> alert_db \<Rightarrow> payload option \<times> alert_db" where
  "evaluateProviders e tk w rule db =
     (let window = wrap64 (to_int64 e (rule_option e (ar_ThresholdOptions rule) ''window_minutes'' 5) * Minute);
          names = UnavailableDeployments e (tk_now tk + wrap64 (- window)) w
      in if ''UnavailableDeployments'' \<in> set (tk_fails tk) \<or> names = [] then (None, db)
         else fire e tk rule (Provider_payload names (minutes e window)) db)"

text \<open>The team's budget period, its limit in micro-cents and the spend of the period.\<close>

definition budget_state :: "tick \<Rightarrow> alert_world \<Rightarrow> alert_rule \<Rightarrow> (team \<times> int \<times> int \<times> int \<times> gotime \<times> gotime) option" where
  "budget_state tk w rule =
     (case ar_ScopeID rule of
        None \<Rightarrow> None
      | Some i \<Rightarrow>
          if ar_ScopeType rule \<noteq> ''team'' \<or> ''GetTeamByID'' \<in> set (tk_fails tk) then None
          else (case GetTeamByID i (aw_identity w) of
                  Inl _ \<Rightarrow> None
                | Inr team \<Rightarrow>
                    (case t_UsdLimitCents team of
                       None \<Rightarrow> None
                     | Some cents \<Rightarrow>
                         if cents \<le> 0 \<or> ''SumTeamSpendInWindow'' \<in> set (tk_fails tk) then None
                         else let (start, stop) = windowFor (t_Period team) (tk_now tk) in
                              (case (SumTeamSpendInWindow (t_ID team) start stop (aw_ledger w), LimitMicrocents cents) of
                                 (Inr spend, Inr limit) \<Rightarrow> Some (team, cents, limit, spend, start, stop)
                               | _ \<Rightarrow> None))))"

text \<open>The comparison is over rationals; \<open>CeilCents\<close> does not panic because the spend is not negative.\<close>

definition evaluateBudgetThreshold :: "alert_env \<Rightarrow> tick \<Rightarrow> alert_world \<Rightarrow> alert_rule \<Rightarrow> alert_db \<Rightarrow> payload option \<times> alert_db" where
  "evaluateBudgetThreshold e tk w rule db =
     (case budget_state tk w rule of
        None \<Rightarrow> (None, db)
      | Some (team, cents, limit, spend, start, stop) \<Rightarrow>
          let pct = rule_option e (ar_ThresholdOptions rule) ''threshold_pct'' 80 in
          if of_int (spend * 100) < pct * of_int limit then (None, db)
          else (case CeilCents spend of
                  Inl _ \<Rightarrow> (None, db)
                | Inr spendCents \<Rightarrow>
                    fire e tk rule (Budget_payload (t_Slug team) cents spendCents (show_int limit) (show_int spend) (F pct)
                      (percent_of e spend limit) (t_Period team) start stop) db))"

definition evaluateRule :: "alert_env \<Rightarrow> tick \<Rightarrow> alert_world \<Rightarrow> alert_rule \<Rightarrow> alert_db \<Rightarrow> payload option \<times> alert_db" where
  "evaluateRule e tk w rule db =
     (let cooldown = wrap64 (ar_CooldownSeconds rule * Second);
          recent = (case LastAlertEventTime (ar_ID rule) db of None \<Rightarrow> False | Some lastFired \<Rightarrow> tk_since tk - lastFired < cooldown);
          trigger = ar_TriggerType rule
      in if ''LastAlertEventTime'' \<in> set (tk_fails tk) \<or> recent then (None, db)
         else if trigger = ''budget_threshold'' then evaluateBudgetThreshold e tk w rule db
         else if trigger = ''budget_exceeded'' then
           evaluateBudgetThreshold e tk w (rule\<lparr>ar_ThresholdOptions := [''threshold_pct'' \<mapsto> J_num 100]\<rparr>) db
         else if trigger = ''error_rate'' \<or> trigger = ''latency_p95'' then evaluateTraffic e tk w rule trigger db
         else if trigger = ''provider_unavailable'' then evaluateProviders e tk w rule db
         else (None, db))"

fun evaluate_rules :: "alert_env \<Rightarrow> (alert_rule \<Rightarrow> tick) \<Rightarrow> alert_world \<Rightarrow> alert_rule list \<Rightarrow> alert_db \<Rightarrow> payload list \<times> alert_db" where
  "evaluate_rules e ticks w [] db = ([], db)"
| "evaluate_rules e ticks w (rule # rules) db =
     (if tk_cancelled (ticks rule) then ([], db)
      else let (p, db1) = evaluateRule e (ticks rule) w rule db; (ps, db2) = evaluate_rules e ticks w rules db1
           in (case p of None \<Rightarrow> ps | Some x \<Rightarrow> x # ps, db2))"

definition evaluate :: "alert_env \<Rightarrow> bool \<Rightarrow> (alert_rule \<Rightarrow> tick) \<Rightarrow> alert_world \<Rightarrow> alert_db \<Rightarrow> payload list \<times> alert_db" where
  "evaluate e loaded ticks w db = (if loaded then evaluate_rules e ticks w (ListAlertRules db) db else ([], db))"

section \<open>The handlers\<close>

definition Triggers :: "string list" where
  "Triggers = [''budget_threshold'', ''budget_exceeded'', ''error_rate'', ''latency_p95'', ''provider_unavailable'']"

definition Channels :: "string list" where
  "Channels = [''slack'', ''webhook'']"

definition alert_call :: "call \<Rightarrow> string \<Rightarrow> (alert_db \<Rightarrow> (store_error + 'b) \<times> alert_db) \<Rightarrow> alert_db \<Rightarrow> (store_error + 'b) \<times> alert_db" where
  "alert_call c name f db = (if name \<in> set (ca_fails c) then (Inl ErrStore, db) else f db)"

definition ListAlertRules_handler :: "call \<Rightarrow> alert_db \<Rightarrow> answer \<times> alert_rule list" where
  "ListAlertRules_handler c db =
     (if ''ListAllAlertRules'' \<in> set (ca_fails c) then ((500, ''internal_error''), []) else ((200, []), ListAllAlertRules db))"

definition UpdateAlertRule :: "call \<Rightarrow> int option \<Rightarrow> bool option option \<Rightarrow> alert_db \<Rightarrow> answer \<times> alert_db" where
  "UpdateAlertRule c param body db =
     (case param of
        None \<Rightarrow> (bad_request, db)
      | Some i \<Rightarrow>
          (case body of
             None \<Rightarrow> (bad_request, db)
           | Some None \<Rightarrow> (bad_request, db)
           | Some (Some on) \<Rightarrow>
               (case alert_call c ''SetAlertRuleEnabled'' (SetAlertRuleEnabled i on) db of
                  (Inl err, db1) \<Rightarrow> (not_found_or_500 err, db1)
                | (Inr _, db1) \<Rightarrow> ((204, []), db1))))"

definition DeleteAlertRule_handler :: "call \<Rightarrow> int option \<Rightarrow> alert_db \<Rightarrow> answer \<times> alert_db" where
  "DeleteAlertRule_handler c param db =
     (case param of
        None \<Rightarrow> (bad_request, db)
      | Some i \<Rightarrow>
          (case alert_call c ''DeleteAlertRule'' (DeleteAlertRule i) db of
             (Inl err, db1) \<Rightarrow> (not_found_or_500 err, db1)
           | (Inr _, db1) \<Rightarrow> ((204, []), db1)))"

text \<open>\<open>limit\<close> is the query parameter when it is a number.\<close>

definition ListAlertEvents_handler :: "call \<Rightarrow> int option \<Rightarrow> alert_db \<Rightarrow> answer \<times> (alert_event \<times> string) list" where
  "ListAlertEvents_handler c limit db =
     (let n = (case limit of Some v \<Rightarrow> if v > 0 then v else 50 | None \<Rightarrow> 50) in
      if ''ListAlertEvents'' \<in> set (ca_fails c) then ((500, ''internal_error''), []) else ((200, []), ListAlertEvents n db))"

definition CreateAlertRule :: "call \<Rightarrow> alert_params option \<Rightarrow> alert_db \<Rightarrow> (answer \<times> alert_rule option) \<times> alert_db" where
  "CreateAlertRule c body db =
     (case body of
        None \<Rightarrow> ((bad_request, None), db)
      | Some q \<Rightarrow>
          if ap_TriggerType q \<noteq> [] \<and> ap_TriggerType q \<notin> set Triggers then ((bad_request, None), db)
          else if ap_ChannelType q \<noteq> [] \<and> ap_ChannelType q \<notin> set Channels then ((bad_request, None), db)
          else if ap_Name q = [] \<or> ap_ScopeType q = [] \<or> ap_TriggerType q = [] \<or> ap_ChannelType q = [] \<or> ap_ChannelTarget q = []
          then ((bad_request, None), db)
          else (case alert_call c ''CreateAlertRule'' (CreateAlertRule_store (ca_now c) q) db of
                  (Inl _, db1) \<Rightarrow> (((500, ''internal_error''), None), db1)
                | (Inr r, db1) \<Rightarrow> (((201, []), Some r), db1)))"

section \<open>The dollars of a message\<close>

definition no_comma :: "string \<Rightarrow> string" where
  "no_comma = filter (\<lambda>c. c \<noteq> CHR '','')"

definition usd_value :: "string \<Rightarrow> nat" where
  "usd_value s =
     (let body = tl s; whole = takeWhile (\<lambda>c. c \<noteq> CHR ''.'') body; fraction = tl (dropWhile (\<lambda>c. c \<noteq> CHR ''.'') body)
      in digits_value (no_comma whole) 0 * 100000000 + digits_value fraction 0 * 10 ^ (8 - length fraction))"

lemma no_comma_group: "no_comma (group_digits i s) = no_comma s"
proof (induction i s rule: group_digits.induct)
  case (1 i s)
  have cut: "no_comma (take i s @ '','' @ drop i s) = no_comma s"
    using filter_append [of "\<lambda>c. c \<noteq> CHR '',''" "take i s" "drop i s"] by (simp add: no_comma_def)
  show ?case
  proof (cases "i = 0")
    case False
    then show ?thesis unfolding group_digits.simps [of i s] using 1 [OF False] cut by simp
  qed (simp add: group_digits.simps)
qed

lemma set_group: "set (group_digits i s) \<subseteq> insert (CHR '','') (set s)"
proof (induction i s rule: group_digits.induct)
  case (1 i s)
  have "set (take i s @ '','' @ drop i s) \<subseteq> insert (CHR '','') (set s)" by (auto dest: in_set_takeD in_set_dropD)
  then show ?case using 1 by (subst group_digits.simps) auto
qed

lemma show_nat_plain: "c \<in> set (show_nat n) \<Longrightarrow> c \<noteq> CHR '','' \<and> c \<noteq> CHR ''.''"
  using set_show_nat [of c n] by auto

lemma length_show_nat: "n < 10 ^ Suc k \<Longrightarrow> length (show_nat n) \<le> Suc k"
proof (induction k arbitrary: n)
  case 0
  then show ?case by (subst show_nat.simps) simp
next
  case (Suc k)
  have "n div 10 < 10 ^ Suc k" using Suc.prems by (simp add: div_less_iff_less_mult)
  with Suc.IH show ?case by (subst show_nat.simps) simp
qed

lemma digits_value_zeros: "digits_value (s @ replicate k (CHR ''0'')) 0 = digits_value s 0 * 10 ^ k"
  by (induction k) (simp_all add: replicate_append_same [symmetric] digits_value_append flip: append_assoc)

lemma digits_value_leading: "digits_value (replicate k (CHR ''0'') @ s) 0 = digits_value s 0"
  by (induction k) auto

lemma pad8_props:
  assumes "0 \<le> i" and "i < 100000000"
  shows "length (pad8 i) = 8" and "digits_value (pad8 i) 0 = nat i"
proof -
  have "nat i < 10 ^ Suc 7" using assms by simp
  then show "length (pad8 i) = 8" using length_show_nat [of "nat i" 7] assms by (simp add: pad8_def Let_def)
  show "digits_value (pad8 i) 0 = nat i" using assms by (simp add: pad8_def Let_def digits_value_leading digits_value_show)
qed

lemma trim_zeros_split: "s = trim_zeros s @ replicate (length s - length (trim_zeros s)) (CHR ''0'')"
proof -
  let ?z = "\<lambda>c. c = CHR ''0''"
  have "rev s = takeWhile ?z (rev s) @ dropWhile ?z (rev s)" by simp
  moreover have "takeWhile ?z (rev s) = replicate (length (takeWhile ?z (rev s))) (CHR ''0'')"
    by (induction "rev s" arbitrary: s) (auto simp: replicate_length_same dest: set_takeWhileD intro!: replicate_length_same [symmetric])
  ultimately have "s = trim_zeros s @ replicate (length (takeWhile ?z (rev s))) (CHR ''0'')"
    unfolding trim_zeros_def by (metis rev_append rev_replicate rev_rev_ident)
  then show ?thesis by (metis add_diff_cancel_left' length_append length_replicate)
qed

lemma fraction_value:
  assumes "0 \<le> i" and "i < 100000000"
  defines "f \<equiv> trim_zeros (pad8 i)"
  defines "u \<equiv> f @ replicate (2 - length f) (CHR ''0'')"
  shows "digits_value u 0 * 10 ^ (8 - length u) = nat i"
proof -
  note p = pad8_props [OF assms(1,2)]
  have split: "pad8 i = f @ replicate (8 - length f) (CHR ''0'')"
    using trim_zeros_split [of "pad8 i"] p(1) unfolding f_def by simp
  have len: "length f \<le> 8" using arg_cong [OF split, of length] p(1) by simp
  have "(2 - length f) + (8 - length u) = 8 - length f" using len by (simp add: u_def)
  then have "digits_value u 0 * 10 ^ (8 - length u) = digits_value f 0 * 10 ^ (8 - length f)"
    unfolding u_def digits_value_zeros by (metis mult.assoc power_add)
  also have "\<dots> = digits_value (pad8 i) 0" by (subst split) (simp add: digits_value_zeros)
  finally show ?thesis using p(2) by simp
qed

text \<open>The text of an amount in a message reads back to the exact number of micro-cents.\<close>

lemma usd_text_reads_back:
  assumes "0 \<le> m"
  shows "usd_value (formatMicrocentsUSD m) = nat m"
proof -
  define d f where "d = m div 100000000" and "f = m mod 100000000"
  have parts: "m sdiv (100 * MicrocentsPerCent) = d" "m smod (100 * MicrocentsPerCent) = f"
    using assms by (simp_all add: d_def f_def MicrocentsPerCent_def sdiv_nonneg smod_nonneg)
  have d: "0 \<le> d" and f: "0 \<le> f" "f < 100000000" and m: "m = d * 100000000 + f"
    using assms by (simp_all add: d_def f_def pos_imp_zdiv_nonneg_iff)
  let ?w = "group_digits (length (show_int d) - 3) (show_int d)"
  let ?t = "trim_zeros (pad8 f)"
  let ?u = "?t @ replicate (2 - length ?t) (CHR ''0'')"
  have fmt: "formatMicrocentsUSD m = ''$'' @ ?w @ ''.'' @ ?u"
    unfolding formatMicrocentsUSD_def Let_def parts by simp
  have no_dot: "\<forall>c \<in> set ?w. c \<noteq> CHR ''.''"
    using set_group [of "length (show_int d) - 3" "show_int d"] show_nat_plain [of _ "nat d"] d by (auto simp: show_int_def)
  have whole: "no_comma ?w = show_nat (nat d)"
    unfolding no_comma_group using d show_nat_plain [of _ "nat d"] by (auto simp: no_comma_def show_int_def intro!: filter_True)
  have cut: "takeWhile (\<lambda>c. c \<noteq> CHR ''.'') (?w @ ''.'' @ ?u) = ?w" "dropWhile (\<lambda>c. c \<noteq> CHR ''.'') (?w @ ''.'' @ ?u) = ''.'' @ ?u"
    using no_dot by (simp_all add: takeWhile_append2 dropWhile_append2)
  have "usd_value (formatMicrocentsUSD m) = nat d * 100000000 + nat f"
    unfolding usd_value_def fmt Let_def using cut whole fraction_value [OF f] by (simp add: digits_value_show)
  also have "\<dots> = nat m" using d f m by (simp add: nat_add_distrib nat_mult_distrib)
  finally show ?thesis .
qed

section \<open>Passes and handlers\<close>

text \<open>
  \<open>as_pass\<close> is what is left of the rules that the running pass has loaded: a rule may be disabled or deleted before
  it is evaluated. The two clocks agree: the database's at the insert is not behind the gateway's at the check. A handler
  that runs during the evaluation of a rule has the effect it has before or after it, because the evaluation
  writes once.
\<close>

record alert_state =
  as_now :: gotime
  as_db :: alert_db
  as_pass :: "alert_rule list"

definition alert_start :: "gotime \<Rightarrow> alert_state" where
  "alert_start t = \<lparr>as_now = t, as_db = \<lparr>adb_rules = [], adb_events = [], adb_next_rule = 1, adb_next_event = 1\<rparr>, as_pass = []\<rparr>"

inductive alert_step :: "alert_env \<Rightarrow> alert_state \<Rightarrow> alert_state \<Rightarrow> bool" for e where
  create: "as_now s \<le> ca_now c \<Longrightarrow>
    alert_step e s (s\<lparr>as_now := ca_now c, as_db := snd (CreateAlertRule c body (as_db s))\<rparr>)"
| update: "alert_step e s (s\<lparr>as_db := snd (UpdateAlertRule c param on (as_db s))\<rparr>)"
| delete: "alert_step e s (s\<lparr>as_db := snd (DeleteAlertRule_handler c param (as_db s))\<rparr>)"
| load: "as_pass s = [] \<Longrightarrow> alert_step e s (s\<lparr>as_pass := ListAlertRules (as_db s)\<rparr>)"
| rule: "as_pass s = r # rest \<Longrightarrow> \<not> tk_cancelled tk \<Longrightarrow> as_now s \<le> tk_since tk \<Longrightarrow> tk_since tk \<le> tk_db tk \<Longrightarrow>
    alert_step e s \<lparr>as_now = tk_db tk, as_db = snd (evaluateRule e tk w r (as_db s)), as_pass = rest\<rparr>"
| cancel: "alert_step e s (s\<lparr>as_pass := []\<rparr>)"

text \<open>A whole pass is such a sequence of steps.\<close>

fun ticks_in_order :: "(alert_rule \<Rightarrow> tick) \<Rightarrow> gotime \<Rightarrow> alert_rule list \<Rightarrow> bool" where
  "ticks_in_order ticks now [] = True"
| "ticks_in_order ticks now (r # rs) =
     (now \<le> tk_since (ticks r) \<and> tk_since (ticks r) \<le> tk_db (ticks r) \<and> ticks_in_order ticks (tk_db (ticks r)) rs)"

lemma evaluate_rules_steps:
  assumes "ticks_in_order ticks now rules"
  shows "\<exists>t. (alert_step e)\<^sup>*\<^sup>* \<lparr>as_now = now, as_db = db, as_pass = rules\<rparr>
               \<lparr>as_now = t, as_db = snd (evaluate_rules e ticks w rules db), as_pass = []\<rparr>"
  using assms
proof (induction rules arbitrary: now db)
  case Nil
  then show ?case by auto
next
  case (Cons r rs)
  show ?case
  proof (cases "tk_cancelled (ticks r)")
    case True
    have "alert_step e \<lparr>as_now = now, as_db = db, as_pass = r # rs\<rparr> \<lparr>as_now = now, as_db = db, as_pass = []\<rparr>"
      using cancel [of e "\<lparr>as_now = now, as_db = db, as_pass = r # rs\<rparr>"] by simp
    with True show ?thesis by auto
  next
    case False
    have "alert_step e \<lparr>as_now = now, as_db = db, as_pass = r # rs\<rparr>
        \<lparr>as_now = tk_db (ticks r), as_db = snd (evaluateRule e (ticks r) w r db), as_pass = rs\<rparr>"
      using rule [of "\<lparr>as_now = now, as_db = db, as_pass = r # rs\<rparr>" r rs "ticks r" e w] Cons.prems False by simp
    moreover have "snd (evaluate_rules e ticks w (r # rs) db) = snd (evaluate_rules e ticks w rs (snd (evaluateRule e (ticks r) w r db)))"
      using False by (simp add: case_prod_unfold Let_def)
    ultimately show ?thesis using Cons.IH [of "tk_db (ticks r)" "snd (evaluateRule e (ticks r) w r db)"] Cons.prems
      by (auto intro: converse_rtranclp_into_rtranclp)
  qed
qed

lemma evaluate_is_pass:
  assumes "ticks_in_order ticks now (ListAlertRules db)"
  shows "\<exists>t. (alert_step e)\<^sup>*\<^sup>* \<lparr>as_now = now, as_db = db, as_pass = []\<rparr>
               \<lparr>as_now = t, as_db = snd (evaluate e True ticks w db), as_pass = []\<rparr>"
  using evaluate_rules_steps [OF assms, of e db w] load [of "\<lparr>as_now = now, as_db = db, as_pass = []\<rparr>" e]
  by (auto simp: evaluate_def intro: converse_rtranclp_into_rtranclp)

section \<open>Cooldowns\<close>

definition spaced_by :: "alert_rule list \<Rightarrow> alert_event \<Rightarrow> alert_event \<Rightarrow> bool" where
  "spaced_by rules a b \<longleftrightarrow>
     (ev_RuleID a = ev_RuleID b \<longrightarrow>
      (\<forall>r \<in> set rules. ar_ID r = ev_RuleID a \<longrightarrow> ev_FiredAt a + ar_CooldownSeconds r * Second \<le> ev_FiredAt b))"

definition cooldown_ok :: "alert_rule \<Rightarrow> bool" where
  "cooldown_ok r \<longleftrightarrow> 0 < ar_CooldownSeconds r \<and> ar_CooldownSeconds r \<le> 2147483647"

definition alert_tables_ok :: "gotime \<Rightarrow> alert_db \<Rightarrow> bool" where
  "alert_tables_ok now db \<longleftrightarrow>
     distinct (map ar_ID (adb_rules db))
     \<and> (\<forall>r \<in> set (adb_rules db). ar_ID r < adb_next_rule db \<and> cooldown_ok r)
     \<and> (\<forall>ev \<in> set (adb_events db). ev_FiredAt ev \<le> now \<and> ev_RuleID ev \<in> ar_ID ` set (adb_rules db))
     \<and> sorted_wrt (spaced_by (adb_rules db)) (adb_events db)"

definition pass_ok :: "alert_db \<Rightarrow> alert_rule \<Rightarrow> bool" where
  "pass_ok db r \<longleftrightarrow> ar_ID r < adb_next_rule db \<and> cooldown_ok r
     \<and> (\<forall>q \<in> set (adb_rules db). ar_ID q = ar_ID r \<longrightarrow> ar_CooldownSeconds q = ar_CooldownSeconds r)"

definition alert_inv :: "alert_state \<Rightarrow> bool" where
  "alert_inv s \<longleftrightarrow> alert_tables_ok (as_now s) (as_db s) \<and> list_all (pass_ok (as_db s)) (as_pass s)"

lemma alert_tables_mono: "alert_tables_ok now db \<Longrightarrow> now \<le> t \<Longrightarrow> alert_tables_ok t db"
  unfolding alert_tables_ok_def by fastforce

lemma create_keeps:
  assumes "alert_tables_ok now db" and "list_all (pass_ok db) rs"
  shows "alert_tables_ok now (snd (CreateAlertRule c body db)) \<and> list_all (pass_ok (snd (CreateAlertRule c body db))) rs"
proof (cases "snd (CreateAlertRule c body db) = db")
  case False
  then obtain q where "snd (CreateAlertRule c body db) = snd (CreateAlertRule_store (ca_now c) q db)"
    by (auto simp: CreateAlertRule_def alert_call_def split: option.splits if_splits prod.splits sum.splits) (metis snd_conv)+
  with False obtain r where eq: "snd (CreateAlertRule c body db) = db\<lparr>adb_rules := adb_rules db @ [r], adb_next_rule := adb_next_rule db + 1\<rparr>"
    and r: "ar_ID r = adb_next_rule db" "cooldown_ok r"
    by (auto simp: CreateAlertRule_store_def Let_def cooldown_ok_def split: if_splits)
  have fresh: "ar_ID q \<noteq> adb_next_rule db" if "q \<in> set (adb_rules db)" for q using that assms(1) by (auto simp: alert_tables_ok_def)
  have evs: "ev_RuleID ev \<noteq> adb_next_rule db" if "ev \<in> set (adb_events db)" for ev
    using that assms(1) fresh by (auto simp: alert_tables_ok_def)
  have sp: "sorted_wrt (spaced_by (adb_rules db @ [r])) (adb_events db)"
    by (rule sorted_wrt_mono_rel [of _ "spaced_by (adb_rules db)"])
      (use assms(1) evs r(1) in \<open>auto simp: spaced_by_def alert_tables_ok_def\<close>)
  show ?thesis
    using assms sp fresh r unfolding eq
    by (fastforce simp: alert_tables_ok_def pass_ok_def list_all_iff)
qed (use assms in simp)

lemma update_keeps:
  assumes "alert_tables_ok now db" and "list_all (pass_ok db) rs"
  shows "alert_tables_ok now (snd (UpdateAlertRule c param on db)) \<and> list_all (pass_ok (snd (UpdateAlertRule c param on db))) rs"
proof (cases "snd (UpdateAlertRule c param on db) = db")
  case False
  define f :: "int \<Rightarrow> bool \<Rightarrow> alert_rule \<Rightarrow> alert_rule" where "f i b r = (if ar_ID r = i then r\<lparr>ar_Enabled := b\<rparr> else r)" for i b r
  have f: "ar_ID (f i b r) = ar_ID r" "ar_CooldownSeconds (f i b r) = ar_CooldownSeconds r" "cooldown_ok (f i b r) = cooldown_ok r" for i b r
    by (simp_all add: f_def cooldown_ok_def)
  obtain i b where eq: "snd (UpdateAlertRule c param on db) = db\<lparr>adb_rules := map (f i b) (adb_rules db)\<rparr>"
    using False unfolding f_def
    by (auto simp: UpdateAlertRule_def alert_call_def SetAlertRuleEnabled_def split: option.splits if_splits prod.splits sum.splits)
  have sp: "spaced_by (map (f i b) (adb_rules db)) = spaced_by (adb_rules db)"
    by (intro ext) (simp add: spaced_by_def f)
  show ?thesis using assms unfolding eq
    by (simp add: alert_tables_ok_def pass_ok_def list_all_iff sp f comp_def image_image)
qed (use assms in simp)

lemma delete_keeps:
  assumes "alert_tables_ok now db" and "list_all (pass_ok db) rs"
  shows "alert_tables_ok now (snd (DeleteAlertRule_handler c param db)) \<and> list_all (pass_ok (snd (DeleteAlertRule_handler c param db))) rs"
proof (cases "snd (DeleteAlertRule_handler c param db) = db")
  case False
  obtain i where eq: "snd (DeleteAlertRule_handler c param db) = db\<lparr>adb_rules := filter (\<lambda>r. ar_ID r \<noteq> i) (adb_rules db),
      adb_events := filter (\<lambda>ev. ev_RuleID ev \<noteq> i) (adb_events db)\<rparr>"
    using False by (auto simp: DeleteAlertRule_handler_def alert_call_def DeleteAlertRule_def split: option.splits if_splits prod.splits sum.splits)
  have "sorted_wrt (spaced_by (filter (\<lambda>r. ar_ID r \<noteq> i) (adb_rules db))) (adb_events db)"
    by (rule sorted_wrt_mono_rel [of _ "spaced_by (adb_rules db)"])
      (use assms(1) in \<open>auto simp: spaced_by_def alert_tables_ok_def\<close>)
  then have sp: "sorted_wrt (spaced_by (filter (\<lambda>r. ar_ID r \<noteq> i) (adb_rules db))) (filter (\<lambda>ev. ev_RuleID ev \<noteq> i) (adb_events db))"
    by (rule sorted_wrt_filter)
  show ?thesis using assms sp unfolding eq
    by (fastforce simp: alert_tables_ok_def pass_ok_def list_all_iff distinct_map_filter)
qed (use assms in simp)

lemma foldl_max_ge: "x \<in> set (a # xs) \<Longrightarrow> x \<le> foldl max a xs" for x :: int
proof (induction xs arbitrary: a x)
  case (Cons b xs)
  have "max a b \<le> foldl max (max a b) xs" by (rule Cons.IH) simp
  then show ?case using Cons.IH [of x "max a b"] Cons.prems by (cases "x \<in> set xs") auto
qed simp

lemma last_event_bound:
  assumes "ev \<in> set (adb_events db)" and "ev_RuleID ev = i"
  obtains t where "LastAlertEventTime i db = Some t" "ev_FiredAt ev \<le> t"
proof -
  let ?ts = "map ev_FiredAt (filter (\<lambda>ev. ev_RuleID ev = i) (adb_events db))"
  have "ev_FiredAt ev \<in> set ?ts" using assms by auto
  then show thesis using foldl_max_ge [of "ev_FiredAt ev" "hd ?ts" "tl ?ts"] that
    by (cases ?ts) (auto simp: LastAlertEventTime_def)
qed

text \<open>What one evaluation writes: at most one event, and only when the cooldown has passed.\<close>

definition records :: "tick \<Rightarrow> alert_rule \<Rightarrow> alert_db \<Rightarrow> alert_db \<Rightarrow> bool" where
  "records tk r db db' \<longleftrightarrow> db' = db \<or>
     (\<exists>ev. db' = db\<lparr>adb_events := adb_events db @ [ev], adb_next_event := adb_next_event db + 1\<rparr>
       \<and> ev_RuleID ev = ar_ID r \<and> ev_FiredAt ev = tk_db tk \<and> ar_ID r \<in> ar_ID ` set (adb_rules db))"

lemma records_same [simp]: "records tk r db db"
  by (simp add: records_def)

lemma RecordAlertEvent_records: "records tk r db (snd (RecordAlertEvent (tk_db tk) (ar_ID r) pay st err db))"
proof (cases "marshals pay \<and> (\<exists>q \<in> set (adb_rules db). ar_ID q = ar_ID r)")
  case True
  define ev where "ev = \<lparr>ev_ID = adb_next_event db, ev_RuleID = ar_ID r, ev_FiredAt = tk_db tk, ev_Payload = pay,
    ev_DeliveryStatus = st, ev_DeliveryError = (if err \<noteq> [] then Some err else None)\<rparr>"
  have eq: "snd (RecordAlertEvent (tk_db tk) (ar_ID r) pay st err db)
      = db\<lparr>adb_events := adb_events db @ [ev], adb_next_event := adb_next_event db + 1\<rparr>"
    using True by (simp only: RecordAlertEvent_def ev_def) simp
  have "ar_ID r \<in> ar_ID ` set (adb_rules db)" using True by (metis image_eqI)
  moreover have "ev_RuleID ev = ar_ID r" "ev_FiredAt ev = tk_db tk" by (simp_all add: ev_def)
  ultimately show ?thesis unfolding eq records_def by blast
qed (auto simp: RecordAlertEvent_def)

lemma fire_records: "records tk r db (snd (fire e tk r pay db))"
  by (simp add: fire_def Let_def RecordAlertEvent_records)

lemma records_options [simp]: "records tk (r\<lparr>ar_ThresholdOptions := m\<rparr>) = records tk r"
  by (intro ext) (simp add: records_def)

lemma evaluators_record:
  shows "records tk r db (snd (evaluateTraffic e tk w r met db))"
    and "records tk r db (snd (evaluateProviders e tk w r db))"
    and "records tk r db (snd (evaluateBudgetThreshold e tk w r db))"
  unfolding evaluateTraffic_def evaluateProviders_def evaluateBudgetThreshold_def Let_def
  by (auto simp: fire_records split: option.splits sum.splits)

lemma evaluateRule_records:
  assumes "snd (evaluateRule e tk w r db) \<noteq> db"
  shows "records tk r db (snd (evaluateRule e tk w r db))"
    and "LastAlertEventTime (ar_ID r) db = Some t \<Longrightarrow> t + wrap64 (ar_CooldownSeconds r * Second) \<le> tk_since tk"
proof -
  have ex: "records tk r db (snd (evaluateBudgetThreshold e tk w (r\<lparr>ar_ThresholdOptions := m\<rparr>) db))" for m
    using evaluators_record(3) [of tk "r\<lparr>ar_ThresholdOptions := m\<rparr>" db e w] by simp
  show "records tk r db (snd (evaluateRule e tk w r db))"
    unfolding evaluateRule_def Let_def by (simp add: evaluators_record ex)
  show "LastAlertEventTime (ar_ID r) db = Some t \<Longrightarrow> t + wrap64 (ar_CooldownSeconds r * Second) \<le> tk_since tk"
    using assms by (force simp: evaluateRule_def Let_def split: if_splits)
qed

lemma rule_keeps:
  assumes ok: "alert_tables_ok now db" and pass: "list_all (pass_ok db) (r # rest)"
    and clock: "now \<le> tk_since tk" "tk_since tk \<le> tk_db tk"
  shows "alert_tables_ok (tk_db tk) (snd (evaluateRule e tk w r db)) \<and> list_all (pass_ok (snd (evaluateRule e tk w r db))) rest"
proof (cases "snd (evaluateRule e tk w r db) = db")
  case True
  then show ?thesis using assms alert_tables_mono [OF ok] by auto
next
  case False
  note rec = evaluateRule_records [OF False]
  obtain ev where eq: "snd (evaluateRule e tk w r db) = db\<lparr>adb_events := adb_events db @ [ev], adb_next_event := adb_next_event db + 1\<rparr>"
    and ev: "ev_RuleID ev = ar_ID r" "ev_FiredAt ev = tk_db tk" "ar_ID r \<in> ar_ID ` set (adb_rules db)"
    using rec(1) False unfolding records_def by metis
  have cool: "cooldown_ok r" and same: "\<And>q. q \<in> set (adb_rules db) \<Longrightarrow> ar_ID q = ar_ID r \<Longrightarrow> ar_CooldownSeconds q = ar_CooldownSeconds r"
    using pass by (auto simp: pass_ok_def)
  have wrap: "wrap64 (ar_CooldownSeconds r * Second) = ar_CooldownSeconds r * Second"
    using cool by (intro wrap64_id) (simp add: cooldown_ok_def i64_defs)
  have gap: "spaced_by (adb_rules db) a ev" if a: "a \<in> set (adb_events db)" for a
    unfolding spaced_by_def
  proof (intro impI ballI)
    fix q assume same_id: "ev_RuleID a = ev_RuleID ev" and q: "q \<in> set (adb_rules db)" "ar_ID q = ev_RuleID a"
    obtain t where t: "LastAlertEventTime (ar_ID r) db = Some t" "ev_FiredAt a \<le> t"
      using last_event_bound [OF a] same_id ev(1) by auto
    show "ev_FiredAt a + ar_CooldownSeconds q * Second \<le> ev_FiredAt ev"
      using rec(2) [OF t(1)] t(2) clock(2) same [OF q(1)] q(2) same_id ev wrap by simp
  qed
  have old: "alert_tables_ok (tk_db tk) db" using alert_tables_mono [OF ok] clock by simp
  have sorted: "sorted_wrt (spaced_by (adb_rules db)) (adb_events db @ [ev])"
    using old gap by (simp add: alert_tables_ok_def sorted_wrt_append)
  have "alert_tables_ok (tk_db tk) (db\<lparr>adb_events := adb_events db @ [ev], adb_next_event := adb_next_event db + 1\<rparr>)"
    using old ev sorted unfolding alert_tables_ok_def by auto
  moreover have "list_all (pass_ok (db\<lparr>adb_events := adb_events db @ [ev], adb_next_event := adb_next_event db + 1\<rparr>)) rest"
    using pass by (simp add: pass_ok_def list_all_iff)
  ultimately show ?thesis unfolding eq by blast
qed

lemma alert_step_inv: "alert_step e s s' \<Longrightarrow> alert_inv s \<Longrightarrow> alert_inv s'"
proof (induction rule: alert_step.induct)
  case (create s c body)
  then show ?case using create_keeps [of "ca_now c" "as_db s" "as_pass s" c body] alert_tables_mono [of "as_now s" "as_db s" "ca_now c"]
    by (simp add: alert_inv_def)
next
  case (load s)
  have "pass_ok (as_db s) r" if "r \<in> set (adb_rules (as_db s))" for r
    using load that by (auto simp: alert_inv_def alert_tables_ok_def pass_ok_def distinct_map dest: inj_onD)
  with load show ?case by (auto simp: alert_inv_def list_all_iff ListAlertRules_def)
next
  case (rule s r rest tk w)
  then show ?case using rule_keeps [of "as_now s" "as_db s" r rest tk e w] by (simp add: alert_inv_def)
next
  case (update s c param on)
  then show ?case using update_keeps [of "as_now s" "as_db s" "as_pass s"] by (simp add: alert_inv_def)
next
  case (delete s c param)
  then show ?case using delete_keeps [of "as_now s" "as_db s" "as_pass s"] by (simp add: alert_inv_def)
qed (simp add: alert_inv_def)

lemma alert_reachable_inv: "(alert_step e)\<^sup>*\<^sup>* (alert_start t) s \<Longrightarrow> alert_inv s"
proof (induction rule: rtranclp_induct)
  case base
  show ?case by (simp add: alert_start_def alert_inv_def alert_tables_ok_def)
qed (rule alert_step_inv)


definition sample_alert_env :: alert_env where
  "sample_alert_env = \<lparr>al_round = (\<lambda>x. x), al_parse = (\<lambda>_. 0), al_int = (\<lambda>_. MinInt64), al_fmt = (\<lambda>_ _. []), al_order = (\<lambda>ns. ns)\<rparr>"

definition sample_alert_call :: call where
  "sample_alert_call = \<lparr>ca_now = 0, ca_fails = [], ca_secret = None,
     ca_request = \<lparr>hr_remote = [], hr_header = (\<lambda>_. []), hr_cookie = (\<lambda>_. None)\<rparr>\<rparr>"

definition sample_alert_params :: alert_params where
  "sample_alert_params = \<lparr>ap_Name = ''down'', ap_ScopeType = ''gateway'', ap_ScopeID = None, ap_TriggerType = ''provider_unavailable'',
     ap_ThresholdOptions = None, ap_ChannelType = ''webhook'', ap_ChannelTarget = ''u'', ap_CooldownSeconds = 60\<rparr>"

definition sample_world :: alert_world where
  "sample_world = \<lparr>aw_identity = \<lparr>idb_teams = [], idb_users = [], idb_accounts = [], idb_keys = [], idb_sessions = [], idb_invites = [],
       idb_resets = [], idb_key_seq = 1, idb_user_seq = 1, idb_invite_seq = 1, idb_reset_seq = 1\<rparr>,
     aw_ledger = empty_ledger,
     aw_samples = [\<lparr>hs_deployment_name = ''d'', hs_sampled_at = 0, hs_ready = False, hs_circuit = ''closed''\<rparr>],
     aw_deployments = [(''d'', True)]\<rparr>"

definition sample_tick :: "gotime \<Rightarrow> tick" where
  "sample_tick t = \<lparr>tk_cancelled = False, tk_since = t, tk_now = t, tk_db = t, tk_fails = [],
     tk_slack = (\<lambda>_ _. Post_status 200), tk_webhook = (\<lambda>_ _. Post_status 200)\<rparr>"

definition sample_created :: alert_db where
  "sample_created = snd (CreateAlertRule sample_alert_call (Some sample_alert_params) (as_db (alert_start 0)))"

definition sample_fired :: "gotime \<Rightarrow> alert_db \<Rightarrow> alert_db" where
  "sample_fired t db = snd (evaluateRule sample_alert_env (sample_tick t) sample_world (hd (ListAlertRules db)) db)"

lemma sample_pass:
  assumes "length (ListAlertRules db) = 1" and "now \<le> t"
  shows "(alert_step sample_alert_env)\<^sup>*\<^sup>* \<lparr>as_now = now, as_db = db, as_pass = []\<rparr> \<lparr>as_now = t, as_db = sample_fired t db, as_pass = []\<rparr>"
proof -
  obtain r where r: "ListAlertRules db = [r]" using assms(1) by (auto simp: length_Suc_conv)
  have "alert_step sample_alert_env \<lparr>as_now = now, as_db = db, as_pass = []\<rparr> \<lparr>as_now = now, as_db = db, as_pass = [r]\<rparr>"
    using load [of "\<lparr>as_now = now, as_db = db, as_pass = []\<rparr>"] r by simp
  moreover have "alert_step sample_alert_env \<lparr>as_now = now, as_db = db, as_pass = [r]\<rparr> \<lparr>as_now = t, as_db = sample_fired t db, as_pass = []\<rparr>"
    using rule [of "\<lparr>as_now = now, as_db = db, as_pass = [r]\<rparr>" r "[]" "sample_tick t" sample_alert_env sample_world] assms(2) r
    by (simp add: sample_tick_def sample_fired_def)
  ultimately show ?thesis by simp
qed

lemma sample_run:
  "(alert_step sample_alert_env)\<^sup>*\<^sup>* (alert_start 0)
     \<lparr>as_now = 61000000000, as_db = sample_fired 61000000000 (sample_fired 1000000000 sample_created), as_pass = []\<rparr>"
proof -
  have "(alert_step sample_alert_env)\<^sup>*\<^sup>* (alert_start 0) \<lparr>as_now = 0, as_db = sample_created, as_pass = []\<rparr>"
    using create [of "alert_start 0" sample_alert_call sample_alert_env "Some sample_alert_params"]
    by (simp add: sample_created_def alert_start_def sample_alert_call_def)
  also have "(alert_step sample_alert_env)\<^sup>*\<^sup>* \<dots> \<lparr>as_now = 1000000000, as_db = sample_fired 1000000000 sample_created, as_pass = []\<rparr>"
    by (rule sample_pass) code_simp+
  also have "(alert_step sample_alert_env)\<^sup>*\<^sup>* \<dots>
      \<lparr>as_now = 61000000000, as_db = sample_fired 61000000000 (sample_fired 1000000000 sample_created), as_pass = []\<rparr>"
    by (rule sample_pass) code_simp+
  finally show ?thesis .
qed


section \<open>Budget alerts\<close>

lemma sum_amounts_exact: "sum_amounts us = Inr s \<Longrightarrow> s = sum_list (map u_charge us)"
proof (induction us arbitrary: s)
  case (Cons u us)
  then show ?case by (auto simp: u_charge_def amount_def pg_amount_def bigint_def bind_ok_def split: sum.splits option.splits if_splits)
qed simp

lemma sumSpendInWindow_exact:
  assumes "sumSpendInWindow column i start stop db = Inr s"
  shows "s = sum_list (map u_charge (filter (in_window column i start stop) (usage_log db)))" and "0 \<le> s" and "is_i64 s"
  using assms sum_amounts_exact by (auto simp: sumSpendInWindow_def bind_ok_def split: sum.splits if_splits)

text \<open>For the periods a limit is enforced over, an alert looks at the same window as admission.\<close>

lemma windowFor_is_budgetWindow: "period \<noteq> ''week'' \<Longrightarrow> windowFor period now = budgetWindow now period"
  by (simp add: windowFor_def budgetWindow_def)

text \<open>A weekly period is a week for alerts and a month for admission.\<close>

lemma weekly_windows_differ: "windowFor ''week'' 0 = (- 4 * day_ns, 3 * day_ns)" "budgetWindow 0 ''week'' = (0, 31 * day_ns)"
  by code_simp+

lemma budget_state_spend:
  assumes "budget_state tk w rule = Some (team, cents, limit, spend, start, stop)"
  shows "0 < cents" and "LimitMicrocents cents = Inr limit" and "0 \<le> spend" and "is_i64 spend"
    and "(start, stop) = windowFor (t_Period team) (tk_now tk)"
    and "spend = sum_list (map u_charge (filter (in_window (\<lambda>u. Some (u_team_id u)) (t_ID team) start stop) (usage_log (aw_ledger w))))"
proof -
  have sum: "SumTeamSpendInWindow (t_ID team) start stop (aw_ledger w) = Inr spend"
    and rest: "0 < cents" "LimitMicrocents cents = Inr limit" "(start, stop) = windowFor (t_Period team) (tk_now tk)"
    using assms by (auto simp: budget_state_def split: option.splits if_splits sum.splits prod.splits)
  show "0 < cents" "LimitMicrocents cents = Inr limit" "(start, stop) = windowFor (t_Period team) (tk_now tk)" by (fact rest)+
  show "0 \<le> spend" "is_i64 spend"
    "spend = sum_list (map u_charge (filter (in_window (\<lambda>u. Some (u_team_id u)) (t_ID team) start stop) (usage_log (aw_ledger w))))"
    using sumSpendInWindow_exact [OF sum [unfolded SumTeamSpendInWindow_def]] by blast+
qed

text \<open>
  A budget rule fires exactly when the recorded spend of the period has reached the share of the limit, compared without
  rounding; a rule on the exceeded budget fires exactly when it has reached the limit.
\<close>

lemma budget_alert_exact:
  assumes st: "budget_state tk w rule = Some (team, cents, limit, spend, start, stop)"
  shows "fst (evaluateBudgetThreshold e tk w rule db) \<noteq> None \<longleftrightarrow>
    rule_option e (ar_ThresholdOptions rule) ''threshold_pct'' 80 * of_int limit \<le> of_int (100 * spend)"
proof -
  obtain c where "CeilCents spend = Inr c" using CeilCents_eq budget_state_spend(3,4) [OF st] by blast
  then show ?thesis by (auto simp: evaluateBudgetThreshold_def st fire_def Let_def mult.commute)
qed

lemma exceeded_alert_exact:
  assumes st: "budget_state tk w rule = Some (team, cents, limit, spend, start, stop)"
    and rule: "ar_TriggerType rule = ''budget_exceeded''" and hundred: "al_round e 100 = 100"
    and due: "''LastAlertEventTime'' \<notin> set (tk_fails tk)" "LastAlertEventTime (ar_ID rule) db = None"
    and cents: "cents \<le> MaxInt64 div 1000000"
  shows "fst (evaluateRule e tk w rule db) \<noteq> None \<longleftrightarrow>
    cents * 1000000 \<le> sum_list (map u_charge (filter (in_window (\<lambda>u. Some (u_team_id u)) (t_ID team) start stop) (usage_log (aw_ledger w))))"
proof -
  let ?r = "rule\<lparr>ar_ThresholdOptions := [''threshold_pct'' \<mapsto> J_num 100]\<rparr>"
  have sel: "ar_ScopeType ?r = ar_ScopeType rule" "ar_ScopeID ?r = ar_ScopeID rule" by simp_all
  have st': "budget_state tk w ?r = Some (team, cents, limit, spend, start, stop)"
    using st unfolding budget_state_def sel .
  have limit: "limit = cents * 1000000"
    using budget_state_spend(1,2) [OF st] cents LimitMicrocents_eq [of cents] by (auto simp: MicrocentsPerCent_def MaxInt64_def)
  have "fst (evaluateRule e tk w rule db) = fst (evaluateBudgetThreshold e tk w ?r db)"
    using rule due by (simp add: evaluateRule_def Let_def)
  moreover have "(100 * rat_of_int limit \<le> of_int (100 * spend)) = (limit \<le> spend)" by simp
  ultimately show ?thesis
    using budget_alert_exact [OF st', of e db] budget_state_spend(6) [OF st] hundred limit by (simp add: rule_option_def)
qed

text \<open>
  An error-rate rule that asks for no minimum of requests fires on a window without any: the rate is not a number, so it
  is not below the threshold. Its payload cannot be stored, so that no cooldown starts.
\<close>

lemma error_rate_without_traffic:
  assumes "usage_log (aw_ledger w) = []" and "ar_TriggerType rule = ''error_rate''" and "al_round e 0 = 0"
    and "to_int64 e (rule_option e (ar_ThresholdOptions rule) ''min_requests'' 20) \<le> 0"
    and "tk_fails tk = []" and "LastAlertEventTime (ar_ID rule) db = None"
  shows "fst (evaluateRule e tk w rule db) \<noteq> None" and "snd (evaluateRule e tk w rule db) = db"
  using assms by (simp_all add: evaluateRule_def evaluateTraffic_def Let_def AlertTraffic_def percent_of_def fdiv_def
      fire_def RecordAlertEvent_def)

end
