(* ===== verification/Native_Adapters.thy ===== *)
theory Native_Adapters
  imports Json_Text Wire_Format
begin

text \<open>
  The provider adapters (\<^verbatim>\<open>internal/providers/\<close>: \<^verbatim>\<open>openai\<close>, \<^verbatim>\<open>anthropic\<close>, \<^verbatim>\<open>gemini\<close>, \<^verbatim>\<open>cohere\<close>, \<^verbatim>\<open>vertex\<close>, \<^verbatim>\<open>bedrock\<close>, \<^verbatim>\<open>gemini_stream.go\<close>,
  \<^verbatim>\<open>http.go\<close>): the request each sends, the response it makes of the answer, and the translation of a native event stream
  into the chunks of the chat protocol.

  \<^item> The other side of HTTP is a function from the request to a reply, whose body may break off. The AWS SDK is a parameter in
    the same way: a call answers with an output or an error, a stream is its list of events and the error after it.
  \<^item> A native stream is the text of the body and how it ended; its translation is the chunks written to the pipe and how
    the pipe was closed. \<open>with_reader\<close> cuts it when the reader goes away. The times in a chunk are an argument of its rendering.
  \<^item> Theorems: a stream that is translated to the end has all its text and its usage, and \<open>[DONE]\<close> is written exactly when the
    upstream sent its own end mark, for three adapters by one contract; Cohere's does not keep it.
\<close>

section \<open>HTTP\<close>

datatype body_end = At_EOF | Read_failed call_error

datatype http_reply = Http_failed call_error | Http_reply (rp_status: int) (rp_body: string) (rp_end: body_end)

record http_out =
  ho_method :: string
  ho_url :: string
  ho_headers :: "(string \<times> string) list"
  ho_body :: string

definition MaxErrorBodyBytes :: nat where "MaxErrorBodyBytes = 64 * 1024"

definition ReadErrorBody :: "string \<Rightarrow> string" where
  "ReadErrorBody b = (if length b > MaxErrorBodyBytes then take MaxErrorBodyBytes b @ '' [truncated]'' else b)"

text \<open>What the SDK reads of an error body (\<open>errorBoundTransport\<close>).\<close>

definition limitedErrorBody :: "int \<Rightarrow> string \<Rightarrow> string" where
  "limitedErrorBody st b = (if 300 \<le> st then take MaxErrorBodyBytes b else b)"

text \<open>A reply of at least 400 is an upstream error; a body that does not decode because it broke off fails with the
  error of the read.\<close>

definition checked :: "string \<Rightarrow> http_reply \<Rightarrow> call_error + string \<times> body_end" where
  "checked provider rep =
     (case rep of
        Http_failed err \<Rightarrow> Inl err
      | Http_reply st b fin \<Rightarrow> if 400 \<le> st then Inl (Upstream provider st (ReadErrorBody b)) else Inr (b, fin))"

definition decoded :: "(json \<Rightarrow> 'a option) \<Rightarrow> string \<Rightarrow> string \<times> body_end \<Rightarrow> call_error + 'a" where
  "decoded decode msg bf =
     (case Option.bind (decode_json (fst bf)) decode of
        Some x \<Rightarrow> Inr x
      | None \<Rightarrow> Inl (case snd bf of At_EOF \<Rightarrow> OtherError msg | Read_failed err \<Rightarrow> err))"

definition object_of :: "((string \<times> json) list \<Rightarrow> 'a option) \<Rightarrow> json \<Rightarrow> 'a option" where
  "object_of decode j = Option.bind (as_object j) decode"

text \<open>A struct inside a struct, and a list of structs.\<close>

definition sub_field :: "((string \<times> json) list \<Rightarrow> 'a option) \<Rightarrow> string \<Rightarrow> (string \<times> json) list \<Rightarrow> 'a option" where
  "sub_field decode name t = (case struct_field name t of None \<Rightarrow> decode [] | Some j \<Rightarrow> object_of decode j)"

definition list_field :: "((string \<times> json) list \<Rightarrow> 'a option) \<Rightarrow> string \<Rightarrow> (string \<times> json) list \<Rightarrow> 'a list option" where
  "list_field decode name t =
     (case struct_field name t of
        None \<Rightarrow> Some []
      | Some J_null \<Rightarrow> Some []
      | Some (J_arr xs) \<Rightarrow> those (map (object_of decode) xs)
      | _ \<Rightarrow> None)"

definition opt_field :: "string \<Rightarrow> json option \<Rightarrow> (string \<times> json) list" where
  "opt_field k v = (case v of None \<Rightarrow> [] | Some j \<Rightarrow> [(k, j)])"

definition str_field :: "string \<Rightarrow> string \<Rightarrow> (string \<times> json) list" where
  "str_field k s = (if s = [] then [] else [(k, J_str s)])"

definition request_messages :: "chat_request \<Rightarrow> chat_message list" where
  "request_messages r = (case cr_Messages r of None \<Rightarrow> [] | Some xs \<Rightarrow> xs)"

text \<open>The response an adapter builds.\<close>

definition native_message :: "string \<Rightarrow> chat_message" where
  "native_message content = \<lparr>ms_Role = ''assistant'', ms_Content = content, ms_raw = None, ms_originalRole = [], ms_originalContent = []\<rparr>"

definition native_choice :: "int \<Rightarrow> string \<Rightarrow> string \<Rightarrow> chat_choice" where
  "native_choice i content finish = \<lparr>ch_Index = i, ch_Message = native_message content, ch_FinishReason = finish\<rparr>"

definition native_response :: "string \<Rightarrow> string \<Rightarrow> chat_choice list \<Rightarrow> usage \<Rightarrow> chat_response" where
  "native_response i model choices u = \<lparr>cp_ID = i, cp_Model = model, cp_Choices = choices, cp_Usage = u, cp_raw = None\<rparr>"

definition usage_error :: "string + 'a \<Rightarrow> call_error + 'a" where
  "usage_error x = (case x of Inl e \<Rightarrow> Inl (OtherError e) | Inr u \<Rightarrow> Inr u)"

section \<open>OpenAI\<close>

definition bearer :: "client \<Rightarrow> (string \<times> string) list" where
  "bearer c = (if cl_apiKey c = [] then [] else [(''Authorization'', ''Bearer '' @ cl_apiKey c)])"

definition postChat :: "client \<Rightarrow> chat_request \<Rightarrow> http_out" where
  "postChat c req =
     \<lparr>ho_method = ''POST'', ho_url = cl_baseURL c @ ''/chat/completions'',
      ho_headers = bearer c @ [(''Content-Type'', ''application/json'')] @ (if cr_Stream req then [(''Accept'', ''text/event-stream'')] else []),
      ho_body = write_json (ChatRequest_MarshalJSON req)\<rparr>"

text \<open>\<open>limit\<close> is the response limit of a protected request, 0 without one.\<close>

definition openai_ChatCompletion :: "string \<Rightarrow> int \<Rightarrow> (http_out \<Rightarrow> http_reply) \<Rightarrow> client \<Rightarrow> chat_request \<Rightarrow> call_error + chat_response" where
  "openai_ChatCompletion provider limit send c req =
     bind_ok (checked provider (send (postChat c req))) (\<lambda>bf.
       if limit > 0 then
         (case snd bf of
            Read_failed err \<Rightarrow> if int (length (fst bf)) > limit then Inl (OtherError ''protected response exceeds byte limit'') else Inl err
          | At_EOF \<Rightarrow>
              if int (length (fst bf)) > limit then Inl (OtherError ''protected response exceeds byte limit'')
              else (case Option.bind (parse_json (fst bf)) ChatResponse_UnmarshalJSON of
                      None \<Rightarrow> Inl (OtherError ''decode protected response'')
                    | Some out \<Rightarrow> Inr out))
       else decoded ChatResponse_UnmarshalJSON ''decode response'' bf)"

definition openai_ChatCompletionStream :: "string \<Rightarrow> (http_out \<Rightarrow> http_reply) \<Rightarrow> client \<Rightarrow> chat_request \<Rightarrow> call_error + string \<times> body_end" where
  "openai_ChatCompletionStream provider send c req = checked provider (send (postChat c req))"

definition openai_Embeddings :: "string \<Rightarrow> (http_out \<Rightarrow> http_reply) \<Rightarrow> client \<Rightarrow> embedding_request \<Rightarrow> call_error + embedding_response" where
  "openai_Embeddings provider send c req =
     bind_ok (checked provider (send
         \<lparr>ho_method = ''POST'', ho_url = cl_baseURL c @ ''/embeddings'',
          ho_headers = bearer c @ [(''Content-Type'', ''application/json'')], ho_body = write_json (EmbeddingRequest_MarshalJSON req)\<rparr>))
       (decoded EmbeddingResponse_UnmarshalJSON ''decode response'')"

definition ResponseRequest :: "(http_out \<Rightarrow> http_reply) \<Rightarrow> client \<Rightarrow> string \<Rightarrow> string \<Rightarrow> string \<Rightarrow> http_reply" where
  "ResponseRequest send c meth path raw =
     (if path \<noteq> ''/responses'' \<and> take 11 path \<noteq> ''/responses/'' then Http_failed (OtherError ''invalid Responses resource path'')
      else send \<lparr>ho_method = meth, ho_url = cl_baseURL c @ path,
                 ho_headers = [(''Content-Type'', ''application/json''), (''Accept'', ''application/json, text/event-stream'')] @ bearer c,
                 ho_body = raw\<rparr>)"

section \<open>Anthropic\<close>

record anthropic_request =
  aq_Model :: string
  aq_System :: string
  aq_MaxTokens :: int
  aq_Messages :: "(string \<times> string) list"
  aq_Temperature :: "json option"
  aq_Stream :: bool

definition anthropic_role :: "string \<Rightarrow> string" where
  "anthropic_role r = (if r = ''assistant'' then ''assistant'' else ''user'')"

fun Join :: "string \<Rightarrow> string list \<Rightarrow> string" where
  "Join sep [] = []"
| "Join sep [s] = s"
| "Join sep (s # t # ts) = s @ sep @ Join sep (t # ts)"

definition blank_line :: string where "blank_line = [CHR 0x0A, CHR 0x0A]"

definition buildAnthropicRequest :: "chat_request \<Rightarrow> bool \<Rightarrow> anthropic_request" where
  "buildAnthropicRequest req stream =
     (let mm = request_messages req;
          systemParts = filter (\<lambda>s. TrimSpace s \<noteq> []) (map ms_Content (filter (\<lambda>m. ms_Role m = ''system'') mm))
      in \<lparr>aq_Model = cr_Model req, aq_System = Join blank_line systemParts,
          aq_MaxTokens = (case OutputTokenLimit req of Some n \<Rightarrow> if n > 0 then n else 1024 | None \<Rightarrow> 1024),
          aq_Messages = map (\<lambda>m. (anthropic_role (ms_Role m), ms_Content m)) (filter (\<lambda>m. ms_Role m \<noteq> ''system'') mm),
          aq_Temperature = cr_Temperature req, aq_Stream = stream\<rparr>)"

definition turn_json :: "string \<times> string \<Rightarrow> json" where
  "turn_json m = J_obj [(''role'', J_str (fst m)), (''content'', J_str (snd m))]"

definition anthropic_request_json :: "anthropic_request \<Rightarrow> json" where
  "anthropic_request_json q =
     J_obj ([(''model'', J_str (aq_Model q))] @ str_field ''system'' (aq_System q) @ [(''max_tokens'', J_num (aq_MaxTokens q)),
       (''messages'', J_arr (map turn_json (aq_Messages q)))] @ opt_field ''temperature'' (aq_Temperature q)
       @ (if aq_Stream q then [(''stream'', J_bool True)] else []))"

definition postMessage :: "client \<Rightarrow> chat_request \<Rightarrow> bool \<Rightarrow> http_out" where
  "postMessage c req stream =
     \<lparr>ho_method = ''POST'', ho_url = cl_baseURL c @ ''/messages'',
      ho_headers = [(''x-api-key'', cl_apiKey c), (''anthropic-version'', ''2023-06-01''), (''content-type'', ''application/json'')]
        @ (if stream then [(''accept'', ''text/event-stream'')] else []),
      ho_body = write_json (anthropic_request_json (buildAnthropicRequest req stream))\<rparr>"

definition mapStopReason :: "string \<Rightarrow> string" where
  "mapStopReason reason =
     (if reason = ''end_turn'' \<or> reason = ''stop_sequence'' then ''stop'' else if reason = ''max_tokens'' then ''length'' else [])"

definition decode_anthropic_usage :: "(string \<times> json) list \<Rightarrow> anthropic_usage option" where
  "decode_anthropic_usage t =
     (case (int_field ''input_tokens'' t, int_field ''output_tokens'' t, int_field ''cache_creation_input_tokens'' t,
            int_field ''cache_read_input_tokens'' t, ptr_field decode_cache_creation ''cache_creation'' t) of
        (Some i, Some ot, Some cw, Some cr, Some cc) \<Rightarrow>
          Some \<lparr>a_InputTokens = i, a_OutputTokens = ot, a_CacheCreationInputTokens = cw, a_CacheReadInputTokens = cr, a_CacheCreation = cc\<rparr>
      | _ \<Rightarrow> None)"

text \<open>A block of content: its type and its text.\<close>

definition decode_block :: "(string \<times> json) list \<Rightarrow> (string \<times> string) option" where
  "decode_block t = (case (string_field ''type'' t, string_field ''text'' t) of (Some a, Some b) \<Rightarrow> Some (a, b) | _ \<Rightarrow> None)"

record anthropic_response =
  an_ID :: string
  an_Model :: string
  an_Content :: "(string \<times> string) list"
  an_StopReason :: string
  an_Usage :: anthropic_usage

definition decode_anthropic_response :: "(string \<times> json) list \<Rightarrow> anthropic_response option" where
  "decode_anthropic_response t =
     (case (string_field ''id'' t, string_field ''model'' t, list_field decode_block ''content'' t, string_field ''stop_reason'' t,
            sub_field decode_anthropic_usage ''usage'' t) of
        (Some i, Some m, Some c, Some s, Some u) \<Rightarrow> Some \<lparr>an_ID = i, an_Model = m, an_Content = c, an_StopReason = s, an_Usage = u\<rparr>
      | _ \<Rightarrow> None)"

definition joinTextBlocks :: "(string \<times> string) list \<Rightarrow> string" where
  "joinTextBlocks blocks = concat (map snd (filter (\<lambda>(ty, s). ty = ''text'' \<and> s \<noteq> []) blocks))"

definition anthropic_ChatCompletion :: "(http_out \<Rightarrow> http_reply) \<Rightarrow> client \<Rightarrow> chat_request \<Rightarrow> call_error + chat_response" where
  "anthropic_ChatCompletion send c req =
     bind_ok (checked ''anthropic'' (send (postMessage c req False))) (\<lambda>bf.
     bind_ok (decoded (object_of decode_anthropic_response) ''decode anthropic response'' bf) (\<lambda>out.
     bind_ok (usage_error (AnthropicUsage_Canonical (an_Usage out))) (\<lambda>u.
       Inr (native_response (an_ID out) (an_Model out)
              [native_choice 0 (joinTextBlocks (an_Content out)) (mapStopReason (an_StopReason out))] u))))"

definition anthropic_Embeddings :: "call_error + embedding_response" where
  "anthropic_Embeddings = Inl (OtherError ''anthropic: embeddings not supported'')"

section \<open>Gemini\<close>

type_synonym gemini_content = "string \<times> string list"

record gemini_request =
  gr_Contents :: "gemini_content list"
  gr_SystemInstruction :: "string list option"
  gr_GenerationConfig :: "(json option \<times> int option) option"

definition gemini_role :: "string \<Rightarrow> string" where
  "gemini_role r = (if r = ''assistant'' then ''model'' else ''user'')"

definition buildGeminiRequest :: "chat_request \<Rightarrow> gemini_request" where
  "buildGeminiRequest req =
     (let mm = request_messages req; system = map ms_Content (filter (\<lambda>m. ms_Role m = ''system'') mm)
      in \<lparr>gr_Contents = map (\<lambda>m. (gemini_role (ms_Role m), [ms_Content m])) (filter (\<lambda>m. ms_Role m \<noteq> ''system'') mm),
          gr_SystemInstruction = (if system = [] then None else Some system),
          gr_GenerationConfig =
            (if cr_Temperature req \<noteq> None \<or> OutputTokenLimit req \<noteq> None then Some (cr_Temperature req, OutputTokenLimit req) else None)\<rparr>)"

definition parts_json :: "string list \<Rightarrow> json" where
  "parts_json ps = J_arr (map (\<lambda>p. J_obj [(''text'', J_str p)]) ps)"

definition content_json :: "gemini_content \<Rightarrow> json" where
  "content_json c = J_obj (str_field ''role'' (fst c) @ [(''parts'', parts_json (snd c))])"

text \<open>Without a message the list of contents is nil and so written as \<open>null\<close>.\<close>

definition gemini_request_json :: "gemini_request \<Rightarrow> json" where
  "gemini_request_json q =
     J_obj ([(''contents'', if gr_Contents q = [] then J_null else J_arr (map content_json (gr_Contents q)))]
       @ opt_field ''systemInstruction'' (map_option (\<lambda>ps. J_obj [(''parts'', parts_json ps)]) (gr_SystemInstruction q))
       @ opt_field ''generationConfig'' (map_option (\<lambda>(temp, n). J_obj (opt_field ''temperature'' temp
           @ opt_field ''maxOutputTokens'' (map_option J_num n))) (gr_GenerationConfig q)))"

definition gemini_do :: "client \<Rightarrow> string \<Rightarrow> json \<Rightarrow> http_out" where
  "gemini_do c path j =
     (let url = cl_baseURL c @ path in
      \<lparr>ho_method = ''POST'', ho_url = url @ (if str_contains url ''?'' then ''&key='' else ''?key='') @ cl_apiKey c,
       ho_headers = [(''Content-Type'', ''application/json'')], ho_body = write_json j\<rparr>)"

definition decode_part :: "(string \<times> json) list \<Rightarrow> string option" where
  "decode_part t = string_field ''text'' t"

definition decode_gemini_usage :: "(string \<times> json) list \<Rightarrow> gemini_usage option" where
  "decode_gemini_usage t =
     (case (int_field ''prompttokencount'' t, int_field ''candidatestokencount'' t, int_field ''totaltokencount'' t,
            int_field ''cachedcontenttokencount'' t, int_field ''thoughtstokencount'' t) of
        (Some p, Some c, Some tt, Some cc, Some th) \<Rightarrow>
          Some \<lparr>PromptTokenCount = p, CandidatesTokenCount = c, TotalTokenCount = tt, CachedContentTokenCount = cc, ThoughtsTokenCount = th\<rparr>
      | _ \<Rightarrow> None)"

text \<open>A candidate: its parts and why it ended.\<close>

definition decode_candidate :: "(string \<times> json) list \<Rightarrow> (string list \<times> string) option" where
  "decode_candidate t =
     (case (sub_field (list_field decode_part ''parts'') ''content'' t, string_field ''finishreason'' t) of
        (Some ps, Some f) \<Rightarrow> Some (ps, f) | _ \<Rightarrow> None)"

definition decode_gemini_response :: "(string \<times> json) list \<Rightarrow> ((string list \<times> string) list \<times> gemini_usage) option" where
  "decode_gemini_response t =
     (case (list_field decode_candidate ''candidates'' t, sub_field decode_gemini_usage ''usagemetadata'' t) of
        (Some cs, Some u) \<Rightarrow> Some (cs, u) | _ \<Rightarrow> None)"

definition candidate_choices :: "(string list \<times> string) list \<Rightarrow> chat_choice list" where
  "candidate_choices cs = map (\<lambda>(i, (ps, f)). native_choice (int i) (concat ps) f) (enumerate 0 cs)"

text \<open>Shared by Gemini and Vertex, which differ in the name and the request.\<close>

definition gemini_answer :: "string \<Rightarrow> string \<Rightarrow> string \<Rightarrow> chat_request \<Rightarrow> http_reply \<Rightarrow> call_error + chat_response" where
  "gemini_answer provider prefix msg req rep =
     bind_ok (checked provider rep) (\<lambda>bf.
     bind_ok (decoded (object_of decode_gemini_response) msg bf) (\<lambda>(cs, gu).
     bind_ok (usage_error (GeminiUsage_Canonical gu)) (\<lambda>u.
       Inr (native_response (prefix @ cr_Model req) (cr_Model req) (candidate_choices cs) u))))"

definition gemini_ChatCompletion :: "(http_out \<Rightarrow> http_reply) \<Rightarrow> client \<Rightarrow> chat_request \<Rightarrow> call_error + chat_response" where
  "gemini_ChatCompletion send c req =
     gemini_answer ''gemini'' ''gemini-'' ''decode gemini response'' req
       (send (gemini_do c (''/models/'' @ cr_Model req @ '':generateContent'') (gemini_request_json (buildGeminiRequest req))))"

record native_embeddings =
  ne_Model :: string
  ne_Data :: "(int \<times> json list) list"
  ne_Usage :: usage

definition floats_field :: "(json \<Rightarrow> json option) \<Rightarrow> string \<Rightarrow> (string \<times> json) list \<Rightarrow> json list option" where
  "floats_field f32 name t =
     (case struct_field name t of
        None \<Rightarrow> Some []
      | Some J_null \<Rightarrow> Some []
      | Some (J_arr xs) \<Rightarrow> those (map f32 xs)
      | _ \<Rightarrow> None)"

definition UnsupportedTokenInput :: "string \<Rightarrow> call_error" where
  "UnsupportedTokenInput provider =
     Upstream provider 400 ''this provider adapter cannot translate tokenizer-specific embedding token IDs; use text input or an OpenAI-compatible deployment''"

definition zero_usage :: usage where
  "zero_usage = \<lparr>PromptTokens = 0, CompletionTokens = 0, TotalTokens = 0, PromptTokensDetails = None, CompletionTokensDetails = None,
     CacheCreationInputTokens = 0, CacheReadInputTokens = 0, CacheCreation = None\<rparr>"

definition request_input :: "embedding_request \<Rightarrow> embedding_input" where
  "request_input r = (case eg_Input r of Some b \<Rightarrow> eb_Input b | None \<Rightarrow> \<lparr>ei_Texts = [], ei_Tokens = []\<rparr>)"

fun gemini_embed_texts :: "(json \<Rightarrow> json option) \<Rightarrow> (http_out \<Rightarrow> http_reply) \<Rightarrow> client \<Rightarrow> string \<Rightarrow> int \<Rightarrow> string list \<Rightarrow> call_error + (int \<times> json list) list" where
  "gemini_embed_texts f32 send c model i [] = Inr []"
| "gemini_embed_texts f32 send c model i (txt # txts) =
     bind_ok (checked ''gemini'' (send (gemini_do c (''/models/'' @ model @ '':embedContent'') (J_obj [(''content'', content_json ([], [txt]))])))) (\<lambda>bf.
     bind_ok (decoded (object_of (sub_field (floats_field f32 ''values'') ''embedding'')) ''decode gemini embed'' bf) (\<lambda>vec.
     bind_ok (gemini_embed_texts f32 send c model (i + 1) txts) (\<lambda>rest. Inr ((i, vec) # rest))))"

definition gemini_Embeddings :: "(json \<Rightarrow> json option) \<Rightarrow> (http_out \<Rightarrow> http_reply) \<Rightarrow> client \<Rightarrow> embedding_request \<Rightarrow> call_error + native_embeddings" where
  "gemini_Embeddings f32 send c req =
     (if IsTokenized (request_input req) then Inl (UnsupportedTokenInput ''gemini'')
      else bind_ok (gemini_embed_texts f32 send c (eg_Model req) 0 (ei_Texts (request_input req))) (\<lambda>vecs.
             Inr \<lparr>ne_Model = eg_Model req, ne_Data = vecs, ne_Usage = zero_usage\<rparr>))"

section \<open>Cohere\<close>

definition cohere_chat_json :: "chat_request \<Rightarrow> bool \<Rightarrow> json" where
  "cohere_chat_json req stream =
     J_obj ([(''model'', J_str (cr_Model req)), (''messages'', J_arr (map (\<lambda>m. turn_json (ms_Role m, ms_Content m)) (request_messages req)))]
       @ (if stream then [(''stream'', J_bool True)] else []) @ opt_field ''temperature'' (cr_Temperature req)
       @ opt_field ''max_tokens'' (map_option J_num (OutputTokenLimit req)))"

definition cohere_do :: "client \<Rightarrow> string \<Rightarrow> json \<Rightarrow> http_out" where
  "cohere_do c path j =
     \<lparr>ho_method = ''POST'', ho_url = cl_baseURL c @ path,
      ho_headers = bearer c @ [(''Content-Type'', ''application/json''), (''Accept'', ''application/json'')], ho_body = write_json j\<rparr>"

definition joinContent :: "(string \<times> string) list \<Rightarrow> string" where
  "joinContent parts = concat (map snd (filter (\<lambda>(ty, s). ty = ''text'' \<or> ty = []) parts))"

definition decode_cohere_tokens :: "(string \<times> json) list \<Rightarrow> (int \<times> int) option" where
  "decode_cohere_tokens t =
     (case (int_field ''input_tokens'' t, int_field ''output_tokens'' t) of (Some i, Some ot) \<Rightarrow> Some (i, ot) | _ \<Rightarrow> None)"

definition decode_cohere_response :: "(string \<times> json) list \<Rightarrow> (string \<times> (string \<times> string) list \<times> string \<times> int \<times> int) option" where
  "decode_cohere_response t =
     (case (string_field ''id'' t, sub_field (list_field decode_block ''content'') ''message'' t, string_field ''finish_reason'' t,
            sub_field (sub_field decode_cohere_tokens ''tokens'') ''usage'' t) of
        (Some i, Some c, Some f, Some (ni, no)) \<Rightarrow> Some (i, c, f, ni, no) | _ \<Rightarrow> None)"

definition cohere_ChatCompletion :: "(http_out \<Rightarrow> http_reply) \<Rightarrow> client \<Rightarrow> chat_request \<Rightarrow> call_error + chat_response" where
  "cohere_ChatCompletion send c req =
     bind_ok (checked ''cohere'' (send (cohere_do c ''/v2/chat'' (cohere_chat_json req False)))) (\<lambda>bf.
     bind_ok (decoded (object_of decode_cohere_response) ''decode cohere response'' bf) (\<lambda>(i, parts, finish, ni, no).
       Inr (native_response i (cr_Model req) [native_choice 0 (joinContent parts) finish]
              (zero_usage\<lparr>PromptTokens := ni, CompletionTokens := no, TotalTokens := wrap64 (ni + no)\<rparr>))))"

definition rows_field :: "(json \<Rightarrow> json option) \<Rightarrow> string \<Rightarrow> (string \<times> json) list \<Rightarrow> json list list option" where
  "rows_field f32 name t =
     (case struct_field name t of
        None \<Rightarrow> Some []
      | Some J_null \<Rightarrow> Some []
      | Some (J_arr rows) \<Rightarrow>
          those (map (\<lambda>r. case r of J_null \<Rightarrow> Some [] | J_arr xs \<Rightarrow> those (map f32 xs) | _ \<Rightarrow> None) rows)
      | _ \<Rightarrow> None)"

definition decode_cohere_embed :: "(json \<Rightarrow> json option) \<Rightarrow> (string \<times> json) list \<Rightarrow> (json list list \<times> int) option" where
  "decode_cohere_embed f32 t =
     (case (string_field ''id'' t, sub_field (rows_field f32 ''float'') ''embeddings'' t,
            sub_field (sub_field (int_field ''input_tokens'') ''billed_units'') ''meta'' t) of
        (Some _, Some rows, Some n) \<Rightarrow> Some (rows, n) | _ \<Rightarrow> None)"

definition cohere_Embeddings :: "(json \<Rightarrow> json option) \<Rightarrow> (http_out \<Rightarrow> http_reply) \<Rightarrow> client \<Rightarrow> embedding_request \<Rightarrow> call_error + native_embeddings" where
  "cohere_Embeddings f32 send c req =
     (if IsTokenized (request_input req) then Inl (UnsupportedTokenInput ''cohere'')
      else bind_ok (checked ''cohere'' (send (cohere_do c ''/v2/embed'' (J_obj [(''model'', J_str (eg_Model req)),
               (''input_type'', J_str ''search_document''), (''texts'', J_arr (map J_str (ei_Texts (request_input req))))])))) (\<lambda>bf.
           bind_ok (decoded (object_of (decode_cohere_embed f32)) ''decode cohere embed'' bf) (\<lambda>(rows, n).
             Inr \<lparr>ne_Model = eg_Model req, ne_Data = map (\<lambda>(i, v). (int i, v)) (enumerate 0 rows),
                  ne_Usage = zero_usage\<lparr>PromptTokens := n, TotalTokens := n\<rparr>\<rparr>)))"

section \<open>Vertex\<close>

definition endpoint :: "client \<Rightarrow> string" where
  "endpoint c = ''https://'' @ cl_region c @ ''-aiplatform.googleapis.com/v1/projects/'' @ cl_projectID c @ ''/locations/'' @ cl_region c"

definition isAnthropic :: "string \<Rightarrow> bool" where
  "isAnthropic model \<longleftrightarrow> take 7 model = ''claude-''"

definition vertex_post :: "string \<Rightarrow> json \<Rightarrow> http_out" where
  "vertex_post url j =
     \<lparr>ho_method = ''POST'', ho_url = url, ho_headers = [(''Content-Type'', ''application/json'')], ho_body = write_json j\<rparr>"

text \<open>The same shape as Gemini's own request.\<close>

definition buildVertexGeminiRequest :: "chat_request \<Rightarrow> gemini_request" where
  "buildVertexGeminiRequest req =
     (let mm = request_messages req; system = map ms_Content (filter (\<lambda>m. ms_Role m = ''system'') mm)
      in \<lparr>gr_Contents = map (\<lambda>m. (gemini_role (ms_Role m), [ms_Content m])) (filter (\<lambda>m. ms_Role m \<noteq> ''system'') mm),
          gr_SystemInstruction = (if system = [] then None else Some system),
          gr_GenerationConfig =
            (if cr_Temperature req \<noteq> None \<or> OutputTokenLimit req \<noteq> None then Some (cr_Temperature req, OutputTokenLimit req) else None)\<rparr>)"

definition vertex_gemini_url :: "client \<Rightarrow> string \<Rightarrow> string \<Rightarrow> string" where
  "vertex_gemini_url c model act = endpoint c @ ''/publishers/google/models/'' @ model @ act"

definition geminiChat :: "(http_out \<Rightarrow> http_reply) \<Rightarrow> client \<Rightarrow> chat_request \<Rightarrow> call_error + chat_response" where
  "geminiChat send c req =
     gemini_answer ''vertex'' ''vertex-'' ''decode vertex response'' req
       (send (vertex_post (vertex_gemini_url c (cr_Model req) '':generateContent'') (gemini_request_json (buildVertexGeminiRequest req))))"

record anthropic_vertex_request =
  vq_Messages :: "(string \<times> string) list"
  vq_System :: string
  vq_MaxTokens :: int
  vq_Temperature :: "json option"
  vq_Stream :: bool

fun join_system :: "string \<Rightarrow> string list \<Rightarrow> string" where
  "join_system out [] = out"
| "join_system out (s # ss) = join_system ((if out \<noteq> [] then out @ blank_line else out) @ s) ss"

definition buildAnthropicVertexRequest :: "chat_request \<Rightarrow> bool \<Rightarrow> anthropic_vertex_request" where
  "buildAnthropicVertexRequest req stream =
     (let mm = request_messages req in
      \<lparr>vq_Messages = map (\<lambda>m. (ms_Role m, ms_Content m)) (filter (\<lambda>m. ms_Role m \<noteq> ''system'') mm),
       vq_System = join_system [] (map ms_Content (filter (\<lambda>m. ms_Role m = ''system'') mm)),
       vq_MaxTokens = (case OutputTokenLimit req of Some n \<Rightarrow> n | None \<Rightarrow> 1024),
       vq_Temperature = cr_Temperature req, vq_Stream = stream\<rparr>)"

definition anthropic_vertex_json :: "anthropic_vertex_request \<Rightarrow> json" where
  "anthropic_vertex_json q =
     J_obj ([(''anthropic_version'', J_str ''vertex-2023-10-16''),
       (''messages'', if vq_Messages q = [] then J_null else J_arr (map turn_json (vq_Messages q)))] @ str_field ''system'' (vq_System q)
       @ [(''max_tokens'', J_num (vq_MaxTokens q))] @ opt_field ''temperature'' (vq_Temperature q)
       @ (if vq_Stream q then [(''stream'', J_bool True)] else []))"

definition decode_vertex_anthropic :: "(string \<times> json) list \<Rightarrow> (string \<times> (string \<times> string) list \<times> string \<times> anthropic_usage) option" where
  "decode_vertex_anthropic t =
     (case (string_field ''id'' t, list_field decode_block ''content'' t, string_field ''stop_reason'' t, sub_field decode_anthropic_usage ''usage'' t) of
        (Some i, Some c, Some s, Some u) \<Rightarrow> Some (i, c, s, u) | _ \<Rightarrow> None)"

definition vertex_anthropic_url :: "client \<Rightarrow> string \<Rightarrow> string \<Rightarrow> string" where
  "vertex_anthropic_url c model act = endpoint c @ ''/publishers/anthropic/models/'' @ model @ act"

definition anthropicChat :: "(http_out \<Rightarrow> http_reply) \<Rightarrow> client \<Rightarrow> chat_request \<Rightarrow> call_error + chat_response" where
  "anthropicChat send c req =
     bind_ok (checked ''vertex'' (send (vertex_post (vertex_anthropic_url c (cr_Model req) '':rawPredict'')
         (anthropic_vertex_json (buildAnthropicVertexRequest req False))))) (\<lambda>bf.
     bind_ok (decoded (object_of decode_vertex_anthropic) ''decode anthropic-on-vertex response'' bf) (\<lambda>(i, blocks, stop, au).
     bind_ok (usage_error (AnthropicUsage_Canonical au)) (\<lambda>u.
       Inr (native_response i (cr_Model req) [native_choice 0 (concat (map snd (filter (\<lambda>(ty, s). ty = ''text'') blocks))) stop] u))))"

definition vertex_ChatCompletion :: "(http_out \<Rightarrow> http_reply) \<Rightarrow> client \<Rightarrow> chat_request \<Rightarrow> call_error + chat_response" where
  "vertex_ChatCompletion send c req = (if isAnthropic (cr_Model req) then anthropicChat send c req else geminiChat send c req)"

definition vertex_Embeddings :: "call_error + embedding_response" where
  "vertex_Embeddings = Inl (Upstream ''vertex'' 501 ''vertex embeddings not yet supported in this adapter'')"

section \<open>Bedrock\<close>

text \<open>The AWS SDK's types, as far as the adapter builds and reads them.\<close>

record converse_input =
  ci_ModelId :: string
  ci_System :: "string list"
  ci_Messages :: "(string \<times> string) list"
  ci_InferenceConfig :: "(json option \<times> int option) option"

record cache_detail =
  cd_Ttl :: string
  cd_InputTokens :: "int option"

record token_usage =
  tu_InputTokens :: "int option"
  tu_OutputTokens :: "int option"
  tu_CacheWriteInputTokens :: "int option"
  tu_CacheReadInputTokens :: "int option"
  tu_CacheDetails :: "cache_detail list"

record converse_output =
  co_Message :: "string option list option"
  co_StopReason :: string
  co_Usage :: "token_usage option"

definition splitSystem :: "chat_message list \<Rightarrow> string list \<times> (string \<times> string) list" where
  "splitSystem msgs =
     (map ms_Content (filter (\<lambda>m. ms_Role m = ''system'') msgs),
      map (\<lambda>m. (anthropic_role (ms_Role m), ms_Content m)) (filter (\<lambda>m. ms_Role m \<noteq> ''system'') msgs))"

text \<open>The conversion of the limit to \<open>int32\<close> wraps.\<close>

definition wrap32 :: "int \<Rightarrow> int" where
  "wrap32 n = (n + 2147483648) mod 4294967296 - 2147483648"

definition inferenceConfig :: "(json \<Rightarrow> json) \<Rightarrow> chat_request \<Rightarrow> (json option \<times> int option) option" where
  "inferenceConfig f32 req =
     (if cr_Temperature req = None \<and> OutputTokenLimit req = None then None
      else Some (map_option f32 (cr_Temperature req), map_option wrap32 (OutputTokenLimit req)))"

definition buildConverseInput :: "(json \<Rightarrow> json) \<Rightarrow> chat_request \<Rightarrow> converse_input" where
  "buildConverseInput f32 req =
     (let (system, messages) = splitSystem (request_messages req) in
      \<lparr>ci_ModelId = cr_Model req, ci_System = system, ci_Messages = messages, ci_InferenceConfig = inferenceConfig f32 req\<rparr>)"

definition buildConverseStreamInput :: "(json \<Rightarrow> json) \<Rightarrow> chat_request \<Rightarrow> converse_input" where
  "buildConverseStreamInput f32 req =
     (let (system, messages) = splitSystem (request_messages req) in
      \<lparr>ci_ModelId = cr_Model req, ci_System = system, ci_Messages = messages, ci_InferenceConfig = inferenceConfig f32 req\<rparr>)"

definition ToInt32 :: "int option \<Rightarrow> int" where
  "ToInt32 p = (case p of None \<Rightarrow> 0 | Some n \<Rightarrow> n)"

fun cache_details :: "string list \<Rightarrow> cache_creation_details \<Rightarrow> cache_detail list \<Rightarrow> string + cache_creation_details" where
  "cache_details seen cc [] = Inr cc"
| "cache_details seen cc (d # ds) =
     (if cd_Ttl d \<in> set seen then Inl ''duplicate Bedrock cache TTL usage''
      else if cd_Ttl d = ''5m'' then cache_details (cd_Ttl d # seen) (cc\<lparr>Ephemeral5mInputTokens := ToInt32 (cd_InputTokens d)\<rparr>) ds
      else if cd_Ttl d = ''1h'' then cache_details (cd_Ttl d # seen) (cc\<lparr>Ephemeral1hInputTokens := ToInt32 (cd_InputTokens d)\<rparr>) ds
      else Inl ''unsupported Bedrock cache TTL usage'')"

definition canonicalUsage :: "token_usage option \<Rightarrow> string + usage" where
  "canonicalUsage x =
     (case x of
        None \<Rightarrow> Inr zero_usage
      | Some u \<Rightarrow>
          bind_ok (if tu_CacheDetails u = [] then Inr None
                   else bind_ok (cache_details [] \<lparr>Ephemeral5mInputTokens = 0, Ephemeral1hInputTokens = 0\<rparr> (tu_CacheDetails u)) (\<lambda>cc. Inr (Some cc)))
            (\<lambda>cc. AnthropicUsage_Canonical
               \<lparr>a_InputTokens = ToInt32 (tu_InputTokens u), a_OutputTokens = ToInt32 (tu_OutputTokens u),
                a_CacheCreationInputTokens = ToInt32 (tu_CacheWriteInputTokens u),
                a_CacheReadInputTokens = ToInt32 (tu_CacheReadInputTokens u), a_CacheCreation = cc\<rparr>))"

text \<open>A message is its content blocks, \<open>None\<close> for a block that is not text.\<close>

definition joinText :: "string option list \<Rightarrow> string" where
  "joinText blocks = concat (List.map_filter (\<lambda>b. b) blocks)"

definition convertConverseOutput :: "chat_request \<Rightarrow> converse_output \<Rightarrow> call_error + chat_response" where
  "convertConverseOutput req out =
     bind_ok (if co_Usage out = None then Inr zero_usage else usage_error (canonicalUsage (co_Usage out))) (\<lambda>u.
       Inr (native_response (''bedrock-'' @ cr_Model req) (cr_Model req)
              (case co_Message out of None \<Rightarrow> [] | Some blocks \<Rightarrow> [native_choice 0 (joinText blocks) (co_StopReason out)]) u))"

definition wrapError :: "string \<Rightarrow> call_error" where
  "wrapError msg =
     Upstream ''bedrock''
       (if str_contains msg ''ThrottlingException'' then 429
        else if str_contains msg ''ValidationException'' then 400
        else if str_contains msg ''AccessDeniedException'' then 403
        else if str_contains msg ''ResourceNotFoundException'' then 404
        else 500) msg"

definition bedrock_ChatCompletion :: "(json \<Rightarrow> json) \<Rightarrow> (converse_input \<Rightarrow> string + converse_output) \<Rightarrow> chat_request \<Rightarrow> call_error + chat_response" where
  "bedrock_ChatCompletion f32 aws req =
     (case aws (buildConverseInput f32 req) of Inl msg \<Rightarrow> Inl (wrapError msg) | Inr out \<Rightarrow> convertConverseOutput req out)"

definition bedrock_Embeddings :: "call_error + embedding_response" where
  "bedrock_Embeddings = Inl (Upstream ''bedrock'' 501 ''bedrock embeddings not yet supported in this adapter'')"

section \<open>Lines of a stream\<close>

text \<open>\<open>bufio.Scanner\<close> with lines of less than a megabyte. When a read fails, what came before it is still split.\<close>

fun raw_lines :: "string \<Rightarrow> string \<Rightarrow> string list" where
  "raw_lines acc [] = (if acc = [] then [] else [rev acc])"
| "raw_lines acc (c # cs) = (if c = CHR 0x0A then rev acc # raw_lines [] cs else raw_lines (c # acc) cs)"

definition dropCR :: "string \<Rightarrow> string" where
  "dropCR l = (if l \<noteq> [] \<and> last l = CHR 0x0D then butlast l else l)"

definition maxScannerTokenLen :: int where "maxScannerTokenLen = 1024 * 1024"

definition scan_body :: "string \<times> body_end \<Rightarrow> string list \<times> call_error option" where
  "scan_body bf =
     (let ls = raw_lines [] (fst bf); good = takeWhile (\<lambda>l. int (length l) < maxScannerTokenLen) ls
      in (map dropCR good,
          if length good < length ls then Some (OtherError ''bufio.Scanner: token too long'')
          else (case snd bf of At_EOF \<Rightarrow> None | Read_failed err \<Rightarrow> Some err)))"

text \<open>The payload of a data line.\<close>

definition data_payload :: "string \<Rightarrow> string option" where
  "data_payload line = (if take 5 line = ''data:'' then Some (TrimSpace (drop 5 line)) else None)"

section \<open>What goes into the pipe\<close>

datatype emitted = Chunk (ck_id: string) (ck_model: string) (ck_choices: "json list") (ck_usage: "usage option") | Done_mark

datatype pipe_end = Pipe_closed | Pipe_error call_error

definition num_field :: "string \<Rightarrow> int \<Rightarrow> (string \<times> json) list" where
  "num_field k n = (if n = 0 then [] else [(k, J_num n)])"

definition usage_json :: "usage \<Rightarrow> json" where
  "usage_json u =
     J_obj ([(''prompt_tokens'', J_num (PromptTokens u)), (''completion_tokens'', J_num (CompletionTokens u)), (''total_tokens'', J_num (TotalTokens u))]
       @ opt_field ''prompt_tokens_details'' (map_option (\<lambda>d. J_obj (num_field ''cached_tokens'' (CachedTokens d)
           @ num_field ''audio_tokens'' (PromptAudioTokens d))) (PromptTokensDetails u))
       @ opt_field ''completion_tokens_details'' (map_option (\<lambda>d. J_obj (num_field ''reasoning_tokens'' (ReasoningTokens d)
           @ num_field ''audio_tokens'' (CompletionAudioTokens d))) (CompletionTokensDetails u))
       @ num_field ''cache_creation_input_tokens'' (CacheCreationInputTokens u) @ num_field ''cache_read_input_tokens'' (CacheReadInputTokens u)
       @ opt_field ''cache_creation'' (map_option (\<lambda>d. J_obj (num_field ''ephemeral_5m_input_tokens'' (Ephemeral5mInputTokens d)
           @ num_field ''ephemeral_1h_input_tokens'' (Ephemeral1hInputTokens d))) (CacheCreation u)))"

definition openAIChunk :: "int \<Rightarrow> string \<Rightarrow> string \<Rightarrow> json list \<Rightarrow> usage option \<Rightarrow> json" where
  "openAIChunk created i model choices u =
     J_obj ([(''id'', J_str i), (''object'', J_str ''chat.completion.chunk''), (''created'', J_num created), (''model'', J_str model),
       (''choices'', J_arr choices)] @ opt_field ''usage'' (map_option usage_json u))"

fun chunk_bytes :: "int \<Rightarrow> emitted \<Rightarrow> string" where
  "chunk_bytes created (Chunk i model choices u) = ''data: '' @ write_json (openAIChunk created i model choices u) @ blank_line"
| "chunk_bytes created Done_mark = ''data: [DONE]'' @ blank_line"

text \<open>A reader that goes away after \<open>n\<close> events makes the next write fail, which ends the translation.\<close>

definition with_reader :: "nat \<Rightarrow> emitted list \<times> pipe_end \<Rightarrow> emitted list \<times> pipe_end" where
  "with_reader n out =
     (if length (fst out) \<le> n then out else (take n (fst out), Pipe_error (OtherError ''io: read/write on closed pipe'')))"

section \<open>Anthropic streams\<close>

record anthropic_event =
  av_Type :: string
  av_ID :: string
  av_Model :: string
  av_MessageUsage :: anthropic_usage
  av_DeltaType :: string
  av_Text :: string
  av_StopReason :: string
  av_Usage :: anthropic_usage

definition decode_started :: "(string \<times> json) list \<Rightarrow> (string \<times> string \<times> anthropic_usage) option" where
  "decode_started t =
     (case (string_field ''id'' t, string_field ''model'' t, sub_field decode_anthropic_usage ''usage'' t) of
        (Some i, Some m, Some u) \<Rightarrow> Some (i, m, u) | _ \<Rightarrow> None)"

definition decode_delta :: "(string \<times> json) list \<Rightarrow> (string \<times> string \<times> string) option" where
  "decode_delta t =
     (case (string_field ''type'' t, string_field ''text'' t, string_field ''stop_reason'' t) of
        (Some a, Some b, Some c) \<Rightarrow> Some (a, b, c) | _ \<Rightarrow> None)"

definition decode_anthropic_event :: "(string \<times> json) list \<Rightarrow> anthropic_event option" where
  "decode_anthropic_event t =
     (case (string_field ''type'' t, sub_field decode_started ''message'' t, sub_field decode_delta ''delta'' t,
            sub_field decode_anthropic_usage ''usage'' t) of
        (Some ty, Some (i, m, mu), Some (dt, txt, stop), Some u) \<Rightarrow>
          Some \<lparr>av_Type = ty, av_ID = i, av_Model = m, av_MessageUsage = mu, av_DeltaType = dt, av_Text = txt, av_StopReason = stop, av_Usage = u\<rparr>
      | _ \<Rightarrow> None)"

record translation =
  tr_id :: string
  tr_model :: string
  tr_usage :: usage
  tr_sentAssistantRole :: bool

definition new_translation :: translation where
  "new_translation = \<lparr>tr_id = [], tr_model = [], tr_usage = zero_usage, tr_sentAssistantRole = False\<rparr>"

definition delta_choice :: "(string \<times> json) list \<Rightarrow> json \<Rightarrow> json" where
  "delta_choice delta finish = J_obj [(''index'', J_num 0), (''delta'', J_obj delta), (''finish_reason'', finish)]"

definition anthropic_step :: "translation \<Rightarrow> anthropic_event \<Rightarrow> emitted list \<times> (pipe_end + translation)" where
  "anthropic_step st evt =
     (if av_Type evt = ''message_start'' then
        (case AnthropicUsage_Canonical (av_MessageUsage evt) of
           Inl e \<Rightarrow> ([], Inl (Pipe_error (OtherError e)))
         | Inr u \<Rightarrow> ([], Inr (st\<lparr>tr_id := av_ID evt, tr_model := av_Model evt, tr_usage := u\<rparr>)))
      else if av_Type evt = ''content_block_delta'' then
        (if av_DeltaType evt \<noteq> ''text_delta'' \<or> av_Text evt = [] then ([], Inr st)
         else ([Chunk (tr_id st) (tr_model st)
                  [delta_choice ([(''content'', J_str (av_Text evt))] @ (if tr_sentAssistantRole st then [] else [(''role'', J_str ''assistant'')])) J_null] None],
               Inr (st\<lparr>tr_sentAssistantRole := True\<rparr>)))
      else if av_Type evt = ''message_delta'' then
        (case (if a_OutputTokens (av_Usage evt) \<noteq> 0 then SetCompletionTokens (tr_usage st) (a_OutputTokens (av_Usage evt)) else Inr (tr_usage st)) of
           Inl e \<Rightarrow> ([], Inl (Pipe_error (OtherError e)))
         | Inr u \<Rightarrow>
             let mapped = mapStopReason (av_StopReason evt) in
             ((if mapped \<noteq> [] then [Chunk (tr_id st) (tr_model st) [delta_choice [] (J_str mapped)] None] else []), Inr (st\<lparr>tr_usage := u\<rparr>)))
      else if av_Type evt = ''message_stop'' then
        (let u = tr_usage st;
             u' = (if TotalTokens u = 0 \<and> PromptTokens u > 0 then u\<lparr>TotalTokens := wrap64 (PromptTokens u + CompletionTokens u)\<rparr> else u)
         in ([Chunk (tr_id st) (tr_model st) [] (Some u'), Done_mark], Inl Pipe_closed))
      else if av_Type evt = ''error'' then ([], Inl (Pipe_error (OtherError ''anthropic stream error'')))
      else ([], Inr st))"

text \<open>The lines that carry an event, and the event of each.\<close>

definition anthropic_line :: "string \<Rightarrow> (unit + anthropic_event) option" where
  "anthropic_line line =
     (case data_payload line of
        None \<Rightarrow> None
      | Some data \<Rightarrow>
          if data = [] \<or> data = ''[DONE]'' then None
          else Some (case Option.bind (parse_json data) (object_of decode_anthropic_event) of None \<Rightarrow> Inl () | Some evt \<Rightarrow> Inr evt))"

fun translate_anthropic :: "translation \<Rightarrow> string list \<Rightarrow> emitted list \<times> pipe_end option" where
  "translate_anthropic st [] = ([], None)"
| "translate_anthropic st (line # lines) =
     (case anthropic_line line of
        None \<Rightarrow> translate_anthropic st lines
      | Some (Inl _) \<Rightarrow> ([], Some (Pipe_error (OtherError ''decode anthropic stream event'')))
      | Some (Inr evt) \<Rightarrow>
          (case anthropic_step st evt of
             (out, Inl fin) \<Rightarrow> (out, Some fin)
           | (out, Inr st') \<Rightarrow> let (out', fin) = translate_anthropic st' lines in (out @ out', fin)))"

definition TranslateStream :: "string \<times> body_end \<Rightarrow> emitted list \<times> pipe_end" where
  "TranslateStream bf =
     (let (lines, err) = scan_body bf; (out, fin) = translate_anthropic new_translation lines
      in (out, case fin of
                 Some f \<Rightarrow> f
               | None \<Rightarrow> Pipe_error (case err of Some e \<Rightarrow> e | None \<Rightarrow> OtherError ''unexpected EOF'')))"

definition anthropic_ChatCompletionStream :: "(http_out \<Rightarrow> http_reply) \<Rightarrow> client \<Rightarrow> chat_request \<Rightarrow> call_error + emitted list \<times> pipe_end" where
  "anthropic_ChatCompletionStream send c req =
     bind_ok (checked ''anthropic'' (send (postMessage c req True))) (\<lambda>bf. Inr (TranslateStream bf))"

section \<open>Gemini streams\<close>

record gemini_candidate =
  gc_Index :: int
  gc_Parts :: "(string \<times> bool) list"
  gc_FinishReason :: string

record gemini_event =
  gv_Candidates :: "gemini_candidate list"
  gv_Usage :: "gemini_usage option"
  gv_Error :: bool

definition decode_stream_part :: "(string \<times> json) list \<Rightarrow> (string \<times> bool) option" where
  "decode_stream_part t = (case (string_field ''text'' t, bool_field ''thought'' t) of (Some a, Some b) \<Rightarrow> Some (a, b) | _ \<Rightarrow> None)"

definition decode_stream_candidate :: "(string \<times> json) list \<Rightarrow> gemini_candidate option" where
  "decode_stream_candidate t =
     (case (int_field ''index'' t, sub_field (list_field decode_stream_part ''parts'') ''content'' t, string_field ''finishreason'' t) of
        (Some i, Some ps, Some f) \<Rightarrow> Some \<lparr>gc_Index = i, gc_Parts = ps, gc_FinishReason = f\<rparr> | _ \<Rightarrow> None)"

definition decode_gemini_event :: "(string \<times> json) list \<Rightarrow> gemini_event option" where
  "decode_gemini_event t =
     (case (list_field decode_stream_candidate ''candidates'' t, ptr_field decode_gemini_usage ''usagemetadata'' t) of
        (Some cs, Some u) \<Rightarrow>
          Some \<lparr>gv_Candidates = cs, gv_Usage = u, gv_Error = (case struct_field ''error'' t of None \<Rightarrow> False | Some j \<Rightarrow> j \<noteq> J_null)\<rparr>
      | _ \<Rightarrow> None)"

definition gemini_reason :: "string \<Rightarrow> string" where
  "gemini_reason r = (if r = ''MAX_TOKENS'' then ''length'' else if r \<noteq> ''STOP'' then ''content_filter'' else ''stop'')"

definition candidate_text :: "gemini_candidate \<Rightarrow> string" where
  "candidate_text c = concat (map fst (filter (\<lambda>p. \<not> snd p) (gc_Parts c)))"

definition candidate_choice :: "gemini_candidate \<Rightarrow> json" where
  "candidate_choice c =
     J_obj ([(''index'', J_num (gc_Index c)), (''delta'', J_obj [(''content'', J_str (candidate_text c))])]
       @ (if gc_FinishReason c \<noteq> [] then [(''finish_reason'', J_str (gemini_reason (gc_FinishReason c)))] else []))"

definition gemini_line :: "string \<Rightarrow> (unit + gemini_event) option" where
  "gemini_line line =
     (case data_payload (TrimSpace line) of
        None \<Rightarrow> None
      | Some data \<Rightarrow>
          if data = [] then None
          else Some (case Option.bind (parse_json data) (object_of decode_gemini_event) of None \<Rightarrow> Inl () | Some evt \<Rightarrow> Inr evt))"

text \<open>The third component is whether a candidate has ended, the fourth the last usage.\<close>

fun translate_gemini :: "string \<Rightarrow> string \<Rightarrow> bool \<Rightarrow> usage option \<Rightarrow> string list \<Rightarrow> emitted list \<times> (call_error + bool \<times> usage option)" where
  "translate_gemini i model finished u [] = ([], Inr (finished, u))"
| "translate_gemini i model finished u (line # lines) =
     (case gemini_line line of
        None \<Rightarrow> translate_gemini i model finished u lines
      | Some (Inl _) \<Rightarrow> ([], Inl (OtherError ''invalid character''))
      | Some (Inr evt) \<Rightarrow>
          if gv_Error evt then ([], Inl (OtherError ''Gemini stream error''))
          else (case (case gv_Usage evt of None \<Rightarrow> Inr u | Some gu \<Rightarrow> (case GeminiUsage_Canonical gu of Inl e \<Rightarrow> Inl e | Inr v \<Rightarrow> Inr (Some v))) of
                  Inl e \<Rightarrow> ([], Inl (OtherError e))
                | Inr u' \<Rightarrow>
                    let out = map (\<lambda>c. Chunk i model [candidate_choice c] None) (gv_Candidates evt);
                        (out', fin) = translate_gemini i model (finished \<or> list_ex (\<lambda>c. gc_FinishReason c \<noteq> []) (gv_Candidates evt)) u' lines
                    in (out @ out', fin)))"

definition TranslateGeminiStream :: "string \<Rightarrow> string \<Rightarrow> string \<times> body_end \<Rightarrow> emitted list \<times> pipe_end" where
  "TranslateGeminiStream i model bf =
     (let (lines, err) = scan_body bf; (out, fin) = translate_gemini i model False None lines
      in (case fin of
            Inl e \<Rightarrow> (out, Pipe_error e)
          | Inr (finished, u) \<Rightarrow>
              (case err of
                 Some e \<Rightarrow> (out, Pipe_error e)
               | None \<Rightarrow>
                   if \<not> finished then (out, Pipe_error (OtherError ''unexpected EOF''))
                   else (out @ (case u of None \<Rightarrow> [] | Some v \<Rightarrow> [Chunk i model [] (Some v)]) @ [Done_mark], Pipe_closed))))"

definition gemini_ChatCompletionStream :: "string \<Rightarrow> (http_out \<Rightarrow> http_reply) \<Rightarrow> client \<Rightarrow> chat_request \<Rightarrow> call_error + emitted list \<times> pipe_end" where
  "gemini_ChatCompletionStream i send c req =
     bind_ok (checked ''gemini'' (send (gemini_do c (''/models/'' @ cr_Model req @ '':streamGenerateContent?alt=sse'') (gemini_request_json (buildGeminiRequest req)))))
       (\<lambda>bf. Inr (TranslateGeminiStream i (cr_Model req) bf))"

definition geminiStream :: "string \<Rightarrow> (http_out \<Rightarrow> http_reply) \<Rightarrow> client \<Rightarrow> chat_request \<Rightarrow> call_error + emitted list \<times> pipe_end" where
  "geminiStream i send c req =
     bind_ok (checked ''vertex'' (send (vertex_post (vertex_gemini_url c (cr_Model req) '':streamGenerateContent?alt=sse'')
         (gemini_request_json (buildVertexGeminiRequest req)))))
       (\<lambda>bf. Inr (TranslateGeminiStream i (cr_Model req) bf))"

definition anthropicStream :: "(http_out \<Rightarrow> http_reply) \<Rightarrow> client \<Rightarrow> chat_request \<Rightarrow> call_error + emitted list \<times> pipe_end" where
  "anthropicStream send c req =
     bind_ok (checked ''vertex'' (send (vertex_post (vertex_anthropic_url c (cr_Model req) '':streamRawPredict'')
         (anthropic_vertex_json (buildAnthropicVertexRequest req True)))))
       (\<lambda>bf. Inr (TranslateStream bf))"

definition vertex_ChatCompletionStream :: "string \<Rightarrow> (http_out \<Rightarrow> http_reply) \<Rightarrow> client \<Rightarrow> chat_request \<Rightarrow> call_error + emitted list \<times> pipe_end" where
  "vertex_ChatCompletionStream i send c req = (if isAnthropic (cr_Model req) then anthropicStream send c req else geminiStream i send c req)"

section \<open>Cohere and Bedrock streams\<close>

text \<open>The chunk with a piece of text or a reason to stop.\<close>

definition text_choice :: "string \<Rightarrow> string \<Rightarrow> json" where
  "text_choice deltaText finishReason =
     J_obj ([(''index'', J_num 0),
       (''delta'', J_obj (if deltaText \<noteq> [] then [(''role'', J_str ''assistant''), (''content'', J_str deltaText)] else []))]
       @ (if finishReason \<noteq> [] then [(''finish_reason'', J_str finishReason)] else []))"

definition decode_cohere_event :: "(string \<times> json) list \<Rightarrow> (string \<times> string \<times> string) option" where
  "decode_cohere_event t =
     (case (string_field ''type'' t,
            sub_field (sub_field (sub_field (string_field ''text'') ''content'') ''message'') ''delta'' t,
            sub_field (string_field ''finish_reason'') ''delta'' t) of
        (Some ty, Some txt, Some f) \<Rightarrow> Some (ty, txt, f) | _ \<Rightarrow> None)"

definition cohere_line :: "string \<Rightarrow> string \<Rightarrow> string \<Rightarrow> emitted list" where
  "cohere_line i model line =
     (case data_payload (TrimSpace line) of
        None \<Rightarrow> []
      | Some data \<Rightarrow>
          if data = [] \<or> data = ''[DONE]'' then []
          else (case Option.bind (parse_json data) (object_of decode_cohere_event) of
                  None \<Rightarrow> []
                | Some (ty, txt, f) \<Rightarrow>
                    if ty = ''content-delta'' then [Chunk i model [text_choice txt []] None]
                    else if ty = ''message-end'' then [Chunk i model [text_choice [] f] None]
                    else []))"

text \<open>The error of the scanner is not read.\<close>

definition cohere_translateStream :: "string \<Rightarrow> string \<Rightarrow> string \<times> body_end \<Rightarrow> emitted list \<times> pipe_end" where
  "cohere_translateStream i model bf = (concat (map (cohere_line i model) (fst (scan_body bf))) @ [Done_mark], Pipe_closed)"

definition cohere_ChatCompletionStream :: "string \<Rightarrow> (http_out \<Rightarrow> http_reply) \<Rightarrow> client \<Rightarrow> chat_request \<Rightarrow> call_error + emitted list \<times> pipe_end" where
  "cohere_ChatCompletionStream i send c req =
     bind_ok (checked ''cohere'' (send (cohere_do c ''/v2/chat'' (cohere_chat_json req True)))) (\<lambda>bf. Inr (cohere_translateStream i (cr_Model req) bf))"

text \<open>The events of \<open>ConverseStream\<close>; a delta that is not text is \<open>None\<close>.\<close>

datatype bedrock_event = Content_delta "string option" | Message_stop string | Metadata "token_usage option" | Other_event

fun translate_bedrock :: "string \<Rightarrow> string \<Rightarrow> bool \<Rightarrow> bedrock_event list \<Rightarrow> emitted list \<times> (call_error + bool)" where
  "translate_bedrock i model finished [] = ([], Inr finished)"
| "translate_bedrock i model finished (Content_delta d # evs) =
     (let (out, fin) = translate_bedrock i model finished evs
      in ((case d of None \<Rightarrow> [] | Some txt \<Rightarrow> [Chunk i model [text_choice txt []] None]) @ out, fin))"
| "translate_bedrock i model finished (Message_stop r # evs) =
     (let (out, fin) = translate_bedrock i model True evs in (Chunk i model [text_choice [] r] None # out, fin))"
| "translate_bedrock i model finished (Metadata tu # evs) =
     (case canonicalUsage tu of
        Inl e \<Rightarrow> ([], Inl (OtherError e))
      | Inr u \<Rightarrow> let (out, fin) = translate_bedrock i model finished evs in (Chunk i model [] (Some u) # out, fin))"
| "translate_bedrock i model finished (Other_event # evs) = translate_bedrock i model finished evs"

definition bedrock_translateStream :: "string \<Rightarrow> string \<Rightarrow> bedrock_event list \<times> string option \<Rightarrow> emitted list \<times> pipe_end" where
  "bedrock_translateStream i model es =
     (case translate_bedrock i model False (fst es) of
        (out, Inl e) \<Rightarrow> (out, Pipe_error e)
      | (out, Inr finished) \<Rightarrow>
          (case snd es of
             Some msg \<Rightarrow> (out, Pipe_error (OtherError (''bedrock stream: '' @ msg)))
           | None \<Rightarrow> if \<not> finished then (out, Pipe_error (OtherError ''unexpected EOF'')) else (out @ [Done_mark], Pipe_closed)))"

definition bedrock_ChatCompletionStream ::
  "string \<Rightarrow> (json \<Rightarrow> json) \<Rightarrow> (converse_input \<Rightarrow> string + bedrock_event list \<times> string option) \<Rightarrow> chat_request \<Rightarrow> call_error + emitted list \<times> pipe_end" where
  "bedrock_ChatCompletionStream i f32 aws req =
     (case aws (buildConverseStreamInput f32 req) of
        Inl msg \<Rightarrow> Inl (wrapError msg) | Inr es \<Rightarrow> Inr (bedrock_translateStream i (cr_Model req) es))"

section \<open>A contract of stream translators\<close>

definition choice_text :: "json \<Rightarrow> string" where
  "choice_text j =
     (case j of
        J_obj t \<Rightarrow> (case map_of t ''delta'' of Some (J_obj d) \<Rightarrow> (case map_of d ''content'' of Some (J_str s) \<Rightarrow> s | _ \<Rightarrow> []) | _ \<Rightarrow> [])
      | _ \<Rightarrow> [])"

fun chunk_text :: "emitted \<Rightarrow> string" where
  "chunk_text (Chunk _ _ choices _) = concat (map choice_text choices)"
| "chunk_text Done_mark = []"

text \<open>The text a client of the stream reads.\<close>

definition stream_text :: "emitted list \<Rightarrow> string" where
  "stream_text out = concat (map chunk_text out)"

lemma stream_text_simps [simp]:
  "stream_text [] = []" "stream_text (x # xs) = chunk_text x @ stream_text xs" "stream_text (xs @ ys) = stream_text xs @ stream_text ys"
  by (simp_all add: stream_text_def)

text \<open>
  \<open>ended s\<close>: the upstream sent its end mark and nothing went wrong before. \<open>reply_text s\<close>: the text it sent up to there. A
  translator keeps the contract if it writes \<open>[DONE]\<close> last and only for such a stream, with all its text.
\<close>

locale stream_translator =
  fixes translate :: "'s \<Rightarrow> emitted list \<times> pipe_end"
    and ended :: "'s \<Rightarrow> bool"
    and reply_text :: "'s \<Rightarrow> string"
  assumes closed_after_done: "snd (translate s) = Pipe_closed \<Longrightarrow> \<exists>out. fst (translate s) = out @ [Done_mark] \<and> Done_mark \<notin> set out"
    and error_without_done: "snd (translate s) \<noteq> Pipe_closed \<Longrightarrow> Done_mark \<notin> set (fst (translate s))"
    and complete: "snd (translate s) = Pipe_closed \<Longrightarrow> ended s \<and> stream_text (fst (translate s)) = reply_text s"
begin

lemma done_means_complete:
  assumes "Done_mark \<in> set (fst (with_reader n (translate s)))"
  shows "with_reader n (translate s) = translate s" and "ended s" and "stream_text (fst (translate s)) = reply_text s"
proof -
  have "Done_mark \<in> set (fst (translate s))" using assms by (auto simp: with_reader_def dest: in_set_takeD split: if_splits)
  then have closed: "snd (translate s) = Pipe_closed" using error_without_done by blast
  then obtain out where out: "fst (translate s) = out @ [Done_mark]" "Done_mark \<notin> set out" using closed_after_done by blast
  have "length (fst (translate s)) \<le> n"
  proof (rule ccontr)
    assume "\<not> length (fst (translate s)) \<le> n"
    then have "Done_mark \<in> set (take n out)" using assms out(1) by (auto simp: with_reader_def)
    with out(2) show False by (auto dest: in_set_takeD)
  qed
  then show "with_reader n (translate s) = translate s" by (simp add: with_reader_def)
  show "ended s" "stream_text (fst (translate s)) = reply_text s" using complete [OF closed] by auto
qed

lemma no_done_means_error:
  assumes "Done_mark \<notin> set (fst (with_reader n (translate s)))"
  shows "\<exists>e. snd (with_reader n (translate s)) = Pipe_error e"
proof (cases "length (fst (translate s)) \<le> n")
  case True
  then have "snd (translate s) \<noteq> Pipe_closed" using assms closed_after_done [of s] by (auto simp: with_reader_def)
  with True show ?thesis by (cases "snd (translate s)") (auto simp: with_reader_def)
qed (simp add: with_reader_def)

end

section \<open>Anthropic keeps the contract\<close>

definition anthropic_events :: "string \<times> body_end \<Rightarrow> (unit + anthropic_event) list" where
  "anthropic_events bf = List.map_filter anthropic_line (fst (scan_body bf))"

fun is_stop :: "unit + anthropic_event \<Rightarrow> bool" where
  "is_stop (Inr e) = (av_Type e = ''message_stop'')"
| "is_stop (Inl _) = False"

fun is_sound :: "unit + anthropic_event \<Rightarrow> bool" where
  "is_sound (Inr e) = (av_Type e \<noteq> ''error'')"
| "is_sound (Inl _) = False"

fun event_text :: "unit + anthropic_event \<Rightarrow> string" where
  "event_text (Inr e) = (if av_Type e = ''content_block_delta'' \<and> av_DeltaType e = ''text_delta'' then av_Text e else [])"
| "event_text (Inl _) = []"

definition before_stop :: "(unit + anthropic_event) list \<Rightarrow> (unit + anthropic_event) list" where
  "before_stop evs = takeWhile (\<lambda>r. \<not> is_stop r) evs"

definition events_ended :: "(unit + anthropic_event) list \<Rightarrow> bool" where
  "events_ended evs \<longleftrightarrow> list_ex is_stop evs \<and> list_all is_sound (before_stop evs)"

definition events_text :: "(unit + anthropic_event) list \<Rightarrow> string" where
  "events_text evs = concat (map event_text (before_stop evs))"

definition anthropic_ended :: "string \<times> body_end \<Rightarrow> bool" where
  "anthropic_ended bf = events_ended (anthropic_events bf)"

definition anthropic_text :: "string \<times> body_end \<Rightarrow> string" where
  "anthropic_text bf = events_text (anthropic_events bf)"

lemma events_stop: "is_stop r \<Longrightarrow> events_ended (r # evs) \<and> events_text (r # evs) = []"
  by (simp add: events_ended_def events_text_def before_stop_def)

lemma events_next: "\<not> is_stop r \<Longrightarrow>
   events_ended (r # evs) = (is_sound r \<and> events_ended evs) \<and> events_text (r # evs) = event_text r @ events_text evs"
  by (auto simp: events_ended_def events_text_def before_stop_def)

lemma choice_text_simps [simp]:
  "choice_text (delta_choice ((''content'', J_str s) # d) f) = s"
  "choice_text (delta_choice [] f) = []"
  "choice_text (candidate_choice c) = candidate_text c"
  "choice_text (text_choice t r) = t"
  by (simp_all add: choice_text_def delta_choice_def candidate_choice_def text_choice_def)

lemma anthropic_step_cases:
  assumes "anthropic_step st evt = (out, r)"
  shows "r = Inl Pipe_closed \<Longrightarrow> is_stop (Inr evt) \<and> stream_text out = [] \<and> (\<exists>o1. out = o1 @ [Done_mark] \<and> Done_mark \<notin> set o1)"
    and "r \<noteq> Inl Pipe_closed \<Longrightarrow> Done_mark \<notin> set out"
    and "r = Inr st' \<Longrightarrow> \<not> is_stop (Inr evt) \<and> is_sound (Inr evt) \<and> stream_text out = event_text (Inr evt)"
  using assms by (auto simp: anthropic_step_def Let_def split: if_splits sum.splits)

lemma translate_anthropic_contract:
  "translate_anthropic st lines = (out, fin) \<Longrightarrow>
   (fin = Some Pipe_closed \<longrightarrow> events_ended (List.map_filter anthropic_line lines)
      \<and> stream_text out = events_text (List.map_filter anthropic_line lines)
      \<and> (\<exists>o1. out = o1 @ [Done_mark] \<and> Done_mark \<notin> set o1))
   \<and> (fin \<noteq> Some Pipe_closed \<longrightarrow> Done_mark \<notin> set out)"
proof (induction st lines arbitrary: out fin rule: translate_anthropic.induct)
  case (1 st)
  then show ?case by simp
next
  case (2 st line lines)
  show ?case
  proof (cases "anthropic_line line")
    case None
    with 2 show ?thesis by (simp add: List.map_filter_simps)
  next
    case (Some r)
    show ?thesis
    proof (cases r)
      case (Inl u)
      with Some 2 show ?thesis by (auto simp: List.map_filter_simps)
    next
      case (Inr evt)
      obtain o1 s1 where step: "anthropic_step st evt = (o1, s1)" by fastforce
      note c = anthropic_step_cases [OF step]
      show ?thesis
      proof (cases s1)
        case (Inl f)
        with 2(3) Some Inr step have "out = o1" "fin = Some f" by auto
        with c Some Inr Inl show ?thesis using events_stop [of "Inr evt"] by (auto simp: List.map_filter_simps)
      next
        case cont: (Inr st')
        obtain o2 f2 where rest: "translate_anthropic st' lines = (o2, f2)" by fastforce
        have "out = o1 @ o2" "fin = f2" using 2(3) Some Inr step cont rest by auto
        moreover note 2(2) [OF Some Inr step [symmetric] cont rest]
        moreover have "Done_mark \<notin> set o1" using c(2) cont by simp
        ultimately show ?thesis using c(3) [OF cont] events_next [of "Inr evt" "List.map_filter anthropic_line lines"] Some Inr
          by (auto simp: List.map_filter_simps)
      qed
    qed
  qed
qed

interpretation anthropic_stream: stream_translator TranslateStream anthropic_ended anthropic_text
proof
  fix bf
  obtain lines err where scan: "scan_body bf = (lines, err)" by fastforce
  obtain out fin where tr: "translate_anthropic new_translation lines = (out, fin)" by fastforce
  have eq: "fst (TranslateStream bf) = out" "snd (TranslateStream bf) = Pipe_closed \<longleftrightarrow> fin = Some Pipe_closed"
    by (auto simp: TranslateStream_def scan tr split: option.splits)
  note c = translate_anthropic_contract [OF tr]
  show "snd (TranslateStream bf) = Pipe_closed \<Longrightarrow> \<exists>out. fst (TranslateStream bf) = out @ [Done_mark] \<and> Done_mark \<notin> set out"
    using c eq by blast
  show "snd (TranslateStream bf) \<noteq> Pipe_closed \<Longrightarrow> Done_mark \<notin> set (fst (TranslateStream bf))" using c eq by simp
  show "snd (TranslateStream bf) = Pipe_closed \<Longrightarrow> anthropic_ended bf \<and> stream_text (fst (TranslateStream bf)) = anthropic_text bf"
    using c eq by (simp add: anthropic_ended_def anthropic_text_def anthropic_events_def scan)
qed

section \<open>Gemini and Bedrock keep the contract\<close>

definition gemini_events :: "string \<times> body_end \<Rightarrow> (unit + gemini_event) list" where
  "gemini_events bf = List.map_filter gemini_line (fst (scan_body bf))"

fun gemini_sound :: "unit + gemini_event \<Rightarrow> bool" where
  "gemini_sound (Inr e) = (\<not> gv_Error e)"
| "gemini_sound (Inl _) = False"

fun gemini_finish :: "unit + gemini_event \<Rightarrow> bool" where
  "gemini_finish (Inr e) = list_ex (\<lambda>c. gc_FinishReason c \<noteq> []) (gv_Candidates e)"
| "gemini_finish (Inl _) = False"

fun gemini_text_of :: "unit + gemini_event \<Rightarrow> string" where
  "gemini_text_of (Inr e) = concat (map candidate_text (gv_Candidates e))"
| "gemini_text_of (Inl _) = []"

definition gemini_ended :: "string \<times> body_end \<Rightarrow> bool" where
  "gemini_ended bf \<longleftrightarrow> snd (scan_body bf) = None \<and> list_all gemini_sound (gemini_events bf) \<and> list_ex gemini_finish (gemini_events bf)"

definition gemini_text :: "string \<times> body_end \<Rightarrow> string" where
  "gemini_text bf = concat (map gemini_text_of (gemini_events bf))"

lemma stream_text_candidates: "stream_text (map (\<lambda>c. Chunk i model [candidate_choice c] None) cs) = concat (map candidate_text cs)"
  by (induction cs) auto

lemma translate_gemini_contract:
  "translate_gemini i model finished u lines = (out, fin) \<Longrightarrow>
   Done_mark \<notin> set out
   \<and> (\<forall>b v. fin = Inr (b, v) \<longrightarrow> list_all gemini_sound (List.map_filter gemini_line lines)
        \<and> b = (finished \<or> list_ex gemini_finish (List.map_filter gemini_line lines))
        \<and> stream_text out = concat (map gemini_text_of (List.map_filter gemini_line lines)))"
proof (induction i model finished u lines arbitrary: out fin rule: translate_gemini.induct)
  case (1 i model finished u)
  then show ?case by auto
next
  case (2 i model finished u line lines)
  show ?case
  proof (cases "gemini_line line")
    case None
    with 2 show ?thesis by (simp add: List.map_filter_simps)
  next
    case (Some r)
    show ?thesis
    proof (cases r)
      case (Inl x)
      with Some 2(3) show ?thesis by auto
    next
      case (Inr evt)
      let ?u = "case gv_Usage evt of None \<Rightarrow> Inr u | Some gu \<Rightarrow> (case GeminiUsage_Canonical gu of Inl e \<Rightarrow> Inl e | Inr v \<Rightarrow> Inr (Some v))"
      show ?thesis
      proof (cases "gv_Error evt \<or> (\<exists>e. ?u = Inl e)")
        case True
        have "out = [] \<and> (\<exists>e. fin = Inl e)"
        proof (cases "gv_Error evt")
          case True
          with Some Inr 2(3) show ?thesis by auto
        next
          case False
          with True obtain e where "?u = Inl e" by blast
          with Some Inr False 2(3) show ?thesis by auto
        qed
        then show ?thesis by auto
      next
        case False
        then obtain u' where u': "?u = Inr u'" by (cases ?u) auto
        let ?f = "finished \<or> list_ex (\<lambda>c. gc_FinishReason c \<noteq> []) (gv_Candidates evt)"
        obtain o2 f2 where rest: "translate_gemini i model ?f u' lines = (o2, f2)" by fastforce
        have "out = map (\<lambda>c. Chunk i model [candidate_choice c] None) (gv_Candidates evt) @ o2" "fin = f2"
          using 2(3) Some Inr False u' rest by (auto simp: Let_def)
        moreover have "gv_Error evt = False" using False by simp
        moreover note 2(2) [OF Some Inr _ u' refl rest]
        ultimately show ?thesis using Some Inr by (auto simp: List.map_filter_simps stream_text_candidates)
      qed
    qed
  qed
qed

interpretation gemini_stream: stream_translator "TranslateGeminiStream i model" gemini_ended gemini_text
proof
  fix bf
  obtain lines err where scan: "scan_body bf = (lines, err)" by fastforce
  obtain out fin where tr: "translate_gemini i model False None lines = (out, fin)" by fastforce
  note c = translate_gemini_contract [OF tr]
  have nd: "Done_mark \<notin> set out" using c by blast
  have closed: "\<exists>v tail. fin = Inr (True, v) \<and> err = None \<and> fst (TranslateGeminiStream i model bf) = out @ tail @ [Done_mark]
      \<and> Done_mark \<notin> set tail \<and> stream_text tail = []"
    if "snd (TranslateGeminiStream i model bf) = Pipe_closed"
    using that by (auto simp: TranslateGeminiStream_def scan tr split: sum.splits option.splits if_splits)
  show "\<exists>out. fst (TranslateGeminiStream i model bf) = out @ [Done_mark] \<and> Done_mark \<notin> set out"
    if "snd (TranslateGeminiStream i model bf) = Pipe_closed"
    using closed [OF that] nd by (metis Un_iff append_assoc set_append)
  show "Done_mark \<notin> set (fst (TranslateGeminiStream i model bf))" if "snd (TranslateGeminiStream i model bf) \<noteq> Pipe_closed"
    using that nd by (auto simp: TranslateGeminiStream_def scan tr split: sum.splits option.splits if_splits)
  show "gemini_ended bf \<and> stream_text (fst (TranslateGeminiStream i model bf)) = gemini_text bf"
    if "snd (TranslateGeminiStream i model bf) = Pipe_closed"
  proof -
    note cl = closed [OF that]
    obtain v rest where k: "fin = Inr (True, v)" "err = None" "fst (TranslateGeminiStream i model bf) = out @ rest @ [Done_mark]" "stream_text rest = []"
      using cl by blast
    have "list_all gemini_sound (List.map_filter gemini_line lines) \<and> list_ex gemini_finish (List.map_filter gemini_line lines)
        \<and> stream_text out = concat (map gemini_text_of (List.map_filter gemini_line lines))" using c k(1) by blast
    then show ?thesis by (simp add: k gemini_ended_def gemini_text_def gemini_events_def scan)
  qed
qed

fun bedrock_event_text :: "bedrock_event \<Rightarrow> string" where
  "bedrock_event_text (Content_delta (Some s)) = s"
| "bedrock_event_text _ = []"

fun bedrock_stops :: "bedrock_event \<Rightarrow> bool" where
  "bedrock_stops (Message_stop _) = True"
| "bedrock_stops _ = False"

definition bedrock_ended :: "bedrock_event list \<times> string option \<Rightarrow> bool" where
  "bedrock_ended es \<longleftrightarrow> snd es = None \<and> list_ex bedrock_stops (fst es)"

definition bedrock_text :: "bedrock_event list \<times> string option \<Rightarrow> string" where
  "bedrock_text es = concat (map bedrock_event_text (fst es))"

lemma translate_bedrock_contract:
  "translate_bedrock i model finished evs = (out, fin) \<Longrightarrow>
   Done_mark \<notin> set out
   \<and> (\<forall>b. fin = Inr b \<longrightarrow> b = (finished \<or> list_ex bedrock_stops evs) \<and> stream_text out = concat (map bedrock_event_text evs))"
proof (induction i model finished evs arbitrary: out fin rule: translate_bedrock.induct)
  case (1 i model finished)
  then show ?case by auto
next
  case (2 i model finished d evs)
  obtain o2 f2 where rest: "translate_bedrock i model finished evs = (o2, f2)" by fastforce
  with 2(2) have "out = (case d of None \<Rightarrow> [] | Some txt \<Rightarrow> [Chunk i model [text_choice txt []] None]) @ o2" "fin = f2" by auto
  with 2(1) [OF rest] show ?case by (cases d) auto
next
  case (3 i model finished r evs)
  obtain o2 f2 where rest: "translate_bedrock i model True evs = (o2, f2)" by fastforce
  with 3(2) have "out = Chunk i model [text_choice [] r] None # o2" "fin = f2" by auto
  with 3(1) [OF rest] show ?case by auto
next
  case (4 i model finished tu evs)
  show ?case
  proof (cases "canonicalUsage tu")
    case (Inl e)
    with 4(2) show ?thesis by auto
  next
    case (Inr u)
    obtain o2 f2 where rest: "translate_bedrock i model finished evs = (o2, f2)" by fastforce
    with 4(2) Inr have "out = Chunk i model [] (Some u) # o2" "fin = f2" by auto
    with 4(1) [OF Inr rest] show ?thesis by auto
  qed
next
  case (5 i model finished evs)
  then show ?case by simp
qed

interpretation bedrock_stream: stream_translator "bedrock_translateStream i model" bedrock_ended bedrock_text
proof
  fix es :: "bedrock_event list \<times> string option"
  obtain out fin where tr: "translate_bedrock i model False (fst es) = (out, fin)" by fastforce
  note c = translate_bedrock_contract [OF tr]
  show "snd (bedrock_translateStream i model es) = Pipe_closed \<Longrightarrow>
      \<exists>out. fst (bedrock_translateStream i model es) = out @ [Done_mark] \<and> Done_mark \<notin> set out"
    using c by (auto simp: bedrock_translateStream_def tr split: sum.splits option.splits if_splits)
  show "Done_mark \<notin> set (fst (bedrock_translateStream i model es))" if "snd (bedrock_translateStream i model es) \<noteq> Pipe_closed"
    using that c by (auto simp: bedrock_translateStream_def tr split: sum.splits option.splits if_splits)
  show "bedrock_ended es \<and> stream_text (fst (bedrock_translateStream i model es)) = bedrock_text es"
    if "snd (bedrock_translateStream i model es) = Pipe_closed"
    using that c by (auto simp: bedrock_translateStream_def bedrock_ended_def bedrock_text_def tr split: sum.splits option.splits if_splits)
qed

text \<open>C40: A translated stream ends with \<open>[DONE]\<close> only if the upstream itself ended the reply and nothing before it was an error or
  unreadable, and then the reader has all the text of the reply; otherwise the reader meets an error. This holds for Anthropic,
  Gemini (also on Vertex) and Bedrock streams, wherever the upstream or the reader breaks off.\<close>

theorem translated_streams_end_honestly:
  "(if Done_mark \<in> set (fst (with_reader n (TranslateStream bf)))
    then anthropic_ended bf \<and> stream_text (fst (with_reader n (TranslateStream bf))) = anthropic_text bf
    else (\<exists>e. snd (with_reader n (TranslateStream bf)) = Pipe_error e))
   \<and> (if Done_mark \<in> set (fst (with_reader n (TranslateGeminiStream i model bf)))
      then gemini_ended bf \<and> stream_text (fst (with_reader n (TranslateGeminiStream i model bf))) = gemini_text bf
      else (\<exists>e. snd (with_reader n (TranslateGeminiStream i model bf)) = Pipe_error e))
   \<and> (if Done_mark \<in> set (fst (with_reader n (bedrock_translateStream i model es)))
      then bedrock_ended es \<and> stream_text (fst (with_reader n (bedrock_translateStream i model es))) = bedrock_text es
      else (\<exists>e. snd (with_reader n (bedrock_translateStream i model es)) = Pipe_error e))"
  using anthropic_stream.done_means_complete [of n bf] anthropic_stream.no_done_means_error [of n bf]
    gemini_stream.done_means_complete [of n i model bf] gemini_stream.no_done_means_error [of n i model bf]
    bedrock_stream.done_means_complete [of n i model es] bedrock_stream.no_done_means_error [of n i model es]
  by auto

definition usages :: "emitted list \<Rightarrow> usage list" where
  "usages out = List.map_filter (\<lambda>e. case e of Chunk _ _ _ u \<Rightarrow> u | Done_mark \<Rightarrow> None) out"

definition event_line :: "json \<Rightarrow> string" where
  "event_line j = ''data: '' @ write_json j @ blank_line"

definition sample_claude :: string where
  "sample_claude =
     event_line (J_obj [(''type'', J_str ''message_start''),
       (''message'', J_obj [(''id'', J_str ''m''), (''model'', J_str ''c''), (''usage'', J_obj [(''input_tokens'', J_num 3)])])])
     @ event_line (J_obj [(''type'', J_str ''content_block_delta''), (''delta'', J_obj [(''type'', J_str ''text_delta''), (''text'', J_str ''Hi'')])])
     @ event_line (J_obj [(''type'', J_str ''message_delta''), (''delta'', J_obj [(''stop_reason'', J_str ''end_turn'')]), (''usage'', J_obj [(''output_tokens'', J_num 2)])])
     @ event_line (J_obj [(''type'', J_str ''message_stop'')])"

text \<open>A short reply that ends, and the same reply cut off before its end.\<close>

lemma sample_claude_translated:
  "anthropic_ended (sample_claude, At_EOF)"
  "snd (TranslateStream (sample_claude, At_EOF)) = Pipe_closed"
  "stream_text (fst (TranslateStream (sample_claude, At_EOF))) = ''Hi''"
  "map (\<lambda>u. (PromptTokens u, CompletionTokens u, TotalTokens u)) (usages (fst (TranslateStream (sample_claude, At_EOF)))) = [(3, 2, 5)]"
  "snd (TranslateStream (take 150 sample_claude, At_EOF)) \<noteq> Pipe_closed"
  by code_simp+

text \<open>Cohere's translation does not keep the contract: a stream that breaks off at once looks complete, and an event that does
  not decode is dropped.\<close>

lemma cohere_truncated_looks_complete:
  "cohere_translateStream i model ([], Read_failed e) = ([Done_mark], Pipe_closed)"
  by (simp add: cohere_translateStream_def scan_body_def)

text \<open>A Bedrock call that fails because the client went away is a retryable failure of the deployment.\<close>

lemma cancelled_bedrock_call_counts:
  "IsRetryable (Some (wrapError ''operation error Bedrock Runtime: Converse, context canceled''))"
  by code_simp

section \<open>Complete streams are translated\<close>

text \<open>The counters of the events before the end fit together: they are what a message may report.\<close>

fun counters_ok :: "unit + anthropic_event \<Rightarrow> bool" where
  "counters_ok (Inr e) =
     ((av_Type e = ''message_start'' \<longrightarrow>
         (case AnthropicUsage_Canonical (av_MessageUsage e) of Inr u \<Rightarrow> 0 \<le> PromptTokens u \<and> PromptTokens u \<le> 2 ^ 61 | Inl _ \<Rightarrow> False))
      \<and> (av_Type e = ''message_delta'' \<longrightarrow> 0 \<le> a_OutputTokens (av_Usage e) \<and> a_OutputTokens (av_Usage e) \<le> 2 ^ 61))"
| "counters_ok (Inl _) = False"

definition small_prompt :: "translation \<Rightarrow> bool" where
  "small_prompt st \<longleftrightarrow> 0 \<le> PromptTokens (tr_usage st) \<and> PromptTokens (tr_usage st) \<le> 2 ^ 61"

lemma SetCompletionTokens_small:
  assumes "0 \<le> PromptTokens u" "PromptTokens u \<le> 2 ^ 61" "0 \<le> n" "n \<le> 2 ^ 61"
  obtains v where "SetCompletionTokens u n = Inr v" "PromptTokens v = PromptTokens u"
proof -
  have a: "wrap64 (MaxInt64 - PromptTokens u) = MaxInt64 - PromptTokens u" "wrap64 (MaxInt64 - n) = MaxInt64 - n"
      "wrap64 (PromptTokens u) = PromptTokens u" "wrap64 (PromptTokens u + n) = PromptTokens u + n"
    using assms by (auto intro!: wrap64_id simp: i64_defs)
  have "tokenSum [PromptTokens u, n] = Inr (PromptTokens u + n)"
    using assms by (simp add: tokenSum_def a) (simp add: MaxInt64_def)
  then show thesis by (intro that [of "u\<lparr>CompletionTokens := n, TotalTokens := PromptTokens u + n\<rparr>"]) (simp_all add: SetCompletionTokens_def)
qed

lemma anthropic_step_goes_on:
  assumes "\<not> is_stop (Inr evt)" "is_sound (Inr evt)" "counters_ok (Inr evt)" "small_prompt st"
  obtains out st' where "anthropic_step st evt = (out, Inr st')" "small_prompt st'"
proof (cases "av_Type evt = ''message_delta''")
  case True
  then have n: "0 \<le> a_OutputTokens (av_Usage evt)" "a_OutputTokens (av_Usage evt) \<le> 2 ^ 61" using assms(3) by simp_all
  show thesis
  proof (cases "a_OutputTokens (av_Usage evt) = 0")
    case zero: True
    show thesis using that assms(4) True zero by (simp add: anthropic_step_def Let_def small_prompt_def)
  next
    case False
    obtain v where "SetCompletionTokens (tr_usage st) (a_OutputTokens (av_Usage evt)) = Inr v" "PromptTokens v = PromptTokens (tr_usage st)"
      using SetCompletionTokens_small n assms(4) unfolding small_prompt_def by blast
    then show thesis using that assms(4) True False by (simp add: anthropic_step_def Let_def small_prompt_def)
  qed
next
  case no_delta: False
  show thesis
  proof (cases "av_Type evt = ''message_start''")
    case True
    then obtain u where u: "AnthropicUsage_Canonical (av_MessageUsage evt) = Inr u" "0 \<le> PromptTokens u" "PromptTokens u \<le> 2 ^ 61"
      using assms(3) by (auto split: sum.splits)
    show thesis by (rule that [of "[]" "st\<lparr>tr_id := av_ID evt, tr_model := av_Model evt, tr_usage := u\<rparr>"])
        (use True u in \<open>simp_all add: anthropic_step_def small_prompt_def\<close>)
  next
    case False
    obtain out r where step: "anthropic_step st evt = (out, r)" by fastforce
    have "\<exists>st'. r = Inr st' \<and> tr_usage st' = tr_usage st"
      using step False no_delta assms(1,2) by (auto simp: anthropic_step_def split: if_splits)
    then show thesis using that step assms(4) by (auto simp: small_prompt_def)
  qed
qed

lemma anthropic_step_stops: "is_stop (Inr evt) \<Longrightarrow> snd (anthropic_step st evt) = Inl Pipe_closed"
  by (simp add: anthropic_step_def Let_def)

lemma translate_anthropic_complete:
  assumes "events_ended (List.map_filter anthropic_line lines)"
    and "list_all counters_ok (before_stop (List.map_filter anthropic_line lines))" and "small_prompt st"
  shows "snd (translate_anthropic st lines) = Some Pipe_closed"
  using assms
proof (induction st lines rule: translate_anthropic.induct)
  case (1 st)
  then show ?case by (simp add: events_ended_def)
next
  case (2 st line lines)
  show ?case
  proof (cases "anthropic_line line")
    case None
    with 2 show ?thesis by (simp add: List.map_filter_simps)
  next
    case (Some r)
    let ?evs = "List.map_filter anthropic_line lines"
    have evs: "List.map_filter anthropic_line (line # lines) = r # ?evs" using Some by (simp add: List.map_filter_simps)
    show ?thesis
    proof (cases "is_stop r")
      case True
      then obtain evt where r: "r = Inr evt" by (cases r) auto
      with anthropic_step_stops [of evt st] True Some show ?thesis by (auto split: prod.splits sum.splits)
    next
      case False
      have ok: "is_sound r" "counters_ok r" "events_ended ?evs" "list_all counters_ok (before_stop ?evs)"
        using 2(3,4) False events_next [OF False, of ?evs] unfolding evs by (simp_all add: before_stop_def)
      then obtain evt where r: "r = Inr evt" by (cases r) auto
      obtain out st' where step: "anthropic_step st evt = (out, Inr st')" "small_prompt st'"
        using anthropic_step_goes_on [of evt st] False ok(1,2) 2(5) r by auto
      show ?thesis using 2(2) [OF Some r step(1) [symmetric] refl ok(3,4) step(2)] Some r step by (simp add: case_prod_unfold Let_def)
    qed
  qed
qed

lemma translate_gemini_sound:
  assumes "list_all gemini_sound (List.map_filter gemini_line lines)"
    and "\<And>e gu. Inr e \<in> set (List.map_filter gemini_line lines) \<Longrightarrow> gv_Usage e = Some gu \<Longrightarrow> \<exists>v. GeminiUsage_Canonical gu = Inr v"
  shows "\<exists>v. snd (translate_gemini i model finished u lines) = Inr (finished \<or> list_ex gemini_finish (List.map_filter gemini_line lines), v)"
  using assms
proof (induction i model finished u lines rule: translate_gemini.induct)
  case (1 i model finished u)
  then show ?case by simp
next
  case (2 i model finished u line lines)
  show ?case
  proof (cases "gemini_line line")
    case None
    with 2 show ?thesis by (simp add: List.map_filter_simps)
  next
    case (Some r)
    have evs: "List.map_filter gemini_line (line # lines) = r # List.map_filter gemini_line lines" using Some by (simp add: List.map_filter_simps)
    then obtain evt where r: "r = Inr evt" and ne: "\<not> gv_Error evt" using 2(3) by (cases r) auto
    let ?u = "case gv_Usage evt of None \<Rightarrow> Inr u | Some gu \<Rightarrow> (case GeminiUsage_Canonical gu of Inl e \<Rightarrow> Inl e | Inr v \<Rightarrow> Inr (Some v))"
    obtain u' where u': "?u = Inr u'" using 2(4) [of evt] r evs by (cases "gv_Usage evt") auto
    have "\<exists>v. snd (translate_gemini i model (finished \<or> list_ex (\<lambda>c. gc_FinishReason c \<noteq> []) (gv_Candidates evt)) u' lines)
        = Inr ((finished \<or> list_ex (\<lambda>c. gc_FinishReason c \<noteq> []) (gv_Candidates evt)) \<or> list_ex gemini_finish (List.map_filter gemini_line lines), v)"
      by (rule 2(2) [OF Some r _ u' refl]) (use 2(3,4) evs ne in auto)
    then show ?thesis using Some r ne u' evs by (auto simp: Let_def case_prod_unfold)
  qed
qed

text \<open>
  The other direction of the contract: when the upstream ended the reply and its counters are sound, the reader gets all of
  it and \<open>[DONE]\<close>.
\<close>

lemma complete_streams_are_translated:
  shows "anthropic_ended bf \<Longrightarrow> list_all counters_ok (before_stop (anthropic_events bf)) \<Longrightarrow>
      snd (TranslateStream bf) = Pipe_closed"
    and "gemini_ended bf \<Longrightarrow> (\<And>e gu. Inr e \<in> set (gemini_events bf) \<Longrightarrow> gv_Usage e = Some gu \<Longrightarrow> \<exists>v. GeminiUsage_Canonical gu = Inr v) \<Longrightarrow>
      snd (TranslateGeminiStream i model bf) = Pipe_closed"
proof -
  assume a: "anthropic_ended bf" "list_all counters_ok (before_stop (anthropic_events bf))"
  have "snd (translate_anthropic new_translation (fst (scan_body bf))) = Some Pipe_closed"
    using a by (intro translate_anthropic_complete)
      (simp_all add: anthropic_ended_def anthropic_events_def small_prompt_def new_translation_def zero_usage_def)
  then show "snd (TranslateStream bf) = Pipe_closed" by (simp add: TranslateStream_def case_prod_unfold Let_def)
next
  assume a: "gemini_ended bf" and c: "\<And>e gu. Inr e \<in> set (gemini_events bf) \<Longrightarrow> gv_Usage e = Some gu \<Longrightarrow> \<exists>v. GeminiUsage_Canonical gu = Inr v"
  have b: "snd (scan_body bf) = None" "list_all gemini_sound (gemini_events bf)" "list_ex gemini_finish (gemini_events bf)"
    using a by (auto simp: gemini_ended_def)
  obtain v where "snd (translate_gemini i model False None (fst (scan_body bf))) = Inr (True, v)"
    using translate_gemini_sound [of "fst (scan_body bf)" i model False None] b(2,3) c unfolding gemini_events_def by auto
  then show "snd (TranslateGeminiStream i model bf) = Pipe_closed"
    using b(1) by (auto simp: TranslateGeminiStream_def case_prod_unfold Let_def)
qed

section \<open>Usage on translated streams\<close>

definition billable :: "usage \<Rightarrow> bool" where
  "billable u \<longleftrightarrow> usage_i64 u \<and> consistent_usage u \<and> TotalTokens u = PromptTokens u + CompletionTokens u"

lemma usages_simps [simp]:
  "usages [] = []" "usages (Chunk i m cs None # xs) = usages xs" "usages (Chunk i m cs (Some u) # xs) = u # usages xs"
  "usages (Done_mark # xs) = usages xs" "usages (xs @ ys) = usages xs @ usages ys"
  by (simp_all add: usages_def List.map_filter_simps List.map_filter_def)

lemma zero_usage_billable: "billable zero_usage"
  by (simp add: billable_def zero_usage_def usage_i64_def consistent_usage_def read_consistent_def write_consistent_def
      spec_read_def spec_write_def cost_reasoning_tokens_def i64_defs)

lemma int_field_i64: "int_field name t = Some n \<Longrightarrow> is_i64 n"
  by (auto simp: int_field_def int_ptr_field_def i64_defs split: option.splits json.splits if_splits)

lemma cache_creation_i64:
  "ptr_field decode_cache_creation name t = Some x \<Longrightarrow>
   pred_option (\<lambda>d. is_i64 (Ephemeral5mInputTokens d) \<and> is_i64 (Ephemeral1hInputTokens d)) x"
  using int_field_i64 by (auto simp: ptr_field_def decode_cache_creation_def split: option.splits json.splits)

lemma decode_anthropic_usage_i64: "decode_anthropic_usage t = Some a \<Longrightarrow> anthropic_i64 a"
  using int_field_i64 cache_creation_i64
  by (auto simp: decode_anthropic_usage_def anthropic_i64_def split: option.splits)

lemma decode_gemini_usage_i64: "decode_gemini_usage t = Some a \<Longrightarrow> gemini_i64 a"
  using int_field_i64 by (auto simp: decode_gemini_usage_def gemini_i64_def split: option.splits)

lemma sub_field_Some: "sub_field decode name t = Some x \<Longrightarrow> \<exists>t'. decode t' = Some x"
  by (auto simp: sub_field_def object_of_def bind_eq_Some_conv split: option.splits)

lemma anthropic_event_i64:
  assumes "decode_anthropic_event t = Some e"
  shows "anthropic_i64 (av_MessageUsage e)" and "anthropic_i64 (av_Usage e)"
proof -
  obtain i m mu u where f: "sub_field decode_started ''message'' t = Some (i, m, mu)"
      "sub_field decode_anthropic_usage ''usage'' t = Some u" and e: "av_MessageUsage e = mu" "av_Usage e = u"
    using assms by (auto simp: decode_anthropic_event_def split: option.splits)
  obtain t1 where "decode_started t1 = Some (i, m, mu)" using sub_field_Some [OF f(1)] by blast
  then obtain t2 where "decode_anthropic_usage t2 = Some mu"
    using sub_field_Some [of decode_anthropic_usage] by (auto simp: decode_started_def split: option.splits)
  then show "anthropic_i64 (av_MessageUsage e)" using e decode_anthropic_usage_i64 by simp
  show "anthropic_i64 (av_Usage e)" using e sub_field_Some [OF f(2)] decode_anthropic_usage_i64 by auto
qed

lemma anthropic_line_i64:
  "anthropic_line line = Some (Inr e) \<Longrightarrow> anthropic_i64 (av_MessageUsage e) \<and> anthropic_i64 (av_Usage e)"
  using anthropic_event_i64
  by (auto simp: anthropic_line_def object_of_def bind_eq_Some_conv split: option.splits if_splits)

lemma SetCompletionTokens_billable:
  assumes "billable u" and "CompletionTokensDetails u = None" and "is_i64 n" and "SetCompletionTokens u n = Inr v"
  shows "billable v" and "CompletionTokensDetails v = None"
proof -
  obtain tot where t: "tokenSum [PromptTokens u, n] = Inr tot" and v: "v = u\<lparr>CompletionTokens := n, TotalTokens := tot\<rparr>"
    using assms(4) by (auto simp: SetCompletionTokens_def split: sum.splits)
  have "tot = PromptTokens u + n \<and> 0 \<le> n" using tokenSum_Inr [OF _ t] assms(1,3) by (auto simp: billable_def usage_i64_def)
  moreover have "spec_read v = spec_read u" "spec_write v = spec_write u" "read_consistent v = read_consistent u" "write_consistent v = write_consistent u"
    by (simp_all add: v spec_read_def spec_write_def read_consistent_def write_consistent_def split: option.split)
  moreover have "cost_reasoning_tokens v = 0" "cost_reasoning_tokens u = 0" using assms(2) by (simp_all add: v cost_reasoning_tokens_def)
  ultimately show "billable v" using assms(1,3) by (simp add: billable_def usage_i64_def consistent_usage_def) (simp add: v)
  show "CompletionTokensDetails v = None" using assms(2) by (simp add: v)
qed

definition clean :: "translation \<Rightarrow> bool" where
  "clean st \<longleftrightarrow> billable (tr_usage st) \<and> CompletionTokensDetails (tr_usage st) = None"

lemma canonical_no_reasoning: "AnthropicUsage_Canonical a = Inr u \<Longrightarrow> CompletionTokensDetails u = None"
  by (auto simp: AnthropicUsage_Canonical_def split: sum.splits)

lemma anthropic_step_billable:
  assumes "anthropic_step st evt = (out, r)" and "clean st"
    and "anthropic_i64 (av_MessageUsage evt)" "anthropic_i64 (av_Usage evt)"
  shows "list_all billable (usages out)" and "r = Inr st' \<Longrightarrow> clean st'"
proof -
  have n: "is_i64 (a_OutputTokens (av_Usage evt))" using assms(4) by (simp add: anthropic_i64_def)
  have b: "billable (tr_usage st)" "CompletionTokensDetails (tr_usage st) = None" using assms(2) by (simp_all add: clean_def)
  then have "\<not> (TotalTokens (tr_usage st) = 0 \<and> PromptTokens (tr_usage st) > 0)"
    by (auto simp: billable_def consistent_usage_def)
  then show "list_all billable (usages out)"
    using assms(1) b(1) by (auto simp: anthropic_step_def Let_def split: if_splits sum.splits)
  assume r: "r = Inr st'"
  consider (start) u where "AnthropicUsage_Canonical (av_MessageUsage evt) = Inr u" "tr_usage st' = u"
    | (delta) u where "SetCompletionTokens (tr_usage st) (a_OutputTokens (av_Usage evt)) = Inr u" "tr_usage st' = u"
    | (same) "tr_usage st' = tr_usage st"
    using assms(1) r by (auto simp: anthropic_step_def Let_def split: if_splits sum.splits)
  then show "clean st'"
  proof cases
    case start
    then show ?thesis using anthropic_canonical [OF assms(3)] canonical_no_reasoning by (simp add: clean_def billable_def)
  next
    case delta
    then show ?thesis using SetCompletionTokens_billable [OF b n] by (simp add: clean_def)
  next
    case same
    then show ?thesis using b by (simp add: clean_def)
  qed
qed

lemma translate_anthropic_billable:
  "clean st \<Longrightarrow> list_all billable (usages (fst (translate_anthropic st lines)))"
proof (induction st lines rule: translate_anthropic.induct)
  case (2 st line lines)
  show ?case
  proof (cases "anthropic_line line")
    case None
    with 2 show ?thesis by simp
  next
    case (Some r)
    show ?thesis
    proof (cases r)
      case (Inr evt)
      obtain o1 s1 where step: "anthropic_step st evt = (o1, s1)" by fastforce
      note b = anthropic_step_billable [OF step 2(3)] anthropic_line_i64 [OF Some [unfolded Inr]]
      show ?thesis
      proof (cases s1)
        case (Inl f)
        with Some Inr step b show ?thesis by simp
      next
        case cont: (Inr st')
        with Some Inr step b 2(2) [OF Some Inr step [symmetric] cont] show ?thesis by (simp add: case_prod_unfold Let_def)
      qed
    qed (use Some in simp)
  qed
qed simp

lemma ptr_field_Some: "ptr_field decode name t = Some (Some x) \<Longrightarrow> \<exists>t'. decode t' = Some x"
  by (auto simp: ptr_field_def split: option.splits json.splits)

lemma gemini_event_usage: "decode_gemini_event t = Some e \<Longrightarrow> ptr_field decode_gemini_usage ''usagemetadata'' t = Some (gv_Usage e)"
  by (auto simp: decode_gemini_event_def split: option.splits)

lemma gemini_line_i64:
  assumes "gemini_line line = Some (Inr e)" and "gv_Usage e = Some gu"
  shows "gemini_i64 gu"
proof -
  obtain t where "decode_gemini_event t = Some e"
    using assms(1) by (auto simp: gemini_line_def object_of_def bind_eq_Some_conv split: option.splits if_splits)
  then show ?thesis using gemini_event_usage ptr_field_Some assms(2) decode_gemini_usage_i64 by metis
qed

lemma gemini_billable: "gemini_i64 r \<Longrightarrow> GeminiUsage_Canonical r = Inr u \<Longrightarrow> billable u"
  using gemini_canonical by (simp add: billable_def)

lemma usages_candidates: "usages (map (\<lambda>c. Chunk i model [f c] None) cs) = []"
  by (induction cs) auto

lemma translate_gemini_billable:
  assumes "translate_gemini i model finished u lines = (out, fin)" and "pred_option billable u"
  shows "usages out = [] \<and> (\<forall>b v. fin = Inr (b, v) \<longrightarrow> pred_option billable v)"
  using assms
proof (induction i model finished u lines arbitrary: out fin rule: translate_gemini.induct)
  case (1 i model finished u)
  then show ?case by auto
next
  case (2 i model finished u line lines)
  show ?case
  proof (cases "gemini_line line")
    case None
    with 2 show ?thesis by simp
  next
    case (Some r)
    show ?thesis
    proof (cases r)
      case (Inl x)
      with Some 2(3) show ?thesis by auto
    next
      case (Inr evt)
      let ?u = "case gv_Usage evt of None \<Rightarrow> Inr u | Some gu \<Rightarrow> (case GeminiUsage_Canonical gu of Inl e \<Rightarrow> Inl e | Inr v \<Rightarrow> Inr (Some v))"
      show ?thesis
      proof (cases "\<not> gv_Error evt \<and> (\<exists>u'. ?u = Inr u')")
        case True
        then obtain u' where u': "?u = Inr u'" "\<not> gv_Error evt" by blast
        have b: "pred_option billable u'"
          using u'(1) 2(4) gemini_line_i64 [OF Some [unfolded Inr]] gemini_billable
          by (cases "gv_Usage evt") (auto split: sum.splits)
        let ?f = "finished \<or> list_ex (\<lambda>c. gc_FinishReason c \<noteq> []) (gv_Candidates evt)"
        obtain o2 f2 where rest: "translate_gemini i model ?f u' lines = (o2, f2)" by fastforce
        have "out = map (\<lambda>c. Chunk i model [candidate_choice c] None) (gv_Candidates evt) @ o2" "fin = f2"
          using 2(3) Some Inr u' rest by (auto simp: Let_def)
        with 2(2) [OF Some Inr u'(2,1) refl rest b] show ?thesis by (simp add: usages_candidates)
      next
        case False
        then have "out = [] \<and> (\<exists>e. fin = Inl e)"
          using 2(3) Some Inr by (cases "gv_Error evt"; cases ?u) auto
        then show ?thesis by auto
      qed
    qed
  qed
qed

text \<open>Every usage chunk of a translated Anthropic or Gemini stream is one that the cost engine prices.\<close>

lemma translated_usage_is_billable:
  shows "list_all billable (usages (fst (TranslateStream bf)))"
    and "list_all billable (usages (fst (TranslateGeminiStream i model bf)))"
proof -
  have "clean new_translation" by (simp add: clean_def new_translation_def zero_usage_billable) (simp add: zero_usage_def)
  from translate_anthropic_billable [OF this, of "fst (scan_body bf)"]
  show "list_all billable (usages (fst (TranslateStream bf)))" by (simp add: TranslateStream_def case_prod_unfold Let_def)
  obtain out fin where tr: "translate_gemini i model False None (fst (scan_body bf)) = (out, fin)" by fastforce
  from translate_gemini_billable [OF tr]
  show "list_all billable (usages (fst (TranslateGeminiStream i model bf)))"
    by (auto simp: TranslateGeminiStream_def case_prod_unfold Let_def tr split: sum.splits option.splits)
qed

section \<open>The two ways to Claude\<close>

lemma join_system_Join: "out \<noteq> [] \<Longrightarrow> join_system out ss = Join blank_line (out # ss)"
proof (induction ss arbitrary: out)
  case (Cons s ss)
  then have "join_system (out @ blank_line @ s) ss = Join blank_line ((out @ blank_line @ s) # ss)" by simp
  with Cons.prems show ?case by (cases ss) simp_all
qed simp

text \<open>A request with the roles of the protocol, without blank system prompts and with a sensible limit reaches Claude directly
  and on Vertex with the same messages, system prompt, limit and temperature.\<close>

lemma vertex_and_direct_claude_agree:
  assumes "\<forall>m \<in> set (request_messages req). ms_Role m \<in> {''system'', ''user'', ''assistant''}"
    and "\<forall>m \<in> set (request_messages req). ms_Role m = ''system'' \<longrightarrow> TrimSpace (ms_Content m) \<noteq> []"
    and "case OutputTokenLimit req of None \<Rightarrow> True | Some n \<Rightarrow> 0 < n"
  shows "vq_Messages (buildAnthropicVertexRequest req stream) = aq_Messages (buildAnthropicRequest req stream)"
    and "vq_System (buildAnthropicVertexRequest req stream) = aq_System (buildAnthropicRequest req stream)"
    and "vq_MaxTokens (buildAnthropicVertexRequest req stream) = aq_MaxTokens (buildAnthropicRequest req stream)"
    and "vq_Temperature (buildAnthropicVertexRequest req stream) = aq_Temperature (buildAnthropicRequest req stream)"
proof -
  let ?mm = "request_messages req"
  let ?sys = "map ms_Content (filter (\<lambda>m. ms_Role m = ''system'') ?mm)"
  show "vq_Messages (buildAnthropicVertexRequest req stream) = aq_Messages (buildAnthropicRequest req stream)"
    using assms(1) by (auto simp: buildAnthropicVertexRequest_def buildAnthropicRequest_def Let_def anthropic_role_def intro!: map_cong)
  have keep: "filter (\<lambda>s. TrimSpace s \<noteq> []) ?sys = ?sys" using assms(2) by (auto intro!: filter_True)
  have "join_system [] ?sys = Join blank_line ?sys"
  proof (cases ?sys)
    case (Cons s ss)
    then have "s \<in> set ?sys" by simp
    then have "TrimSpace s \<noteq> []" using assms(2) by auto
    then have "s \<noteq> []" by auto
    with Cons show ?thesis using join_system_Join [of s ss] by simp
  qed simp
  then show "vq_System (buildAnthropicVertexRequest req stream) = aq_System (buildAnthropicRequest req stream)"
    by (simp add: buildAnthropicVertexRequest_def buildAnthropicRequest_def Let_def keep)
  show "vq_MaxTokens (buildAnthropicVertexRequest req stream) = aq_MaxTokens (buildAnthropicRequest req stream)"
    using assms(3) by (simp add: buildAnthropicVertexRequest_def buildAnthropicRequest_def Let_def split: option.splits)
  show "vq_Temperature (buildAnthropicVertexRequest req stream) = aq_Temperature (buildAnthropicRequest req stream)"
    by (simp add: buildAnthropicVertexRequest_def buildAnthropicRequest_def Let_def)
qed

end
